(* ===== verification/Prelude.thy ===== *)
theory Prelude
  imports Main "HOL-Library.Word"
begin

unbundle bit_operations_syntax

text \<open>
  Shared vocabulary and automation: the machine types of the code
  (\<open>uintptr_t\<close>, \<open>uint8_t\<close>, \<open>long\<close>), little-endian words and byte-addressed
  memory, the outcome of running C code (a value, a failed \<open>assert\<close>, undefined
  behaviour, no return) with the state-passing combinators in which every
  component is written, and the weakest-precondition calculus \<open>wp\<close> that the
  component proofs use. The collection \<open>wp_simps\<close> holds the rewrite rules that
  push \<open>wp\<close> through a program; \<open>wp_specs\<close> collects specifications used as
  introduction rules.
\<close>

named_theorems wp_simps
named_theorems wp_specs

type_synonym byte = "8 word"
type_synonym addr = "64 word"
type_synonym pid = int


section \<open>Little-endian words\<close>

definition byte_of :: "64 word \<Rightarrow> nat \<Rightarrow> byte" where
  "byte_of w i = ucast (drop_bit (8 * i) w)"

fun word_of_bytes :: "byte list \<Rightarrow> 64 word" where
  "word_of_bytes [] = 0"
| "word_of_bytes (b # bs) = ucast b OR push_bit 8 (word_of_bytes bs)"

definition bytes_of_word :: "64 word \<Rightarrow> byte list" where
  "bytes_of_word w = map (byte_of w) [0..<8]"

lemma bit_byte_of: "bit (byte_of w i) n \<longleftrightarrow> n < 8 \<and> bit w (8 * i + n)"
  by (auto simp: byte_of_def bit_simps dest: bit_imp_le_length)

lemma bit_word_of_bytes:
  "bit (word_of_bytes bs) n \<longleftrightarrow>
     n < 64 \<and> n div 8 < length bs \<and> bit (bs ! (n div 8)) (n mod 8)"
proof (induction bs arbitrary: n)
  case Nil
  then show ?case by simp
next
  case (Cons b bs)
  show ?case
  proof (cases "n < 8")
    case True
    then show ?thesis by (auto simp: bit_simps)
  next
    case False
    then obtain m where m: "n = m + 8" by (metis add.commute le_Suc_ex not_less)
    have "bit (ucast b :: 64 word) n = False"
      using False by (auto simp: bit_simps dest: bit_imp_le_length)
    moreover have "bit (push_bit 8 (word_of_bytes bs)) n \<longleftrightarrow> n < 64 \<and> bit (word_of_bytes bs) m"
      by (auto simp: bit_simps m)
    moreover have "(m + 8) div 8 = Suc (m div 8)" by simp
    ultimately show ?thesis
      by (auto simp: bit_or_iff Cons.IH m)
  qed
qed

lemma byte_of_word_of_bytes:
  "i < 8 \<Longrightarrow> byte_of (word_of_bytes bs) i = (if i < length bs then bs ! i else 0)"
  by (rule bit_word_eqI) (auto simp: bit_byte_of bit_word_of_bytes)

lemma word_eq_by_bytes:
  assumes "\<And>i. i < 8 \<Longrightarrow> byte_of v i = byte_of w i"
  shows "v = w"
proof (rule bit_word_eqI)
  fix n assume "n < LENGTH(64)"
  then have "bit (byte_of v (n div 8)) (n mod 8) = bit (byte_of w (n div 8)) (n mod 8)"
    using assms [of "n div 8"] by simp
  then show "bit v n = bit w n" by (simp add: bit_byte_of)
qed

lemma length_bytes_of_word [simp]: "length (bytes_of_word w) = 8"
  by (simp add: bytes_of_word_def)

lemma word_of_bytes_of_word [simp]: "word_of_bytes (bytes_of_word w) = w"
  by (rule word_eq_by_bytes) (simp add: byte_of_word_of_bytes bytes_of_word_def)


section \<open>Byte-addressed memory\<close>

type_synonym memory = "addr \<Rightarrow> byte"

definition read_word :: "memory \<Rightarrow> addr \<Rightarrow> 64 word" where
  "read_word m a = word_of_bytes (map (\<lambda>i. m (a + of_nat i)) [0..<8])"

definition write_word :: "memory \<Rightarrow> addr \<Rightarrow> 64 word \<Rightarrow> memory" where
  "write_word m a v = (\<lambda>x. if unat (x - a) < 8 then byte_of v (unat (x - a)) else m x)"

definition write_bytes :: "memory \<Rightarrow> addr \<Rightarrow> byte list \<Rightarrow> memory" where
  "write_bytes m a bs = (\<lambda>x. if unat (x - a) < length bs then bs ! unat (x - a) else m x)"

lemma byte_of_read_word: "i < 8 \<Longrightarrow> byte_of (read_word m a) i = m (a + of_nat i)"
  by (simp add: read_word_def byte_of_word_of_bytes)

lemma read_word_low: "ucast (read_word m a) = m a"
  using byte_of_read_word [of 0 m a] by (simp add: byte_of_def)

text \<open>Replacing the lowest byte of the word at \<open>a\<close> touches the byte at \<open>a\<close> only.\<close>

lemma write_word_low_byte:
  assumes "\<And>i. 0 < i \<Longrightarrow> i < 8 \<Longrightarrow> byte_of v i = byte_of (read_word m a) i"
  shows "write_word m a v = m(a := byte_of v 0)"
proof
  fix x
  show "write_word m a v x = (m(a := byte_of v 0)) x"
  proof (cases "unat (x - a) < 8")
    case False
    then have "x \<noteq> a" by auto
    with False show ?thesis by (simp add: write_word_def)
  next
    case True
    show ?thesis
    proof (cases "x = a")
      case True
      then show ?thesis by (simp add: write_word_def)
    next
      case False
      then have pos: "0 < unat (x - a)" by (simp add: unat_gt_0)
      have "a + of_nat (unat (x - a)) = x" by simp
      with True pos assms [of "unat (x - a)"] False show ?thesis
        by (simp add: write_word_def byte_of_read_word)
    qed
  qed
qed

lemma byte_of_low_replaced:
  assumes "i < 8"
  shows "byte_of ((v AND NOT 0xFF) OR ucast (b :: byte)) i = (if i = 0 then b else byte_of v i)"
proof (rule bit_word_eqI)
  fix n assume n: "n < LENGTH(8)"
  have mask: "(0xFF :: 64 word) = mask 8" by (simp add: mask_eq_exp_minus_1)
  show "bit (byte_of ((v AND NOT 0xFF) OR ucast b) i) n = bit (if i = 0 then b else byte_of v i) n"
    using assms n by (cases i) (auto simp: bit_byte_of mask bit_simps dest: bit_imp_le_length)
qed

lemma poke_low_byte:
  "write_word m a ((read_word m a AND NOT 0xFF) OR ucast (b :: byte)) = m(a := b)"
  using write_word_low_byte [of "(read_word m a AND NOT 0xFF) OR ucast b" m a]
  by (simp only: byte_of_low_replaced) simp


section \<open>Outcomes of C code\<close>

text \<open>
  Running a function of the program returns a value, ends in a failed
  \<open>assert\<close>, runs into undefined behaviour (a dangling or null dereference, an
  access out of bounds, a conversion without its argument) or does not return.
\<close>

datatype 'a outcome = Ret 'a | Abort | UB | Diverge

type_synonym ('s, 'a) prog = "'s \<Rightarrow> ('a \<times> 's) outcome"

definition ret :: "'a \<Rightarrow> ('s, 'a) prog" where
  "ret a = (\<lambda>s. Ret (a, s))"

definition bnd :: "('s, 'a) prog \<Rightarrow> ('a \<Rightarrow> ('s, 'b) prog) \<Rightarrow> ('s, 'b) prog" where
  "bnd m k = (\<lambda>s. case m s of Ret (a, s') \<Rightarrow> k a s' | Abort \<Rightarrow> Abort | UB \<Rightarrow> UB | Diverge \<Rightarrow> Diverge)"

definition gets :: "('s \<Rightarrow> 'a) \<Rightarrow> ('s, 'a) prog" where
  "gets f = (\<lambda>s. Ret (f s, s))"

definition modify :: "('s \<Rightarrow> 's) \<Rightarrow> ('s, unit) prog" where
  "modify f = (\<lambda>s. Ret ((), f s))"

definition undefined_behaviour :: "('s, 'a) prog" where
  "undefined_behaviour = (\<lambda>s. UB)"

definition assertion_failed :: "('s, 'a) prog" where
  "assertion_failed = (\<lambda>s. Abort)"

definition c_assert :: "bool \<Rightarrow> ('s, 'a) prog \<Rightarrow> ('s, 'a) prog" where
  "c_assert b m = (if b then m else assertion_failed)"

lemma bnd_ret [simp]: "bnd (ret a) k = k a"
  by (simp add: bnd_def ret_def)

lemma bnd_assoc: "bnd (bnd m k) h = bnd m (\<lambda>a. bnd (k a) h)"
  by (auto simp: bnd_def fun_eq_iff split: outcome.splits)

lemma bnd_RetE:
  assumes "bnd m k s = Ret r"
  obtains a u where "m s = Ret (a, u)" "k a u = Ret r"
  using assms by (auto simp: bnd_def split: outcome.splits)


section \<open>Weakest preconditions\<close>

text \<open>
  \<open>wp m Q s\<close>: run from \<open>s\<close>, the program \<open>m\<close> returns, and the value and the state
  it returns satisfy \<open>Q\<close>. Total correctness: it excludes failed assertions,
  undefined behaviour and divergence.
\<close>

definition wp :: "('s, 'a) prog \<Rightarrow> ('a \<Rightarrow> 's \<Rightarrow> bool) \<Rightarrow> 's \<Rightarrow> bool" where
  "wp m Q s = (case m s of Ret (a, s') \<Rightarrow> Q a s' | _ \<Rightarrow> False)"

lemma wp_iff: "wp m Q s \<longleftrightarrow> (\<exists>a s'. m s = Ret (a, s') \<and> Q a s')"
  by (auto simp: wp_def split: outcome.splits)

lemma wp_mono: "wp m P s \<Longrightarrow> (\<And>a s'. P a s' \<Longrightarrow> Q a s') \<Longrightarrow> wp m Q s"
  by (auto simp: wp_iff)

lemma wp_conj: "wp m P s \<Longrightarrow> wp m Q s \<Longrightarrow> wp m (\<lambda>a s'. P a s' \<and> Q a s') s"
  by (auto simp: wp_iff)

lemma wp_RetD: "wp m Q s \<Longrightarrow> m s = Ret (a, s') \<Longrightarrow> Q a s'"
  by (simp add: wp_def)

lemma wp_ret [wp_simps]: "wp (ret a) Q s = Q a s"
  by (simp add: wp_def ret_def)

lemma wp_bnd [wp_simps]: "wp (bnd m k) Q s = wp m (\<lambda>a s'. wp (k a) Q s') s"
  by (auto simp: wp_def bnd_def split: outcome.splits)

lemma wp_gets [wp_simps]: "wp (gets f) Q s = Q (f s) s"
  by (simp add: wp_def gets_def)

lemma wp_modify [wp_simps]: "wp (modify f) Q s = Q () (f s)"
  by (simp add: wp_def modify_def)

lemma wp_undefined [wp_simps]: "wp undefined_behaviour Q s = False"
  by (simp add: wp_def undefined_behaviour_def)

lemma wp_assertion_failed [wp_simps]: "wp assertion_failed Q s = False"
  by (simp add: wp_def assertion_failed_def)

lemma wp_assert [wp_simps]: "wp (c_assert b m) Q s = (b \<and> wp m Q s)"
  by (simp add: c_assert_def wp_assertion_failed)

lemma wp_if [wp_simps]: "wp (if b then m else m') Q s = (if b then wp m Q s else wp m' Q s)"
  by simp

lemma wp_case_option [wp_simps]:
  "wp (case x of None \<Rightarrow> m | Some y \<Rightarrow> f y) Q s =
     (case x of None \<Rightarrow> wp m Q s | Some y \<Rightarrow> wp (f y) Q s)"
  by (cases x) auto

lemma wp_case_sum [wp_simps]:
  "wp (case x of Inl e \<Rightarrow> f e | Inr y \<Rightarrow> g y) Q s =
     (case x of Inl e \<Rightarrow> wp (f e) Q s | Inr y \<Rightarrow> wp (g y) Q s)"
  by (cases x) auto

lemma wp_case_prod [wp_simps]:
  "wp (case x of (a, b) \<Rightarrow> f a b) Q s = (case x of (a, b) \<Rightarrow> wp (f a b) Q s)"
  by (cases x) auto

lemma wp_let [wp_simps]: "wp (let x = e in f x) Q s = (let x = e in wp (f x) Q s)"
  by (simp add: Let_def)

lemma wp_bndI:
  "wp m P s \<Longrightarrow> (\<And>a s'. P a s' \<Longrightarrow> wp (k a) Q s') \<Longrightarrow> wp (bnd m k) Q s"
  by (auto simp: wp_bnd intro: wp_mono)


section \<open>Calls that are repeated while interrupted\<close>

definition EINTR :: int where "EINTR = 4"

text \<open>
  \<open>do { r = call(...); } while (r == -1 && errno == EINTR);\<close> A call answers
  \<open>Inl e\<close> where it returns -1 and sets \<open>errno\<close> to \<open>e\<close>. The loop may never end;
  \<open>None\<close> then.
\<close>

partial_function (option) retry_eintr ::
  "('s \<Rightarrow> (int + 'a) \<times> 's) \<Rightarrow> 's \<Rightarrow> ((int + 'a) \<times> 's) option" where
  "retry_eintr call s =
     (case call s of
        (Inl e, s') \<Rightarrow> if e = EINTR then retry_eintr call s' else Some (Inl e, s')
      | (Inr r, s') \<Rightarrow> Some (Inr r, s'))"

text \<open>The states after \<open>n\<close> interrupted calls.\<close>

fun eintr_after :: "('s \<Rightarrow> (int + 'a) \<times> 's) \<Rightarrow> nat \<Rightarrow> 's \<Rightarrow> bool" where
  "eintr_after call 0 s = (fst (call s) \<noteq> Inl EINTR)"
| "eintr_after call (Suc n) s =
     (fst (call s) = Inl EINTR \<and> eintr_after call n (snd (call s)))"

lemma retry_eintr_settles:
  assumes "eintr_after call n s" "I s" "\<And>t. I t \<Longrightarrow> I (snd (call t))"
  shows "\<exists>t. I t \<and> retry_eintr call s = Some (call t) \<and> fst (call t) \<noteq> Inl EINTR"
  using assms
proof (induction n arbitrary: s)
  case 0
  then have "retry_eintr call s = Some (call s)"
    by (subst retry_eintr.simps) (auto split: prod.splits sum.splits)
  with 0 show ?case by auto
next
  case (Suc n)
  then have "retry_eintr call s = retry_eintr call (snd (call s))"
    by (subst retry_eintr.simps) (auto split: prod.splits sum.splits)
  with Suc show ?case by auto
qed

text \<open>An interrupted call is invisible but for what it did to the state.\<close>

lemma retry_eintr_steps:
  "eintr_after call n s \<Longrightarrow> retry_eintr call s = Some (call (((\<lambda>t. snd (call t)) ^^ n) s))"
proof (induction n arbitrary: s)
  case 0
  then show ?case by (subst retry_eintr.simps) (auto split: prod.splits sum.splits)
next
  case (Suc n)
  then have "retry_eintr call s = retry_eintr call (snd (call s))"
    by (subst retry_eintr.simps) (auto split: prod.splits sum.splits)
  with Suc show ?case by (simp add: funpow_Suc_right del: funpow.simps)
qed

section \<open>Loops\<close>

text \<open>
  \<open>while\<close> with a body that goes on (\<open>Inl\<close>) or leaves the loop (\<open>Inr\<close>). It may not end.
\<close>

partial_function (option) run_loop ::
  "('x \<Rightarrow> ('s, 'x + 'r) prog) \<Rightarrow> 'x \<Rightarrow> 's \<Rightarrow> ('r \<times> 's) outcome option" where
  "run_loop body x s =
     (case body x s of
        Ret (r, s') \<Rightarrow> (case r of Inl x' \<Rightarrow> run_loop body x' s' | Inr v \<Rightarrow> Some (Ret (v, s')))
      | Abort \<Rightarrow> Some Abort
      | UB \<Rightarrow> Some UB
      | Diverge \<Rightarrow> Some Diverge)"

definition loop :: "('x \<Rightarrow> ('s, 'x + 'r) prog) \<Rightarrow> 'x \<Rightarrow> ('s, 'r) prog" where
  "loop body x = (\<lambda>s. case run_loop body x s of None \<Rightarrow> Diverge | Some r \<Rightarrow> r)"

lemma wp_loop:
  "wp (loop body x) Q s = wp (body x) (\<lambda>r s'. case r of Inl x' \<Rightarrow> wp (loop body x') Q s' | Inr v \<Rightarrow> Q v s') s"
  unfolding wp_def loop_def
  by (subst run_loop.simps) (auto split: outcome.splits sum.splits)

text \<open>What a loop keeps when it ends.\<close>

lemma loop_keeps:
  fixes body :: "'x \<Rightarrow> ('s, 'x + 'r) prog"
  assumes step: "\<And>x s r s'. I s \<Longrightarrow> body x s = Ret (r, s') \<Longrightarrow> I s'" and I: "I s" and run: "loop body x s = Ret (v, s')"
  shows "I s'"
proof -
  define P :: "('x \<Rightarrow> ('s, 'x + 'r) prog) \<Rightarrow> 'x \<Rightarrow> 's \<Rightarrow> ('r \<times> 's) outcome \<Rightarrow> bool" where "P = (\<lambda>body x s y. (\<forall>x s r s'. I s \<longrightarrow> body x s = Ret (r, s') \<longrightarrow> I s') \<longrightarrow> I s \<longrightarrow> (\<forall>v s'. y = Ret (v, s') \<longrightarrow> I s'))"
  note induct = run_loop.raw_induct [where P = P and xa = "((body, x), s)", unfolded prod.case]
  have ended: "run_loop body x s = Some (Ret (v, s'))" using run by (auto simp: loop_def split: option.splits)
  have "P body x s y" if "run_loop body x s = Some y" for y
  proof (rule induct [OF _ that])
    fix rec and body :: "'x \<Rightarrow> ('s, 'x + 'r) prog" and x s y
    assume IH: "\<And>b x s y. rec b x s = Some y \<Longrightarrow> P b x s y"
      and eq: "(case body x s of
        Ret (r, s') \<Rightarrow> (case r of Inl x' \<Rightarrow> rec body x' s' | Inr v \<Rightarrow> Some (Ret (v, s')))
      | Abort \<Rightarrow> Some Abort | UB \<Rightarrow> Some UB | Diverge \<Rightarrow> Some Diverge) = Some y"
    show "P body x s y" unfolding P_def
    proof (intro impI allI)
      fix v s'
      assume keeps: "\<forall>x s r s'. I s \<longrightarrow> body x s = Ret (r, s') \<longrightarrow> I s'" and I: "I s" and y: "y = Ret (v, s')"
      then obtain r u where r: "body x s = Ret (r, u)" using eq by (auto split: outcome.splits)
      then have u: "I u" using keeps I by blast
      show "I s'"
      proof (cases r)
        case (Inl x')
        then have P: "P body x' u y" using eq r IH by simp
        have "\<forall>v2 s2. y = Ret (v2, s2) \<longrightarrow> I s2" by (rule P [unfolded P_def, THEN mp, OF keeps, THEN mp, OF u])
        then show ?thesis using y by blast
      next
        case (Inr v')
        then show ?thesis using eq r y u by simp
      qed
    qed
  qed
  from this [OF ended] have P: "P body x s (Ret (v, s'))" .
  have keeps: "\<forall>x s r s'. I s \<longrightarrow> body x s = Ret (r, s') \<longrightarrow> I s'" by (intro allI impI) (rule step)
  have "\<forall>v2 s2. Ret (v, s') = Ret (v2, s2) \<longrightarrow> I s2" by (rule P [unfolded P_def, THEN mp, OF keeps, THEN mp, OF I])
  then show ?thesis by blast
qed


section \<open>Null pointers\<close>

text \<open>The pointer is dereferenced.\<close>

definition not_null :: "'a option \<Rightarrow> ('a \<Rightarrow> ('s, 'b) prog) \<Rightarrow> ('s, 'b) prog" where
  "not_null p k = (case p of None \<Rightarrow> undefined_behaviour | Some x \<Rightarrow> k x)"

lemma wp_not_null [wp_simps]: "wp (not_null p k) Q s = (case p of None \<Rightarrow> False | Some x \<Rightarrow> wp (k x) Q s)"
  by (simp add: not_null_def wp_simps split: option.splits)

end
