(* ===== verification/Clib.thy ===== *)
theory Clib
  imports Prelude
begin

text \<open>
  What the program uses of the C library, on byte strings without their final
  NUL: \<open>strtol\<close> and \<open>strtoul\<close> with end pointer and \<open>ERANGE\<close>, \<open>strtok\<close>,
  \<open>strncmp\<close> against a prefix, the \<open>printf\<close> family on the directives that occur in
  the sources, and \<open>bsearch\<close> on a sorted array.
\<close>

section \<open>Digits\<close>

definition digit_char :: "nat \<Rightarrow> char" where
  "digit_char d = (if d < 10 then char_of (48 + d) else char_of (87 + d))"

definition digit_val :: "char \<Rightarrow> nat option" where
  "digit_val c =
     (let n = of_char c :: nat in
      if 48 \<le> n \<and> n \<le> 57 then Some (n - 48)
      else if 97 \<le> n \<and> n \<le> 122 then Some (n - 87)
      else if 65 \<le> n \<and> n \<le> 90 then Some (n - 55)
      else None)"

definition base_digit :: "nat \<Rightarrow> char \<Rightarrow> bool" where
  "base_digit b c = (case digit_val c of Some d \<Rightarrow> d < b | None \<Rightarrow> False)"

fun digits :: "nat \<Rightarrow> nat \<Rightarrow> string" where
  "digits b n = (if b < 2 \<or> n < b then [digit_char n] else digits b (n div b) @ [digit_char (n mod b)])"

declare digits.simps [simp del]

fun digits_val :: "nat \<Rightarrow> nat \<Rightarrow> string \<Rightarrow> nat" where
  "digits_val b acc [] = acc"
| "digits_val b acc (c # cs) = digits_val b (acc * b + the (digit_val c)) cs"

lemma digit_val_char: "d < 36 \<Longrightarrow> digit_val (digit_char d) = Some d"
  by (auto simp: digit_val_def digit_char_def Let_def)

lemma digits_val_append: "digits_val b acc (xs @ ys) = digits_val b (digits_val b acc xs) ys"
  by (induction xs arbitrary: acc) auto

lemma digits_nonempty [simp]: "digits b n \<noteq> []"
  by (subst digits.simps) simp

lemma digits_roundtrip:
  "2 \<le> b \<Longrightarrow> b \<le> 36 \<Longrightarrow> digits_val b 0 (digits b n) = n"
proof (induction b n rule: digits.induct)
  case (1 b n)
  show ?case
  proof (cases "n < b")
    case True
    with 1 show ?thesis by (simp add: digits.simps [of b n] digit_val_char)
  next
    case False
    have "n mod b < b" using 1 by simp
    then have "n mod b < 36" using 1 by linarith
    with 1 False show ?thesis
      by (simp add: digits.simps [of b n] digits_val_append digit_val_char)
  qed
qed

lemma digits_length:
  "2 \<le> b \<Longrightarrow> 0 < k \<Longrightarrow> n < b ^ k \<Longrightarrow> length (digits b n) \<le> k"
proof (induction b n arbitrary: k rule: digits.induct)
  case (1 b n)
  show ?case
  proof (cases "n < b")
    case True
    with "1.prems" show ?thesis by (simp add: digits.simps [of b n])
  next
    case False
    with "1.prems" obtain j where j: "k = Suc j" "0 < j" by (cases k; cases "k - 1") auto
    have "n div b < b ^ j" using "1.prems"(1,3) j(1) by (simp add: less_mult_imp_div_less mult.commute)
    with "1.IH" False "1.prems"(1) j show ?thesis by (simp add: digits.simps [of b n])
  qed
qed

lemma digits_base_digit:
  "2 \<le> b \<Longrightarrow> b \<le> 36 \<Longrightarrow> \<forall>c \<in> set (digits b n). base_digit b c"
proof (induction b n rule: digits.induct)
  case (1 b n)
  have "n mod b < b" using 1 by simp
  moreover from this have "digit_val (digit_char (n mod b)) = Some (n mod b)"
    using 1 by (intro digit_val_char) linarith
  ultimately show ?case
    using 1 by (subst digits.simps) (auto simp: base_digit_def digit_val_char)
qed


section \<open>strtol and strtoul\<close>

definition LONG_MAX :: int where "LONG_MAX = 2 ^ 63 - 1"

definition LONG_MIN :: int where "LONG_MIN = - (2 ^ 63)"

definition ULONG_MAX :: int where "ULONG_MAX = 2 ^ 64 - 1"

definition c_isspace :: "char \<Rightarrow> bool" where
  "c_isspace c = (c = CHR '' '' \<or> (of_char c :: nat) \<in> {9..13})"

text \<open>
  The subject sequence: white space, a sign, for base 16 a \<open>0x\<close> that a digit follows,
  then digits. \<open>None\<close> where no conversion is made and the end pointer is the string
  itself.
\<close>

definition strip_sign :: "string \<Rightarrow> bool \<times> string" where
  "strip_sign s =
     (case s of
        c # cs \<Rightarrow> if c = CHR ''-'' then (True, cs) else if c = CHR ''+'' then (False, cs) else (False, s)
      | [] \<Rightarrow> (False, s))"

definition strip_0x :: "nat \<Rightarrow> string \<Rightarrow> string" where
  "strip_0x b s =
     (case s of
        z # x # d # rest \<Rightarrow>
          if b = 16 \<and> z = CHR ''0'' \<and> (x = CHR ''x'' \<or> x = CHR ''X'') \<and> base_digit 16 d
          then d # rest else s
      | _ \<Rightarrow> s)"

definition scan_number :: "nat \<Rightarrow> string \<Rightarrow> (bool \<times> nat \<times> string) option" where
  "scan_number b s =
     (let (neg, s1) = strip_sign (dropWhile c_isspace s);
          s2 = strip_0x b s1;
          ds = takeWhile (base_digit b) s2
      in if ds = [] then None else Some (neg, digits_val b 0 ds, dropWhile (base_digit b) s2))"

text \<open>The value, what the end pointer points to, and whether \<open>errno\<close> is set to \<open>ERANGE\<close>.\<close>

definition strtol :: "nat \<Rightarrow> string \<Rightarrow> int \<times> string \<times> bool" where
  "strtol b s =
     (case scan_number b s of
        None \<Rightarrow> (0, s, False)
      | Some (neg, n, rest) \<Rightarrow>
          (let v = if neg then - int n else int n in
           if v > LONG_MAX then (LONG_MAX, rest, True)
           else if v < LONG_MIN then (LONG_MIN, rest, True)
           else (v, rest, False)))"

text \<open>\<open>strtoul\<close> negates in the unsigned type.\<close>

definition strtoul :: "nat \<Rightarrow> string \<Rightarrow> int \<times> string \<times> bool" where
  "strtoul b s =
     (case scan_number b s of
        None \<Rightarrow> (0, s, False)
      | Some (neg, n, rest) \<Rightarrow>
          if int n > ULONG_MAX then (ULONG_MAX, rest, True)
          else ((if neg then (- int n) mod 2 ^ 64 else int n), rest, False))"

lemma strtol_bounds: "strtol b s = (v, rest, e) \<Longrightarrow> LONG_MIN \<le> v \<and> v \<le> LONG_MAX"
  by (auto simp: strtol_def LONG_MIN_def LONG_MAX_def Let_def split: option.splits if_splits prod.splits)

lemma strtoul_bounds: "strtoul b s = (v, rest, e) \<Longrightarrow> 0 \<le> v \<and> v \<le> ULONG_MAX"
proof -
  have "(- int n) mod 2 ^ 64 < (2 ^ 64 :: int)" for n
    by (rule pos_mod_bound) simp
  then have "(- int n) mod 2 ^ 64 \<le> (2 ^ 64 - 1 :: int)" for n
    by (metis zle_diff1_eq)
  then show "strtoul b s = (v, rest, e) \<Longrightarrow> 0 \<le> v \<and> v \<le> ULONG_MAX"
    by (auto simp: strtoul_def ULONG_MAX_def split: option.splits if_splits prod.splits)
qed

lemma base_digit_not_special:
  "base_digit b c \<Longrightarrow> \<not> c_isspace c \<and> c \<noteq> CHR ''-'' \<and> c \<noteq> CHR ''+''"
  by (auto simp: base_digit_def digit_val_def c_isspace_def Let_def split: if_splits)

lemma base_digit_10_not_x: "base_digit 10 c \<Longrightarrow> c \<noteq> CHR ''x''"
  by (auto simp: base_digit_def digit_val_def Let_def)

text \<open>Digits written without a prefix are read back in the same base.\<close>

lemma strip_0x_no_x: "x \<noteq> CHR ''x'' \<Longrightarrow> x \<noteq> CHR ''X'' \<Longrightarrow> strip_0x b (z # x # s) = z # x # s"
  by (auto simp: strip_0x_def split: list.splits)

lemma strip_0x_digits:
  assumes "\<forall>c \<in> set ds. base_digit b c" and "b \<le> 16"
  shows "strip_0x b ds = ds"
proof -
  have "\<not> base_digit b (CHR ''x'')" "\<not> base_digit b (CHR ''X'')"
    using assms(2) by (auto simp: base_digit_def digit_val_def)
  with assms(1) show ?thesis
    by (cases ds; cases "tl ds"; cases "tl (tl ds)") (auto simp: strip_0x_def)
qed

lemma scan_number_digits:
  assumes "2 \<le> b" "b \<le> 16"
  shows "scan_number b (digits b n) = Some (False, n, [])"
proof -
  have all: "\<forall>c \<in> set (digits b n). base_digit b c"
    using digits_base_digit assms by simp
  obtain c cs where cons: "digits b n = c # cs"
    by (cases "digits b n") auto
  with all have c: "base_digit b c" by simp
  have "dropWhile c_isspace (digits b n) = digits b n"
    using cons base_digit_not_special [OF c] by simp
  moreover have "strip_sign (digits b n) = (False, digits b n)"
    using cons base_digit_not_special [OF c] by (simp add: strip_sign_def)
  moreover have tw: "takeWhile (base_digit b) (digits b n) = digits b n"
    using all by (simp add: takeWhile_eq_all_conv)
  moreover have dw: "dropWhile (base_digit b) (digits b n) = []"
    using all by (simp add: dropWhile_eq_Nil_conv)
  ultimately show ?thesis
    using assms all digits_roundtrip [of b n]
    by (simp add: scan_number_def strip_0x_digits Let_def tw dw del: takeWhile_eq_all_conv)
qed

lemma strtol_digits:
  "2 \<le> b \<Longrightarrow> b \<le> 16 \<Longrightarrow> int n \<le> LONG_MAX \<Longrightarrow> strtol b (digits b n) = (int n, [], False)"
  by (simp add: strtol_def scan_number_digits LONG_MIN_def)


section \<open>strtok\<close>

text \<open>Repeated \<open>strtok\<close> with one separator: the non-empty maximal runs between separators.\<close>

fun strtok_from :: "char \<Rightarrow> string \<Rightarrow> string \<Rightarrow> string list" where
  "strtok_from d tok [] = (if tok = [] then [] else [tok])"
| "strtok_from d tok (c # cs) =
     (if c = d then (if tok = [] then strtok_from d [] cs else tok # strtok_from d [] cs)
      else strtok_from d (tok @ [c]) cs)"

definition strtok_all :: "char \<Rightarrow> string \<Rightarrow> string list" where
  "strtok_all d s = strtok_from d [] s"

lemma strtok_from_tokens:
  "d \<notin> set tok \<Longrightarrow> t \<in> set (strtok_from d tok s) \<Longrightarrow> t \<noteq> [] \<and> d \<notin> set t"
  by (induction d tok s rule: strtok_from.induct) (auto split: if_splits)

lemma strtok_all_tokens: "t \<in> set (strtok_all d s) \<Longrightarrow> t \<noteq> [] \<and> d \<notin> set t"
  using strtok_from_tokens [of d "[]" t s] by (simp add: strtok_all_def)

lemma strtok_from_concat:
  "concat (strtok_from d tok s) = tok @ filter (\<lambda>c. c \<noteq> d) s"
  by (induction d tok s rule: strtok_from.induct) auto

lemma strtok_from_word:
  "d \<notin> set w \<Longrightarrow> strtok_from d tok (w @ d # s) =
     (if tok @ w = [] then strtok_from d [] s else (tok @ w) # strtok_from d [] s)"
  by (induction w arbitrary: tok) auto

lemma strtok_from_last: "d \<notin> set w \<Longrightarrow> strtok_from d tok w = (if tok @ w = [] then [] else [tok @ w])"
  by (induction w arbitrary: tok) auto

fun join_with :: "char \<Rightarrow> string list \<Rightarrow> string" where
  "join_with d [] = []"
| "join_with d [w] = w"
| "join_with d (w # ws) = w @ d # join_with d ws"

text \<open>Joining words with the separator and splitting again gives the words.\<close>

lemma strtok_join:
  "\<forall>w \<in> set ws. w \<noteq> [] \<and> d \<notin> set w \<Longrightarrow> strtok_all d (join_with d ws) = ws"
  by (induction d ws rule: join_with.induct)
    (auto simp: strtok_all_def strtok_from_word strtok_from_last)


section \<open>Prefix comparison\<close>

text \<open>\<open>strncmp(s, t, n) == 0\<close>: equal up to the first \<open>n\<close> bytes, the NUL included.\<close>

definition strncmp_eq :: "string \<Rightarrow> string \<Rightarrow> nat \<Rightarrow> bool" where
  "strncmp_eq s t n = (take n (s @ [CHR 0x00]) = take n (t @ [CHR 0x00]))"

lemma strncmp_eq_whole: "length t < n \<Longrightarrow> CHR 0x00 \<notin> set s \<Longrightarrow> CHR 0x00 \<notin> set t \<Longrightarrow> strncmp_eq s t n = (s = t)"
proof
  assume n: "length t < n" "CHR 0x00 \<notin> set s" "CHR 0x00 \<notin> set t" and "strncmp_eq s t n"
  then have eq: "take n (s @ [CHR 0x00]) = t @ [CHR 0x00]"
    by (simp add: strncmp_eq_def)
  show "s = t"
  proof (cases "length s < n")
    case True
    with eq show ?thesis by simp
  next
    case False
    with eq have "take n s = t @ [CHR 0x00]" by simp
    then have "CHR 0x00 \<in> set s" by (metis in_set_conv_decomp in_set_takeD)
    with n show ?thesis by simp
  qed
qed (simp add: strncmp_eq_def)


section \<open>printf directives\<close>

text \<open>
  A variable argument: an \<open>int\<close> or \<open>unsigned\<close>, a \<open>long\<close> or \<open>size_t\<close>, a string, a
  character. A directive is \<open>%\<close>, the flags \<open>-\<close>, \<open>0\<close> and \<open>#\<close>, a width or
  \<open>*\<close>, a precision, \<open>l\<close> or \<open>z\<close>, and a conversion. A directive whose argument is
  missing or of the wrong kind is undefined behaviour: \<open>cformat\<close> is \<open>None\<close> then.
\<close>

datatype farg = FInt int | FLong "64 word" | FStr string | FChar char

record directive =
  d_flags :: string
  d_width :: nat
  d_star :: bool
  d_prec :: "nat option"
  d_long :: bool
  d_conv :: char

definition dec_digit :: "char \<Rightarrow> bool" where
  "dec_digit c = base_digit 10 c"

definition flag_char :: "char \<Rightarrow> bool" where
  "flag_char c = (c = CHR ''-'' \<or> c = CHR ''0'' \<or> c = CHR ''#'')"

definition parse_prec :: "string \<Rightarrow> nat option \<times> string" where
  "parse_prec s =
     (case s of
        c # cs \<Rightarrow> if c = CHR ''.'' then (Some (digits_val 10 0 (takeWhile dec_digit cs)), dropWhile dec_digit cs)
                  else (None, s)
      | [] \<Rightarrow> (None, s))"

definition parse_long :: "string \<Rightarrow> bool \<times> string" where
  "parse_long s =
     (case s of c # cs \<Rightarrow> if c = CHR ''l'' \<or> c = CHR ''z'' then (True, cs) else (False, s) | [] \<Rightarrow> (False, s))"

definition parse_width :: "string \<Rightarrow> (nat \<times> bool) \<times> string" where
  "parse_width s =
     (case s of
        c # cs \<Rightarrow> if c = CHR ''*'' then ((0, True), cs)
                  else ((digits_val 10 0 (takeWhile dec_digit s), False), dropWhile dec_digit s)
      | [] \<Rightarrow> ((0, False), []))"

definition parse_directive :: "string \<Rightarrow> (directive \<times> string) option" where
  "parse_directive s =
     (let ((w, star), s2) = parse_width (dropWhile flag_char s);
          (p, s3) = parse_prec s2;
          (l, s4) = parse_long s3
      in case s4 of
           [] \<Rightarrow> None
         | c # rest \<Rightarrow> Some (\<lparr>d_flags = takeWhile flag_char s, d_width = w, d_star = star,
                               d_prec = p, d_long = l, d_conv = c\<rparr>, rest))"

definition dec_string :: "int \<Rightarrow> string" where
  "dec_string i = (if i < 0 then CHR ''-'' # digits 10 (nat (- i)) else digits 10 (nat i))"

definition to_upper :: "char \<Rightarrow> char" where
  "to_upper c = (if 97 \<le> (of_char c :: nat) \<and> (of_char c :: nat) \<le> 122 then char_of (of_char c - 32 :: nat) else c)"

definition hex_string :: "directive \<Rightarrow> nat \<Rightarrow> string" where
  "hex_string d n =
     (let ds = (if d_conv d = CHR ''X'' then map to_upper (digits 16 n) else digits 16 n)
      in if CHR ''#'' \<in> set (d_flags d) \<and> n \<noteq> 0 then ''0x'' @ ds else ds)"

text \<open>The converted argument, before padding.\<close>

definition convert_arg :: "directive \<Rightarrow> farg \<Rightarrow> string option" where
  "convert_arg d a =
     (let c = d_conv d in
      case a of
        FInt i \<Rightarrow> if d_long d then None
                  else if c = CHR ''d'' then Some (dec_string i)
                  else if c = CHR ''x'' \<or> c = CHR ''X'' then Some (hex_string d (nat (i mod 2 ^ 32)))
                  else None
      | FLong w \<Rightarrow> if \<not> d_long d then None
                   else if c = CHR ''d'' then Some (dec_string (sint w))
                   else if c = CHR ''u'' then Some (dec_string (uint w))
                   else if c = CHR ''x'' then Some (hex_string d (unat w))
                   else None
      | FStr t \<Rightarrow> if c = CHR ''s'' then Some (case d_prec d of None \<Rightarrow> t | Some p \<Rightarrow> take p t) else None
      | FChar t \<Rightarrow> if c = CHR ''c'' then Some [t] else None)"

definition pad :: "bool \<Rightarrow> bool \<Rightarrow> nat \<Rightarrow> string \<Rightarrow> string" where
  "pad left zero w t =
     (if left then t @ replicate (w - length t) (CHR '' '')
      else if zero then replicate (w - length t) (CHR ''0'') @ t
      else replicate (w - length t) (CHR '' '') @ t)"

fun render_directive :: "directive \<Rightarrow> farg list \<Rightarrow> (string \<times> farg list) option" where
  "render_directive d args =
     (let left = (CHR ''-'' \<in> set (d_flags d)); zero = (CHR ''0'' \<in> set (d_flags d)) in
      if d_star d
      then (case args of
              FInt w # a # rest \<Rightarrow>
                map_option (\<lambda>t. (pad (left \<or> w < 0) zero (nat \<bar>w\<bar>) t, rest)) (convert_arg d a)
            | _ \<Rightarrow> None)
      else (case args of
              a # rest \<Rightarrow> map_option (\<lambda>t. (pad left zero (d_width d) t, rest)) (convert_arg d a)
            | [] \<Rightarrow> None))"

lemma parse_directive_shorter: "parse_directive s = Some (d, rest) \<Longrightarrow> length rest < length s"
proof -
  have width: "length (snd (parse_width t)) \<le> length t" for t
    by (auto simp: parse_width_def le_Suc_eq length_dropWhile_le split: list.splits)
  have prec: "length (snd (parse_prec t)) \<le> length t" for t
    by (auto simp: parse_prec_def le_Suc_eq length_dropWhile_le split: list.splits)
  have long: "length (snd (parse_long t)) \<le> length t" for t
    by (auto simp: parse_long_def split: list.splits)
  assume "parse_directive s = Some (d, rest)"
  then obtain c where
    "snd (parse_long (snd (parse_prec (snd (parse_width (dropWhile flag_char s)))))) = c # rest"
    by (auto simp: parse_directive_def Let_def split: prod.splits list.splits)
  moreover have "length (snd (parse_width (dropWhile flag_char s))) \<le> length s"
    using width [of "dropWhile flag_char s"] length_dropWhile_le [of flag_char s] by simp
  ultimately show ?thesis
    using prec [of "snd (parse_width (dropWhile flag_char s))"]
      long [of "snd (parse_prec (snd (parse_width (dropWhile flag_char s))))"] by simp
qed

function cformat :: "string \<Rightarrow> farg list \<Rightarrow> string option" where
  "cformat [] args = Some []"
| "cformat (c # cs) args =
     (if c \<noteq> CHR ''%'' then map_option (Cons c) (cformat cs args)
      else case parse_directive cs of
             None \<Rightarrow> None
           | Some (d, rest) \<Rightarrow>
               (case render_directive d args of
                  None \<Rightarrow> None
                | Some (t, args') \<Rightarrow> map_option (append t) (cformat rest args')))"
  by pat_completeness auto
termination
  by (relation "measure (\<lambda>(s, _). length s)") (auto dest: parse_directive_shorter)

text \<open>The string that a buffer holds ends before its first NUL.\<close>

definition NUL :: char where "NUL = CHR 0x00"

definition cstr :: "string \<Rightarrow> string" where "cstr t = takeWhile (\<lambda>c. c \<noteq> NUL) t"

lemma cstr_plain: "NUL \<notin> set t \<Longrightarrow> cstr t = t"
  by (induction t) (auto simp: cstr_def)

text \<open>\<open>snprintf(buf, size, ...)\<close> keeps at most \<open>size - 1\<close> bytes.\<close>

definition snprintf :: "nat \<Rightarrow> string \<Rightarrow> farg list \<Rightarrow> string option" where
  "snprintf n fmt args = map_option (take (n - 1)) (cformat fmt args)"

lemma snprintf_length: "snprintf n fmt args = Some t \<Longrightarrow> 0 < n \<Longrightarrow> length t < n"
  by (auto simp: snprintf_def)

lemma cformat_plain: "CHR ''%'' \<notin> set s \<Longrightarrow> cformat s args = Some s"
  by (induction s) auto

declare cformat.simps [simp del]

text \<open>The texts of the formats that occur.\<close>

named_theorems formats

text \<open>Evaluates the directives of a literal format.\<close>

lemmas format_simps = cformat.simps pad_def parse_directive_def parse_width_def parse_prec_def parse_long_def flag_char_def dec_digit_def
  base_digit_def digit_val_def convert_arg_def Let_def

end
