(* ===== verification/Errors.thy ===== *)
theory Errors
  imports Clib
begin

text \<open>
  \<open>include/sylvan/error.h\<close> and \<open>lib/sylvan/error.c\<close>: the result codes, their numbers
  and their descriptions. An enum variable may hold a number that is no named
  constant (the parent of a forked child converts one it read from a pipe):
  \<open>SYLVANC_OTHER\<close>.
\<close>

datatype sylvan_code =
    SYLVANC_OK
  | SYLVANC_ERROR
  | SYLVANC_OUT_OF_MEMORY
  | SYLVANC_INVALID_ARGUMENT
  | SYLVANC_INVALID_STATE
  | SYLVANC_FILE_NOT_FOUND
  | SYLVANC_PROC_ERROR
  | SYLVANC_PROC_NOT_FOUND
  | SYLVANC_PROC_NOT_ATTACHED
  | SYLVANC_PROC_ALREADY_ATTACHED
  | SYLVANC_PROC_EXITED
  | SYLVANC_PROC_TERMINATED
  | SYLVANC_PROC_RUNNING
  | SYLVANC_PROC_STOPPED
  | SYLVANC_PROC_ZOMBIE
  | SYLVANC_PROC_CHILD
  | SYLVANC_SYSTEM_ERROR
  | SYLVANC_FORK_FAILED
  | SYLVANC_PIPE_FAILED
  | SYLVANC_WAITPID_FAILED
  | SYLVANC_EXEC_FAILED
  | SYLVANC_KILL_FAILED
  | SYLVANC_NOT_EXECUTABLE
  | SYLVANC_PTRACE_ERROR
  | SYLVANC_PTRACE_ATTACH_FAILED
  | SYLVANC_PTRACE_DETACH_FAILED
  | SYLVANC_PTRACE_CONT_FAILED
  | SYLVANC_PTRACE_STEP_FAILED
  | SYLVANC_PTRACE_GETREGS_FAILED
  | SYLVANC_PTRACE_SETREGS_FAILED
  | SYLVANC_PTRACE_PEEKTEXT_FAILED
  | SYLVANC_PTRACE_POKETEXT_FAILED
  | SYLVANC_PTRACE_PEEKDATA_FAILED
  | SYLVANC_PTRACE_POKEDATA_FAILED
  | SYVLANC_BREAKPOINT_ERROR
  | SYVLANC_BREAKPOINT_ALREADY_EXISTS
  | SYVLANC_BREAKPOINT_NOT_FOUND
  | SYVLANC_BREAKPOINT_LIMIT_REACHED
  | SYVLANC_BREAKPOINT_HIT
  | SYLVANC_SYMBOL_ERROR
  | SYLVANC_ELF_FAILED
  | SYLVANC_DWARF_NOT_FOUND
  | SYLVANC_SYMBOL_NOT_FOUND
  | SYLVANC_OTHER int

fun code_num :: "sylvan_code \<Rightarrow> int" where
  "code_num SYLVANC_OK = 0"
| "code_num SYLVANC_ERROR = 256"
| "code_num SYLVANC_OUT_OF_MEMORY = 257"
| "code_num SYLVANC_INVALID_ARGUMENT = 258"
| "code_num SYLVANC_INVALID_STATE = 259"
| "code_num SYLVANC_FILE_NOT_FOUND = 260"
| "code_num SYLVANC_PROC_ERROR = 512"
| "code_num SYLVANC_PROC_NOT_FOUND = 513"
| "code_num SYLVANC_PROC_NOT_ATTACHED = 514"
| "code_num SYLVANC_PROC_ALREADY_ATTACHED = 515"
| "code_num SYLVANC_PROC_EXITED = 516"
| "code_num SYLVANC_PROC_TERMINATED = 517"
| "code_num SYLVANC_PROC_RUNNING = 518"
| "code_num SYLVANC_PROC_STOPPED = 519"
| "code_num SYLVANC_PROC_ZOMBIE = 520"
| "code_num SYLVANC_PROC_CHILD = 521"
| "code_num SYLVANC_SYSTEM_ERROR = 768"
| "code_num SYLVANC_FORK_FAILED = 769"
| "code_num SYLVANC_PIPE_FAILED = 770"
| "code_num SYLVANC_WAITPID_FAILED = 771"
| "code_num SYLVANC_EXEC_FAILED = 772"
| "code_num SYLVANC_KILL_FAILED = 773"
| "code_num SYLVANC_NOT_EXECUTABLE = 774"
| "code_num SYLVANC_PTRACE_ERROR = 1024"
| "code_num SYLVANC_PTRACE_ATTACH_FAILED = 1025"
| "code_num SYLVANC_PTRACE_DETACH_FAILED = 1026"
| "code_num SYLVANC_PTRACE_CONT_FAILED = 1027"
| "code_num SYLVANC_PTRACE_STEP_FAILED = 1028"
| "code_num SYLVANC_PTRACE_GETREGS_FAILED = 1029"
| "code_num SYLVANC_PTRACE_SETREGS_FAILED = 1030"
| "code_num SYLVANC_PTRACE_PEEKTEXT_FAILED = 1031"
| "code_num SYLVANC_PTRACE_POKETEXT_FAILED = 1032"
| "code_num SYLVANC_PTRACE_PEEKDATA_FAILED = 1033"
| "code_num SYLVANC_PTRACE_POKEDATA_FAILED = 1034"
| "code_num SYVLANC_BREAKPOINT_ERROR = 1280"
| "code_num SYVLANC_BREAKPOINT_ALREADY_EXISTS = 1281"
| "code_num SYVLANC_BREAKPOINT_NOT_FOUND = 1282"
| "code_num SYVLANC_BREAKPOINT_LIMIT_REACHED = 1283"
| "code_num SYVLANC_BREAKPOINT_HIT = 1284"
| "code_num SYLVANC_SYMBOL_ERROR = 1536"
| "code_num SYLVANC_ELF_FAILED = 1537"
| "code_num SYLVANC_DWARF_NOT_FOUND = 1538"
| "code_num SYLVANC_SYMBOL_NOT_FOUND = 1539"
| "code_num (SYLVANC_OTHER n) = n"

text \<open>The conversion of an \<open>int\<close> to the enum.\<close>

definition named_codes :: "sylvan_code list" where
  "named_codes =
     [SYLVANC_OK,
      SYLVANC_ERROR,
      SYLVANC_OUT_OF_MEMORY,
      SYLVANC_INVALID_ARGUMENT,
      SYLVANC_INVALID_STATE,
      SYLVANC_FILE_NOT_FOUND,
      SYLVANC_PROC_ERROR,
      SYLVANC_PROC_NOT_FOUND,
      SYLVANC_PROC_NOT_ATTACHED,
      SYLVANC_PROC_ALREADY_ATTACHED,
      SYLVANC_PROC_EXITED,
      SYLVANC_PROC_TERMINATED,
      SYLVANC_PROC_RUNNING,
      SYLVANC_PROC_STOPPED,
      SYLVANC_PROC_ZOMBIE,
      SYLVANC_PROC_CHILD,
      SYLVANC_SYSTEM_ERROR,
      SYLVANC_FORK_FAILED,
      SYLVANC_PIPE_FAILED,
      SYLVANC_WAITPID_FAILED,
      SYLVANC_EXEC_FAILED,
      SYLVANC_KILL_FAILED,
      SYLVANC_NOT_EXECUTABLE,
      SYLVANC_PTRACE_ERROR,
      SYLVANC_PTRACE_ATTACH_FAILED,
      SYLVANC_PTRACE_DETACH_FAILED,
      SYLVANC_PTRACE_CONT_FAILED,
      SYLVANC_PTRACE_STEP_FAILED,
      SYLVANC_PTRACE_GETREGS_FAILED,
      SYLVANC_PTRACE_SETREGS_FAILED,
      SYLVANC_PTRACE_PEEKTEXT_FAILED,
      SYLVANC_PTRACE_POKETEXT_FAILED,
      SYLVANC_PTRACE_PEEKDATA_FAILED,
      SYLVANC_PTRACE_POKEDATA_FAILED,
      SYVLANC_BREAKPOINT_ERROR,
      SYVLANC_BREAKPOINT_ALREADY_EXISTS,
      SYVLANC_BREAKPOINT_NOT_FOUND,
      SYVLANC_BREAKPOINT_LIMIT_REACHED,
      SYVLANC_BREAKPOINT_HIT,
      SYLVANC_SYMBOL_ERROR,
      SYLVANC_ELF_FAILED,
      SYLVANC_DWARF_NOT_FOUND,
      SYLVANC_SYMBOL_NOT_FOUND]"

definition code_of_int :: "int \<Rightarrow> sylvan_code" where
  "code_of_int n =
     (case find (\<lambda>c. code_num c = n) named_codes of Some c \<Rightarrow> c | None \<Rightarrow> SYLVANC_OTHER n)"

fun sylvan_strerror :: "sylvan_code \<Rightarrow> string" where
  "sylvan_strerror SYLVANC_OK = ''Ok''"
| "sylvan_strerror SYLVANC_ERROR = ''Something went wrong''"
| "sylvan_strerror SYLVANC_OUT_OF_MEMORY = ''Out of memory''"
| "sylvan_strerror SYLVANC_INVALID_ARGUMENT = ''Invalid argument''"
| "sylvan_strerror SYLVANC_INVALID_STATE = ''Invalid operation in current state''"
| "sylvan_strerror SYLVANC_FILE_NOT_FOUND = ''File not found or not accessible''"
| "sylvan_strerror SYLVANC_PROC_ERROR = ''Process error''"
| "sylvan_strerror SYLVANC_PROC_NOT_FOUND = ''Process does not exist''"
| "sylvan_strerror SYLVANC_PROC_NOT_ATTACHED = ''Process is not being traced''"
| "sylvan_strerror SYLVANC_PROC_ALREADY_ATTACHED = ''Process is already being traced''"
| "sylvan_strerror SYLVANC_PROC_EXITED = ''Process has exited normally''"
| "sylvan_strerror SYLVANC_PROC_TERMINATED = ''Process was terminated by signal''"
| "sylvan_strerror SYLVANC_PROC_RUNNING = ''Process is running (not stopped)''"
| "sylvan_strerror SYLVANC_PROC_STOPPED = ''Process is stopped''"
| "sylvan_strerror SYLVANC_PROC_ZOMBIE = ''Process is in zombie state''"
| "sylvan_strerror SYLVANC_PROC_CHILD = ''Error in child process''"
| "sylvan_strerror SYLVANC_SYSTEM_ERROR = ''System error''"
| "sylvan_strerror SYLVANC_FORK_FAILED = ''Fork failed''"
| "sylvan_strerror SYLVANC_PIPE_FAILED = ''Pipe creation failed''"
| "sylvan_strerror SYLVANC_WAITPID_FAILED = ''Wait for process failed''"
| "sylvan_strerror SYLVANC_EXEC_FAILED = ''Exec failed''"
| "sylvan_strerror SYLVANC_KILL_FAILED = ''Kill signal failed''"
| "sylvan_strerror SYLVANC_NOT_EXECUTABLE = ''File is not executable''"
| "sylvan_strerror SYLVANC_PTRACE_ERROR = ''Ptrace operation failed''"
| "sylvan_strerror SYLVANC_PTRACE_ATTACH_FAILED = ''Could not attach to process''"
| "sylvan_strerror SYLVANC_PTRACE_DETACH_FAILED = ''Could not detach from process''"
| "sylvan_strerror SYLVANC_PTRACE_CONT_FAILED = ''Could not continue process''"
| "sylvan_strerror SYLVANC_PTRACE_STEP_FAILED = ''Single step failed''"
| "sylvan_strerror SYLVANC_PTRACE_GETREGS_FAILED = ''Get registers failed''"
| "sylvan_strerror SYLVANC_PTRACE_SETREGS_FAILED = ''Set registers failed''"
| "sylvan_strerror SYLVANC_PTRACE_PEEKTEXT_FAILED = ''Could not read from memory''"
| "sylvan_strerror SYLVANC_PTRACE_POKETEXT_FAILED = ''Could not write to memory''"
| "sylvan_strerror SYLVANC_PTRACE_PEEKDATA_FAILED = ''Could not read from memory''"
| "sylvan_strerror SYLVANC_PTRACE_POKEDATA_FAILED = ''Could not write to memory''"
| "sylvan_strerror SYVLANC_BREAKPOINT_ERROR = ''Breakpoint error''"
| "sylvan_strerror SYVLANC_BREAKPOINT_ALREADY_EXISTS = ''Breapoint already exists''"
| "sylvan_strerror SYVLANC_BREAKPOINT_NOT_FOUND = ''Breakpoint not found''"
| "sylvan_strerror SYVLANC_BREAKPOINT_LIMIT_REACHED = ''Too many breakpoints''"
| "sylvan_strerror SYVLANC_BREAKPOINT_HIT = ''Program hit a breakpoint''"
| "sylvan_strerror SYLVANC_SYMBOL_ERROR = ''Error parsing symbols''"
| "sylvan_strerror SYLVANC_ELF_FAILED = ''Could not read the elf file''"
| "sylvan_strerror SYLVANC_DWARF_NOT_FOUND = ''Debug symbols not found''"
| "sylvan_strerror SYLVANC_SYMBOL_NOT_FOUND = ''Symbol not found''"
| "sylvan_strerror (SYLVANC_OTHER n) = ''Unknown error''"

lemma named_codes_complete: "c \<in> set named_codes \<or> (\<exists>n. c = SYLVANC_OTHER n)"
  by (cases c) (simp_all add: named_codes_def)

lemma named_codes_distinct: "distinct (map code_num named_codes)"
  by (simp add: named_codes_def)

text \<open>A named code survives the trip through its number.\<close>

lemma find_by_key:
  "distinct (map f xs) \<Longrightarrow> x \<in> set xs \<Longrightarrow> find (\<lambda>y. f y = f x) xs = Some x"
  by (induction xs) (auto simp: rev_image_eqI)

lemma code_of_code_num: "c \<in> set named_codes \<Longrightarrow> code_of_int (code_num c) = c"
  using find_by_key [OF named_codes_distinct] by (simp add: code_of_int_def)

lemma code_num_of_int: "code_num (code_of_int n) = n"
  by (auto simp: code_of_int_def find_Some_iff split: option.splits)

lemma code_num_nonneg: "c \<in> set named_codes \<Longrightarrow> 0 \<le> code_num c"
  by (auto simp: named_codes_def)

lemma code_zero_iff: "c \<in> set named_codes \<Longrightarrow> code_num c = 0 \<longleftrightarrow> c = SYLVANC_OK"
  by (auto simp: named_codes_def)

record error_context =
  ec_code :: sylvan_code
  ec_os_errno :: int
  ec_message :: string

end
