(* ===== verification/Machine.thy ===== *)
theory Machine
  imports Errors
begin

text \<open>
  The data of the library (\<open>include/sylvan/inferior.h\<close>, \<open>breakpoint.h\<close>,
  \<open>symbol.h\<close>), the operating system and third-party libraries it calls as a
  record of functions over an abstract world, and the state every library
  function works on: the inferior behind its pointer, the global counters, the
  last error, \<open>errno\<close> and the world. The functions of \<open>error.c\<close> that set the last
  error are here because they read \<open>errno\<close>.
\<close>


section \<open>Data model\<close>

datatype inferior_state =
    SYLVAN_INFSTATE_NONE
  | SYLVAN_INFSTATE_TERMINATED
  | SYLVAN_INFSTATE_RUNNING
  | SYLVAN_INFSTATE_EXITED
  | SYLVAN_INFSTATE_STOPPED

definition MAX_BREAKPOINTS :: nat where "MAX_BREAKPOINTS = 256"

record breakpoint =
  bp_addr :: addr
  og_byte :: byte
  is_enabled_log :: bool
  is_enabled_phy :: bool

text \<open>The name of a symbol is a null pointer where \<open>strdup\<close> failed.\<close>

record symbol =
  sym_name :: "string option"
  sym_addr :: addr

text \<open>
  \<open>st_symbols\<close> holds the initialised entries, \<open>None\<close> for a null pointer;
  \<open>st_alloc\<close> is the number of entries the allocator really gave.
\<close>

record sym_table =
  st_symbols :: "symbol list option"
  st_count :: nat
  st_capacity :: nat
  st_alloc :: nat

record inferior =
  inf_id :: "32 word"
  inf_pid :: pid
  inf_status :: inferior_state
  inf_realpath :: "string option"
  inf_args :: "string option"
  inf_is_attached :: bool
  inf_breakpoints :: "breakpoint list"
  inf_breakpoint_count :: nat
  inf_elf_table :: sym_table
  inf_dwarf_table :: sym_table

text \<open>A \<open>struct sylvan_inferior *\<close>: null, pointing to freed memory, or valid.\<close>

datatype inferior_ptr = InfNull | InfFreed | InfLive inferior

definition isactive :: "inferior \<Rightarrow> bool" where
  "isactive i \<longleftrightarrow>
     inf_status i = SYLVAN_INFSTATE_RUNNING \<or> inf_status i = SYLVAN_INFSTATE_STOPPED"

text \<open>
  \<open>struct user_regs_struct\<close>: 27 cells of eight bytes; the cell of offset \<open>o\<close> is
  \<open>o div 8\<close>. \<open>rip\<close> is at offset 128.
\<close>

type_synonym user_regs = "nat \<Rightarrow> 64 word"

definition rip_cell :: nat where "rip_cell = 16"


section \<open>Wait statuses\<close>

text \<open>The macros of \<open>sys/wait.h\<close> on the status \<open>waitpid\<close> stores.\<close>

type_synonym wait_status = "32 word"

definition WTERMSIG :: "wait_status \<Rightarrow> 32 word" where
  "WTERMSIG st = st AND 0x7F"

definition WEXITSTATUS :: "wait_status \<Rightarrow> 32 word" where
  "WEXITSTATUS st = drop_bit 8 (st AND 0xFF00)"

definition WIFEXITED :: "wait_status \<Rightarrow> bool" where
  "WIFEXITED st \<longleftrightarrow> WTERMSIG st = 0"

definition WIFSIGNALED :: "wait_status \<Rightarrow> bool" where
  "WIFSIGNALED st \<longleftrightarrow> 0 <s (signed_drop_bit 1 (ucast ((st AND 0x7F) + 1) :: 8 word))"

definition WIFSTOPPED :: "wait_status \<Rightarrow> bool" where
  "WIFSTOPPED st \<longleftrightarrow> st AND 0xFF = 0x7F"

definition WIFCONTINUED :: "wait_status \<Rightarrow> bool" where
  "WIFCONTINUED st \<longleftrightarrow> st = 0xFFFF"


section \<open>Debug information, as the libraries deliver it\<close>

text \<open>
  \<open>libdwarf\<close>: a file that cannot be opened is \<open>None\<close>; otherwise the results of
  \<open>dwarf_next_cu_header_e\<close> up to \<open>DW_DLV_NO_ENTRY\<close>, each an error, a unit without
  children or the chain of its children. A child has a tag, a name and a low
  program counter where the library answers \<open>DW_DLV_OK\<close>.
\<close>

record dwarf_die =
  die_tag :: "int option"
  die_name :: "string option"
  die_lowpc :: "addr option"

datatype dwarf_unit = UnitError | UnitNoChild | UnitChildren "dwarf_die list"

text \<open>
  \<open>libelf\<close>: whether the version, \<open>open\<close>, \<open>elf_begin\<close> and \<open>elf_getshdrstrndx\<close>
  calls succeed, then the sections. \<open>es_shdr\<close> and \<open>es_data\<close> say whether
  \<open>gelf_getshdr\<close> and \<open>elf_getdata\<close> succeed. A symbol is \<open>None\<close> where \<open>gelf_getsym\<close>
  fails; \<open>sym_flags\<close> are the flags of the section it is defined in, \<open>None\<close>
  where there is none.
\<close>

record elf_symbol =
  es_name :: "string option"
  es_value :: addr
  es_size :: "64 word"
  es_flags :: "64 word option"

record elf_section =
  sh_ok :: bool
  sh_type :: int
  sh_data_ok :: bool
  sh_size :: "64 word"
  sh_entsize :: "64 word"
  sh_syms :: "nat \<Rightarrow> elf_symbol option"

record elf_file =
  elf_version_ok :: bool
  elf_open :: "int + unit"
  elf_begin_ok :: bool
  elf_shstrndx_ok :: bool
  elf_sections :: "elf_section list"


section \<open>The operating system\<close>

text \<open>
  Each call takes the world and gives its answer and the new world; \<open>Inl e\<close> is
  the answer -1 with \<open>errno\<close> set to \<open>e\<close>. \<open>os_waitpid pid nohang\<close> answers the pid
  whose state changed (0 for no change) and its status; \<open>os_malloc\<close> also stands for
  \<open>calloc\<close>, \<open>realloc\<close> and \<open>strdup\<close>;
  \<open>os_read_pipe\<close> is \<open>read\<close> on the read end of the pipe to the child, and
  \<open>os_stack_junk\<close> what the rest of the parent's stack buffer holds.
\<close>

record 'w os =
  os_strerror :: "int \<Rightarrow> string"
  os_waitpid :: "pid \<Rightarrow> bool \<Rightarrow> 'w \<Rightarrow> (int + pid \<times> wait_status) \<times> 'w"
  os_kill :: "pid \<Rightarrow> int \<Rightarrow> 'w \<Rightarrow> (int + unit) \<times> 'w"
  os_getsiginfo :: "pid \<Rightarrow> 'w \<Rightarrow> (int + int) \<times> 'w"
  os_getregs :: "pid \<Rightarrow> 'w \<Rightarrow> (int + user_regs) \<times> 'w"
  os_setregs :: "pid \<Rightarrow> user_regs \<Rightarrow> 'w \<Rightarrow> (int + unit) \<times> 'w"
  os_cont :: "pid \<Rightarrow> 'w \<Rightarrow> (int + unit) \<times> 'w"
  os_step :: "pid \<Rightarrow> 'w \<Rightarrow> (int + unit) \<times> 'w"
  os_attach :: "pid \<Rightarrow> 'w \<Rightarrow> (int + unit) \<times> 'w"
  os_detach :: "pid \<Rightarrow> 'w \<Rightarrow> (int + unit) \<times> 'w"
  os_peek :: "pid \<Rightarrow> addr \<Rightarrow> 'w \<Rightarrow> (int + 64 word) \<times> 'w"
  os_poke :: "pid \<Rightarrow> addr \<Rightarrow> 64 word \<Rightarrow> 'w \<Rightarrow> (int + unit) \<times> 'w"
  os_malloc :: "nat \<Rightarrow> 'w \<Rightarrow> (int + unit) \<times> 'w"
  os_access_x :: "string \<Rightarrow> 'w \<Rightarrow> (int + unit) \<times> 'w"
  os_realpath :: "string \<Rightarrow> 'w \<Rightarrow> (int + string) \<times> 'w"
  os_getenv_PATH :: "'w \<Rightarrow> string option"
  os_pipe :: "'w \<Rightarrow> (int + unit) \<times> 'w"
  os_fork :: "'w \<Rightarrow> (int + pid) \<times> 'w"
  os_close :: "bool \<Rightarrow> 'w \<Rightarrow> (int + unit) \<times> 'w"
  os_read_pipe :: "'w \<Rightarrow> (int + string) \<times> 'w"
  os_stack_junk :: "'w \<Rightarrow> string"
  os_dwarf :: "string option \<Rightarrow> 'w \<Rightarrow> dwarf_unit list option \<times> 'w"
  os_elf :: "string option \<Rightarrow> 'w \<Rightarrow> elf_file \<times> 'w"

definition ENOENT :: int where "ENOENT = 2"
definition ESRCH :: int where "ESRCH = 3"
definition EPERM :: int where "EPERM = 1"
definition ECHILD :: int where "ECHILD = 10"
definition SIGKILL :: int where "SIGKILL = 9"
definition SI_KERNEL :: int where "SI_KERNEL = 128"


section \<open>The state of the library\<close>

text \<open>
  The two counters are \<open>int\<close>s of 32 bits that wrap around, as two's complement
  addition does on the machines the program runs on.
\<close>

record 'w dbg =
  infp :: inferior_ptr
  sylvan_inferior_idx :: "32 word"
  sylvan_inferior_count :: "32 word"
  sylvan_last_error :: error_context
  errno :: int
  world :: 'w

type_synonym ('w, 'm, 'a) lib = "(('w, 'm) dbg_scheme, 'a) prog"

definition get_inf :: "('w, 'm, inferior) lib" where
  "get_inf = (\<lambda>s. case infp s of InfLive i \<Rightarrow> Ret (i, s) | _ \<Rightarrow> UB)"

definition upd_inf :: "(inferior \<Rightarrow> inferior) \<Rightarrow> ('w, 'm, unit) lib" where
  "upd_inf f = (\<lambda>s. case infp s of InfLive i \<Rightarrow> Ret ((), s\<lparr>infp := InfLive (f i)\<rparr>) | _ \<Rightarrow> UB)"

definition is_null :: "('w, 'm, bool) lib" where
  "is_null = gets (\<lambda>s. infp s = InfNull)"

definition get_bp :: "nat \<Rightarrow> ('w, 'm, breakpoint) lib" where
  "get_bp n = bnd get_inf (\<lambda>i. if n < length (inf_breakpoints i) then ret (inf_breakpoints i ! n)
                              else undefined_behaviour)"

definition upd_bp :: "nat \<Rightarrow> (breakpoint \<Rightarrow> breakpoint) \<Rightarrow> ('w, 'm, unit) lib" where
  "upd_bp n f = bnd get_inf (\<lambda>i. if n < length (inf_breakpoints i)
      then upd_inf (\<lambda>i. i\<lparr>inf_breakpoints := (inf_breakpoints i)[n := f (inf_breakpoints i ! n)]\<rparr>)
      else undefined_behaviour)"

text \<open>A system call: -1 sets \<open>errno\<close>.\<close>

definition syscall ::
  "('w \<Rightarrow> (int + 'a) \<times> 'w) \<Rightarrow> ('w, 'm) dbg_scheme \<Rightarrow> (int + 'a) \<times> ('w, 'm) dbg_scheme" where
  "syscall c s =
     (case c (world s) of
        (Inl e, w) \<Rightarrow> (Inl e, s\<lparr>errno := e, world := w\<rparr>)
      | (Inr r, w) \<Rightarrow> (Inr r, s\<lparr>world := w\<rparr>))"

definition sys :: "('w \<Rightarrow> (int + 'a) \<times> 'w) \<Rightarrow> ('w, 'm, int + 'a) lib" where
  "sys c = (\<lambda>s. Ret (syscall c s))"

definition sys_retry :: "('w \<Rightarrow> (int + 'a) \<times> 'w) \<Rightarrow> ('w, 'm, int + 'a) lib" where
  "sys_retry c = (\<lambda>s. case retry_eintr (syscall c) s of None \<Rightarrow> Diverge | Some r \<Rightarrow> Ret r)"

text \<open>A library call that does not touch \<open>errno\<close> as far as the program reads it.\<close>

definition extern :: "('w \<Rightarrow> 'a \<times> 'w) \<Rightarrow> ('w, 'm, 'a) lib" where
  "extern c = (\<lambda>s. case c (world s) of (r, w) \<Rightarrow> Ret (r, s\<lparr>world := w\<rparr>))"

definition set_errno :: "int \<Rightarrow> ('w, 'm, unit) lib" where
  "set_errno e = modify (errno_update (\<lambda>_. e))"


section \<open>Setting the last error\<close>

definition ERRMSG_SIZE :: nat where "ERRMSG_SIZE = 2048"

definition sylvan_set_code :: "sylvan_code \<Rightarrow> ('w, 'm, sylvan_code) lib" where
  "sylvan_set_code code = (\<lambda>s. Ret (code, s\<lparr>sylvan_last_error :=
     \<lparr>ec_code = code, ec_os_errno = errno s, ec_message = sylvan_strerror code\<rparr>\<rparr>))"

text \<open>
  The buffer of the message (\<open>sylvan_errmsg_buffer\<close>) is the list of its bytes.
  \<open>snprintf_at\<close> is \<open>snprintf(buf + off, size, "%s", txt)\<close> with a \<open>size_t\<close>: it writes at most
  \<open>size\<close> bytes, the terminator included, and a write behind the buffer is undefined
  (\<open>None\<close>). \<open>printed_count\<close> is the \<open>int\<close> that \<open>vsnprintf\<close> returns, the length of the
  whole text, or a negative number where that is no \<open>int\<close>.
\<close>

definition snprintf_at :: "string \<Rightarrow> nat \<Rightarrow> 64 word \<Rightarrow> string \<Rightarrow> string option" where
  "snprintf_at buf off n txt =
     (if n = 0 then Some buf
      else let out = take (unat n - 1) txt @ [NUL] in
        if off + length out \<le> length buf
        then Some (take off buf @ out @ drop (off + length out) buf) else None)"

definition printed_count :: "string \<Rightarrow> 32 word" where
  "printed_count txt = (if length txt < 2 ^ 31 then word_of_nat (length txt) else - 1)"

definition errno_message :: "string \<Rightarrow> string \<Rightarrow> string \<Rightarrow> string option" where
  "errno_message buf msg err =
     (let rem = word_of_nat (length buf) :: 64 word in
      case snprintf_at buf 0 rem msg of
        None \<Rightarrow> None
      | Some buf1 \<Rightarrow>
          let count = printed_count msg;
              second = (if signed count < rem - 3
                        then snprintf_at buf1 (nat (sint count)) (rem - signed count) ('': '' @ err)
                        else Some buf1)
          in map_option (\<lambda>buf2. buf2[length buf2 - 1 := NUL]) second)"

text \<open>
  The bytes that the buffer held before cannot be seen in the message
  (\<open>errno_message_text\<close> below holds for any), so the buffer is no part of the state.
\<close>

definition sylvan_errmsg_buffer :: string where
  "sylvan_errmsg_buffer = replicate ERRMSG_SIZE NUL"

definition sylvan_set_errno_msg ::
  "'w os \<Rightarrow> sylvan_code \<Rightarrow> string \<Rightarrow> farg list \<Rightarrow> ('w, 'm, sylvan_code) lib" where
  "sylvan_set_errno_msg os code fmt args = (\<lambda>s.
     case cformat fmt args of
       None \<Rightarrow> UB
     | Some msg \<Rightarrow>
         (case errno_message sylvan_errmsg_buffer msg (os_strerror os (errno s)) of
            None \<Rightarrow> UB
          | Some buf \<Rightarrow> Ret (code, s\<lparr>sylvan_last_error :=
              \<lparr>ec_code = code, ec_os_errno = errno s, ec_message = cstr buf\<rparr>\<rparr>)))"

definition sylvan_set_message ::
  "sylvan_code \<Rightarrow> string \<Rightarrow> farg list \<Rightarrow> ('w, 'm, sylvan_code) lib" where
  "sylvan_set_message code fmt args = (\<lambda>s.
     case snprintf (ERRMSG_SIZE - 1) fmt args of
       None \<Rightarrow> UB
     | Some msg \<Rightarrow> Ret (code, s\<lparr>sylvan_last_error :=
         \<lparr>ec_code = code, ec_os_errno = errno s, ec_message = msg\<rparr>\<rparr>))"

definition sylvan_get_last_error :: "('w, 'm, string) lib" where
  "sylvan_get_last_error = gets (\<lambda>s. ec_message (sylvan_last_error s))"



section \<open>The text of an error message\<close>

definition errno_text :: "string \<Rightarrow> string \<Rightarrow> string" where
  "errno_text msg err = cstr
     (take (ERRMSG_SIZE - 1) (msg @ (if length msg < ERRMSG_SIZE - 3 then '': '' @ err else [])))"

lemma cstr_terminated: "cstr (xs @ NUL # ys) = cstr xs"
  unfolding cstr_def by (induction xs) simp_all

lemma cstr_last_terminated:
  assumes "length xs \<le> n"
  shows "cstr ((xs @ NUL # ys)[n := NUL]) = cstr xs"
  using assms by (cases "n - length xs") (simp_all add: list_update_append cstr_terminated)

lemma printed_count_small:
  assumes "length msg < 2 ^ 31"
  shows "sint (printed_count msg) = int (length msg)"
    and "(signed (printed_count msg) :: 64 word) = word_of_nat (length msg)"
proof -
  have "signed_take_bit 31 (int (length msg)) = int (length msg)"
    by (rule signed_take_bit_int_eq_self) (use assms in simp_all)
  then have "sint (word_of_nat (length msg) :: 32 word) = int (length msg)"
    by (subst signed_of_nat) simp
  then show s: "sint (printed_count msg) = int (length msg)"
    using assms unfolding printed_count_def by presburger
  have "(signed (printed_count msg) :: 64 word) = word_of_int (sint (printed_count msg))"
    by simp
  then show "(signed (printed_count msg) :: 64 word) = word_of_nat (length msg)"
    by (simp add: s)
qed

lemma unat_small_length: "n < 2 ^ 31 \<Longrightarrow> unat (word_of_nat n :: 64 word) = n"
  by (simp add: unat_of_nat)

lemma printed_count_guard:
  "(signed (printed_count msg) :: 64 word) < 2045 \<longleftrightarrow> length msg < 2045"
proof (cases "length msg < 2 ^ 31")
  case True
  then show ?thesis
    by (simp add: printed_count_small word_less_nat_alt unat_small_length)
next
  case False
  then show ?thesis by (simp add: printed_count_def)
qed

lemma snprintf_at_fits:
  assumes "0 < unat n" "off + unat n = length buf"
  obtains ys where "snprintf_at buf off n txt = Some (take off buf @ take (unat n - 1) txt @ NUL # ys)"
    "length (take off buf @ take (unat n - 1) txt @ NUL # ys) = length buf"
proof -
  have "n \<noteq> 0" using assms(1) by auto
  with that [of "drop (off + length (take (unat n - 1) txt @ [NUL])) buf"] assms show ?thesis
    by (auto simp: snprintf_at_def Let_def min_def)
qed

lemma errno_message_text:
  assumes "length buf = ERRMSG_SIZE"
  obtains buf' where "errno_message buf msg err = Some buf'" "length buf' = ERRMSG_SIZE"
    "cstr buf' = errno_text msg err"
proof -
  have l: "length buf = 2048" using assms by (simp add: ERRMSG_SIZE_def)
  obtain ys where 1: "snprintf_at buf 0 2048 msg = Some (take 2047 msg @ NUL # ys)"
      "length (take 2047 msg @ NUL # ys) = 2048"
    by (rule snprintf_at_fits [of 2048 0 buf msg]) (use l in simp_all)
  show ?thesis
  proof (cases "length msg < 2045")
    case True
    define r where "r = (2048 - word_of_nat (length msg) :: 64 word)"
    have n: "unat (word_of_nat (length msg) :: 64 word) = length msg"
      using True by (intro unat_small_length) simp
    have r: "unat r = 2048 - length msg"
      unfolding r_def by (subst unat_sub) (use True n in \<open>simp_all add: word_le_nat_alt\<close>)
    obtain zs where 2: "snprintf_at (take 2047 msg @ NUL # ys) (length msg) r ('': '' @ err) =
          Some (take (length msg) (take 2047 msg @ NUL # ys) @ take (unat r - 1) ('': '' @ err) @ NUL # zs)"
        "length (take (length msg) (take 2047 msg @ NUL # ys) @ take (unat r - 1) ('': '' @ err) @ NUL # zs) =
          length (take 2047 msg @ NUL # ys)"
      by (rule snprintf_at_fits [of r "length msg" "take 2047 msg @ NUL # ys" "'': '' @ err"])
        (use True r 1(2) in simp_all)
    define t where "t = msg @ take (unat r - 1) ('': '' @ err)"
    have b: "take (length msg) (take 2047 msg @ NUL # ys) @ take (unat r - 1) ('': '' @ err) @ NUL # zs = t @ NUL # zs"
      using True by (simp add: t_def)
    have lt: "length (t @ NUL # zs) = 2048" using 2(2) 1(2) unfolding b by simp
    have "errno_message buf msg err = Some ((t @ NUL # zs)[2047 := NUL])"
      using True 1(1) 2(1) printed_count_guard [of msg] lt unfolding b
      by (simp add: errno_message_def l printed_count_small r_def)
    moreover have "cstr ((t @ NUL # zs)[2047 := NUL]) = errno_text msg err"
      using True by (subst cstr_last_terminated) (simp_all add: t_def errno_text_def ERRMSG_SIZE_def r)
    ultimately show ?thesis using that [of "(t @ NUL # zs)[2047 := NUL]"] lt by (simp add: ERRMSG_SIZE_def)
  next
    case False
    let ?b = "take 2047 msg @ NUL # ys"
    have "errno_message buf msg err = Some (?b[2047 := NUL])"
      using False 1 printed_count_guard [of msg] by (simp add: errno_message_def l)
    moreover have "cstr (?b[2047 := NUL]) = errno_text msg err"
      using False by (subst cstr_last_terminated) (simp_all add: errno_text_def ERRMSG_SIZE_def)
    ultimately show ?thesis using that [of "?b[2047 := NUL]"] 1(2) by (simp add: ERRMSG_SIZE_def)
  qed
qed

lemma sylvan_set_errno_msg_eq:
  "sylvan_set_errno_msg os code fmt args s =
     (case cformat fmt args of
        None \<Rightarrow> UB
      | Some msg \<Rightarrow> Ret (code, s\<lparr>sylvan_last_error := \<lparr>ec_code = code, ec_os_errno = errno s,
          ec_message = errno_text msg (os_strerror os (errno s))\<rparr>\<rparr>))"
proof (cases "cformat fmt args")
  case None
  then show ?thesis by (simp add: sylvan_set_errno_msg_def)
next
  case (Some msg)
  obtain buf where "errno_message sylvan_errmsg_buffer msg (os_strerror os (errno s)) = Some buf"
      "cstr buf = errno_text msg (os_strerror os (errno s))"
    by (rule errno_message_text [of sylvan_errmsg_buffer msg]) (simp_all add: sylvan_errmsg_buffer_def)
  then show ?thesis using Some by (simp add: sylvan_set_errno_msg_def)
qed


section \<open>Weakest preconditions of the primitives\<close>

lemma wp_get_inf [wp_simps]:
  "wp get_inf Q s = (case infp s of InfLive i \<Rightarrow> Q i s | _ \<Rightarrow> False)"
  by (simp add: wp_def get_inf_def split: inferior_ptr.splits)

lemma wp_upd_inf [wp_simps]:
  "wp (upd_inf f) Q s = (case infp s of InfLive i \<Rightarrow> Q () (s\<lparr>infp := InfLive (f i)\<rparr>) | _ \<Rightarrow> False)"
  by (simp add: wp_def upd_inf_def split: inferior_ptr.splits)

lemma wp_is_null [wp_simps]: "wp is_null Q s = Q (infp s = InfNull) s"
  by (simp add: is_null_def wp_simps)

lemma wp_get_bp [wp_simps]:
  "wp (get_bp n) Q s =
     (case infp s of InfLive i \<Rightarrow> n < length (inf_breakpoints i) \<and> Q (inf_breakpoints i ! n) s | _ \<Rightarrow> False)"
  by (auto simp: get_bp_def wp_simps split: inferior_ptr.splits)

lemma wp_upd_bp [wp_simps]:
  "wp (upd_bp n f) Q s =
     (case infp s of
        InfLive i \<Rightarrow> n < length (inf_breakpoints i) \<and>
          Q () (s\<lparr>infp := InfLive (i\<lparr>inf_breakpoints := (inf_breakpoints i)[n := f (inf_breakpoints i ! n)]\<rparr>)\<rparr>)
      | _ \<Rightarrow> False)"
  by (auto simp: upd_bp_def wp_simps split: inferior_ptr.splits)

lemma wp_sys [wp_simps]:
  "wp (sys c) Q s =
     (case c (world s) of
        (Inl e, w) \<Rightarrow> Q (Inl e) (s\<lparr>errno := e, world := w\<rparr>)
      | (Inr r, w) \<Rightarrow> Q (Inr r) (s\<lparr>world := w\<rparr>))"
  by (simp add: wp_def sys_def syscall_def split: prod.splits sum.splits)

lemma wp_extern [wp_simps]:
  "wp (extern c) Q s = (case c (world s) of (r, w) \<Rightarrow> Q r (s\<lparr>world := w\<rparr>))"
  by (simp add: wp_def extern_def split: prod.splits)

lemma wp_set_errno [wp_simps]: "wp (set_errno e) Q s = Q () (s\<lparr>errno := e\<rparr>)"
  by (simp add: set_errno_def wp_simps)

lemma wp_set_code [wp_simps]:
  "wp (sylvan_set_code c) Q s =
     Q c (s\<lparr>sylvan_last_error := \<lparr>ec_code = c, ec_os_errno = errno s, ec_message = sylvan_strerror c\<rparr>\<rparr>)"
  by (simp add: wp_def sylvan_set_code_def)

lemma wp_set_errno_msg [wp_simps]:
  "wp (sylvan_set_errno_msg os c fmt args) Q s =
     (case cformat fmt args of
        None \<Rightarrow> False
      | Some msg \<Rightarrow> Q c (s\<lparr>sylvan_last_error := \<lparr>ec_code = c, ec_os_errno = errno s,
          ec_message = errno_text msg (os_strerror os (errno s))\<rparr>\<rparr>))"
  by (simp add: wp_def sylvan_set_errno_msg_eq split: option.splits)

lemma wp_set_message [wp_simps]:
  "wp (sylvan_set_message c fmt args) Q s =
     (case snprintf (ERRMSG_SIZE - 1) fmt args of
        None \<Rightarrow> False
      | Some msg \<Rightarrow> Q c (s\<lparr>sylvan_last_error :=
          \<lparr>ec_code = c, ec_os_errno = errno s, ec_message = msg\<rparr>\<rparr>))"
  by (simp add: wp_def sylvan_set_message_def split: option.splits)

lemma eintr_after_syscall:
  "eintr_after c n (world s) \<Longrightarrow> eintr_after (syscall c) n (s :: ('w, 'm) dbg_scheme)"
proof (induction n arbitrary: s)
  case 0
  then show ?case by (auto simp: syscall_def split: prod.splits sum.splits)
next
  case (Suc n)
  have "eintr_after (syscall c) n (snd (syscall c s))"
    by (rule Suc.IH) (use Suc.prems in \<open>auto simp: syscall_def split: prod.splits sum.splits\<close>)
  moreover have "fst (syscall c s) = Inl EINTR"
    using Suc.prems by (auto simp: syscall_def split: prod.splits sum.splits)
  ultimately show ?case by simp
qed

text \<open>
  A repeated call is one last call, in a world that the interrupted ones before it have
  led to; \<open>I\<close> is what these calls keep of the world.
\<close>

lemma wp_sys_retry:
  fixes s :: "('w, 'm) dbg_scheme"
  assumes "eintr_after c n (world s)" and "I (world s)" and "\<And>w. I w \<Longrightarrow> I (snd (c w))"
    and Q: "\<And>r w0 w e. I w0 \<Longrightarrow> c w0 = (r, w) \<Longrightarrow> r \<noteq> Inl EINTR \<Longrightarrow> (\<forall>x. r = Inl x \<longrightarrow> e = x) \<Longrightarrow>
      Q r (s\<lparr>errno := e, world := w\<rparr>)"
  shows "wp (sys_retry c) Q s"
proof -
  define J where "J t \<longleftrightarrow> I (world t) \<and> (\<exists>e w. t = s\<lparr>errno := e, world := w\<rparr>)" for t :: "('w, 'm) dbg_scheme"
  have "s = s\<lparr>errno := errno s, world := world s\<rparr>" by simp
  then have "J s" using assms(2) unfolding J_def by blast
  moreover have "J (snd (syscall c t))" if "J t" for t
    using that assms(3) [of "world t"]
    by (auto simp: J_def syscall_def split: prod.splits sum.splits) metis+
  ultimately obtain t where t: "J t" "retry_eintr (syscall c) s = Some (syscall c t)"
      "fst (syscall c t) \<noteq> Inl EINTR"
    using retry_eintr_settles [OF eintr_after_syscall [OF assms(1)], of J] by blast
  obtain r w where rw: "c (world t) = (r, w)" by fastforce
  from t(1) obtain e0 w0 where t_eq: "t = s\<lparr>errno := e0, world := w0\<rparr>" and "I (world t)"
    by (auto simp: J_def)
  have res: "syscall c t = (r, s\<lparr>errno := (case r of Inl e \<Rightarrow> e | Inr _ \<Rightarrow> e0), world := w\<rparr>)"
    using rw by (auto simp: syscall_def t_eq split: sum.splits)
  with t(3) have "r \<noteq> Inl EINTR" by simp
  then have "Q r (s\<lparr>errno := (case r of Inl e \<Rightarrow> e | Inr _ \<Rightarrow> e0), world := w\<rparr>)"
    using Q [OF \<open>I (world t)\<close> rw] by (auto split: sum.splits)
  then show ?thesis
    by (simp add: wp_def sys_retry_def t(2) res)
qed


text \<open>A call that is not interrupted is made once.\<close>

lemma wp_sys_retry_once:
  "fst (c (world s)) \<noteq> Inl EINTR \<Longrightarrow> wp (sys_retry c) Q (s :: ('w, 'm) dbg_scheme) = wp (sys c) Q s"
  by (subst (1) wp_def, simp add: sys_retry_def, subst retry_eintr.simps)
    (auto simp: wp_simps syscall_def split: prod.splits sum.splits)

section \<open>What the development relies on of the system\<close>

text \<open>An interrupted \<open>waitpid\<close> is not interrupted for ever.\<close>

definition wait_settles :: "'w os \<Rightarrow> bool" where
  "wait_settles os \<longleftrightarrow> (\<forall>p nohang w. \<exists>n. eintr_after (os_waitpid os p nohang) n w)"

text \<open>
  A reported status is one of the four kinds of \<open>sys/wait.h\<close>; a call that may block
  always reports one.
\<close>

definition classified :: "wait_status \<Rightarrow> bool" where
  "classified st \<longleftrightarrow> WIFEXITED st \<or> WIFSIGNALED st \<or> WIFSTOPPED st \<or> WIFCONTINUED st"

definition wait_classified :: "'w os \<Rightarrow> bool" where
  "wait_classified os \<longleftrightarrow>
     (\<forall>p nohang w r st w'. os_waitpid os p nohang w = (Inr (r, st), w') \<longrightarrow> r \<noteq> 0 \<or> \<not> nohang \<longrightarrow> classified st)"

text \<open>
  \<open>mem p w\<close> is the memory of process \<open>p\<close>: a peek reads the eight bytes at the address
  in little-endian order, a poke that succeeds writes them, one that fails
  changes nothing.
\<close>

definition tracee_memory :: "'w os \<Rightarrow> (pid \<Rightarrow> 'w \<Rightarrow> memory) \<Rightarrow> bool" where
  "tracee_memory os mem \<longleftrightarrow>
     (\<forall>p a w. mem p (snd (os_peek os p a w)) = mem p w \<and>
        (\<forall>v. fst (os_peek os p a w) = Inr v \<longrightarrow> v = read_word (mem p w) a)) \<and>
     (\<forall>p a v w. mem p (snd (os_poke os p a v w)) =
        (case fst (os_poke os p a v w) of Inl _ \<Rightarrow> mem p w | Inr _ \<Rightarrow> write_word (mem p w) a v))"

lemma tracee_peek:
  "tracee_memory os mem \<Longrightarrow> os_peek os p a w = (r, w') \<Longrightarrow>
     mem p w' = mem p w \<and> (\<forall>v. r = Inr v \<longrightarrow> v = read_word (mem p w) a)"
  unfolding tracee_memory_def by (metis fst_conv snd_conv)

lemma tracee_poke_ok:
  "tracee_memory os mem \<Longrightarrow> os_poke os p a v w = (Inr u, w') \<Longrightarrow>
     mem p w' = write_word (mem p w) a v"
  unfolding tracee_memory_def by (metis fst_conv snd_conv sum.case(2))

lemma tracee_poke_fail:
  "tracee_memory os mem \<Longrightarrow> os_poke os p a v w = (Inl e, w') \<Longrightarrow> mem p w' = mem p w"
  unfolding tracee_memory_def by (metis fst_conv snd_conv sum.case(1))


section \<open>Facts about messages and wait statuses\<close>

lemma cstr_take: "length (cstr (take n t)) \<le> n"
  unfolding cstr_def by (rule order_trans [OF length_takeWhile_le]) simp

lemma errno_text_length: "length (errno_text msg err) < ERRMSG_SIZE"
  unfolding errno_text_def by (rule le_less_trans [OF cstr_take]) (simp add: ERRMSG_SIZE_def)

lemma wait_low_bits:
  "st AND 0xFF = (0x7F :: 32 word) \<Longrightarrow> st AND 0x7F = 0x7F"
  "st = (0xFFFF :: 32 word) \<Longrightarrow> st AND 0xFF \<noteq> 0x7F"
proof -
  assume "st AND 0xFF = (0x7F :: 32 word)"
  then have "(st AND 0xFF) AND 0x7F = (0x7F :: 32 word)" by simp
  moreover have "(st AND 0xFF) AND 0x7F = st AND (0x7F :: 32 word)"
    by (simp add: and.assoc)
  ultimately show "st AND 0x7F = 0x7F" by simp
qed simp

lemma wtermsig_range: "unat (st AND 0x7F :: 32 word) < 128"
proof -
  have "st AND 0x7F \<le> (0x7F :: 32 word)" by (rule word_and_le1)
  then have "unat (st AND 0x7F :: 32 word) \<le> unat (0x7F :: 32 word)" by (simp only: word_le_nat_alt)
  then show ?thesis by simp
qed

text \<open>The signalled test: the low seven bits are neither 0 nor 127.\<close>

lemma wifsignaled_iff: "WIFSIGNALED st \<longleftrightarrow> st AND 0x7F \<noteq> 0 \<and> st AND 0x7F \<noteq> 0x7F"
proof -
  define n where "n = unat (st AND 0x7F)"
  have st: "st AND 0x7F = of_nat n" by (simp add: n_def)
  have "n < 128" using wtermsig_range [of st] by (simp add: n_def)
  then have "n \<in> set [0..<128]" by simp
  moreover have "\<forall>n \<in> set [0..<128].
    (0 <s (signed_drop_bit 1 (ucast ((of_nat n :: 32 word) + 1) :: 8 word))) \<longleftrightarrow>
      ((of_nat n :: 32 word) \<noteq> 0 \<and> (of_nat n :: 32 word) \<noteq> 0x7F)"
    by code_simp
  ultimately show ?thesis by (simp add: WIFSIGNALED_def st)
qed

end
