(* ===== verification/Breakpoints.thy ===== *)
theory Breakpoints
  imports Machine
begin

text \<open>
  \<open>lib/sylvan/breakpoint.c\<close>: the table of breakpoints of an inferior (an array of
  \<open>MAX_BREAKPOINTS\<close> slots of which the first \<open>breakpoint_count\<close> are in use), the
  physical breakpoints (\<open>0xCC\<close> bytes in the memory of the process), and their
  public operations. A \<open>struct sylvan_breakpoint *\<close> is the index of its slot.
\<close>

section \<open>Operations\<close>

text \<open>\<open>if ((code = m)) return code; k\<close>\<close>

definition on_ok :: "('w, 'm, sylvan_code) lib \<Rightarrow> ('w, 'm, sylvan_code) lib \<Rightarrow> ('w, 'm, sylvan_code) lib" where
  "on_ok m k = bnd m (\<lambda>code. if code \<noteq> SYLVANC_OK then ret code else k)"

lemma wp_on_ok [wp_simps]:
  "wp (on_ok m k) Q s = wp m (\<lambda>c s'. if c \<noteq> SYLVANC_OK then Q c s' else wp k Q s') s"
  by (simp add: on_ok_def wp_simps)

text \<open>\<open>assert(inf)\<close>, and the check for a null argument of a public function.\<close>

definition assert_inf :: "('w, 'm, 'a) lib \<Rightarrow> ('w, 'm, 'a) lib" where
  "assert_inf m = bnd is_null (\<lambda>b. c_assert (\<not> b) m)"

definition check_inf :: "('w, 'm, sylvan_code) lib \<Rightarrow> ('w, 'm, sylvan_code) lib" where
  "check_inf m = bnd is_null (\<lambda>b. if b then sylvan_set_code SYLVANC_INVALID_ARGUMENT else m)"

lemma wp_assert_inf [wp_simps]: "wp (assert_inf m) Q s = (infp s \<noteq> InfNull \<and> wp m Q s)"
  by (simp add: assert_inf_def wp_simps)

lemma wp_check_inf [wp_simps]:
  "wp (check_inf m) Q s =
     (if infp s = InfNull then wp (sylvan_set_code SYLVANC_INVALID_ARGUMENT) Q s else wp m Q s)"
  by (simp add: check_inf_def wp_simps)

text \<open>The search loop, from slot \<open>i\<close> on.\<close>

function find_from :: "nat \<Rightarrow> addr \<Rightarrow> nat \<Rightarrow> ('w, 'm, nat option) lib" where
  "find_from count addr i =
     (if i < count
      then bnd (get_bp i) (\<lambda>b. if bp_addr b = addr then ret (Some i) else find_from count addr (Suc i))
      else ret None)"
  by pat_completeness auto
termination
  by (relation "measure (\<lambda>(count, addr, i). count - i)") auto

declare find_from.simps [simp del]

definition sylvan_breakpoint_find_by_addr :: "addr \<Rightarrow> ('w, 'm, sylvan_code \<times> nat option) lib" where
  "sylvan_breakpoint_find_by_addr addr = assert_inf (bnd get_inf (\<lambda>i.
     bnd (find_from (inf_breakpoint_count i) addr 0) (\<lambda>r.
       case r of
         Some n \<Rightarrow> ret (SYLVANC_OK, Some n)
       | None \<Rightarrow> ret (SYVLANC_BREAKPOINT_NOT_FOUND, None))))"

definition sylvan_breakpoint_create_phybp :: "'w os \<Rightarrow> nat \<Rightarrow> ('w, 'm, sylvan_code) lib" where
  "sylvan_breakpoint_create_phybp os n = assert_inf (bnd get_inf (\<lambda>i. c_assert (isactive i)
     (bnd (get_bp n) (\<lambda>b.
        if is_enabled_phy b then ret SYLVANC_OK
        else bnd (sys (os_peek os (inf_pid i) (bp_addr b))) (\<lambda>r.
          let og_data = (case r of Inl _ \<Rightarrow> -1 | Inr v \<Rightarrow> v) in
          if og_data = -1
          then sylvan_set_errno_msg os SYLVANC_PTRACE_PEEKTEXT_FAILED ''ptrace peek text'' []
          else let new_data = (og_data AND NOT 0xFF) OR 0xCC in
            bnd (sys (os_poke os (inf_pid i) (bp_addr b) new_data)) (\<lambda>r'.
              case r' of
                Inl _ \<Rightarrow> sylvan_set_errno_msg os SYLVANC_PTRACE_PEEKTEXT_FAILED ''ptrace poke text'' []
              | Inr _ \<Rightarrow> bnd (upd_bp n (\<lambda>b. b\<lparr>og_byte := ucast (og_data AND 0xFF), is_enabled_phy := True\<rparr>))
                  (\<lambda>_. ret SYLVANC_OK)))))))"

definition sylvan_breakpoint_remove_phybp :: "'w os \<Rightarrow> nat \<Rightarrow> ('w, 'm, sylvan_code) lib" where
  "sylvan_breakpoint_remove_phybp os n = assert_inf (bnd get_inf (\<lambda>i. c_assert (isactive i)
     (bnd (get_bp n) (\<lambda>b.
        if \<not> is_enabled_phy b then ret SYLVANC_OK
        else bnd (sys (os_peek os (inf_pid i) (bp_addr b))) (\<lambda>r.
          let data = (case r of Inl _ \<Rightarrow> -1 | Inr v \<Rightarrow> v) in
          if data = -1
          then sylvan_set_errno_msg os SYLVANC_PTRACE_PEEKTEXT_FAILED ''ptrace peek text'' []
          else let data' = (data AND NOT 0xFF) OR ucast (og_byte b) in
            bnd (sys (os_poke os (inf_pid i) (bp_addr b) data')) (\<lambda>r'.
              case r' of
                Inl _ \<Rightarrow> sylvan_set_errno_msg os SYLVANC_PTRACE_POKETEXT_FAILED ''ptrace poke text'' []
              | Inr _ \<Rightarrow> bnd (upd_bp n (\<lambda>b. b\<lparr>is_enabled_phy := False\<rparr>))
                  (\<lambda>_. ret SYLVANC_OK)))))))"

definition sylvan_breakpoint_enable_ptr :: "'w os \<Rightarrow> nat \<Rightarrow> ('w, 'm, sylvan_code) lib" where
  "sylvan_breakpoint_enable_ptr os n = assert_inf (
     bnd (upd_bp n (\<lambda>b. b\<lparr>is_enabled_log := True\<rparr>)) (\<lambda>_.
     bnd get_inf (\<lambda>i.
       if isactive i then sylvan_breakpoint_create_phybp os n else ret SYLVANC_OK)))"

definition sylvan_breakpoint_disable_ptr :: "'w os \<Rightarrow> nat \<Rightarrow> ('w, 'm, sylvan_code) lib" where
  "sylvan_breakpoint_disable_ptr os n = assert_inf (
     bnd (upd_bp n (\<lambda>b. b\<lparr>is_enabled_log := False\<rparr>)) (\<lambda>_.
     bnd get_inf (\<lambda>i.
       if isactive i then sylvan_breakpoint_remove_phybp os n else ret SYLVANC_OK)))"

definition sylvan_breakpoint_enable :: "'w os \<Rightarrow> addr \<Rightarrow> ('w, 'm, sylvan_code) lib" where
  "sylvan_breakpoint_enable os addr = check_inf (
     bnd (sylvan_breakpoint_find_by_addr addr) (\<lambda>(code, p).
       case p of
         None \<Rightarrow> sylvan_set_code SYVLANC_BREAKPOINT_NOT_FOUND
       | Some n \<Rightarrow> sylvan_breakpoint_enable_ptr os n))"

definition sylvan_breakpoint_disable :: "'w os \<Rightarrow> addr \<Rightarrow> ('w, 'm, sylvan_code) lib" where
  "sylvan_breakpoint_disable os addr = check_inf (
     bnd (sylvan_breakpoint_find_by_addr addr) (\<lambda>(code, p).
       case p of
         None \<Rightarrow> sylvan_set_code SYVLANC_BREAKPOINT_NOT_FOUND
       | Some n \<Rightarrow> sylvan_breakpoint_disable_ptr os n))"

definition sylvan_breakpoint_set :: "'w os \<Rightarrow> addr \<Rightarrow> ('w, 'm, sylvan_code) lib" where
  "sylvan_breakpoint_set os addr = check_inf (bnd get_inf (\<lambda>i.
     if inf_breakpoint_count i = MAX_BREAKPOINTS
     then sylvan_set_code SYVLANC_BREAKPOINT_LIMIT_REACHED
     else bnd (sylvan_breakpoint_find_by_addr addr) (\<lambda>(code, p).
       if code \<noteq> SYVLANC_BREAKPOINT_NOT_FOUND
       then sylvan_set_code SYVLANC_BREAKPOINT_ALREADY_EXISTS
       else let n = inf_breakpoint_count i in
         bnd (upd_inf (inf_breakpoint_count_update Suc)) (\<lambda>_.
         bnd (upd_bp n (\<lambda>b. b\<lparr>bp_addr := addr, is_enabled_log := True\<rparr>)) (\<lambda>_.
         if \<not> isactive i then ret SYLVANC_OK
         else sylvan_breakpoint_enable_ptr os n)))))"

definition sylvan_breakpoint_unset :: "'w os \<Rightarrow> addr \<Rightarrow> ('w, 'm, sylvan_code) lib" where
  "sylvan_breakpoint_unset os addr = check_inf (
     bnd (sylvan_breakpoint_find_by_addr addr) (\<lambda>(code, p).
       case p of
         None \<Rightarrow> sylvan_set_code SYVLANC_BREAKPOINT_NOT_FOUND
       | Some n \<Rightarrow>
           on_ok (sylvan_breakpoint_disable_ptr os n) (
             bnd (upd_inf (inf_breakpoint_count_update (\<lambda>c. c - 1))) (\<lambda>_.
             bnd get_inf (\<lambda>i.
               if inf_breakpoint_count i \<noteq> 0
               then bnd (get_bp (inf_breakpoint_count i)) (\<lambda>l.
                    bnd (upd_bp n (\<lambda>_. l)) (\<lambda>_. ret SYLVANC_OK))
               else ret SYLVANC_OK)))))"

text \<open>\<open>while (inf->breakpoint_count) ...\<close>, by the value of the count.\<close>

primrec clear_from :: "'w os \<Rightarrow> nat \<Rightarrow> ('w, 'm, sylvan_code) lib" where
  "clear_from os 0 = ret SYLVANC_OK"
| "clear_from os (Suc n) =
     on_ok (sylvan_breakpoint_remove_phybp os n)
       (bnd (upd_inf (inf_breakpoint_count_update (\<lambda>c. c - 1))) (\<lambda>_. clear_from os n))"

definition sylvan_breakpoint_clearall :: "'w os \<Rightarrow> ('w, 'm, sylvan_code) lib" where
  "sylvan_breakpoint_clearall os = check_inf (bnd get_inf (\<lambda>i.
     if \<not> isactive i then bnd (upd_inf (inf_breakpoint_count_update (\<lambda>_. 0))) (\<lambda>_. ret SYLVANC_OK)
     else clear_from os (inf_breakpoint_count i)))"

text \<open>\<open>for (int i = 0; i < breakpoint_count; ++i) ...\<close>, from slot \<open>i\<close> on.\<close>

function for_slots :: "(nat \<Rightarrow> ('w, 'm, sylvan_code) lib) \<Rightarrow> nat \<Rightarrow> nat \<Rightarrow> ('w, 'm, sylvan_code) lib" where
  "for_slots body count i =
     (if i < count then on_ok (body i) (for_slots body count (Suc i)) else ret SYLVANC_OK)"
  by pat_completeness auto
termination
  by (relation "measure (\<lambda>(body, count, i). count - i)") auto

declare for_slots.simps [simp del]

definition sylvan_breakpoint_reset_phybp :: "('w, 'm, sylvan_code) lib" where
  "sylvan_breakpoint_reset_phybp = check_inf (bnd get_inf (\<lambda>i.
     for_slots (\<lambda>n. bnd (upd_bp n (\<lambda>b. b\<lparr>is_enabled_phy := False\<rparr>)) (\<lambda>_. ret SYLVANC_OK))
       (inf_breakpoint_count i) 0))"

definition sylvan_breakpoint_setall_phybp :: "'w os \<Rightarrow> ('w, 'm, sylvan_code) lib" where
  "sylvan_breakpoint_setall_phybp os = assert_inf (bnd get_inf (\<lambda>i. c_assert (isactive i)
     (for_slots (sylvan_breakpoint_create_phybp os) (inf_breakpoint_count i) 0)))"

definition sylvan_breakpoint_unsetall_phybp :: "'w os \<Rightarrow> ('w, 'm, sylvan_code) lib" where
  "sylvan_breakpoint_unsetall_phybp os = assert_inf (bnd get_inf (\<lambda>i. c_assert (isactive i)
     (for_slots (sylvan_breakpoint_remove_phybp os) (inf_breakpoint_count i) 0)))"

end
