(* ===== verification/Breakpoint_Lemmas.thy ===== *)
theory Breakpoint_Lemmas
  imports Breakpoints
begin

text \<open>
  The invariant of the breakpoint table, the maps it stands for (which address is
  set and enabled, which original bytes are saved), and the specification of
  every operation of \<open>breakpoint.c\<close> as a \<open>wp\<close> fact.
\<close>

section \<open>The table\<close>

abbreviation bp_at :: "inferior \<Rightarrow> nat \<Rightarrow> breakpoint" where
  "bp_at i n \<equiv> inf_breakpoints i ! n"

definition bps_ok :: "inferior \<Rightarrow> bool" where
  "bps_ok i \<longleftrightarrow>
     length (inf_breakpoints i) = MAX_BREAKPOINTS \<and> inf_breakpoint_count i \<le> MAX_BREAKPOINTS \<and>
     distinct (map bp_addr (take (inf_breakpoint_count i) (inf_breakpoints i)))"

definition bp_index :: "inferior \<Rightarrow> addr \<Rightarrow> nat option" where
  "bp_index i a = find (\<lambda>n. bp_addr (bp_at i n) = a) [0..<inf_breakpoint_count i]"

text \<open>The addresses set, with whether the breakpoint is logically enabled.\<close>

definition bp_map :: "inferior \<Rightarrow> addr \<rightharpoonup> bool" where
  "bp_map i a = map_option (\<lambda>n. is_enabled_log (bp_at i n)) (bp_index i a)"

text \<open>The original bytes saved for the physical breakpoints.\<close>

definition saved :: "inferior \<Rightarrow> addr \<rightharpoonup> byte" where
  "saved i a = (case bp_index i a of
     None \<Rightarrow> None
   | Some n \<Rightarrow> if is_enabled_phy (bp_at i n) then Some (og_byte (bp_at i n)) else None)"

text \<open>The memory as the program would see it without breakpoints.\<close>

definition orig_view :: "inferior \<Rightarrow> memory \<Rightarrow> memory" where
  "orig_view i m = (\<lambda>a. case saved i a of Some b \<Rightarrow> b | None \<Rightarrow> m a)"

text \<open>Every physical breakpoint is a trap instruction in memory.\<close>

definition patched :: "inferior \<Rightarrow> memory \<Rightarrow> bool" where
  "patched i m \<longleftrightarrow> (\<forall>a. saved i a \<noteq> None \<longrightarrow> m a = 0xCC)"

lemma bps_ok_lengthD: "bps_ok i \<Longrightarrow> length (inf_breakpoints i) = MAX_BREAKPOINTS"
  by (simp add: bps_ok_def)

lemma bps_ok_countD: "bps_ok i \<Longrightarrow> inf_breakpoint_count i \<le> MAX_BREAKPOINTS"
  by (simp add: bps_ok_def)

lemma bps_ok_inj:
  assumes "bps_ok i" "n < inf_breakpoint_count i" "m < inf_breakpoint_count i"
    "bp_addr (bp_at i n) = bp_addr (bp_at i m)"
  shows "n = m"
proof -
  have "inf_breakpoint_count i \<le> length (inf_breakpoints i)"
    using assms(1) by (simp add: bps_ok_def)
  with assms show ?thesis
    by (auto simp: bps_ok_def distinct_conv_nth)
qed

lemma bp_index_SomeD:
  "bp_index i a = Some n \<Longrightarrow> n < inf_breakpoint_count i \<and> bp_addr (bp_at i n) = a"
  by (auto simp: bp_index_def find_Some_iff)

lemma bp_index_None_iff:
  "bp_index i a = None \<longleftrightarrow> (\<forall>n < inf_breakpoint_count i. bp_addr (bp_at i n) \<noteq> a)"
  by (auto simp: bp_index_def find_None_iff)

lemma bp_index_of_slot:
  assumes "bps_ok i" "n < inf_breakpoint_count i"
  shows "bp_index i (bp_addr (bp_at i n)) = Some n"
proof (cases "bp_index i (bp_addr (bp_at i n))")
  case None
  with assms show ?thesis by (auto simp: bp_index_None_iff)
next
  case (Some m)
  with assms show ?thesis by (auto dest!: bp_index_SomeD dest: bps_ok_inj)
qed

lemma bps_okI:
  assumes "length (inf_breakpoints i) = MAX_BREAKPOINTS" "inf_breakpoint_count i \<le> MAX_BREAKPOINTS"
    and "\<And>n m. n < inf_breakpoint_count i \<Longrightarrow> m < inf_breakpoint_count i \<Longrightarrow>
      bp_addr (bp_at i n) = bp_addr (bp_at i m) \<Longrightarrow> n = m"
  shows "bps_ok i"
  using assms by (auto simp: bps_ok_def distinct_conv_nth)

lemma bps_ok_slot_lt: "bps_ok i \<Longrightarrow> n < inf_breakpoint_count i \<Longrightarrow> n < length (inf_breakpoints i)"
  by (simp add: bps_ok_def)

text \<open>Rewriting a slot in use without changing its address.\<close>

definition set_slot :: "nat \<Rightarrow> breakpoint \<Rightarrow> inferior \<Rightarrow> inferior" where
  "set_slot n b i = i\<lparr>inf_breakpoints := (inf_breakpoints i)[n := b]\<rparr>"

lemma set_slot_simps [simp]:
  "inf_breakpoint_count (set_slot n b i) = inf_breakpoint_count i"
  "inf_pid (set_slot n b i) = inf_pid i"
  "inf_status (set_slot n b i) = inf_status i"
  "isactive (set_slot n b i) = isactive i"
  "inf_id (set_slot n b i) = inf_id i"
  "inf_is_attached (set_slot n b i) = inf_is_attached i"
  "inf_realpath (set_slot n b i) = inf_realpath i"
  "inf_args (set_slot n b i) = inf_args i"
  "inf_elf_table (set_slot n b i) = inf_elf_table i"
  "inf_dwarf_table (set_slot n b i) = inf_dwarf_table i"
  by (simp_all add: set_slot_def isactive_def)

lemma bp_at_set_slot:
  "n < length (inf_breakpoints i) \<Longrightarrow> bp_at (set_slot n b i) m = (if m = n then b else bp_at i m)"
  by (simp add: set_slot_def)

lemma bp_index_set_slot:
  assumes "n < length (inf_breakpoints i)" "bp_addr b = bp_addr (bp_at i n)"
  shows "bp_index (set_slot n b i) a = bp_index i a"
proof -
  have "(\<lambda>m. bp_addr (bp_at (set_slot n b i) m) = a) = (\<lambda>m. bp_addr (bp_at i m) = a)"
    using assms by (auto simp: bp_at_set_slot fun_eq_iff)
  then show ?thesis by (simp add: bp_index_def)
qed

lemma bps_ok_set_slot:
  assumes "bps_ok i" "n < inf_breakpoint_count i" "bp_addr b = bp_addr (bp_at i n)"
  shows "bps_ok (set_slot n b i)"
  using assms bps_ok_slot_lt [OF assms(1,2)]
  by (intro bps_okI) (auto simp: bp_at_set_slot bps_ok_lengthD bps_ok_countD dest: bps_ok_inj split: if_splits,
      auto simp: set_slot_def bps_ok_def)

lemma saved_set_slot:
  assumes "bps_ok i" "n < inf_breakpoint_count i" "bp_addr b = bp_addr (bp_at i n)"
  shows "saved (set_slot n b i) =
    (saved i)(bp_addr b := (if is_enabled_phy b then Some (og_byte b) else None))"
proof
  fix a
  have len: "n < length (inf_breakpoints i)" using assms by (simp add: bps_ok_slot_lt)
  have "m = n" if "bp_index i a = Some m" "a = bp_addr b" for m
    using that assms bp_index_of_slot [OF assms(1,2)] by simp
  moreover have "m \<noteq> n" if "bp_index i a = Some m" "a \<noteq> bp_addr b" for m
    using that assms(3) by (auto dest: bp_index_SomeD)
  moreover have "bp_index i a = Some n" if "a = bp_addr b"
    using that assms bp_index_of_slot [OF assms(1,2)] by simp
  ultimately show "saved (set_slot n b i) a =
      ((saved i)(bp_addr b := (if is_enabled_phy b then Some (og_byte b) else None))) a"
    using len assms(3)
    by (auto simp: saved_def bp_index_set_slot bp_at_set_slot split: option.splits)
qed

lemma bp_map_set_slot:
  assumes "bps_ok i" "n < inf_breakpoint_count i" "bp_addr b = bp_addr (bp_at i n)"
  shows "bp_map (set_slot n b i) = (bp_map i)(bp_addr b \<mapsto> is_enabled_log b)"
proof
  fix a
  have len: "n < length (inf_breakpoints i)" using assms by (simp add: bps_ok_slot_lt)
  show "bp_map (set_slot n b i) a = ((bp_map i)(bp_addr b \<mapsto> is_enabled_log b)) a"
  proof (cases "a = bp_addr b")
    case True
    with assms bp_index_of_slot [OF assms(1,2)] len show ?thesis
      by (simp add: bp_map_def bp_index_set_slot bp_at_set_slot)
  next
    case False
    then have "m \<noteq> n" if "bp_index i a = Some m" for m
      using that assms(3) by (auto dest: bp_index_SomeD)
    with False len assms(3) show ?thesis
      by (cases "bp_index i a") (auto simp: bp_map_def bp_index_set_slot bp_at_set_slot)
  qed
qed

lemma saved_slot: "bps_ok i \<Longrightarrow> n < inf_breakpoint_count i \<Longrightarrow>
  saved i (bp_addr (bp_at i n)) = (if is_enabled_phy (bp_at i n) then Some (og_byte (bp_at i n)) else None)"
  by (simp add: saved_def bp_index_of_slot)


section \<open>Finding\<close>

lemma wp_find_from:
  assumes "infp s = InfLive i" "count \<le> length (inf_breakpoints i)"
  shows "wp (find_from count a n) Q s = Q (find (\<lambda>n. bp_addr (bp_at i n) = a) [n..<count]) s"
  using assms
proof (induction count a n rule: find_from.induct)
  case (1 count a n)
  have "n < length (inf_breakpoints i)" if "n < count" using that "1.prems" by linarith
  then show ?case
    using "1" by (subst find_from.simps) (auto simp: wp_simps upt_conv_Cons)
qed

lemma wp_find [wp_simps]:
  "infp s = InfLive i \<Longrightarrow> bps_ok i \<Longrightarrow>
     wp (sylvan_breakpoint_find_by_addr a) Q s =
       Q (case bp_index i a of Some n \<Rightarrow> (SYLVANC_OK, Some n) | None \<Rightarrow> (SYVLANC_BREAKPOINT_NOT_FOUND, None)) s"
  by (simp add: sylvan_breakpoint_find_by_addr_def wp_simps wp_find_from bps_ok_lengthD bps_ok_countD
      bp_index_def split: option.splits)



section \<open>Physical breakpoints\<close>

text \<open>What no operation of this component touches.\<close>

definition lib_frame :: "('w, 'm) dbg_scheme \<Rightarrow> ('w, 'm) dbg_scheme \<Rightarrow> bool" where
  "lib_frame s s' \<longleftrightarrow> sylvan_inferior_idx s' = sylvan_inferior_idx s \<and>
     sylvan_inferior_count s' = sylvan_inferior_count s \<and> dbg.more s' = dbg.more s"

lemma lib_frame_refl [simp]: "lib_frame s s"
  by (simp add: lib_frame_def)

lemma lib_frame_trans: "lib_frame s t \<Longrightarrow> lib_frame t u \<Longrightarrow> lib_frame s u"
  by (simp add: lib_frame_def)

lemma lib_frame_updates [simp]:
  "lib_frame s (s'\<lparr>infp := p\<rparr>) = lib_frame s s'"
  "lib_frame s (s'\<lparr>sylvan_last_error := e\<rparr>) = lib_frame s s'"
  "lib_frame s (s'\<lparr>errno := n\<rparr>) = lib_frame s s'"
  "lib_frame s (s'\<lparr>world := w\<rparr>) = lib_frame s s'"
  "lib_frame (s\<lparr>infp := p\<rparr>) s' = lib_frame s s'"
  "lib_frame (s\<lparr>sylvan_last_error := e\<rparr>) s' = lib_frame s s'"
  "lib_frame (s\<lparr>errno := n\<rparr>) s' = lib_frame s s'"
  "lib_frame (s\<lparr>world := w\<rparr>) s' = lib_frame s s'"
  by (simp_all add: lib_frame_def)

lemmas poke_low_byte_simp = poke_low_byte [simplified]

lemma low_byte_mask: "ucast (v AND 0xFF :: 64 word) = (ucast v :: byte)"
proof -
  have mask: "(0xFF :: 64 word) = mask 8" by (simp add: mask_eq_exp_minus_1)
  show ?thesis by (rule bit_word_eqI) (auto simp: mask bit_simps)
qed


lemmas poke_trap = poke_low_byte [of _ _ "0xCC", simplified]

lemma create_phybp_spec:
  assumes mem: "tracee_memory os mem"
    and st: "infp s = InfLive i" "bps_ok i" "isactive i" "n < inf_breakpoint_count i"
  shows "wp (sylvan_breakpoint_create_phybp os n) (\<lambda>c s'. \<exists>b.
    let m = mem (inf_pid i) (world s); m' = mem (inf_pid i) (world s'); a = bp_addr (bp_at i n) in
    lib_frame s s' \<and> infp s' = InfLive (set_slot n b i) \<and>
    (c = SYLVANC_OK \<and> is_enabled_phy (bp_at i n) \<and> b = bp_at i n \<and> m' = m \<or>
     c = SYLVANC_OK \<and> \<not> is_enabled_phy (bp_at i n) \<and>
       b = (bp_at i n)\<lparr>og_byte := m a, is_enabled_phy := True\<rparr> \<and> m' = m(a := 0xCC) \<or>
     c = SYLVANC_PTRACE_PEEKTEXT_FAILED \<and> \<not> is_enabled_phy (bp_at i n) \<and> b = bp_at i n \<and> m' = m)) s"
  using st bps_ok_slot_lt [OF st(2,4)]
  by (auto simp: sylvan_breakpoint_create_phybp_def wp_simps Let_def cformat_plain set_slot_def
      low_byte_mask split: prod.splits sum.splits)
    (drule tracee_peek [OF mem], ((drule tracee_poke_ok [OF mem] | drule tracee_poke_fail [OF mem])?),
      simp add: read_word_low poke_trap)+

lemma remove_phybp_spec:
  assumes mem: "tracee_memory os mem"
    and st: "infp s = InfLive i" "bps_ok i" "isactive i" "n < inf_breakpoint_count i"
  shows "wp (sylvan_breakpoint_remove_phybp os n) (\<lambda>c s'. \<exists>b.
    let m = mem (inf_pid i) (world s); m' = mem (inf_pid i) (world s'); a = bp_addr (bp_at i n) in
    lib_frame s s' \<and> infp s' = InfLive (set_slot n b i) \<and>
    (c = SYLVANC_OK \<and> \<not> is_enabled_phy (bp_at i n) \<and> b = bp_at i n \<and> m' = m \<or>
     c = SYLVANC_OK \<and> is_enabled_phy (bp_at i n) \<and>
       b = (bp_at i n)\<lparr>is_enabled_phy := False\<rparr> \<and> m' = m(a := og_byte (bp_at i n)) \<or>
     c \<in> {SYLVANC_PTRACE_PEEKTEXT_FAILED, SYLVANC_PTRACE_POKETEXT_FAILED} \<and>
       is_enabled_phy (bp_at i n) \<and> b = bp_at i n \<and> m' = m)) s"
  using st bps_ok_slot_lt [OF st(2,4)]
  by (auto simp: sylvan_breakpoint_remove_phybp_def wp_simps Let_def cformat_plain set_slot_def
      split: prod.splits sum.splits)
    (drule tracee_peek [OF mem], ((drule tracee_poke_ok [OF mem] | drule tracee_poke_fail [OF mem])?),
      simp add: poke_low_byte_simp)+



section \<open>The memory behind the breakpoints\<close>

text \<open>
  \<open>bp_inv mem orig p st s\<close>: the inferior of \<open>s\<close> is process \<open>p\<close> in state \<open>st\<close>, its
  table is well formed, its physical breakpoints are in the memory, and the memory
  behind them is \<open>orig\<close>. Every operation of the component keeps it.
\<close>

definition bp_inv ::
  "(pid \<Rightarrow> 'w \<Rightarrow> memory) \<Rightarrow> memory \<Rightarrow> pid \<Rightarrow> inferior_state \<Rightarrow> ('w, 'm) dbg_scheme \<Rightarrow> bool" where
  "bp_inv mem orig p st s \<longleftrightarrow>
     (\<exists>i. infp s = InfLive i \<and> bps_ok i \<and> inf_pid i = p \<and> inf_status i = st \<and>
        patched i (mem p (world s)) \<and> orig_view i (mem p (world s)) = orig)"

lemma orig_view_trap:
  assumes "bps_ok i" "n < inf_breakpoint_count i" "\<not> is_enabled_phy (bp_at i n)"
    and a: "a = bp_addr (bp_at i n)"
    and b: "b = (bp_at i n)\<lparr>og_byte := m a, is_enabled_phy := True\<rparr>"
  shows "orig_view (set_slot n b i) (m(a := 0xCC)) = orig_view i m"
    and "patched i m \<Longrightarrow> patched (set_slot n b i) (m(a := 0xCC))"
proof -
  have saved: "saved (set_slot n b i) = (saved i)(a \<mapsto> m a)" "saved i a = None"
    using assms by (simp_all add: saved_set_slot saved_slot)
  show "orig_view (set_slot n b i) (m(a := 0xCC)) = orig_view i m"
    by (auto simp: orig_view_def saved fun_eq_iff split: option.splits)
  show "patched (set_slot n b i) (m(a := 0xCC))" if "patched i m"
    using that by (auto simp: patched_def saved)
qed

lemma orig_view_restore:
  assumes "bps_ok i" "n < inf_breakpoint_count i" "is_enabled_phy (bp_at i n)"
    and a: "a = bp_addr (bp_at i n)" and b: "b = (bp_at i n)\<lparr>is_enabled_phy := False\<rparr>"
  shows "orig_view (set_slot n b i) (m(a := og_byte (bp_at i n))) = orig_view i m"
    and "patched i m \<Longrightarrow> patched (set_slot n b i) (m(a := og_byte (bp_at i n)))"
proof -
  have saved: "saved (set_slot n b i) = (saved i)(a := None)" "saved i a = Some (og_byte (bp_at i n))"
    using assms by (simp_all add: saved_set_slot saved_slot)
  show "orig_view (set_slot n b i) (m(a := og_byte (bp_at i n))) = orig_view i m"
    by (auto simp: orig_view_def saved fun_eq_iff split: option.splits)
  show "patched (set_slot n b i) (m(a := og_byte (bp_at i n)))" if "patched i m"
    using that by (auto simp: patched_def saved)
qed

end
