(* ===== verification/Breakpoint_Specs.thy ===== *)
theory Breakpoint_Specs
  imports Breakpoint_Lemmas
begin

text \<open>
  Specifications of the single breakpoint operations of \<open>breakpoint.c\<close>: what
  setting, unsetting, enabling and disabling do to the array of slots, to the map
  from addresses to enabled marks and to the memory of the process.
\<close>

section \<open>Adding and dropping a slot\<close>

definition add_slot :: "addr \<Rightarrow> inferior \<Rightarrow> inferior" where
  "add_slot a i = i\<lparr>inf_breakpoint_count := Suc (inf_breakpoint_count i),
     inf_breakpoints := (inf_breakpoints i)[inf_breakpoint_count i :=
       (bp_at i (inf_breakpoint_count i))\<lparr>bp_addr := a, is_enabled_log := True\<rparr>]\<rparr>"

definition drop_slot :: "nat \<Rightarrow> inferior \<Rightarrow> inferior" where
  "drop_slot n i = (let c = inf_breakpoint_count i - 1 in
     i\<lparr>inf_breakpoint_count := c,
       inf_breakpoints := (if c = 0 then inf_breakpoints i else (inf_breakpoints i)[n := bp_at i c])\<rparr>)"

lemma bp_index_Some_iff:
  "bps_ok i \<Longrightarrow> bp_index i a = Some n \<longleftrightarrow> n < inf_breakpoint_count i \<and> bp_addr (bp_at i n) = a"
  by (auto dest: bp_index_SomeD simp: bp_index_of_slot)

text \<open>Both maps are read off the slots in use.\<close>

definition slot_map :: "(breakpoint \<Rightarrow> 'a option) \<Rightarrow> inferior \<Rightarrow> addr \<rightharpoonup> 'a" where
  "slot_map f i a = (case bp_index i a of None \<Rightarrow> None | Some n \<Rightarrow> f (bp_at i n))"

lemma bp_map_slot_map: "bp_map i = slot_map (\<lambda>b. Some (is_enabled_log b)) i"
  by (auto simp: bp_map_def slot_map_def fun_eq_iff split: option.splits)

lemma saved_slot_map: "saved i = slot_map (\<lambda>b. if is_enabled_phy b then Some (og_byte b) else None) i"
  by (auto simp: saved_def slot_map_def fun_eq_iff split: option.splits)

lemma slot_map_eqI:
  assumes "bps_ok i" "\<And>n. n < inf_breakpoint_count i \<Longrightarrow> g (bp_addr (bp_at i n)) = f (bp_at i n)"
    and "\<And>a. (\<forall>n < inf_breakpoint_count i. bp_addr (bp_at i n) \<noteq> a) \<Longrightarrow> g a = None"
  shows "slot_map f i = g"
proof
  fix a
  show "slot_map f i a = g a"
  proof (cases "bp_index i a")
    case None
    then have "g a = None" by (intro assms(3)) (simp add: bp_index_None_iff)
    with None show ?thesis by (simp add: slot_map_def)
  next
    case (Some n)
    with assms(2) show ?thesis by (auto simp: slot_map_def dest!: bp_index_SomeD)
  qed
qed

lemma slot_map_slot: "bps_ok i \<Longrightarrow> n < inf_breakpoint_count i \<Longrightarrow> slot_map f i (bp_addr (bp_at i n)) = f (bp_at i n)"
  by (simp add: slot_map_def bp_index_of_slot)

lemma slot_map_None: "(\<forall>n < inf_breakpoint_count i. bp_addr (bp_at i n) \<noteq> a) \<Longrightarrow> slot_map f i a = None"
  by (simp add: slot_map_def flip: bp_index_None_iff)

lemma add_slot_at:
  assumes "bps_ok i" "inf_breakpoint_count i < MAX_BREAKPOINTS" "n \<le> inf_breakpoint_count i"
  shows "bp_at (add_slot a i) n =
    (if n = inf_breakpoint_count i then (bp_at i n)\<lparr>bp_addr := a, is_enabled_log := True\<rparr> else bp_at i n)"
  using assms by (auto simp: add_slot_def bps_ok_def)

lemma bps_ok_add_slot:
  assumes "bps_ok i" "inf_breakpoint_count i < MAX_BREAKPOINTS" "bp_index i a = None"
  shows "bps_ok (add_slot a i)"
proof (rule bps_okI)
  show "length (inf_breakpoints (add_slot a i)) = MAX_BREAKPOINTS"
    "inf_breakpoint_count (add_slot a i) \<le> MAX_BREAKPOINTS"
    using assms by (auto simp: add_slot_def bps_ok_def)
next
  fix n m
  assume nm: "n < inf_breakpoint_count (add_slot a i)" "m < inf_breakpoint_count (add_slot a i)"
    "bp_addr (bp_at (add_slot a i) n) = bp_addr (bp_at (add_slot a i) m)"
  then have "n \<le> inf_breakpoint_count i" "m \<le> inf_breakpoint_count i" by (auto simp: add_slot_def)
  with nm(3) assms show "n = m"
    by (auto simp: add_slot_at bp_index_None_iff le_less dest: bps_ok_inj split: if_splits)
qed

lemma slot_map_add_slot:
  assumes "bps_ok i" "inf_breakpoint_count i < MAX_BREAKPOINTS" "bp_index i a = None"
  shows "slot_map f (add_slot a i) =
    (slot_map f i)(a := f ((bp_at i (inf_breakpoint_count i))\<lparr>bp_addr := a, is_enabled_log := True\<rparr>))"
proof (rule slot_map_eqI [OF bps_ok_add_slot [OF assms]])
  fix n assume "n < inf_breakpoint_count (add_slot a i)"
  then have n: "n < inf_breakpoint_count i \<or> n = inf_breakpoint_count i" by (auto simp: add_slot_def)
  with assms show "((slot_map f i)(a := f ((bp_at i (inf_breakpoint_count i))\<lparr>bp_addr := a, is_enabled_log := True\<rparr>)))
      (bp_addr (bp_at (add_slot a i) n)) = f (bp_at (add_slot a i) n)"
    by (auto simp: add_slot_at slot_map_slot bp_index_None_iff)
next
  fix x assume h: "\<forall>n < inf_breakpoint_count (add_slot a i). bp_addr (bp_at (add_slot a i) n) \<noteq> x"
  have "bp_addr (bp_at i n) \<noteq> x" if "n < inf_breakpoint_count i" for n
    using h [rule_format, of n] that assms by (auto simp: add_slot_at) (simp add: add_slot_def)
  moreover have "x \<noteq> a"
    using h [rule_format, of "inf_breakpoint_count i"] assms by (auto simp: add_slot_at) (simp add: add_slot_def)
  ultimately show "((slot_map f i)(a := f ((bp_at i (inf_breakpoint_count i))\<lparr>bp_addr := a, is_enabled_log := True\<rparr>))) x = None"
    by (simp add: slot_map_None)
qed

lemma drop_slot_count: "inf_breakpoint_count (drop_slot n i) = inf_breakpoint_count i - 1"
  by (simp add: drop_slot_def Let_def)

lemma drop_slot_at:
  assumes "bps_ok i" "n < inf_breakpoint_count i" "m < inf_breakpoint_count i - 1"
  shows "bp_at (drop_slot n i) m = bp_at i (if m = n then inf_breakpoint_count i - 1 else m)"
  using assms bps_ok_slot_lt [OF assms(1,2)] by (auto simp: drop_slot_def Let_def)

lemma bps_ok_drop_slot:
  assumes "bps_ok i" "n < inf_breakpoint_count i"
  shows "bps_ok (drop_slot n i)"
proof (rule bps_okI)
  show "length (inf_breakpoints (drop_slot n i)) = MAX_BREAKPOINTS"
    "inf_breakpoint_count (drop_slot n i) \<le> MAX_BREAKPOINTS"
    using assms by (auto simp: drop_slot_def bps_ok_def Let_def)
next
  let ?src = "\<lambda>m. if m = n then inf_breakpoint_count i - 1 else m"
  fix k m
  assume km: "k < inf_breakpoint_count (drop_slot n i)" "m < inf_breakpoint_count (drop_slot n i)"
    "bp_addr (bp_at (drop_slot n i) k) = bp_addr (bp_at (drop_slot n i) m)"
  then have lt: "k < inf_breakpoint_count i - 1" "m < inf_breakpoint_count i - 1" by (simp_all add: drop_slot_count)
  then have "?src k < inf_breakpoint_count i" "?src m < inf_breakpoint_count i" by auto
  with km(3) lt assms have "?src k = ?src m"
    by (intro bps_ok_inj [OF assms(1)]) (simp_all add: drop_slot_at)
  with lt show "k = m" by (auto split: if_splits)
qed

lemma slot_map_drop_slot:
  assumes "bps_ok i" "n < inf_breakpoint_count i"
  shows "slot_map f (drop_slot n i) = (slot_map f i)(bp_addr (bp_at i n) := None)"
proof (rule slot_map_eqI [OF bps_ok_drop_slot [OF assms]])
  fix m assume "m < inf_breakpoint_count (drop_slot n i)"
  then have m: "m < inf_breakpoint_count i - 1" by (simp add: drop_slot_count)
  define k where "k = (if m = n then inf_breakpoint_count i - 1 else m)"
  have k: "k < inf_breakpoint_count i" "k \<noteq> n" using m by (auto simp: k_def)
  then have "bp_addr (bp_at i k) \<noteq> bp_addr (bp_at i n)" using assms by (auto dest: bps_ok_inj)
  with k(1) assms(1) show "((slot_map f i)(bp_addr (bp_at i n) := None)) (bp_addr (bp_at (drop_slot n i) m)) =
      f (bp_at (drop_slot n i) m)"
    by (simp add: drop_slot_at [OF assms m] slot_map_slot flip: k_def)
next
  fix x assume h: "\<forall>m < inf_breakpoint_count (drop_slot n i). bp_addr (bp_at (drop_slot n i) m) \<noteq> x"
  show "((slot_map f i)(bp_addr (bp_at i n) := None)) x = None"
  proof (cases "x = bp_addr (bp_at i n)")
    case False
    have "bp_addr (bp_at i k) \<noteq> x" if k: "k < inf_breakpoint_count i" for k
    proof (cases "k = n")
      case True
      with False show ?thesis by simp
    next
      case kn: False
      define m where "m = (if k = inf_breakpoint_count i - 1 then n else k)"
      have m: "m < inf_breakpoint_count i - 1" using k kn assms(2) by (auto simp: m_def)
      have "(if m = n then inf_breakpoint_count i - 1 else m) = k" using kn by (auto simp: m_def)
      with h [rule_format, of m] m show ?thesis by (simp add: drop_slot_count drop_slot_at [OF assms m])
    qed
    with False show ?thesis by (simp add: slot_map_None)
  qed simp
qed



section \<open>Specifications of the operations\<close>

text \<open>Nothing of the inferior but its breakpoints changes.\<close>

definition bp_only :: "inferior \<Rightarrow> inferior \<Rightarrow> bool" where
  "bp_only i i' \<longleftrightarrow>
     i' = i\<lparr>inf_breakpoints := inf_breakpoints i', inf_breakpoint_count := inf_breakpoint_count i'\<rparr>"

lemma bp_onlyD:
  assumes "bp_only i i'"
  shows "inf_pid i' = inf_pid i" "inf_status i' = inf_status i" "isactive i' = isactive i"
    "inf_id i' = inf_id i" "inf_is_attached i' = inf_is_attached i" "inf_realpath i' = inf_realpath i"
    "inf_args i' = inf_args i" "inf_elf_table i' = inf_elf_table i" "inf_dwarf_table i' = inf_dwarf_table i"
proof -
  obtain bs c where "i' = i\<lparr>inf_breakpoints := bs, inf_breakpoint_count := c\<rparr>"
    using assms unfolding bp_only_def by blast
  then show "inf_pid i' = inf_pid i" "inf_status i' = inf_status i" "isactive i' = isactive i"
    "inf_id i' = inf_id i" "inf_is_attached i' = inf_is_attached i" "inf_realpath i' = inf_realpath i"
    "inf_args i' = inf_args i" "inf_elf_table i' = inf_elf_table i" "inf_dwarf_table i' = inf_dwarf_table i"
    by (simp_all add: isactive_def)
qed

lemma bp_only_simps [simp]:
  "bp_only i i"
  "bp_only i (set_slot n b i') = bp_only i i'"
  "bp_only i (add_slot a i') = bp_only i i'"
  "bp_only i (drop_slot n i') = bp_only i i'"
  by (cases i; cases i'; simp add: bp_only_def set_slot_def add_slot_def drop_slot_def Let_def)+

lemma bp_only_trans: "bp_only i j \<Longrightarrow> bp_only j k \<Longrightarrow> bp_only i k"
  by (cases i; cases j; cases k) (simp add: bp_only_def)

lemma set_slot_set_slot [simp]: "set_slot n b (set_slot n b' i) = set_slot n b i"
  by (simp add: set_slot_def)

lemma set_slot_same: "n < length (inf_breakpoints i) \<Longrightarrow> set_slot n (bp_at i n) i = i"
  by (simp add: set_slot_def)

text \<open>The memory behind the breakpoints is kept, and so is their presence in memory.\<close>

definition kept ::
  "(pid \<Rightarrow> 'w \<Rightarrow> memory) \<Rightarrow> inferior \<Rightarrow> ('w, 'm) dbg_scheme \<Rightarrow> inferior \<Rightarrow> ('w, 'm) dbg_scheme \<Rightarrow> bool" where
  "kept mem i s i' s' \<longleftrightarrow>
     (let m = mem (inf_pid i) (world s); m' = mem (inf_pid i) (world s') in
      orig_view i' m' = orig_view i m \<and> (patched i m \<longrightarrow> patched i' m'))"

lemma kept_trans: "inf_pid j = inf_pid i \<Longrightarrow> kept mem i s j t \<Longrightarrow> kept mem j t k u \<Longrightarrow> kept mem i s k u"
  by (auto simp: kept_def Let_def)

lemma kept_saved: "saved i' = saved i \<Longrightarrow> mem (inf_pid i) (world s') = mem (inf_pid i) (world s) \<Longrightarrow> kept mem i s i' s'"
  by (simp add: kept_def orig_view_def patched_def)

lemma kept_state [simp]:
  "kept mem i s i' (s'\<lparr>infp := q\<rparr>) = kept mem i s i' s'"
  "kept mem i s i' (s'\<lparr>sylvan_last_error := e\<rparr>) = kept mem i s i' s'"
  "kept mem i s i' (s'\<lparr>errno := n\<rparr>) = kept mem i s i' s'"
  by (simp_all add: kept_def)

lemma kept_refl [simp]: "kept mem i s i s"
  by (simp add: kept_saved)

lemma create_logical:
  assumes st: "infp s = InfLive i" "bps_ok i" "isactive i" "n < inf_breakpoint_count i"
  shows "wp (sylvan_breakpoint_create_phybp os n) (\<lambda>c s'. \<exists>b. lib_frame s s' \<and>
    infp s' = InfLive (set_slot n b i) \<and>
    (b = bp_at i n \<and> c \<in> {SYLVANC_OK, SYLVANC_PTRACE_PEEKTEXT_FAILED} \<and>
       (c = SYLVANC_OK) = is_enabled_phy (bp_at i n) \<or>
     c = SYLVANC_OK \<and> (\<exists>og. b = (bp_at i n)\<lparr>og_byte := og, is_enabled_phy := True\<rparr>))) s"
  using st bps_ok_slot_lt [OF st(2,4)]
  by (cases "is_enabled_phy (bp_at i n)")
    (auto simp: sylvan_breakpoint_create_phybp_def wp_simps Let_def cformat_plain set_slot_def
      intro: exI [of _ "bp_at i n"] split: prod.splits sum.splits)

lemma remove_logical:
  assumes st: "infp s = InfLive i" "bps_ok i" "isactive i" "n < inf_breakpoint_count i"
  shows "wp (sylvan_breakpoint_remove_phybp os n) (\<lambda>c s'. \<exists>b. lib_frame s s' \<and>
    infp s' = InfLive (set_slot n b i) \<and>
    (b = bp_at i n \<and> c \<in> {SYLVANC_OK, SYLVANC_PTRACE_PEEKTEXT_FAILED, SYLVANC_PTRACE_POKETEXT_FAILED} \<and>
       (c = SYLVANC_OK) = (\<not> is_enabled_phy (bp_at i n)) \<or>
     c = SYLVANC_OK \<and> b = (bp_at i n)\<lparr>is_enabled_phy := False\<rparr>)) s"
  using st bps_ok_slot_lt [OF st(2,4)]
  by (cases "is_enabled_phy (bp_at i n)")
    (auto simp: sylvan_breakpoint_remove_phybp_def wp_simps Let_def cformat_plain set_slot_def
      intro: exI [of _ "bp_at i n"] split: prod.splits sum.splits)

text \<open>
  The two together, in the form the callers use: \<open>slot_step\<close> rewrites slot \<open>n\<close>,
  keeping its address; where the memory is that of the process, the memory
  behind the breakpoints is kept.
\<close>

definition slot_step ::
  "'w os \<Rightarrow> (pid \<Rightarrow> 'w \<Rightarrow> memory) \<Rightarrow> nat \<Rightarrow> inferior \<Rightarrow> ('w, 'm) dbg_scheme \<Rightarrow> breakpoint \<Rightarrow> ('w, 'm) dbg_scheme \<Rightarrow> bool"
where
  "slot_step os mem n i s b s' \<longleftrightarrow> lib_frame s s' \<and> infp s' = InfLive (set_slot n b i) \<and>
     bp_addr b = bp_addr (bp_at i n) \<and> (tracee_memory os mem \<longrightarrow> kept mem i s (set_slot n b i) s')"

lemma create_spec [wp_specs]:
  assumes st: "infp s = InfLive i" "bps_ok i" "isactive i" "n < inf_breakpoint_count i"
  shows "wp (sylvan_breakpoint_create_phybp os n) (\<lambda>c s'. \<exists>b. slot_step os mem n i s b s' \<and>
    is_enabled_log b = is_enabled_log (bp_at i n) \<and> (c = SYLVANC_OK \<longrightarrow> is_enabled_phy b) \<and>
    c \<in> {SYLVANC_OK, SYLVANC_PTRACE_PEEKTEXT_FAILED}) s"
proof (cases "tracee_memory os mem")
  case True
  show ?thesis
    using set_slot_same [OF bps_ok_slot_lt [OF st(2,4)]] orig_view_trap [OF st(2,4)]
    by (rule_tac wp_mono [OF create_phybp_spec [OF True st]]) (auto simp: Let_def slot_step_def kept_def)
next
  case False
  show ?thesis
    by (rule wp_mono [OF create_logical [OF st]]) (auto simp: slot_step_def False)
qed

lemma remove_spec [wp_specs]:
  assumes st: "infp s = InfLive i" "bps_ok i" "isactive i" "n < inf_breakpoint_count i"
  shows "wp (sylvan_breakpoint_remove_phybp os n) (\<lambda>c s'. \<exists>b. slot_step os mem n i s b s' \<and>
    is_enabled_log b = is_enabled_log (bp_at i n) \<and> (c = SYLVANC_OK \<longrightarrow> \<not> is_enabled_phy b) \<and>
    c \<in> {SYLVANC_OK, SYLVANC_PTRACE_PEEKTEXT_FAILED, SYLVANC_PTRACE_POKETEXT_FAILED}) s"
proof (cases "tracee_memory os mem")
  case True
  show ?thesis
    using set_slot_same [OF bps_ok_slot_lt [OF st(2,4)]] orig_view_restore [OF st(2,4)]
    by (rule_tac wp_mono [OF remove_phybp_spec [OF True st]]) (auto simp: Let_def slot_step_def kept_def)
next
  case False
  show ?thesis
    by (rule wp_mono [OF remove_logical [OF st]]) (auto simp: slot_step_def False)
qed


lemma slot_step_trans:
  assumes "slot_step os mem n i s b t" "slot_step os mem n (set_slot n b i) t b' u"
    "bps_ok i" "n < inf_breakpoint_count i"
  shows "slot_step os mem n i s b' u"
  using assms bps_ok_slot_lt [OF assms(3,4)]
  by (auto simp: slot_step_def bp_at_set_slot intro: lib_frame_trans kept_trans [where j = "set_slot n b i"])

lemma slot_step_log:
  assumes "infp s = InfLive i" "bps_ok i" "n < inf_breakpoint_count i"
    and b: "b = (bp_at i n)\<lparr>is_enabled_log := l\<rparr>"
  shows "slot_step os mem n i s b (s\<lparr>infp := InfLive (set_slot n b i)\<rparr>)"
proof -
  have "saved (set_slot n b i) = saved i"
    using assms saved_slot [OF assms(2,3)] by (auto simp: saved_set_slot fun_eq_iff)
  then show ?thesis
    using assms by (auto simp: slot_step_def intro!: kept_saved)
qed

text \<open>Setting the logical flag, then acting on the process where there is one.\<close>

lemma log_then_phys:
  assumes st: "infp s = InfLive i" "bps_ok i" "n < inf_breakpoint_count i"
    and op: "\<And>(t :: ('w, 'm) dbg_scheme) j. infp t = InfLive j \<Longrightarrow> bps_ok j \<Longrightarrow> isactive j \<Longrightarrow>
      n < inf_breakpoint_count j \<Longrightarrow> wp op (\<lambda>c s'. \<exists>b. slot_step os mem n j t b s' \<and>
        is_enabled_log b = is_enabled_log (bp_at j n) \<and> R c b) t"
  shows "wp (bnd (upd_bp n (\<lambda>b. b\<lparr>is_enabled_log := l\<rparr>)) (\<lambda>_. bnd get_inf (\<lambda>i.
      if isactive i then op else ret SYLVANC_OK)))
    (\<lambda>c s'. \<exists>b. slot_step os mem n i s b s' \<and> is_enabled_log b = l \<and>
      (if isactive i then R c b else c = SYLVANC_OK)) (s :: ('w, 'm) dbg_scheme)"
proof -
  define b where "b = (bp_at i n)\<lparr>is_enabled_log := l\<rparr>"
  define s1 where "s1 = s\<lparr>infp := InfLive (set_slot n b i)\<rparr>"
  have len: "n < length (inf_breakpoints i)" using st by (simp add: bps_ok_slot_lt)
  have step: "slot_step os mem n i s b s1"
    using slot_step_log [OF st b_def] by (simp add: s1_def)
  have s1: "infp s1 = InfLive (set_slot n b i)" "bps_ok (set_slot n b i)"
    using st by (simp_all add: s1_def bps_ok_set_slot b_def)
  have log: "is_enabled_log (bp_at (set_slot n b i) n) = l" using len by (simp add: bp_at_set_slot b_def)
  have "wp (if isactive i then op else ret SYLVANC_OK)
    (\<lambda>c s'. \<exists>b. slot_step os mem n i s b s' \<and> is_enabled_log b = l \<and>
      (if isactive i then R c b else c = SYLVANC_OK)) s1"
  proof (cases "isactive i")
    case True
    then have "wp op (\<lambda>c s'. \<exists>b'. slot_step os mem n (set_slot n b i) s1 b' s' \<and>
        is_enabled_log b' = is_enabled_log (bp_at (set_slot n b i) n) \<and> R c b') s1"
      using st s1 by (intro op) simp_all
    then show ?thesis
      using True log by (auto elim!: wp_mono dest: slot_step_trans [OF step _ st(2,3)])
  next
    case False
    with step show ?thesis by (auto simp: wp_simps b_def)
  qed
  then show ?thesis
    using st len by (simp add: wp_simps s1_def set_slot_def b_def isactive_def)
qed

lemma enable_ptr_spec [wp_specs]:
  assumes st: "infp s = InfLive i" "bps_ok i" "n < inf_breakpoint_count i"
  shows "wp (sylvan_breakpoint_enable_ptr os n) (\<lambda>c s'. \<exists>b. slot_step os mem n i s b s' \<and>
    is_enabled_log b \<and> (if isactive i then (c = SYLVANC_OK \<longrightarrow> is_enabled_phy b) \<and>
      c \<in> {SYLVANC_OK, SYLVANC_PTRACE_PEEKTEXT_FAILED} else c = SYLVANC_OK)) s"
  using log_then_phys [OF st create_spec, where l = True and mem = mem and os = os] st(1)
  by (simp add: sylvan_breakpoint_enable_ptr_def wp_assert_inf)

lemma disable_ptr_spec [wp_specs]:
  assumes st: "infp s = InfLive i" "bps_ok i" "n < inf_breakpoint_count i"
  shows "wp (sylvan_breakpoint_disable_ptr os n) (\<lambda>c s'. \<exists>b. slot_step os mem n i s b s' \<and>
    \<not> is_enabled_log b \<and> (if isactive i then (c = SYLVANC_OK \<longrightarrow> \<not> is_enabled_phy b) \<and>
      c \<in> {SYLVANC_OK, SYLVANC_PTRACE_PEEKTEXT_FAILED, SYLVANC_PTRACE_POKETEXT_FAILED} else c = SYLVANC_OK)) s"
  using log_then_phys [OF st remove_spec, where l = False and mem = mem and os = os] st(1)
  by (simp add: sylvan_breakpoint_disable_ptr_def wp_assert_inf)

text \<open>A step on the whole table.\<close>

definition table_step ::
  "'w os \<Rightarrow> (pid \<Rightarrow> 'w \<Rightarrow> memory) \<Rightarrow> inferior \<Rightarrow> ('w, 'm) dbg_scheme \<Rightarrow> inferior \<Rightarrow> ('w, 'm) dbg_scheme \<Rightarrow> bool"
where
  "table_step os mem i s i' s' \<longleftrightarrow> lib_frame s s' \<and> infp s' = InfLive i' \<and> bp_only i i' \<and> bps_ok i' \<and>
     (tracee_memory os mem \<longrightarrow> kept mem i s i' s')"

lemma table_step_refl: "infp s = InfLive i \<Longrightarrow> bps_ok i \<Longrightarrow> table_step os mem i s i s"
  by (simp add: table_step_def)

lemma table_step_trans:
  "table_step os mem i s j t \<Longrightarrow> table_step os mem j t k u \<Longrightarrow> table_step os mem i s k u"
  by (auto simp: table_step_def intro: lib_frame_trans bp_only_trans kept_trans [where j = j] dest: bp_onlyD)

lemma slot_step_table:
  "slot_step os mem n i s b s' \<Longrightarrow> bps_ok i \<Longrightarrow> n < inf_breakpoint_count i \<Longrightarrow>
     table_step os mem i s (set_slot n b i) s'"
  by (auto simp: slot_step_def table_step_def bps_ok_set_slot)


text \<open>The codes a physical operation ends with.\<close>

definition phys_codes :: "sylvan_code set" where
  "phys_codes = {SYLVANC_OK, SYLVANC_PTRACE_PEEKTEXT_FAILED, SYLVANC_PTRACE_POKETEXT_FAILED}"

lemma saved_set_slot_self:
  "bps_ok i \<Longrightarrow> n < inf_breakpoint_count i \<Longrightarrow> bp_addr b = bp_addr (bp_at i n) \<Longrightarrow>
     saved (set_slot n b i) (bp_addr b) = (if is_enabled_phy b then Some (og_byte b) else None)"
  by (simp add: saved_set_slot)

lemma enable_spec [wp_specs]:
  assumes st: "infp s = InfLive i" "bps_ok i"
  shows "wp (sylvan_breakpoint_enable os a) (\<lambda>c s'. \<exists>i'. table_step os mem i s i' s' \<and>
    (case bp_index i a of
       None \<Rightarrow> c = SYVLANC_BREAKPOINT_NOT_FOUND \<and> i' = i
     | Some n \<Rightarrow> bp_map i' = (bp_map i)(a \<mapsto> True) \<and> c \<in> phys_codes \<and>
         (if isactive i then c = SYLVANC_OK \<longrightarrow> saved i' a \<noteq> None else c = SYLVANC_OK))) s"
proof (cases "bp_index i a")
  case None
  with st show ?thesis
    by (auto simp: sylvan_breakpoint_enable_def wp_simps table_step_def)
next
  case (Some n)
  then have n: "n < inf_breakpoint_count i" "bp_addr (bp_at i n) = a" by (auto dest: bp_index_SomeD)
  have "wp (sylvan_breakpoint_enable_ptr os n) (\<lambda>c s'. \<exists>i'. table_step os mem i s i' s' \<and>
      bp_map i' = (bp_map i)(a \<mapsto> True) \<and> c \<in> phys_codes \<and>
      (if isactive i then c = SYLVANC_OK \<longrightarrow> saved i' a \<noteq> None else c = SYLVANC_OK)) s"
  proof (rule wp_mono [OF enable_ptr_spec [OF st n(1), where mem = mem]], elim exE conjE)
    fix c s' b
    assume b: "slot_step os mem n i s b s'" "is_enabled_log b"
      "if isactive i then (c = SYLVANC_OK \<longrightarrow> is_enabled_phy b) \<and>
        c \<in> {SYLVANC_OK, SYLVANC_PTRACE_PEEKTEXT_FAILED} else c = SYLVANC_OK"
    then have "bp_addr b = bp_addr (bp_at i n)" by (simp add: slot_step_def)
    with b n st show "\<exists>i'. table_step os mem i s i' s' \<and> bp_map i' = (bp_map i)(a \<mapsto> True) \<and> c \<in> phys_codes \<and>
      (if isactive i then c = SYLVANC_OK \<longrightarrow> saved i' a \<noteq> None else c = SYLVANC_OK)"
      by (intro exI [of _ "set_slot n b i"])
        (auto simp: slot_step_table bp_map_set_slot saved_set_slot phys_codes_def split: if_splits)
  qed
  with Some st show ?thesis
    by (simp add: sylvan_breakpoint_enable_def wp_simps)
qed

lemma disable_spec [wp_specs]:
  assumes st: "infp s = InfLive i" "bps_ok i"
  shows "wp (sylvan_breakpoint_disable os a) (\<lambda>c s'. \<exists>i'. table_step os mem i s i' s' \<and>
    (case bp_index i a of
       None \<Rightarrow> c = SYVLANC_BREAKPOINT_NOT_FOUND \<and> i' = i
     | Some n \<Rightarrow> bp_map i' = (bp_map i)(a \<mapsto> False) \<and> c \<in> phys_codes \<and>
         (if isactive i then c = SYLVANC_OK \<longrightarrow> saved i' a = None else c = SYLVANC_OK))) s"
proof (cases "bp_index i a")
  case None
  with st show ?thesis
    by (auto simp: sylvan_breakpoint_disable_def wp_simps table_step_def)
next
  case (Some n)
  then have n: "n < inf_breakpoint_count i" "bp_addr (bp_at i n) = a" by (auto dest: bp_index_SomeD)
  have "wp (sylvan_breakpoint_disable_ptr os n) (\<lambda>c s'. \<exists>i'. table_step os mem i s i' s' \<and>
      bp_map i' = (bp_map i)(a \<mapsto> False) \<and> c \<in> phys_codes \<and>
      (if isactive i then c = SYLVANC_OK \<longrightarrow> saved i' a = None else c = SYLVANC_OK)) s"
  proof (rule wp_mono [OF disable_ptr_spec [OF st n(1), where mem = mem]], elim exE conjE)
    fix c s' b
    assume b: "slot_step os mem n i s b s'" "\<not> is_enabled_log b"
      "if isactive i then (c = SYLVANC_OK \<longrightarrow> \<not> is_enabled_phy b) \<and>
        c \<in> {SYLVANC_OK, SYLVANC_PTRACE_PEEKTEXT_FAILED, SYLVANC_PTRACE_POKETEXT_FAILED} else c = SYLVANC_OK"
    then have "bp_addr b = bp_addr (bp_at i n)" by (simp add: slot_step_def)
    with b n st show "\<exists>i'. table_step os mem i s i' s' \<and> bp_map i' = (bp_map i)(a \<mapsto> False) \<and> c \<in> phys_codes \<and>
      (if isactive i then c = SYLVANC_OK \<longrightarrow> saved i' a = None else c = SYLVANC_OK)"
      by (intro exI [of _ "set_slot n b i"])
        (auto simp: slot_step_table bp_map_set_slot saved_set_slot phys_codes_def split: if_splits)
  qed
  with Some st show ?thesis
    by (simp add: sylvan_breakpoint_disable_def wp_simps)
qed

lemma set_spec [wp_specs]:
  assumes st: "infp s = InfLive i" "bps_ok i"
    and room: "inf_breakpoint_count i < MAX_BREAKPOINTS" and new: "bp_index i a = None"
  shows "wp (sylvan_breakpoint_set os a) (\<lambda>c s'. \<exists>i'. lib_frame s s' \<and> infp s' = InfLive i' \<and>
    bp_only i i' \<and> bps_ok i' \<and> bp_map i' = (bp_map i)(a \<mapsto> True) \<and>
    inf_breakpoint_count i' = Suc (inf_breakpoint_count i) \<and> c \<in> phys_codes \<and>
    (c \<noteq> SYLVANC_OK \<longrightarrow> isactive i) \<and>
    (tracee_memory os mem \<longrightarrow> \<not> is_enabled_phy (bp_at i (inf_breakpoint_count i)) \<longrightarrow>
       kept mem i s i' s' \<and> (c = SYLVANC_OK \<longrightarrow> isactive i \<longrightarrow> saved i' a \<noteq> None))) s"
proof -
  let ?n = "inf_breakpoint_count i" and ?j = "add_slot a i"
  define t where "t = s\<lparr>infp := InfLive ?j\<rparr>"
  have t: "infp t = InfLive ?j" "bps_ok ?j" "?n < inf_breakpoint_count ?j"
    using bps_ok_add_slot [OF st(2) room new] by (simp_all add: t_def add_slot_def)
  have cnt: "inf_breakpoint_count ?j = Suc ?n" by (simp add: add_slot_def)
  have tf: "lib_frame s t" by (simp add: t_def)
  have act: "isactive ?j = isactive i" by (simp add: add_slot_def isactive_def)
  have pid: "inf_pid ?j = inf_pid i" by (simp add: add_slot_def)
  have at: "bp_addr (bp_at ?j ?n) = a" "is_enabled_log (bp_at ?j ?n)"
    using add_slot_at [OF st(2) room, of ?n] by simp_all
  have map: "bp_map ?j = (bp_map i)(a \<mapsto> True)"
    by (simp add: bp_map_slot_map slot_map_add_slot [OF st(2) room new])
  have keep: "kept mem i s ?j t" if "\<not> is_enabled_phy (bp_at i ?n)"
  proof (rule kept_saved)
    have "saved i a = None" using new by (simp add: saved_def)
    then show "saved ?j = saved i"
      using that by (auto simp: saved_slot_map fun_eq_iff slot_map_add_slot [OF st(2) room new])
  qed (simp add: t_def)
  have main: "wp (if \<not> isactive i then ret SYLVANC_OK else sylvan_breakpoint_enable_ptr os ?n)
    (\<lambda>c s'. \<exists>i'. lib_frame s s' \<and> infp s' = InfLive i' \<and>
      bp_only i i' \<and> bps_ok i' \<and> bp_map i' = (bp_map i)(a \<mapsto> True) \<and>
      inf_breakpoint_count i' = Suc (inf_breakpoint_count i) \<and> c \<in> phys_codes \<and>
      (c \<noteq> SYLVANC_OK \<longrightarrow> isactive i) \<and>
      (tracee_memory os mem \<longrightarrow> \<not> is_enabled_phy (bp_at i ?n) \<longrightarrow>
         kept mem i s i' s' \<and> (c = SYLVANC_OK \<longrightarrow> isactive i \<longrightarrow> saved i' a \<noteq> None))) t"
  proof (cases "isactive i")
    case False
    with t map keep show ?thesis
      by (auto simp: wp_simps phys_codes_def cnt tf)
  next
    case True
    have "wp (sylvan_breakpoint_enable_ptr os ?n)
      (\<lambda>c s'. \<exists>i'. lib_frame s s' \<and> infp s' = InfLive i' \<and>
        bp_only i i' \<and> bps_ok i' \<and> bp_map i' = (bp_map i)(a \<mapsto> True) \<and>
        inf_breakpoint_count i' = Suc (inf_breakpoint_count i) \<and> c \<in> phys_codes \<and>
        (tracee_memory os mem \<longrightarrow> \<not> is_enabled_phy (bp_at i ?n) \<longrightarrow>
           kept mem i s i' s' \<and> (c = SYLVANC_OK \<longrightarrow> saved i' a \<noteq> None))) t"
    proof (rule wp_mono [OF enable_ptr_spec [OF t, where mem = mem and os = os]], elim exE conjE)
      fix c s' b
      assume b: "slot_step os mem ?n ?j t b s'" "is_enabled_log b"
        "if isactive ?j then (c = SYLVANC_OK \<longrightarrow> is_enabled_phy b) \<and>
          c \<in> {SYLVANC_OK, SYLVANC_PTRACE_PEEKTEXT_FAILED} else c = SYLVANC_OK"
      then have ba: "bp_addr b = a" "bp_addr b = bp_addr (bp_at ?j ?n)" using at by (simp_all add: slot_step_def)
      have "kept mem i s (set_slot ?n b ?j) s'" if "tracee_memory os mem" "\<not> is_enabled_phy (bp_at i ?n)"
        using b(1) that by (intro kept_trans [OF pid keep]) (simp_all add: slot_step_def)
      moreover have "bp_map (set_slot ?n b ?j) = (bp_map i)(a \<mapsto> True)"
        using bp_map_set_slot [OF t(2,3) ba(2)] b(2) ba(1) map by simp
      moreover have "saved (set_slot ?n b ?j) a = (if is_enabled_phy b then Some (og_byte b) else None)"
        using saved_set_slot [OF t(2,3) ba(2)] ba(1) by simp
      moreover have "bps_ok (set_slot ?n b ?j)" using t ba(2) by (simp add: bps_ok_set_slot)
      moreover have "lib_frame s s'" "infp s' = InfLive (set_slot ?n b ?j)"
        using b(1) tf by (auto simp: slot_step_def intro: lib_frame_trans)
      moreover have "c \<in> phys_codes" "c = SYLVANC_OK \<longrightarrow> is_enabled_phy b"
        using b(3) True act by (auto simp: phys_codes_def)
      ultimately show "\<exists>i'. lib_frame s s' \<and> infp s' = InfLive i' \<and>
        bp_only i i' \<and> bps_ok i' \<and> bp_map i' = (bp_map i)(a \<mapsto> True) \<and>
        inf_breakpoint_count i' = Suc (inf_breakpoint_count i) \<and> c \<in> phys_codes \<and>
        (tracee_memory os mem \<longrightarrow> \<not> is_enabled_phy (bp_at i ?n) \<longrightarrow>
           kept mem i s i' s' \<and> (c = SYLVANC_OK \<longrightarrow> saved i' a \<noteq> None))"
        by (intro exI [of _ "set_slot ?n b ?j"]) (simp add: cnt)
    qed
    with True show ?thesis by simp
  qed
  have upd: "inf_breakpoint_count_update Suc i = i\<lparr>inf_breakpoint_count := Suc ?n\<rparr>" by simp
  have "wp (sylvan_breakpoint_set os a) Q s =
      wp (if \<not> isactive i then ret SYLVANC_OK else sylvan_breakpoint_enable_ptr os ?n) Q t" for Q
    using st room new
    by (simp add: sylvan_breakpoint_set_def wp_simps bps_ok_lengthD t_def add_slot_def Let_def upd)
  with main show ?thesis by simp
qed

end
