(* ===== verification/Breakpoint_Bulk.thy ===== *)
theory Breakpoint_Bulk
  imports Breakpoint_Specs
begin

text \<open>
  The remaining operations of \<open>breakpoint.c\<close>: removing a breakpoint (the last slot
  moves into the gap) and the loops over all slots, which keep the memory behind
  the breakpoints and end with every, or no, breakpoint in memory.
\<close>

section \<open>Removing\<close>

text \<open>Without a process, disabling only clears the logical flag.\<close>

lemma disable_ptr_idle:
  assumes "infp s = InfLive i" "bps_ok i" "n < inf_breakpoint_count i"
  shows "wp (sylvan_breakpoint_disable_ptr os n) (\<lambda>c s'. isactive i \<or>
    s' = s\<lparr>infp := InfLive (set_slot n ((bp_at i n)\<lparr>is_enabled_log := False\<rparr>) i)\<rparr>) s"
proof (cases "isactive i")
  case True
  then show ?thesis by (intro wp_mono [OF disable_ptr_spec [OF assms]]) simp
next
  case False
  with assms show ?thesis
    by (simp add: sylvan_breakpoint_disable_ptr_def wp_simps bps_ok_slot_lt set_slot_def isactive_def)
qed

text \<open>The last slot moves into the gap.\<close>

abbreviation close_gap :: "nat \<Rightarrow> ('w, 'm, sylvan_code) lib" where
  "close_gap n \<equiv> bnd (upd_inf (inf_breakpoint_count_update (\<lambda>c. c - 1))) (\<lambda>_.
    bnd get_inf (\<lambda>i.
      if inf_breakpoint_count i \<noteq> 0
      then bnd (get_bp (inf_breakpoint_count i)) (\<lambda>l.
           bnd (upd_bp n (\<lambda>_. l)) (\<lambda>_. ret SYLVANC_OK))
      else ret SYLVANC_OK))"

lemma wp_close_gap:
  assumes "infp s = InfLive i" "bps_ok i" "n < inf_breakpoint_count i"
  shows "wp (close_gap n) Q s = Q SYLVANC_OK (s\<lparr>infp := InfLive (drop_slot n i)\<rparr>)"
proof -
  have upd: "inf_breakpoint_count_update (\<lambda>c. c - 1) i = i\<lparr>inf_breakpoint_count := inf_breakpoint_count i - 1\<rparr>"
    by simp
  have "inf_breakpoint_count i - 1 < length (inf_breakpoints i)" "n < length (inf_breakpoints i)"
    using assms bps_ok_countD [OF assms(2)] bps_ok_lengthD [OF assms(2)] by linarith+
  with assms show ?thesis
    by (simp add: wp_simps drop_slot_def Let_def upd del: One_nat_def)
qed

lemma unset_spec [wp_specs]:
  assumes st: "infp s = InfLive i" "bps_ok i"
  shows "wp (sylvan_breakpoint_unset os a) (\<lambda>c s'. \<exists>i'. lib_frame s s' \<and> infp s' = InfLive i' \<and>
    bp_only i i' \<and> bps_ok i' \<and>
    (case bp_index i a of
       None \<Rightarrow> c = SYVLANC_BREAKPOINT_NOT_FOUND \<and> i' = i
     | Some n \<Rightarrow> c \<in> phys_codes \<and> (c \<noteq> SYLVANC_OK \<longrightarrow> isactive i) \<and>
         bp_map i' = (bp_map i)(a := (if c = SYLVANC_OK then None else Some False))) \<and>
    (tracee_memory os mem \<longrightarrow> isactive i \<or> saved i a = None \<longrightarrow> kept mem i s i' s')) s"
proof (cases "bp_index i a")
  case None
  with st show ?thesis
    by (auto simp: sylvan_breakpoint_unset_def wp_simps)
next
  case (Some n)
  then have n: "n < inf_breakpoint_count i" "bp_addr (bp_at i n) = a" by (auto dest: bp_index_SomeD)
  let ?P = "\<lambda>c s'. \<exists>i'. lib_frame s s' \<and> infp s' = InfLive i' \<and>
    bp_only i i' \<and> bps_ok i' \<and> c \<in> phys_codes \<and> (c \<noteq> SYLVANC_OK \<longrightarrow> isactive i) \<and>
    bp_map i' = (bp_map i)(a := (if c = SYLVANC_OK then None else Some False)) \<and>
    (tracee_memory os mem \<longrightarrow> isactive i \<or> saved i a = None \<longrightarrow> kept mem i s i' s')"
  have "wp (on_ok (sylvan_breakpoint_disable_ptr os n) (close_gap n)) ?P s"
    unfolding wp_on_ok
  proof (rule wp_mono [OF wp_conj [OF disable_ptr_spec [OF st n(1), where mem = mem and os = os]
        disable_ptr_idle [OF st n(1)]]], elim exE conjE)
    fix c s' b
    assume b: "slot_step os mem n i s b s'" "\<not> is_enabled_log b"
      "if isactive i then (c = SYLVANC_OK \<longrightarrow> \<not> is_enabled_phy b) \<and>
        c \<in> {SYLVANC_OK, SYLVANC_PTRACE_PEEKTEXT_FAILED, SYLVANC_PTRACE_POKETEXT_FAILED} else c = SYLVANC_OK"
    assume idle: "isactive i \<or> s' = s\<lparr>infp := InfLive (set_slot n ((bp_at i n)\<lparr>is_enabled_log := False\<rparr>) i)\<rparr>"
    let ?j = "set_slot n b i"
    have ba: "bp_addr b = bp_addr (bp_at i n)" using b(1) by (simp add: slot_step_def)
    have j: "infp s' = InfLive ?j" "bps_ok ?j" "n < inf_breakpoint_count ?j" "lib_frame s s'"
      using b(1) st n ba by (simp_all add: slot_step_def bps_ok_set_slot)
    have at: "bp_at ?j n = b" "bp_map ?j = (bp_map i)(a \<mapsto> False)"
      using bps_ok_slot_lt [OF st(2) n(1)] bp_map_set_slot [OF st(2) n(1) ba] ba n(2) b(2)
      by (simp_all add: bp_at_set_slot)
    have keep: "tracee_memory os mem \<Longrightarrow> kept mem i s ?j s'" using b(1) by (simp add: slot_step_def)
    show "if c \<noteq> SYLVANC_OK then ?P c s' else wp (close_gap n) ?P s'"
    proof (cases "c = SYLVANC_OK")
      case False
      with b(3) j at keep st show ?thesis by (auto simp: phys_codes_def split: if_splits)
    next
      case True
      let ?k = "drop_slot n ?j"
      have map: "bp_map ?k = (bp_map i)(a := None)"
        using at ba n(2) by (simp add: bp_map_slot_map slot_map_drop_slot [OF j(2,3)])
      have "kept mem i s ?k (s'\<lparr>infp := InfLive ?k\<rparr>)" if "tracee_memory os mem" "isactive i \<or> saved i a = None"
      proof -
        have "saved ?j a = None"
        proof (cases "isactive i")
          case True
          with b(3) \<open>c = SYLVANC_OK\<close> ba n(2) show ?thesis
            using saved_set_slot [OF st(2) n(1) ba] by simp
        next
          case False
          let ?b = "(bp_at i n)\<lparr>is_enabled_log := False\<rparr>"
          from False that(2) have "\<not> is_enabled_phy (bp_at i n)"
            using saved_slot [OF st(2) n(1)] n(2) by (simp split: if_splits)
          then have "saved (set_slot n ?b i) a = None"
            using saved_set_slot [OF st(2) n(1), of ?b] n(2) by simp
          moreover from False idle j(1) have "?j = set_slot n ?b i" by auto
          ultimately show ?thesis by simp
        qed
        then have "saved ?k = saved ?j"
          using at ba n(2) by (simp add: saved_slot_map slot_map_drop_slot [OF j(2,3)] fun_upd_idem)
        with keep that show ?thesis
          by (intro kept_trans [OF _ keep]) (simp_all add: kept_saved)
      qed
      then have "?P SYLVANC_OK (s'\<lparr>infp := InfLive ?k\<rparr>)"
        using j map by (intro exI [of _ ?k]) (simp add: bps_ok_drop_slot phys_codes_def)
      moreover have "wp (close_gap n) ?P s' = ?P SYLVANC_OK (s'\<lparr>infp := InfLive ?k\<rparr>)"
        by (rule wp_close_gap [OF j(1-3)])
      ultimately show ?thesis using True by simp
    qed
  qed
  with Some st show ?thesis
    by (simp add: sylvan_breakpoint_unset_def wp_simps)
qed


section \<open>Operations on all slots\<close>

text \<open>The slots in use keep their addresses and logical flags.\<close>

definition same_keys :: "inferior \<Rightarrow> inferior \<Rightarrow> bool" where
  "same_keys i i' \<longleftrightarrow> inf_breakpoint_count i' = inf_breakpoint_count i \<and>
     (\<forall>n < inf_breakpoint_count i. bp_addr (bp_at i' n) = bp_addr (bp_at i n) \<and>
        is_enabled_log (bp_at i' n) = is_enabled_log (bp_at i n))"

lemma same_keys_refl [simp]: "same_keys i i"
  by (simp add: same_keys_def)

lemma same_keys_count: "same_keys i i' \<Longrightarrow> inf_breakpoint_count i' = inf_breakpoint_count i"
  by (simp add: same_keys_def)

lemma table_step_ok: "table_step os mem i s i' s' \<Longrightarrow> bps_ok i'"
  by (simp add: table_step_def)

lemma same_keys_trans: "same_keys i j \<Longrightarrow> same_keys j k \<Longrightarrow> same_keys i k"
  by (simp add: same_keys_def)

lemma same_keys_set_slot:
  "bps_ok i \<Longrightarrow> n < inf_breakpoint_count i \<Longrightarrow> bp_addr b = bp_addr (bp_at i n) \<Longrightarrow>
     is_enabled_log b = is_enabled_log (bp_at i n) \<Longrightarrow> same_keys i (set_slot n b i)"
  by (auto simp: same_keys_def bp_at_set_slot bps_ok_slot_lt)

lemma bp_index_cong:
  assumes "inf_breakpoint_count i' = inf_breakpoint_count i"
    "\<And>n. n < inf_breakpoint_count i \<Longrightarrow> bp_addr (bp_at i' n) = bp_addr (bp_at i n)"
  shows "bp_index i' a = bp_index i a"
  unfolding bp_index_def assms(1) by (rule find_cong) (simp_all add: assms(2))

lemma same_keys_map: "same_keys i i' \<Longrightarrow> bp_map i' = bp_map i"
  by (auto simp: bp_map_def same_keys_def bp_index_cong [of i' i] fun_eq_iff option.map_comp
      dest: bp_index_SomeD intro!: map_option_cong)

text \<open>Where a loop stands: the slots before \<open>k\<close> have been visited.\<close>

lemma for_slots_spec:
  assumes body: "\<And>n j (t :: ('w, 'm) dbg_scheme). infp t = InfLive j \<Longrightarrow> bps_ok j \<Longrightarrow> isactive j \<Longrightarrow>
      n < inf_breakpoint_count j \<Longrightarrow> wp (body n) (\<lambda>c t'. \<exists>b. slot_step os mem n j t b t' \<and>
        is_enabled_log b = is_enabled_log (bp_at j n) \<and> (c = SYLVANC_OK \<longrightarrow> R b) \<and> c \<in> C) t"
    and C: "SYLVANC_OK \<in> C"
    and st: "infp s = InfLive i" "bps_ok i" "isactive i" "count = inf_breakpoint_count i"
  shows "wp (for_slots body count k) (\<lambda>c s'. \<exists>i'. table_step os mem i s i' s' \<and> same_keys i i' \<and>
    (\<forall>n < k. bp_at i' n = bp_at i n) \<and> c \<in> C \<and>
    (c = SYLVANC_OK \<longrightarrow> (\<forall>n. k \<le> n \<longrightarrow> n < count \<longrightarrow> R (bp_at i' n)))) (s :: ('w, 'm) dbg_scheme)"
  using st
proof (induction "count - k" arbitrary: k s i)
  case 0
  then show ?case
    using C by (subst for_slots.simps) (auto simp: wp_simps intro: table_step_refl)
next
  case (Suc d)
  then have k: "k < count" by simp
  let ?P = "\<lambda>c s'. \<exists>i'. table_step os mem i s i' s' \<and> same_keys i i' \<and>
    (\<forall>n < k. bp_at i' n = bp_at i n) \<and> c \<in> C \<and>
    (c = SYLVANC_OK \<longrightarrow> (\<forall>n. k \<le> n \<longrightarrow> n < count \<longrightarrow> R (bp_at i' n)))"
  have "wp (on_ok (body k) (for_slots body count (Suc k))) ?P s"
    unfolding wp_on_ok
  proof (rule wp_mono [OF body [OF Suc.prems(1-3)]], goal_cases)
    case 1
    then show ?case using k Suc.prems by simp
  next
    case (2 c t)
    then obtain b where b: "slot_step os mem k i s b t" "is_enabled_log b = is_enabled_log (bp_at i k)"
        "c = SYLVANC_OK \<longrightarrow> R b" "c \<in> C" by blast
    have kc: "k < inf_breakpoint_count i" using k Suc.prems by simp
    let ?j = "set_slot k b i"
    have ba: "bp_addr b = bp_addr (bp_at i k)" using b(1) by (simp add: slot_step_def)
    have t: "infp t = InfLive ?j" "bps_ok ?j" "isactive ?j"
      using b(1) Suc.prems kc ba by (simp_all add: slot_step_def bps_ok_set_slot)
    have step: "table_step os mem i s ?j t" using b(1) Suc.prems kc by (simp add: slot_step_table)
    have keys: "same_keys i ?j" using Suc.prems(2) kc ba b(2) by (rule same_keys_set_slot)
    have at: "bp_at ?j n = (if n = k then b else bp_at i n)" for n
      using bps_ok_slot_lt [OF Suc.prems(2) kc] by (simp add: bp_at_set_slot)
    show ?case
    proof (cases "c = SYLVANC_OK")
      case False
      with step keys at b(4) have "?P c t" by (intro exI [of _ ?j]) simp
      with False show ?thesis by simp
    next
      case True
      have IH: "wp (for_slots body count (Suc k)) (\<lambda>c s'. \<exists>i'. table_step os mem ?j t i' s' \<and> same_keys ?j i' \<and>
          (\<forall>n < Suc k. bp_at i' n = bp_at ?j n) \<and> c \<in> C \<and>
          (c = SYLVANC_OK \<longrightarrow> (\<forall>n. Suc k \<le> n \<longrightarrow> n < count \<longrightarrow> R (bp_at i' n)))) t"
        using Suc.hyps(2) Suc.prems(4) by (intro Suc.hyps(1) t) simp_all
      have "wp (for_slots body count (Suc k)) ?P t"
      proof (rule wp_mono [OF IH], elim exE conjE)
        fix c' u i'
        assume u: "table_step os mem ?j t i' u" "same_keys ?j i'"
          "\<forall>n < Suc k. bp_at i' n = bp_at ?j n" "c' \<in> C"
          "c' = SYLVANC_OK \<longrightarrow> (\<forall>n. Suc k \<le> n \<longrightarrow> n < count \<longrightarrow> R (bp_at i' n))"
        have "R (bp_at i' n)" if "c' = SYLVANC_OK" "k \<le> n" "n < count" for n
          using that u(3,5) at b(3) True by (cases "n = k") simp_all
        with u table_step_trans [OF step u(1)] same_keys_trans [OF keys u(2)] at
        show "?P c' u" by (intro exI [of _ i']) simp
      qed
      with True show ?thesis by simp
    qed
  qed
  with k show ?case by (subst for_slots.simps) simp
qed

lemma saved_total:
  "bps_ok i \<Longrightarrow> (\<forall>n < inf_breakpoint_count i. is_enabled_phy (bp_at i n)) \<Longrightarrow> dom (saved i) = dom (bp_map i)"
  by (rule set_eqI) (auto 0 3 simp: saved_def bp_map_def dom_def split: option.splits dest: bp_index_SomeD)

lemma saved_empty:
  "bps_ok i \<Longrightarrow> (\<forall>n < inf_breakpoint_count i. \<not> is_enabled_phy (bp_at i n)) \<Longrightarrow> saved i = Map.empty"
  by (auto simp: saved_def fun_eq_iff split: option.splits dest: bp_index_SomeD)

lemma saved_total_keys:
  "bps_ok i' \<Longrightarrow> same_keys i i' \<Longrightarrow> (\<forall>n < inf_breakpoint_count i. is_enabled_phy (bp_at i' n)) \<Longrightarrow>
     dom (saved i') = dom (bp_map i)"
  using saved_total [of i'] by (simp add: same_keys_map same_keys_count)

lemma setall_spec [wp_specs]:
  assumes st: "infp s = InfLive i" "bps_ok i" "isactive i"
  shows "wp (sylvan_breakpoint_setall_phybp os) (\<lambda>c s'. \<exists>i'. table_step os mem i s i' s' \<and>
    bp_map i' = bp_map i \<and> inf_breakpoint_count i' = inf_breakpoint_count i \<and>
    c \<in> {SYLVANC_OK, SYLVANC_PTRACE_PEEKTEXT_FAILED} \<and>
    (c = SYLVANC_OK \<longrightarrow> dom (saved i') = dom (bp_map i'))) s"
proof -
  have "wp (for_slots (sylvan_breakpoint_create_phybp os) (inf_breakpoint_count i) 0)
    (\<lambda>c s'. \<exists>i'. table_step os mem i s i' s' \<and> same_keys i i' \<and> (\<forall>n < 0. bp_at i' n = bp_at i n) \<and>
      c \<in> {SYLVANC_OK, SYLVANC_PTRACE_PEEKTEXT_FAILED} \<and>
      (c = SYLVANC_OK \<longrightarrow> (\<forall>n. 0 \<le> n \<longrightarrow> n < inf_breakpoint_count i \<longrightarrow> is_enabled_phy (bp_at i' n)))) s"
    by (rule for_slots_spec [OF create_spec]) (simp_all add: st)
  then have "wp (for_slots (sylvan_breakpoint_create_phybp os) (inf_breakpoint_count i) 0)
    (\<lambda>c s'. \<exists>i'. table_step os mem i s i' s' \<and>
    bp_map i' = bp_map i \<and> inf_breakpoint_count i' = inf_breakpoint_count i \<and>
    c \<in> {SYLVANC_OK, SYLVANC_PTRACE_PEEKTEXT_FAILED} \<and>
    (c = SYLVANC_OK \<longrightarrow> dom (saved i') = dom (bp_map i'))) s"
    by (rule wp_mono) (elim exE conjE, rule exI, intro conjI, assumption,
        simp_all add: same_keys_map same_keys_count saved_total_keys [OF table_step_ok])
  with st show ?thesis by (simp add: sylvan_breakpoint_setall_phybp_def wp_simps)
qed

lemma unsetall_spec [wp_specs]:
  assumes st: "infp s = InfLive i" "bps_ok i" "isactive i"
  shows "wp (sylvan_breakpoint_unsetall_phybp os) (\<lambda>c s'. \<exists>i'. table_step os mem i s i' s' \<and>
    bp_map i' = bp_map i \<and> inf_breakpoint_count i' = inf_breakpoint_count i \<and> c \<in> phys_codes \<and>
    (c = SYLVANC_OK \<longrightarrow> saved i' = Map.empty)) s"
proof -
  have "wp (for_slots (sylvan_breakpoint_remove_phybp os) (inf_breakpoint_count i) 0)
    (\<lambda>c s'. \<exists>i'. table_step os mem i s i' s' \<and> same_keys i i' \<and> (\<forall>n < 0. bp_at i' n = bp_at i n) \<and>
      c \<in> phys_codes \<and>
      (c = SYLVANC_OK \<longrightarrow> (\<forall>n. 0 \<le> n \<longrightarrow> n < inf_breakpoint_count i \<longrightarrow> \<not> is_enabled_phy (bp_at i' n)))) s"
    by (rule for_slots_spec [OF remove_spec [folded phys_codes_def]]) (simp_all add: st phys_codes_def)
  then have "wp (for_slots (sylvan_breakpoint_remove_phybp os) (inf_breakpoint_count i) 0)
    (\<lambda>c s'. \<exists>i'. table_step os mem i s i' s' \<and>
    bp_map i' = bp_map i \<and> inf_breakpoint_count i' = inf_breakpoint_count i \<and> c \<in> phys_codes \<and>
    (c = SYLVANC_OK \<longrightarrow> saved i' = Map.empty)) s"
    by (rule wp_mono) (elim exE conjE, rule exI, intro conjI, assumption,
        simp_all add: same_keys_map same_keys_count saved_empty [OF table_step_ok])
  with st show ?thesis by (simp add: sylvan_breakpoint_unsetall_phybp_def wp_simps)
qed

text \<open>Forgetting the physical flags, for a process that was replaced.\<close>

definition forget_from :: "nat \<Rightarrow> inferior \<Rightarrow> inferior" where
  "forget_from k i = i\<lparr>inf_breakpoints := map (\<lambda>(n, b).
     if k \<le> n \<and> n < inf_breakpoint_count i then b\<lparr>is_enabled_phy := False\<rparr> else b)
       (enumerate 0 (inf_breakpoints i))\<rparr>"

lemma forget_from_simps [simp]:
  "inf_breakpoint_count (forget_from k i) = inf_breakpoint_count i"
  "length (inf_breakpoints (forget_from k i)) = length (inf_breakpoints i)"
  "bp_only i (forget_from k i)"
  by (simp_all add: forget_from_def bp_only_def)

lemma bp_at_forget:
  "n < length (inf_breakpoints i) \<Longrightarrow> bp_at (forget_from k i) n =
     (if k \<le> n \<and> n < inf_breakpoint_count i then (bp_at i n)\<lparr>is_enabled_phy := False\<rparr> else bp_at i n)"
  by (simp add: forget_from_def nth_enumerate_eq)

lemma forget_same_keys: "bps_ok i \<Longrightarrow> same_keys i (forget_from k i)"
  by (auto simp: same_keys_def bp_at_forget bps_ok_slot_lt)

lemma same_keys_ok:
  assumes "same_keys i i'" "bps_ok i" "length (inf_breakpoints i') = length (inf_breakpoints i)"
  shows "bps_ok i'"
proof (rule bps_okI)
  show "length (inf_breakpoints i') = MAX_BREAKPOINTS" "inf_breakpoint_count i' \<le> MAX_BREAKPOINTS"
    using assms by (simp_all add: bps_ok_lengthD bps_ok_countD same_keys_count)
next
  fix n m
  assume "n < inf_breakpoint_count i'" "m < inf_breakpoint_count i'" "bp_addr (bp_at i' n) = bp_addr (bp_at i' m)"
  with assms(1) show "n = m" by (intro bps_ok_inj [OF assms(2)]) (simp_all add: same_keys_def)
qed

lemma bps_ok_forget: "bps_ok i \<Longrightarrow> bps_ok (forget_from k i)"
  using same_keys_ok [OF forget_same_keys] by simp

lemma infp_same: "infp s = p \<Longrightarrow> s\<lparr>infp := p\<rparr> = s"
  by auto

lemma wp_forget_loop:
  assumes "infp s = InfLive i" "bps_ok i" "count = inf_breakpoint_count i"
  shows "wp (for_slots (\<lambda>n. bnd (upd_bp n (\<lambda>b. b\<lparr>is_enabled_phy := False\<rparr>)) (\<lambda>_. ret SYLVANC_OK)) count k) Q s
    = Q SYLVANC_OK (s\<lparr>infp := InfLive (forget_from k i)\<rparr>)"
  using assms
proof (induction "count - k" arbitrary: k s i)
  case 0
  then have "forget_from k i = i"
    by (auto simp: forget_from_def intro!: inferior.equality nth_equalityI simp: nth_enumerate_eq)
  with 0 show ?case by (subst for_slots.simps) (simp add: wp_simps infp_same)
next
  case (Suc d)
  then have k: "k < count" "k < length (inf_breakpoints i)" by (simp_all add: bps_ok_slot_lt)
  let ?b = "(bp_at i k)\<lparr>is_enabled_phy := False\<rparr>"
  have ok: "bps_ok (set_slot k ?b i)" using Suc.prems k by (intro bps_ok_set_slot) simp_all
  have "forget_from (Suc k) (set_slot k ?b i) = forget_from k i"
    using Suc.prems k(1) le_antisym [of k] not_less_eq_eq
    by (auto simp: forget_from_def set_slot_def nth_enumerate_eq nth_list_update intro!: inferior.equality nth_equalityI)
  moreover have "wp (for_slots (\<lambda>n. bnd (upd_bp n (\<lambda>b. b\<lparr>is_enabled_phy := False\<rparr>)) (\<lambda>_. ret SYLVANC_OK))
      count (Suc k)) Q (s\<lparr>infp := InfLive (set_slot k ?b i)\<rparr>) =
    Q SYLVANC_OK (s\<lparr>infp := InfLive (set_slot k ?b i)\<rparr>\<lparr>infp := InfLive (forget_from (Suc k) (set_slot k ?b i))\<rparr>)"
    using Suc.hyps(2) Suc.prems ok by (intro Suc.hyps(1)) simp_all
  ultimately show ?case
    using Suc.prems k by (subst for_slots.simps) (simp add: wp_simps set_slot_def)
qed

lemma wp_reset:
  assumes "infp s = InfLive i" "bps_ok i"
  shows "wp sylvan_breakpoint_reset_phybp Q s = Q SYLVANC_OK (s\<lparr>infp := InfLive (forget_from 0 i)\<rparr>)"
  using assms by (simp add: sylvan_breakpoint_reset_phybp_def wp_simps wp_forget_loop)

lemma saved_forget: "bps_ok i \<Longrightarrow> saved (forget_from 0 i) = Map.empty"
  by (rule saved_empty) (simp_all add: bps_ok_forget bp_at_forget bps_ok_slot_lt)


text \<open>Dropping the last slot.\<close>

lemma slot_map_drop_last:
  assumes "bps_ok i" "inf_breakpoint_count i = Suc n" and j: "j = i\<lparr>inf_breakpoint_count := n\<rparr>"
  shows "bps_ok j" "slot_map f j = (slot_map f i)(bp_addr (bp_at i n) := None)"
proof -
  have at: "bp_at j m = bp_at i m" for m by (simp add: j)
  show ok: "bps_ok j"
    using assms(1,2) by (auto simp: bps_ok_def j distinct_take take_Suc_conv_app_nth)
  show "slot_map f j = (slot_map f i)(bp_addr (bp_at i n) := None)"
  proof (rule slot_map_eqI [OF ok])
    fix m assume "m < inf_breakpoint_count j"
    then have "m < n" by (simp add: j)
    with assms(2) have "bp_addr (bp_at i m) \<noteq> bp_addr (bp_at i n)"
      using bps_ok_inj [OF assms(1), of m n] by auto
    with assms(1,2) \<open>m < n\<close> show "((slot_map f i)(bp_addr (bp_at i n) := None)) (bp_addr (bp_at j m)) = f (bp_at j m)"
      by (simp add: at slot_map_slot)
  next
    fix a assume h: "\<forall>m < inf_breakpoint_count j. bp_addr (bp_at j m) \<noteq> a"
    show "((slot_map f i)(bp_addr (bp_at i n) := None)) a = None"
      using h assms(2) by (auto simp: j less_Suc_eq intro!: slot_map_None)
  qed
qed

lemma drop_last:
  assumes "bps_ok i" "inf_breakpoint_count i = Suc n" "\<not> is_enabled_phy (bp_at i n)"
    and j: "j = i\<lparr>inf_breakpoint_count := n\<rparr>"
  shows "bps_ok j" "saved j = saved i" "bp_map j = (bp_map i)(bp_addr (bp_at i n) := None)"
proof -
  note drop = slot_map_drop_last [OF assms(1,2) j]
  show "bps_ok j" by (rule drop)
  show "bp_map j = (bp_map i)(bp_addr (bp_at i n) := None)" by (simp add: bp_map_slot_map drop)
  have "saved i (bp_addr (bp_at i n)) = None" using assms by (simp add: saved_slot)
  then show "saved j = saved i" by (simp add: saved_slot_map drop fun_upd_idem)
qed

lemma clear_from_spec:
  assumes "infp s = InfLive i" "bps_ok i" "isactive i" "inf_breakpoint_count i = n"
  shows "wp (clear_from os n) (\<lambda>c s'. \<exists>i'. table_step os mem i s i' s' \<and> c \<in> phys_codes \<and>
    bp_map i' \<subseteq>\<^sub>m bp_map i \<and> (c = SYLVANC_OK \<longrightarrow> inf_breakpoint_count i' = 0)) s"
  using assms
proof (induction n arbitrary: s i)
  case 0
  then show ?case by (auto simp: wp_simps phys_codes_def intro: table_step_refl)
next
  case (Suc n)
  let ?P = "\<lambda>c s'. \<exists>i'. table_step os mem i s i' s' \<and> c \<in> phys_codes \<and>
    bp_map i' \<subseteq>\<^sub>m bp_map i \<and> (c = SYLVANC_OK \<longrightarrow> inf_breakpoint_count i' = 0)"
  have n: "n < inf_breakpoint_count i" using Suc.prems by simp
  show ?case
    unfolding clear_from.simps wp_on_ok
  proof (rule wp_mono [OF remove_spec [OF Suc.prems(1-3) n, where mem = mem and os = os]], elim exE conjE)
    fix c t b
    assume b: "slot_step os mem n i s b t" "is_enabled_log b = is_enabled_log (bp_at i n)"
      "c = SYLVANC_OK \<longrightarrow> \<not> is_enabled_phy b"
      "c \<in> {SYLVANC_OK, SYLVANC_PTRACE_PEEKTEXT_FAILED, SYLVANC_PTRACE_POKETEXT_FAILED}"
    let ?j = "set_slot n b i"
    have ba: "bp_addr b = bp_addr (bp_at i n)" using b(1) by (simp add: slot_step_def)
    have step: "table_step os mem i s ?j t" using b(1) Suc.prems n by (simp add: slot_step_table)
    have t: "infp t = InfLive ?j" "bps_ok ?j" using step by (simp_all add: table_step_def)
    have "same_keys i ?j" using Suc.prems(2) n ba b(2) by (rule same_keys_set_slot)
    then have map: "bp_map ?j = bp_map i" by (rule same_keys_map)
    show "if c \<noteq> SYLVANC_OK then ?P c t
      else wp (bnd (upd_inf (inf_breakpoint_count_update (\<lambda>c. c - 1))) (\<lambda>_. clear_from os n)) ?P t"
    proof (cases "c = SYLVANC_OK")
      case False
      with step map b(4) show ?thesis by (auto simp: phys_codes_def)
    next
      case True
      define k where "k = ?j\<lparr>inf_breakpoint_count := n\<rparr>"
      have upd: "inf_breakpoint_count_update (\<lambda>c. c - 1) ?j = k" using Suc.prems(4) by (simp add: k_def)
      have at: "bp_at ?j n = b" using bps_ok_slot_lt [OF Suc.prems(2) n] by (simp add: bp_at_set_slot)
      have k: "bps_ok k" "saved k = saved ?j" "bp_map k = (bp_map ?j)(bp_addr b := None)"
        using drop_last [OF t(2) _ _ k_def] Suc.prems(4) b(3) True by (simp_all add: at)
      have "kept mem ?j t k (t\<lparr>infp := InfLive k\<rparr>)" by (rule kept_saved) (simp_all add: k)
      moreover have "bp_only ?j k" by (simp add: k_def bp_only_def)
      ultimately have step': "table_step os mem i s k (t\<lparr>infp := InfLive k\<rparr>)"
        by (intro table_step_trans [OF step]) (simp add: table_step_def k)
      have "wp (clear_from os n) (\<lambda>c s'. \<exists>i'. table_step os mem k (t\<lparr>infp := InfLive k\<rparr>) i' s' \<and> c \<in> phys_codes \<and>
          bp_map i' \<subseteq>\<^sub>m bp_map k \<and> (c = SYLVANC_OK \<longrightarrow> inf_breakpoint_count i' = 0)) (t\<lparr>infp := InfLive k\<rparr>)"
        by (rule Suc.IH) (use Suc.prems k in \<open>simp_all add: k_def isactive_def\<close>)
      then have "wp (clear_from os n) ?P (t\<lparr>infp := InfLive k\<rparr>)"
      proof (rule wp_mono, elim exE conjE)
        fix c' u i'
        assume u: "table_step os mem k (t\<lparr>infp := InfLive k\<rparr>) i' u" "c' \<in> phys_codes"
          "bp_map i' \<subseteq>\<^sub>m bp_map k" "c' = SYLVANC_OK \<longrightarrow> inf_breakpoint_count i' = 0"
        have "bp_map k \<subseteq>\<^sub>m bp_map i" by (auto simp: k map map_le_def)
        with u table_step_trans [OF step' u(1)] show "?P c' u" by (blast intro: map_le_trans)
      qed
      with True t upd show ?thesis by (simp add: wp_simps)
    qed
  qed
qed

lemma empty_table:
  "inf_breakpoint_count i = 0 \<Longrightarrow> bp_map i = Map.empty" "inf_breakpoint_count i = 0 \<Longrightarrow> saved i = Map.empty"
  by (simp_all add: bp_map_def saved_def bp_index_def fun_eq_iff)

lemma clearall_spec [wp_specs]:
  assumes st: "infp s = InfLive i" "bps_ok i"
  shows "wp (sylvan_breakpoint_clearall os) (\<lambda>c s'. \<exists>i'. lib_frame s s' \<and> infp s' = InfLive i' \<and>
    bp_only i i' \<and> bps_ok i' \<and> c \<in> phys_codes \<and> (c \<noteq> SYLVANC_OK \<longrightarrow> isactive i) \<and>
    bp_map i' \<subseteq>\<^sub>m bp_map i \<and> (c = SYLVANC_OK \<longrightarrow> bp_map i' = Map.empty \<and> saved i' = Map.empty) \<and>
    (tracee_memory os mem \<longrightarrow> isactive i \<or> saved i = Map.empty \<longrightarrow> kept mem i s i' s')) s"
proof (cases "isactive i")
  case True
  have "wp (clear_from os (inf_breakpoint_count i)) (\<lambda>c s'. \<exists>i'. lib_frame s s' \<and> infp s' = InfLive i' \<and>
    bp_only i i' \<and> bps_ok i' \<and> c \<in> phys_codes \<and> (c \<noteq> SYLVANC_OK \<longrightarrow> isactive i) \<and>
    bp_map i' \<subseteq>\<^sub>m bp_map i \<and> (c = SYLVANC_OK \<longrightarrow> bp_map i' = Map.empty \<and> saved i' = Map.empty) \<and>
    (tracee_memory os mem \<longrightarrow> isactive i \<or> saved i = Map.empty \<longrightarrow> kept mem i s i' s')) s"
  proof (rule wp_mono [OF clear_from_spec [OF st True refl, where mem = mem]], elim exE conjE, goal_cases)
    case (1 c s' i')
    then show ?case using True by (intro exI [of _ i']) (simp add: table_step_def empty_table)
  qed
  with True st show ?thesis
    by (simp add: sylvan_breakpoint_clearall_def wp_simps)
next
  case False
  let ?j = "i\<lparr>inf_breakpoint_count := 0\<rparr>"
  have "bps_ok ?j" using st(2) by (simp add: bps_ok_def)
  with False st show ?thesis
    by (auto simp: sylvan_breakpoint_clearall_def wp_simps phys_codes_def empty_table bp_only_def
        intro!: kept_saved)
qed


end
