(* ===== verification/Symbols.thy ===== *)
theory Symbols
  imports Breakpoints "HOL-Library.List_Lexorder"
begin

text \<open>
  \<open>lib/sylvan/symbol.c\<close>: the two symbol tables of an inferior (growing arrays), the
  loaders that fill them from what \<open>libdwarf\<close> and \<open>libelf\<close> deliver, the sort by
  name and the binary search. Table functions take the table and return it.
\<close>

section \<open>Comparing names\<close>

fun strcmp :: "string \<Rightarrow> string \<Rightarrow> int" where
  "strcmp [] [] = 0"
| "strcmp [] (c # cs) = -1"
| "strcmp (c # cs) [] = 1"
| "strcmp (c # cs) (d # ds) =
     (let x = of_char c :: nat; y = of_char d in if x < y then -1 else if y < x then 1 else strcmp cs ds)"

text \<open>\<open>None\<close>: a null name.\<close>

definition symcmp :: "symbol \<Rightarrow> symbol \<Rightarrow> int option" where
  "symcmp l r = (case (sym_name l, sym_name r) of (Some x, Some y) \<Rightarrow> Some (strcmp x y) | _ \<Rightarrow> None)"

definition name_key :: "string \<Rightarrow> nat list" where
  "name_key s = map of_char s"

definition sym_key :: "symbol \<Rightarrow> nat list" where
  "sym_key y = name_key (the (sym_name y))"

text \<open>
  \<open>qsort\<close> with \<open>symcmp\<close>, as the stable sort of the C library; it compares, and so
  dereferences the names, where there are two entries or more.
\<close>

definition qsort_symbols :: "symbol list \<Rightarrow> symbol list option" where
  "qsort_symbols xs =
     (if 2 \<le> length xs \<and> (\<exists>y \<in> set xs. sym_name y = None) then None
      else Some (sort_key sym_key xs))"

text \<open>\<open>bsearch\<close> between \<open>l\<close> and \<open>u\<close>: \<open>None\<close> for a null name on the way.\<close>

function bsearch_symbols :: "symbol \<Rightarrow> symbol list \<Rightarrow> nat \<Rightarrow> nat \<Rightarrow> symbol option option" where
  "bsearch_symbols key xs l u =
     (if l < u
      then let idx = (l + u) div 2 in
        (case symcmp key (xs ! idx) of
           None \<Rightarrow> None
         | Some r \<Rightarrow>
             if r < 0 then bsearch_symbols key xs l idx
             else if 0 < r then bsearch_symbols key xs (idx + 1) u
             else Some (Some (xs ! idx)))
      else Some None)"
  by pat_completeness auto
termination
  by (relation "measure (\<lambda>(key, xs, l, u). u - l)") auto

declare bsearch_symbols.simps [simp del]


section \<open>Tables\<close>

definition SYMBOL_SIZE :: nat where "SYMBOL_SIZE = 16"

definition sylvan_sym_table_init :: "'w os \<Rightarrow> sym_table \<Rightarrow> ('w, 'm, sylvan_code \<times> sym_table) lib" where
  "sylvan_sym_table_init os t =
     bnd (sys (os_malloc os (256 * SYMBOL_SIZE))) (\<lambda>r.
       case r of
         Inl _ \<Rightarrow> bnd (sylvan_set_code SYLVANC_OUT_OF_MEMORY) (\<lambda>c.
           ret (c, t\<lparr>st_count := 0, st_capacity := 256, st_symbols := None, st_alloc := 0\<rparr>))
       | Inr _ \<Rightarrow> ret (SYLVANC_OK, t\<lparr>st_count := 0, st_capacity := 256, st_symbols := Some [], st_alloc := 256\<rparr>))"

definition sylvan_sym_init :: "'w os \<Rightarrow> inferior \<Rightarrow> ('w, 'm, sylvan_code \<times> inferior) lib" where
  "sylvan_sym_init os i =
     bnd (sylvan_sym_table_init os (inf_elf_table i)) (\<lambda>(code, t).
       let i = i\<lparr>inf_elf_table := t\<rparr> in
       if code \<noteq> SYLVANC_OK then ret (code, i)
       else bnd (sylvan_sym_table_init os (inf_dwarf_table i)) (\<lambda>(code, t).
         let i = i\<lparr>inf_dwarf_table := t\<rparr> in
         if code \<noteq> SYLVANC_OK then ret (code, i) else ret (SYLVANC_OK, i)))"

text \<open>The names freed are those of the first \<open>count\<close> entries, which must be there.\<close>

definition sylvan_sym_table_destroy :: "sym_table \<Rightarrow> ('w, 'm, sylvan_code \<times> sym_table) lib" where
  "sylvan_sym_table_destroy t =
     (if 0 < st_count t \<and> st_symbols t = None then undefined_behaviour
      else ret (SYLVANC_OK, t\<lparr>st_capacity := 0, st_count := 0, st_symbols := None, st_alloc := 0\<rparr>))"

definition sylvan_sym_destroy :: "inferior \<Rightarrow> ('w, 'm, sylvan_code \<times> inferior) lib" where
  "sylvan_sym_destroy i =
     bnd (sylvan_sym_table_destroy (inf_elf_table i)) (\<lambda>(code, t).
       let i = i\<lparr>inf_elf_table := t\<rparr> in
       if code \<noteq> SYLVANC_OK then ret (code, i)
       else bnd (sylvan_sym_table_destroy (inf_dwarf_table i)) (\<lambda>(code, t).
         let i = i\<lparr>inf_dwarf_table := t\<rparr> in
         if code \<noteq> SYLVANC_OK then ret (code, i) else ret (SYLVANC_OK, i)))"

text \<open>
  The new entry is written at index \<open>count\<close>, inside the array or not; its name is
  the copy \<open>strdup\<close> makes, if it makes one.
\<close>

definition sym_store :: "'w os \<Rightarrow> string \<Rightarrow> addr \<Rightarrow> sym_table \<Rightarrow> ('w, 'm, sylvan_code \<times> sym_table) lib" where
  "sym_store os name addr t =
     (case st_symbols t of
        None \<Rightarrow> undefined_behaviour
      | Some xs \<Rightarrow>
          bnd (sys (os_malloc os (length name + 1))) (\<lambda>r.
            if st_count t < st_alloc t
            then ret (SYLVANC_OK, t\<lparr>st_symbols := Some (xs @
                [\<lparr>sym_name = (case r of Inl _ \<Rightarrow> None | Inr _ \<Rightarrow> Some name), sym_addr = addr\<rparr>]),
              st_count := st_count t + 1\<rparr>)
            else undefined_behaviour))"

definition sylvan_sym_add :: "'w os \<Rightarrow> string \<Rightarrow> addr \<Rightarrow> sym_table \<Rightarrow> ('w, 'm, sylvan_code \<times> sym_table) lib" where
  "sylvan_sym_add os name addr t =
     (if st_count t = st_capacity t
      then let t = t\<lparr>st_capacity := 2 * st_capacity t\<rparr> in
        bnd (sys (os_malloc os (st_capacity t * SYMBOL_SIZE))) (\<lambda>r.
          case r of
            Inl _ \<Rightarrow> bnd (sylvan_set_code SYLVANC_OUT_OF_MEMORY) (\<lambda>c. ret (c, t))
          | Inr _ \<Rightarrow> sym_store os name addr
              (t\<lparr>st_alloc := st_capacity t, st_symbols := Some (case st_symbols t of None \<Rightarrow> [] | Some xs \<Rightarrow> xs)\<rparr>))
      else sym_store os name addr t)"

definition sym_lookup :: "sym_table \<Rightarrow> string \<Rightarrow> ('w, 'm, symbol option) lib" where
  "sym_lookup t name =
     (case bsearch_symbols \<lparr>sym_name = Some name, sym_addr = 0\<rparr>
             (case st_symbols t of None \<Rightarrow> [] | Some xs \<Rightarrow> xs) 0 (st_count t) of
        None \<Rightarrow> undefined_behaviour
      | Some r \<Rightarrow> ret r)"

definition sylvan_get_label_addr :: "string \<Rightarrow> ('w, 'm, sylvan_code \<times> addr option) lib" where
  "sylvan_get_label_addr name = bnd get_inf (\<lambda>i.
     bnd (sym_lookup (inf_dwarf_table i) name) (\<lambda>sym.
       case sym of
         Some y \<Rightarrow> ret (SYLVANC_OK, Some (sym_addr y))
       | None \<Rightarrow> bnd (sym_lookup (inf_elf_table i) name) (\<lambda>sym.
           case sym of
             Some y \<Rightarrow> ret (SYLVANC_OK, Some (sym_addr y))
           | None \<Rightarrow> bnd (sylvan_set_message SYLVANC_SYMBOL_NOT_FOUND ''%.256s not found'' [FStr name])
               (\<lambda>c. ret (c, None)))))"


section \<open>Loaders\<close>

definition DW_TAG_subprogram :: int where "DW_TAG_subprogram = 0x2e"
definition SHT_SYMTAB :: int where "SHT_SYMTAB = 2"
definition SHT_DYNSYM :: int where "SHT_DYNSYM = 11"
definition SHF_EXECINSTR :: "64 word" where "SHF_EXECINSTR = 4"

text \<open>The children of a unit; one without a tag ends the loop.\<close>

fun load_dies :: "'w os \<Rightarrow> dwarf_die list \<Rightarrow> sym_table \<Rightarrow> ('w, 'm, sym_table) lib" where
  "load_dies os [] t = ret t"
| "load_dies os (d # ds) t =
     (case die_tag d of
        None \<Rightarrow> ret t
      | Some tag \<Rightarrow>
          bnd (if tag = DW_TAG_subprogram
               then (case (die_name d, die_lowpc d) of
                       (Some name, Some lowpc) \<Rightarrow> bnd (sylvan_sym_add os name lowpc t) (\<lambda>(_, t). ret t)
                     | _ \<Rightarrow> ret t)
               else ret t)
            (load_dies os ds))"

fun load_units :: "'w os \<Rightarrow> dwarf_unit list \<Rightarrow> sym_table \<Rightarrow> ('w, 'm, sym_table) lib" where
  "load_units os [] t = ret t"
| "load_units os (UnitError # us) t = ret t"
| "load_units os (UnitNoChild # us) t = load_units os us t"
| "load_units os (UnitChildren ds # us) t = bnd (load_dies os ds t) (load_units os us)"

definition sylvan_sym_load_dwarf ::
  "'w os \<Rightarrow> string option \<Rightarrow> sym_table \<Rightarrow> ('w, 'm, sylvan_code \<times> sym_table) lib" where
  "sylvan_sym_load_dwarf os path t =
     bnd (extern (os_dwarf os path)) (\<lambda>r.
       case r of
         None \<Rightarrow> ret (SYLVANC_DWARF_NOT_FOUND, t)
       | Some us \<Rightarrow> bnd (load_units os us t) (\<lambda>t. ret (SYLVANC_OK, t)))"

text \<open>One entry of a symbol section.\<close>

definition load_elf_symbol :: "'w os \<Rightarrow> elf_symbol option \<Rightarrow> sym_table \<Rightarrow> ('w, 'm, sym_table) lib" where
  "load_elf_symbol os y t =
     (case y of
        None \<Rightarrow> ret t
      | Some y \<Rightarrow>
          (case es_flags y of
             None \<Rightarrow> ret t
           | Some fl \<Rightarrow>
               if fl AND SHF_EXECINSTR = 0 then ret t
               else (case es_name y of
                       Some (c # cs) \<Rightarrow> bnd (sylvan_sym_add os (c # cs) (es_value y) t) (\<lambda>(_, t). ret t)
                     | _ \<Rightarrow> ret t)))"

fun fold_prog :: "('a \<Rightarrow> 'b \<Rightarrow> ('s, 'b) prog) \<Rightarrow> 'a list \<Rightarrow> 'b \<Rightarrow> ('s, 'b) prog" where
  "fold_prog f [] b = ret b"
| "fold_prog f (x # xs) b = bnd (f x b) (fold_prog f xs)"

text \<open>A section: \<open>count\<close> is the quotient, cut to an \<open>int\<close>.\<close>

definition load_elf_section :: "'w os \<Rightarrow> elf_section \<Rightarrow> sym_table \<Rightarrow> ('w, 'm, sym_table) lib" where
  "load_elf_section os sc t =
     (if \<not> sh_ok sc then ret t
      else if sh_type sc \<noteq> SHT_SYMTAB \<and> sh_type sc \<noteq> SHT_DYNSYM then ret t
      else if \<not> sh_data_ok sc then ret t
      else if sh_entsize sc = 0 then undefined_behaviour
      else let count = sint (ucast (sh_size sc div sh_entsize sc) :: 32 word) in
        fold_prog (\<lambda>n. load_elf_symbol os (sh_syms sc n)) [0..<nat count] t)"

definition sylvan_sym_load_elf ::
  "'w os \<Rightarrow> string option \<Rightarrow> sym_table \<Rightarrow> ('w, 'm, sylvan_code \<times> sym_table) lib" where
  "sylvan_sym_load_elf os path t =
     bnd (extern (os_elf os path)) (\<lambda>e.
       if \<not> elf_version_ok e then bnd (sylvan_set_code SYLVANC_ELF_FAILED) (\<lambda>c. ret (c, t))
       else case elf_open e of
         Inl err \<Rightarrow> bnd (set_errno err) (\<lambda>_.
           bnd (sylvan_set_errno_msg os SYLVANC_ELF_FAILED ''open'' []) (\<lambda>c. ret (c, t)))
       | Inr _ \<Rightarrow>
           if \<not> elf_begin_ok e \<or> \<not> elf_shstrndx_ok e
           then bnd (sylvan_set_code SYLVANC_ELF_FAILED) (\<lambda>c. ret (c, t))
           else bnd (fold_prog (load_elf_section os) (elf_sections e) t) (\<lambda>t. ret (SYLVANC_OK, t)))"

text \<open>\<open>qsort\<close> of a table in place.\<close>

definition sort_table :: "sym_table \<Rightarrow> ('w, 'm, sym_table) lib" where
  "sort_table t =
     (case st_symbols t of
        None \<Rightarrow> ret t
      | Some xs \<Rightarrow> (case qsort_symbols xs of
                      None \<Rightarrow> undefined_behaviour
                    | Some ys \<Rightarrow> ret (t\<lparr>st_symbols := Some ys\<rparr>)))"

text \<open>The last part of \<open>sylvan_sym_load_tables\<close>: both tables sorted.\<close>

definition sym_sort_tables :: "('w, 'm, sylvan_code) lib" where
  "sym_sort_tables = bnd get_inf (\<lambda>i.
     bnd (sort_table (inf_dwarf_table i)) (\<lambda>d.
     bnd (sort_table (inf_elf_table i)) (\<lambda>e.
     bnd (upd_inf (\<lambda>i. i\<lparr>inf_dwarf_table := d, inf_elf_table := e\<rparr>)) (\<lambda>_.
       ret SYLVANC_OK))))"

text \<open>The part before it: the ELF symbols.\<close>

definition sym_load_elf_table :: "'w os \<Rightarrow> ('w, 'm, sylvan_code) lib" where
  "sym_load_elf_table os = bnd get_inf (\<lambda>i.
     bnd (sylvan_sym_load_elf os (inf_realpath i) (inf_elf_table i)) (\<lambda>(code, t).
     bnd (upd_inf (\<lambda>i. i\<lparr>inf_elf_table := t\<rparr>)) (\<lambda>_.
       if code \<noteq> SYLVANC_OK then ret code else sym_sort_tables)))"

definition sylvan_sym_load_tables :: "'w os \<Rightarrow> ('w, 'm, sylvan_code) lib" where
  "sylvan_sym_load_tables os = assert_inf (
     bnd get_inf (\<lambda>i.
     bnd (sylvan_sym_destroy i) (\<lambda>(_, i).
     bnd (sylvan_sym_init os i) (\<lambda>(_, i).
     bnd (upd_inf (\<lambda>_. i)) (\<lambda>_.
     bnd (sylvan_sym_load_dwarf os (inf_realpath i) (inf_dwarf_table i)) (\<lambda>(code, t).
     bnd (upd_inf (\<lambda>i. i\<lparr>inf_dwarf_table := t\<rparr>)) (\<lambda>_.
       if code \<noteq> SYLVANC_OK \<and> code \<noteq> SYLVANC_DWARF_NOT_FOUND then ret code
       else sym_load_elf_table os)))))))"

end
