(* ===== verification/Symbol_Lemmas.thy ===== *)
theory Symbol_Lemmas
  imports Symbols Breakpoint_Lemmas "HOL-Library.Multiset"
begin

text \<open>
  What \<open>symbol.c\<close> guarantees: the binary search is correct on a sorted table, the
  loaders append exactly the symbols the libraries deliver, loading leaves both
  tables sorted, and a lookup through the index interface finds a symbol where there
  is one, those of DWARF first.
\<close>

section \<open>strcmp is the order of the names\<close>

lemma of_char_eq: "(of_char c :: nat) = of_char d \<longleftrightarrow> c = d"
  by (metis char_of_char)

lemma strcmp_key:
  "(strcmp x y < 0) = (name_key x < name_key y)" "(0 < strcmp x y) = (name_key y < name_key x)"
  by (induction x y rule: strcmp.induct) (auto simp: name_key_def Let_def)

lemma name_key_inj [simp]: "name_key x = name_key y \<longleftrightarrow> x = y"
  by (auto simp: name_key_def inj_map_eq_map inj_def of_char_eq)

lemma strcmp_0: "strcmp x y = 0 \<longleftrightarrow> x = y"
  by (induction x y rule: strcmp.induct) (auto simp: Let_def of_char_eq)


section \<open>Binary search\<close>

definition named :: "symbol list \<Rightarrow> bool" where
  "named xs \<longleftrightarrow> (\<forall>y \<in> set xs. sym_name y \<noteq> None)"

lemma named_nth: "named xs \<Longrightarrow> n < length xs \<Longrightarrow> \<exists>x. sym_name (xs ! n) = Some x \<and> sym_key (xs ! n) = name_key x"
  by (auto simp: named_def sym_key_def)

lemma bsearch_correct:
  assumes named: "named xs" and sorted: "sorted (map sym_key xs)" and key: "sym_name key = Some name"
    and "u \<le> length xs" "\<And>n. n < l \<Longrightarrow> n < length xs \<Longrightarrow> sym_key (xs ! n) < name_key name"
    and "\<And>n. u \<le> n \<Longrightarrow> n < length xs \<Longrightarrow> name_key name < sym_key (xs ! n)"
  shows "\<exists>r. bsearch_symbols key xs l u = Some r \<and>
    (case r of Some y \<Rightarrow> y \<in> set xs \<and> sym_name y = Some name
     | None \<Rightarrow> \<forall>y \<in> set xs. sym_name y \<noteq> Some name)"
  using assms(4-6)
proof (induction "u - l" arbitrary: l u rule: less_induct)
  case less
  show ?case
  proof (cases "l < u")
    case False
    have "sym_name (xs ! n) \<noteq> Some name" if "n < length xs" for n
      using less.prems(2) [of n] less.prems(3) [of n] that False
      by (cases "n < l") (auto simp: sym_key_def)
    with False show ?thesis by (subst bsearch_symbols.simps) (auto simp: in_set_conv_nth)
  next
    case True
    define idx where "idx = (l + u) div 2"
    have idx: "l \<le> idx" "idx < u" "idx < length xs" using True less.prems(1) by (auto simp: idx_def)
    obtain x where x: "sym_name (xs ! idx) = Some x" "sym_key (xs ! idx) = name_key x"
      using named_nth [OF named idx(3)] by blast
    have mono: "sym_key (xs ! n) \<le> sym_key (xs ! m)" if "n \<le> m" "m < length xs" for n m
      using sorted_nth_mono [OF sorted that(1)] that by simp
    have unfold: "bsearch_symbols key xs l u =
      (if strcmp name x < 0 then bsearch_symbols key xs l idx
       else if 0 < strcmp name x then bsearch_symbols key xs (idx + 1) u
       else Some (Some (xs ! idx)))"
      using True by (subst bsearch_symbols.simps) (simp add: symcmp_def key x flip: idx_def)
    consider "name_key name < name_key x" | "name_key x < name_key name" | "name = x"
      using linorder_less_linear by fastforce
    then show ?thesis
    proof cases
      case 1
      have "name_key name < sym_key (xs ! n)" if "idx \<le> n" "n < length xs" for n
        using mono [OF that] 1 x(2) by simp
      then have "\<exists>r. bsearch_symbols key xs l idx = Some r \<and>
        (case r of Some y \<Rightarrow> y \<in> set xs \<and> sym_name y = Some name
         | None \<Rightarrow> \<forall>y \<in> set xs. sym_name y \<noteq> Some name)"
        using idx less.prems by (intro less.hyps) auto
      with 1 show ?thesis by (simp add: unfold strcmp_key)
    next
      case 2
      have "sym_key (xs ! n) < name_key name" if "n < idx + 1" "n < length xs" for n
        using mono [of n idx] idx(3) that 2 x(2) by simp
      then have "\<exists>r. bsearch_symbols key xs (idx + 1) u = Some r \<and>
        (case r of Some y \<Rightarrow> y \<in> set xs \<and> sym_name y = Some name
         | None \<Rightarrow> \<forall>y \<in> set xs. sym_name y \<noteq> Some name)"
        using idx less.prems by (intro less.hyps) auto
      with 2 less_not_sym [OF 2] show ?thesis by (simp add: unfold strcmp_key)
    next
      case 3
      have "strcmp name x = 0" using 3 by (simp add: strcmp_0)
      with idx x 3 show ?thesis by (simp add: unfold)
    qed
  qed
qed


section \<open>Well-formed tables\<close>

definition table_ok :: "sym_table \<Rightarrow> bool" where
  "table_ok t \<longleftrightarrow> (\<exists>xs. st_symbols t = Some xs \<and> named xs \<and> st_count t = length xs \<and>
     length xs \<le> st_capacity t \<and> st_capacity t = st_alloc t \<and> 0 < st_capacity t)"

text \<open>The contents, as the pairs of name and address in the order of the array.\<close>

definition contents :: "sym_table \<Rightarrow> symbol list" where
  "contents t = (case st_symbols t of None \<Rightarrow> [] | Some xs \<Rightarrow> xs)"

definition sym :: "string \<Rightarrow> addr \<Rightarrow> symbol" where
  "sym name a = \<lparr>sym_name = Some name, sym_addr = a\<rparr>"

text \<open>Allocation never fails.\<close>

definition malloc_succeeds :: "'w os \<Rightarrow> bool" where
  "malloc_succeeds os \<longleftrightarrow> (\<forall>n w. \<exists>w'. os_malloc os n w = (Inr (), w'))"

lemma malloc_succeedsE:
  assumes "malloc_succeeds os"
  obtains w' where "os_malloc os n w = (Inr (), w')"
  using assms unfolding malloc_succeeds_def by blast

text \<open>The functions of this component change nothing but the world.\<close>

definition world_only :: "('w, 'm) dbg_scheme \<Rightarrow> ('w, 'm) dbg_scheme \<Rightarrow> bool" where
  "world_only s s' \<longleftrightarrow> (\<exists>w. s' = s\<lparr>world := w\<rparr>)"

lemma world_only_refl [simp]: "world_only s s"
  unfolding world_only_def by (rule exI [of _ "world s"]) simp

lemma world_only_update [simp]: "world_only s (s\<lparr>world := w\<rparr>)"
  unfolding world_only_def by (rule exI [of _ w]) simp

lemma world_only_trans: "world_only s t \<Longrightarrow> world_only t u \<Longrightarrow> world_only s u"
  by (auto simp: world_only_def)

lemma wp_malloc:
  assumes "malloc_succeeds os" "\<And>w. Q (Inr ()) (s\<lparr>world := w\<rparr>)"
  shows "wp (sys (os_malloc os n)) Q s"
proof -
  obtain w where "os_malloc os n (world s) = (Inr (), w)" using assms(1) by (rule malloc_succeedsE)
  with assms(2) show ?thesis by (simp add: wp_simps)
qed

lemma table_init_spec:
  "malloc_succeeds os \<Longrightarrow> wp (sylvan_sym_table_init os t)
     (\<lambda>(c, t') s'. c = SYLVANC_OK \<and> table_ok t' \<and> contents t' = [] \<and> world_only s s') s"
  unfolding sylvan_sym_table_init_def wp_bnd
  by (rule wp_malloc) (simp_all add: wp_simps table_ok_def named_def contents_def)

text \<open>What the destructor needs of a table.\<close>

definition freeable :: "sym_table \<Rightarrow> bool" where
  "freeable t \<longleftrightarrow> st_count t = 0 \<or> st_symbols t \<noteq> None"

lemma table_ok_freeable: "table_ok t \<Longrightarrow> freeable t"
  by (auto simp: table_ok_def freeable_def)

text \<open>What a search of a table needs: its entries are in the array and have names.\<close>

definition searchable :: "sym_table \<Rightarrow> bool" where
  "searchable t \<longleftrightarrow> named (contents t) \<and> st_count t \<le> length (contents t)"

lemma table_ok_searchable: "table_ok t \<Longrightarrow> searchable t"
  by (auto simp: table_ok_def searchable_def contents_def)

lemma searchable_freeable: "searchable t \<Longrightarrow> freeable t"
  by (cases "st_symbols t") (auto simp: searchable_def freeable_def contents_def)

lemma bsearch_returns:
  assumes "named xs" "sym_name key = Some name" "u \<le> length xs"
  shows "bsearch_symbols key xs l u \<noteq> None"
  using assms
proof (induction key xs l u rule: bsearch_symbols.induct)
  case (1 key xs l u)
  show ?case
  proof (cases "l < u")
    case True
    then have "(l + u) div 2 < length xs" using 1(5) by simp
    then obtain x where x: "sym_name (xs ! ((l + u) div 2)) = Some x"
      using named_nth [OF 1(3)] by blast
    show ?thesis
      using True 1 x by (subst bsearch_symbols.simps) (auto simp: symcmp_def Let_def)
  qed (simp add: bsearch_symbols.simps)
qed

lemma wp_searchable:
  assumes "searchable t" "\<And>r. Q r s"
  shows "wp (sym_lookup t name) Q s"
proof -
  have "bsearch_symbols \<lparr>sym_name = Some name, sym_addr = 0\<rparr> (contents t) 0 (st_count t) \<noteq> None"
    using assms(1) by (intro bsearch_returns) (auto simp: searchable_def)
  with assms(2) show ?thesis by (auto simp: sym_lookup_def wp_simps simp flip: contents_def split: option.splits)
qed

definition freed :: "sym_table \<Rightarrow> sym_table" where
  "freed t = t\<lparr>st_capacity := 0, st_count := 0, st_symbols := None, st_alloc := 0\<rparr>"

lemma freeable_freed: "freeable (freed t)"
  by (simp add: freeable_def freed_def)

lemma sym_destroy_spec:
  "freeable (inf_elf_table i) \<Longrightarrow> freeable (inf_dwarf_table i) \<Longrightarrow>
     wp (sylvan_sym_destroy i) (\<lambda>(c, i') s'. s' = s \<and> c = SYLVANC_OK \<and>
       (\<exists>e d. i' = i\<lparr>inf_elf_table := e, inf_dwarf_table := d\<rparr> \<and> freeable e \<and> freeable d)) s"
proof -
  assume "freeable (inf_elf_table i)" "freeable (inf_dwarf_table i)"
  then have "wp (sylvan_sym_destroy i) (\<lambda>(c, i') s'. s' = s \<and> c = SYLVANC_OK \<and>
      i' = i\<lparr>inf_elf_table := freed (inf_elf_table i), inf_dwarf_table := freed (inf_dwarf_table i)\<rparr>) s"
    by (auto simp: sylvan_sym_destroy_def sylvan_sym_table_destroy_def wp_simps freeable_def Let_def freed_def)
  then show ?thesis
  proof (rule wp_mono, goal_cases)
    case (1 r s')
    moreover have "\<exists>e d. i\<lparr>inf_elf_table := freed (inf_elf_table i), inf_dwarf_table := freed (inf_dwarf_table i)\<rparr> =
        i\<lparr>inf_elf_table := e, inf_dwarf_table := d\<rparr> \<and> freeable e \<and> freeable d"
      by (rule exI, rule exI, rule conjI, rule refl) (simp add: freeable_freed)
    ultimately show ?case by (simp add: split_beta)
  qed
qed

lemma store_spec:
  assumes os: "malloc_succeeds os" and t: "st_symbols t = Some xs" "named xs" "st_count t = length xs"
    "length xs < st_capacity t" "st_capacity t = st_alloc t"
  shows "wp (sym_store os name a t)
    (\<lambda>(c, t') s'. c = SYLVANC_OK \<and> table_ok t' \<and> contents t' = xs @ [sym name a] \<and> world_only s s') s"
  unfolding sym_store_def t(1) option.case wp_bnd
  by (rule wp_malloc [OF os]) (use t in \<open>auto simp: wp_simps table_ok_def named_def contents_def sym_def\<close>)

lemma add_spec:
  assumes os: "malloc_succeeds os" and t: "table_ok t"
  shows "wp (sylvan_sym_add os name a t)
    (\<lambda>(c, t') s'. c = SYLVANC_OK \<and> table_ok t' \<and> contents t' = contents t @ [sym name a] \<and> world_only s s') s"
proof -
  obtain xs where xs: "st_symbols t = Some xs" "named xs" "st_count t = length xs" "length xs \<le> st_capacity t"
      "st_capacity t = st_alloc t" "0 < st_capacity t" "contents t = xs"
    using t by (auto simp: table_ok_def contents_def)
  show ?thesis
  proof (cases "st_count t = st_capacity t")
    case False
    with xs show ?thesis
      using store_spec [OF os xs(1-3)] by (simp add: sylvan_sym_add_def)
  next
    case True
    let ?t = "t\<lparr>st_capacity := 2 * st_capacity t\<rparr>"
    let ?u = "?t\<lparr>st_alloc := st_capacity ?t, st_symbols := Some xs\<rparr>"
    have store: "wp (sym_store os name a ?u) (\<lambda>(c, t') s'. c = SYLVANC_OK \<and> table_ok t' \<and>
        contents t' = xs @ [sym name a] \<and> world_only u s') u" for u :: "('a, 'b) dbg_scheme"
      using xs True by (intro store_spec [OF os]) simp_all
    have "wp (sym_store os name a ?u) (\<lambda>(c, t') s'. c = SYLVANC_OK \<and> table_ok t' \<and>
        contents t' = contents t @ [sym name a] \<and> world_only s s') (s\<lparr>world := w\<rparr>)" for w
      by (rule wp_mono [OF store]) (auto simp: xs(7) world_only_def)
    with True xs show ?thesis
      by (simp add: sylvan_sym_add_def wp_bnd Let_def) (rule wp_malloc [OF os], simp)
  qed
qed


section \<open>What the loaders find\<close>

fun die_symbols :: "dwarf_die list \<Rightarrow> symbol list" where
  "die_symbols [] = []"
| "die_symbols (d # ds) =
     (case die_tag d of
        None \<Rightarrow> []
      | Some tag \<Rightarrow>
          (case (die_name d, die_lowpc d) of
             (Some name, Some a) \<Rightarrow> if tag = DW_TAG_subprogram then [sym name a] else []
           | _ \<Rightarrow> []) @ die_symbols ds)"

fun unit_symbols :: "dwarf_unit list \<Rightarrow> symbol list" where
  "unit_symbols [] = []"
| "unit_symbols (UnitError # us) = []"
| "unit_symbols (UnitNoChild # us) = unit_symbols us"
| "unit_symbols (UnitChildren ds # us) = die_symbols ds @ unit_symbols us"

definition elf_entry :: "elf_symbol option \<Rightarrow> symbol list" where
  "elf_entry y = (case y of
     None \<Rightarrow> []
   | Some y \<Rightarrow> (case (es_flags y, es_name y) of
       (Some fl, Some name) \<Rightarrow> if fl AND SHF_EXECINSTR \<noteq> 0 \<and> name \<noteq> [] then [sym name (es_value y)] else []
     | _ \<Rightarrow> []))"

definition section_entries :: "elf_section \<Rightarrow> nat" where
  "section_entries sc = nat (sint (ucast (sh_size sc div sh_entsize sc) :: 32 word))"

definition section_symbols :: "elf_section \<Rightarrow> symbol list" where
  "section_symbols sc =
     (if sh_ok sc \<and> sh_type sc \<in> {SHT_SYMTAB, SHT_DYNSYM} \<and> sh_data_ok sc
      then concat (map (\<lambda>n. elf_entry (sh_syms sc n)) [0..<section_entries sc]) else [])"

text \<open>The program appends \<open>f x\<close> to the table.\<close>

definition appends :: "(sym_table \<Rightarrow> ('w, 'm, sym_table) lib) \<Rightarrow> symbol list \<Rightarrow> bool" where
  "appends p ys \<longleftrightarrow> (\<forall>t s. table_ok t \<longrightarrow>
     wp (p t) (\<lambda>t' s'. table_ok t' \<and> contents t' = contents t @ ys \<and> world_only s s') s)"

lemma appendsD: "appends p ys \<Longrightarrow> table_ok t \<Longrightarrow>
  wp (p t) (\<lambda>t' s'. table_ok t' \<and> contents t' = contents t @ ys \<and> world_only s s') s"
  by (simp add: appends_def)

lemma appends_ret: "appends ret []" "appends (\<lambda>t. ret t) []"
  by (simp_all add: appends_def wp_simps)

lemma appends_bnd: "appends p xs \<Longrightarrow> appends q ys \<Longrightarrow> appends (\<lambda>t. bnd (p t) q) (xs @ ys)"
  unfolding appends_def
  by (intro allI impI, rule wp_bndI, blast)
    (elim conjE, rule wp_mono, blast, auto intro: world_only_trans)

lemma appends_add: "malloc_succeeds os \<Longrightarrow>
  appends (\<lambda>t. bnd (sylvan_sym_add os name a t) (\<lambda>(_, t). ret t)) [sym name a]"
  by (auto simp: appends_def wp_simps intro!: wp_mono [OF add_spec])

lemma appends_fold:
  "(\<And>x. x \<in> set xs \<Longrightarrow> appends (f x) (g x)) \<Longrightarrow> appends (fold_prog f xs) (concat (map g xs))"
proof (induction xs)
  case Nil
  then show ?case by (simp add: appends_ret)
next
  case (Cons x xs)
  then have "appends (\<lambda>t. bnd (f x t) (fold_prog f xs)) (g x @ concat (map g xs))"
    by (intro appends_bnd) simp_all
  then show ?case by simp
qed

lemma appends_dies: "malloc_succeeds os \<Longrightarrow> appends (load_dies os ds) (die_symbols ds)"
proof (induction ds)
  case Nil
  then show ?case by (simp add: appends_ret)
next
  case (Cons d ds)
  note IH = Cons.IH [OF Cons.prems] and add = appends_add [OF Cons.prems]
  show ?case
  proof (cases "die_tag d")
    case None
    then show ?thesis by (simp add: appends_ret)
  next
    case (Some tag)
    have "appends (\<lambda>t. if tag = DW_TAG_subprogram
               then (case (die_name d, die_lowpc d) of
                       (Some name, Some lowpc) \<Rightarrow> bnd (sylvan_sym_add os name lowpc t) (\<lambda>(_, t). ret t)
                     | _ \<Rightarrow> ret t)
               else ret t)
      (case (die_name d, die_lowpc d) of
             (Some name, Some a) \<Rightarrow> if tag = DW_TAG_subprogram then [sym name a] else []
           | _ \<Rightarrow> [])"
      using add appends_ret by (cases "tag = DW_TAG_subprogram") (auto split: option.splits)
    from appends_bnd [OF this IH] Some show ?thesis by simp
  qed
qed

lemma appends_units: "malloc_succeeds os \<Longrightarrow> appends (load_units os us :: sym_table \<Rightarrow> ('w, 'm, sym_table) lib) (unit_symbols us)"
proof (induction us rule: unit_symbols.induct)
  case (3 us)
  then have "appends (load_units os us :: sym_table \<Rightarrow> ('w, 'm, sym_table) lib) (unit_symbols us)" by blast
  moreover have "load_units os (UnitNoChild # us) = (load_units os us :: sym_table \<Rightarrow> ('w, 'm, sym_table) lib)" by (rule ext) simp
  ultimately show ?case by simp
next
  case (4 ds us)
  then have "appends (\<lambda>t. bnd (load_dies os ds t) (load_units os us :: sym_table \<Rightarrow> ('w, 'm, sym_table) lib))
      (die_symbols ds @ unit_symbols us)"
    by (intro appends_bnd appends_dies)
  then show ?case by simp
qed (simp_all add: appends_def wp_simps)

lemma appends_elf_symbol: "malloc_succeeds os \<Longrightarrow> appends (load_elf_symbol os y) (elf_entry y)"
  unfolding load_elf_symbol_def elf_entry_def
  by (cases y; simp add: appends_ret; cases "es_flags (the y)"; cases "es_name (the y)";
      cases "the (es_name (the y))"; simp add: appends_ret appends_add cong: if_cong)

text \<open>
  A symbol table states the size of its entries. Other sections, such as the text, have the
  entry size zero, which the code never divides by.
\<close>

definition entries_sized :: "elf_section \<Rightarrow> bool" where
  "entries_sized sc \<longleftrightarrow> (sh_type sc \<in> {SHT_SYMTAB, SHT_DYNSYM} \<longrightarrow> sh_entsize sc \<noteq> 0)"

lemma appends_section:
  assumes "malloc_succeeds os" "entries_sized sc"
  shows "appends (load_elf_section os sc :: sym_table \<Rightarrow> ('w, 'm, sym_table) lib) (section_symbols sc)"
proof (cases "sh_ok sc \<and> sh_type sc \<in> {SHT_SYMTAB, SHT_DYNSYM} \<and> sh_data_ok sc")
  case True
  let ?load = "(fold_prog (\<lambda>n. load_elf_symbol os (sh_syms sc n)) [0..<section_entries sc] :: sym_table \<Rightarrow> ('w, 'm, sym_table) lib)"
  have "appends ?load
      (concat (map (\<lambda>n. elf_entry (sh_syms sc n)) [0..<section_entries sc]))"
    using assms(1) by (intro appends_fold appends_elf_symbol)
  moreover have "load_elf_section os sc = ?load"
    using True assms(2) by (auto simp: load_elf_section_def section_entries_def entries_sized_def Let_def fun_eq_iff)
  ultimately show ?thesis using True by (simp add: section_symbols_def)
next
  case False
  then have "load_elf_section os sc = (ret :: sym_table \<Rightarrow> ('w, 'm, sym_table) lib)" by (auto simp: load_elf_section_def fun_eq_iff)
  with False show ?thesis by (auto simp: section_symbols_def appends_ret)
qed


lemma appends_sections:
  "malloc_succeeds os \<Longrightarrow> \<forall>sc \<in> set scs. entries_sized sc \<Longrightarrow>
     appends (fold_prog (load_elf_section os) scs) (concat (map section_symbols scs))"
  by (intro appends_fold appends_section) simp_all


section \<open>Loading both tables\<close>

text \<open>An ELF file that \<open>libelf\<close> reads without error, and whose symbol tables state their entry size.\<close>

definition elf_readable :: "elf_file \<Rightarrow> bool" where
  "elf_readable e \<longleftrightarrow> elf_version_ok e \<and> elf_open e = Inr () \<and> elf_begin_ok e \<and> elf_shstrndx_ok e \<and>
     (\<forall>sc \<in> set (elf_sections e). entries_sized sc)"

definition elf_symbols :: "elf_file \<Rightarrow> symbol list" where
  "elf_symbols e = concat (map section_symbols (elf_sections e))"

definition dwarf_symbols :: "dwarf_unit list option \<Rightarrow> symbol list" where
  "dwarf_symbols d = (case d of None \<Rightarrow> [] | Some us \<Rightarrow> unit_symbols us)"

text \<open>The libraries answer the same in every world.\<close>

definition debug_info :: "'w os \<Rightarrow> string option \<Rightarrow> dwarf_unit list option \<Rightarrow> elf_file \<Rightarrow> bool" where
  "debug_info os path d e \<longleftrightarrow> (\<forall>w. fst (os_dwarf os path w) = d \<and> fst (os_elf os path w) = e)"

text \<open>A sorted table, as the search expects it.\<close>

definition sorted_table :: "sym_table \<Rightarrow> bool" where
  "sorted_table t \<longleftrightarrow> table_ok t \<and> sorted (map sym_key (contents t))"

lemma load_dwarf_spec:
  assumes "malloc_succeeds os" "fst (os_dwarf os path (world s)) = d" "table_ok t" "contents t = []"
  shows "wp (sylvan_sym_load_dwarf os path t) (\<lambda>(c, t') s'. c \<in> {SYLVANC_OK, SYLVANC_DWARF_NOT_FOUND} \<and>
    table_ok t' \<and> contents t' = dwarf_symbols d \<and> world_only s s') s"
proof -
  obtain w where w: "os_dwarf os path (world s) = (d, w)" using assms(2) by (metis prod.collapse)
  show ?thesis
  proof (cases d)
    case None
    with w assms(3,4) show ?thesis by (simp add: sylvan_sym_load_dwarf_def wp_simps dwarf_symbols_def)
  next
    case (Some us)
    have "wp (load_units os us t) (\<lambda>t' s'. table_ok t' \<and> contents t' = contents t @ unit_symbols us \<and>
        world_only (s\<lparr>world := w\<rparr>) s') (s\<lparr>world := w\<rparr>)"
      using assms by (intro appendsD [OF appends_units]) simp_all
    then have "wp (load_units os us t) (\<lambda>t' s'. table_ok t' \<and> contents t' = dwarf_symbols d \<and>
        world_only s s') (s\<lparr>world := w\<rparr>)"
      by (rule wp_mono) (auto simp: Some dwarf_symbols_def assms(4) world_only_def)
    with Some w show ?thesis by (simp add: sylvan_sym_load_dwarf_def wp_simps)
  qed
qed

lemma load_elf_spec:
  assumes "malloc_succeeds os" "fst (os_elf os path (world s)) = e" "elf_readable e" "table_ok t" "contents t = []"
  shows "wp (sylvan_sym_load_elf os path t) (\<lambda>(c, t') s'. c = SYLVANC_OK \<and>
    table_ok t' \<and> contents t' = elf_symbols e \<and> world_only s s') s"
proof -
  obtain w where w: "os_elf os path (world s) = (e, w)" using assms(2) by (metis prod.collapse)
  have "wp (fold_prog (load_elf_section os) (elf_sections e) t) (\<lambda>t' s'. table_ok t' \<and>
      contents t' = contents t @ concat (map section_symbols (elf_sections e)) \<and>
      world_only (s\<lparr>world := w\<rparr>) s') (s\<lparr>world := w\<rparr>)"
    using assms by (intro appendsD [OF appends_sections]) (simp_all add: elf_readable_def)
  then have "wp (fold_prog (load_elf_section os) (elf_sections e) t)
      (\<lambda>t' s'. table_ok t' \<and> contents t' = elf_symbols e \<and> world_only s s') (s\<lparr>world := w\<rparr>)"
    by (rule wp_mono) (auto simp: elf_symbols_def assms(5) world_only_def)
  with w assms(3) show ?thesis by (simp add: sylvan_sym_load_elf_def wp_simps elf_readable_def)
qed

lemma sym_init_spec:
  assumes "malloc_succeeds os"
  shows "wp (sylvan_sym_init os i) (\<lambda>(c, i') s'. c = SYLVANC_OK \<and> world_only s s' \<and>
    (\<exists>e d. i' = i\<lparr>inf_elf_table := e, inf_dwarf_table := d\<rparr> \<and> table_ok e \<and> table_ok d \<and>
      contents e = [] \<and> contents d = [])) s"
  unfolding sylvan_sym_init_def
  by (rule wp_bndI [OF table_init_spec [OF assms]])
    (auto simp: wp_simps Let_def intro!: wp_mono [OF table_init_spec [OF assms]] intro: world_only_trans)

lemma sort_table_spec:
  assumes "table_ok t"
  shows "wp (sort_table t) (\<lambda>t' s'. s' = s \<and> sorted_table t' \<and> mset (contents t') = mset (contents t)) s"
proof -
  obtain xs where xs: "st_symbols t = Some xs" "named xs" "st_count t = length xs" "length xs \<le> st_capacity t"
      "st_capacity t = st_alloc t" "0 < st_capacity t" "contents t = xs"
    using assms by (auto simp: table_ok_def contents_def)
  have "qsort_symbols xs = Some (sort_key sym_key xs)"
    using xs(2) by (auto simp: qsort_symbols_def named_def)
  with xs show ?thesis
    by (auto simp: sort_table_def wp_simps sorted_table_def table_ok_def contents_def named_def)
qed


text \<open>
  The three parts of loading, in the order of the code. \<open>tables_loaded\<close> is what the
  whole leaves: both tables sorted, with the symbols the libraries delivered.
\<close>

definition with_tables :: "inferior \<Rightarrow> sym_table \<Rightarrow> sym_table \<Rightarrow> 'w \<Rightarrow> ('w, 'm) dbg_scheme \<Rightarrow> ('w, 'm) dbg_scheme" where
  "with_tables i d e w s = s\<lparr>infp := InfLive (i\<lparr>inf_dwarf_table := d, inf_elf_table := e\<rparr>), world := w\<rparr>"

definition tables_loaded ::
  "inferior \<Rightarrow> dwarf_unit list option \<Rightarrow> elf_file \<Rightarrow> ('w, 'm) dbg_scheme \<Rightarrow> ('w, 'm) dbg_scheme \<Rightarrow> bool" where
  "tables_loaded i d e s s' \<longleftrightarrow> (\<exists>w dt et. s' = with_tables i dt et w s \<and> sorted_table dt \<and> sorted_table et \<and>
     mset (contents dt) = mset (dwarf_symbols d) \<and> mset (contents et) = mset (elf_symbols e))"

lemma with_tables_infp: "infp (with_tables i dt et w s) = InfLive (i\<lparr>inf_dwarf_table := dt, inf_elf_table := et\<rparr>)"
  by (simp add: with_tables_def)

lemma with_tables_upd:
  "(with_tables i dt et w s)\<lparr>infp := InfLive (i\<lparr>inf_dwarf_table := d, inf_elf_table := e\<rparr>)\<rparr> = with_tables i d e w s"
  "(with_tables i dt et w s)\<lparr>infp := InfLive (i\<lparr>inf_elf_table := e, inf_dwarf_table := d\<rparr>)\<rparr> = with_tables i d e w s"
  by (simp_all add: with_tables_def)

lemma wp_with_tables:
  "wp (upd_inf (\<lambda>i. i\<lparr>inf_dwarf_table := d\<rparr>)) Q (with_tables i dt et w s) = Q () (with_tables i d et w s)"
  "wp (upd_inf (\<lambda>i. i\<lparr>inf_elf_table := e\<rparr>)) Q (with_tables i dt et w s) = Q () (with_tables i dt e w s)"
  "wp (upd_inf (\<lambda>i. i\<lparr>inf_dwarf_table := d, inf_elf_table := e\<rparr>)) Q (with_tables i dt et w s) =
     Q () (with_tables i d e w s)"
  "infp (with_tables i dt et w s) = InfLive (i\<lparr>inf_dwarf_table := dt, inf_elf_table := et\<rparr>)"
  by (simp_all add: wp_upd_inf with_tables_infp with_tables_upd)

lemma sort_tables_spec:
  assumes "table_ok dt" "table_ok et" "contents dt = dwarf_symbols d" "contents et = elf_symbols e"
  shows "wp sym_sort_tables (\<lambda>c s'. c = SYLVANC_OK \<and> tables_loaded i d e s s') (with_tables i dt et w s)"
proof -
  have "wp (bnd (sort_table dt) (\<lambda>d. bnd (sort_table et) (\<lambda>e.
      bnd (upd_inf (\<lambda>i. i\<lparr>inf_dwarf_table := d, inf_elf_table := e\<rparr>)) (\<lambda>_. ret SYLVANC_OK))))
    (\<lambda>c s'. c = SYLVANC_OK \<and> tables_loaded i d e s s') (with_tables i dt et w s)"
    by (intro wp_bndI [OF sort_table_spec [OF assms(1)]] wp_bndI [OF sort_table_spec [OF assms(2)]])
      (use assms in \<open>auto simp: wp_with_tables wp_bnd wp_ret tables_loaded_def\<close>)
  then show ?thesis by (simp add: sym_sort_tables_def wp_bnd wp_get_inf wp_with_tables)
qed

lemma load_elf_table_spec:
  assumes os: "malloc_succeeds os" "debug_info os (inf_realpath i) d e" "elf_readable e"
    and t: "table_ok dt" "table_ok et" "contents dt = dwarf_symbols d" "contents et = []"
  shows "wp (sym_load_elf_table os) (\<lambda>c s'. c = SYLVANC_OK \<and> tables_loaded i d e s s') (with_tables i dt et w s)"
proof -
  have "fst (os_elf os (inf_realpath i) (world (with_tables i dt et w s))) = e"
    using os(2) by (simp add: debug_info_def)
  from load_elf_spec [OF os(1) this os(3) t(2,4)]
  have "wp (sylvan_sym_load_elf os (inf_realpath i) et) (\<lambda>(c, t') s'. c = SYLVANC_OK \<and> table_ok t' \<and>
      contents t' = elf_symbols e \<and> (\<exists>w'. s' = with_tables i dt et w' s)) (with_tables i dt et w s)"
    by (rule wp_mono) (auto simp: world_only_def with_tables_def)
  then have "wp (bnd (sylvan_sym_load_elf os (inf_realpath i) et) (\<lambda>(code, t).
     bnd (upd_inf (\<lambda>i. i\<lparr>inf_elf_table := t\<rparr>)) (\<lambda>_. if code \<noteq> SYLVANC_OK then ret code else sym_sort_tables)))
      (\<lambda>c s'. c = SYLVANC_OK \<and> tables_loaded i d e s s') (with_tables i dt et w s)"
    by (rule wp_bndI) (use sort_tables_spec [OF t(1) _ t(3)] in
        \<open>auto simp: wp_with_tables wp_bnd split: prod.splits\<close>)
  then show ?thesis by (simp add: sym_load_elf_table_def wp_bnd wp_get_inf wp_with_tables)
qed

lemma init_tables:
  assumes "world_only s s'" "infp s = InfLive i"
  obtains w where "\<And>Q. wp (upd_inf (\<lambda>_. i\<lparr>inf_elf_table := e, inf_dwarf_table := d\<rparr>)) Q s' = Q () (with_tables i d e w s)"
proof -
  obtain w where "s' = s\<lparr>world := w\<rparr>" using assms(1) by (auto simp: world_only_def)
  moreover have "s\<lparr>world := w, infp := InfLive (i\<lparr>inf_elf_table := e, inf_dwarf_table := d\<rparr>)\<rparr> = with_tables i d e w s"
    by (simp add: with_tables_def)
  ultimately have "wp (upd_inf (\<lambda>_. i\<lparr>inf_elf_table := e, inf_dwarf_table := d\<rparr>)) Q s' = Q () (with_tables i d e w s)" for Q
    using assms(2) by (simp add: wp_upd_inf)
  then show ?thesis by (rule that)
qed

lemma load_tables_spec:
  assumes os: "malloc_succeeds os" "debug_info os (inf_realpath i) d e" "elf_readable e"
    and s: "infp s = InfLive i" "freeable (inf_elf_table i)" "freeable (inf_dwarf_table i)"
  shows "wp (sylvan_sym_load_tables os) (\<lambda>c s'. c = SYLVANC_OK \<and> tables_loaded i d e s s') s"
proof -
  have dwarf: "wp (bnd (sylvan_sym_load_dwarf os (inf_realpath i) dt) (\<lambda>(code, t).
     bnd (upd_inf (\<lambda>i. i\<lparr>inf_dwarf_table := t\<rparr>)) (\<lambda>_.
       if code \<noteq> SYLVANC_OK \<and> code \<noteq> SYLVANC_DWARF_NOT_FOUND then ret code else sym_load_elf_table os)))
      (\<lambda>c s'. c = SYLVANC_OK \<and> tables_loaded i d e s s') (with_tables i dt et w s)"
    if t: "table_ok dt" "table_ok et" "contents dt = []" "contents et = []" for dt et w
  proof -
    have "fst (os_dwarf os (inf_realpath i) (world (with_tables i dt et w s))) = d"
      using os(2) by (simp add: debug_info_def)
    from load_dwarf_spec [OF os(1) this t(1,3)]
    have "wp (sylvan_sym_load_dwarf os (inf_realpath i) dt) (\<lambda>(c, t') s'. c \<in> {SYLVANC_OK, SYLVANC_DWARF_NOT_FOUND} \<and>
        table_ok t' \<and> contents t' = dwarf_symbols d \<and> (\<exists>w'. s' = with_tables i dt et w' s)) (with_tables i dt et w s)"
      by (rule wp_mono) (auto simp: world_only_def with_tables_def)
    then show ?thesis
      by (rule wp_bndI) (use load_elf_table_spec [OF os _ t(2) _ t(4)] in
          \<open>auto simp: wp_with_tables wp_bnd split: prod.splits\<close>)
  qed
  have "wp (bnd (sylvan_sym_destroy i) (\<lambda>(_, i). bnd (sylvan_sym_init os i) (\<lambda>(_, i).
     bnd (upd_inf (\<lambda>_. i)) (\<lambda>_.
     bnd (sylvan_sym_load_dwarf os (inf_realpath i) (inf_dwarf_table i)) (\<lambda>(code, t).
     bnd (upd_inf (\<lambda>i. i\<lparr>inf_dwarf_table := t\<rparr>)) (\<lambda>_.
       if code \<noteq> SYLVANC_OK \<and> code \<noteq> SYLVANC_DWARF_NOT_FOUND then ret code
       else sym_load_elf_table os))))))
    (\<lambda>c s'. c = SYLVANC_OK \<and> tables_loaded i d e s s') s"
  proof (rule wp_bndI [OF sym_destroy_spec [OF s(2,3)]], clarsimp, rule wp_bndI [OF sym_init_spec [OF os(1)]], clarsimp)
    fix e0 d0 s' e1 d1
    assume "world_only s s'" and t: "table_ok e1" "table_ok d1" "contents e1 = []" "contents d1 = []"
    obtain w where "\<And>Q. wp (upd_inf (\<lambda>_. i\<lparr>inf_elf_table := e1, inf_dwarf_table := d1\<rparr>)) Q s' =
        Q () (with_tables i d1 e1 w s)"
      using init_tables [OF \<open>world_only s s'\<close> s(1)] by blast
    then show "wp (bnd (upd_inf (\<lambda>_. i\<lparr>inf_elf_table := e1, inf_dwarf_table := d1\<rparr>)) (\<lambda>_.
     bnd (sylvan_sym_load_dwarf os (inf_realpath i) d1) (\<lambda>(code, t).
     bnd (upd_inf (\<lambda>i. i\<lparr>inf_dwarf_table := t\<rparr>)) (\<lambda>_.
       if code \<noteq> SYLVANC_OK \<and> code \<noteq> SYLVANC_DWARF_NOT_FOUND then ret code
       else sym_load_elf_table os)))) (\<lambda>c s'. c = SYLVANC_OK \<and> tables_loaded i d e s s') s'"
      using dwarf [OF t(2,1,4,3)] by (simp add: wp_bnd [of "upd_inf f" for f])
  qed
  with s show ?thesis
    unfolding sylvan_sym_load_tables_def wp_assert_inf wp_bnd [of get_inf] wp_get_inf by simp
qed


section \<open>Lookup as an index\<close>

definition table_lookup :: "sym_table \<Rightarrow> string \<Rightarrow> symbol option" where
  "table_lookup t name =
     (case bsearch_symbols \<lparr>sym_name = Some name, sym_addr = 0\<rparr> (contents t) 0 (st_count t) of
        None \<Rightarrow> None | Some r \<Rightarrow> r)"

lemma table_lookup_cases:
  assumes "sorted_table t"
  shows "bsearch_symbols \<lparr>sym_name = Some name, sym_addr = 0\<rparr> (contents t) 0 (st_count t) = Some (table_lookup t name)"
    and "case table_lookup t name of Some y \<Rightarrow> y \<in> set (contents t) \<and> sym_name y = Some name
         | None \<Rightarrow> \<forall>y \<in> set (contents t). sym_name y \<noteq> Some name"
proof -
  have t: "named (contents t)" "sorted (map sym_key (contents t))" "st_count t = length (contents t)"
    using assms by (auto simp: sorted_table_def table_ok_def contents_def)
  obtain r where r: "bsearch_symbols \<lparr>sym_name = Some name, sym_addr = 0\<rparr> (contents t) 0 (st_count t) = Some r"
      "case r of Some y \<Rightarrow> y \<in> set (contents t) \<and> sym_name y = Some name
       | None \<Rightarrow> \<forall>y \<in> set (contents t). sym_name y \<noteq> Some name"
    using bsearch_correct [OF t(1,2), of "\<lparr>sym_name = Some name, sym_addr = 0\<rparr>" name "st_count t" 0] t(3) by auto
  then show "bsearch_symbols \<lparr>sym_name = Some name, sym_addr = 0\<rparr> (contents t) 0 (st_count t) = Some (table_lookup t name)"
    and "case table_lookup t name of Some y \<Rightarrow> y \<in> set (contents t) \<and> sym_name y = Some name
         | None \<Rightarrow> \<forall>y \<in> set (contents t). sym_name y \<noteq> Some name"
    by (simp_all add: table_lookup_def)
qed

lemma wp_lookup: "sorted_table t \<Longrightarrow> wp (sym_lookup t name) Q s = Q (table_lookup t name) s"
  by (simp add: sym_lookup_def wp_simps table_lookup_cases(1) flip: contents_def)

text \<open>
  The interface the command layer uses: an index answers a name with one of its
  entries of that name, and with none only where there is none.
\<close>

locale symbol_index =
  fixes lookup :: "'t \<Rightarrow> string \<Rightarrow> symbol option" and entries :: "'t \<Rightarrow> symbol set" and ok :: "'t \<Rightarrow> bool"
  assumes sound: "ok t \<Longrightarrow> lookup t name = Some y \<Longrightarrow> y \<in> entries t \<and> sym_name y = Some name"
    and complete: "ok t \<Longrightarrow> lookup t name = None \<Longrightarrow> y \<in> entries t \<Longrightarrow> sym_name y \<noteq> Some name"
begin

text \<open>The first index that knows the name answers.\<close>

definition resolve :: "'t \<Rightarrow> 't \<Rightarrow> string \<Rightarrow> addr option" where
  "resolve d e name =
     (case lookup d name of Some y \<Rightarrow> Some (sym_addr y) | None \<Rightarrow> map_option sym_addr (lookup e name))"

lemma resolve_None:
  "ok d \<Longrightarrow> ok e \<Longrightarrow> resolve d e name = None \<longleftrightarrow> (\<forall>y \<in> entries d \<union> entries e. sym_name y \<noteq> Some name)"
proof -
  assume ok: "ok d" "ok e"
  have "resolve d e name = None \<longleftrightarrow> lookup d name = None \<and> lookup e name = None"
    by (auto simp: resolve_def split: option.splits)
  moreover have "lookup t name = None \<longleftrightarrow> (\<forall>y \<in> entries t. sym_name y \<noteq> Some name)" if "ok t" for t
    using sound [OF that] complete [OF that] by (cases "lookup t name") blast+
  ultimately show ?thesis using ok by blast
qed

lemma resolve_Some:
  assumes "ok d" "ok e" "resolve d e name = Some a"
  shows "\<exists>y. sym_name y = Some name \<and> sym_addr y = a \<and>
    (y \<in> entries d \<or> y \<in> entries e \<and> (\<forall>z \<in> entries d. sym_name z \<noteq> Some name))"
  using assms sound complete by (auto simp: resolve_def split: option.splits)

text \<open>Where names are unique, the answer depends on the entries only.\<close>

lemma resolve_unique:
  assumes "ok d" "ok e" "y \<in> entries d" "sym_name y = Some name"
    "\<And>z. z \<in> entries d \<Longrightarrow> sym_name z = Some name \<Longrightarrow> sym_addr z = sym_addr y"
  shows "resolve d e name = Some (sym_addr y)"
proof (cases "lookup d name")
  case None
  then show ?thesis using complete [OF assms(1) None assms(3)] assms(4) by simp
next
  case (Some z)
  then have "sym_addr z = sym_addr y" using sound [OF assms(1) Some] assms(5) by blast
  with Some show ?thesis by (simp add: resolve_def)
qed

end

interpretation table_index: symbol_index table_lookup "\<lambda>t. set (contents t)" sorted_table
proof
  fix t name y
  assume "sorted_table t" "table_lookup t name = Some y"
  then show "y \<in> set (contents t) \<and> sym_name y = Some name"
    using table_lookup_cases(2) [of t name] by simp
next
  fix t name y
  assume "sorted_table t" "table_lookup t name = None" "y \<in> set (contents t)"
  then show "sym_name y \<noteq> Some name"
    using table_lookup_cases(2) [of t name] by simp
qed

lemma fmt_not_found: "cformat ''%.256s not found'' [FStr t] = Some (take 256 t @ '' not found'')"
  by (simp add: format_simps pad_def)

lemma wp_get_label_addr:
  assumes "infp s = InfLive i" "sorted_table (inf_dwarf_table i)" "sorted_table (inf_elf_table i)"
  shows "wp (sylvan_get_label_addr name) (\<lambda>(c, r) s'. r = table_index.resolve (inf_dwarf_table i) (inf_elf_table i) name \<and>
    c = (if r = None then SYLVANC_SYMBOL_NOT_FOUND else SYLVANC_OK) \<and> infp s' = infp s \<and> world s' = world s \<and>
    lib_frame s s') s"
  using assms
  by (cases "table_lookup (inf_dwarf_table i) name"; cases "table_lookup (inf_elf_table i) name")
    (simp_all add: sylvan_get_label_addr_def wp_simps wp_lookup table_index.resolve_def snprintf_def fmt_not_found)

end
