(* ===== verification/Paths.thy ===== *)
theory Paths
  imports Breakpoints
begin

text \<open>
  \<open>lib/sylvan/utils.c\<close>: canonical paths. A result parameter that is untouched on
  failure is \<open>None\<close> there.
\<close>

definition sylvan_real_path :: "'w os \<Rightarrow> string \<Rightarrow> ('w, 'm, sylvan_code \<times> string option) lib" where
  "sylvan_real_path os filepath =
     bnd (sys (os_realpath os filepath)) (\<lambda>r.
       case r of
         Inl e \<Rightarrow>
           if e = ENOENT then bnd (sylvan_set_code SYLVANC_FILE_NOT_FOUND) (\<lambda>c. ret (c, None))
           else bnd (sylvan_set_errno_msg os SYLVANC_SYSTEM_ERROR ''real path'' []) (\<lambda>c. ret (c, None))
       | Inr path \<Rightarrow> ret (SYLVANC_OK, Some path))"

text \<open>The loop over the directories of \<open>PATH\<close>.\<close>

fun search_PATH :: "'w os \<Rightarrow> string \<Rightarrow> string list \<Rightarrow> ('w, 'm, sylvan_code \<times> string option) lib" where
  "search_PATH os command [] = bnd (sylvan_set_code SYLVANC_FILE_NOT_FOUND) (\<lambda>c. ret (c, None))"
| "search_PATH os command (token # tokens) =
     bnd (sys (os_malloc os (length token + 1 + length command + 1))) (\<lambda>r.
       case r of
         Inl _ \<Rightarrow> bnd (sylvan_set_code SYLVANC_OUT_OF_MEMORY) (\<lambda>c. ret (c, None))
       | Inr _ \<Rightarrow>
           let full_path = token @ CHR ''/'' # command in
           bnd (sys (os_access_x os full_path)) (\<lambda>r.
             case r of
               Inr _ \<Rightarrow> ret (SYLVANC_OK, Some full_path)
             | Inl _ \<Rightarrow> search_PATH os command tokens))"

definition sylvan_find_in_PATH :: "'w os \<Rightarrow> string \<Rightarrow> ('w, 'm, sylvan_code \<times> string option) lib" where
  "sylvan_find_in_PATH os command =
     bnd (gets (\<lambda>s. os_getenv_PATH os (world s))) (\<lambda>p.
       case p of
         None \<Rightarrow> bnd (sylvan_set_code SYLVANC_FILE_NOT_FOUND) (\<lambda>c. ret (c, None))
       | Some path \<Rightarrow>
           bnd (sys (os_malloc os (length path + 1))) (\<lambda>r.
             case r of
               Inl _ \<Rightarrow> bnd (sylvan_set_code SYLVANC_OUT_OF_MEMORY) (\<lambda>c. ret (c, None))
             | Inr _ \<Rightarrow> search_PATH os command (strtok_all (CHR '':'') path)))"

definition sylvan_canonical_path :: "'w os \<Rightarrow> string \<Rightarrow> ('w, 'm, sylvan_code \<times> string option) lib" where
  "sylvan_canonical_path os filepath =
     bnd (sylvan_real_path os filepath) (\<lambda>(code, path).
       if code = SYLVANC_OK then ret (SYLVANC_OK, path)
       else if code \<noteq> SYLVANC_FILE_NOT_FOUND then ret (code, None)
       else bnd (sylvan_find_in_PATH os filepath) (\<lambda>(code, path).
         if code \<noteq> SYLVANC_OK then ret (code, None) else ret (SYLVANC_OK, path)))"

text \<open>\<open>sprintf\<close> into \<open>exepath[64]\<close>: a pid has at most eleven characters.\<close>

definition sylvan_real_path_pid :: "'w os \<Rightarrow> pid \<Rightarrow> ('w, 'm, sylvan_code \<times> string option) lib" where
  "sylvan_real_path_pid os pid =
     (case cformat ''/proc/%d/exe'' [FInt pid] of
        None \<Rightarrow> undefined_behaviour
      | Some exepath \<Rightarrow> if length exepath < 64 then sylvan_real_path os exepath else undefined_behaviour)"


section \<open>What they find\<close>

text \<open>
  Whether \<open>access\<close> allows execution, where \<open>realpath\<close> leads and what \<open>PATH\<close> is,
  the same in every world; allocation never fails.
\<close>

definition filesystem ::
  "'w os \<Rightarrow> (string \<Rightarrow> bool) \<Rightarrow> (string \<Rightarrow> string option) \<Rightarrow> string option \<Rightarrow> bool" where
  "filesystem os executable canonical PATH \<longleftrightarrow>
     (\<forall>f w. (\<exists>w'. os_access_x os f w = (if executable f then Inr () else Inl ENOENT, w')) \<and>
            (\<exists>w'. os_realpath os f w = (case canonical f of Some p \<Rightarrow> Inr p | None \<Rightarrow> Inl ENOENT, w'))) \<and>
     (\<forall>n w. \<exists>w'. os_malloc os n w = (Inr (), w')) \<and> (\<forall>w. os_getenv_PATH os w = PATH)"

lemma filesystem_calls:
  assumes "filesystem os executable canonical PATH"
  obtains w1 w2 w3 where
    "os_access_x os f w = (if executable f then Inr () else Inl ENOENT, w1)"
    "os_realpath os f w = (case canonical f of Some p \<Rightarrow> Inr p | None \<Rightarrow> Inl ENOENT, w2)"
    "os_malloc os n w = (Inr (), w3)" "os_getenv_PATH os w = PATH"
  using assms unfolding filesystem_def by blast

text \<open>The specification: the file itself, or the first executable in \<open>PATH\<close>.\<close>

definition path_candidates :: "string option \<Rightarrow> string \<Rightarrow> string list" where
  "path_candidates PATH command = map (\<lambda>dir. dir @ ''/'' @ command)
     (case PATH of None \<Rightarrow> [] | Some p \<Rightarrow> strtok_all (CHR '':'') p)"

definition resolve_command ::
  "(string \<Rightarrow> bool) \<Rightarrow> (string \<Rightarrow> string option) \<Rightarrow> string option \<Rightarrow> string \<Rightarrow> string option" where
  "resolve_command executable canonical PATH f =
     (case canonical f of Some p \<Rightarrow> Some p | None \<Rightarrow> find executable (path_candidates PATH f))"

definition path_result :: "string option \<Rightarrow> sylvan_code \<times> string option" where
  "path_result r = (if r = None then SYLVANC_FILE_NOT_FOUND else SYLVANC_OK, r)"

lemma path_result_simps [simp]:
  "path_result None = (SYLVANC_FILE_NOT_FOUND, None)" "path_result (Some p) = (SYLVANC_OK, Some p)"
  by (simp_all add: path_result_def)

lemma search_PATH_spec:
  assumes fs: "filesystem os executable canonical PATH"
  shows "wp (search_PATH os command tokens)
    (\<lambda>r s'. r = path_result (find executable (map (\<lambda>dir. dir @ ''/'' @ command) tokens)) \<and> infp s' = infp s) s"
proof (induction tokens arbitrary: s)
  case Nil
  then show ?case by (simp add: wp_simps)
next
  case (Cons token tokens)
  obtain w3 where m: "os_malloc os (length token + 1 + length command + 1) (world s) = (Inr (), w3)"
    using fs by (rule filesystem_calls)
  let ?p = "token @ CHR ''/'' # command"
  obtain w1 where x: "os_access_x os ?p w3 = (if executable ?p then Inr () else Inl ENOENT, w1)"
    using fs by (rule filesystem_calls)
  from m x show ?case
    by (cases "executable ?p") (auto simp: wp_simps Let_def intro!: wp_mono [OF Cons.IH])
qed

lemma canonical_path_spec:
  assumes fs: "filesystem os executable canonical PATH"
  shows "wp (sylvan_canonical_path os f)
    (\<lambda>r s'. r = path_result (resolve_command executable canonical PATH f) \<and> infp s' = infp s) s"
proof -
  obtain w2 where rp: "os_realpath os f (world s) = (case canonical f of Some p \<Rightarrow> Inr p | None \<Rightarrow> Inl ENOENT, w2)"
    using fs by (rule filesystem_calls)
  have PATH: "wp (sylvan_find_in_PATH os f) (\<lambda>r s'. r = path_result (find executable (path_candidates PATH f)) \<and>
      infp s' = infp t) t" for t :: "('a, 'b) dbg_scheme"
  proof (cases PATH)
    case None
    moreover have "os_getenv_PATH os (world t) = PATH" using fs by (rule filesystem_calls)
    ultimately show ?thesis
      by (simp add: sylvan_find_in_PATH_def wp_simps path_candidates_def)
  next
    case (Some path)
    obtain w3 where m: "os_malloc os (length path + 1) (world t) = (Inr (), w3)"
      using fs by (rule filesystem_calls)
    have "os_getenv_PATH os (world t) = PATH" using fs by (rule filesystem_calls)
    with Some m show ?thesis
      by (auto simp: sylvan_find_in_PATH_def wp_simps path_candidates_def intro!: wp_mono [OF search_PATH_spec [OF fs]])
  qed
  show ?thesis
    using rp by (cases "canonical f")
      (auto simp: sylvan_canonical_path_def sylvan_real_path_def wp_simps resolve_command_def
        path_result_def intro!: wp_mono [OF PATH] split: if_splits)
qed

end
