(* ===== verification/Inferior.thy ===== *)
theory Inferior
  imports Breakpoints Symbols Paths
begin

text \<open>
  \<open>lib/sylvan/inferior.c\<close>: the life of the debugged process. Every caller passes a
  null \<open>status\<close> pointer to the functions that update the state, so the raw wait
  status is not an output here. Forking follows the parent; what the child does
  is \<open>handle_child\<close> below, which the parent sees through the pipe and \<open>waitpid\<close>.
\<close>

section \<open>The state of the process\<close>

text \<open>\<open>waitpid\<close> returned -1 and set \<open>errno\<close> to \<open>e\<close>.\<close>

definition status_lost :: "'w os \<Rightarrow> inferior \<Rightarrow> int \<Rightarrow> ('w, 'm, sylvan_code) lib" where
  "status_lost os i e =
     (if e \<noteq> ECHILD then sylvan_set_errno_msg os SYLVANC_WAITPID_FAILED ''waitpid'' []
      else bnd (sys (os_kill os (inf_pid i) 0)) (\<lambda>k.
        case k of
          Inr _ \<Rightarrow> sylvan_set_message SYLVANC_PROC_NOT_ATTACHED
            ''Process %d exists but is not being traced'' [FInt (inf_pid i)]
        | Inl e \<Rightarrow>
            if e \<noteq> ESRCH
            then sylvan_set_errno_msg os SYLVANC_SYSTEM_ERROR (''Can'' @ [CHR 0x27] @ ''t check process status'') []
            else bnd (upd_inf (\<lambda>i. i\<lparr>inf_status := SYLVAN_INFSTATE_NONE, inf_pid := 0, inf_is_attached := False\<rparr>)) (\<lambda>_.
              bnd get_inf (\<lambda>i. sylvan_set_message SYLVANC_PROC_NOT_FOUND
                (''Process %d doesn'' @ [CHR 0x27] @ ''t exist'') [FInt (inf_pid i)]))))"

text \<open>The process is stopped, and the caller waits for the reason.\<close>

definition stop_reason :: "'w os \<Rightarrow> inferior \<Rightarrow> ('w, 'm, sylvan_code) lib" where
  "stop_reason os i =
     bnd (sys (os_getsiginfo os (inf_pid i))) (\<lambda>r.
       case r of
         Inl _ \<Rightarrow> sylvan_set_errno_msg os SYLVANC_PTRACE_ERROR ''ptrace get siginfo'' []
       | Inr si_code \<Rightarrow> bnd (sys (os_getregs os (inf_pid i))) (\<lambda>r.
           case r of
             Inl _ \<Rightarrow> sylvan_set_errno_msg os SYLVANC_PTRACE_GETREGS_FAILED ''ptrace get regs'' []
           | Inr regs \<Rightarrow>
               if si_code \<noteq> SI_KERNEL
               then sylvan_set_message SYLVANC_PROC_STOPPED ''program stopped at %#lx'' [FLong (regs rip_cell)]
               else bnd (sylvan_breakpoint_find_by_addr (regs rip_cell - 1)) (\<lambda>(code, p).
                 case p of
                   None \<Rightarrow> ret SYLVANC_OK
                 | Some idx \<Rightarrow> bnd (get_bp idx) (\<lambda>b.
                     sylvan_set_message SYVLANC_BREAKPOINT_HIT ''breakpoint %d at %#lx''
                       [FInt (int idx), FLong (bp_addr b)]))))"

text \<open>\<open>waitpid\<close> reported the status \<open>st\<close>.\<close>

definition status_reported :: "'w os \<Rightarrow> inferior \<Rightarrow> bool \<Rightarrow> wait_status \<Rightarrow> ('w, 'm, sylvan_code) lib" where
  "status_reported os i blocking st =
     (if WIFEXITED st
      then bnd (upd_inf (\<lambda>i. i\<lparr>inf_status := SYLVAN_INFSTATE_EXITED, inf_pid := 0\<rparr>)) (\<lambda>_.
        sylvan_set_message SYLVANC_PROC_EXITED ''Process %d exited with code %d''
          [FInt (inf_pid i), FInt (uint (WEXITSTATUS st))])
      else if WIFSIGNALED st
      then bnd (upd_inf (\<lambda>i. i\<lparr>inf_status := SYLVAN_INFSTATE_TERMINATED, inf_pid := 0\<rparr>)) (\<lambda>_.
        bnd get_inf (\<lambda>i. sylvan_set_message SYLVANC_PROC_TERMINATED ''Process %d terminated by signal %d''
          [FInt (inf_pid i), FInt (uint (WTERMSIG st))]))
      else if WIFSTOPPED st
      then bnd (upd_inf (\<lambda>i. i\<lparr>inf_status := SYLVAN_INFSTATE_STOPPED\<rparr>)) (\<lambda>_.
        if \<not> blocking then ret SYLVANC_OK else stop_reason os i)
      else if WIFCONTINUED st
      then bnd (upd_inf (\<lambda>i. i\<lparr>inf_status := SYLVAN_INFSTATE_RUNNING\<rparr>)) (\<lambda>_. ret SYLVANC_OK)
      else assertion_failed)"

definition sylvan_update_inf_status :: "'w os \<Rightarrow> bool \<Rightarrow> ('w, 'm, sylvan_code) lib" where
  "sylvan_update_inf_status os blocking = assert_inf (bnd get_inf (\<lambda>i.
     if inf_pid i \<le> 0 then sylvan_set_message SYLVANC_INVALID_STATE ''Program is not being run'' []
     else bnd (sys_retry (os_waitpid os (inf_pid i) (\<not> blocking))) (\<lambda>r.
       case r of
         Inl e \<Rightarrow> status_lost os i e
       | Inr (res, st) \<Rightarrow> if res = 0 then ret SYLVANC_OK else status_reported os i blocking st)))"

definition sylvan_update_wait_status :: "wait_status \<Rightarrow> ('w, 'm, unit) lib" where
  "sylvan_update_wait_status status = assert_inf (
     if WIFSTOPPED status then upd_inf (\<lambda>i. i\<lparr>inf_status := SYLVAN_INFSTATE_STOPPED\<rparr>)
     else if WIFEXITED status then upd_inf (\<lambda>i. i\<lparr>inf_status := SYLVAN_INFSTATE_EXITED\<rparr>)
     else if WIFSIGNALED status then upd_inf (\<lambda>i. i\<lparr>inf_status := SYLVAN_INFSTATE_TERMINATED\<rparr>)
     else if WIFCONTINUED status then upd_inf (\<lambda>i. i\<lparr>inf_status := SYLVAN_INFSTATE_RUNNING\<rparr>)
     else assertion_failed)"

text \<open>\<open>inf->is_attached = false; inf->pid = 0; inf->status = SYLVAN_INFSTATE_NONE;\<close>\<close>

definition forget_process :: "inferior \<Rightarrow> inferior" where
  "forget_process i = i\<lparr>inf_is_attached := False, inf_pid := 0, inf_status := SYLVAN_INFSTATE_NONE\<rparr>"

definition sylvan_kill :: "'w os \<Rightarrow> ('w, 'm, sylvan_code) lib" where
  "sylvan_kill os = check_inf (bnd get_inf (\<lambda>i.
     if \<not> isactive i then ret SYLVANC_OK
     else bnd (sys (os_kill os (inf_pid i) SIGKILL)) (\<lambda>r.
       case r of
         Inl e \<Rightarrow>
           if e \<noteq> ESRCH then sylvan_set_errno_msg os SYLVANC_KILL_FAILED ''kill'' []
           else bnd (upd_inf forget_process) (\<lambda>_. ret SYLVANC_OK)
       | Inr _ \<Rightarrow> bnd (sys_retry (os_waitpid os (inf_pid i) False)) (\<lambda>r.
           case r of
             Inl _ \<Rightarrow> sylvan_set_errno_msg os SYLVANC_WAITPID_FAILED ''waitpid'' []
           | Inr _ \<Rightarrow> bnd (upd_inf forget_process) (\<lambda>_. ret SYLVANC_OK)))))"

text \<open>The end of \<open>sylvan_detach\<close>, after the breakpoints were removed.\<close>

definition detach_release :: "'w os \<Rightarrow> ('w, 'm, sylvan_code) lib" where
  "detach_release os = bnd get_inf (\<lambda>i.
     bnd (sys (os_detach os (inf_pid i))) (\<lambda>r.
       case r of
         Inl e \<Rightarrow>
           if e \<noteq> ESRCH then sylvan_set_errno_msg os SYLVANC_PTRACE_DETACH_FAILED ''ptrace detach'' []
           else bnd (upd_inf forget_process) (\<lambda>_. ret SYLVANC_OK)
       | Inr _ \<Rightarrow> bnd (upd_inf forget_process) (\<lambda>_. ret SYLVANC_OK)))"

definition sylvan_detach :: "'w os \<Rightarrow> ('w, 'm, sylvan_code) lib" where
  "sylvan_detach os = check_inf (bnd get_inf (\<lambda>i.
     if \<not> inf_is_attached i then sylvan_set_message SYLVANC_PROC_NOT_ATTACHED ''Process is not being traced'' []
     else bnd (sylvan_update_inf_status os False) (\<lambda>code.
       if code = SYLVANC_PROC_EXITED \<or> code = SYLVANC_PROC_TERMINATED then ret SYLVANC_OK
       else if code \<noteq> SYLVANC_OK then ret code
       else on_ok (sylvan_breakpoint_unsetall_phybp os) (detach_release os))))"

definition sylvan_terminate_or_detach :: "'w os \<Rightarrow> ('w, 'm, sylvan_code) lib" where
  "sylvan_terminate_or_detach os = assert_inf (bnd get_inf (\<lambda>i.
     if \<not> isactive i then ret SYLVANC_OK
     else bnd (if \<not> inf_is_attached i then sylvan_kill os else sylvan_detach os) (\<lambda>code.
       if code = SYLVANC_OK \<or> code = SYLVANC_PROC_NOT_FOUND \<or> code = SYLVANC_PROC_EXITED
          \<or> code = SYLVANC_PROC_TERMINATED
       then ret SYLVANC_OK else ret code)))"


section \<open>Creation and destruction\<close>

definition INFERIOR_SIZE :: nat where "INFERIOR_SIZE = 4192"

definition zero_breakpoint :: breakpoint where
  "zero_breakpoint = \<lparr>bp_addr = 0, og_byte = 0, is_enabled_log = False, is_enabled_phy = False\<rparr>"

definition zero_table :: sym_table where
  "zero_table = \<lparr>st_symbols = None, st_count = 0, st_capacity = 0, st_alloc = 0\<rparr>"

definition zero_inferior :: inferior where
  "zero_inferior = \<lparr>inf_id = 0, inf_pid = 0, inf_status = SYLVAN_INFSTATE_NONE, inf_realpath = None,
     inf_args = None, inf_is_attached = False, inf_breakpoints = replicate MAX_BREAKPOINTS zero_breakpoint,
     inf_breakpoint_count = 0, inf_elf_table = zero_table, inf_dwarf_table = zero_table\<rparr>"

text \<open>The pointer argument is not null; it is assigned on success only.\<close>

definition sylvan_inferior_create :: "'w os \<Rightarrow> ('w, 'm, sylvan_code) lib" where
  "sylvan_inferior_create os =
     bnd (sys (os_malloc os INFERIOR_SIZE)) (\<lambda>r.
       case r of
         Inl _ \<Rightarrow> sylvan_set_code SYLVANC_OUT_OF_MEMORY
       | Inr _ \<Rightarrow> bnd (sylvan_sym_init os zero_inferior) (\<lambda>(code, i).
           if code \<noteq> SYLVANC_OK then ret code
           else bnd (gets sylvan_inferior_idx) (\<lambda>idx.
             bnd (modify (\<lambda>s. s\<lparr>sylvan_inferior_idx := idx + 1,
                   sylvan_inferior_count := sylvan_inferior_count s + 1,
                   infp := InfLive (i\<lparr>inf_id := idx\<rparr>)\<rparr>)) (\<lambda>_.
               ret SYLVANC_OK))))"

definition sylvan_inferior_destroy :: "'w os \<Rightarrow> ('w, 'm, sylvan_code) lib" where
  "sylvan_inferior_destroy os = check_inf (
     on_ok (sylvan_terminate_or_detach os) (
       bnd get_inf (\<lambda>i.
       bnd (sylvan_sym_destroy i) (\<lambda>(code, i).
         bnd (upd_inf (\<lambda>_. i)) (\<lambda>_.
         if code \<noteq> SYLVANC_OK then ret code
         else bnd (modify (\<lambda>s. s\<lparr>infp := InfFreed, sylvan_inferior_count := sylvan_inferior_count s - 1\<rparr>)) (\<lambda>_.
           ret SYLVANC_OK))))))"


section \<open>Attaching\<close>

text \<open>The end of \<open>sylvan_attach\<close>, from the assignments on.\<close>

definition attach_finish :: "'w os \<Rightarrow> pid \<Rightarrow> string option \<Rightarrow> ('w, 'm, sylvan_code) lib" where
  "attach_finish os pid path =
     bnd (upd_inf (\<lambda>i. i\<lparr>inf_pid := pid, inf_is_attached := True, inf_realpath := path\<rparr>)) (\<lambda>_.
       on_ok (sylvan_sym_load_tables os) (
       on_ok sylvan_breakpoint_reset_phybp (
       on_ok (sylvan_breakpoint_setall_phybp os) (ret SYLVANC_OK))))"

text \<open>The part before it: waiting for the process to stop.\<close>

definition attach_wait :: "'w os \<Rightarrow> pid \<Rightarrow> string option \<Rightarrow> ('w, 'm, sylvan_code) lib" where
  "attach_wait os pid path =
     bnd (sys_retry (os_waitpid os pid False)) (\<lambda>r.
       case r of
         Inl e \<Rightarrow>
           if e = ECHILD then sylvan_set_message SYLVANC_PROC_NOT_FOUND ''Process %d disappeared during attach'' [FInt pid]
           else sylvan_set_errno_msg os SYLVANC_WAITPID_FAILED ''waitpid'' []
       | Inr (_, status) \<Rightarrow>
           if WIFSTOPPED status
           then bnd (upd_inf (\<lambda>i. i\<lparr>inf_status := SYLVAN_INFSTATE_STOPPED\<rparr>)) (\<lambda>_. attach_finish os pid path)
           else if WIFCONTINUED status
           then bnd (upd_inf (\<lambda>i. i\<lparr>inf_status := SYLVAN_INFSTATE_RUNNING\<rparr>)) (\<lambda>_. attach_finish os pid path)
           else if WIFEXITED status
           then sylvan_set_message SYLVANC_PROC_EXITED ''Process %d exited during attach'' [FInt pid]
           else if WIFSIGNALED status
           then sylvan_set_message SYLVANC_PROC_TERMINATED ''Process %d terminated during attach'' [FInt pid]
           else assertion_failed)"

definition sylvan_attach :: "'w os \<Rightarrow> pid \<Rightarrow> ('w, 'm, sylvan_code) lib" where
  "sylvan_attach os pid = check_inf (
     bnd (sys (os_kill os pid 0)) (\<lambda>r.
       case r of
         Inl e \<Rightarrow>
           if e = ESRCH then sylvan_set_message SYLVANC_PROC_NOT_FOUND ''Process %d does not exist'' [FInt pid]
           else sylvan_set_errno_msg os SYLVANC_SYSTEM_ERROR ''Check process existence'' []
       | Inr _ \<Rightarrow>
           on_ok (sylvan_terminate_or_detach os) (
             bnd (sys (os_attach os pid)) (\<lambda>r.
               case r of
                 Inl e \<Rightarrow>
                   if e = EPERM then sylvan_set_message SYLVANC_PTRACE_ATTACH_FAILED
                     ''Permission denied to attach to process %d'' [FInt pid]
                   else if e = ESRCH then sylvan_set_message SYLVANC_PROC_NOT_FOUND
                     ''Process %d does not exist'' [FInt pid]
                   else sylvan_set_errno_msg os SYLVANC_PTRACE_ATTACH_FAILED ''ptrace attach'' []
               | Inr _ \<Rightarrow>
                   bnd (sylvan_real_path_pid os pid) (\<lambda>(_, path). attach_wait os pid path)))))"


section \<open>Running\<close>

text \<open>
  The child: what the calls it makes answer, what it writes to the pipe, and how it
  ends. \<open>wordexp\<close> answers its error or the argument vector. \<open>cc_heap_junk\<close> is what
  the allocated block and the memory after it hold behind the copied path, up to
  the first NUL: without arguments the copy is not terminated. With an empty
  argument string its terminator is written behind the block.
\<close>

record child_calls =
  cc_close_read :: bool
  cc_traceme :: "int + unit"
  cc_malloc :: bool
  cc_heap_junk :: string
  cc_wordexp :: "string \<Rightarrow> int + string list"
  cc_errno :: int
  cc_dprintf :: bool
  cc_close_write :: bool
  cc_execvp :: bool

datatype child_end = ChildExit int | ChildExec string "string list" | ChildUB

definition ENOMEM :: int where "ENOMEM = 12"
definition WRDE_NOSPACE :: int where "WRDE_NOSPACE = 1"

definition exit_child :: "child_calls \<Rightarrow> sylvan_code \<Rightarrow> int \<Rightarrow> string \<times> child_end" where
  "exit_child cc code err =
     (if \<not> cc_dprintf cc then ([], ChildExit 1)
      else (dec_string (code_num code) @ '' '' @ dec_string err,
            if cc_close_write cc then ChildExit 0 else ChildExit 1))"

definition handle_child :: "child_calls \<Rightarrow> string \<Rightarrow> string option \<Rightarrow> string \<times> child_end" where
  "handle_child cc realpath arguments =
     (if \<not> cc_close_read cc then ([], ChildExit 1)
      else case cc_traceme cc of
        Inl e \<Rightarrow> exit_child cc SYLVANC_PTRACE_ERROR e
      | Inr _ \<Rightarrow>
          if \<not> cc_malloc cc then exit_child cc SYLVANC_OUT_OF_MEMORY ENOMEM
          else
            let exec = (\<lambda>argv. if \<not> cc_close_write cc then ([], ChildExit 1)
                  else if cc_execvp cc then ([], ChildExec realpath argv) else ([], ChildExit 1)) in
            case arguments of
              None \<Rightarrow> exec [realpath @ cc_heap_junk cc]
            | Some a \<Rightarrow>
                if a = [] then ([], ChildUB)
                else (case cc_wordexp cc (realpath @ '' '' @ a) of
                   Inl res \<Rightarrow> exit_child cc (if res = WRDE_NOSPACE then SYLVANC_OUT_OF_MEMORY else SYLVANC_INVALID_ARGUMENT)
                     (cc_errno cc)
                 | Inr argv \<Rightarrow> exec argv))"

text \<open>\<open>sscanf(buf, "%d %d", ...)\<close>: \<open>None\<close> unless both conversions are made.\<close>

definition scan_int :: "string \<Rightarrow> (int \<times> string) option" where
  "scan_int s = (case strtol 10 s of (v, rest, _) \<Rightarrow>
     if rest = s then None else Some (sint (word_of_int v :: 32 word), rest))"

definition scan_two_ints :: "string \<Rightarrow> (int \<times> int) option" where
  "scan_two_ints s =
     (case scan_int s of
        None \<Rightarrow> None
      | Some (x, rest) \<Rightarrow> (case scan_int rest of None \<Rightarrow> None | Some (y, _) \<Rightarrow> Some (x, y)))"

text \<open>
  The buffer is not terminated: what is scanned runs on into the stack, up to the
  first NUL.
\<close>

definition pipe_buffer :: "'w os \<Rightarrow> 'w \<Rightarrow> string \<Rightarrow> string" where
  "pipe_buffer os w t = takeWhile (\<lambda>c. c \<noteq> CHR 0x00) (t @ os_stack_junk os w)"

definition child_report :: "'w os \<Rightarrow> string \<Rightarrow> ('w, 'm, sylvan_code) lib" where
  "child_report os t = bnd (gets (\<lambda>s. pipe_buffer os (world s) t)) (\<lambda>buf.
     case scan_two_ints buf of
       None \<Rightarrow> sylvan_set_message SYLVANC_SYSTEM_ERROR ''parse child error message'' []
     | Some (code, child_errno) \<Rightarrow>
         bnd (set_errno child_errno) (\<lambda>_.
           if child_errno = code_num SYLVANC_PTRACE_ERROR
           then sylvan_set_errno_msg os SYLVANC_PTRACE_ERROR ''ptrace in child'' []
           else if child_errno = code_num SYLVANC_OUT_OF_MEMORY
           then sylvan_set_code SYLVANC_OUT_OF_MEMORY
           else if child_errno = code_num SYLVANC_INVALID_ARGUMENT
           then sylvan_set_message SYLVANC_INVALID_ARGUMENT ''Invalid arguments for child process'' []
           else if child_errno = code_num SYLVANC_FILE_NOT_FOUND
           then sylvan_set_message SYLVANC_FILE_NOT_FOUND ''Executable file not found'' []
           else sylvan_set_code (code_of_int code)))"

text \<open>The rest of \<open>handle_parent\<close>, where the child wrote nothing.\<close>

definition parent_wait :: "'w os \<Rightarrow> pid \<Rightarrow> ('w, 'm, sylvan_code) lib" where
  "parent_wait os pid =
     bnd (sys_retry (os_waitpid os pid False)) (\<lambda>r.
       case r of
         Inl _ \<Rightarrow> sylvan_set_errno_msg os SYLVANC_WAITPID_FAILED ''waitpid'' []
       | Inr (_, status) \<Rightarrow>
           if WIFEXITED status
           then sylvan_set_message SYLVANC_PROC_CHILD ''Child process exited with code %d'' [FInt (uint (WEXITSTATUS status))]
           else bnd (sylvan_update_wait_status status) (\<lambda>_.
             bnd (upd_inf (\<lambda>i. i\<lparr>inf_pid := pid, inf_is_attached := False\<rparr>)) (\<lambda>_.
             on_ok sylvan_breakpoint_reset_phybp (
             on_ok (sylvan_breakpoint_setall_phybp os) (
             bnd get_inf (\<lambda>i. bnd (sys (os_cont os (inf_pid i))) (\<lambda>r.
               case r of
                 Inl _ \<Rightarrow> sylvan_set_errno_msg os SYLVANC_PTRACE_CONT_FAILED ''ptrace cont'' []
               | Inr _ \<Rightarrow> sylvan_update_inf_status os True)))))))"

text \<open>\<open>os_close True\<close> is the write end of the pipe, \<open>os_close False\<close> its read end.\<close>

definition handle_parent :: "'w os \<Rightarrow> pid \<Rightarrow> ('w, 'm, sylvan_code) lib" where
  "handle_parent os pid =
     bnd (sys (os_close os True)) (\<lambda>r.
       case r of
         Inl _ \<Rightarrow> sylvan_set_errno_msg os SYLVANC_SYSTEM_ERROR ''close pipe'' []
       | Inr _ \<Rightarrow>
           bnd (sys_retry (os_read_pipe os)) (\<lambda>bytes_read.
           bnd (sys (os_close os False)) (\<lambda>r.
             case r of
               Inl _ \<Rightarrow> sylvan_set_errno_msg os SYLVANC_SYSTEM_ERROR ''close pipe'' []
             | Inr _ \<Rightarrow>
                 (case bytes_read of
                    Inl _ \<Rightarrow> sylvan_set_errno_msg os SYLVANC_SYSTEM_ERROR ''read from pipe'' []
                  | Inr t \<Rightarrow> if t \<noteq> [] then child_report os t else parent_wait os pid))))"

definition sylvan_run :: "'w os \<Rightarrow> ('w, 'm, sylvan_code) lib" where
  "sylvan_run os = check_inf (bnd get_inf (\<lambda>i.
     case inf_realpath i of
       None \<Rightarrow> sylvan_set_message SYLVANC_FILE_NOT_FOUND ''No executable path specified'' []
     | Some realpath \<Rightarrow>
         bnd (sys (os_access_x os realpath)) (\<lambda>r.
           case r of
             Inl _ \<Rightarrow> sylvan_set_errno_msg os SYLVANC_NOT_EXECUTABLE
               (''File '' @ [CHR 0x27] @ ''%s'' @ [CHR 0x27] @ '' is not executable'') [FStr realpath]
           | Inr _ \<Rightarrow>
               on_ok (sylvan_kill os) (
                 bnd (sys (os_pipe os)) (\<lambda>r.
                   case r of
                     Inl _ \<Rightarrow> sylvan_set_errno_msg os SYLVANC_PIPE_FAILED ''pipe'' []
                   | Inr _ \<Rightarrow>
                       bnd (sys (os_fork os)) (\<lambda>r.
                         case r of
                           Inl _ \<Rightarrow> bnd (sys (os_close os False)) (\<lambda>_. bnd (sys (os_close os True)) (\<lambda>_.
                             sylvan_set_errno_msg os SYLVANC_FORK_FAILED ''fork'' []))
                         | Inr pid \<Rightarrow> handle_parent os pid))))))"


section \<open>Continuing and stepping\<close>

text \<open>
  The end of \<open>sylvan_handle_breakpoint_at_current_addr\<close>, for the breakpoint in slot
  \<open>n\<close> at which the process \<open>pid\<close> stands.
\<close>

definition step_over :: "'w os \<Rightarrow> pid \<Rightarrow> nat \<Rightarrow> ('w, 'm, sylvan_code) lib" where
  "step_over os pid n =
     on_ok (sylvan_breakpoint_disable_ptr os n) (
       bnd (sys (os_step os pid)) (\<lambda>r.
         case r of
           Inl _ \<Rightarrow> sylvan_set_errno_msg os SYLVANC_PTRACE_STEP_FAILED ''ptrace single step'' []
         | Inr _ \<Rightarrow>
             on_ok (sylvan_update_inf_status os True) (
             on_ok (sylvan_breakpoint_enable_ptr os n) (ret SYLVANC_OK))))"

definition sylvan_handle_breakpoint_at_current_addr :: "'w os \<Rightarrow> ('w, 'm, sylvan_code) lib" where
  "sylvan_handle_breakpoint_at_current_addr os = bnd get_inf (\<lambda>i.
     bnd (sys (os_getregs os (inf_pid i))) (\<lambda>r.
       case r of
         Inl _ \<Rightarrow> sylvan_set_errno_msg os SYLVANC_PTRACE_GETREGS_FAILED ''ptrace get regs'' []
       | Inr regs \<Rightarrow>
           bnd (sylvan_breakpoint_find_by_addr (regs rip_cell - 1)) (\<lambda>(code, p).
             case p of
               None \<Rightarrow> ret SYVLANC_BREAKPOINT_NOT_FOUND
             | Some n \<Rightarrow> bnd (get_bp n) (\<lambda>b.
                 if \<not> is_enabled_phy b then ret SYVLANC_BREAKPOINT_NOT_FOUND
                 else bnd (sys (os_setregs os (inf_pid i) (regs(rip_cell := regs rip_cell - 1)))) (\<lambda>r.
                   case r of
                     Inl _ \<Rightarrow> sylvan_set_errno_msg os SYLVANC_PTRACE_SETREGS_FAILED ''ptrace set regs'' []
                   | Inr _ \<Rightarrow> step_over os (inf_pid i) n)))))"

definition sylvan_validate_process_state :: "'w os \<Rightarrow> ('w, 'm, sylvan_code) lib" where
  "sylvan_validate_process_state os = check_inf (
     on_ok (sylvan_update_inf_status os False) (bnd get_inf (\<lambda>i.
       if inf_status i \<noteq> SYLVAN_INFSTATE_STOPPED
       then (if inf_status i = SYLVAN_INFSTATE_RUNNING
             then sylvan_set_message SYLVANC_PROC_RUNNING ''Process %d is already running'' [FInt (inf_pid i)]
             else sylvan_set_message SYLVANC_INVALID_STATE ''Process %d is not in a stopped state'' [FInt (inf_pid i)])
       else ret SYLVANC_OK)))"

definition sylvan_continue :: "'w os \<Rightarrow> ('w, 'm, sylvan_code) lib" where
  "sylvan_continue os = on_ok (sylvan_validate_process_state os) (
     bnd (sylvan_handle_breakpoint_at_current_addr os) (\<lambda>code.
       if code \<noteq> SYLVANC_OK \<and> code \<noteq> SYVLANC_BREAKPOINT_NOT_FOUND then ret code
       else bnd get_inf (\<lambda>i. bnd (sys (os_cont os (inf_pid i))) (\<lambda>r.
         case r of
           Inl _ \<Rightarrow> sylvan_set_errno_msg os SYLVANC_PTRACE_CONT_FAILED ''ptrace cont'' []
         | Inr _ \<Rightarrow> on_ok (sylvan_update_inf_status os True) (ret SYLVANC_OK)))))"

definition sylvan_stepinst :: "'w os \<Rightarrow> ('w, 'm, sylvan_code) lib" where
  "sylvan_stepinst os = on_ok (sylvan_validate_process_state os) (
     bnd (sylvan_handle_breakpoint_at_current_addr os) (\<lambda>code.
       if code \<noteq> SYLVANC_OK \<and> code \<noteq> SYVLANC_BREAKPOINT_NOT_FOUND then ret code
       else if code = SYLVANC_OK then ret SYLVANC_OK
       else bnd get_inf (\<lambda>i. bnd (sys (os_step os (inf_pid i))) (\<lambda>r.
         case r of
           Inl _ \<Rightarrow> sylvan_set_errno_msg os SYLVANC_PTRACE_STEP_FAILED ''ptrace single step'' []
         | Inr _ \<Rightarrow> sylvan_update_inf_status os True))))"


section \<open>Registers and settings\<close>

text \<open>The register pointers of the callers are never null.\<close>

definition sylvan_get_regs :: "'w os \<Rightarrow> ('w, 'm, sylvan_code \<times> user_regs option) lib" where
  "sylvan_get_regs os = bnd is_null (\<lambda>b.
     if b then bnd (sylvan_set_code SYLVANC_INVALID_ARGUMENT) (\<lambda>c. ret (c, None))
     else bnd (sylvan_update_inf_status os False) (\<lambda>code.
       if code \<noteq> SYLVANC_OK then ret (code, None)
       else bnd get_inf (\<lambda>i.
         if \<not> isactive i
         then bnd (sylvan_set_message SYLVANC_INVALID_STATE
           ''Cannot get registers: process is not running or stopped'' []) (\<lambda>c. ret (c, None))
         else bnd (sys (os_getregs os (inf_pid i))) (\<lambda>r.
           case r of
             Inl _ \<Rightarrow> bnd (sylvan_set_errno_msg os SYLVANC_PTRACE_GETREGS_FAILED ''ptrace get regs'' []) (\<lambda>c. ret (c, None))
           | Inr regs \<Rightarrow> ret (SYLVANC_OK, Some regs)))))"

definition sylvan_set_regs :: "'w os \<Rightarrow> user_regs \<Rightarrow> ('w, 'm, sylvan_code) lib" where
  "sylvan_set_regs os regs = check_inf (
     on_ok (sylvan_update_inf_status os False) (bnd get_inf (\<lambda>i.
       if \<not> isactive i
       then sylvan_set_message SYLVANC_INVALID_STATE ''Cannot set registers: process is not running or stopped'' []
       else bnd (sys (os_setregs os (inf_pid i) regs)) (\<lambda>r.
         case r of
           Inl _ \<Rightarrow> sylvan_set_errno_msg os SYLVANC_PTRACE_SETREGS_FAILED ''ptrace set regs'' []
         | Inr _ \<Rightarrow> ret SYLVANC_OK))))"

definition sylvan_set_filepath :: "'w os \<Rightarrow> string option \<Rightarrow> ('w, 'm, sylvan_code) lib" where
  "sylvan_set_filepath os filepath = check_inf (
     case filepath of
       None \<Rightarrow> bnd (upd_inf (\<lambda>i. i\<lparr>inf_realpath := None\<rparr>)) (\<lambda>_. ret SYLVANC_OK)
     | Some f \<Rightarrow>
         bnd (sylvan_canonical_path os f) (\<lambda>(code, p).
           case p of
             None \<Rightarrow> ret code
           | Some newpath \<Rightarrow>
               bnd (sys (os_access_x os newpath)) (\<lambda>r.
                 case r of
                   Inl _ \<Rightarrow>
                     if length f \<le> 256
                     then sylvan_set_errno_msg os SYLVANC_NOT_EXECUTABLE
                       (''File '' @ [CHR 0x27] @ ''%s'' @ [CHR 0x27] @ '' is not executable'') [FStr f]
                     else sylvan_set_errno_msg os SYLVANC_NOT_EXECUTABLE
                       (''File '' @ [CHR 0x27] @ ''%.256s...'' @ [CHR 0x27] @ '' is not executable'') [FStr f]
                 | Inr _ \<Rightarrow>
                     bnd (upd_inf (\<lambda>i. i\<lparr>inf_realpath := Some newpath\<rparr>)) (\<lambda>_.
                       on_ok (sylvan_sym_load_tables os) (ret SYLVANC_OK)))))"

definition sylvan_set_args :: "'w os \<Rightarrow> string option \<Rightarrow> ('w, 'm, sylvan_code) lib" where
  "sylvan_set_args os arguments = check_inf (
     case arguments of
       None \<Rightarrow> bnd (upd_inf (\<lambda>i. i\<lparr>inf_args := None\<rparr>)) (\<lambda>_. ret SYLVANC_OK)
     | Some a \<Rightarrow>
         bnd (sys (os_malloc os (length a + 1))) (\<lambda>r.
           case r of
             Inl _ \<Rightarrow> sylvan_set_code SYLVANC_OUT_OF_MEMORY
           | Inr _ \<Rightarrow> bnd (upd_inf (\<lambda>i. i\<lparr>inf_args := Some a\<rparr>)) (\<lambda>_. ret SYLVANC_OK)))"

definition sylvan_set_breakpoint_function :: "'w os \<Rightarrow> string option \<Rightarrow> ('w, 'm, sylvan_code) lib" where
  "sylvan_set_breakpoint_function os function = check_inf (
     case function of
       None \<Rightarrow> sylvan_set_code SYLVANC_INVALID_ARGUMENT
     | Some f \<Rightarrow>
         bnd (sylvan_get_label_addr f) (\<lambda>(code, addr).
           case addr of
             None \<Rightarrow> ret code
           | Some a \<Rightarrow> on_ok (sylvan_breakpoint_set os a) (ret SYLVANC_OK)))"

end
