(* ===== verification/Memory.thy ===== *)
theory Memory
  imports Breakpoints
begin

text \<open>
  \<open>sylvan_get_memory\<close> and \<open>sylvan_set_memory\<close> of \<open>lib/sylvan/inferior.c\<close>: reading a
  word and writing any number of bytes of the process, eight at a time, the rest by
  reading, masking and writing back.
\<close>

section \<open>Operations\<close>

definition sylvan_get_memory :: "'w os \<Rightarrow> addr \<Rightarrow> ('w, 'm, sylvan_code \<times> 64 word option) lib" where
  "sylvan_get_memory os addr = bnd is_null (\<lambda>b.
     if b then bnd (sylvan_set_code SYLVANC_INVALID_ARGUMENT) (\<lambda>c. ret (c, None))
     else bnd (set_errno 0) (\<lambda>_. bnd get_inf (\<lambda>i.
       bnd (sys (os_peek os (inf_pid i) addr)) (\<lambda>r.
       bnd (gets errno) (\<lambda>e.
         if e \<noteq> 0
         then bnd (sylvan_set_errno_msg os SYLVANC_PTRACE_PEEKDATA_FAILED ''Cannot read address %lx'' [FLong addr])
           (\<lambda>c. ret (c, None))
         else ret (SYLVANC_OK, Some (case r of Inl _ \<Rightarrow> -1 | Inr v \<Rightarrow> v)))))))"

definition tail_mask :: "nat \<Rightarrow> 64 word" where
  "tail_mask remaining = push_bit (remaining * 8) 1 - 1"

text \<open>The error returns format a \<open>%s\<close> for which there is no argument.\<close>

definition poke_failed :: "'w os \<Rightarrow> addr \<Rightarrow> ('w, 'm, sylvan_code) lib" where
  "poke_failed os a =
     sylvan_set_errno_msg os SYLVANC_PTRACE_POKEDATA_FAILED ''cannot write at 0x%lx: %s'' [FLong a]"

definition set_memory_tail :: "'w os \<Rightarrow> addr \<Rightarrow> byte list \<Rightarrow> ('w, 'm, sylvan_code) lib" where
  "set_memory_tail os a bytes =
     bnd (sylvan_get_memory os a) (\<lambda>(code, d).
       case d of
         None \<Rightarrow> poke_failed os a
       | Some current_data \<Rightarrow>
           let mask = tail_mask (length bytes);
               new_data = (current_data AND NOT mask) OR (word_of_bytes bytes AND mask)
           in bnd get_inf (\<lambda>i. bnd (sys (os_poke os (inf_pid i) a new_data)) (\<lambda>r.
                case r of Inl _ \<Rightarrow> poke_failed os a | Inr _ \<Rightarrow> ret SYLVANC_OK)))"

text \<open>The loop, by the bytes from the current offset on, and the tail.\<close>

function set_memory_from :: "'w os \<Rightarrow> addr \<Rightarrow> byte list \<Rightarrow> ('w, 'm, sylvan_code) lib" where
  "set_memory_from os a bytes =
     (if 8 \<le> length bytes
      then bnd get_inf (\<lambda>i. bnd (sys (os_poke os (inf_pid i) a (word_of_bytes (take 8 bytes)))) (\<lambda>r.
        case r of Inl _ \<Rightarrow> poke_failed os a | Inr _ \<Rightarrow> set_memory_from os (a + 8) (drop 8 bytes)))
      else if bytes \<noteq> [] then set_memory_tail os a bytes
      else ret SYLVANC_OK)"
  by pat_completeness auto
termination
  by (relation "measure (\<lambda>(os, a, bytes). length bytes)") auto

declare set_memory_from.simps [simp del]

text \<open>\<open>None\<close>: a null data pointer.\<close>

definition sylvan_set_memory :: "'w os \<Rightarrow> addr \<Rightarrow> byte list option \<Rightarrow> ('w, 'm, sylvan_code) lib" where
  "sylvan_set_memory os addr data = check_inf (
     case data of
       None \<Rightarrow> sylvan_set_code SYLVANC_INVALID_ARGUMENT
     | Some bytes \<Rightarrow>
         if bytes = [] then sylvan_set_code SYLVANC_OK
         else if addr = 0
         then sylvan_set_errno_msg os SYLVANC_INVALID_ARGUMENT ''Invalid address 0x%lx'' [FLong addr]
         else set_memory_from os addr bytes)"


section \<open>What is written\<close>

lemma byte_of_masked:
  assumes "n < 8" "i < 8"
  shows "byte_of ((c AND NOT (tail_mask n)) OR (d AND tail_mask n)) i = (if i < n then byte_of d i else byte_of c i)"
proof (rule bit_word_eqI)
  fix k assume k: "k < LENGTH(8)"
  have mask: "tail_mask n = mask (n * 8)" by (simp add: tail_mask_def mask_eq_exp_minus_1 push_bit_eq_mult)
  show "bit (byte_of ((c AND NOT (tail_mask n)) OR (d AND tail_mask n)) i) k =
      bit (if i < n then byte_of d i else byte_of c i) k"
    using assms k by (auto simp: bit_byte_of mask bit_simps)
qed

text \<open>A whole word and a masked tail both write exactly the bytes given.\<close>

lemma write_word_bytes:
  assumes "length bs = 8"
  shows "write_word m a (word_of_bytes bs) = write_bytes m a bs"
  using assms by (auto simp: write_word_def write_bytes_def byte_of_word_of_bytes fun_eq_iff)

lemma write_word_tail:
  assumes "length bs < 8"
  shows "write_word m a ((read_word m a AND NOT (tail_mask (length bs))) OR (word_of_bytes bs AND tail_mask (length bs)))
    = write_bytes m a bs"
proof
  fix x
  show "write_word m a ((read_word m a AND NOT (tail_mask (length bs))) OR (word_of_bytes bs AND tail_mask (length bs))) x
    = write_bytes m a bs x"
  proof (cases "unat (x - a) < 8")
    case True
    have "a + of_nat (unat (x - a)) = x" by simp
    with True assms show ?thesis
      by (simp add: write_word_def write_bytes_def byte_of_masked byte_of_word_of_bytes byte_of_read_word)
  next
    case False
    with assms show ?thesis by (simp add: write_word_def write_bytes_def)
  qed
qed

text \<open>Writing in two parts, where the bytes fit in the address space.\<close>

lemma write_bytes_append:
  assumes "length bs + length cs \<le> 2 ^ 64"
  shows "write_bytes (write_bytes m a bs) (a + of_nat (length bs)) cs = write_bytes m a (bs @ cs)"
proof
  fix x
  let ?k = "unat (x - a)" and ?n = "length bs"
  have lt: "?k < 2 ^ 64" using unsigned_less [of "x - a", where ?'a = nat] by simp
  show "write_bytes (write_bytes m a bs) (a + of_nat ?n) cs x = write_bytes m a (bs @ cs) x"
  proof (cases "cs = []")
    case True
    then show ?thesis by (simp add: write_bytes_def)
  next
    case False
    then have n: "?n < 2 ^ 64" using assms by (cases cs) auto
    have eq: "x - (a + of_nat ?n) = (x - a) - of_nat ?n" by simp
    have un: "unat (of_nat ?n :: 64 word) = ?n" using n by (simp add: unat_of_nat)
    show ?thesis
    proof (cases "?n \<le> ?k")
      case True
      then have "unat (x - (a + of_nat ?n)) = ?k - ?n"
        unfolding eq using un by (subst unat_sub) (simp_all add: word_le_nat_alt)
      with True show ?thesis by (auto simp: write_bytes_def nth_append)
    next
      case lt_n: False
      have "unat (x - (a + of_nat ?n)) = ?k + 2 ^ 64 - ?n"
        unfolding eq using un lt_n by (simp add: unat_sub_if_size word_size)
      moreover have "length cs \<le> ?k + 2 ^ 64 - ?n" using assms lt_n by linarith
      ultimately show ?thesis using lt_n by (simp add: write_bytes_def nth_append)
    qed
  qed
qed


section \<open>Specifications\<close>

text \<open>No memory access fails.\<close>

definition memory_accessible :: "'w os \<Rightarrow> pid \<Rightarrow> bool" where
  "memory_accessible os p \<longleftrightarrow>
     (\<forall>a w. \<exists>v w'. os_peek os p a w = (Inr v, w')) \<and> (\<forall>a v w. \<exists>w'. os_poke os p a v w = (Inr (), w'))"

lemma memory_accessibleE:
  assumes "memory_accessible os p"
  obtains x w1 w2 where "os_peek os p a w = (Inr x, w1)" "os_poke os p a v w = (Inr (), w2)"
  using assms unfolding memory_accessible_def by metis

lemma get_memory_spec:
  assumes mem: "tracee_memory os mem" and acc: "memory_accessible os (inf_pid i)" and s: "infp s = InfLive i"
  shows "wp (sylvan_get_memory os a) (\<lambda>(c, d) s'. c = SYLVANC_OK \<and>
    d = Some (read_word (mem (inf_pid i) (world s)) a) \<and> infp s' = infp s \<and>
    mem (inf_pid i) (world s') = mem (inf_pid i) (world s)) s"
proof -
  obtain v w where pk: "os_peek os (inf_pid i) a (world s) = (Inr v, w)"
    using acc by (rule memory_accessibleE)
  with tracee_peek [OF mem pk] s show ?thesis by (simp add: sylvan_get_memory_def wp_simps)
qed

lemma set_memory_tail_spec:
  assumes mem: "tracee_memory os mem" and acc: "memory_accessible os (inf_pid i)" and s: "infp s = InfLive i"
    and len: "length bs < 8"
  shows "wp (set_memory_tail os a bs) (\<lambda>c s'. c = SYLVANC_OK \<and> infp s' = infp s \<and>
    mem (inf_pid i) (world s') = write_bytes (mem (inf_pid i) (world s)) a bs) s"
  unfolding set_memory_tail_def
proof (rule wp_bndI [OF get_memory_spec [OF mem acc s]], clarsimp simp: Let_def)
  fix t :: "('a, 'b) dbg_scheme"
  let ?m = "mem (inf_pid i) (world s)"
  let ?v = "(read_word ?m a AND NOT (tail_mask (length bs))) OR (word_of_bytes bs AND tail_mask (length bs))"
  assume t: "infp t = infp s" "mem (inf_pid i) (world t) = ?m"
  obtain w where pk: "os_poke os (inf_pid i) a ?v (world t) = (Inr (), w)"
    using acc by (rule memory_accessibleE)
  have "mem (inf_pid i) w = write_bytes ?m a bs"
    using tracee_poke_ok [OF mem pk] t(2) write_word_tail [OF len, of ?m a] by simp
  with pk t s show "wp (bnd get_inf (\<lambda>i. bnd (sys (os_poke os (inf_pid i) a ?v)) (\<lambda>r.
      case r of Inl _ \<Rightarrow> poke_failed os a | Inr _ \<Rightarrow> ret SYLVANC_OK)))
    (\<lambda>c s'. c = SYLVANC_OK \<and> infp s' = infp s \<and> mem (inf_pid i) (world s') = write_bytes ?m a bs) t"
    by (simp add: wp_simps)
qed

lemma set_memory_from_spec:
  assumes mem: "tracee_memory os mem" and acc: "memory_accessible os (inf_pid i)" and s: "infp s = InfLive i"
    and len: "length bs \<le> 2 ^ 64"
  shows "wp (set_memory_from os a bs) (\<lambda>c s'. c = SYLVANC_OK \<and> infp s' = infp s \<and>
    mem (inf_pid i) (world s') = write_bytes (mem (inf_pid i) (world s)) a bs) s"
  using s len
proof (induction "length bs" arbitrary: bs a s rule: less_induct)
  case less
  let ?m = "mem (inf_pid i) (world s)"
  show ?case
  proof (cases "8 \<le> length bs")
    case False
    then show ?thesis
      using set_memory_tail_spec [OF mem acc less.prems(1), of bs a] less.prems(1)
      by (subst set_memory_from.simps) (auto simp: wp_simps write_bytes_def)
  next
    case True
    let ?v = "word_of_bytes (take 8 bs)"
    obtain w where pk: "os_poke os (inf_pid i) a ?v (world s) = (Inr (), w)"
      using acc by (rule memory_accessibleE)
    have first: "mem (inf_pid i) w = write_bytes ?m a (take 8 bs)"
      using tracee_poke_ok [OF mem pk] True by (simp add: write_word_bytes)
    have "wp (set_memory_from os (a + 8) (drop 8 bs)) (\<lambda>c s'. c = SYLVANC_OK \<and> infp s' = infp (s\<lparr>world := w\<rparr>) \<and>
        mem (inf_pid i) (world s') = write_bytes (mem (inf_pid i) (world (s\<lparr>world := w\<rparr>))) (a + 8) (drop 8 bs))
        (s\<lparr>world := w\<rparr>)"
      using True less.prems by (intro less.hyps) auto
    moreover have "write_bytes (write_bytes ?m a (take 8 bs)) (a + 8) (drop 8 bs) = write_bytes ?m a bs"
      using write_bytes_append [of "take 8 bs" "drop 8 bs" ?m a] True less.prems(2) by simp
    ultimately show ?thesis
      using True pk less.prems(1) first by (subst set_memory_from.simps) (simp add: wp_simps)
  qed
qed

end
