(* ===== verification/Simulation.thy ===== *)
theory Simulation
  imports Breakpoint_Bulk Symbol_Lemmas Inferior Memory
begin

text \<open>
  A small machine that satisfies what the development relies on of the operating
  system and the libraries: one process with memory and registers, a script of
  \<open>waitpid\<close> answers, and a log of the requests that resume the process. The examples
  of the development run on it.
\<close>

datatype resume = Cont | Step

record sim =
  sim_mem :: memory
  sim_regs :: user_regs
  sim_waits :: "(int + pid \<times> wait_status) list"
  sim_si_code :: int
  sim_log :: "resume list"

definition sim_waitpid :: "pid \<Rightarrow> bool \<Rightarrow> sim \<Rightarrow> (int + pid \<times> wait_status) \<times> sim" where
  "sim_waitpid p nohang w =
     (case sim_waits w of
        [] \<Rightarrow> (Inr (0, 0), w)
      | Inl e # xs \<Rightarrow> (Inl e, w\<lparr>sim_waits := xs\<rparr>)
      | Inr (q, st) # xs \<Rightarrow> (Inr (if classified st then (q, st) else (0, 0)), w\<lparr>sim_waits := xs\<rparr>))"

definition sim_elf :: elf_file where
  "sim_elf = \<lparr>elf_version_ok = True, elf_open = Inr (), elf_begin_ok = True, elf_shstrndx_ok = True,
     elf_sections = [\<lparr>sh_ok = True, sh_type = 1, sh_data_ok = True, sh_size = 512, sh_entsize = 0, sh_syms = Map.empty\<rparr>,
       \<lparr>sh_ok = True, sh_type = SHT_SYMTAB, sh_data_ok = True, sh_size = 48, sh_entsize = 24,
       sh_syms = (\<lambda>n. Some \<lparr>es_name = Some (if n = 0 then ''main'' else ''exit''), es_value = 64 * of_nat n,
                            es_size = 8, es_flags = Some 6\<rparr>)\<rparr>]\<rparr>"

definition sim_dwarf :: "dwarf_unit list option" where
  "sim_dwarf = Some [UnitChildren [\<lparr>die_tag = Some DW_TAG_subprogram, die_name = Some ''main'', die_lowpc = Some 4\<rparr>]]"

definition sim_os :: "sim os" where
  "sim_os = \<lparr>os_strerror = (\<lambda>_. ''error''), os_waitpid = sim_waitpid,
     os_kill = (\<lambda>p sig w. (Inr (), w)), os_getsiginfo = (\<lambda>p w. (Inr (sim_si_code w), w)),
     os_getregs = (\<lambda>p w. (Inr (sim_regs w), w)), os_setregs = (\<lambda>p r w. (Inr (), w\<lparr>sim_regs := r\<rparr>)),
     os_cont = (\<lambda>p w. (Inr (), w\<lparr>sim_log := sim_log w @ [Cont]\<rparr>)),
     os_step = (\<lambda>p w. (Inr (), w\<lparr>sim_log := sim_log w @ [Step],
       sim_regs := (sim_regs w)(rip_cell := sim_regs w rip_cell + 1)\<rparr>)),
     os_attach = (\<lambda>p w. (Inr (), w)), os_detach = (\<lambda>p w. (Inr (), w)),
     os_peek = (\<lambda>p a w. (Inr (read_word (sim_mem w) a), w)),
     os_poke = (\<lambda>p a v w. (Inr (), w\<lparr>sim_mem := write_word (sim_mem w) a v\<rparr>)),
     os_malloc = (\<lambda>n w. (Inr (), w)), os_access_x = (\<lambda>f w. (Inr (), w)), os_realpath = (\<lambda>f w. (Inr f, w)),
     os_getenv_PATH = (\<lambda>w. None), os_pipe = (\<lambda>w. (Inr (), w)), os_fork = (\<lambda>w. (Inr 42, w)),
     os_close = (\<lambda>b w. (Inr (), w)), os_read_pipe = (\<lambda>w. (Inr [], w)), os_stack_junk = (\<lambda>w. []),
     os_dwarf = (\<lambda>p w. (sim_dwarf, w)), os_elf = (\<lambda>p w. (sim_elf, w))\<rparr>"

abbreviation sim_memory :: "pid \<Rightarrow> sim \<Rightarrow> memory" where
  "sim_memory \<equiv> \<lambda>p w. sim_mem w"

lemma sim_tracee_memory: "tracee_memory sim_os sim_memory"
  by (simp add: tracee_memory_def sim_os_def)

lemma sim_accessible: "memory_accessible sim_os p"
  by (simp add: memory_accessible_def sim_os_def)

lemma sim_malloc: "malloc_succeeds sim_os"
  by (simp add: malloc_succeeds_def sim_os_def)

lemma sim_debug_info: "debug_info sim_os path sim_dwarf sim_elf"
  by (simp add: debug_info_def sim_os_def)

lemma sim_elf_readable: "elf_readable sim_elf"
  by (simp add: elf_readable_def entries_sized_def sim_elf_def SHT_SYMTAB_def SHT_DYNSYM_def)

lemma sim_filesystem: "filesystem sim_os (\<lambda>_. True) Some None"
  by (simp add: filesystem_def sim_os_def)

lemma sim_wait_classified: "wait_classified sim_os"
  by (auto simp: wait_classified_def sim_os_def sim_waitpid_def classified_def WIFEXITED_def WTERMSIG_def
      split: list.splits sum.splits prod.splits if_splits)

lemma sim_wait_settles: "wait_settles sim_os"
  unfolding wait_settles_def
proof (intro allI)
  fix p nohang and w :: sim
  show "\<exists>n. eintr_after (os_waitpid sim_os p nohang) n w"
  proof (induction "sim_waits w" arbitrary: w)
    case Nil
    then have "eintr_after (os_waitpid sim_os p nohang) 0 w" by (simp add: sim_os_def sim_waitpid_def)
    then show ?case ..
  next
    case (Cons x xs)
    then have split: "sim_waits w = x # xs" by simp
    show ?case
    proof (cases "x = Inl EINTR")
      case True
      let ?v = "w\<lparr>sim_waits := xs\<rparr>"
      obtain n where "eintr_after (os_waitpid sim_os p nohang) n ?v" using Cons.hyps(1) [of ?v] by auto
      with True split have "eintr_after (os_waitpid sim_os p nohang) (Suc n) w"
        by (simp add: sim_os_def sim_waitpid_def)
      then show ?thesis ..
    next
      case False
      with split have "eintr_after (os_waitpid sim_os p nohang) 0 w"
        by (auto simp: sim_os_def sim_waitpid_def split: sum.splits)
      then show ?thesis ..
    qed
  qed
qed

text \<open>A stopped process of pid 7 with breakpoints at the addresses given, all outside memory.\<close>

definition sim_breakpoint :: "addr \<Rightarrow> breakpoint" where
  "sim_breakpoint a = \<lparr>bp_addr = a, og_byte = 0, is_enabled_log = True, is_enabled_phy = False\<rparr>"

definition sim_inferior :: "addr list \<Rightarrow> inferior" where
  "sim_inferior addrs = zero_inferior\<lparr>inf_pid := 7, inf_status := SYLVAN_INFSTATE_STOPPED, inf_is_attached := True,
     inf_breakpoints := map sim_breakpoint addrs @ replicate (MAX_BREAKPOINTS - length addrs) zero_breakpoint,
     inf_breakpoint_count := length addrs\<rparr>"

definition sim_world :: sim where
  "sim_world = \<lparr>sim_mem = (\<lambda>a. 0x90), sim_regs = (\<lambda>_. 0), sim_waits = [], sim_si_code = 0, sim_log = []\<rparr>"

definition no_error :: error_context where
  "no_error = \<lparr>ec_code = SYLVANC_OK, ec_os_errno = 0, ec_message = []\<rparr>"

definition sim_dbg :: "inferior \<Rightarrow> sim dbg" where
  "sim_dbg i = \<lparr>infp = InfLive i, sylvan_inferior_idx = 1, sylvan_inferior_count = 1,
     sylvan_last_error = no_error, errno = 0, world = sim_world\<rparr>"

lemma sim_inferior_simps [simp]:
  "inf_pid (sim_inferior as) = 7" "inf_status (sim_inferior as) = SYLVAN_INFSTATE_STOPPED"
  "isactive (sim_inferior as)" "inf_is_attached (sim_inferior as)"
  "inf_breakpoint_count (sim_inferior as) = length as"
  "inf_elf_table (sim_inferior as) = zero_table" "inf_dwarf_table (sim_inferior as) = zero_table"
  by (simp_all add: sim_inferior_def isactive_def zero_inferior_def)

lemma sim_dbg_simps [simp]:
  "infp (sim_dbg i) = InfLive i" "world (sim_dbg i) = sim_world" "errno (sim_dbg i) = 0"
  by (simp_all add: sim_dbg_def)

lemma sim_bps_ok: "distinct as \<Longrightarrow> length as \<le> MAX_BREAKPOINTS \<Longrightarrow> bps_ok (sim_inferior as)"
  by (simp add: bps_ok_def sim_inferior_def comp_def sim_breakpoint_def)

lemma sim_bp_at: "n < length as \<Longrightarrow> bp_at (sim_inferior as) n = sim_breakpoint (as ! n)"
  by (simp add: sim_inferior_def nth_append)

lemma zero_bps_ok: "bps_ok zero_inferior"
  by (simp add: bps_ok_def zero_inferior_def)

end
