(* ===== verification/Breakpoint_Service.thy ===== *)
theory Breakpoint_Service
  imports Simulation
begin

text \<open>
  What the breakpoint functions promise their callers, as an interface: commands on a
  finite map from addresses to the enabled flag. The abstract step relation says
  which codes a command may answer with and what it does to the map; the locale
  derives what holds of sequences of commands, and the functions of \<open>breakpoint.c\<close>
  are shown to provide it.
\<close>

section \<open>The abstract service\<close>

datatype bp_cmd = BpSet addr | BpUnset addr | BpEnable addr | BpDisable addr | BpClear

text \<open>
  A failed memory access leaves a new breakpoint in the table and a breakpoint to be
  removed disabled; a failed clearing removes a part.
\<close>

inductive bp_step :: "(addr \<rightharpoonup> bool) \<Rightarrow> bp_cmd \<Rightarrow> sylvan_code \<Rightarrow> (addr \<rightharpoonup> bool) \<Rightarrow> bool" where
  set_full: "card (dom m) = MAX_BREAKPOINTS \<Longrightarrow> bp_step m (BpSet a) SYVLANC_BREAKPOINT_LIMIT_REACHED m"
| set_twice: "card (dom m) < MAX_BREAKPOINTS \<Longrightarrow> m a = Some l \<Longrightarrow> bp_step m (BpSet a) SYVLANC_BREAKPOINT_ALREADY_EXISTS m"
| set_new: "card (dom m) < MAX_BREAKPOINTS \<Longrightarrow> m a = None \<Longrightarrow> c \<in> phys_codes \<Longrightarrow> bp_step m (BpSet a) c (m(a \<mapsto> True))"
| unset_absent: "m a = None \<Longrightarrow> bp_step m (BpUnset a) SYVLANC_BREAKPOINT_NOT_FOUND m"
| unset_done: "m a = Some l \<Longrightarrow> bp_step m (BpUnset a) SYLVANC_OK (m(a := None))"
| unset_failed: "m a = Some l \<Longrightarrow> c \<in> phys_codes \<Longrightarrow> c \<noteq> SYLVANC_OK \<Longrightarrow> bp_step m (BpUnset a) c (m(a \<mapsto> False))"
| enable_absent: "m a = None \<Longrightarrow> bp_step m (BpEnable a) SYVLANC_BREAKPOINT_NOT_FOUND m"
| enable_done: "m a = Some l \<Longrightarrow> c \<in> phys_codes \<Longrightarrow> bp_step m (BpEnable a) c (m(a \<mapsto> True))"
| disable_absent: "m a = None \<Longrightarrow> bp_step m (BpDisable a) SYVLANC_BREAKPOINT_NOT_FOUND m"
| disable_done: "m a = Some l \<Longrightarrow> c \<in> phys_codes \<Longrightarrow> bp_step m (BpDisable a) c (m(a \<mapsto> False))"
| clear_done: "bp_step m BpClear SYLVANC_OK Map.empty"
| clear_failed: "c \<in> phys_codes \<Longrightarrow> c \<noteq> SYLVANC_OK \<Longrightarrow> m' \<subseteq>\<^sub>m m \<Longrightarrow> bp_step m BpClear c m'"

inductive_cases bp_step_cases: "bp_step m c r m'"

inductive bp_steps :: "(addr \<rightharpoonup> bool) \<Rightarrow> bp_cmd list \<Rightarrow> sylvan_code list \<Rightarrow> (addr \<rightharpoonup> bool) \<Rightarrow> bool" where
  bp_steps_Nil: "bp_steps m [] [] m"
| bp_steps_Cons: "bp_step m c r m1 \<Longrightarrow> bp_steps m1 cs rs m' \<Longrightarrow> bp_steps m (c # cs) (r # rs) m'"

inductive_simps bp_steps_simps: "bp_steps m [] rs m'" "bp_steps m (c # cs) rs m'"

lemma bp_step_bounded:
  assumes "bp_step m c r m'" "finite (dom m)" "card (dom m) \<le> MAX_BREAKPOINTS"
  shows "finite (dom m') \<and> card (dom m') \<le> MAX_BREAKPOINTS"
  using assms
proof (induction rule: bp_step.induct)
  case (set_new m a c)
  have dom: "dom (m(a \<mapsto> True)) = insert a (dom m)" by simp
  show ?case unfolding dom using set_new by (simp add: card_insert_if)
next
  case (unset_done m a l)
  have dom: "dom (m(a := None)) = dom m - {a}" by auto
  show ?case unfolding dom using unset_done card_Diff1_le [of "dom m" a] by simp
next
  case (clear_failed c m' m)
  then have "dom m' \<subseteq> dom m" by (auto simp: map_le_def dom_def)
  with clear_failed show ?case using card_mono [of "dom m" "dom m'"] finite_subset by (metis le_trans)
qed (auto simp: insert_absorb dom_def [symmetric] domI)

text \<open>A breakpoint stays until it is unset or the table is cleared.\<close>

lemma bp_step_keeps:
  "bp_step m c r m' \<Longrightarrow> m a \<noteq> None \<Longrightarrow> c \<noteq> BpUnset a \<Longrightarrow> c \<noteq> BpClear \<Longrightarrow> m' a \<noteq> None"
  by (auto elim!: bp_step_cases)

lemma bp_steps_bounded:
  "bp_steps m cs rs m' \<Longrightarrow> finite (dom m) \<Longrightarrow> card (dom m) \<le> MAX_BREAKPOINTS \<Longrightarrow>
     finite (dom m') \<and> card (dom m') \<le> MAX_BREAKPOINTS"
  by (induction rule: bp_steps.induct) (auto dest: bp_step_bounded)

lemma bp_steps_keeps:
  "bp_steps m cs rs m' \<Longrightarrow> m a \<noteq> None \<Longrightarrow> BpUnset a \<notin> set cs \<Longrightarrow> BpClear \<notin> set cs \<Longrightarrow> m' a \<noteq> None"
  by (induction rule: bp_steps.induct) (auto dest: bp_step_keeps)

lemma bp_steps_length: "bp_steps m cs rs m' \<Longrightarrow> length rs = length cs"
  by (induction rule: bp_steps.induct) simp_all


section \<open>The interface\<close>

primrec run_all :: "('c \<Rightarrow> ('s, 'a) prog) \<Rightarrow> 'c list \<Rightarrow> ('s, 'a list) prog" where
  "run_all exec [] = ret []"
| "run_all exec (c # cs) = bnd (exec c) (\<lambda>r. bnd (run_all exec cs) (\<lambda>rs. ret (r # rs)))"

locale breakpoint_service =
  fixes exec :: "bp_cmd \<Rightarrow> ('s, sylvan_code) prog" and view :: "'s \<Rightarrow> addr \<Rightarrow> bool option" and inv :: "'s \<Rightarrow> bool"
  assumes exec_refines: "inv s \<Longrightarrow> wp (exec c) (\<lambda>r s'. inv s' \<and> bp_step (view s) c r (view s')) s"
begin

lemma sequence_refines:
  "inv s \<Longrightarrow> wp (run_all exec cs) (\<lambda>rs s'. inv s' \<and> bp_steps (view s) cs rs (view s')) s"
proof (induction cs arbitrary: s)
  case Nil
  then show ?case by (simp add: wp_simps bp_steps_Nil)
next
  case (Cons c cs)
  show ?case
    unfolding run_all.simps
    by (rule wp_bndI [OF exec_refines [OF Cons.prems]], elim conjE, rule wp_bndI [OF Cons.IH], assumption)
      (auto simp: wp_simps intro: bp_steps_Cons)
qed

lemma sequence_keeps:
  assumes "inv s" "view s a \<noteq> None" "BpUnset a \<notin> set cs" "BpClear \<notin> set cs"
  shows "wp (run_all exec cs) (\<lambda>rs s'. view s' a \<noteq> None) s"
  by (rule wp_mono [OF sequence_refines [OF assms(1)]]) (use assms(2-4) bp_steps_keeps in blast)

lemma sequence_bounded:
  assumes "inv s" "finite (dom (view s))" "card (dom (view s)) \<le> MAX_BREAKPOINTS"
  shows "wp (run_all exec cs) (\<lambda>rs s'. card (dom (view s')) \<le> MAX_BREAKPOINTS \<and> length rs = length cs) s"
  by (rule wp_mono [OF sequence_refines [OF assms(1)]]) (use assms(2,3) bp_steps_bounded bp_steps_length in blast)

end

text \<open>A service on the memory of a process also keeps the program text.\<close>

locale text_service = breakpoint_service exec view inv
  for exec :: "bp_cmd \<Rightarrow> ('s, sylvan_code) prog" and view :: "'s \<Rightarrow> addr \<Rightarrow> bool option" and inv :: "'s \<Rightarrow> bool" +
  fixes text_of :: "'s \<Rightarrow> memory" and ready :: "bp_cmd \<Rightarrow> 's \<Rightarrow> bool"
  assumes exec_keeps: "inv s \<Longrightarrow> ready c s \<Longrightarrow> wp (exec c) (\<lambda>r s'. text_of s' = text_of s) s"
    and ready_others: "(\<forall>a. c \<noteq> BpSet a) \<Longrightarrow> ready c s"
begin

lemma sequence_keeps_text:
  "inv s \<Longrightarrow> \<forall>c \<in> set cs. \<forall>a. c \<noteq> BpSet a \<Longrightarrow> wp (run_all exec cs) (\<lambda>rs s'. text_of s' = text_of s) s"
proof (induction cs arbitrary: s)
  case Nil
  then show ?case by (simp add: wp_simps)
next
  case (Cons c cs)
  have "ready c s" using Cons.prems by (intro ready_others) simp
  from wp_conj [OF exec_refines [OF Cons.prems(1)] exec_keeps [OF Cons.prems(1) this]]
  have "wp (exec c) (\<lambda>r s'. inv s' \<and> text_of s' = text_of s) s" by (rule wp_mono) simp
  then show ?case
    unfolding run_all.simps
    by (rule wp_bndI) (rule wp_bndI [OF Cons.IH], use Cons.prems in \<open>auto simp: wp_simps\<close>)
qed

end

section \<open>The functions of breakpoint.c provide it\<close>

definition bp_exec :: "'w os \<Rightarrow> bp_cmd \<Rightarrow> ('w, 'm, sylvan_code) lib" where
  "bp_exec os c =
     (case c of
        BpSet a \<Rightarrow> sylvan_breakpoint_set os a
      | BpUnset a \<Rightarrow> sylvan_breakpoint_unset os a
      | BpEnable a \<Rightarrow> sylvan_breakpoint_enable os a
      | BpDisable a \<Rightarrow> sylvan_breakpoint_disable os a
      | BpClear \<Rightarrow> sylvan_breakpoint_clearall os)"

definition bp_view :: "('w, 'm) dbg_scheme \<Rightarrow> addr \<Rightarrow> bool option" where
  "bp_view s = (case infp s of InfLive i \<Rightarrow> bp_map i | _ \<Rightarrow> Map.empty)"

definition bp_live :: "('w, 'm) dbg_scheme \<Rightarrow> bool" where
  "bp_live s \<longleftrightarrow> (\<exists>i. infp s = InfLive i \<and> bps_ok i)"

lemma dom_bp_map: "dom (bp_map i) = bp_addr ` set (take (inf_breakpoint_count i) (inf_breakpoints i))" if "bps_ok i"
proof -
  have "x \<in> dom (bp_map i) \<longleftrightarrow> (\<exists>n < inf_breakpoint_count i. bp_addr (bp_at i n) = x)" for x
    using bp_index_None_iff [of i x] by (auto simp: bp_map_def dom_def)
  moreover have "inf_breakpoint_count i \<le> length (inf_breakpoints i)"
    using that by (simp add: bps_ok_def)
  ultimately show ?thesis by (intro set_eqI) (force simp: in_set_conv_nth)
qed

lemma card_bp_map: "bps_ok i \<Longrightarrow> card (dom (bp_map i)) = inf_breakpoint_count i"
  using distinct_card [of "map bp_addr (take (inf_breakpoint_count i) (inf_breakpoints i))"]
  by (simp add: dom_bp_map) (simp add: bps_ok_def)

lemma bp_map_None_iff: "bp_map i a = None \<longleftrightarrow> bp_index i a = None"
  by (simp add: bp_map_def)

lemma bp_map_SomeD: "bp_index i a = Some n \<Longrightarrow> \<exists>l. bp_map i a = Some l"
  by (simp add: bp_map_def)

text \<open>The two refusals of \<open>sylvan_breakpoint_set\<close>.\<close>

lemma set_refused:
  assumes "infp s = InfLive i" "bps_ok i" "inf_breakpoint_count i = MAX_BREAKPOINTS \<or> bp_index i a \<noteq> None"
  shows "wp (sylvan_breakpoint_set os a) (\<lambda>c s'. infp s' = infp s \<and> world s' = world s \<and>
    c = (if inf_breakpoint_count i = MAX_BREAKPOINTS then SYVLANC_BREAKPOINT_LIMIT_REACHED
         else SYVLANC_BREAKPOINT_ALREADY_EXISTS)) s"
  using assms by (auto simp: sylvan_breakpoint_set_def wp_simps)

lemma exec_refines_live:
  assumes "bp_live s"
  shows "wp (bp_exec os c) (\<lambda>r s'. bp_live s' \<and> bp_step (bp_view s) c r (bp_view s')) s"
proof -
  obtain i where i: "infp s = InfLive i" "bps_ok i" using assms by (auto simp: bp_live_def)
  note card = card_bp_map [OF i(2)]
  show ?thesis
  proof (cases c)
    case (BpSet a)
    show ?thesis
    proof (cases "inf_breakpoint_count i = MAX_BREAKPOINTS \<or> bp_index i a \<noteq> None")
      case True
      have "bp_step (bp_map i) (BpSet a) (if inf_breakpoint_count i = MAX_BREAKPOINTS
          then SYVLANC_BREAKPOINT_LIMIT_REACHED else SYVLANC_BREAKPOINT_ALREADY_EXISTS) (bp_map i)"
      proof (cases "inf_breakpoint_count i = MAX_BREAKPOINTS")
        case True
        then show ?thesis by (simp add: bp_step.set_full card)
      next
        case False
        then obtain l where "bp_map i a = Some l" using True bp_map_SomeD [of i a] by blast
        with False show ?thesis
          using bps_ok_countD [OF i(2)] by (auto simp: card intro: bp_step.set_twice)
      qed
      then show ?thesis
        unfolding BpSet bp_exec_def bp_cmd.case
        by (intro wp_mono [OF set_refused [OF i True]]) (simp add: bp_live_def bp_view_def i)
    next
      case False
      then have room: "inf_breakpoint_count i < MAX_BREAKPOINTS" and new: "bp_index i a = None"
        using bps_ok_countD [OF i(2)] by auto
      then have "bp_map i a = None" by (simp add: bp_map_None_iff)
      with room show ?thesis
        unfolding BpSet bp_exec_def bp_cmd.case
        by (intro wp_mono [OF set_spec [OF i room new]])
          (auto simp: bp_live_def bp_view_def i card intro!: bp_step.set_new)
    qed
  next
    case (BpUnset a)
    show ?thesis
    proof (cases "bp_index i a")
      case None
      then have "bp_map i a = None" by (simp add: bp_map_None_iff)
      with None show ?thesis
        unfolding BpUnset bp_exec_def bp_cmd.case
        by (intro wp_mono [OF unset_spec [OF i, where mem = "\<lambda>_ _ _. 0"]], elim exE conjE)
          (simp add: bp_live_def bp_view_def i bp_step.unset_absent)
    next
      case (Some n)
      then obtain l where l: "bp_map i a = Some l" using bp_map_SomeD [of i a] by blast
      show ?thesis
        unfolding BpUnset bp_exec_def bp_cmd.case
      proof (rule wp_mono [OF unset_spec [OF i, where mem = "\<lambda>_ _ _. 0"]], elim exE conjE, goal_cases)
        case (1 r s' i')
        with Some l show ?case
          by (cases "r = SYLVANC_OK") (simp_all add: bp_live_def bp_view_def i bp_step.unset_done bp_step.unset_failed)
      qed
    qed
  next
    case (BpEnable a)
    show ?thesis
    proof (cases "bp_index i a")
      case None
      then have "bp_map i a = None" by (simp add: bp_map_None_iff)
      with None show ?thesis
        unfolding BpEnable bp_exec_def bp_cmd.case
        by (intro wp_mono [OF enable_spec [OF i, where mem = "\<lambda>_ _ _. 0"]], elim exE conjE)
          (simp add: bp_live_def bp_view_def i bp_step.enable_absent table_step_def)
    next
      case (Some n)
      then obtain l where l: "bp_map i a = Some l" using bp_map_SomeD [of i a] by blast
      show ?thesis
        unfolding BpEnable bp_exec_def bp_cmd.case
      proof (rule wp_mono [OF enable_spec [OF i, where mem = "\<lambda>_ _ _. 0"]], elim exE conjE, goal_cases)
        case (1 r s' i')
        with Some l show ?case
          by (simp add: bp_live_def bp_view_def i table_step_def bp_step.enable_done)
      qed
    qed
  next
    case (BpDisable a)
    show ?thesis
    proof (cases "bp_index i a")
      case None
      then have "bp_map i a = None" by (simp add: bp_map_None_iff)
      with None show ?thesis
        unfolding BpDisable bp_exec_def bp_cmd.case
        by (intro wp_mono [OF disable_spec [OF i, where mem = "\<lambda>_ _ _. 0"]], elim exE conjE)
          (simp add: bp_live_def bp_view_def i bp_step.disable_absent table_step_def)
    next
      case (Some n)
      then obtain l where l: "bp_map i a = Some l" using bp_map_SomeD [of i a] by blast
      show ?thesis
        unfolding BpDisable bp_exec_def bp_cmd.case
      proof (rule wp_mono [OF disable_spec [OF i, where mem = "\<lambda>_ _ _. 0"]], elim exE conjE, goal_cases)
        case (1 r s' i')
        with Some l show ?case
          by (simp add: bp_live_def bp_view_def i table_step_def bp_step.disable_done)
      qed
    qed
  next
  case BpClear
    show ?thesis
      unfolding BpClear bp_exec_def bp_cmd.case
    proof (rule wp_mono [OF clearall_spec [OF i, where mem = "\<lambda>_ _ _. 0"]], elim exE conjE, goal_cases)
      case (1 r s' i')
      then show ?case
        by (cases "r = SYLVANC_OK") (simp_all add: bp_live_def bp_view_def i bp_step.clear_done bp_step.clear_failed)
    qed
  qed
qed

interpretation bp_serv: breakpoint_service "bp_exec os" bp_view bp_live
  by unfold_locales (rule exec_refines_live)

text \<open>The text of the process behind the breakpoints.\<close>

definition bp_text :: "(pid \<Rightarrow> 'w \<Rightarrow> memory) \<Rightarrow> ('w, 'm) dbg_scheme \<Rightarrow> memory" where
  "bp_text mem s = (case infp s of InfLive i \<Rightarrow> orig_view i (mem (inf_pid i) (world s)) | _ \<Rightarrow> \<lambda>_. 0)"

definition bp_active :: "'w os \<Rightarrow> (pid \<Rightarrow> 'w \<Rightarrow> memory) \<Rightarrow> ('w, 'm) dbg_scheme \<Rightarrow> bool" where
  "bp_active os mem s \<longleftrightarrow> tracee_memory os mem \<and> (\<exists>i. infp s = InfLive i \<and> bps_ok i \<and> isactive i)"

text \<open>
  A set is safe where the slot it takes is not marked as physically enabled. The code
  does not clear this mark when it gives up a slot.
\<close>

definition bp_ready :: "bp_cmd \<Rightarrow> ('w, 'm) dbg_scheme \<Rightarrow> bool" where
  "bp_ready c s \<longleftrightarrow> (\<forall>a i. c = BpSet a \<longrightarrow> infp s = InfLive i \<longrightarrow>
     inf_breakpoint_count i < MAX_BREAKPOINTS \<longrightarrow> \<not> is_enabled_phy (bp_at i (inf_breakpoint_count i)))"

lemma bp_activeE:
  assumes "bp_active os mem s"
  obtains i where "tracee_memory os mem" "infp s = InfLive i" "bps_ok i" "isactive i"
  using assms by (auto simp: bp_active_def)

lemma kept_text:
  assumes "infp s = InfLive i" "infp s' = InfLive i'" "inf_pid i' = inf_pid i" "kept mem i s i' s'"
  shows "bp_text mem s' = bp_text mem s"
  using assms by (simp add: bp_text_def kept_def Let_def)

text \<open>Every command keeps the process active and, where it is ready, the text.\<close>

lemma exec_text:
  assumes "bp_active os mem s"
  shows "wp (bp_exec os c) (\<lambda>r s'. bp_active os mem s' \<and> (bp_ready c s \<longrightarrow> bp_text mem s' = bp_text mem s)) s"
proof -
  obtain i where mem: "tracee_memory os mem" and i: "infp s = InfLive i" "bps_ok i" and act: "isactive i"
    using assms by (rule bp_activeE)
  have finish: "bp_active os mem s' \<and> (bp_ready c s \<longrightarrow> bp_text mem s' = bp_text mem s)"
    if "infp s' = InfLive i'" "bp_only i i'" "bps_ok i'" "bp_ready c s \<longrightarrow> kept mem i s i' s'" for s' i'
    using that mem i act kept_text [OF i(1) that(1) bp_onlyD(1) [OF that(2)]] bp_onlyD(3) [OF that(2)]
    by (auto simp: bp_active_def)
  show ?thesis
  proof (cases c)
    case (BpSet a)
    show ?thesis
    proof (cases "inf_breakpoint_count i = MAX_BREAKPOINTS \<or> bp_index i a \<noteq> None")
      case True
      show ?thesis
        unfolding BpSet bp_exec_def bp_cmd.case
      proof (rule wp_mono [OF set_refused [OF i True]], goal_cases)
        case (1 r s')
        with i have "kept mem i s i s'" by (intro kept_saved) simp_all
        with 1 i finish [of s' i] show ?case by (simp add: BpSet)
      qed
    next
      case False
      then have room: "inf_breakpoint_count i < MAX_BREAKPOINTS" and new: "bp_index i a = None"
        using bps_ok_countD [OF i(2)] by auto
      show ?thesis
        unfolding BpSet bp_exec_def bp_cmd.case
      proof (rule wp_mono [OF set_spec [OF i room new, where mem = mem]], elim exE conjE, goal_cases)
        case (1 r s' i')
        then show ?case
          using finish [of s' i'] mem room i by (simp add: BpSet bp_ready_def)
      qed
    qed
  next
    case (BpUnset a)
    show ?thesis
      unfolding BpUnset bp_exec_def bp_cmd.case
      by (rule wp_mono [OF unset_spec [OF i, where mem = mem]], elim exE conjE)
        (use finish mem act in \<open>simp add: BpUnset\<close>)
  next
    case (BpEnable a)
    show ?thesis
      unfolding BpEnable bp_exec_def bp_cmd.case
      by (rule wp_mono [OF enable_spec [OF i, where mem = mem]], elim exE conjE)
        (use finish mem act in \<open>simp add: BpEnable table_step_def\<close>)
  next
    case (BpDisable a)
    show ?thesis
      unfolding BpDisable bp_exec_def bp_cmd.case
      by (rule wp_mono [OF disable_spec [OF i, where mem = mem]], elim exE conjE)
        (use finish mem act in \<open>simp add: BpDisable table_step_def\<close>)
  next
    case BpClear
    show ?thesis
      unfolding BpClear bp_exec_def bp_cmd.case
      by (rule wp_mono [OF clearall_spec [OF i, where mem = mem]], elim exE conjE)
        (use finish mem act in \<open>simp add: BpClear\<close>)
  qed
qed

lemma bp_active_live: "bp_active os mem s \<Longrightarrow> bp_live s"
  by (auto simp: bp_active_def bp_live_def)

interpretation bp_txt: text_service "bp_exec os" bp_view "bp_active os mem" "bp_text mem" bp_ready for os mem
proof unfold_locales
  show "wp (bp_exec os c) (\<lambda>r s'. bp_active os mem s' \<and> bp_step (bp_view s) c r (bp_view s')) s"
    if "bp_active os mem s" for s c
    by (rule wp_mono [OF wp_conj [OF exec_text [OF that] exec_refines_live [OF bp_active_live [OF that]]]]) simp
  show "wp (bp_exec os c) (\<lambda>r s'. bp_text mem s' = bp_text mem s) s"
    if "bp_active os mem s" "bp_ready c s" for s c
    by (rule wp_mono [OF exec_text [OF that(1)]]) (use that(2) in simp)
qed (simp add: bp_ready_def)

end
