(* ===== verification/Inferior_Lemmas.thy ===== *)
theory Inferior_Lemmas
  imports Breakpoint_Service
begin

text \<open>
  The invariant of the inferior (\<open>inf_ok\<close>: the breakpoint table is well formed, a
  process is known exactly where the pid is positive, the symbol tables can be freed)
  and the rules that show that every function of \<open>inferior.c\<close> returns and keeps it.
\<close>


text \<open>The texts of the messages.\<close>

definition hex_text :: "64 word \<Rightarrow> string" where
  "hex_text w = (if w = 0 then digits 16 0 else ''0x'' @ digits 16 (unat w))"

lemma format_texts [formats]:
  "cformat ''Process %d exists but is not being traced'' [FInt i] =
     Some (''Process '' @ dec_string i @ '' exists but is not being traced'')"
  "cformat ''Process %d exited with code %d'' [FInt i, FInt j] =
     Some (''Process '' @ dec_string i @ '' exited with code '' @ dec_string j)"
  "cformat ''Process %d terminated by signal %d'' [FInt i, FInt j] =
     Some (''Process '' @ dec_string i @ '' terminated by signal '' @ dec_string j)"
  "cformat ''program stopped at %#lx'' [FLong w] =
     Some (''program stopped at '' @ hex_text w)"
  "cformat ''breakpoint %d at %#lx'' [FInt i, FLong w] =
     Some (''breakpoint '' @ dec_string i @ '' at '' @ hex_text w)"
  "cformat ''Process %d does not exist'' [FInt i] =
     Some (''Process '' @ dec_string i @ '' does not exist'')"
  "cformat ''Permission denied to attach to process %d'' [FInt i] =
     Some (''Permission denied to attach to process '' @ dec_string i)"
  "cformat ''Process %d disappeared during attach'' [FInt i] =
     Some (''Process '' @ dec_string i @ '' disappeared during attach'')"
  "cformat ''Process %d exited during attach'' [FInt i] =
     Some (''Process '' @ dec_string i @ '' exited during attach'')"
  "cformat ''Process %d terminated during attach'' [FInt i] =
     Some (''Process '' @ dec_string i @ '' terminated during attach'')"
  "cformat ''Child process exited with code %d'' [FInt i] =
     Some (''Child process exited with code '' @ dec_string i)"
  "cformat ''Process %d is already running'' [FInt i] =
     Some (''Process '' @ dec_string i @ '' is already running'')"
  "cformat ''Process %d is not in a stopped state'' [FInt i] =
     Some (''Process '' @ dec_string i @ '' is not in a stopped state'')"
  "cformat ''/proc/%d/exe'' [FInt i] =
     Some (''/proc/'' @ dec_string i @ ''/exe'')"
  "cformat ''Cannot read address %lx'' [FLong w] =
     Some (''Cannot read address '' @ digits 16 (unat w))"
  "cformat ''Invalid address 0x%lx'' [FLong w] =
     Some (''Invalid address 0x'' @ digits 16 (unat w))"
  by (simp_all add: format_simps hex_text_def hex_string_def unat_eq_0)

lemma quoted_texts:
  "cformat (''Process %d doesn'' @ [CHR 0x27] @ ''t exist'') [FInt i] =
     Some (''Process '' @ dec_string i @ '' doesn'' @ [CHR 0x27] @ ''t exist'')"
  "cformat (''File '' @ [CHR 0x27] @ ''%s'' @ [CHR 0x27] @ '' is not executable'') [FStr t] =
     Some (''File '' @ [CHR 0x27] @ t @ [CHR 0x27] @ '' is not executable'')"
  "cformat (''File '' @ [CHR 0x27] @ ''%.256s...'' @ [CHR 0x27] @ '' is not executable'') [FStr t] =
     Some (''File '' @ [CHR 0x27] @ take 256 t @ ''...'' @ [CHR 0x27] @ '' is not executable'')"
  by (simp_all add: format_simps hex_text_def hex_string_def unat_eq_0)

lemmas quoted_texts_simplified [formats] = quoted_texts [simplified]

section \<open>Waiting\<close>

text \<open>
  A repeated \<open>waitpid\<close> returns, with a classified status; the world afterwards is
  arbitrary.
\<close>

lemma wp_waitpid:
  fixes s :: "('w, 'm) dbg_scheme"
  assumes "wait_settles os" "wait_classified os"
    and Q: "\<And>r e w. (\<forall>q st. r = Inr (q, st) \<longrightarrow> q \<noteq> 0 \<or> \<not> nohang \<longrightarrow> classified st) \<Longrightarrow> (\<forall>x. r = Inl x \<longrightarrow> e = x) \<Longrightarrow>
      Q r (s\<lparr>errno := e, world := w\<rparr>)"
  shows "wp (sys_retry (os_waitpid os p nohang)) Q s"
proof -
  obtain n where "eintr_after (os_waitpid os p nohang) n (world s)"
    using assms(1) unfolding wait_settles_def by blast
  then show ?thesis
  proof (rule wp_sys_retry [where I = "\<lambda>_. True"])
    fix r w0 w e
    assume "os_waitpid os p nohang w0 = (r, w)" "\<forall>x. r = Inl x \<longrightarrow> e = x"
    then show "Q r (s\<lparr>errno := e, world := w\<rparr>)"
      using assms(2) unfolding wait_classified_def by (intro Q) blast+
  qed simp_all
qed


section \<open>The state of the process\<close>

text \<open>A process is known exactly where its pid is positive.\<close>

definition inf_ok :: "inferior \<Rightarrow> bool" where
  "inf_ok i \<longleftrightarrow> bps_ok i \<and> (isactive i \<longleftrightarrow> 0 < inf_pid i) \<and>
     searchable (inf_elf_table i) \<and> searchable (inf_dwarf_table i)"

lemma inf_okD: "inf_ok i \<Longrightarrow> bps_ok i" "inf_ok i \<Longrightarrow> isactive i = (0 < inf_pid i)"
  "inf_ok i \<Longrightarrow> freeable (inf_elf_table i)" "inf_ok i \<Longrightarrow> freeable (inf_dwarf_table i)"
  by (simp_all add: inf_ok_def searchable_freeable)

text \<open>What each code of \<open>sylvan_update_inf_status\<close> says of the inferior.\<close>

definition status_after :: "sylvan_code \<Rightarrow> inferior \<Rightarrow> inferior \<Rightarrow> bool" where
  "status_after c i i' \<longleftrightarrow>
     (if c = SYLVANC_OK
      then i' = i \<or> i' = i\<lparr>inf_status := SYLVAN_INFSTATE_STOPPED\<rparr> \<or> i' = i\<lparr>inf_status := SYLVAN_INFSTATE_RUNNING\<rparr>
      else if c = SYLVANC_PROC_EXITED then i' = i\<lparr>inf_status := SYLVAN_INFSTATE_EXITED, inf_pid := 0\<rparr>
      else if c = SYLVANC_PROC_TERMINATED then i' = i\<lparr>inf_status := SYLVAN_INFSTATE_TERMINATED, inf_pid := 0\<rparr>
      else if c = SYLVANC_PROC_NOT_FOUND
      then i' = i\<lparr>inf_status := SYLVAN_INFSTATE_NONE, inf_pid := 0, inf_is_attached := False\<rparr>
      else if c \<in> {SYLVANC_PROC_STOPPED, SYVLANC_BREAKPOINT_HIT, SYLVANC_PTRACE_ERROR, SYLVANC_PTRACE_GETREGS_FAILED}
      then i' = i\<lparr>inf_status := SYLVAN_INFSTATE_STOPPED\<rparr>
      else i' = i \<and> c \<in> {SYLVANC_WAITPID_FAILED, SYLVANC_PROC_NOT_ATTACHED, SYLVANC_SYSTEM_ERROR,
        SYLVANC_INVALID_STATE}) \<and> (c = SYLVANC_INVALID_STATE \<longleftrightarrow> inf_pid i \<le> 0)"

lemma bps_ok_cong:
  "inf_breakpoints i' = inf_breakpoints i \<Longrightarrow> inf_breakpoint_count i' = inf_breakpoint_count i \<Longrightarrow> bps_ok i' = bps_ok i"
  by (simp add: bps_ok_def)

lemma bp_index_status [simp]: "bp_index (inf_status_update f i) a = bp_index i a"
  by (simp add: bp_index_def)

lemma bps_ok_status [simp]: "bps_ok (inf_status_update f i) = bps_ok i"
  by (simp add: bps_ok_def)

lemma status_lost_spec:
  assumes "infp s = InfLive i" "0 < inf_pid i"
  shows "wp (status_lost os i e) (\<lambda>c s'. lib_frame s s' \<and> (\<exists>i'. infp s' = InfLive i' \<and> status_after c i i')) s"
  using assms
  by (auto simp: status_lost_def wp_simps snprintf_def cformat_plain formats status_after_def
      split: sum.splits prod.splits)

lemma stop_reason_spec:
  assumes s: "infp s = InfLive (i\<lparr>inf_status := SYLVAN_INFSTATE_STOPPED\<rparr>)" "bps_ok i" "0 < inf_pid i"
  shows "wp (stop_reason os i) (\<lambda>c s'. lib_frame s s' \<and> infp s' = infp s \<and>
    c \<in> {SYLVANC_OK, SYLVANC_PROC_STOPPED, SYVLANC_BREAKPOINT_HIT, SYLVANC_PTRACE_ERROR, SYLVANC_PTRACE_GETREGS_FAILED}) s"
  using s
  by (auto simp: stop_reason_def wp_simps snprintf_def cformat_plain formats bps_ok_slot_lt
      split: sum.splits prod.splits option.splits dest!: bp_index_SomeD)

lemma status_reported_spec:
  assumes s: "infp s = InfLive i" "bps_ok i" "0 < inf_pid i" and st: "classified st"
  shows "wp (status_reported os i blocking st)
    (\<lambda>c s'. lib_frame s s' \<and> (\<exists>i'. infp s' = InfLive i' \<and> status_after c i i')) s"
proof -
  let ?t = "s\<lparr>infp := InfLive (i\<lparr>inf_status := SYLVAN_INFSTATE_STOPPED\<rparr>)\<rparr>"
  have "wp (stop_reason os i) (\<lambda>c s'. lib_frame ?t s' \<and> infp s' = infp ?t \<and>
    c \<in> {SYLVANC_OK, SYLVANC_PROC_STOPPED, SYVLANC_BREAKPOINT_HIT, SYLVANC_PTRACE_ERROR, SYLVANC_PTRACE_GETREGS_FAILED}) ?t"
    using s by (intro stop_reason_spec) simp_all
  then have stop: "wp (stop_reason os i) (\<lambda>c s'. lib_frame s s' \<and> (\<exists>i'. infp s' = InfLive i' \<and> status_after c i i')) ?t"
  proof (rule wp_mono, elim conjE)
    fix c s'
    assume h: "lib_frame ?t s'" "infp s' = infp ?t" "c \<in> {SYLVANC_OK, SYLVANC_PROC_STOPPED,
      SYVLANC_BREAKPOINT_HIT, SYLVANC_PTRACE_ERROR, SYLVANC_PTRACE_GETREGS_FAILED}"
    from h(3) s(3) have "status_after c i (i\<lparr>inf_status := SYLVAN_INFSTATE_STOPPED\<rparr>)"
      by (auto simp: status_after_def)
    with h(1,2) show "lib_frame s s' \<and> (\<exists>i'. infp s' = InfLive i' \<and> status_after c i i')" by simp
  qed
  show ?thesis
    using s st stop
    by (auto simp: status_reported_def wp_simps snprintf_def formats status_after_def classified_def)
qed

lemma update_status_spec [wp_specs]:
  assumes os: "wait_settles os" "wait_classified os" and s: "infp s = InfLive i" "bps_ok i"
  shows "wp (sylvan_update_inf_status os blocking)
    (\<lambda>c s'. lib_frame s s' \<and> (\<exists>i'. infp s' = InfLive i' \<and> status_after c i i')) s"
proof (cases "inf_pid i \<le> 0")
  case True
  with s show ?thesis
    by (simp add: sylvan_update_inf_status_def wp_simps snprintf_def cformat_plain status_after_def)
next
  case False
  have "wp (sys_retry (os_waitpid os (inf_pid i) (\<not> blocking))) (\<lambda>r. wp (case r of
         Inl e \<Rightarrow> status_lost os i e
       | Inr (res, st) \<Rightarrow> if res = 0 then ret SYLVANC_OK else status_reported os i blocking st)
      (\<lambda>c s'. lib_frame s s' \<and> (\<exists>i'. infp s' = InfLive i' \<and> status_after c i i'))) s"
  proof (rule wp_waitpid [OF os])
    fix r :: "int + pid \<times> wait_status" and e w
    let ?t = "s\<lparr>errno := e, world := w\<rparr>"
    assume "\<forall>q st. r = Inr (q, st) \<longrightarrow> q \<noteq> 0 \<or> \<not> \<not> blocking \<longrightarrow> classified st"
    then have r: "\<forall>q st. r = Inr (q, st) \<longrightarrow> q \<noteq> 0 \<longrightarrow> classified st" by blast
    have ok: "status_after SYLVANC_OK i i" using False by (simp add: status_after_def)
    have t: "infp ?t = InfLive i" "0 < inf_pid i" using s(1) False by simp_all
    show "wp (case r of
         Inl e \<Rightarrow> status_lost os i e
       | Inr (res, st) \<Rightarrow> if res = 0 then ret SYLVANC_OK else status_reported os i blocking st)
      (\<lambda>c s'. lib_frame s s' \<and> (\<exists>i'. infp s' = InfLive i' \<and> status_after c i i')) ?t"
      using status_lost_spec [OF t] status_reported_spec [OF t(1) s(2) t(2)] r t(1) ok
      by (auto simp: wp_ret split: sum.splits)
  qed
  with False s(1) show ?thesis
    by (simp add: sylvan_update_inf_status_def wp_assert_inf wp_get_inf wp_bnd)
qed

section \<open>The invariant\<close>

definition system_ok :: "'w os \<Rightarrow> bool" where
  "system_ok os \<longleftrightarrow> wait_settles os \<and> wait_classified os"

definition inf_inv :: "('w, 'm) dbg_scheme \<Rightarrow> bool" where
  "inf_inv s \<longleftrightarrow> (\<exists>i. infp s = InfLive i \<and> inf_ok i)"

text \<open>
  \<open>keeps_inv m\<close>: from a valid state, \<open>m\<close> returns, no assertion fails, nothing undefined
  happens, and the state is valid again.
\<close>

definition keeps_inv :: "('w, 'm, 'a) lib \<Rightarrow> bool" where
  "keeps_inv m \<longleftrightarrow> (\<forall>s. inf_inv s \<longrightarrow> wp m (\<lambda>_. inf_inv) s)"

lemma keeps_invD: "keeps_inv m \<Longrightarrow> inf_inv s \<Longrightarrow> wp m (\<lambda>_. inf_inv) s"
  by (simp add: keeps_inv_def)

lemma keeps_invI: "(\<And>s i. infp s = InfLive i \<Longrightarrow> inf_ok i \<Longrightarrow> wp m (\<lambda>_. inf_inv) s) \<Longrightarrow> keeps_inv m"
  by (auto simp: keeps_inv_def inf_inv_def)

lemma inf_invI: "infp s = InfLive i \<Longrightarrow> inf_ok i \<Longrightarrow> inf_inv s"
  by (auto simp: inf_inv_def)

lemma inf_inv_updates [simp]:
  "inf_inv (s\<lparr>sylvan_last_error := e\<rparr>) = inf_inv s" "inf_inv (s\<lparr>errno := n\<rparr>) = inf_inv s"
  "inf_inv (s\<lparr>world := w\<rparr>) = inf_inv s" "inf_inv (s\<lparr>infp := InfLive i\<rparr>) = inf_ok i"
  by (simp_all add: inf_inv_def)

lemma status_after_ok: "status_after c i i' \<Longrightarrow> inf_ok i \<Longrightarrow> inf_ok i'"
  by (auto simp: status_after_def inf_ok_def isactive_def bps_ok_def split: if_splits)

lemma forget_ok [simp]: "inf_ok i \<Longrightarrow> inf_ok (forget_process i)"
  by (simp add: inf_ok_def forget_process_def isactive_def bps_ok_def)

lemma bp_only_ok: "bp_only i i' \<Longrightarrow> bps_ok i' \<Longrightarrow> inf_ok i \<Longrightarrow> inf_ok i'"
  by (simp add: inf_ok_def bp_onlyD)

text \<open>Composition.\<close>

lemma keeps_bnd: "keeps_inv m \<Longrightarrow> (\<And>a. keeps_inv (k a)) \<Longrightarrow> keeps_inv (bnd m k)"
  unfolding keeps_inv_def by (auto intro: wp_bndI)

lemma keeps_ret: "keeps_inv (ret a)"
  by (simp add: keeps_inv_def wp_simps)

lemma keeps_on_ok: "keeps_inv m \<Longrightarrow> keeps_inv k \<Longrightarrow> keeps_inv (on_ok m k)"
  unfolding on_ok_def by (rule keeps_bnd) (auto simp: keeps_ret)

lemma keeps_sys: "keeps_inv (sys c)"
  by (auto simp: keeps_inv_def wp_simps split: prod.splits sum.splits)

lemma keeps_waitpid: "system_ok os \<Longrightarrow> keeps_inv (sys_retry (os_waitpid os p b))"
  unfolding keeps_inv_def system_ok_def by (auto intro: wp_waitpid)

lemma keeps_set_code: "keeps_inv (sylvan_set_code c)"
  by (simp add: keeps_inv_def wp_simps)

lemma keeps_errno_msg: "cformat fmt args \<noteq> None \<Longrightarrow> keeps_inv (sylvan_set_errno_msg os c fmt args)"
  by (auto simp: keeps_inv_def wp_simps)

lemma keeps_message: "cformat fmt args \<noteq> None \<Longrightarrow> keeps_inv (sylvan_set_message c fmt args)"
  by (auto simp: keeps_inv_def wp_simps snprintf_def)

lemma keeps_check_inf: "keeps_inv m \<Longrightarrow> keeps_inv (check_inf m)"
  by (auto simp: keeps_inv_def inf_inv_def wp_simps)

lemma keeps_assert_inf: "keeps_inv m \<Longrightarrow> keeps_inv (assert_inf m)"
  by (auto simp: keeps_inv_def inf_inv_def wp_simps)

lemma keeps_get_inf: "(\<And>i. inf_ok i \<Longrightarrow> keeps_inv (k i)) \<Longrightarrow> keeps_inv (bnd get_inf k)"
  by (auto simp: keeps_inv_def inf_inv_def wp_simps)

lemma keeps_upd_inf: "(\<And>i. inf_ok i \<Longrightarrow> inf_ok (f i)) \<Longrightarrow> keeps_inv (upd_inf f)"
  by (auto simp: keeps_inv_def inf_inv_def wp_simps)

lemma keeps_if: "(b \<Longrightarrow> keeps_inv m) \<Longrightarrow> (\<not> b \<Longrightarrow> keeps_inv m') \<Longrightarrow> keeps_inv (if b then m else m')"
  by simp

lemma keeps_case_sum: "(\<And>e. keeps_inv (f e)) \<Longrightarrow> (\<And>r. keeps_inv (g r)) \<Longrightarrow> keeps_inv (case x of Inl e \<Rightarrow> f e | Inr r \<Rightarrow> g r)"
  by (cases x) auto

lemma keeps_case_option: "keeps_inv m \<Longrightarrow> (\<And>r. keeps_inv (g r)) \<Longrightarrow> keeps_inv (case x of None \<Rightarrow> m | Some r \<Rightarrow> g r)"
  by (cases x) auto

lemma keeps_case_prod: "(\<And>a b. keeps_inv (f a b)) \<Longrightarrow> keeps_inv (case x of (a, b) \<Rightarrow> f a b)"
  by (cases x) auto

lemmas keeps_rules = keeps_message keeps_errno_msg keeps_ret keeps_on_ok keeps_sys keeps_set_code keeps_check_inf keeps_assert_inf keeps_get_inf
  keeps_case_sum keeps_case_option keeps_case_prod keeps_if keeps_bnd

lemma status_after_bps: "status_after c i i' \<Longrightarrow> bps_ok i \<Longrightarrow> bps_ok i'"
  by (auto simp: status_after_def bps_ok_def split: if_splits)

lemma status_after_stays: "status_after SYLVANC_OK i i' \<Longrightarrow> isactive i \<Longrightarrow> isactive i'"
  by (auto simp: status_after_def isactive_def)

lemma status_after_active: "status_after SYLVANC_OK i i' \<Longrightarrow> inf_ok i \<Longrightarrow> isactive i'"
  by (auto simp: status_after_def inf_ok_def isactive_def)

lemma update_status_inv:
  assumes "system_ok os" "infp s = InfLive i" "inf_ok i"
  shows "wp (sylvan_update_inf_status os b) (\<lambda>c s'. lib_frame s s' \<and>
    (\<exists>i'. infp s' = InfLive i' \<and> inf_ok i' \<and> status_after c i i')) s"
  using assms update_status_spec [of os s i b] status_after_ok [of _ i]
  by (force simp: system_ok_def inf_okD elim: wp_mono)

lemma keeps_update_status: "system_ok os \<Longrightarrow> keeps_inv (sylvan_update_inf_status os b)"
  by (rule keeps_invI, rule wp_mono [OF update_status_inv]) (auto intro: inf_invI)

lemma keeps_kill: "system_ok os \<Longrightarrow> keeps_inv (sylvan_kill os)"
  unfolding sylvan_kill_def
  by (intro keeps_rules keeps_waitpid keeps_upd_inf) (simp_all add: cformat_plain)

text \<open>Continuing with \<open>k\<close> only where \<open>m\<close> succeeded and left a process.\<close>

lemma wp_on_ok_active:
  assumes "wp m (\<lambda>c s'. inf_inv s' \<and> (c = SYLVANC_OK \<longrightarrow> (\<exists>i. infp s' = InfLive i \<and> inf_ok i \<and> isactive i))) s"
    and "\<And>t i. infp t = InfLive i \<Longrightarrow> inf_ok i \<Longrightarrow> isactive i \<Longrightarrow> wp k (\<lambda>_. inf_inv) t"
  shows "wp (on_ok m k) (\<lambda>_. inf_inv) s"
  unfolding wp_on_ok by (rule wp_mono [OF assms(1)]) (use assms(2) in auto)

lemma table_step_inv:
  "table_step os mem i s i' s' \<Longrightarrow> inf_ok i \<Longrightarrow> infp s' = InfLive i' \<and> inf_ok i' \<and> isactive i' = isactive i"
  by (auto simp: table_step_def bp_onlyD intro: bp_only_ok)

lemma unsetall_inv:
  assumes "infp s = InfLive i" "inf_ok i" "isactive i"
  shows "wp (sylvan_breakpoint_unsetall_phybp os) (\<lambda>c s'. inf_inv s' \<and>
    (c = SYLVANC_OK \<longrightarrow> (\<exists>i. infp s' = InfLive i \<and> inf_ok i \<and> isactive i))) s"
  by (rule wp_mono [OF unsetall_spec [OF assms(1) inf_okD(1) [OF assms(2)] assms(3), where mem = "\<lambda>_ _ _. 0"]])
    (use assms table_step_inv in \<open>fastforce intro: inf_invI\<close>)

lemma setall_inv:
  assumes "infp s = InfLive i" "inf_ok i" "isactive i"
  shows "wp (sylvan_breakpoint_setall_phybp os) (\<lambda>c s'. inf_inv s' \<and>
    (c = SYLVANC_OK \<longrightarrow> (\<exists>i. infp s' = InfLive i \<and> inf_ok i \<and> isactive i))) s"
  by (rule wp_mono [OF setall_spec [OF assms(1) inf_okD(1) [OF assms(2)] assms(3), where mem = "\<lambda>_ _ _. 0"]])
    (use assms table_step_inv in \<open>fastforce intro: inf_invI\<close>)

lemma wp_on_ok_inv:
  assumes "wp m (\<lambda>c s'. inf_inv s' \<and> (c = SYLVANC_OK \<longrightarrow> (\<exists>i. infp s' = InfLive i \<and> inf_ok i \<and> isactive i))) s"
    and "keeps_inv k"
  shows "wp (on_ok m k) (\<lambda>_. inf_inv) s"
  by (rule wp_on_ok_active [OF assms(1)]) (use assms(2) in \<open>auto dest: keeps_invD intro: inf_invI\<close>)

lemma keeps_release: "keeps_inv (detach_release os)"
  unfolding detach_release_def by (intro keeps_rules keeps_upd_inf) (simp_all add: cformat_plain)

lemma keeps_detach:
  assumes os: "system_ok os"
  shows "keeps_inv (sylvan_detach os)"
proof (rule keeps_invI)
  fix s :: "('a, 'b) dbg_scheme" and i
  assume i: "infp s = InfLive i" "inf_ok i"
  have "wp (bnd (sylvan_update_inf_status os False) (\<lambda>code.
       if code = SYLVANC_PROC_EXITED \<or> code = SYLVANC_PROC_TERMINATED then ret SYLVANC_OK
       else if code \<noteq> SYLVANC_OK then ret code
       else on_ok (sylvan_breakpoint_unsetall_phybp os) (detach_release os))) (\<lambda>_. inf_inv) s"
  proof (rule wp_bndI [OF update_status_inv [OF os i]], elim conjE exE, goal_cases)
    case (1 c t j)
    then have "wp (on_ok (sylvan_breakpoint_unsetall_phybp os) (detach_release os)) (\<lambda>_. inf_inv) t"
      if "c = SYLVANC_OK"
      using that status_after_active [of i j] i(2) by (intro wp_on_ok_inv [OF unsetall_inv keeps_release]) auto
    with 1 show ?case by (auto simp: wp_ret intro: inf_invI)
  qed
  then show "wp (sylvan_detach os) (\<lambda>_. inf_inv) s"
    using i by (simp add: sylvan_detach_def wp_check_inf wp_bnd wp_get_inf wp_set_message snprintf_def cformat_plain
        inf_inv_def)
qed

lemma keeps_terminate: "system_ok os \<Longrightarrow> keeps_inv (sylvan_terminate_or_detach os)"
  unfolding sylvan_terminate_or_detach_def
  by (intro keeps_rules keeps_kill keeps_detach)

lemma keeps_validate: "system_ok os \<Longrightarrow> keeps_inv (sylvan_validate_process_state os)"
  unfolding sylvan_validate_process_state_def
  by (intro keeps_rules keeps_update_status) (simp_all add: formats)

lemma keeps_set_regs: "system_ok os \<Longrightarrow> keeps_inv (sylvan_set_regs os regs)"
  unfolding sylvan_set_regs_def
  by (intro keeps_rules keeps_update_status) (simp_all add: cformat_plain)

lemma keeps_is_null: "(\<And>b. keeps_inv (k b)) \<Longrightarrow> keeps_inv (bnd is_null k)"
  by (auto simp: keeps_inv_def wp_simps)

lemma keeps_get_regs: "system_ok os \<Longrightarrow> keeps_inv (sylvan_get_regs os)"
  unfolding sylvan_get_regs_def
  by (intro keeps_is_null keeps_rules keeps_update_status) (simp_all add: cformat_plain)

lemma keeps_set_args: "keeps_inv (sylvan_set_args os a)"
  unfolding sylvan_set_args_def
  by (intro keeps_rules keeps_upd_inf) (auto simp: inf_ok_def isactive_def bps_ok_def)


section \<open>Breakpoints and resuming\<close>

lemma slot_step_inv:
  assumes "slot_step os mem n i s b s'" "inf_ok i" "n < inf_breakpoint_count i"
  shows "infp s' = InfLive (set_slot n b i) \<and> inf_ok (set_slot n b i)"
  using assms by (auto simp: slot_step_def inf_ok_def bps_ok_set_slot)

lemma enable_ptr_inv:
  assumes "infp s = InfLive i" "inf_ok i" "n < inf_breakpoint_count i"
  shows "wp (sylvan_breakpoint_enable_ptr os n) (\<lambda>c s'. \<exists>b. infp s' = InfLive (set_slot n b i) \<and> inf_ok (set_slot n b i)) s"
  by (rule wp_mono [OF enable_ptr_spec [OF assms(1) inf_okD(1) [OF assms(2)] assms(3), where mem = "\<lambda>_ _ _. 0"]])
    (use assms slot_step_inv in blast)

lemma disable_ptr_inv:
  assumes "infp s = InfLive i" "inf_ok i" "n < inf_breakpoint_count i"
  shows "wp (sylvan_breakpoint_disable_ptr os n) (\<lambda>c s'. \<exists>b. infp s' = InfLive (set_slot n b i) \<and> inf_ok (set_slot n b i)) s"
  by (rule wp_mono [OF disable_ptr_spec [OF assms(1) inf_okD(1) [OF assms(2)] assms(3), where mem = "\<lambda>_ _ _. 0"]])
    (use assms slot_step_inv in blast)

lemma status_after_count: "status_after c i i' \<Longrightarrow> inf_breakpoint_count i' = inf_breakpoint_count i"
  by (auto simp: status_after_def split: if_splits)

lemma step_over_inv:
  assumes os: "system_ok os" and s: "infp s = InfLive i" "inf_ok i" "n < inf_breakpoint_count i"
  shows "wp (step_over os p n) (\<lambda>_. inf_inv) s"
proof -
  have en: "wp (on_ok (sylvan_breakpoint_enable_ptr os n) (ret SYLVANC_OK)) (\<lambda>_. inf_inv) u"
    if "infp u = InfLive j" "inf_ok j" "n < inf_breakpoint_count j" for u :: "('a, 'b) dbg_scheme" and j
    unfolding wp_on_ok by (rule wp_mono [OF enable_ptr_inv [OF that]]) (auto simp: wp_ret intro: inf_invI)
  have up: "wp (on_ok (sylvan_update_inf_status os True)
      (on_ok (sylvan_breakpoint_enable_ptr os n) (ret SYLVANC_OK))) (\<lambda>_. inf_inv) u"
    if j: "infp u = InfLive j" "inf_ok j" "n < inf_breakpoint_count j" for u :: "('a, 'b) dbg_scheme" and j
    unfolding wp_on_ok [of "sylvan_update_inf_status os True"]
    by (rule wp_mono [OF update_status_inv [OF os j(1,2)]])
      (use j(3) status_after_count en in \<open>fastforce intro: inf_invI\<close>)
  have st: "wp (bnd (sys (os_step os p)) (\<lambda>r.
         case r of
           Inl _ \<Rightarrow> sylvan_set_errno_msg os SYLVANC_PTRACE_STEP_FAILED ''ptrace single step'' []
         | Inr _ \<Rightarrow> on_ok (sylvan_update_inf_status os True)
             (on_ok (sylvan_breakpoint_enable_ptr os n) (ret SYLVANC_OK)))) (\<lambda>_. inf_inv) u"
    if j: "infp u = InfLive j" "inf_ok j" "n < inf_breakpoint_count j" for u :: "('a, 'b) dbg_scheme" and j
    using j up by (auto simp: wp_bnd wp_sys wp_set_errno_msg cformat_plain inf_inv_def split: prod.splits sum.splits)
  show ?thesis
    unfolding step_over_def wp_on_ok [of "sylvan_breakpoint_disable_ptr os n"]
    by (rule wp_mono [OF disable_ptr_inv [OF s]]) (use st s(3) in \<open>force intro: inf_invI\<close>)
qed

lemma keeps_handle_breakpoint:
  assumes os: "system_ok os"
  shows "keeps_inv (sylvan_handle_breakpoint_at_current_addr os)"
proof (rule keeps_invI)
  fix s :: "('a, 'b) dbg_scheme" and i
  assume i: "infp s = InfLive i" "inf_ok i"
  have over: "wp (step_over os p n) (\<lambda>_. inf_inv) u"
    if "infp u = InfLive i" "n < inf_breakpoint_count i" for u :: "('a, 'b) dbg_scheme" and n p
    using step_over_inv [OF os that(1) i(2) that(2)] .
  show "wp (sylvan_handle_breakpoint_at_current_addr os) (\<lambda>_. inf_inv) s"
    using i inf_okD(1) [OF i(2)] over
    by (auto simp: sylvan_handle_breakpoint_at_current_addr_def wp_simps cformat_plain inf_inv_def bps_ok_slot_lt
        split: prod.splits sum.splits option.splits dest: bp_index_SomeD)
qed

lemma keeps_continue: "system_ok os \<Longrightarrow> keeps_inv (sylvan_continue os)"
  unfolding sylvan_continue_def
  by (intro keeps_rules keeps_validate keeps_handle_breakpoint keeps_update_status) (simp_all add: cformat_plain)

lemma keeps_stepinst: "system_ok os \<Longrightarrow> keeps_inv (sylvan_stepinst os)"
  unfolding sylvan_stepinst_def
  by (intro keeps_rules keeps_validate keeps_handle_breakpoint keeps_update_status) (simp_all add: cformat_plain)

text \<open>The breakpoint commands change nothing else of the inferior.\<close>

lemma exec_bp_only:
  assumes i: "infp s = InfLive i" "bps_ok i"
  shows "wp (bp_exec os c) (\<lambda>r s'. \<exists>i'. infp s' = InfLive i' \<and> bp_only i i' \<and> bps_ok i') s"
proof (cases c)
  case (BpSet a)
  show ?thesis
  proof (cases "inf_breakpoint_count i = MAX_BREAKPOINTS \<or> bp_index i a \<noteq> None")
    case True
    with i show ?thesis
      unfolding BpSet bp_exec_def bp_cmd.case by (intro wp_mono [OF set_refused [OF i True]]) simp
  next
    case False
    then have "inf_breakpoint_count i < MAX_BREAKPOINTS" "bp_index i a = None" using bps_ok_countD [OF i(2)] by auto
    then show ?thesis
      unfolding BpSet bp_exec_def bp_cmd.case
      by (intro wp_mono [OF set_spec [OF i, where mem = "\<lambda>_ _ _. 0"]]) blast+
  qed
next
  case (BpUnset a)
  show ?thesis
    unfolding BpUnset bp_exec_def bp_cmd.case
    by (rule wp_mono [OF unset_spec [OF i, where mem = "\<lambda>_ _ _. 0"]]) blast
next
  case (BpEnable a)
  show ?thesis
    unfolding BpEnable bp_exec_def bp_cmd.case
    by (rule wp_mono [OF enable_spec [OF i, where mem = "\<lambda>_ _ _. 0"]]) (auto simp: table_step_def)
next
  case (BpDisable a)
  show ?thesis
    unfolding BpDisable bp_exec_def bp_cmd.case
    by (rule wp_mono [OF disable_spec [OF i, where mem = "\<lambda>_ _ _. 0"]]) (auto simp: table_step_def)
next
  case BpClear
  show ?thesis
    unfolding BpClear bp_exec_def bp_cmd.case
    by (rule wp_mono [OF clearall_spec [OF i, where mem = "\<lambda>_ _ _. 0"]]) blast
qed

lemma keeps_bp_exec: "keeps_inv (bp_exec os c)"
  by (rule keeps_invI, rule wp_mono [OF exec_bp_only]) (auto simp: inf_okD intro: inf_invI bp_only_ok)


section \<open>Symbols and attaching\<close>

text \<open>
  Memory never runs out, and whatever file is opened, its symbol tables state the size of
  their entries. Opening or reading a file may fail at any step, and its contents may differ
  from one time to the next.
\<close>

definition symbols_ok :: "'w os \<Rightarrow> bool" where
  "symbols_ok os \<longleftrightarrow> malloc_succeeds os \<and>
     (\<forall>path w. \<forall>sc \<in> set (elf_sections (fst (os_elf os path w))). entries_sized sc)"

text \<open>The state at each point of loading: the tables of the inferior are replaced by others.\<close>

definition other_tables :: "inferior \<Rightarrow> ('w, 'm) dbg_scheme \<Rightarrow> ('w, 'm) dbg_scheme \<Rightarrow> bool" where
  "other_tables i s s' \<longleftrightarrow> lib_frame s s' \<and> (\<exists>dt et.
     infp s' = InfLive (i\<lparr>inf_dwarf_table := dt, inf_elf_table := et\<rparr>) \<and> table_ok dt \<and> table_ok et)"

lemma other_tablesE:
  assumes "other_tables i s s'"
  obtains dt et where "infp s' = InfLive (i\<lparr>inf_dwarf_table := dt, inf_elf_table := et\<rparr>)" "table_ok dt" "table_ok et" "lib_frame s s'"
  using assms by (auto simp: other_tables_def)

lemma other_tablesI:
  "infp s' = InfLive (i\<lparr>inf_dwarf_table := dt, inf_elf_table := et\<rparr>) \<Longrightarrow> table_ok dt \<Longrightarrow> table_ok et \<Longrightarrow> lib_frame s s' \<Longrightarrow>
     other_tables i s s'"
  by (auto simp: other_tables_def)

lemma load_elf_keep:
  assumes os: "symbols_ok os" and t: "table_ok t"
  shows "wp (sylvan_sym_load_elf os path t) (\<lambda>(c, t') s'. table_ok t' \<and> infp s' = infp s \<and> lib_frame s s') s"
proof -
  obtain e w where e: "os_elf os path (world s) = (e, w)" by fastforce
  have secs: "\<forall>sc \<in> set (elf_sections e). entries_sized sc" using os e unfolding symbols_ok_def by (metis fst_conv)
  have "wp (fold_prog (load_elf_section os) (elf_sections e) t) (\<lambda>t' s'. table_ok t' \<and>
      contents t' = contents t @ concat (map section_symbols (elf_sections e)) \<and>
      world_only (s\<lparr>world := w\<rparr>) s') (s\<lparr>world := w\<rparr>)"
    using os secs t by (intro appendsD [OF appends_sections]) (simp_all add: symbols_ok_def)
  then have "wp (fold_prog (load_elf_section os) (elf_sections e) t)
      (\<lambda>t' s'. table_ok t' \<and> infp s' = infp s \<and> lib_frame s s') (s\<lparr>world := w\<rparr>)"
    by (rule wp_mono) (auto simp: world_only_def)
  with e t show ?thesis by (auto simp: sylvan_sym_load_elf_def wp_simps cformat_plain split: sum.splits)
qed

lemma sort_tables_keep: "other_tables i s t \<Longrightarrow> wp sym_sort_tables (\<lambda>_. other_tables i s) t"
proof (elim other_tablesE)
  fix dt et
  assume t: "infp t = InfLive (i\<lparr>inf_dwarf_table := dt, inf_elf_table := et\<rparr>)" "table_ok dt" "table_ok et" "lib_frame s t"
  have "wp (bnd (sort_table dt) (\<lambda>d. bnd (sort_table et) (\<lambda>e.
      bnd (upd_inf (\<lambda>i. i\<lparr>inf_dwarf_table := d, inf_elf_table := e\<rparr>)) (\<lambda>_. ret SYLVANC_OK)))) (\<lambda>_. other_tables i s) t"
    by (intro wp_bndI [OF sort_table_spec [OF t(2)]] wp_bndI [OF sort_table_spec [OF t(3)]])
      (use t in \<open>auto simp: wp_simps sorted_table_def intro!: other_tablesI\<close>)
  with t(1) show ?thesis by (simp add: sym_sort_tables_def wp_bnd wp_get_inf)
qed

lemma load_elf_table_keep:
  assumes os: "symbols_ok os" and t: "other_tables i s t"
  shows "wp (sym_load_elf_table os) (\<lambda>_. other_tables i s) t"
  using t
proof (elim other_tablesE)
  fix dt et
  assume t: "infp t = InfLive (i\<lparr>inf_dwarf_table := dt, inf_elf_table := et\<rparr>)" "table_ok dt" "table_ok et" "lib_frame s t"
  have step: "wp (bnd (upd_inf (\<lambda>i. i\<lparr>inf_elf_table := e\<rparr>)) (\<lambda>_. if c \<noteq> SYLVANC_OK then ret c else sym_sort_tables))
      (\<lambda>_. other_tables i s) u" if "table_ok e" "infp u = infp t" "lib_frame t u" for c e u
  proof -
    have "other_tables i s (u\<lparr>infp := InfLive (i\<lparr>inf_dwarf_table := dt, inf_elf_table := e\<rparr>)\<rparr>)"
      using t that lib_frame_trans [OF t(4) that(3)] by (intro other_tablesI [where dt = dt and et = e]) simp_all
    then show ?thesis using t(1) that(2) by (simp add: wp_simps sort_tables_keep)
  qed
  have "wp (bnd (sylvan_sym_load_elf os (inf_realpath i) et) (\<lambda>(code, t).
     bnd (upd_inf (\<lambda>i. i\<lparr>inf_elf_table := t\<rparr>)) (\<lambda>_. if code \<noteq> SYLVANC_OK then ret code else sym_sort_tables)))
     (\<lambda>_. other_tables i s) t"
    by (rule wp_bndI [OF load_elf_keep [OF os t(3)]]) (use step in auto)
  with t(1) show ?thesis by (simp add: sym_load_elf_table_def wp_bnd wp_get_inf)
qed

lemma load_dwarf_table_keep:
  assumes os: "symbols_ok os" and t: "infp t = InfLive (i\<lparr>inf_dwarf_table := dt, inf_elf_table := et\<rparr>)"
      "table_ok dt" "table_ok et" "lib_frame s t" "contents dt = []"
  shows "wp (bnd (sylvan_sym_load_dwarf os path dt) (\<lambda>(code, t).
     bnd (upd_inf (\<lambda>i. i\<lparr>inf_dwarf_table := t\<rparr>)) (\<lambda>_.
       if code \<noteq> SYLVANC_OK \<and> code \<noteq> SYLVANC_DWARF_NOT_FOUND then ret code else sym_load_elf_table os)))
     (\<lambda>_. other_tables i s) t"
proof -
  have step: "wp (bnd (upd_inf (\<lambda>i. i\<lparr>inf_dwarf_table := d\<rparr>)) (\<lambda>_.
       if c \<noteq> SYLVANC_OK \<and> c \<noteq> SYLVANC_DWARF_NOT_FOUND then ret c else sym_load_elf_table os)) (\<lambda>_. other_tables i s) u"
    if "table_ok d" "world_only t u" for c d u
  proof -
    have u: "infp u = infp t" "lib_frame t u" using that(2) by (auto simp: world_only_def)
    then have "other_tables i s (u\<lparr>infp := InfLive (i\<lparr>inf_elf_table := et, inf_dwarf_table := d\<rparr>)\<rparr>)"
      using t that(1) lib_frame_trans [OF t(4) u(2)] by (intro other_tablesI [where dt = d and et = et]) simp_all
    then show ?thesis using t(1) u(1) by (simp add: wp_simps load_elf_table_keep [OF os])
  qed
  show ?thesis
    by (rule wp_bndI [OF load_dwarf_spec [OF _ refl t(2,5)]]) (use os step in \<open>auto simp: symbols_ok_def\<close>)
qed

lemma load_tables_keep:
  assumes os: "symbols_ok os" and s: "infp s = InfLive i" "freeable (inf_elf_table i)" "freeable (inf_dwarf_table i)"
  shows "wp (sylvan_sym_load_tables os) (\<lambda>_. other_tables i s) s"
proof -
  have heap: "malloc_succeeds os" using os by (simp add: symbols_ok_def)
  have "wp (bnd (sylvan_sym_destroy i) (\<lambda>(_, i). bnd (sylvan_sym_init os i) (\<lambda>(_, i).
     bnd (upd_inf (\<lambda>_. i)) (\<lambda>_.
     bnd (sylvan_sym_load_dwarf os (inf_realpath i) (inf_dwarf_table i)) (\<lambda>(code, t).
     bnd (upd_inf (\<lambda>i. i\<lparr>inf_dwarf_table := t\<rparr>)) (\<lambda>_.
       if code \<noteq> SYLVANC_OK \<and> code \<noteq> SYLVANC_DWARF_NOT_FOUND then ret code
       else sym_load_elf_table os)))))) (\<lambda>_. other_tables i s) s"
  proof (rule wp_bndI [OF sym_destroy_spec [OF s(2,3)]], clarsimp, rule wp_bndI [OF sym_init_spec [OF heap]], clarsimp)
    fix e0 d0 s' e d
    assume w: "world_only s s'" and t: "table_ok e" "table_ok d" "contents d = []"
    let ?t = "s'\<lparr>infp := InfLive (i\<lparr>inf_elf_table := e, inf_dwarf_table := d\<rparr>)\<rparr>"
    have i: "infp s' = InfLive i" "lib_frame s s'" using w s(1) by (auto simp: world_only_def)
    have "wp (bnd (sylvan_sym_load_dwarf os (inf_realpath i) d) (\<lambda>(code, t).
     bnd (upd_inf (\<lambda>i. i\<lparr>inf_dwarf_table := t\<rparr>)) (\<lambda>_.
       if code \<noteq> SYLVANC_OK \<and> code \<noteq> SYLVANC_DWARF_NOT_FOUND then ret code
       else sym_load_elf_table os))) (\<lambda>_. other_tables i s) ?t"
      by (rule load_dwarf_table_keep [OF os, where et = e]) (use t i in simp_all)
    then show "wp (bnd (upd_inf (\<lambda>_. i\<lparr>inf_elf_table := e, inf_dwarf_table := d\<rparr>)) (\<lambda>_.
     bnd (sylvan_sym_load_dwarf os (inf_realpath i) d) (\<lambda>(code, t).
     bnd (upd_inf (\<lambda>i. i\<lparr>inf_dwarf_table := t\<rparr>)) (\<lambda>_.
       if code \<noteq> SYLVANC_OK \<and> code \<noteq> SYLVANC_DWARF_NOT_FOUND then ret code
       else sym_load_elf_table os)))) (\<lambda>_. other_tables i s) s'"
      using i(1) by (simp add: wp_bnd [of "upd_inf f" for f] wp_upd_inf)
  qed
  with s show ?thesis
    unfolding sylvan_sym_load_tables_def wp_assert_inf wp_bnd [of get_inf] wp_get_inf by simp
qed

lemma other_tables_inv: "other_tables i s s' \<Longrightarrow> inf_ok i \<Longrightarrow> inf_inv s'"
  by (elim other_tablesE) (auto simp: inf_ok_def table_ok_searchable bps_ok_def isactive_def intro!: inf_invI)

lemma keeps_load_tables: "symbols_ok os \<Longrightarrow> keeps_inv (sylvan_sym_load_tables os)"
  by (rule keeps_invI, rule wp_mono [OF load_tables_keep]) (auto simp: inf_okD intro: other_tables_inv)

lemma keeps_get_label_addr: "keeps_inv (sylvan_get_label_addr name)"
proof (rule keeps_invI)
  fix s :: "('a, 'b) dbg_scheme" and i
  assume i: "infp s = InfLive i" "inf_ok i"
  then have t: "searchable (inf_dwarf_table i)" "searchable (inf_elf_table i)" by (simp_all add: inf_ok_def)
  show "wp (sylvan_get_label_addr name) (\<lambda>_. inf_inv) s"
    unfolding sylvan_get_label_addr_def wp_bnd wp_get_inf i(1) inferior_ptr.case
    by (intro wp_searchable [OF t(1)]) (use t i in \<open>auto simp: wp_simps snprintf_def fmt_not_found inf_inv_def
      intro!: wp_searchable split: option.splits\<close>)
qed

lemma keeps_set_breakpoint_function: "keeps_inv (sylvan_set_breakpoint_function os f)"
proof -
  have "keeps_inv (sylvan_breakpoint_set os a)" for a
    using keeps_bp_exec [of os "BpSet a"] by (simp add: bp_exec_def)
  then show ?thesis
    unfolding sylvan_set_breakpoint_function_def
    by (intro keeps_rules keeps_bnd [OF keeps_get_label_addr]) simp_all
qed

text \<open>Memory.\<close>

lemma keeps_get_memory: "keeps_inv (sylvan_get_memory os a)"
proof -
  have "cformat ''Cannot read address %lx'' [FLong a] \<noteq> None" by (simp add: format_simps)
  then show ?thesis
    by (auto simp: keeps_inv_def inf_inv_def sylvan_get_memory_def wp_simps split: prod.splits sum.splits)
qed

lemma keeps_poke:
  assumes "\<forall>p. memory_accessible os p" "keeps_inv k"
  shows "keeps_inv (bnd get_inf (\<lambda>i. bnd (sys (os_poke os (inf_pid i) a v)) (\<lambda>r. case r of Inl _ \<Rightarrow> poke_failed os a | Inr _ \<Rightarrow> k)))"
proof (rule keeps_invI)
  fix s :: "('a, 'b) dbg_scheme" and i
  assume i: "infp s = InfLive i" "inf_ok i"
  obtain w where w: "os_poke os (inf_pid i) a v (world s) = (Inr (), w)"
    using assms(1) unfolding memory_accessible_def by (metis old.unit.exhaust)
  have "inf_inv (s\<lparr>world := w\<rparr>)" using i by (simp add: inf_invI)
  then have "wp k (\<lambda>_. inf_inv) (s\<lparr>world := w\<rparr>)" by (rule keeps_invD [OF assms(2)])
  with i w show "wp (bnd get_inf (\<lambda>i. bnd (sys (os_poke os (inf_pid i) a v)) (\<lambda>r.
      case r of Inl _ \<Rightarrow> poke_failed os a | Inr _ \<Rightarrow> k))) (\<lambda>_. inf_inv) s"
    by (simp add: wp_simps)
qed

lemma wp_get_memory_word:
  assumes "\<forall>p. memory_accessible os p" "inf_inv s"
  shows "wp (sylvan_get_memory os a) (\<lambda>(c, d) s'. d \<noteq> None \<and> inf_inv s') s"
proof -
  obtain i where i: "infp s = InfLive i" "inf_ok i" using assms(2) by (auto simp: inf_inv_def)
  obtain v w where w: "os_peek os (inf_pid i) a (world s) = (Inr v, w)"
    using assms(1) unfolding memory_accessible_def by metis
  have "inf_inv (s\<lparr>errno := 0, world := w\<rparr>)" using i by (simp add: inf_invI)
  with i w show ?thesis by (simp add: sylvan_get_memory_def wp_simps inf_invI)
qed

lemma keeps_set_memory_tail:
  assumes "\<forall>p. memory_accessible os p"
  shows "keeps_inv (set_memory_tail os a bytes)"
  unfolding keeps_inv_def set_memory_tail_def
  by (intro allI impI, rule wp_bndI [OF wp_get_memory_word [OF assms]], assumption)
    (auto simp: Let_def intro!: keeps_invD [OF keeps_poke [OF assms keeps_ret]] split: option.splits)

lemma keeps_set_memory_from:
  assumes "\<forall>p. memory_accessible os p"
  shows "keeps_inv (set_memory_from os a bytes :: ('w, 'm, sylvan_code) lib)"
  using assms
proof (induction os a bytes rule: set_memory_from.induct)
  case (1 os a bytes)
  show ?case
  proof (cases "8 \<le> length bytes")
    case True
    with 1(1) [OF True 1(2)] show ?thesis
      by (subst set_memory_from.simps) (simp add: keeps_poke [OF 1(2)])
  next
    case False
    then show ?thesis
      by (subst set_memory_from.simps) (simp add: keeps_set_memory_tail [OF 1(2)] keeps_ret)
  qed
qed

lemma keeps_set_memory:
  assumes "data \<noteq> Some [] \<and> data \<noteq> None \<and> a \<noteq> 0 \<longrightarrow> (\<forall>p. memory_accessible os p)"
  shows "keeps_inv (sylvan_set_memory os a data)"
proof -
  have "cformat ''Invalid address 0x%lx'' [FLong a] \<noteq> None" by (simp add: format_simps)
  then show ?thesis
    using assms unfolding sylvan_set_memory_def
    by (cases data) (auto intro!: keeps_rules keeps_set_memory_from)
qed

lemma keeps_reset: "keeps_inv sylvan_breakpoint_reset_phybp"
  by (rule keeps_invI)
    (simp add: wp_reset inf_okD(1) bp_only_ok [OF forget_from_simps(3) bps_ok_forget])


lemma dec_string_length: "0 \<le> n \<Longrightarrow> n < 2 ^ 31 \<Longrightarrow> length (dec_string n) \<le> 10"
  using digits_length [of 10 10 "nat n"] by (simp add: dec_string_def)

lemma real_path_pid_safe:
  assumes "0 \<le> p" "p < 2 ^ 31"
  shows "wp (sylvan_real_path_pid os p) (\<lambda>_ s'. infp s' = infp s \<and> lib_frame s s') s"
  using dec_string_length [OF assms]
  by (auto simp: sylvan_real_path_pid_def formats sylvan_real_path_def wp_simps cformat_plain
      split: prod.splits sum.splits)

lemma attach_finish_inv:
  assumes os: "symbols_ok os" and p: "0 < p"
    and s: "infp s = InfLive i" "bps_ok i" "isactive i" "freeable (inf_elf_table i)" "freeable (inf_dwarf_table i)"
  shows "wp (attach_finish os p path) (\<lambda>_. inf_inv) s"
proof -
  let ?i = "i\<lparr>inf_pid := p, inf_is_attached := True, inf_realpath := path\<rparr>"
  let ?t = "s\<lparr>infp := InfLive ?i\<rparr>"
  have last: "wp (on_ok (sylvan_breakpoint_setall_phybp os) (ret SYLVANC_OK)) (\<lambda>_. inf_inv) u"
    if "infp u = InfLive j" "inf_ok j" "isactive j" for u :: "('a, 'b) dbg_scheme" and j
    by (rule wp_on_ok_inv [OF setall_inv [OF that] keeps_ret])
  have mid: "wp (on_ok sylvan_breakpoint_reset_phybp (on_ok (sylvan_breakpoint_setall_phybp os) (ret SYLVANC_OK)))
      (\<lambda>_. inf_inv) u"
    if j: "infp u = InfLive j" "inf_ok j" "isactive j" for u :: "('a, 'b) dbg_scheme" and j
  proof -
    have "isactive (forget_from 0 j)" using j(3) by (simp add: forget_from_def isactive_def)
    moreover have "inf_ok (forget_from 0 j)"
      using j(2) by (simp add: bp_only_ok [OF forget_from_simps(3) bps_ok_forget] inf_okD(1))
    ultimately show ?thesis
      unfolding wp_on_ok [of sylvan_breakpoint_reset_phybp] wp_reset [OF j(1) inf_okD(1) [OF j(2)]]
      using last by simp
  qed
  have t: "infp ?t = InfLive ?i" "freeable (inf_elf_table ?i)" "freeable (inf_dwarf_table ?i)" using s by simp_all
  have "wp (on_ok (sylvan_sym_load_tables os) (on_ok sylvan_breakpoint_reset_phybp
      (on_ok (sylvan_breakpoint_setall_phybp os) (ret SYLVANC_OK)))) (\<lambda>_. inf_inv) ?t"
    unfolding wp_on_ok [of "sylvan_sym_load_tables os"]
  proof (rule wp_mono [OF load_tables_keep [OF os t]], elim other_tablesE)
    fix c dt et and u :: "('a, 'b) dbg_scheme"
    assume h: "infp u = InfLive (?i\<lparr>inf_dwarf_table := dt, inf_elf_table := et\<rparr>)" "table_ok dt" "table_ok et"
    then have j: "inf_ok (?i\<lparr>inf_dwarf_table := dt, inf_elf_table := et\<rparr>)"
        "isactive (?i\<lparr>inf_dwarf_table := dt, inf_elf_table := et\<rparr>)"
      using s p by (simp_all add: inf_ok_def isactive_def bps_ok_def table_ok_searchable)
    from mid [OF h(1) this] inf_invI [OF h(1) j(1)] show "if c \<noteq> SYLVANC_OK then inf_inv u
      else wp (on_ok sylvan_breakpoint_reset_phybp (on_ok (sylvan_breakpoint_setall_phybp os) (ret SYLVANC_OK)))
        (\<lambda>_. inf_inv) u" by simp
  qed
  then show ?thesis
    using s(1) by (simp add: attach_finish_def wp_bnd wp_upd_inf)
qed


lemma keeps_real_path_pid: "0 \<le> p \<Longrightarrow> p < 2 ^ 31 \<Longrightarrow> keeps_inv (sylvan_real_path_pid os p)"
  unfolding keeps_inv_def inf_inv_def by (auto intro: wp_mono [OF real_path_pid_safe])

lemma keeps_wait_bnd:
  assumes "system_ok os" "\<And>e. keeps_inv (k (Inl e))" "\<And>q st. classified st \<Longrightarrow> keeps_inv (k (Inr (q, st)))"
  shows "keeps_inv (bnd (sys_retry (os_waitpid os p False)) k)"
  unfolding keeps_inv_def wp_bnd
proof (intro allI impI, rule wp_waitpid)
  fix s :: "('a, 'b) dbg_scheme" and r :: "int + int \<times> wait_status" and e w
  assume "inf_inv s" "\<forall>q st. r = Inr (q, st) \<longrightarrow> q \<noteq> 0 \<or> \<not> False \<longrightarrow> classified st"
  then show "wp (k r) (\<lambda>_. inf_inv) (s\<lparr>errno := e, world := w\<rparr>)"
    using assms(2,3) by (cases r) (auto intro!: keeps_invD)
qed (use assms(1) in \<open>simp_all add: system_ok_def\<close>)

lemma keeps_attach_finish:
  assumes "symbols_ok os" "0 < p" "st = SYLVAN_INFSTATE_STOPPED \<or> st = SYLVAN_INFSTATE_RUNNING"
  shows "keeps_inv (bnd (upd_inf (\<lambda>i. i\<lparr>inf_status := st\<rparr>)) (\<lambda>_. attach_finish os p path))"
proof (rule keeps_invI)
  fix s :: "('a, 'b) dbg_scheme" and i
  assume i: "infp s = InfLive i" "inf_ok i"
  have "wp (attach_finish os p path) (\<lambda>_. inf_inv) (s\<lparr>infp := InfLive (i\<lparr>inf_status := st\<rparr>)\<rparr>)"
    by (rule attach_finish_inv [OF assms(1,2), of _ "i\<lparr>inf_status := st\<rparr>"])
      (use i assms(3) in \<open>auto simp: inf_ok_def isactive_def searchable_freeable\<close>)
  then show "wp (bnd (upd_inf (\<lambda>i. i\<lparr>inf_status := st\<rparr>)) (\<lambda>_. attach_finish os p path)) (\<lambda>_. inf_inv) s"
    using i(1) by (simp add: wp_bnd wp_upd_inf)
qed

lemma keeps_attach_wait:
  assumes "system_ok os" "symbols_ok os" "0 < p"
  shows "keeps_inv (attach_wait os p path)"
  unfolding attach_wait_def
  by (rule keeps_wait_bnd)
    (use assms in \<open>auto simp: formats cformat_plain classified_def intro!: keeps_attach_finish keeps_message keeps_errno_msg\<close>)

lemma keeps_attach:
  assumes "system_ok os" "symbols_ok os" "0 < p" "p < 2 ^ 31"
  shows "keeps_inv (sylvan_attach os p)"
  unfolding sylvan_attach_def
  using assms
  by (intro keeps_check_inf keeps_bnd [OF keeps_sys] keeps_case_sum keeps_if keeps_on_ok keeps_terminate keeps_message
      keeps_errno_msg keeps_bnd [OF keeps_real_path_pid] keeps_case_prod keeps_attach_wait)
    (simp_all add: formats cformat_plain)

lemma keeps_canonical_path: "keeps_inv (sylvan_canonical_path os f)"
proof -
  have search: "keeps_inv (search_PATH os f ts)" for ts
    by (induction ts) (auto simp: Let_def intro!: keeps_rules)
  have gets: "keeps_inv (gets g)" for g by (simp add: keeps_inv_def wp_simps)
  show ?thesis
    unfolding sylvan_canonical_path_def sylvan_real_path_def sylvan_find_in_PATH_def
    by (intro keeps_rules gets search) (simp_all add: cformat_plain)
qed

lemma keeps_set_filepath: "symbols_ok os \<Longrightarrow> keeps_inv (sylvan_set_filepath os f)"
  unfolding sylvan_set_filepath_def
  by (intro keeps_rules keeps_upd_inf keeps_canonical_path keeps_load_tables)
    (auto simp: formats inf_ok_def isactive_def bps_ok_def)

end
