(* ===== verification/Breakpoint_Properties.thy ===== *)
theory Breakpoint_Properties
  imports Breakpoint_Service
begin

text \<open>The properties of the breakpoint table, with their instances on the simulated machine.\<close>

section \<open>Commands\<close>

text \<open>C1: Any sequence of breakpoint commands returns, and its answers and the resulting
  set of breakpoints are those of the map specification.\<close>

theorem breakpoint_commands_refine:
  assumes "bp_live s"
  shows "wp (run_all (bp_exec os) cs) (\<lambda>rs s'. bp_live s' \<and> bp_steps (bp_view s) cs rs (bp_view s')) s"
  by (rule bp_serv.sequence_refines [OF assms])

lemma sim_live: "distinct as \<Longrightarrow> length as \<le> MAX_BREAKPOINTS \<Longrightarrow> bp_live (sim_dbg (sim_inferior as))"
  by (simp add: bp_live_def sim_bps_ok)

lemma sim_active: "distinct as \<Longrightarrow> length as \<le> MAX_BREAKPOINTS \<Longrightarrow> bp_active sim_os sim_memory (sim_dbg (sim_inferior as))"
  by (simp add: bp_active_def sim_bps_ok sim_tracee_memory)

lemma sim_ready: "bp_ready c (sim_dbg (sim_inferior as))"
  by (auto simp: bp_ready_def) (simp add: sim_inferior_def nth_append zero_breakpoint_def)

lemma small_table: "n \<le> 8 \<Longrightarrow> n \<le> MAX_BREAKPOINTS"
  by (simp add: MAX_BREAKPOINTS_def)

theorem breakpoint_commands_refine_witness:
  "wp (run_all (bp_exec sim_os) [BpSet 5, BpDisable 3, BpUnset 4])
     (\<lambda>rs s'. bp_live s' \<and> bp_steps (bp_view (sim_dbg (sim_inferior [3, 4]))) [BpSet 5, BpDisable 3, BpUnset 4] rs (bp_view s'))
     (sim_dbg (sim_inferior [3, 4]))"
  by (rule breakpoint_commands_refine) (rule sim_live, simp_all add: small_table)

text \<open>C3: A command on an active process keeps the program text behind the breakpoints,
  whatever memory access fails on the way; a set needs \<open>bp_ready\<close>: the slot it takes,
  the first one behind the table, is not still marked as inserted. Where it is, as after
  the removal of another breakpoint, the recorded byte is that of another address (compare C11).\<close>

theorem breakpoint_text_preserved:
  assumes "bp_active os mem s" "bp_ready c s"
  shows "wp (bp_exec os c) (\<lambda>r s'. bp_active os mem s' \<and> bp_text mem s' = bp_text mem s) s"
  by (rule wp_mono [OF exec_text [OF assms(1)]]) (use assms(2) in simp)

theorem breakpoint_text_preserved_witness:
  "wp (bp_exec sim_os (BpSet 9)) (\<lambda>r s'. bp_active sim_os sim_memory s' \<and>
     bp_text sim_memory s' = bp_text sim_memory (sim_dbg (sim_inferior [3]))) (sim_dbg (sim_inferior [3]))"
  by (rule breakpoint_text_preserved) (simp_all add: sim_active sim_ready small_table)

text \<open>Commands other than set keep the text over any sequence.\<close>

lemma breakpoint_sequence_keeps_text:
  assumes "bp_active os mem s" "\<forall>c \<in> set cs. \<forall>a. c \<noteq> BpSet a"
  shows "wp (run_all (bp_exec os) cs) (\<lambda>rs s'. bp_text mem s' = bp_text mem s) s"
  by (rule bp_txt.sequence_keeps_text [OF assms])

lemma breakpoint_sequence_keeps_text_witness:
  "wp (run_all (bp_exec sim_os) [BpEnable 3, BpUnset 3, BpClear]) (\<lambda>rs s'. bp_text sim_memory s' =
     bp_text sim_memory (sim_dbg (sim_inferior [3, 4]))) (sim_dbg (sim_inferior [3, 4]))"
  by (rule breakpoint_sequence_keeps_text) (simp_all add: sim_active small_table)

text \<open>A breakpoint stays set until it is unset or the table is cleared.\<close>

lemma breakpoint_persists:
  assumes "bp_live s" "bp_view s a \<noteq> None" "BpUnset a \<notin> set cs" "BpClear \<notin> set cs"
  shows "wp (run_all (bp_exec os) cs) (\<lambda>rs s'. bp_view s' a \<noteq> None) s"
  by (rule bp_serv.sequence_keeps [OF assms])


section \<open>In the memory of the process\<close>

text \<open>C12: Inserting a breakpoint and removing it again leaves every byte of the
  memory as it was, where both calls succeed.\<close>

theorem phybp_roundtrip:
  assumes mem: "tracee_memory os mem"
    and st: "infp s = InfLive i" "bps_ok i" "isactive i" "n < inf_breakpoint_count i" "\<not> is_enabled_phy (bp_at i n)"
  shows "wp (bnd (sylvan_breakpoint_create_phybp os n) (\<lambda>c. bnd (sylvan_breakpoint_remove_phybp os n) (\<lambda>c'. ret (c, c'))))
    (\<lambda>(c, c') s'. c = SYLVANC_OK \<longrightarrow> c' = SYLVANC_OK \<longrightarrow>
       mem (inf_pid i) (world s') = mem (inf_pid i) (world s)) s"
proof (rule wp_bndI [OF create_phybp_spec [OF mem st(1-4)]], elim exE)
  fix c t b
  let ?m = "mem (inf_pid i) (world s)" and ?a = "bp_addr (bp_at i n)"
  assume h: "let m = ?m; m' = mem (inf_pid i) (world t); a = ?a in
    lib_frame s t \<and> infp t = InfLive (set_slot n b i) \<and>
    (c = SYLVANC_OK \<and> is_enabled_phy (bp_at i n) \<and> b = bp_at i n \<and> m' = m \<or>
     c = SYLVANC_OK \<and> \<not> is_enabled_phy (bp_at i n) \<and>
       b = (bp_at i n)\<lparr>og_byte := m a, is_enabled_phy := True\<rparr> \<and> m' = m(a := 0xCC) \<or>
     c = SYLVANC_PTRACE_PEEKTEXT_FAILED \<and> \<not> is_enabled_phy (bp_at i n) \<and> b = bp_at i n \<and> m' = m)"
  have t: "infp t = InfLive (set_slot n b i)" "bp_addr b = ?a" using h st(5) by (auto simp: Let_def)
  have ok: "bps_ok (set_slot n b i)" using st(2,4) t(2) by (simp add: bps_ok_set_slot)
  have at: "bp_at (set_slot n b i) n = b" using bps_ok_slot_lt [OF st(2,4)] by (simp add: bp_at_set_slot)
  show "wp (bnd (sylvan_breakpoint_remove_phybp os n) (\<lambda>c'. ret (c, c')))
    (\<lambda>(c, c') s'. c = SYLVANC_OK \<longrightarrow> c' = SYLVANC_OK \<longrightarrow> mem (inf_pid i) (world s') = ?m) t"
    by (rule wp_bndI [OF remove_phybp_spec [OF mem t(1) ok]])
      (use h st t(2) at in \<open>auto simp: Let_def wp_simps\<close>)
qed

theorem phybp_roundtrip_witness:
  "wp (bnd (sylvan_breakpoint_create_phybp sim_os 0) (\<lambda>c. bnd (sylvan_breakpoint_remove_phybp sim_os 0) (\<lambda>c'. ret (c, c'))))
    (\<lambda>(c, c') s'. c = SYLVANC_OK \<longrightarrow> c' = SYLVANC_OK \<longrightarrow> sim_mem (world s') = sim_mem sim_world)
    (sim_dbg (sim_inferior [3]))"
  using phybp_roundtrip [OF sim_tracee_memory, of "sim_dbg (sim_inferior [3])" "sim_inferior [3]" 0]
  by (simp add: sim_bps_ok small_table sim_bp_at sim_breakpoint_def)

text \<open>C10: When all breakpoints were inserted, each address in the table holds a trap
  instruction, and the text behind them is still that of the program.\<close>

theorem setall_inserts:
  assumes mem: "tracee_memory os mem" and st: "infp s = InfLive i" "bps_ok i" "isactive i"
    and patched: "patched i (mem (inf_pid i) (world s))"
  shows "wp (sylvan_breakpoint_setall_phybp os) (\<lambda>c s'. bp_text mem s' = bp_text mem s \<and>
    (c = SYLVANC_OK \<longrightarrow> (\<forall>a \<in> dom (bp_map i). mem (inf_pid i) (world s') a = 0xCC))) s"
proof (rule wp_mono [OF setall_spec [OF st, where mem = mem and os = os]], elim exE conjE)
  fix c s' i'
  assume h: "table_step os mem i s i' s'" "bp_map i' = bp_map i"
    "c = SYLVANC_OK \<longrightarrow> dom (saved i') = dom (bp_map i')"
  then have k: "kept mem i s i' s'" "infp s' = InfLive i'" "inf_pid i' = inf_pid i"
    using mem by (auto simp: table_step_def dest: bp_onlyD)
  have "patched i' (mem (inf_pid i) (world s'))" using k(1) patched by (simp add: kept_def Let_def)
  then have "\<forall>a \<in> dom (bp_map i). mem (inf_pid i) (world s') a = 0xCC" if "c = SYLVANC_OK"
    using h(2,3) that by (force simp: patched_def dom_def)
  with kept_text [OF st(1) k(2,3,1)] show "bp_text mem s' = bp_text mem s \<and>
    (c = SYLVANC_OK \<longrightarrow> (\<forall>a \<in> dom (bp_map i). mem (inf_pid i) (world s') a = 0xCC))" by blast
qed

lemma sim_patched: "distinct as \<Longrightarrow> length as \<le> MAX_BREAKPOINTS \<Longrightarrow> saved (sim_inferior as) = Map.empty"
  by (rule saved_empty) (simp_all add: sim_bps_ok sim_bp_at sim_breakpoint_def)

theorem setall_inserts_witness:
  "wp (sylvan_breakpoint_setall_phybp sim_os) (\<lambda>c s'. bp_text sim_memory s' = bp_text sim_memory (sim_dbg (sim_inferior [3, 4])) \<and>
    (c = SYLVANC_OK \<longrightarrow> (\<forall>a \<in> dom (bp_map (sim_inferior [3, 4])). sim_mem (world s') a = 0xCC)))
    (sim_dbg (sim_inferior [3, 4]))"
  using setall_inserts [OF sim_tracee_memory, of "sim_dbg (sim_inferior [3, 4])" "sim_inferior [3, 4]"]
  by (simp add: sim_bps_ok small_table patched_def sim_patched)

text \<open>When all breakpoints were removed, the memory is the program text: no
  trap instruction of the debugger is left.\<close>

lemma unsetall_restores:
  assumes mem: "tracee_memory os mem" and st: "infp s = InfLive i" "bps_ok i" "isactive i"
  shows "wp (sylvan_breakpoint_unsetall_phybp os)
    (\<lambda>c s'. c = SYLVANC_OK \<longrightarrow> mem (inf_pid i) (world s') = bp_text mem s) s"
proof (rule wp_mono [OF unsetall_spec [OF st, where mem = mem and os = os]], elim exE conjE)
  fix c s' i'
  assume h: "table_step os mem i s i' s'" "c = SYLVANC_OK \<longrightarrow> saved i' = Map.empty"
  then have "kept mem i s i' s'" using mem by (simp add: table_step_def)
  then have "orig_view i' (mem (inf_pid i) (world s')) = bp_text mem s"
    using st by (simp add: kept_def Let_def bp_text_def)
  moreover have "orig_view i' m = m" if "c = SYLVANC_OK" for m
    using h(2) that by (simp add: orig_view_def)
  ultimately show "c = SYLVANC_OK \<longrightarrow> mem (inf_pid i) (world s') = bp_text mem s" by metis
qed

lemma unsetall_restores_witness:
  "wp (sylvan_breakpoint_unsetall_phybp sim_os)
    (\<lambda>c s'. c = SYLVANC_OK \<longrightarrow> sim_mem (world s') = bp_text sim_memory (sim_dbg (sim_inferior [3])))
    (sim_dbg (sim_inferior [3]))"
  using unsetall_restores [OF sim_tracee_memory, of "sim_dbg (sim_inferior [3])" "sim_inferior [3]"]
  by (simp add: sim_bps_ok small_table)


section \<open>A slot that keeps its mark\<close>

lemma set_into_marked:
  assumes i: "infp s = InfLive i" "bps_ok i" "isactive i" and room: "inf_breakpoint_count i < MAX_BREAKPOINTS"
    and new: "bp_index i a = None" and marked: "is_enabled_phy (bp_at i (inf_breakpoint_count i))"
  shows "wp (sylvan_breakpoint_set os a) (\<lambda>c s'. c = SYLVANC_OK \<and> world s' = world s \<and> bp_view s' a = Some True) s"
proof -
  let ?n = "inf_breakpoint_count i" and ?j = "add_slot a i"
  have j: "bps_ok ?j" "bp_map ?j a = Some True"
    using bps_ok_add_slot [OF i(2) room new] slot_map_add_slot [OF i(2) room new, of "\<lambda>b. Some (is_enabled_log b)"]
    by (simp_all add: bp_map_slot_map)
  have len: "?n < length (inf_breakpoints i)" using i(2) room by (simp add: bps_ok_lengthD)
  have upd: "inf_breakpoint_count_update Suc i = i\<lparr>inf_breakpoint_count := Suc ?n\<rparr>" by simp
  have "wp (sylvan_breakpoint_set os a) Q s = Q SYLVANC_OK (s\<lparr>infp := InfLive ?j\<rparr>)" for Q
    using i room new marked len
    by (simp add: upd sylvan_breakpoint_set_def wp_simps Let_def sylvan_breakpoint_enable_ptr_def
        sylvan_breakpoint_create_phybp_def add_slot_def isactive_def)
  with j show ?thesis by (simp add: bp_view_def)
qed

text \<open>Removing a slot that is not the last leaves the mark of the last slot behind.\<close>

lemma unset_leaves_mark:
  assumes mem: "tracee_memory os mem" and acc: "memory_accessible os (inf_pid i)"
    and i: "infp s = InfLive i" "bps_ok i" "isactive i" and n: "bp_index i a = Some n" "Suc n < inf_breakpoint_count i"
    and peek: "read_word (mem (inf_pid i) (world s)) a \<noteq> -1"
    and phys: "is_enabled_phy (bp_at i n)" "is_enabled_phy (bp_at i (inf_breakpoint_count i - 1))"
  shows "wp (sylvan_breakpoint_unset os a) (\<lambda>c s'. c = SYLVANC_OK \<and> (\<exists>i'. infp s' = InfLive i' \<and>
    isactive i' \<and> bps_ok i' \<and> inf_pid i' = inf_pid i \<and> inf_breakpoint_count i' = inf_breakpoint_count i - 1 \<and>
    bp_map i' = (bp_map i)(a := None) \<and> is_enabled_phy (bp_at i' (inf_breakpoint_count i')) \<and>
    (\<forall>x. x \<noteq> a \<longrightarrow> mem (inf_pid i) (world s') x = mem (inf_pid i) (world s) x))) s"
proof -
  have nb: "n < inf_breakpoint_count i" "bp_addr (bp_at i n) = a" using n(1) by (auto dest: bp_index_SomeD)
  let ?m = "mem (inf_pid i) (world s)" and ?b = "bp_at i n"
  let ?b' = "?b\<lparr>is_enabled_log := False, is_enabled_phy := False\<rparr>"
  let ?data = "(read_word ?m a AND NOT 0xFF) OR ucast (og_byte ?b)"
  obtain x w1 where pk: "os_peek os (inf_pid i) a (world s) = (Inr x, w1)" using acc by (rule memory_accessibleE)
  have x: "x = read_word ?m a" and w1: "mem (inf_pid i) w1 = ?m" using tracee_peek [OF mem pk] by simp_all
  obtain w2 where po: "os_poke os (inf_pid i) a ?data w1 = (Inr (), w2)" using acc by (rule memory_accessibleE)
  have w2: "mem (inf_pid i) w2 = ?m(a := og_byte ?b)" using tracee_poke_ok [OF mem po] w1 by (simp add: poke_low_byte_simp)
  let ?j = "set_slot n ?b' i"
  have len: "n < length (inf_breakpoints i)" using i(2) nb(1) by (rule bps_ok_slot_lt)
  have j: "bps_ok ?j" "bp_map ?j = (bp_map i)(a \<mapsto> False)"
    using i(2) nb bps_ok_set_slot [of i n ?b'] bp_map_set_slot [of i n ?b'] by simp_all
  have dis: "wp (sylvan_breakpoint_disable_ptr os n) Q s = Q SYLVANC_OK (s\<lparr>world := w2, infp := InfLive ?j\<rparr>)" for Q
    using i nb phys(1) len pk x po peek
    by (simp add: sylvan_breakpoint_disable_ptr_def sylvan_breakpoint_remove_phybp_def wp_simps isactive_def
        set_slot_def Let_def)
  let ?k = "drop_slot n ?j"
  have t: "infp (s\<lparr>world := w2, infp := InfLive ?j\<rparr>) = InfLive ?j" by simp
  have gap: "wp (close_gap n) Q (s\<lparr>world := w2, infp := InfLive ?j\<rparr>) =
      Q SYLVANC_OK (s\<lparr>world := w2, infp := InfLive ?j, infp := InfLive ?k\<rparr>)" for Q
    using wp_close_gap [OF t j(1)] nb(1) by simp
  have map: "bp_map ?k = (bp_map i)(a := None)"
    using slot_map_drop_slot [OF j(1), of n "\<lambda>b. Some (is_enabled_log b)"] nb j(2) len
    by (simp add: bp_at_set_slot flip: bp_map_slot_map)
  have last: "is_enabled_phy (bp_at ?k (inf_breakpoint_count i - 1))"
    using n(2) phys(2) len by (auto simp: drop_slot_def Let_def set_slot_def nth_list_update)
  have "isactive ?k" "bps_ok ?k" "inf_pid ?k = inf_pid i" "inf_breakpoint_count ?k = inf_breakpoint_count i - 1"
    using i(3) bps_ok_drop_slot [OF j(1)] nb(1) by (simp_all add: drop_slot_def Let_def isactive_def)
  moreover have "wp (on_ok (sylvan_breakpoint_disable_ptr os n) (close_gap n)) Q s =
      Q SYLVANC_OK (s\<lparr>world := w2, infp := InfLive ?j, infp := InfLive ?k\<rparr>)" for Q
    by (simp only: wp_on_ok dis gap simp_thms if_False)
  moreover have "wp (sylvan_breakpoint_unset os a) Q s =
      wp (on_ok (sylvan_breakpoint_disable_ptr os n) (close_gap n)) Q s" for Q
    using i n(1) by (simp add: sylvan_breakpoint_unset_def wp_simps)
  ultimately show ?thesis
    using map last w2 by simp
qed

text \<open>C11: Removing one of several inserted breakpoints and setting another one reports
  success twice, but the new breakpoint is never written to the memory.\<close>

theorem set_after_unset_not_inserted:
  assumes mem: "tracee_memory os mem" and acc: "memory_accessible os (inf_pid i)"
    and i: "infp s = InfLive i" "bps_ok i" "isactive i" and n: "bp_index i a = Some n" "Suc n < inf_breakpoint_count i"
    and peek: "read_word (mem (inf_pid i) (world s)) a \<noteq> -1"
    and phys: "is_enabled_phy (bp_at i n)" "is_enabled_phy (bp_at i (inf_breakpoint_count i - 1))"
    and new: "bp_map i b = None"
  shows "wp (run_all (bp_exec os) [BpUnset a, BpSet b]) (\<lambda>rs s'. rs = [SYLVANC_OK, SYLVANC_OK] \<and>
    bp_view s' b = Some True \<and> mem (inf_pid i) (world s') b = mem (inf_pid i) (world s) b) s"
proof -
  have "b \<noteq> a" using n(1) new by (auto simp: bp_map_def)
  have "wp (sylvan_breakpoint_unset os a) (\<lambda>c s'. wp (sylvan_breakpoint_set os b) (\<lambda>c' s'. c = SYLVANC_OK \<and>
      c' = SYLVANC_OK \<and> bp_view s' b = Some True \<and> mem (inf_pid i) (world s') b = mem (inf_pid i) (world s) b) s') s"
  proof (rule wp_mono [OF unset_leaves_mark [OF mem acc i n peek phys]], elim exE conjE, goal_cases)
    case (1 c t j)
    have "inf_breakpoint_count j < MAX_BREAKPOINTS" using 1(6) bps_ok_countD [OF i(2)] n(2) by simp
    moreover have "bp_index j b = None" using 1(7) new \<open>b \<noteq> a\<close> by (simp flip: bp_map_None_iff)
    ultimately show ?case
      by (rule wp_mono [OF set_into_marked [OF 1(2,4,3) _ _ 1(8)]]) (use 1 \<open>b \<noteq> a\<close> in simp)
  qed
  then show ?thesis
    by (auto simp: bp_exec_def wp_simps elim!: wp_mono)
qed


definition sim_inserted :: "addr list \<Rightarrow> inferior" where
  "sim_inserted as = (sim_inferior as)\<lparr>inf_breakpoints :=
     map (\<lambda>b. b\<lparr>og_byte := 0x90, is_enabled_phy := True\<rparr>) (inf_breakpoints (sim_inferior as))\<rparr>"

lemma sim_inserted_ok:
  assumes "distinct as" "length as \<le> MAX_BREAKPOINTS"
  shows "bps_ok (sim_inserted as)" "n < length as \<Longrightarrow> bp_addr (bp_at (sim_inserted as) n) = as ! n"
    "n < length as \<Longrightarrow> is_enabled_phy (bp_at (sim_inserted as) n)"
proof -
  have at: "bp_at (sim_inserted as) n = (sim_breakpoint (as ! n))\<lparr>og_byte := 0x90, is_enabled_phy := True\<rparr>"
    if "n < length as" for n
    using that assms(2) by (simp add: sim_inserted_def sim_inferior_def nth_append)
  show "n < length as \<Longrightarrow> bp_addr (bp_at (sim_inserted as) n) = as ! n"
    "n < length as \<Longrightarrow> is_enabled_phy (bp_at (sim_inserted as) n)"
    by (simp_all add: at sim_breakpoint_def)
  show "bps_ok (sim_inserted as)"
    using assms sim_bps_ok [OF assms] by (simp add: bps_ok_def sim_inserted_def take_map comp_def)
qed

lemma sim_text_word: "read_word (\<lambda>a. 0x90) a \<noteq> -1"
proof
  assume h: "read_word (\<lambda>a. 0x90) a = -1"
  have "(0x90 :: byte) = ucast (read_word (\<lambda>a. 0x90) a)" by (simp only: read_word_low)
  also note h
  also have "ucast (-1 :: 64 word) = (0xFF :: byte)" by code_simp
  finally show False by simp
qed

theorem set_after_unset_not_inserted_witness:
  "wp (run_all (bp_exec sim_os) [BpUnset 3, BpSet 9]) (\<lambda>rs s'. rs = [SYLVANC_OK, SYLVANC_OK] \<and>
    bp_view s' 9 = Some True \<and> sim_mem (world s') 9 = 0x90) (sim_dbg (sim_inserted [3, 4]))"
proof -
  let ?i = "sim_inserted [3, 4]"
  have d: "distinct [3, 4 :: addr]" "length [3, 4 :: addr] \<le> MAX_BREAKPOINTS" by (simp_all add: small_table)
  have i: "isactive ?i" "inf_breakpoint_count ?i = 2" by (simp_all add: sim_inserted_def isactive_def)
  have idx: "bp_index ?i 3 = Some 0"
    using bp_index_of_slot [OF sim_inserted_ok(1) [OF d], of 0] i(2) sim_inserted_ok(2) [OF d, of 0] by simp
  have "k = 0 \<or> k = 1" if "k < 2" for k :: nat using that by auto
  then have "bp_index ?i 9 = None"
    using sim_inserted_ok(2) [OF d, of 0] sim_inserted_ok(2) [OF d, of 1] i(2)
    by (fastforce simp: bp_index_None_iff)
  then have new: "bp_map ?i 9 = None" by (simp add: bp_map_None_iff)
  show ?thesis
    using set_after_unset_not_inserted [OF sim_tracee_memory sim_accessible, of "sim_dbg ?i" ?i 3 0 9]
      sim_inserted_ok(1) [OF d] sim_inserted_ok(3) [OF d, of 0] sim_inserted_ok(3) [OF d, of 1] i idx new
      sim_text_word [of 3]
    by (simp add: sim_world_def)
qed

end
