(* ===== verification/Inferior_Properties.thy ===== *)
theory Inferior_Properties
  imports Inferior_Lemmas Breakpoint_Properties
begin

text \<open>
  Properties of \<open>inferior.c\<close>: a client may issue any sequence of library calls
  without a failed assertion or undefined behaviour, the recorded state of the
  process tells what \<open>waitpid\<close> reported, killing forgets the process, and
  detaching leaves its memory as the program had it.
\<close>

section \<open>Sequences of library calls\<close>

datatype lib_cmd =
    LAttach pid
  | LDetach
  | LContinue
  | LStepinst
  | LGetRegs
  | LSetRegs user_regs
  | LSetFilepath "string option"
  | LSetArgs "string option"
  | LBreak bp_cmd
  | LBreakFunction "string option"
  | LGetMemory addr
  | LSetMemory addr "byte list option"

definition lib_exec :: "'w os \<Rightarrow> lib_cmd \<Rightarrow> ('w, 'm, sylvan_code) lib" where
  "lib_exec os c =
     (case c of
        LAttach p \<Rightarrow> sylvan_attach os p
      | LDetach \<Rightarrow> sylvan_detach os
      | LContinue \<Rightarrow> sylvan_continue os
      | LStepinst \<Rightarrow> sylvan_stepinst os
      | LGetRegs \<Rightarrow> bnd (sylvan_get_regs os) (\<lambda>(code, _). ret code)
      | LSetRegs r \<Rightarrow> sylvan_set_regs os r
      | LSetFilepath f \<Rightarrow> sylvan_set_filepath os f
      | LSetArgs a \<Rightarrow> sylvan_set_args os a
      | LBreak b \<Rightarrow> bp_exec os b
      | LBreakFunction f \<Rightarrow> sylvan_set_breakpoint_function os f
      | LGetMemory a \<Rightarrow> bnd (sylvan_get_memory os a) (\<lambda>(code, _). ret code)
      | LSetMemory a data \<Rightarrow> sylvan_set_memory os a data)"

text \<open>
  Pids are positive \<open>int\<close>s. Bytes are only written to a process whose memory is accessible:
  the error return of a write formats a string that is not there.
\<close>

fun lib_valid :: "'w os \<Rightarrow> lib_cmd \<Rightarrow> bool" where
  "lib_valid os (LAttach p) = (0 < p \<and> p < 2 ^ 31)"
| "lib_valid os (LSetMemory a data) = (data \<noteq> Some [] \<and> data \<noteq> None \<and> a \<noteq> 0 \<longrightarrow> (\<forall>p. memory_accessible os p))"
| "lib_valid os _ = True"

text \<open>What a client may assume of operations that keep an invariant.\<close>

locale safe_service =
  fixes exec :: "'c \<Rightarrow> ('s, 'a) prog" and valid :: "'c \<Rightarrow> bool" and inv :: "'s \<Rightarrow> bool"
  assumes exec_safe: "valid c \<Longrightarrow> inv s \<Longrightarrow> wp (exec c) (\<lambda>_. inv) s"
begin

lemma sequence_safe: "\<forall>c \<in> set cs. valid c \<Longrightarrow> inv s \<Longrightarrow> wp (run_all exec cs) (\<lambda>rs s'. inv s' \<and> length rs = length cs) s"
proof (induction cs arbitrary: s)
  case Nil
  then show ?case by (simp add: wp_simps)
next
  case (Cons c cs)
  have "wp (exec c) (\<lambda>_. inv) s" using Cons.prems by (intro exec_safe) simp_all
  then show ?case
    unfolding run_all.simps
    by (rule wp_bndI) (rule wp_bndI [OF Cons.IH], use Cons.prems in \<open>auto simp: wp_simps\<close>)
qed

end

definition lib_usable :: "'w os \<Rightarrow> ('w, 'm) dbg_scheme \<Rightarrow> bool" where
  "lib_usable os s \<longleftrightarrow> system_ok os \<and> symbols_ok os \<and> inf_inv s"

lemma lib_exec_safe: "system_ok os \<Longrightarrow> symbols_ok os \<Longrightarrow> lib_valid os c \<Longrightarrow> keeps_inv (lib_exec os c)"
  by (cases c)
    (auto simp: lib_exec_def intro!: keeps_attach keeps_detach keeps_continue keeps_stepinst keeps_bnd [OF keeps_get_regs]
      keeps_ret keeps_set_regs keeps_set_filepath keeps_set_args keeps_bp_exec keeps_set_breakpoint_function
      keeps_bnd [OF keeps_get_memory] keeps_set_memory)

interpretation lib_serv: safe_service "lib_exec os" "lib_valid os" "lib_usable os" for os
proof
  fix c :: lib_cmd and s :: "('a, 'b) dbg_scheme"
  assume "lib_valid os c" "lib_usable os s"
  then have "wp (lib_exec os c) (\<lambda>_. inf_inv) s" and "system_ok os" "symbols_ok os"
    using lib_exec_safe [of os c] by (auto simp: lib_usable_def dest: keeps_invD)
  then show "wp (lib_exec os c) (\<lambda>_. lib_usable os) s" by (auto simp: lib_usable_def elim: wp_mono)
qed

text \<open>C8: Where memory allocation succeeds, \<open>waitpid\<close> answers as documented and the symbol
  tables of the files state the size of their entries, any sequence of calls of the interface
  of the library but \<open>sylvan_run\<close>, creating and destroying returns, whatever the system
  calls answer otherwise: no assertion fails, no freed or null memory is touched, and
  afterwards a process is known exactly where the pid is positive. Attaching needs a positive
  pid and writing to memory needs that reads and writes of it succeed.\<close>

theorem library_calls_safe:
  assumes "system_ok os" "symbols_ok os" "inf_inv s" "\<forall>c \<in> set cs. lib_valid os c"
  shows "wp (run_all (lib_exec os) cs) (\<lambda>rs s'. inf_inv s' \<and> length rs = length cs) s"
  using lib_serv.sequence_safe [OF assms(4), of s] assms(1-3)
  by (auto simp: lib_usable_def elim: wp_mono)

lemma sim_system: "system_ok sim_os"
  by (simp add: system_ok_def sim_wait_settles sim_wait_classified)

lemma sim_symbols: "symbols_ok sim_os"
  using sim_malloc sim_elf_readable by (simp add: symbols_ok_def sim_os_def elf_readable_def)

lemma sim_inf_ok: "distinct as \<Longrightarrow> length as \<le> MAX_BREAKPOINTS \<Longrightarrow> inf_ok (sim_inferior as)"
  unfolding inf_ok_def
  by (intro conjI sim_bps_ok) (simp_all add: searchable_def contents_def named_def zero_table_def)

lemma sim_inf_inv: "distinct as \<Longrightarrow> length as \<le> MAX_BREAKPOINTS \<Longrightarrow> inf_inv (sim_dbg (sim_inferior as))"
  by (rule inf_invI [of _ "sim_inferior as"]) (simp_all add: sim_inf_ok)

theorem library_calls_safe_witness:
  "wp (run_all (lib_exec sim_os) [LContinue, LBreak (BpSet 5), LSetMemory 64 (Some [1, 2, 3]), LDetach, LAttach 9, LBreakFunction (Some ''main'')])
     (\<lambda>rs s'. inf_inv s' \<and> length rs = length [LContinue, LBreak (BpSet 5), LSetMemory 64 (Some [1, 2, 3]), LDetach, LAttach 9,
       LBreakFunction (Some ''main'')])
     (sim_dbg (sim_inferior [3]))"
  by (rule library_calls_safe) (simp_all add: sim_system sim_symbols sim_inf_inv small_table, rule allI, rule sim_accessible)


section \<open>The state of the process\<close>

text \<open>
  What the kernel reports of a process, and the word it stores for that (the upper bits of a
  stop hold the kind of a trace event).
\<close>

datatype wait_event =
    Exited "8 word"
  | KilledBy "8 word" bool
  | StoppedBy "24 word"
  | Continued

fun event_word :: "wait_event \<Rightarrow> wait_status" where
  "event_word (Exited n) = push_bit 8 (ucast n)"
| "event_word (KilledBy sg core) = ucast sg OR (if core then 0x80 else 0)"
| "event_word (StoppedBy sg) = push_bit 8 (ucast sg) OR 0x7F"
| "event_word Continued = 0xFFFF"

text \<open>Signals that kill have the numbers up to 126; the stop word 0xFFFF stands for continuing.\<close>

fun event_valid :: "wait_event \<Rightarrow> bool" where
  "event_valid (KilledBy sg core) = (0 < unat sg \<and> unat sg < 127)"
| "event_valid _ = True"

datatype wait_report = NoChange | Changed wait_event | NotWaited int

fun report_of :: "int + pid \<times> wait_status \<Rightarrow> wait_report \<Rightarrow> bool" where
  "report_of (Inr (q, st)) NoChange = (q = 0)"
| "report_of (Inr (q, st)) (Changed ev) = (q \<noteq> 0 \<and> st = event_word ev \<and> event_valid ev)"
| "report_of (Inl e) (NotWaited e') = (e = e')"
| "report_of _ _ = False"

text \<open>The answer of a call that is repeated as long as a signal interrupts it.\<close>

inductive wait_answers :: "('w \<Rightarrow> (int + 'a) \<times> 'w) \<Rightarrow> 'w \<Rightarrow> int + 'a \<Rightarrow> 'w \<Rightarrow> bool" for c where
  answered_now: "c w = (r, w') \<Longrightarrow> r \<noteq> Inl EINTR \<Longrightarrow> wait_answers c w r w'"
| interrupted_once: "c w = (Inl EINTR, w1) \<Longrightarrow> wait_answers c w1 r w' \<Longrightarrow> wait_answers c w r w'"

lemma wp_wait_answers:
  fixes s :: "('w, 'm) dbg_scheme"
  assumes "wait_answers c (world s) r w'" and "\<And>e. (\<forall>x. r = Inl x \<longrightarrow> e = x) \<Longrightarrow> Q r (s\<lparr>errno := e, world := w'\<rparr>)"
  shows "wp (sys_retry c) Q s"
  using assms
proof (induction "world s" r w' arbitrary: s rule: wait_answers.induct)
  case (answered_now r w')
  have "s\<lparr>world := w'\<rparr> = s\<lparr>errno := errno s, world := w'\<rparr>" by simp
  then show ?case
    using answered_now(1,2) answered_now(3) [of "errno s"] answered_now(3)
    by (cases r) (auto simp: wp_sys_retry_once wp_sys)
next
  case (interrupted_once w1 r w')
  let ?t = "s\<lparr>errno := EINTR, world := w1\<rparr>"
  have "wp (sys_retry c) Q ?t"
    by (rule interrupted_once(3)) (use interrupted_once(4) in auto)
  moreover have "sys_retry c s = sys_retry c ?t"
    using interrupted_once(1) by (simp add: sys_retry_def) (subst retry_eintr.simps, simp add: syscall_def)
  ultimately show ?case by (simp add: wp_def)
qed

text \<open>What the caller learns of a stop it waited for, and of a process that cannot be waited for.\<close>

definition stop_told :: "'w os \<Rightarrow> inferior \<Rightarrow> 'w \<Rightarrow> sylvan_code \<Rightarrow> bool" where
  "stop_told os i w c \<longleftrightarrow>
     (case os_getsiginfo os (inf_pid i) w of
        (Inl _, _) \<Rightarrow> c = SYLVANC_PTRACE_ERROR
      | (Inr why, w1) \<Rightarrow> (case os_getregs os (inf_pid i) w1 of
          (Inl _, _) \<Rightarrow> c = SYLVANC_PTRACE_GETREGS_FAILED
        | (Inr regs, _) \<Rightarrow> c =
            (if why \<noteq> SI_KERNEL then SYLVANC_PROC_STOPPED
             else if bp_map i (regs rip_cell - 1) \<noteq> None then SYVLANC_BREAKPOINT_HIT else SYLVANC_OK)))"

definition loss_told :: "'w os \<Rightarrow> inferior \<Rightarrow> int \<Rightarrow> 'w \<Rightarrow> sylvan_code \<Rightarrow> inferior \<Rightarrow> bool" where
  "loss_told os i e w c i' \<longleftrightarrow>
     (if e \<noteq> ECHILD then c = SYLVANC_WAITPID_FAILED \<and> i' = i
      else case fst (os_kill os (inf_pid i) 0 w) of
        Inr _ \<Rightarrow> c = SYLVANC_PROC_NOT_ATTACHED \<and> i' = i
      | Inl e' \<Rightarrow> if e' = ESRCH then c = SYLVANC_PROC_NOT_FOUND \<and> i' = forget_process i
                 else c = SYLVANC_SYSTEM_ERROR \<and> i' = i)"

fun event_told :: "'w os \<Rightarrow> bool \<Rightarrow> inferior \<Rightarrow> 'w \<Rightarrow> wait_event \<Rightarrow> sylvan_code \<Rightarrow> inferior \<Rightarrow> string \<Rightarrow> bool" where
  "event_told os blocking i w (Exited n) c i' msg = (c = SYLVANC_PROC_EXITED \<and>
     i' = i\<lparr>inf_status := SYLVAN_INFSTATE_EXITED, inf_pid := 0\<rparr> \<and>
     msg = ''Process '' @ dec_string (inf_pid i) @ '' exited with code '' @ dec_string (uint n))"
| "event_told os blocking i w (KilledBy sg core) c i' msg = (c = SYLVANC_PROC_TERMINATED \<and>
     i' = i\<lparr>inf_status := SYLVAN_INFSTATE_TERMINATED, inf_pid := 0\<rparr> \<and>
     msg = ''Process 0 terminated by signal '' @ dec_string (uint sg))"
| "event_told os blocking i w (StoppedBy sg) c i' msg =
     (i' = i\<lparr>inf_status := SYLVAN_INFSTATE_STOPPED\<rparr> \<and> (if blocking then stop_told os i w c else c = SYLVANC_OK))"
| "event_told os blocking i w Continued c i' msg =
     (c = SYLVANC_OK \<and> i' = i\<lparr>inf_status := SYLVAN_INFSTATE_RUNNING\<rparr>)"

fun report_told :: "'w os \<Rightarrow> bool \<Rightarrow> inferior \<Rightarrow> 'w \<Rightarrow> wait_report \<Rightarrow> sylvan_code \<Rightarrow> inferior \<Rightarrow> string \<Rightarrow> bool" where
  "report_told os blocking i w NoChange c i' msg = (c = SYLVANC_OK \<and> i' = i)"
| "report_told os blocking i w (Changed ev) c i' msg = event_told os blocking i w ev c i' msg"
| "report_told os blocking i w (NotWaited e) c i' msg = loss_told os i e w c i'"

text \<open>The macros tell the events apart.\<close>

lemma low_masks: "(0x7F :: 32 word) = mask 7" "(0xFF :: 32 word) = mask 8" "(0xFF00 :: 32 word) = push_bit 8 (mask 8)"
  by (simp_all add: mask_eq_exp_minus_1)

lemma exited_word:
  "WIFEXITED (push_bit 8 (ucast (n :: 8 word)))" "WEXITSTATUS (push_bit 8 (ucast (n :: 8 word))) = ucast n"
proof -
  have "push_bit 8 (ucast n) AND mask 7 = (0 :: 32 word)"
    by (rule bit_word_eqI) (auto simp: bit_simps)
  then show "WIFEXITED (push_bit 8 (ucast n))" by (simp only: WIFEXITED_def WTERMSIG_def low_masks)
  have "drop_bit 8 (push_bit 8 (ucast n) AND push_bit 8 (mask 8)) = (ucast n :: 32 word)"
    by (rule bit_word_eqI) (auto simp: bit_simps dest: bit_imp_le_length)
  then show "WEXITSTATUS (push_bit 8 (ucast n)) = ucast n" by (simp only: WEXITSTATUS_def low_masks)
qed

lemma killed_word:
  assumes "0 < unat sg" "unat sg < 127"
  shows "\<not> WIFEXITED (event_word (KilledBy sg core))" "WIFSIGNALED (event_word (KilledBy sg core))"
    "WTERMSIG (event_word (KilledBy sg core)) = ucast sg"
proof -
  have "unat sg \<in> set [1..<127]" using assms by simp
  moreover have "\<forall>n \<in> set [1..<127]. ((of_nat n :: 32 word) OR 0x80) AND 0x7F = of_nat n \<and> (of_nat n :: 32 word) AND 0x7F = of_nat n \<and>
      (of_nat n :: 32 word) \<noteq> 0 \<and> (of_nat n :: 32 word) \<noteq> 0x7F"
    by code_simp
  moreover have "(ucast sg :: 32 word) = of_nat (unat sg)" by simp
  ultimately have "event_word (KilledBy sg core) AND 0x7F = ucast sg \<and> ucast sg \<noteq> (0 :: 32 word) \<and> ucast sg \<noteq> (0x7F :: 32 word)"
    by (simp del: of_nat_unat)
  then show "\<not> WIFEXITED (event_word (KilledBy sg core))" "WIFSIGNALED (event_word (KilledBy sg core))"
    "WTERMSIG (event_word (KilledBy sg core)) = ucast sg"
    by (simp_all add: WIFEXITED_def WTERMSIG_def wifsignaled_iff del: event_word.simps)
qed

lemma stopped_word:
  "\<not> WIFEXITED (event_word (StoppedBy sg))" "\<not> WIFSIGNALED (event_word (StoppedBy sg))" "WIFSTOPPED (event_word (StoppedBy sg))"
proof -
  have "(push_bit 8 (ucast sg) OR mask 7) AND mask 7 = (mask 7 :: 32 word)" for sg :: "24 word"
    by (rule bit_word_eqI) (auto simp: bit_simps)
  then have low: "event_word (StoppedBy sg) AND 0x7F = 0x7F" by (simp only: event_word.simps low_masks)
  then show "\<not> WIFEXITED (event_word (StoppedBy sg))" "\<not> WIFSIGNALED (event_word (StoppedBy sg))"
    by (simp_all add: WIFEXITED_def WTERMSIG_def wifsignaled_iff del: event_word.simps)
  have "(push_bit 8 (ucast sg) OR mask 7) AND mask 8 = (mask 7 :: 32 word)" for sg :: "24 word"
    by (rule bit_word_eqI) (auto simp: bit_simps)
  then show "WIFSTOPPED (event_word (StoppedBy sg))" by (simp only: WIFSTOPPED_def event_word.simps low_masks)
qed

lemma continued_word:
  "\<not> WIFEXITED 0xFFFF" "\<not> WIFSIGNALED 0xFFFF" "\<not> WIFSTOPPED 0xFFFF" "WIFCONTINUED 0xFFFF"
  by (simp_all add: WIFEXITED_def WTERMSIG_def wifsignaled_iff WIFSTOPPED_def WIFCONTINUED_def)

lemma dec_byte: "length (dec_string (uint (n :: 8 word))) \<le> 10"
  using unsigned_less [of n, where 'a = int] by (intro dec_string_length) simp_all

lemma snprintf_fits: "cformat fmt args = Some t \<Longrightarrow> length t + 2 < n \<Longrightarrow> snprintf n fmt args = Some t"
  by (simp add: snprintf_def)

lemma stop_reason_told:
  assumes "infp t = InfLive (i\<lparr>inf_status := SYLVAN_INFSTATE_STOPPED\<rparr>)" "bps_ok i"
  shows "wp (stop_reason os i) (\<lambda>c s'. infp s' = infp t \<and> stop_told os i (world t) c) t"
  using assms
  by (auto simp: stop_reason_def stop_told_def wp_simps snprintf_def cformat_plain formats bps_ok_slot_lt bp_map_def
      split: sum.splits prod.splits option.splits dest!: bp_index_SomeD)

lemma loss_tells:
  assumes "infp t = InfLive i"
  shows "wp (status_lost os i e) (\<lambda>c s'. \<exists>i'. infp s' = InfLive i' \<and> loss_told os i e (world t) c i') t"
  using assms
  by (auto simp: status_lost_def loss_told_def wp_simps snprintf_def cformat_plain formats forget_process_def
      split: sum.splits prod.splits)

lemma event_tells:
  assumes "infp t = InfLive i" "bps_ok i" "0 < inf_pid i" "inf_pid i < 2 ^ 31" "event_valid ev"
  shows "wp (status_reported os i blocking (event_word ev)) (\<lambda>c s'. \<exists>i'. infp s' = InfLive i' \<and>
    event_told os blocking i (world t) ev c i' (ec_message (sylvan_last_error s'))) t"
proof (cases ev)
  case (Exited n)
  have "uint (ucast n :: 32 word) = uint n" by (simp add: uint_up_ucast is_up)
  then have "cformat ''Process %d exited with code %d'' [FInt (inf_pid i), FInt (uint (ucast n :: 32 word))] =
      Some (''Process '' @ dec_string (inf_pid i) @ '' exited with code '' @ dec_string (uint n))"
    by (simp only: formats)
  moreover have "length (''Process '' @ dec_string (inf_pid i) @ '' exited with code '' @ dec_string (uint n)) + 2 < ERRMSG_SIZE - 1"
    using dec_byte [of n] dec_string_length [of "inf_pid i"] assms(3,4) by (simp add: ERRMSG_SIZE_def)
  ultimately have "snprintf (ERRMSG_SIZE - 1) ''Process %d exited with code %d'' [FInt (inf_pid i), FInt (uint (ucast n :: 32 word))] =
      Some (''Process '' @ dec_string (inf_pid i) @ '' exited with code '' @ dec_string (uint n))"
    by (rule snprintf_fits)
  with Exited assms(1) show ?thesis
    by (simp add: status_reported_def exited_word wp_simps)
next
  case (KilledBy sg core)
  have "uint (ucast sg :: 32 word) = uint sg" by (simp add: uint_up_ucast is_up)
  moreover have "dec_string 0 = ''0''" by code_simp
  ultimately have "cformat ''Process %d terminated by signal %d'' [FInt 0, FInt (uint (ucast sg :: 32 word))] =
      Some (''Process 0 terminated by signal '' @ dec_string (uint sg))"
    by (simp add: formats)
  moreover have "length (''Process 0 terminated by signal '' @ dec_string (uint sg)) + 2 < ERRMSG_SIZE - 1"
    using dec_byte [of sg] by (simp add: ERRMSG_SIZE_def)
  ultimately have "snprintf (ERRMSG_SIZE - 1) ''Process %d terminated by signal %d'' [FInt 0, FInt (uint (ucast sg :: 32 word))] =
      Some (''Process 0 terminated by signal '' @ dec_string (uint sg))"
    by (rule snprintf_fits)
  with KilledBy assms(1,5) show ?thesis
    by (simp add: status_reported_def killed_word wp_simps del: event_word.simps)
next
  case (StoppedBy sg)
  let ?t = "t\<lparr>infp := InfLive (i\<lparr>inf_status := SYLVAN_INFSTATE_STOPPED\<rparr>)\<rparr>"
  have "wp (stop_reason os i) (\<lambda>c s'. infp s' = infp ?t \<and> stop_told os i (world ?t) c) ?t"
    by (rule stop_reason_told) (use assms(2) in simp_all)
  then have "wp (stop_reason os i) (\<lambda>c s'. infp s' = InfLive (i\<lparr>inf_status := SYLVAN_INFSTATE_STOPPED\<rparr>) \<and>
      stop_told os i (world t) c) ?t" by simp
  with StoppedBy assms(1) show ?thesis
    by (simp add: status_reported_def stopped_word wp_simps del: event_word.simps)
next
  case Continued
  with assms(1) show ?thesis by (simp add: status_reported_def continued_word wp_simps)
qed



text \<open>What the code of a kill says.\<close>

definition kill_after :: "sylvan_code \<Rightarrow> inferior \<Rightarrow> inferior \<Rightarrow> bool" where
  "kill_after c i i' \<longleftrightarrow>
     (if c = SYLVANC_OK then \<not> isactive i' \<and> inf_pid i' \<le> 0
      else c \<in> {SYLVANC_KILL_FAILED, SYLVANC_WAITPID_FAILED} \<and> i' = i)"

lemma kill_after_cases:
  "kill_after SYLVANC_OK i (forget_process i)" "kill_after SYLVANC_KILL_FAILED i i"
  "kill_after SYLVANC_WAITPID_FAILED i i" "inf_ok i \<Longrightarrow> \<not> isactive i \<Longrightarrow> kill_after SYLVANC_OK i i"
  by (auto simp: kill_after_def forget_process_def isactive_def inf_ok_def)

text \<open>Killing leaves no process behind, or says why not.\<close>

lemma kill_forgets_process:
  assumes "system_ok os" "infp s = InfLive i" "inf_ok i"
  shows "wp (sylvan_kill os) (\<lambda>c s'. \<exists>i'. infp s' = InfLive i' \<and> kill_after c i i') s"
proof -
  have wait: "wp (sys_retry (os_waitpid os (inf_pid i) False)) (\<lambda>r. wp (case r of
           Inl _ \<Rightarrow> sylvan_set_errno_msg os SYLVANC_WAITPID_FAILED ''waitpid'' []
         | Inr _ \<Rightarrow> bnd (upd_inf forget_process) (\<lambda>_. ret SYLVANC_OK))
       (\<lambda>c s'. \<exists>i'. infp s' = InfLive i' \<and> kill_after c i i')) t"
    if "infp t = InfLive i" for t :: "('a, 'b) dbg_scheme"
    by (rule wp_waitpid)
      (use assms(1) that in \<open>auto simp: system_ok_def wp_simps cformat_plain kill_after_cases split: sum.splits\<close>)
  show ?thesis
    using assms(2) kill_after_cases(4) [OF assms(3)] wait
    by (auto simp: sylvan_kill_def wp_bnd wp_check_inf wp_get_inf wp_sys wp_ret wp_set_errno_msg wp_upd_inf cformat_plain
        kill_after_cases split: prod.splits sum.splits)
qed


section \<open>Detaching\<close>

text \<open>Looking at a process without waiting, and letting it go, do not change its memory.\<close>

definition quiet :: "'w os \<Rightarrow> (pid \<Rightarrow> 'w \<Rightarrow> memory) \<Rightarrow> bool" where
  "quiet os mem \<longleftrightarrow> (\<forall>p w. mem p (snd (os_waitpid os p True w)) = mem p w) \<and>
     (\<forall>p w. mem p (snd (os_detach os p w)) = mem p w)"

lemma update_status_quiet:
  assumes os: "system_ok os" "quiet os mem" and s: "infp s = InfLive i"
  shows "wp (sylvan_update_inf_status os False) (\<lambda>c s'. c = SYLVANC_OK \<longrightarrow>
    mem (inf_pid i) (world s') = mem (inf_pid i) (world s)) s"
proof (cases "inf_pid i \<le> 0")
  case True
  with s show ?thesis by (simp add: sylvan_update_inf_status_def wp_simps snprintf_def cformat_plain)
next
  case False
  let ?I = "\<lambda>w. mem (inf_pid i) w = mem (inf_pid i) (world s)"
  obtain n where n: "eintr_after (os_waitpid os (inf_pid i) True) n (world s)"
    using os(1) unfolding system_ok_def wait_settles_def by blast
  have "wp (sys_retry (os_waitpid os (inf_pid i) True)) (\<lambda>r. wp (case r of
         Inl e \<Rightarrow> status_lost os i e
       | Inr (res, st) \<Rightarrow> if res = 0 then ret SYLVANC_OK else status_reported os i False st)
      (\<lambda>c s'. c = SYLVANC_OK \<longrightarrow> ?I (world s'))) s"
  proof (rule wp_sys_retry [OF n, where I = ?I])
    show "?I (snd (os_waitpid os (inf_pid i) True w))" if "?I w" for w
      using that os(2) by (simp add: quiet_def)
    fix r w0 w e
    assume h: "?I w0" "os_waitpid os (inf_pid i) True w0 = (r, w)"
    then have w: "?I w" using os(2) unfolding quiet_def by (metis snd_conv)
    have cl: "classified st" if "r = Inr (q, st)" "q \<noteq> 0" for q st
      using os(1) h(2) that unfolding system_ok_def wait_classified_def by blast
    show "wp (case r of
         Inl e \<Rightarrow> status_lost os i e
       | Inr (res, st) \<Rightarrow> if res = 0 then ret SYLVANC_OK else status_reported os i False st)
      (\<lambda>c s'. c = SYLVANC_OK \<longrightarrow> ?I (world s')) (s\<lparr>errno := e, world := w\<rparr>)"
      using s(1) w cl
      by (auto simp: wp_simps status_lost_def status_reported_def snprintf_def formats cformat_plain classified_def
          split: sum.splits prod.splits)
  qed simp
  with False s(1) show ?thesis
    by (simp add: sylvan_update_inf_status_def wp_assert_inf wp_get_inf wp_bnd)
qed

text \<open>What a successful detach of the process of \<open>i\<close> leaves.\<close>

definition let_go :: "(pid \<Rightarrow> 'w \<Rightarrow> memory) \<Rightarrow> inferior \<Rightarrow> memory \<Rightarrow> sylvan_code \<Rightarrow> ('w, 'm) dbg_scheme \<Rightarrow> bool" where
  "let_go mem i tx c s' \<longleftrightarrow> (c = SYLVANC_OK \<longrightarrow> (\<exists>i'. infp s' = InfLive i' \<and> \<not> isactive i' \<and>
     (inf_status i' = SYLVAN_INFSTATE_NONE \<longrightarrow> mem (inf_pid i) (world s') = tx)))"

lemma release_lets_go:
  assumes "quiet os mem" "infp t = InfLive k" "inf_pid k = inf_pid i" "mem (inf_pid i) (world t) = tx"
  shows "wp (detach_release os) (let_go mem i tx) t"
  using assms unfolding quiet_def
  by (auto simp: let_go_def detach_release_def wp_simps cformat_plain forget_process_def isactive_def split: prod.splits sum.splits)
    (metis snd_conv)+

lemma removed_lets_go:
  assumes os: "quiet os mem" "tracee_memory os mem"
    and t: "infp t = InfLive j" "bps_ok j" "isactive j" "inf_pid j = inf_pid i"
  shows "wp (on_ok (sylvan_breakpoint_unsetall_phybp os) (detach_release os)) (let_go mem i (bp_text mem t)) t"
  unfolding wp_on_ok
proof (rule wp_mono [OF unsetall_spec [OF t(1,2,3), where mem = mem]], elim exE conjE)
  fix c u k
  assume h: "table_step os mem j t k u" "c = SYLVANC_OK \<longrightarrow> saved k = Map.empty"
  then have k: "infp u = InfLive k" "inf_pid k = inf_pid i" "kept mem j t k u"
    using os(2) t(4) by (auto simp: table_step_def dest: bp_onlyD)
  have "mem (inf_pid i) (world u) = bp_text mem t" if "c = SYLVANC_OK"
    using kept_text [OF t(1) k(1) _ k(3)] h(2) that k(1,2) t(4) by (simp add: bp_text_def orig_view_def)
  then show "if c \<noteq> SYLVANC_OK then let_go mem i (bp_text mem t) c u else wp (detach_release os) (let_go mem i (bp_text mem t)) u"
    using release_lets_go [OF os(1) k(1,2)] by (auto simp: let_go_def [of _ _ _ c])
qed

text \<open>C4: After a successful detach no process is known, and if the process was still
  there its memory holds the program text, without breakpoints.\<close>

theorem detach_restores_text:
  assumes os: "system_ok os" "quiet os mem" "tracee_memory os mem"
    and i: "infp s = InfLive i" "bps_ok i" "inf_is_attached i" "isactive i"
  shows "wp (sylvan_detach os) (\<lambda>c s'. c = SYLVANC_OK \<longrightarrow> (\<exists>i'. infp s' = InfLive i' \<and> \<not> isactive i' \<and>
    (inf_status i' = SYLVAN_INFSTATE_NONE \<longrightarrow> mem (inf_pid i) (world s') = bp_text mem s))) s"
proof -
  have "wp (bnd (sylvan_update_inf_status os False) (\<lambda>code.
       if code = SYLVANC_PROC_EXITED \<or> code = SYLVANC_PROC_TERMINATED then ret SYLVANC_OK
       else if code \<noteq> SYLVANC_OK then ret code
       else on_ok (sylvan_breakpoint_unsetall_phybp os) (detach_release os))) (let_go mem i (bp_text mem s)) s"
  proof (rule wp_bndI [OF wp_conj [OF update_status_spec [OF os(1) [unfolded system_ok_def, THEN conjunct1] os(1) [unfolded system_ok_def, THEN conjunct2] i(1,2)] update_status_quiet [OF os(1,2) i(1)]]],
      elim conjE exE)
    fix c t j
    assume h: "infp t = InfLive j" "status_after c i j"
      "c = SYLVANC_OK \<longrightarrow> mem (inf_pid i) (world t) = mem (inf_pid i) (world s)"
    have gone: "\<not> isactive j \<and> inf_status j \<noteq> SYLVAN_INFSTATE_NONE"
      if "c = SYLVANC_PROC_EXITED \<or> c = SYLVANC_PROC_TERMINATED"
      using h(2) that by (auto simp: status_after_def isactive_def)
    have same: "inf_pid j = inf_pid i" "bp_text mem t = bp_text mem s" if "c = SYLVANC_OK"
      using h that i(1) by (auto simp: status_after_def saved_def bp_text_def orig_view_def fun_eq_iff split: option.splits)
    have "wp (on_ok (sylvan_breakpoint_unsetall_phybp os) (detach_release os)) (let_go mem i (bp_text mem s)) t" if "c = SYLVANC_OK"
      using removed_lets_go [OF os(2,3) h(1) _ _ same(1)] same(2) that h(2) i(2,4) status_after_bps [of c i j] status_after_stays [of i j] by simp
    with gone h(1) show "wp (if c = SYLVANC_PROC_EXITED \<or> c = SYLVANC_PROC_TERMINATED then ret SYLVANC_OK
       else if c \<noteq> SYLVANC_OK then ret c
       else on_ok (sylvan_breakpoint_unsetall_phybp os) (detach_release os)) (let_go mem i (bp_text mem s)) t"
      by (auto simp: wp_ret let_go_def)
  qed
  with i(1,3) show ?thesis
    by (simp add: sylvan_detach_def wp_check_inf wp_bnd wp_get_inf let_go_def [abs_def])
qed

lemma sim_quiet: "quiet sim_os sim_memory"
  by (auto simp: quiet_def sim_os_def sim_waitpid_def split: list.splits sum.splits prod.splits)

theorem detach_restores_text_witness:
  "wp (sylvan_detach sim_os) (\<lambda>c s'. c = SYLVANC_OK \<longrightarrow> (\<exists>i'. infp s' = InfLive i' \<and> \<not> isactive i' \<and>
    (inf_status i' = SYLVAN_INFSTATE_NONE \<longrightarrow> sim_mem (world s') = bp_text sim_memory (sim_dbg (sim_inferior [3])))))
    (sim_dbg (sim_inferior [3]))"
  using detach_restores_text [OF sim_system sim_quiet sim_tracee_memory, of "sim_dbg (sim_inferior [3])" "sim_inferior [3]"]
  by (simp add: sim_inf_ok small_table sim_bps_ok)

end
