(* ===== verification/Library_Properties.thy ===== *)
theory Library_Properties
  imports Inferior_Properties
begin

text \<open>
  Properties of the symbol tables, of path resolution and of the tracee's memory,
  each with a witness that runs it on the simulated system of \<open>Simulation\<close>.
\<close>

section \<open>Symbols\<close>

text \<open>C5: After the tables were loaded, a lookup finds the address of a symbol of that
  name where the debug information or the executable has one, the debug
  information first, and reports that there is none otherwise. Memory allocation
  succeeds, the libraries deliver the same contents whenever they read the file, it is
  read without error, and its symbol tables state the size of their entries; the sections
  that are no symbol tables may have any.\<close>

theorem load_then_lookup:
  assumes os: "malloc_succeeds os" "debug_info os (inf_realpath i) d e" "elf_readable e"
    and s: "infp s = InfLive i" "freeable (inf_elf_table i)" "freeable (inf_dwarf_table i)"
  shows "wp (bnd (sylvan_sym_load_tables os) (\<lambda>_. sylvan_get_label_addr name)) (\<lambda>(c, r) s'.
    case r of
      None \<Rightarrow> c = SYLVANC_SYMBOL_NOT_FOUND \<and>
        (\<forall>y \<in> set (dwarf_symbols d) \<union> set (elf_symbols e). sym_name y \<noteq> Some name)
    | Some a \<Rightarrow> c = SYLVANC_OK \<and> (\<exists>y. sym_name y = Some name \<and> sym_addr y = a \<and>
        (y \<in> set (dwarf_symbols d) \<or>
         y \<in> set (elf_symbols e) \<and> (\<forall>z \<in> set (dwarf_symbols d). sym_name z \<noteq> Some name)))) s"
proof (rule wp_bndI [OF load_tables_spec [OF os s]], elim conjE)
  fix c t
  assume "tables_loaded i d e s t"
  then obtain w dt et where h: "t = with_tables i dt et w s" "sorted_table dt" "sorted_table et"
      "mset (contents dt) = mset (dwarf_symbols d)" "mset (contents et) = mset (elf_symbols e)"
    by (auto simp: tables_loaded_def)
  have t: "infp t = InfLive (i\<lparr>inf_dwarf_table := dt, inf_elf_table := et\<rparr>)" "sorted_table dt" "sorted_table et"
      "set (contents dt) = set (dwarf_symbols d)" "set (contents et) = set (elf_symbols e)"
    using h mset_eq_setD by (auto simp: with_tables_infp)
  show "wp (sylvan_get_label_addr name) (\<lambda>(c, r) s'. case r of
      None \<Rightarrow> c = SYLVANC_SYMBOL_NOT_FOUND \<and>
        (\<forall>y \<in> set (dwarf_symbols d) \<union> set (elf_symbols e). sym_name y \<noteq> Some name)
    | Some a \<Rightarrow> c = SYLVANC_OK \<and> (\<exists>y. sym_name y = Some name \<and> sym_addr y = a \<and>
        (y \<in> set (dwarf_symbols d) \<or>
         y \<in> set (elf_symbols e) \<and> (\<forall>z \<in> set (dwarf_symbols d). sym_name z \<noteq> Some name)))) t"
  proof (rule wp_mono [OF wp_get_label_addr [OF t(1)]], simp_all add: t(2,3), clarify)
    fix c r
    show "case table_index.resolve dt et name of
      None \<Rightarrow> (if table_index.resolve dt et name = None then SYLVANC_SYMBOL_NOT_FOUND else SYLVANC_OK) = SYLVANC_SYMBOL_NOT_FOUND \<and>
        (\<forall>y \<in> set (dwarf_symbols d) \<union> set (elf_symbols e). sym_name y \<noteq> Some name)
    | Some a \<Rightarrow> (if table_index.resolve dt et name = None then SYLVANC_SYMBOL_NOT_FOUND else SYLVANC_OK) = SYLVANC_OK \<and>
        (\<exists>y. sym_name y = Some name \<and> sym_addr y = a \<and>
        (y \<in> set (dwarf_symbols d) \<or>
         y \<in> set (elf_symbols e) \<and> (\<forall>z \<in> set (dwarf_symbols d). sym_name z \<noteq> Some name)))"
      using table_index.resolve_None [OF t(2,3), of name] table_index.resolve_Some [OF t(2,3), of name]
      by (cases "table_index.resolve dt et name") (simp_all add: t(4,5))
  qed
qed

theorem load_then_lookup_witness:
  "wp (bnd (sylvan_sym_load_tables sim_os) (\<lambda>_. sylvan_get_label_addr ''main'')) (\<lambda>(c, r) s'.
    case r of
      None \<Rightarrow> c = SYLVANC_SYMBOL_NOT_FOUND \<and>
        (\<forall>y \<in> set (dwarf_symbols sim_dwarf) \<union> set (elf_symbols sim_elf). sym_name y \<noteq> Some ''main'')
    | Some a \<Rightarrow> c = SYLVANC_OK \<and> (\<exists>y. sym_name y = Some ''main'' \<and> sym_addr y = a \<and>
        (y \<in> set (dwarf_symbols sim_dwarf) \<or>
         y \<in> set (elf_symbols sim_elf) \<and> (\<forall>z \<in> set (dwarf_symbols sim_dwarf). sym_name z \<noteq> Some ''main''))))
    (sim_dbg zero_inferior)"
  by (rule load_then_lookup [OF sim_malloc sim_debug_info sim_elf_readable, where i = zero_inferior])
    (simp_all add: zero_inferior_def freeable_def zero_table_def)

text \<open>A breakpoint on a function is set at the address its name resolves to.\<close>

lemma function_breakpoint_at_symbol:
  assumes s: "infp s = InfLive i" "bps_ok i" "sorted_table (inf_dwarf_table i)" "sorted_table (inf_elf_table i)"
    and a: "table_index.resolve (inf_dwarf_table i) (inf_elf_table i) f = Some a"
    and room: "inf_breakpoint_count i < MAX_BREAKPOINTS" and new: "bp_map i a = None"
  shows "wp (sylvan_set_breakpoint_function os (Some f)) (\<lambda>c s'. c \<in> phys_codes \<and>
    bp_view s' = (bp_view s)(a \<mapsto> True)) s"
proof -
  have idx: "bp_index i a = None" using new by (simp add: bp_map_None_iff)
  have set: "wp (on_ok (sylvan_breakpoint_set os a) (ret SYLVANC_OK)) (\<lambda>c s'. c \<in> phys_codes \<and>
      bp_view s' = (bp_view s)(a \<mapsto> True)) t" if "infp t = InfLive i" for t
    unfolding wp_on_ok
    by (rule wp_mono [OF set_spec [OF that s(2) room idx, where mem = "\<lambda>_ _ _. 0"]])
      (auto simp: bp_view_def s(1) wp_ret phys_codes_def)
  have "wp (bnd (sylvan_get_label_addr f) (\<lambda>(code, addr).
           case addr of None \<Rightarrow> ret code | Some a \<Rightarrow> on_ok (sylvan_breakpoint_set os a) (ret SYLVANC_OK)))
     (\<lambda>c s'. c \<in> phys_codes \<and> bp_view s' = (bp_view s)(a \<mapsto> True)) s"
    by (rule wp_bndI [OF wp_get_label_addr [OF s(1,3,4)]]) (use a set s(1) in auto)
  with s(1) show ?thesis by (simp add: sylvan_set_breakpoint_function_def wp_check_inf)
qed


section \<open>Paths\<close>

text \<open>C13: The canonical path of a command is that of the file, or else the first
  executable of that name in the directories of \<open>PATH\<close>, in their order.\<close>

theorem canonical_path_resolves:
  assumes "filesystem os executable canonical PATH"
  shows "wp (sylvan_canonical_path os f) (\<lambda>r s'. r = path_result (resolve_command executable canonical PATH f)) s"
  by (rule wp_mono [OF canonical_path_spec [OF assms]]) simp

theorem canonical_path_resolves_witness:
  "wp (sylvan_canonical_path sim_os ''/bin/ls'') (\<lambda>r s'. r = (SYLVANC_OK, Some ''/bin/ls'')) (sim_dbg zero_inferior)"
  using canonical_path_resolves [OF sim_filesystem, of "''/bin/ls''" "sim_dbg zero_inferior"]
  by (simp add: resolve_command_def)


section \<open>Memory\<close>

lemma set_memory_writes:
  assumes mem: "tracee_memory os mem" and acc: "memory_accessible os (inf_pid i)" and s: "infp s = InfLive i"
    and bs: "bs \<noteq> []" "length bs \<le> 2 ^ 64" and a: "a \<noteq> 0"
  shows "wp (sylvan_set_memory os a (Some bs)) (\<lambda>c s'. c = SYLVANC_OK \<and> infp s' = infp s \<and>
    mem (inf_pid i) (world s') = write_bytes (mem (inf_pid i) (world s)) a bs) s"
  using set_memory_from_spec [OF mem acc s bs(2), of a] bs(1) a s
  by (simp add: sylvan_set_memory_def wp_check_inf)

text \<open>C7: Writing any number of bytes changes exactly these bytes of the memory.\<close>

theorem set_memory_writes_bytes:
  assumes mem: "tracee_memory os mem" and acc: "memory_accessible os (inf_pid i)" and s: "infp s = InfLive i"
    and bs: "bs \<noteq> []" "length bs \<le> 2 ^ 64" and a: "a \<noteq> 0"
  shows "wp (sylvan_set_memory os a (Some bs)) (\<lambda>c s'. c = SYLVANC_OK \<and> infp s' = infp s \<and>
    mem (inf_pid i) (world s') = write_bytes (mem (inf_pid i) (world s)) a bs) s"
  by (rule set_memory_writes [OF assms])

theorem set_memory_writes_bytes_witness:
  "wp (sylvan_set_memory sim_os 16 (Some [1, 2, 3, 4, 5, 6, 7, 8, 9])) (\<lambda>c s'. c = SYLVANC_OK \<and>
     infp s' = infp (sim_dbg (sim_inferior [])) \<and>
     sim_mem (world s') = write_bytes (sim_mem sim_world) 16 [1, 2, 3, 4, 5, 6, 7, 8, 9]) (sim_dbg (sim_inferior []))"
  using set_memory_writes_bytes [OF sim_tracee_memory sim_accessible, of "sim_dbg (sim_inferior [])" "sim_inferior []"
      "[1, 2, 3, 4, 5, 6, 7, 8, 9]" 16] by simp

text \<open>What was written can be read back: a word at any address.\<close>

lemma set_get_memory:
  assumes mem: "tracee_memory os mem" and acc: "memory_accessible os (inf_pid i)" and s: "infp s = InfLive i" and a: "a \<noteq> 0"
  shows "wp (bnd (sylvan_set_memory os a (Some (bytes_of_word v))) (\<lambda>_. sylvan_get_memory os a))
    (\<lambda>(c, d) s'. c = SYLVANC_OK \<and> d = Some v) s"
proof (rule wp_bndI [OF set_memory_writes [OF mem acc s _ _ a]])
  show "bytes_of_word v \<noteq> []" by (simp add: bytes_of_word_def)
next
  fix c t
  assume t: "c = SYLVANC_OK \<and> infp t = infp s \<and>
    mem (inf_pid i) (world t) = write_bytes (mem (inf_pid i) (world s)) a (bytes_of_word v)"
  have "read_word (write_bytes m a (bytes_of_word v)) a = v" for m
    by (rule word_eq_by_bytes)
      (simp add: byte_of_read_word write_bytes_def bytes_of_word_def unat_of_nat)
  with t s show "wp (sylvan_get_memory os a) (\<lambda>(c, d) s'. c = SYLVANC_OK \<and> d = Some v) t"
    by (intro wp_mono [OF get_memory_spec [OF mem acc, of t]]) auto
qed simp

lemma set_get_memory_witness:
  "wp (bnd (sylvan_set_memory sim_os 16 (Some (bytes_of_word 77))) (\<lambda>_. sylvan_get_memory sim_os 16))
    (\<lambda>(c, d) s'. c = SYLVANC_OK \<and> d = Some 77) (sim_dbg (sim_inferior []))"
  by (rule set_get_memory [OF sim_tracee_memory sim_accessible, where i = "sim_inferior []"]) simp_all

end
