(* ===== verification/Terminal.thy ===== *)
theory Terminal
  imports Inferior Memory Complex_Main
begin

text \<open>
  \<open>src/ui_utils.c\<close>: coloured messages, the size of the terminal and the tables. The
  state of the library is extended by what was written to the two output streams.
  What the terminal and the files answer is a parameter (\<open>tty\<close>).
\<close>

section \<open>Output\<close>

datatype stream = Stdout | Stderr

record 'w console = "'w dbg" +
  con_out :: "(stream \<times> string) list"

type_synonym ('w, 'm, 'a) tprog = "(('w, 'm) console_scheme, 'a) prog"

definition put :: "stream \<Rightarrow> string \<Rightarrow> ('w, 'm, unit) tprog" where
  "put f t = modify (\<lambda>s. s\<lparr>con_out := con_out s @ [(f, t)]\<rparr>)"

definition fprintf :: "stream \<Rightarrow> string \<Rightarrow> farg list \<Rightarrow> ('w, 'm, unit) tprog" where
  "fprintf f fmt args = (case cformat fmt args of None \<Rightarrow> undefined_behaviour | Some t \<Rightarrow> put f t)"

abbreviation "printf \<equiv> fprintf Stdout"

lemma wp_put [wp_simps]: "wp (put f t) Q s = Q () (s\<lparr>con_out := con_out s @ [(f, t)]\<rparr>)"
  by (simp add: put_def wp_simps)

lemma wp_fprintf [wp_simps]:
  "wp (fprintf f fmt args) Q s =
     (case cformat fmt args of None \<Rightarrow> False | Some t \<Rightarrow> Q () (s\<lparr>con_out := con_out s @ [(f, t)]\<rparr>))"
  by (auto simp: fprintf_def wp_simps split: option.splits)

definition newline :: string where "newline = [CHR 0x0A]"
definition RESET :: string where "RESET = CHR 0x1B # ''[0m''"
definition RED :: string where "RED = CHR 0x1B # ''[31m''"
definition GREEN :: string where "GREEN = CHR 0x1B # ''[32m''"
definition YELLOW :: string where "YELLOW = CHR 0x1B # ''[33m''"
definition BLUE :: string where "BLUE = CHR 0x1B # ''[34m''"
definition MAGENTA :: string where "MAGENTA = CHR 0x1B # ''[35m''"
definition CYAN :: string where "CYAN = CHR 0x1B # ''[36m''"
definition WHITE :: string where "WHITE = CHR 0x1B # ''[37m''"
definition BOLD :: string where "BOLD = CHR 0x1B # ''[1m''"

text \<open>The three parts of a message are printed at once here.\<close>

definition coloured :: "string \<Rightarrow> string \<Rightarrow> farg list \<Rightarrow> ('w, 'm, unit) tprog" where
  "coloured start fmt args =
     (case cformat fmt args of
        None \<Rightarrow> undefined_behaviour
      | Some t \<Rightarrow> put Stdout (start @ t @ RESET @ newline))"

definition sylvan_print_error :: "string \<Rightarrow> farg list \<Rightarrow> ('w, 'm, unit) tprog" where
  "sylvan_print_error = coloured RED"

definition sylvan_print_ok :: "string \<Rightarrow> farg list \<Rightarrow> ('w, 'm, unit) tprog" where
  "sylvan_print_ok = coloured GREEN"

definition sylvan_print_instruction :: "string \<Rightarrow> farg list \<Rightarrow> ('w, 'm, unit) tprog" where
  "sylvan_print_instruction = coloured (YELLOW @ ''Usage:'' @ newline @ RESET @ GREEN)"

definition clear_screen :: "('w, 'm, unit) tprog" where
  "clear_screen = put Stdout (CHR 0x1B # ''[2J'' @ CHR 0x1B # ''[H'')"

lemma wp_coloured [wp_simps]:
  "wp (coloured c fmt args) Q s =
     (case cformat fmt args of
        None \<Rightarrow> False
      | Some t \<Rightarrow> Q () (s\<lparr>con_out := con_out s @ [(Stdout, c @ t @ RESET @ newline)]\<rparr>))"
  by (auto simp: coloured_def wp_simps split: option.splits)

lemmas print_defs = sylvan_print_error_def sylvan_print_ok_def sylvan_print_instruction_def


section \<open>The size of the terminal\<close>

text \<open>
  \<open>tty_winsize\<close> is the answer of \<open>ioctl\<close> on a stream, \<open>None\<close> where the stream is no
  terminal or the call fails: columns and rows, as unsigned shorts. \<open>tty_getchar\<close>
  answers -1 at the end of the input; \<open>tty_open\<close> and \<open>tty_read\<close> are \<open>open\<close> and
  \<open>read\<close> on a file of \<open>/proc\<close>.
\<close>

record 'w tty =
  tty_winsize :: "stream \<Rightarrow> 'w \<Rightarrow> (16 word \<times> 16 word) option"
  tty_getenv :: "string \<Rightarrow> 'w \<Rightarrow> string option"
  tty_getchar :: "'w \<Rightarrow> int \<times> 'w"
  tty_open :: "string \<Rightarrow> 'w \<Rightarrow> (int + unit) \<times> 'w"
  tty_read :: "nat \<Rightarrow> 'w \<Rightarrow> (int + byte list) \<times> 'w"

record term_size =
  ts_width :: int
  ts_height :: int

definition INT_MAX :: int where "INT_MAX = 2 ^ 31 - 1"

text \<open>A variable that names a positive \<open>int\<close> in decimal.\<close>

definition env_size :: "string option \<Rightarrow> int \<Rightarrow> int" where
  "env_size v old =
     (case v of
        None \<Rightarrow> old
      | Some t \<Rightarrow> (case strtol 10 t of (n, rest, _) \<Rightarrow>
          if rest \<noteq> t \<and> rest = [] \<and> 0 < n \<and> n \<le> INT_MAX then n else old))"

fun winsize_of :: "'w tty \<Rightarrow> 'w \<Rightarrow> stream list \<Rightarrow> (16 word \<times> 16 word) option" where
  "winsize_of tty w [] = None"
| "winsize_of tty w (f # fs) =
     (case tty_winsize tty f w of Some x \<Rightarrow> Some x | None \<Rightarrow> winsize_of tty w fs)"

definition get_terminal_size :: "'w tty \<Rightarrow> 'w \<Rightarrow> term_size" where
  "get_terminal_size tty w =
     (case winsize_of tty w [Stdout, Stderr] of
        Some (ws_col, ws_row) \<Rightarrow>
          \<lparr>ts_width = (if 0 < ws_col then uint ws_col else 80),
           ts_height = (if 0 < ws_row then uint ws_row else 24)\<rparr>
      | None \<Rightarrow>
          \<lparr>ts_width = env_size (tty_getenv tty ''COLUMNS'' w) 80,
           ts_height = env_size (tty_getenv tty ''LINES'' w) 24\<rparr>)"

lemma env_size_bounds: "0 < old \<Longrightarrow> old \<le> INT_MAX \<Longrightarrow> 0 < env_size v old \<and> env_size v old \<le> INT_MAX"
  by (auto simp: env_size_def split: option.splits prod.splits)

lemma terminal_size_bounds:
  "0 < ts_width (get_terminal_size tty w) \<and> ts_width (get_terminal_size tty w) \<le> INT_MAX \<and>
   0 < ts_height (get_terminal_size tty w) \<and> ts_height (get_terminal_size tty w) \<le> INT_MAX"
proof -
  have short: "uint (x :: 16 word) \<le> INT_MAX" for x
    using uint_lt2p [of x] by (simp add: INT_MAX_def)
  have pos: "0 < x \<Longrightarrow> 0 < uint x" for x :: "16 word"
    by (simp add: word_less_def)
  show ?thesis
    using short pos env_size_bounds
    by (auto simp: get_terminal_size_def INT_MAX_def split: option.splits prod.splits)
qed


section \<open>Single precision\<close>

text \<open>
  Rounding to the nearest \<open>float\<close>, ties to even, for the magnitudes that occur here
  (no overflow, no subnormal numbers): the mantissa has 24 bits.
\<close>

definition bit_length :: "int \<Rightarrow> int" where
  "bit_length n = (if n \<le> 0 then 0 else int (length (digits 2 (nat n))))"

definition exponent_of :: "rat \<Rightarrow> int" where
  "exponent_of q = (case quotient_of q of (n, d) \<Rightarrow>
     let e = bit_length n - bit_length d in
     if q < (if 0 \<le> e then 2 ^ nat e else 1 / 2 ^ nat (- e)) then e - 1 else e)"

definition half_even :: "rat \<Rightarrow> int" where
  "half_even q =
     (let f = \<lfloor>q\<rfloor>; r = q - of_int f in
      if r < 1 / 2 then f else if r > 1 / 2 then f + 1 else if even f then f else f + 1)"

definition float_round :: "rat \<Rightarrow> rat" where
  "float_round q =
     (if q = 0 then 0
      else let e = exponent_of \<bar>q\<bar> - 23; u = (if 0 \<le> e then 2 ^ nat e else 1 / 2 ^ nat (- e));
               r = of_int (half_even (\<bar>q\<bar> / u)) * u
           in if q < 0 then - r else r)"

text \<open>\<open>float scale = (float)a / b\<close> and \<open>(int)(w * scale)\<close>.\<close>

definition float_scale :: "int \<Rightarrow> int \<Rightarrow> rat" where
  "float_scale a b = float_round (float_round (of_int a) / float_round (of_int b))"

definition scaled :: "int \<Rightarrow> rat \<Rightarrow> int" where
  "scaled w s = (let p = float_round (float_round (of_int w) * s) in if 0 \<le> p then \<lfloor>p\<rfloor> else - \<lfloor>- p\<rfloor>)"

end
