(* ===== verification/Tables.thy ===== *)
theory Tables
  imports Terminal
begin

text \<open>
  The tables of \<open>src/ui_utils.c\<close>: column widths scaled to the terminal, borders, and
  the rows with a prompt after each page. A row of packed bytes is the list of the
  values its columns read from it.
\<close>

section \<open>Columns and cells\<close>

datatype table_col_format = TABLE_COL_STR | TABLE_COL_INT | TABLE_COL_HEX | TABLE_COL_HEX_LONG

record table_col =
  tc_header :: string
  tc_width :: int
  tc_format :: table_col_format

datatype cell = CellStr string | CellInt int | CellHex "32 word" | CellHexLong "64 word"

type_synonym table_row = "cell list"

text \<open>The declared width or that of the header, scaled where the table is too wide.\<close>

definition col_width :: "table_col \<Rightarrow> int" where
  "col_width c = (let h = int (length (tc_header c)) in if h < tc_width c then tc_width c else h)"

definition table_widths :: "int \<Rightarrow> table_col list \<Rightarrow> int list" where
  "table_widths term_width cols =
     (let ws = map col_width cols; total = sum_list (map (\<lambda>w. w + 1) ws) + 1 in
      if term_width < total then map (\<lambda>w. scaled w (float_scale term_width total)) ws else ws)"

text \<open>The character of the side borders of the header row, in UTF-8.\<close>

definition bar :: string where "bar = [CHR 0xE2, CHR 0x94, CHR 0x82]"

fun between :: "'a list \<Rightarrow> 'a list list \<Rightarrow> 'a list" where
  "between sep [] = []"
| "between sep [x] = x"
| "between sep (x # xs) = x @ sep @ between sep xs"

definition table_line :: "int list \<Rightarrow> char \<Rightarrow> char \<Rightarrow> char \<Rightarrow> string" where
  "table_line widths left mid right =
     WHITE @ [left] @ between [mid] (map (\<lambda>w. replicate (nat w) (CHR ''-'')) widths) @ [right] @ newline @ RESET"

definition print_table_line :: "int list \<Rightarrow> ('w, 'm, unit) tprog" where
  "print_table_line widths = put Stdout (table_line widths (CHR ''+'') (CHR ''+'') (CHR ''+''))"

fun sequence_texts :: "string option list \<Rightarrow> string list option" where
  "sequence_texts [] = Some []"
| "sequence_texts (None # ts) = None"
| "sequence_texts (Some t # ts) = map_option (Cons t) (sequence_texts ts)"

definition header_text :: "int list \<Rightarrow> table_col list \<Rightarrow> string option" where
  "header_text widths cols =
     map_option (\<lambda>ts. WHITE @ bar @ between (WHITE @ bar) ts @ WHITE @ bar @ RESET @ newline)
       (sequence_texts (map2 (\<lambda>w c. cformat '' %s%s%-*s%s''
          [FStr BOLD, FStr YELLOW, FInt (w - 1), FStr (tc_header c), FStr RESET]) widths cols))"

text \<open>A cell that is not of its column's format would be read with the wrong type.\<close>

definition cell_text :: "int \<Rightarrow> table_col_format \<Rightarrow> cell \<Rightarrow> string option" where
  "cell_text w fmt c =
     (case (fmt, c) of
        (TABLE_COL_STR, CellStr t) \<Rightarrow> cformat '' %s%-*s%s'' [FStr GREEN, FInt (w - 1), FStr t, FStr RESET]
      | (TABLE_COL_INT, CellInt n) \<Rightarrow> cformat '' %-*d'' [FInt (w - 1), FInt n]
      | (TABLE_COL_HEX, CellHex x) \<Rightarrow>
          (case snprintf 32 ''0x%x'' [FInt (uint x)] of
             None \<Rightarrow> None | Some t \<Rightarrow> cformat '' %-*s'' [FInt (w - 1), FStr t])
      | (TABLE_COL_HEX_LONG, CellHexLong x) \<Rightarrow>
          (case snprintf 32 ''0x%lx'' [FLong x] of
             None \<Rightarrow> None | Some t \<Rightarrow> cformat '' %-*s'' [FInt (w - 1), FStr t])
      | _ \<Rightarrow> None)"

text \<open>A row with fewer values than columns would be read past its end.\<close>

fun row_cells :: "int list \<Rightarrow> table_col list \<Rightarrow> table_row \<Rightarrow> string option list" where
  "row_cells (w # ws) (c # cs) (x # xs) = cell_text w (tc_format c) x # row_cells ws cs xs"
| "row_cells (w # ws) (c # cs) [] = [None]"
| "row_cells _ _ _ = []"

definition row_text :: "int list \<Rightarrow> table_col list \<Rightarrow> table_row \<Rightarrow> string option" where
  "row_text widths cols row =
     map_option (\<lambda>ts. WHITE @ ''|'' @ WHITE @ between (WHITE @ ''|'' @ WHITE) ts @ WHITE @ ''|'' @ RESET @ newline)
       (sequence_texts (row_cells widths cols row))"


section \<open>Printing\<close>

definition EOF :: int where "EOF = -1"

text \<open>\<open>while (c != '\n' && c != EOF) c = getchar();\<close>\<close>

partial_function (option) skip_line :: "('w \<Rightarrow> int \<times> 'w) \<Rightarrow> int \<Rightarrow> 'w \<Rightarrow> 'w option" where
  "skip_line getc c w = (if c = 10 \<or> c = EOF then Some w else case getc w of (d, w') \<Rightarrow> skip_line getc d w')"

definition prompt_for_continue :: "'w tty \<Rightarrow> int \<Rightarrow> int \<Rightarrow> ('w, 'm, bool) tprog" where
  "prompt_for_continue tty current_row total_rows =
     bnd (printf (YELLOW @ ''-- More -- (%d/%d rows) [Press Enter to continue, q to quit] '' @ RESET)
            [FInt current_row, FInt total_rows]) (\<lambda>_.
     bnd (extern (tty_getchar tty)) (\<lambda>c.
       if c = 113 \<or> c = 81 then ret False
       else bnd (\<lambda>s. case skip_line (tty_getchar tty) c (world s) of
                       None \<Rightarrow> Diverge | Some w \<Rightarrow> Ret ((), s\<lparr>world := w\<rparr>)) (\<lambda>_.
            bnd (put Stdout (CHR 0x1B # ''[1A'' @ CHR 0x1B # ''[2K'')) (\<lambda>_. ret True))))"

text \<open>The loop over the rows, from row \<open>r\<close> on. The remainder by a page size of 0 is undefined.\<close>

fun print_rows :: "'w tty \<Rightarrow> int \<Rightarrow> int \<Rightarrow> int list \<Rightarrow> table_col list \<Rightarrow> int \<Rightarrow> table_row list \<Rightarrow> ('w, 'm, unit) tprog" where
  "print_rows tty page_size row_count widths cols r [] = ret ()"
| "print_rows tty page_size row_count widths cols r (row # rows) =
     (if \<not> r < row_count then ret ()
      else case row_text widths cols row of
        None \<Rightarrow> undefined_behaviour
      | Some t \<Rightarrow> bnd (put Stdout t) (\<lambda>_.
          let rows_printed = r + 1 in
          if page_size = 0 then undefined_behaviour
          else if rows_printed mod page_size = 0 \<and> r < row_count - 1
          then bnd (prompt_for_continue tty rows_printed row_count) (\<lambda>more.
            if \<not> more then ret ()
            else bnd (print_table_line widths) (\<lambda>_. print_rows tty page_size row_count widths cols (r + 1) rows))
          else bnd (if r < row_count - 1 then print_table_line widths else ret ()) (\<lambda>_.
            print_rows tty page_size row_count widths cols (r + 1) rows)))"

definition print_table :: "'w tty \<Rightarrow> string \<Rightarrow> table_col list \<Rightarrow> table_row list \<Rightarrow> int \<Rightarrow> ('w, 'm, unit) tprog" where
  "print_table tty title cols rows row_count =
     (if cols = [] then ret ()
      else bnd (gets (\<lambda>s. get_terminal_size tty (world s))) (\<lambda>ts.
        let page_size = ts_height ts - 12; widths = table_widths (ts_width ts) cols in
        bnd (printf (BOLD @ CYAN @ newline @ '' %s '' @ newline @ RESET) [FStr title]) (\<lambda>_.
        bnd (print_table_line widths) (\<lambda>_.
        case header_text widths cols of
          None \<Rightarrow> undefined_behaviour
        | Some t \<Rightarrow> bnd (put Stdout t) (\<lambda>_.
          bnd (print_table_line widths) (\<lambda>_.
          bnd (print_rows tty page_size row_count widths cols 0 rows) (\<lambda>_.
            print_table_line widths)))))))"


text \<open>
  The callers allocate the rows one by one; a block that cannot be had is written
  through a null pointer.
\<close>

fun alloc_blocks :: "'w os \<Rightarrow> nat list \<Rightarrow> ('w, 'm, unit) tprog" where
  "alloc_blocks os [] = ret ()"
| "alloc_blocks os (n # ns) =
     bnd (sys (os_malloc os n)) (\<lambda>r.
       case r of Inl _ \<Rightarrow> undefined_behaviour | Inr _ \<Rightarrow> alloc_blocks os ns)"


section \<open>Every table is printed\<close>

lemma star_text: "cformat '' %-*s'' [FInt w, FStr t] = Some (CHR '' '' # pad True False (nat \<bar>w\<bar>) t)"
  by (simp add: format_simps)

lemma header_defined: "length widths = length cols \<Longrightarrow> header_text widths cols \<noteq> None"
proof -
  have "sequence_texts (map2 (\<lambda>w c. cformat '' %s%s%-*s%s''
      [FStr BOLD, FStr YELLOW, FInt (w - 1), FStr (tc_header c), FStr RESET]) widths cols) \<noteq> None"
    if "length widths = length cols"
    using that by (induction widths cols rule: list_induct2) (simp_all add: format_simps)
  then show "length widths = length cols \<Longrightarrow> header_text widths cols \<noteq> None"
    by (simp add: header_text_def)
qed

text \<open>A cell of the format of its column.\<close>

fun cell_fits :: "table_col_format \<Rightarrow> cell \<Rightarrow> bool" where
  "cell_fits TABLE_COL_STR (CellStr _) = True"
| "cell_fits TABLE_COL_INT (CellInt _) = True"
| "cell_fits TABLE_COL_HEX (CellHex _) = True"
| "cell_fits TABLE_COL_HEX_LONG (CellHexLong _) = True"
| "cell_fits _ _ = False"

definition row_fits :: "table_col list \<Rightarrow> table_row \<Rightarrow> bool" where
  "row_fits cols row = list_all2 cell_fits (map tc_format cols) row"

lemma cell_defined: "cell_fits fmt c \<Longrightarrow> cell_text w fmt c \<noteq> None"
  by (cases fmt; cases c) (simp_all add: cell_text_def snprintf_def format_simps)

lemma row_defined:
  assumes "length widths = length cols" "row_fits cols row"
  shows "row_text widths cols row \<noteq> None"
proof -
  have "sequence_texts (row_cells widths cols row) \<noteq> None"
    if "length widths = length cols" "list_all2 cell_fits (map tc_format cols) row"
    using that
  proof (induction widths cols arbitrary: row rule: list_induct2)
    case (Cons w ws c cs)
    then obtain x xs where row: "row = x # xs" "cell_fits (tc_format c) x" "list_all2 cell_fits (map tc_format cs) xs"
      by (auto simp: list_all2_Cons1)
    moreover obtain t where "cell_text w (tc_format c) x = Some t" using cell_defined [OF row(2)] by blast
    ultimately show ?case using Cons.IH [of xs] by simp
  qed simp
  then show ?thesis using assms by (simp add: row_text_def row_fits_def)
qed

lemma table_widths_length [simp]: "length (table_widths n cols) = length cols"
  by (simp add: table_widths_def Let_def)

text \<open>The number of dashes and corners of a line is the width of the table.\<close>

lemma line_length:
  "ws \<noteq> [] \<Longrightarrow> length (between [m] (map (\<lambda>w. replicate (nat w) (CHR ''-'')) ws)) + 1 = sum_list (map nat ws) + length ws"
  by (induction ws rule: induct_list012) simp_all

text \<open>The input ends a line after some characters.\<close>

fun line_ends :: "('w \<Rightarrow> int \<times> 'w) \<Rightarrow> nat \<Rightarrow> int \<Rightarrow> 'w \<Rightarrow> bool" where
  "line_ends getc 0 c w = (c = 10 \<or> c = EOF)"
| "line_ends getc (Suc n) c w = (c = 10 \<or> c = EOF \<or> line_ends getc n (fst (getc w)) (snd (getc w)))"

lemma skip_line_returns: "line_ends getc n c w \<Longrightarrow> \<exists>w'. skip_line getc c w = Some w'"
  by (induction getc n c w rule: line_ends.induct)
    (subst skip_line.simps, auto split: prod.splits)+

definition tty_ends_lines :: "'w tty \<Rightarrow> bool" where
  "tty_ends_lines tty \<longleftrightarrow> (\<forall>w. \<exists>n. line_ends (tty_getchar tty) n (fst (tty_getchar tty w)) (snd (tty_getchar tty w)))"

text \<open>Printing changes the output and what was read from the terminal, nothing else.\<close>

definition printed :: "('w, 'm) console_scheme \<Rightarrow> ('w, 'm) console_scheme \<Rightarrow> bool" where
  "printed s s' \<longleftrightarrow> s'\<lparr>world := world s, con_out := con_out s\<rparr> = s \<and> (\<exists>out. con_out s' = con_out s @ out)"

lemma printed_refl [simp]: "printed s s"
  by (simp add: printed_def)

lemma printed_put: "printed s t \<Longrightarrow> printed s (t\<lparr>con_out := con_out t @ out\<rparr>)"
  unfolding printed_def by auto

lemma printed_put2: "printed s t \<Longrightarrow> printed s (t\<lparr>world := w, con_out := con_out t @ out\<rparr>)"
  unfolding printed_def by auto

lemma printed_world: "printed s t \<Longrightarrow> printed s (t\<lparr>world := w\<rparr>)"
  unfolding printed_def by auto

lemma printed_trans:
  assumes "printed s t" "printed t u"
  shows "printed s u"
proof -
  have "u\<lparr>world := world s, con_out := con_out s\<rparr> =
      (u\<lparr>world := world t, con_out := con_out t\<rparr>)\<lparr>world := world s, con_out := con_out s\<rparr>" by simp
  also have "\<dots> = s" using assms by (simp only: printed_def)
  finally show ?thesis using assms by (auto simp: printed_def)
qed

lemma printed_infp:
  assumes "printed s t"
  shows "infp t = infp s"
proof -
  have "infp s = infp (t\<lparr>world := world s, con_out := con_out s\<rparr>)" using assms by (simp only: printed_def)
  then show ?thesis by simp
qed

lemma prompt_printed:
  assumes "tty_ends_lines tty" "printed s t"
  shows "wp (prompt_for_continue tty a b) (\<lambda>_. printed s) t"
proof -
  obtain c w where c: "tty_getchar tty (world t) = (c, w)" by fastforce
  obtain w' where "skip_line (tty_getchar tty) c w = Some w'"
    using assms(1) c skip_line_returns unfolding tty_ends_lines_def by (metis fst_conv snd_conv)
  then have "wp (\<lambda>s. case skip_line (tty_getchar tty) c (world s) of
      None \<Rightarrow> Diverge | Some w \<Rightarrow> Ret ((), s\<lparr>world := w\<rparr>)) Q (u\<lparr>world := w\<rparr>) = Q () (u\<lparr>world := w'\<rparr>)" for Q and u :: "('a, 'b) console_scheme"
    by (simp add: wp_def)
  moreover have "cformat (YELLOW @ ''-- More -- (%d/%d rows) [Press Enter to continue, q to quit] '' @ RESET) [FInt a, FInt b] \<noteq> None"
    by (simp add: YELLOW_def RESET_def format_simps)
  ultimately show ?thesis
    using assms(2) c
    by (auto simp: prompt_for_continue_def wp_simps printed_put printed_put2 printed_world)
qed

lemma print_rows_printed:
  assumes "tty_ends_lines tty" "page_size \<noteq> 0 \<or> rows = []" "length widths = length cols"
    "\<forall>row \<in> set rows. row_fits cols row" "printed s t"
  shows "wp (print_rows tty page_size row_count widths cols r rows) (\<lambda>_. printed s) t"
  using assms(2-5)
proof (induction rows arbitrary: r t)
  case Nil
  then show ?case by (simp add: wp_simps)
next
  case (Cons row rows)
  obtain x where x: "row_text widths cols row = Some x" using row_defined Cons.prems by fastforce
  have rest: "wp (print_rows tty page_size row_count widths cols (r + 1) rows) (\<lambda>_. printed s) u" if "printed s u" for u
    using that Cons.prems by (intro Cons.IH) auto
  have more: "wp (prompt_for_continue tty a b) (\<lambda>go s'. wp (if \<not> go then ret ()
       else bnd (print_table_line widths) (\<lambda>_. print_rows tty page_size row_count widths cols (r + 1) rows)) (\<lambda>_. printed s) s') u"
    if "printed s u" for a b u
    by (rule wp_mono [OF prompt_printed [OF assms(1) that]])
      (use rest in \<open>auto simp: wp_simps print_table_line_def printed_put\<close>)
  show ?case
    using Cons.prems x rest more
    by (auto simp: wp_simps Let_def printed_put print_table_line_def)
qed

lemma print_table_printed:
  assumes "tty_ends_lines tty" "ts_height (get_terminal_size tty (world s)) \<noteq> 12 \<or> rows = []"
    "\<forall>row \<in> set rows. row_fits cols row" "printed u s"
  shows "wp (print_table tty title cols rows row_count) (\<lambda>_. printed u) s"
proof -
  let ?ts = "get_terminal_size tty (world s)"
  obtain h where h: "header_text (table_widths (ts_width ?ts) cols) cols = Some h"
    using header_defined [of "table_widths (ts_width ?ts) cols" cols] by auto
  have title: "cformat (BOLD @ CYAN @ newline @ '' %s '' @ newline @ RESET) [FStr title] \<noteq> None"
    by (simp add: BOLD_def CYAN_def newline_def RESET_def format_simps)
  have rows: "wp (print_rows tty (ts_height ?ts - 12) row_count (table_widths (ts_width ?ts) cols) cols 0 rows) (\<lambda>_. printed u) t"
    if "printed u t" for t
    using assms that by (intro print_rows_printed) auto
  have tail: "wp (print_rows tty (ts_height ?ts - 12) row_count (table_widths (ts_width ?ts) cols) cols 0 rows)
      (\<lambda>a s'. wp (print_table_line (table_widths (ts_width ?ts) cols)) (\<lambda>_. printed u) s') t" if "printed u t" for t
    by (rule wp_mono [OF rows [OF that]]) (simp add: print_table_line_def wp_simps printed_put)
  show ?thesis
    using title h assms(4) tail
    by (auto simp: print_table_def wp_simps Let_def print_table_line_def printed_put)
qed

text \<open>A terminal of twelve rows leaves no page: the remainder by zero.\<close>

lemma print_table_no_page:
  assumes "ts_height (get_terminal_size tty (world s)) = 12" "cols \<noteq> []" "row_fits cols row" "0 < row_count"
  shows "print_table tty title cols (row # rows) row_count s = UB"
proof -
  let ?w = "table_widths (ts_width (get_terminal_size tty (world s))) cols"
  obtain h where h: "header_text ?w cols = Some h" using header_defined [of ?w cols] by auto
  obtain x where x: "row_text ?w cols row = Some x" using row_defined [of ?w cols row] assms(3) by auto
  obtain t where t: "cformat (BOLD @ CYAN @ newline @ '' %s '' @ newline @ RESET) [FStr title] = Some t"
    by (simp add: BOLD_def CYAN_def newline_def RESET_def format_simps)
  show ?thesis
    using assms(1,2,4) h x t
    by (simp add: print_table_def print_table_line_def gets_def bnd_def put_def modify_def fprintf_def Let_def
        undefined_behaviour_def del: append_assoc)
qed

end
