(* ===== verification/Registers.thy ===== *)
theory Registers
  imports Tables
begin

text \<open>
  \<open>src/register.c\<close>, \<open>src/register.h\<close> and \<open>src/defs/register_info.h\<close>: the table of
  the registers of \<open>struct user_regs_struct\<close>, the search by name, and the register
  table on the terminal. The order of the identifiers is that of the enum.
\<close>

section \<open>The table\<close>

datatype sylvan_register_type = SYLVAN_GPR

datatype sylvan_register_format = SYLVAN_REG_FORMAT_UINT

datatype sylvan_register_id =
    R_rax | R_rdx | R_rcx | R_rbx | R_rsi | R_rdi | R_rbp | R_rsp
  | R_r8 | R_r9 | R_r10 | R_r11 | R_r12 | R_r13 | R_r14 | R_r15
  | R_rip | R_eflags | R_cs | R_fs | R_gs | R_ss | R_ds | R_es | R_orig_rax

fun register_num :: "sylvan_register_id \<Rightarrow> nat" where
  "register_num R_rax = 0" | "register_num R_rdx = 1" | "register_num R_rcx = 2" | "register_num R_rbx = 3"
| "register_num R_rsi = 4" | "register_num R_rdi = 5" | "register_num R_rbp = 6" | "register_num R_rsp = 7"
| "register_num R_r8 = 8" | "register_num R_r9 = 9" | "register_num R_r10 = 10" | "register_num R_r11 = 11"
| "register_num R_r12 = 12" | "register_num R_r13 = 13" | "register_num R_r14 = 14" | "register_num R_r15 = 15"
| "register_num R_rip = 16" | "register_num R_eflags = 17" | "register_num R_cs = 18" | "register_num R_fs = 19"
| "register_num R_gs = 20" | "register_num R_ss = 21" | "register_num R_ds = 22" | "register_num R_es = 23"
| "register_num R_orig_rax = 24"

lemma register_num_inj: "register_num a = register_num b \<longleftrightarrow> a = b"
  by (cases a; simp; cases b; simp)

instantiation sylvan_register_id :: linorder
begin

definition less_eq_sylvan_register_id :: "sylvan_register_id \<Rightarrow> sylvan_register_id \<Rightarrow> bool" where
  "less_eq_sylvan_register_id a b = (register_num a \<le> register_num b)"

definition less_sylvan_register_id :: "sylvan_register_id \<Rightarrow> sylvan_register_id \<Rightarrow> bool" where
  "less_sylvan_register_id a b = (register_num a < register_num b)"

instance
  by standard (auto simp: less_eq_sylvan_register_id_def less_sylvan_register_id_def register_num_inj)

end

record sylvan_register =
  reg_id :: sylvan_register_id
  reg_name :: string
  reg_dwarf_id :: int
  reg_size :: nat
  reg_offset :: nat
  reg_type :: sylvan_register_type
  reg_format :: sylvan_register_format

text \<open>\<open>DEFINE_GPR_64\<close>; the offset is that of the member of \<open>struct user_regs_struct\<close>.\<close>

definition gpr_64 :: "sylvan_register_id \<Rightarrow> string \<Rightarrow> int \<Rightarrow> nat \<Rightarrow> sylvan_register" where
  "gpr_64 r name dwarf_id offset =
     \<lparr>reg_id = r, reg_name = name, reg_dwarf_id = dwarf_id, reg_size = 8, reg_offset = offset,
      reg_type = SYLVAN_GPR, reg_format = SYLVAN_REG_FORMAT_UINT\<rparr>"

definition sylvan_registers_info :: "sylvan_register list" where
  "sylvan_registers_info =
     [gpr_64 R_rax ''rax'' 0 80,
      gpr_64 R_rdx ''rdx'' 1 96,
      gpr_64 R_rcx ''rcx'' 2 88,
      gpr_64 R_rbx ''rbx'' 3 40,
      gpr_64 R_rsi ''rsi'' 4 104,
      gpr_64 R_rdi ''rdi'' 5 112,
      gpr_64 R_rbp ''rbp'' 6 32,
      gpr_64 R_rsp ''rsp'' 7 152,
      gpr_64 R_r8 ''r8'' 8 72,
      gpr_64 R_r9 ''r9'' 9 64,
      gpr_64 R_r10 ''r10'' 10 56,
      gpr_64 R_r11 ''r11'' 11 48,
      gpr_64 R_r12 ''r12'' 12 24,
      gpr_64 R_r13 ''r13'' 13 16,
      gpr_64 R_r14 ''r14'' 14 8,
      gpr_64 R_r15 ''r15'' 15 0,
      gpr_64 R_rip ''rip'' 16 128,
      gpr_64 R_eflags ''eflags'' 49 144,
      gpr_64 R_cs ''cs'' 51 136,
      gpr_64 R_fs ''fs'' 54 200,
      gpr_64 R_gs ''gs'' 55 208,
      gpr_64 R_ss ''ss'' 52 160,
      gpr_64 R_ds ''ds'' 53 184,
      gpr_64 R_es ''es'' 50 192,
      gpr_64 R_orig_rax ''orig_rax'' (-1) 120]"

definition NUM_REGISTERS :: nat where "NUM_REGISTERS = 25"

text \<open>The search stops at the entry without a name.\<close>

fun find_register_from :: "string \<Rightarrow> sylvan_register list \<Rightarrow> int \<Rightarrow> int" where
  "find_register_from name [] i = -1"
| "find_register_from name (r # rs) i = (if name = reg_name r then i else find_register_from name rs (i + 1))"

definition find_register_by_name :: "string \<Rightarrow> int" where
  "find_register_by_name name = find_register_from name sylvan_registers_info 0"


section \<open>Values\<close>

text \<open>The eight bytes at an offset, for the offsets of the table.\<close>

definition get_register :: "sylvan_register \<Rightarrow> user_regs \<Rightarrow> 64 word" where
  "get_register r regs = regs (reg_offset r div 8)"

definition set_register :: "sylvan_register \<Rightarrow> 64 word \<Rightarrow> user_regs \<Rightarrow> user_regs" where
  "set_register r v regs = regs(reg_offset r div 8 := v)"

definition register_cols :: "table_col list" where
  "register_cols = [\<lparr>tc_header = ''REGISTER'', tc_width = 12, tc_format = TABLE_COL_STR\<rparr>,
                    \<lparr>tc_header = ''VALUE'', tc_width = 20, tc_format = TABLE_COL_HEX_LONG\<rparr>]"

definition register_rows :: "user_regs \<Rightarrow> table_row list" where
  "register_rows regs = map (\<lambda>r. [CellStr (reg_name r), CellHexLong (get_register r regs)]) sylvan_registers_info"

definition print_registers :: "'w os \<Rightarrow> 'w tty \<Rightarrow> user_regs \<Rightarrow> ('w, 'm, unit) tprog" where
  "print_registers os tty regs =
     (let rows = register_rows regs in
      bnd (alloc_blocks os (concat (map (\<lambda>_. [16, 16]) rows))) (\<lambda>_.
        print_table tty ''CPU REGISTER MONITOR'' register_cols rows (int (length rows))))"


section \<open>The table is sound\<close>

lemma register_count: "length sylvan_registers_info = NUM_REGISTERS"
  by (simp add: sylvan_registers_info_def NUM_REGISTERS_def)

lemma register_names_distinct: "distinct (map reg_name sylvan_registers_info)"
  by (simp add: sylvan_registers_info_def gpr_64_def)

lemma register_cells_distinct: "distinct (map (\<lambda>r. reg_offset r div 8) sylvan_registers_info)"
  by (simp add: sylvan_registers_info_def gpr_64_def)

lemma register_aligned:
  "r \<in> set sylvan_registers_info \<Longrightarrow> 8 dvd reg_offset r \<and> reg_offset r + reg_size r \<le> 216"
  by (auto simp: sylvan_registers_info_def gpr_64_def)

lemma register_order: "map (register_num \<circ> reg_id) sylvan_registers_info = [0..<NUM_REGISTERS]"
  by (simp add: sylvan_registers_info_def gpr_64_def NUM_REGISTERS_def upt_rec)

lemma find_register_from_cases:
  "(find_register_from name rs i = -1 \<and> name \<notin> set (map reg_name rs)) \<or>
   (\<exists>n < length rs. find_register_from name rs i = i + int n \<and> reg_name (rs ! n) = name)"
  if "0 \<le> i"
  using that
proof (induction rs arbitrary: i)
  case (Cons r rs)
  show ?case
  proof (cases "name = reg_name r")
    case False
    with Cons.IH [of "i + 1"] Cons.prems show ?thesis
      by (auto intro: exI [of _ "Suc _"])
  qed auto
qed simp

lemma find_register_spec:
  "find_register_by_name name = -1 \<and> name \<notin> set (map reg_name sylvan_registers_info) \<or>
   (\<exists>n < NUM_REGISTERS. find_register_by_name name = int n \<and> reg_name (sylvan_registers_info ! n) = name)"
  using find_register_from_cases [of 0 name sylvan_registers_info]
  by (simp add: find_register_by_name_def register_count)

text \<open>Registers behave like independent variables.\<close>

locale register_bank =
  fixes regs :: "'r set" and get :: "'r \<Rightarrow> 's \<Rightarrow> 'v" and set' :: "'r \<Rightarrow> 'v \<Rightarrow> 's \<Rightarrow> 's"
  assumes get_set: "r \<in> regs \<Longrightarrow> get r (set' r v s) = v"
    and get_other: "r \<in> regs \<Longrightarrow> q \<in> regs \<Longrightarrow> q \<noteq> r \<Longrightarrow> get q (set' r v s) = get q s"
    and set_set: "r \<in> regs \<Longrightarrow> set' r v (set' r u s) = set' r v s"
    and set_get: "r \<in> regs \<Longrightarrow> set' r (get r s) s = s"
begin

primrec set_all :: "('r \<times> 'v) list \<Rightarrow> 's \<Rightarrow> 's" where
  "set_all [] s = s"
| "set_all (x # xs) s = set_all xs (set' (fst x) (snd x) s)"

lemma get_set_all:
  "distinct (map fst xs) \<Longrightarrow> fst ` set xs \<subseteq> regs \<Longrightarrow> q \<in> regs \<Longrightarrow>
     get q (set_all xs s) = (case map_of xs q of Some v \<Rightarrow> v | None \<Rightarrow> get q s)"
proof (induction xs arbitrary: s)
  case (Cons x xs)
  have "map_of xs (fst x) = None" using Cons.prems(1) by (simp add: map_of_eq_None_iff)
  then show ?case using Cons by (auto simp: get_set get_other split: option.splits)
qed simp

lemma restore: "r \<in> regs \<Longrightarrow> set' r (get r s) (set' r v s) = s"
  by (simp add: set_set set_get)

end

lemma register_cell_inj:
  "r \<in> set sylvan_registers_info \<Longrightarrow> q \<in> set sylvan_registers_info \<Longrightarrow>
     reg_offset q div 8 = reg_offset r div 8 \<Longrightarrow> q = r"
  using register_cells_distinct by (auto simp: distinct_map inj_on_def)

interpretation gpr: register_bank "set sylvan_registers_info" get_register set_register
  by unfold_locales (auto simp: get_register_def set_register_def fun_eq_iff dest: register_cell_inj)

lemma register_rows_fit: "\<forall>row \<in> set (register_rows regs). row_fits register_cols row"
  by (auto simp: register_rows_def register_cols_def row_fits_def)

end
