(* ===== verification/Auxv.thy ===== *)
theory Auxv
  imports Tables
begin

text \<open>
  \<open>src/auxiliary_vectors.c\<close> and \<open>src/defs/auxv_types.h\<close>: reading \<open>/proc/<pid>/auxv\<close>,
  splitting it into entries and printing them. The buffer is the whole allocated
  block: behind the bytes that were read it holds whatever the heap held.
\<close>

section \<open>Entries\<close>

record auxv_entry =
  ax_type :: "64 word"
  ax_value :: "64 word"

definition AT_NULL :: "64 word" where "AT_NULL = 0"

text \<open>\<open>auxv_names\<close>: the type, its name and its description.\<close>

definition auxv_names :: "(64 word \<times> string \<times> string) list" where
  "auxv_names =
     [(0, ''AT_NULL'', ''End of vector''),
      (1, ''AT_IGNORE'', ''Entry should be ignored''),
      (2, ''AT_EXECFD'', ''File descriptor of program''),
      (3, ''AT_PHDR'', ''Program headers for program''),
      (4, ''AT_PHENT'', ''Size of program header entry''),
      (5, ''AT_PHNUM'', ''Number of program headers''),
      (6, ''AT_PAGESZ'', ''System page size''),
      (7, ''AT_BASE'', ''Base address of interpreter''),
      (8, ''AT_FLAGS'', ''Flags''),
      (9, ''AT_ENTRY'', ''Entry point of program''),
      (10, ''AT_NOTELF'', ''Program is not ELF''),
      (11, ''AT_UID'', ''Real user ID''),
      (12, ''AT_EUID'', ''Effective user ID''),
      (13, ''AT_GID'', ''Real group ID''),
      (14, ''AT_EGID'', ''Effective group ID''),
      (15, ''AT_PLATFORM'', ''String identifying platform''),
      (16, ''AT_HWCAP'', ''Machine-dependent CPU capability hints''),
      (17, ''AT_CLKTCK'', ''Frequency of times()''),
      (18, ''AT_FPUCW'', ''Used FPU control word''),
      (19, ''AT_DCACHEBSIZE'', ''Data cache block size''),
      (20, ''AT_ICACHEBSIZE'', ''Instruction cache block size''),
      (21, ''AT_UCACHEBSIZE'', ''Unified cache block size''),
      (22, ''AT_IGNOREPPC'', ''Entry should be ignored (PowerPC)''),
      (23, ''AT_SECURE'', ''Boolean, was exec setuid-like?''),
      (24, ''AT_BASE_PLATFORM'', ''String identifying real platform''),
      (25, ''AT_RANDOM'', ''Address of 16 random bytes''),
      (26, ''AT_HWCAP2'', ''Extension of AT_HWCAP''),
      (31, ''AT_EXECFN'', ''File name of executable''),
      (32, ''AT_SYSINFO'', ''Entry point to syscall implementation''),
      (33, ''AT_SYSINFO_EHDR'', (''System-supplied DSO'' @ CHR 0x27 # ''s ELF header'')),
      (34, ''AT_L1I_CACHESHAPE'', ''Shape of L1 instruction cache''),
      (35, ''AT_L1D_CACHESHAPE'', ''Shape of L1 data cache''),
      (36, ''AT_L2_CACHESHAPE'', ''Shape of L2 cache''),
      (37, ''AT_L3_CACHESHAPE'', ''Shape of L3 cache''),
      (40, ''AT_L1I_CACHESIZE'', ''Size of L1 instruction cache''),
      (41, ''AT_L1I_CACHEGEOMETRY'', ''Geometry of L1 instruction cache''),
      (42, ''AT_L1D_CACHESIZE'', ''Size of L1 data cache''),
      (43, ''AT_L1D_CACHEGEOMETRY'', ''Geometry of L1 data cache''),
      (44, ''AT_L2_CACHESIZE'', ''Size of L2 cache''),
      (45, ''AT_L2_CACHEGEOMETRY'', ''Geometry of L2 cache''),
      (46, ''AT_L3_CACHESIZE'', ''Size of L3 cache''),
      (47, ''AT_L3_CACHEGEOMETRY'', ''Geometry of L3 cache''),
      (51, ''AT_MINSIGSTKSZ'', ''Minimum stack size for signal delivery''),
      (27, ''AT_RSEQ_FEATURE_SIZE'', ''rseq supported feature size''),
      (28, ''AT_RSEQ_ALIGN'', ''rseq allocation alignment'')]"

text \<open>The types whose value is printed in decimal.\<close>

definition decimal_types :: "64 word list" where
  "decimal_types = [6, 4, 5, 11, 12, 13, 14, 17, 51, 27, 28]"

definition auxv_description :: "64 word \<Rightarrow> string \<times> string" where
  "auxv_description t =
     (case map_of auxv_names t of
        Some d \<Rightarrow> d
      | None \<Rightarrow> (''Unknown'', ''Unkown Auxillary Vector Entry''))"

definition print_auxv_entry :: "auxv_entry \<Rightarrow> ('w, 'm, unit) tprog" where
  "print_auxv_entry e =
     (case auxv_description (ax_type e) of
        (name, desc) \<Rightarrow>
          if ax_type e \<in> set decimal_types
          then printf (''%-4ld %-21lu %-20s %s'' @ newline) [FLong (ax_type e), FLong (ax_value e), FStr name, FStr desc]
          else printf (''%-4ld 0x%-19lx %-20s %s'' @ newline) [FLong (ax_type e), FLong (ax_value e), FStr name, FStr desc])"


section \<open>Reading\<close>

definition AUXV_SIZE :: nat where "AUXV_SIZE = 4096"

text \<open>The bytes read, or \<open>None\<close> after a message.\<close>

definition target_read_auxv :: "'w os \<Rightarrow> 'w tty \<Rightarrow> pid \<Rightarrow> ('w, 'm, byte list option) tprog" where
  "target_read_auxv os tty pid =
     (case cformat ''/proc/%d/auxv'' [FInt pid] of
        None \<Rightarrow> undefined_behaviour
      | Some path \<Rightarrow>
          if 32 \<le> length path
          then bnd (put Stderr (''Pid Error: PID too large for path buffer'' @ newline)) (\<lambda>_. ret None)
          else bnd (sys (tty_open tty path)) (\<lambda>fd.
            case fd of
              Inl _ \<Rightarrow> bnd (fprintf Stderr (''Read Error: Failed to open %s'' @ newline) [FStr path]) (\<lambda>_. ret None)
            | Inr _ \<Rightarrow> bnd (sys (os_malloc os AUXV_SIZE)) (\<lambda>b.
                case b of
                  Inl _ \<Rightarrow> bnd (put Stderr (''Memory Error: Failed to allocate memory for auxv buffer'' @ newline)) (\<lambda>_. ret None)
                | Inr _ \<Rightarrow> bnd (sys (tty_read tty AUXV_SIZE)) (\<lambda>r.
                    case r of
                      Inl _ \<Rightarrow> bnd (fprintf Stderr (''Read Error: Failed to read %s'' @ newline) [FStr path]) (\<lambda>_. ret None)
                    | Inr bytes \<Rightarrow>
                        if length bytes = AUXV_SIZE
                        then bnd (fprintf Stderr (''Error: Auxv data exceeds buffer size (%zu bytes)'' @ newline)
                               [FLong (of_nat AUXV_SIZE)]) (\<lambda>_. ret None)
                        else ret (Some bytes)))))"

definition auxv_entry_size :: "bool \<Rightarrow> nat" where
  "auxv_entry_size is_64bit = (if is_64bit then 16 else 8)"

text \<open>\<open>auxv[i]\<close> in a block of memory.\<close>

definition auxv_at :: "bool \<Rightarrow> byte list \<Rightarrow> nat \<Rightarrow> auxv_entry" where
  "auxv_at is_64bit block i =
     (let n = (if is_64bit then 8 else 4); o' = i * auxv_entry_size is_64bit in
      \<lparr>ax_type = word_of_bytes (take n (drop o' block)), ax_value = word_of_bytes (take n (drop (o' + n) block))\<rparr>)"

text \<open>
  The loop from entry \<open>i\<close> on, and the terminator: an entry is read inside the block
  and written inside the array of \<open>max_entries\<close>, or the behaviour is undefined.
\<close>

function parse_entries :: "bool \<Rightarrow> byte list \<Rightarrow> nat \<Rightarrow> nat \<Rightarrow> nat \<Rightarrow> auxv_entry list option" where
  "parse_entries is_64bit block len max_entries i =
     (if i * auxv_entry_size is_64bit < len \<and> length block < Suc i * auxv_entry_size is_64bit then None
      else if i * auxv_entry_size is_64bit < len \<and> ax_type (auxv_at is_64bit block i) \<noteq> AT_NULL
      then if i < max_entries
           then map_option (Cons (auxv_at is_64bit block i)) (parse_entries is_64bit block len max_entries (Suc i))
           else None
      else if i < max_entries then Some [\<lparr>ax_type = AT_NULL, ax_value = 0\<rparr>]
      else None)"
  by pat_completeness auto
termination
  by (relation "measure (\<lambda>(is_64bit, block, len, max_entries, i). len - i)")
    (auto simp: auxv_entry_size_def split: if_splits)

declare parse_entries.simps [simp del]

text \<open>\<open>None\<close>: the null pointer. The data pointer is not null.\<close>

definition parse_auxv :: "'w os \<Rightarrow> byte list \<Rightarrow> nat \<Rightarrow> bool \<Rightarrow> ('w, 'm, auxv_entry list option) tprog" where
  "parse_auxv os block len is_64bit =
     (if len = 0 \<or> len < auxv_entry_size is_64bit then ret None
      else let max_entries = len div auxv_entry_size is_64bit + 1 in
        bnd (sys (os_malloc os (max_entries * 16))) (\<lambda>r.
          case r of
            Inl _ \<Rightarrow> ret None
          | Inr _ \<Rightarrow> (case parse_entries is_64bit block len max_entries 0 of
                         None \<Rightarrow> undefined_behaviour
                       | Some es \<Rightarrow> ret (Some es))))"


section \<open>Encoding\<close>

definition auxv_bytes :: "auxv_entry \<Rightarrow> byte list" where
  "auxv_bytes e = bytes_of_word (ax_type e) @ bytes_of_word (ax_value e)"

lemma auxv_bytes_length [simp]: "length (auxv_bytes e) = 16"
  by (simp add: auxv_bytes_def)

lemma concat_auxv_length [simp]: "length (concat (map auxv_bytes es)) = 16 * length es"
  by (induction es) simp_all

lemma drop_auxv: "i \<le> length es \<Longrightarrow> drop (16 * i) (concat (map auxv_bytes es) @ rest) = concat (map auxv_bytes (drop i es)) @ rest"
proof (induction es arbitrary: i)
  case (Cons e es)
  show ?case
  proof (cases i)
    case (Suc j)
    have eq: "16 * i = length (auxv_bytes e) + 16 * j" using Suc by simp
    have "drop (16 * i) (auxv_bytes e @ (concat (map auxv_bytes es) @ rest)) =
        drop (16 * j) (concat (map auxv_bytes es) @ rest)"
      unfolding eq by (simp only: drop_append) simp
    with Cons Suc show ?thesis by simp
  qed simp
qed simp

lemma auxv_at_encoded:
  assumes "i < length es"
  shows "auxv_at True (concat (map auxv_bytes es) @ rest) i = es ! i"
proof -
  obtain ds where ds: "drop i es = es ! i # ds" using assms by (metis Cons_nth_drop_Suc)
  have d0: "drop (i * 16) (concat (map auxv_bytes es) @ rest) = auxv_bytes (es ! i) @ concat (map auxv_bytes ds) @ rest"
    using drop_auxv [of i es rest] assms ds by (simp add: mult.commute)
  have d8: "drop (i * 16 + 8) (concat (map auxv_bytes es) @ rest) = drop 8 (auxv_bytes (es ! i) @ concat (map auxv_bytes ds) @ rest)"
    by (simp only: d0 [symmetric] drop_drop) (simp only: add.commute)
  have "take 8 (auxv_bytes e @ xs) = bytes_of_word (ax_type e)" "take 8 (drop 8 (auxv_bytes e @ xs)) = bytes_of_word (ax_value e)" for e xs
    by (simp_all add: auxv_bytes_def)
  then show ?thesis
    unfolding auxv_at_def auxv_entry_size_def Let_def if_True d0 d8 by simp
qed

lemma parse_entries_encoded:
  assumes "\<forall>e \<in> set es. ax_type e \<noteq> AT_NULL" "e0 = \<lparr>ax_type = AT_NULL, ax_value = v\<rparr>" "i \<le> length es"
    "16 * length es < len" "length es < max_entries"
  shows "parse_entries True (concat (map auxv_bytes (es @ [e0])) @ rest) len max_entries i =
    Some (drop i es @ [\<lparr>ax_type = AT_NULL, ax_value = 0\<rparr>])"
  using assms(3)
proof (induction "length es - i" arbitrary: i)
  case 0
  then have "i = length es" by simp
  then show ?case
    using auxv_at_encoded [of i "es @ [e0]" rest] assms(2,4,5)
    by (subst parse_entries.simps) (simp add: auxv_entry_size_def AT_NULL_def)
next
  case (Suc n)
  then have i: "i < length es" by simp
  have at: "auxv_at True (concat (map auxv_bytes (es @ [e0])) @ rest) i = es ! i"
    using auxv_at_encoded [of i "es @ [e0]" rest] i by (simp add: nth_append)
  have "parse_entries True (concat (map auxv_bytes (es @ [e0])) @ rest) len max_entries (Suc i) =
      Some (drop (Suc i) es @ [\<lparr>ax_type = AT_NULL, ax_value = 0\<rparr>])"
    using Suc by (intro Suc.hyps(1)) simp_all
  moreover have "ax_type (es ! i) \<noteq> AT_NULL" using assms(1) i by simp
  moreover have "i * 16 < len" using i assms(4) by simp
  ultimately show ?case
    using at i assms(5)
    by (subst parse_entries.simps) (auto simp: auxv_entry_size_def Cons_nth_drop_Suc)
qed

text \<open>Data in whole entries is parsed inside the block and the array.\<close>

lemma parse_entries_whole:
  assumes "len = k * auxv_entry_size b" "len \<le> length block" "i \<le> k"
  shows "\<exists>es. parse_entries b block len (k + 1) i = Some (es @ [\<lparr>ax_type = AT_NULL, ax_value = 0\<rparr>]) \<and>
    length es \<le> k - i \<and> (\<forall>e \<in> set es. ax_type e \<noteq> AT_NULL)"
  using assms(3)
proof (induction "k - i" arbitrary: i)
  case 0
  then have "i = k" by simp
  with assms show ?case by (subst parse_entries.simps) (simp add: auxv_entry_size_def)
next
  case (Suc n)
  then have i: "i < k" by simp
  obtain es where es: "parse_entries b block len (k + 1) (Suc i) = Some (es @ [\<lparr>ax_type = AT_NULL, ax_value = 0\<rparr>])"
      "length es \<le> k - Suc i" "\<forall>e \<in> set es. ax_type e \<noteq> AT_NULL"
    using Suc.hyps(1) [of "Suc i"] Suc.hyps(2) i by fastforce
  have "Suc i * auxv_entry_size b \<le> length block"
    using i assms(1,2) by (metis Suc_leI le_trans mult_le_mono1)
  moreover have "i * auxv_entry_size b < len" using i assms(1) by (simp add: auxv_entry_size_def)
  ultimately show ?case
  proof (cases "ax_type (auxv_at b block i) = AT_NULL")
    case True
    with i \<open>Suc i * auxv_entry_size b \<le> length block\<close> show ?thesis
      by (subst parse_entries.simps) simp
  next
    case False
    with i es \<open>Suc i * auxv_entry_size b \<le> length block\<close> \<open>i * auxv_entry_size b < len\<close> show ?thesis
      by (subst parse_entries.simps) (auto intro!: exI [of _ "auxv_at b block i # es"])
  qed
qed

end
