(* ===== verification/Registry.thy ===== *)
theory Registry
  imports Tables
begin

text \<open>
  \<open>src/command_registry.c\<close> and the command and alias lists under \<open>src/defs/\<close>. The two
  hash tables are lists in the order of insertion, which is the order in which
  \<open>HASH_ITER\<close> visits them; a search finds the entry of that key. \<open>handle_command\<close> is in
  \<open>Commands\<close>, after the handlers it calls.
\<close>

section \<open>Commands and aliases\<close>

datatype sylvan_command_type = SYLVAN_STANDARD_COMMAND | SYLVAN_INFO_COMMAND | SYLVAN_SET_COMMAND

text \<open>The function pointers of the table.\<close>

datatype command_handler =
    Handle_help | Handle_exit | Handle_continue | Handle_breakpoint_set | Handle_info |
    Handle_add_inferior | Handle_disassemble | Handle_run | Handle_step_inst | Handle_file |
    Handle_attach | Handle_set | Handle_disable_breakpoint | Handle_enable_breakpoint |
    Handle_delete_breakpoint | Handle_read_memory | Handle_write_memory |
    Handle_info_registers | Handle_info_args | Handle_info_auxv | Handle_info_breakpoints |
    Handle_info_inferiors | Handle_info_alias | Handle_set_args | Handle_set_reg |
    Handle_set_alias

record sylvan_command =
  cmd_name :: string
  cmd_description :: string
  cmd_handler :: command_handler
  cmd_type :: sylvan_command_type
  cmd_id :: int
  cmd_usage :: string

record sylvan_alias =
  al_name :: string
  al_org_cmd :: string
  al_id :: int
  al_type :: char

definition define_command ::
  "string \<Rightarrow> string \<Rightarrow> command_handler \<Rightarrow> int \<Rightarrow> sylvan_command_type \<Rightarrow> string \<Rightarrow> sylvan_command" where
  "define_command name desc handler i ty usage =
     \<lparr>cmd_name = name, cmd_description = desc, cmd_handler = handler, cmd_type = ty, cmd_id = i, cmd_usage = usage\<rparr>"

definition standard_commands :: "sylvan_command list" where
  "standard_commands =
     [define_command ''help'' ''List all available commands with usage details; use -a or --all to show all types'' Handle_help 1 SYLVAN_STANDARD_COMMAND
        ''help [-a|--all] - List commands; use -a for all types'',
      define_command ''quit'' ''Exit the Sylvan debugger cleanly, terminating the session'' Handle_exit 2 SYLVAN_STANDARD_COMMAND
        ''quit - Exit the debugger'',
      define_command ''continue'' ''Resume execution of the current inferior until the next breakpoint or end'' Handle_continue 3 SYLVAN_STANDARD_COMMAND
        ''continue - Resume program execution'',
      define_command ''breakpoint'' ''Set a breakpoint at a specified address (hex) or function name'' Handle_breakpoint_set 4 SYLVAN_STANDARD_COMMAND
        ''breakpoint <address|function> - Set a breakpoint (e.g., 0x1234 or main)'',
      define_command ''info'' ''Display a list of all info subcommands with descriptions and usage'' Handle_info 5 SYLVAN_STANDARD_COMMAND
        ''info - List all info subcommands'',
      define_command ''add_inferior'' ''Create a new inferior for debugging a separate process or program'' Handle_add_inferior 6 SYLVAN_STANDARD_COMMAND
        ''add_inferior - Create a new inferior'',
      define_command ''disassemble'' ''Disassemble machine code between two addresses or for a function; use -c for current instruction'' Handle_disassemble 7 SYLVAN_STANDARD_COMMAND
        ''disassemble <start> [end] | -c - Disassemble code (e.g., 0x1000 0x1010 or -c)'',
      define_command ''run'' ''Start execution of the program assigned to the current inferior'' Handle_run 8 SYLVAN_STANDARD_COMMAND
        ''run - Start the program in the current inferior'',
      define_command ''stepi'' ''Execute a single machine instruction and stop'' Handle_step_inst 9 SYLVAN_STANDARD_COMMAND
        ''stepi - Step one instruction'',
      define_command ''file'' ''Assign an executable file to the current inferior for debugging'' Handle_file 10 SYLVAN_STANDARD_COMMAND
        ''file <path> - Assign an executable (e.g., ./a.out)'',
      define_command ''attach'' ''Attach the debugger to a running process by its PID'' Handle_attach 11 SYLVAN_STANDARD_COMMAND
        ''attach <pid> - Attach to a process (e.g., 1234)'',
      define_command ''set'' ''Display a list of all set subcommands with descriptions and usage'' Handle_set 12 SYLVAN_STANDARD_COMMAND
        ''set - List all set subcommands'',
      define_command ''disable'' ''Disable a breakpoint by its ID or address (use -a <address>)'' Handle_disable_breakpoint 13 SYLVAN_STANDARD_COMMAND
        ''disable <id> | -a <address> - Disable a breakpoint (e.g., 1 or -a 0x1234)'',
      define_command ''enable'' ''Enable a breakpoint by its ID or address (use -a <address>)'' Handle_enable_breakpoint 14 SYLVAN_STANDARD_COMMAND
        ''enable <id> | -a <address> - Enable a breakpoint (e.g., 1 or -a 0x1234)'',
      define_command ''delete'' ''Delete a breakpoint by its ID or address (use -a <address>)'' Handle_delete_breakpoint 15 SYLVAN_STANDARD_COMMAND
        ''delete <id> | -a <address> - Delete a breakpoint (e.g., 1 or -a 0x1234)'',
      define_command ''memory_read'' ''Read memory contents from a specified address; optional -t for table format'' Handle_read_memory 16 SYLVAN_STANDARD_COMMAND
        ''memory_read [-t] <address> [rows] - Read memory (e.g., 0x1000 or -t 0x1000 4)'',
      define_command ''memory_write'' ''Write values (hex, decimal, or string) to a specified memory address'' Handle_write_memory 17 SYLVAN_STANDARD_COMMAND
        (''memory_write <address> <value>... - Write to memory (e.g., 0x1000 0x12 '' @ [CHR 0x22] @ ''hello'' @ [CHR 0x22] @ '')'')]"

definition sub_commands :: "sylvan_command list" where
  "sub_commands =
     [define_command ''info_registers'' ''Display the values of all CPU registers for the current inferior'' Handle_info_registers 102 SYLVAN_INFO_COMMAND
        ''info_registers - Display all register values'',
      define_command ''info_args'' ''List all argument variables in the current stack frame'' Handle_info_args 103 SYLVAN_INFO_COMMAND
        ''info_args - Show current stack frame arguments'',
      define_command ''info_auxv'' ''List all information about auxilary vectors'' Handle_info_auxv 103 SYLVAN_INFO_COMMAND
        ''info_args - Show current stack frame arguments'',
      define_command ''info_breakpoints'' ''List all user-set breakpoints with their status, type, and address'' Handle_info_breakpoints 105 SYLVAN_INFO_COMMAND
        ''info_breakpoints - List all breakpoints'',
      define_command ''info_inferiors'' ''List all inferiors being managed, including their IDs, PIDs, and paths'' Handle_info_inferiors 107 SYLVAN_INFO_COMMAND
        ''info_inferiors - List all managed inferiors'',
      define_command ''info_alias'' ''Display all defined command aliases with their original commands'' Handle_info_alias 108 SYLVAN_INFO_COMMAND
        ''info_alias - List all command aliases'',
      define_command ''set_args'' ''Set command-line arguments for the program in the current inferior'' Handle_set_args 201 SYLVAN_SET_COMMAND
        ''set_args <arg1> [arg2...] - Set program arguments (e.g., arg1 arg2)'',
      define_command ''set_reg'' ''Assign a value to a specified CPU register (e.g., rax, rbx)'' Handle_set_reg 202 SYLVAN_SET_COMMAND
        ''set_reg <register> <value> - Set a register value (e.g., rax 123)'',
      define_command ''set_alias'' ''Create an alias for an existing command to simplify usage'' Handle_set_alias 203 SYLVAN_SET_COMMAND
        ''set_alias <command> <alias> - Create a command alias (e.g., run r)'']"

definition static_commands :: "sylvan_command list" where
  "static_commands = standard_commands @ sub_commands"

definition static_aliases :: "sylvan_alias list" where
  "static_aliases =
     map (\<lambda>(name, org, i). \<lparr>al_name = name, al_org_cmd = org, al_id = i, al_type = CHR ''s''\<rparr>)
     [(''h'', ''help'', 1),
      (''q'', ''quit'', 2),
      (''c'', ''continue'', 3),
      (''b'', ''breakpoint'', 4),
      (''i'', ''info'', 5),
      (''add_inf'', ''add_inferior'', 6),
      (''disas'', ''disassemble'', 7),
      (''r'', ''run'', 8),
      (''si'', ''stepi'', 9),
      (''fi'', ''file'', 10),
      (''at'', ''attach'', 11),
      (''st'', ''set'', 12),
      (''b_dbl'', ''disable'', 13),
      (''b_enb'', ''enable'', 14),
      (''b_dlt'', ''delete'', 15),
      (''i_adr'', ''info_address'', 16),
      (''i_reg'', ''info_registers'', 17),
      (''i_auxv'', ''info_auxv'', 18),
      (''i_bkpts'', ''info_breakpoints'', 19),
      (''i_inf'', ''info_inferiors'', 20),
      (''s_args'', ''set_args'', 21),
      (''s_reg'', ''set_reg'', 22),
      (''r_mem'', ''memory_read'', 23),
      (''w_mem'', ''memory_write'', 24)]"


section \<open>Hash tables\<close>

definition hash_find :: "('e \<Rightarrow> string) \<Rightarrow> 'e list \<Rightarrow> string \<Rightarrow> 'e option" where
  "hash_find key t k = find (\<lambda>e. key e = k) t"

definition hash_add :: "'e \<Rightarrow> 'e list \<Rightarrow> 'e list" where
  "hash_add e t = t @ [e]"

text \<open>What the program relies on of a table.\<close>

locale keyed_table =
  fixes find' :: "'t \<Rightarrow> string \<Rightarrow> 'e option" and add :: "'e \<Rightarrow> 't \<Rightarrow> 't" and key :: "'e \<Rightarrow> string"
    and inv :: "'t \<Rightarrow> bool"
  assumes find_added: "inv t \<Longrightarrow> find' t (key e) = None \<Longrightarrow> find' (add e t) (key e) = Some e"
    and find_other: "k \<noteq> key e \<Longrightarrow> find' (add e t) k = find' t k"
    and inv_add: "inv t \<Longrightarrow> find' t (key e) = None \<Longrightarrow> inv (add e t)"
    and find_key: "find' t k = Some e \<Longrightarrow> key e = k"
begin

text \<open>Adding entries of new and different keys.\<close>

lemma find_fold_add:
  "inv t \<Longrightarrow> distinct (map key es) \<Longrightarrow> \<forall>e \<in> set es. find' t (key e) = None \<Longrightarrow>
     inv (fold add es t) \<and>
     find' (fold add es t) k = (case map_of (map (\<lambda>e. (key e, e)) es) k of Some e \<Rightarrow> Some e | None \<Rightarrow> find' t k)"
proof (induction es arbitrary: t)
  case (Cons e es)
  have "\<forall>e' \<in> set es. find' (add e t) (key e') = None"
    using Cons.prems(2,3) find_other by (metis distinct.simps(2) image_eqI list.set_map list.simps(9) list.set_intros(2))
  moreover have "inv (add e t)" using Cons.prems by (intro inv_add) simp_all
  ultimately have IH: "inv (fold add es (add e t)) \<and> find' (fold add es (add e t)) k =
      (case map_of (map (\<lambda>e. (key e, e)) es) k of Some e \<Rightarrow> Some e | None \<Rightarrow> find' (add e t) k)"
    using Cons.prems(2) by (intro Cons.IH) simp_all
  have "map_of (map (\<lambda>e. (key e, e)) es) (key e) = None"
    using Cons.prems(2) by (auto simp: map_of_eq_None_iff)
  with IH show ?case
    using Cons.prems find_added [of t e] find_other [of k e t] by (cases "k = key e") (auto split: option.splits)
qed simp

end

text \<open>The keys of a table are different.\<close>

definition keys_distinct :: "('e \<Rightarrow> string) \<Rightarrow> 'e list \<Rightarrow> bool" where
  "keys_distinct key t = distinct (map key t)"

lemma find_append: "find P (xs @ ys) = (case find P xs of Some x \<Rightarrow> Some x | None \<Rightarrow> find P ys)"
  by (induction xs) auto

lemma hash_find_None: "hash_find key t k = None \<longleftrightarrow> k \<notin> set (map key t)"
  by (auto simp: hash_find_def find_None_iff)

lemma hash_find_Some: "hash_find key t k = Some e \<Longrightarrow> key e = k \<and> e \<in> set t"
  unfolding hash_find_def by (auto simp: find_Some_iff)

interpretation hash: keyed_table "hash_find key" hash_add key "keys_distinct key" for key :: "'e \<Rightarrow> string"
proof
  show "hash_find key t (key e) = None \<Longrightarrow> hash_find key (hash_add e t) (key e) = Some e" for t e
    by (simp add: hash_find_def hash_add_def find_append)
  show "k \<noteq> key e \<Longrightarrow> hash_find key (hash_add e t) k = hash_find key t k" for k e t
    by (simp add: hash_find_def hash_add_def find_append split: option.splits)
  show "keys_distinct key t \<Longrightarrow> hash_find key t (key e) = None \<Longrightarrow> keys_distinct key (hash_add e t)" for t e
    by (auto simp: hash_find_None keys_distinct_def hash_add_def)
  show "hash_find key t k = Some e \<Longrightarrow> key e = k" for t k e
    by (simp add: hash_find_Some)
qed


section \<open>The registry\<close>

record 'w ui = "'w console" +
  command_hash :: "sylvan_command list"
  alias_table :: "sylvan_alias list"

type_synonym ('w, 'm, 'a) uprog = "(('w, 'm) ui_scheme, 'a) prog"

definition init_commands :: "('w, 'm, int) uprog" where
  "init_commands =
     bnd (modify (\<lambda>s. s\<lparr>command_hash := fold hash_add static_commands [],
                        alias_table := fold hash_add static_aliases []\<rparr>)) (\<lambda>_. ret 0)"

text \<open>\<open>lookup_command\<close> on the two tables; \<open>None\<close> is the null pointer.\<close>

definition resolve_name :: "sylvan_command list \<Rightarrow> sylvan_alias list \<Rightarrow> string \<Rightarrow> sylvan_command option" where
  "resolve_name cmds als name =
     hash_find cmd_name cmds (case hash_find al_name als name of Some a \<Rightarrow> al_org_cmd a | None \<Rightarrow> name)"

definition lookup_command :: "string option \<Rightarrow> ('w, 'm, sylvan_command option) uprog" where
  "lookup_command command_name =
     (case command_name of
        None \<Rightarrow> ret None
      | Some name \<Rightarrow> gets (\<lambda>s. resolve_name (command_hash s) (alias_table s) name))"

definition ALIAS_SIZE :: nat where "ALIAS_SIZE = 80"

definition insert_alias :: "'w os \<Rightarrow> string option \<Rightarrow> string option \<Rightarrow> int \<Rightarrow> char \<Rightarrow> ('w, 'm, int) uprog" where
  "insert_alias os name org_cmd i ty =
     (case (name, org_cmd) of
        (Some name, Some org) \<Rightarrow>
          bnd (gets (\<lambda>s. hash_find al_name (alias_table s) name)) (\<lambda>existing.
            if existing \<noteq> None
            then bnd (fprintf Stderr (''Error: Alias '' @ [CHR 0x27] @ ''%s'' @ [CHR 0x27] @ '' already exists'' @ newline) [FStr name])
              (\<lambda>_. ret 1)
            else bnd (lookup_command (Some org)) (\<lambda>orig_cmd.
              if orig_cmd = None
              then bnd (fprintf Stderr (''Invalid command: %s not found'' @ newline) [FStr org]) (\<lambda>_. ret 1)
              else bnd (sys (os_malloc os ALIAS_SIZE)) (\<lambda>r.
                case r of
                  Inl _ \<Rightarrow> bnd (put Stderr (''Error: Failed to allocate memory for alias'' @ newline)) (\<lambda>_. ret 1)
                | Inr _ \<Rightarrow> bnd (sys (os_malloc os (length name + 1))) (\<lambda>r1.
                    bnd (sys (os_malloc os (length org + 1))) (\<lambda>r2.
                      case (r1, r2) of
                        (Inr _, Inr _) \<Rightarrow>
                          bnd (modify (\<lambda>s. s\<lparr>alias_table := hash_add
                            \<lparr>al_name = name, al_org_cmd = org, al_id = i, al_type = ty\<rparr> (alias_table s)\<rparr>)) (\<lambda>_.
                          bnd (printf (''Added alias: %s -> %s (type: %c, id: %d)'' @ newline)
                            [FStr name, FStr org, FChar ty, FInt i]) (\<lambda>_. ret 0))
                      | _ \<Rightarrow> bnd (put Stderr (''Error: Failed to allocate memory for alias strings'' @ newline))
                          (\<lambda>_. ret 1))))))
      | _ \<Rightarrow> ret 1)"

text \<open>The entries of the user are freed; the table is empty afterwards.\<close>

definition free_alias_table :: "('w, 'm, unit) uprog" where
  "free_alias_table = modify (\<lambda>s. s\<lparr>alias_table := []\<rparr>)"


section \<open>Lookups\<close>

lemma static_names: "keys_distinct cmd_name static_commands" "keys_distinct al_name static_aliases"
  by (simp_all add: keys_distinct_def static_commands_def standard_commands_def sub_commands_def define_command_def
      static_aliases_def)

lemma fold_hash_add: "fold hash_add es t = t @ es"
  by (induction es arbitrary: t) (simp_all add: hash_add_def)

lemma wp_init_commands [wp_simps]:
  "wp init_commands Q s = Q 0 (s\<lparr>command_hash := static_commands, alias_table := static_aliases\<rparr>)"
  by (simp add: init_commands_def wp_simps fold_hash_add)

lemma wp_lookup_command [wp_simps]:
  "wp (lookup_command n) Q s =
     Q (case n of None \<Rightarrow> None | Some name \<Rightarrow> resolve_name (command_hash s) (alias_table s) name) s"
  by (cases n) (simp_all add: lookup_command_def wp_simps)

text \<open>A new alias stands for what its command is called in the table of commands.\<close>

lemma resolve_new_alias:
  assumes "keys_distinct al_name als" "hash_find al_name als (al_name a) = None"
  shows "resolve_name cmds (hash_add a als) k =
    (if k = al_name a then hash_find cmd_name cmds (al_org_cmd a) else resolve_name cmds als k)"
  using hash.find_added [OF assms] hash.find_other [of k al_name a als] by (simp add: resolve_name_def)

lemma resolve_not_alias: "hash_find al_name als k = None \<Longrightarrow> resolve_name cmds als k = hash_find cmd_name cmds k"
  by (simp add: resolve_name_def)

lemma alias_texts [formats]:
  "cformat (''Error: Alias '' @ [CHR 0x27] @ ''%s'' @ [CHR 0x27] @ '' already exists'' @ newline) [FStr t] \<noteq> None"
  "cformat (''Invalid command: %s not found'' @ newline) [FStr t] \<noteq> None"
  "cformat (''Added alias: %s -> %s (type: %c, id: %d)'' @ newline) [FStr t, FStr u, FChar c, FInt i] \<noteq> None"
  by (simp_all add: format_simps newline_def)

end
