(* ===== verification/Commands.thy ===== *)
theory Commands
  imports Registers Auxv Registry
begin

text \<open>
  \<open>src/command_handler.c\<close> and \<open>handle_command\<close>: one definition per command of the user.
  A command is the vector of its words; behind the terminating null pointer the block
  holds uninitialised pointers, which some handlers read. The pointer \<open>inf\<close> is the
  address of a variable of the caller and never null; the pointer it holds is \<open>infp\<close>.
\<close>

section \<open>Words\<close>

text \<open>\<open>argv_size\<close> pointers are allocated; \<open>argv_junk i\<close>: the one at \<open>i\<close> is not null.\<close>

record argv =
  argv_words :: "string list"
  argv_size :: nat
  argv_junk :: "nat \<Rightarrow> bool"

datatype word_ptr = WNull | WStr string | WJunk

definition arg :: "argv \<Rightarrow> nat \<Rightarrow> ('s, word_ptr) prog" where
  "arg c n =
     (if n < length (argv_words c) then ret (WStr (argv_words c ! n))
      else if n = length (argv_words c) then ret WNull
      else if n < argv_size c then ret (if argv_junk c n then WJunk else WNull)
      else undefined_behaviour)"

text \<open>The string behind a pointer.\<close>

definition deref :: "word_ptr \<Rightarrow> ('s, string) prog" where
  "deref p = (case p of WStr t \<Rightarrow> ret t | _ \<Rightarrow> undefined_behaviour)"

text \<open>\<open>s[n]\<close> and \<open>&s[n]\<close>, inside the string with its terminator.\<close>

definition char_at :: "string \<Rightarrow> nat \<Rightarrow> ('s, char) prog" where
  "char_at t n = (if n < length t then ret (t ! n) else if n = length t then ret (CHR 0x00) else undefined_behaviour)"

definition suffix :: "string \<Rightarrow> nat \<Rightarrow> ('s, string) prog" where
  "suffix t n = (if n \<le> length t then ret (drop n t) else undefined_behaviour)"

definition ERANGE :: int where "ERANGE = 34"

text \<open>\<open>strtol\<close> and what it leaves in \<open>errno\<close>: the value, and the rest behind the end pointer.\<close>

definition c_strtol :: "nat \<Rightarrow> string \<Rightarrow> ('w, 'm, int \<times> string) lib" where
  "c_strtol b t =
     (case strtol b t of (v, rest, er) \<Rightarrow>
        bnd (if er then set_errno ERANGE else ret ()) (\<lambda>_. ret (v, rest)))"

text \<open>The conversion of a \<open>long\<close> to an \<open>int\<close>.\<close>

definition to_int :: "int \<Rightarrow> int" where
  "to_int v = sint (word_of_int v :: 32 word)"

lemma wp_arg [wp_simps]:
  "wp (arg c n) Q s =
     (if n < length (argv_words c) then Q (WStr (argv_words c ! n)) s
      else if n = length (argv_words c) then Q WNull s
      else n < argv_size c \<and> Q (if argv_junk c n then WJunk else WNull) s)"
  by (simp add: arg_def wp_simps)

lemma wp_deref [wp_simps]: "wp (deref p) Q s = (case p of WStr t \<Rightarrow> Q t s | _ \<Rightarrow> False)"
  by (auto simp: deref_def wp_simps split: word_ptr.splits)

lemma wp_char_at [wp_simps]:
  "wp (char_at t n) Q s = (n \<le> length t \<and> Q (if n < length t then t ! n else CHR 0x00) s)"
  by (auto simp: char_at_def wp_simps)

lemma wp_suffix [wp_simps]: "wp (suffix t n) Q s = (n \<le> length t \<and> Q (drop n t) s)"
  by (simp add: suffix_def wp_simps)

lemma wp_c_strtol [wp_simps]:
  "wp (c_strtol b t) Q s =
     (case strtol b t of (v, rest, er) \<Rightarrow> Q (v, rest) (if er then s\<lparr>errno := ERANGE\<rparr> else s))"
  by (auto simp: c_strtol_def wp_simps split: prod.splits)


section \<open>Messages\<close>

definition tab :: string where "tab = [CHR 0x09]"

text \<open>\<open>sylvan_print_error(sylvan_get_last_error())\<close>: the message is the format.\<close>

definition print_last_error :: "('w, 'm, unit) tprog" where
  "print_last_error = bnd sylvan_get_last_error (\<lambda>msg. sylvan_print_error msg [])"

text \<open>A message, and the handler returns 0.\<close>

definition fail :: "string \<Rightarrow> ('w, 'm, int) tprog" where
  "fail msg = bnd (sylvan_print_error msg []) (\<lambda>_. ret 0)"

text \<open>\<open>if (m) { print the last error; return 0; } k\<close>\<close>

definition attempt :: "('w, 'm, sylvan_code) tprog \<Rightarrow> ('w, 'm, int) tprog \<Rightarrow> ('w, 'm, int) tprog" where
  "attempt m k = bnd m (\<lambda>code. if code \<noteq> SYLVANC_OK then bnd print_last_error (\<lambda>_. ret 0) else k)"

text \<open>\<open>if (command[n]) { sylvan_print_error("Invalid Arguments"); return 0; } k\<close>\<close>

definition no_more :: "argv \<Rightarrow> nat \<Rightarrow> ('w, 'm, int) tprog \<Rightarrow> ('w, 'm, int) tprog" where
  "no_more c n k = bnd (arg c n) (\<lambda>p. if p \<noteq> WNull then fail ''Invalid Arguments'' else k)"

text \<open>A null pointer as the argument of \<open>%s\<close> is undefined.\<close>

definition with_str :: "string option \<Rightarrow> (string \<Rightarrow> ('s, 'a) prog) \<Rightarrow> ('s, 'a) prog" where
  "with_str t k = (case t of None \<Rightarrow> undefined_behaviour | Some x \<Rightarrow> k x)"


section \<open>Listing commands\<close>

fun print_each :: "('a \<Rightarrow> ('s, unit) prog) \<Rightarrow> 'a list \<Rightarrow> ('s, unit) prog" where
  "print_each f [] = ret ()"
| "print_each f (x # xs) = bnd (f x) (\<lambda>_. print_each f xs)"

definition print_command :: "sylvan_command \<Rightarrow> ('w, 'm, unit) tprog" where
  "print_command cmd =
     bnd (printf (''  %s%s%s'' @ newline) [FStr GREEN, FStr (cmd_name cmd), FStr RESET]) (\<lambda>_.
     bnd (printf (''    %sDescription:%s %s%s%s'' @ newline)
            [FStr BLUE, FStr RESET, FStr YELLOW, FStr (cmd_description cmd), FStr RESET]) (\<lambda>_.
     bnd (printf (''    %sUsage:%s %s'' @ newline) [FStr BLUE, FStr RESET, FStr (cmd_usage cmd)]) (\<lambda>_.
       put Stdout newline)))"

definition print_commands_of :: "string \<Rightarrow> sylvan_command_type \<Rightarrow> ('w, 'm, unit) uprog" where
  "print_commands_of heading ty =
     bnd (printf (''%s'' @ heading @ ''%s'' @ newline) [FStr CYAN, FStr RESET]) (\<lambda>_.
     bnd (gets command_hash) (\<lambda>cmds. print_each print_command (filter (\<lambda>cmd. cmd_type cmd = ty) cmds)))"

definition print_commands_list :: "sylvan_command_type \<Rightarrow> bool \<Rightarrow> ('w, 'm, unit) uprog" where
  "print_commands_list tp print_all =
     bnd (if tp = SYLVAN_STANDARD_COMMAND \<or> print_all then print_commands_of ''Commands:'' SYLVAN_STANDARD_COMMAND else ret ()) (\<lambda>_.
     bnd (if tp = SYLVAN_INFO_COMMAND \<or> print_all then print_commands_of ''Info Commands:'' SYLVAN_INFO_COMMAND else ret ()) (\<lambda>_.
       if tp = SYLVAN_SET_COMMAND \<or> print_all then print_commands_of ''Set Commands:'' SYLVAN_SET_COMMAND else ret ()))"

definition handle_help :: "argv \<Rightarrow> ('w, 'm, int) uprog" where
  "handle_help c = bnd (arg c 1) (\<lambda>p.
     bnd (if p = WNull then ret False else bnd (deref p) (\<lambda>t. ret (t = ''-a'' \<or> t = ''--all''))) (\<lambda>all'.
     bnd (print_commands_list SYLVAN_STANDARD_COMMAND all') (\<lambda>_. ret 0)))"

definition handle_exit :: "argv \<Rightarrow> ('w, 'm, int) tprog" where
  "handle_exit c = bnd (printf (''%sExiting Debugger%s'' @ newline) [FStr MAGENTA, FStr RESET]) (\<lambda>_. ret 1)"

definition handle_info :: "argv \<Rightarrow> ('w, 'm, int) uprog" where
  "handle_info c = no_more c 1 (bnd (print_commands_list SYLVAN_INFO_COMMAND False) (\<lambda>_. ret 0))"

definition handle_set :: "argv \<Rightarrow> ('w, 'm, int) uprog" where
  "handle_set c = no_more c 1 (bnd (print_commands_list SYLVAN_SET_COMMAND False) (\<lambda>_. ret 0))"


section \<open>The process\<close>

definition handle_continue :: "'w os \<Rightarrow> argv \<Rightarrow> ('w, 'm, int) tprog" where
  "handle_continue os c = attempt (sylvan_continue os) (ret 0)"

definition handle_run :: "'w os \<Rightarrow> argv \<Rightarrow> ('w, 'm, int) tprog" where
  "handle_run os c = no_more c 1 (attempt (sylvan_run os) (ret 0))"

definition handle_step_inst :: "'w os \<Rightarrow> argv \<Rightarrow> ('w, 'm, int) tprog" where
  "handle_step_inst os c = no_more c 1 (attempt (sylvan_stepinst os)
     (bnd (sylvan_print_ok ''Single Instruction executed'' []) (\<lambda>_. ret 0)))"

text \<open>The old inferior is destroyed and a new one takes its place.\<close>

definition fresh_inferior :: "'w os \<Rightarrow> ('w, 'm, int) tprog \<Rightarrow> ('w, 'm, int) tprog" where
  "fresh_inferior os k = attempt (sylvan_inferior_destroy os) (attempt (sylvan_inferior_create os) k)"

definition handle_add_inferior :: "'w os \<Rightarrow> argv \<Rightarrow> ('w, 'm, int) tprog" where
  "handle_add_inferior os c = no_more c 1 (fresh_inferior os (bnd get_inf (\<lambda>i.
     bnd (sylvan_print_ok ''Created New Inferior: ID: %d'' [FInt (sint (inf_id i))]) (\<lambda>_. ret 0))))"

definition handle_file :: "'w os \<Rightarrow> argv \<Rightarrow> ('w, 'm, int) tprog" where
  "handle_file os c = bnd (arg c 1) (\<lambda>p.
     if p = WNull then fail ''No filename provided''
     else no_more c 2 (bnd get_inf (\<lambda>i. bnd (deref p) (\<lambda>filepath.
       let assign = attempt (sylvan_set_filepath os (Some filepath)) (bnd get_inf (\<lambda>i.
             bnd (sylvan_print_ok ''File %s assigned to inferior id: %d'' [FStr filepath, FInt (sint (inf_id i))]) (\<lambda>_. ret 0)))
       in if inf_pid i \<noteq> 0 then fresh_inferior os assign else assign))))"

definition handle_attach :: "'w os \<Rightarrow> argv \<Rightarrow> ('w, 'm, int) tprog" where
  "handle_attach os c = bnd (arg c 1) (\<lambda>p.
     if p = WNull
     then bnd (fail ''Invalid Arguments'') (\<lambda>_. bnd (sylvan_print_instruction (tab @ ''attach <pid>'') []) (\<lambda>_. ret 0))
     else no_more c 2 (bnd (deref p) (\<lambda>t.
       bnd (set_errno 0) (\<lambda>_. bnd (c_strtol 10 t) (\<lambda>(pid, rest). bnd (gets errno) (\<lambda>e.
       if e = ERANGE \<or> pid \<le> 0 \<or> rest \<noteq> []
       then bnd (sylvan_print_error ''Invalid PID: %s'' [FStr t]) (\<lambda>_.
            bnd (sylvan_print_instruction (tab @ ''attach <pid>'') []) (\<lambda>_. ret 0))
       else bnd get_inf (\<lambda>i.
         let attach = attempt (sylvan_attach os (to_int pid)) (bnd get_inf (\<lambda>i.
               bnd (sylvan_print_ok ''Process PID: %ld to inferior id: %d'' [FLong (word_of_int pid), FInt (sint (inf_id i))]) (\<lambda>_. ret 0)))
         in if inf_pid i \<noteq> 0 then fresh_inferior os attach else attach)))))))"

text \<open>The words are joined with spaces, the name of the command included.\<close>

definition handle_set_args :: "'w os \<Rightarrow> argv \<Rightarrow> ('w, 'm, int) tprog" where
  "handle_set_args os c =
     (let total_len = sum_list (map (\<lambda>t. length t + 1) (argv_words c)) in
      bnd (sys (os_malloc os total_len)) (\<lambda>r.
        case r of
          Inl _ \<Rightarrow> fail ''Memory allocation failed''
        | Inr _ \<Rightarrow> attempt (sylvan_set_args os (Some (join_with (CHR '' '') (argv_words c)))) (bnd get_inf (\<lambda>i.
            bnd (sylvan_print_ok (''Added arguments to inferior: %d'' @ newline) [FInt (sint (inf_id i))]) (\<lambda>_. ret 0)))))"

definition handle_info_args :: "argv \<Rightarrow> ('w, 'm, int) tprog" where
  "handle_info_args c = no_more c 1 (bnd is_null (\<lambda>b.
     if b then fail ''Null Inferior Pointer''
     else bnd get_inf (\<lambda>i. with_str (inf_args i) (\<lambda>a.
       bnd (printf (''Arguments: %s%s%s'' @ newline) [FStr GREEN, FStr a, FStr RESET]) (\<lambda>_. ret 0)))))"

definition handle_info_inferiors :: "argv \<Rightarrow> ('w, 'm, int) tprog" where
  "handle_info_inferiors c = no_more c 1 (bnd is_null (\<lambda>b.
     if b then ret 0
     else bnd get_inf (\<lambda>i.
       bnd (printf (''%sId:%s %d'' @ newline) [FStr BLUE, FStr RESET, FInt (sint (inf_id i))]) (\<lambda>_.
       bnd (printf (tab @ ''%sPID:%s %d'' @ newline) [FStr BLUE, FStr RESET, FInt (inf_pid i)]) (\<lambda>_.
       with_str (inf_realpath i) (\<lambda>path.
       bnd (printf (tab @ ''%sPath:%s %s'' @ newline) [FStr BLUE, FStr RESET, FStr path]) (\<lambda>_.
       bnd (printf (tab @ ''%sIs Attached:%s %d'' @ newline) [FStr BLUE, FStr RESET, FInt (of_bool (inf_is_attached i))]) (\<lambda>_.
       bnd (printf (tab @ ''%sNum Breakpoints:%s %d'' @ newline)
              [FStr BLUE, FStr RESET, FInt (int (inf_breakpoint_count i))]) (\<lambda>_. ret 0)))))))))"

definition handle_info_auxv :: "'w os \<Rightarrow> 'w tty \<Rightarrow> (nat \<Rightarrow> byte) \<Rightarrow> argv \<Rightarrow> ('w, 'm, int) tprog" where
  "handle_info_auxv os tty heap c = no_more c 1 (bnd is_null (\<lambda>b.
     if b then fail ''Null Inferior Pointer''
     else bnd get_inf (\<lambda>i.
       if inf_pid i = 0 then fail ''Invalid PID''
       else bnd (target_read_auxv os tty (inf_pid i)) (\<lambda>raw.
         case raw of
           None \<Rightarrow> ret 0
         | Some bytes \<Rightarrow>
             bnd (parse_auxv os (bytes @ map heap [length bytes..<AUXV_SIZE]) (length bytes) True) (\<lambda>entries.
             case entries of
               None \<Rightarrow> fail ''Failed to parse auxv''
             | Some es \<Rightarrow>
                 bnd (printf (''%sAuxiliary Vector for PID %d:%s'' @ newline) [FStr CYAN, FInt (inf_pid i), FStr RESET]) (\<lambda>_.
                 bnd (printf (''%sType  Value                 Name                Description%s'' @ newline)
                        [FStr BLUE, FStr RESET]) (\<lambda>_.
                 bnd (printf (''%s----  --------------------  --------            -----------%s'' @ newline)
                        [FStr BLUE, FStr RESET]) (\<lambda>_.
                 bnd (print_each print_auxv_entry (takeWhile (\<lambda>e. ax_type e \<noteq> AT_NULL) es)) (\<lambda>_.
                   ret 0)))))))))"


section \<open>Registers\<close>

definition REGS_SIZE :: nat where "REGS_SIZE = 216"

text \<open>The registers are read into a new block; a null pointer is an invalid argument.\<close>

definition read_registers :: "'w os \<Rightarrow> (user_regs \<Rightarrow> ('w, 'm, int) tprog) \<Rightarrow> ('w, 'm, int) tprog" where
  "read_registers os k =
     bnd (sys (os_malloc os REGS_SIZE)) (\<lambda>r.
     bnd (case r of
            Inl _ \<Rightarrow> bnd (sylvan_set_code SYLVANC_INVALID_ARGUMENT) (\<lambda>code. ret (code, None))
          | Inr _ \<Rightarrow> sylvan_get_regs os) (\<lambda>(code, regs).
       case regs of
         None \<Rightarrow> bnd print_last_error (\<lambda>_. ret 0)
       | Some x \<Rightarrow> k x))"

definition handle_info_registers :: "'w os \<Rightarrow> 'w tty \<Rightarrow> argv \<Rightarrow> ('w, 'm, int) tprog" where
  "handle_info_registers os tty c = no_more c 1 (read_registers os (\<lambda>regs.
     bnd (print_registers os tty regs) (\<lambda>_. ret 0)))"

definition handle_set_reg :: "'w os \<Rightarrow> argv \<Rightarrow> ('w, 'm, int) tprog" where
  "handle_set_reg os c = bnd (arg c 2) (\<lambda>p2. bnd (if p2 = WNull then ret WNull else arg c 1) (\<lambda>p1.
     if p2 = WNull \<or> p1 = WNull
     then bnd (fail ''No name or value given'') (\<lambda>_.
          bnd (sylvan_print_instruction (tab @ ''set_reg <register name> <value>'') []) (\<lambda>_. ret 0))
     else no_more c 4 (bnd (deref p1) (\<lambda>name.
       let idx = find_register_by_name name in
       if idx = -1 then fail ''register not found''
       else bnd (set_errno 0) (\<lambda>_. bnd (deref p2) (\<lambda>v.
         bnd (char_at v 1) (\<lambda>c1. bnd (char_at v 0) (\<lambda>c0.
         if c1 \<noteq> CHR ''x'' \<and> c0 \<noteq> CHR ''0''
         then bnd (fail ''Invalid data'') (\<lambda>_. bnd (sylvan_print_instruction ''set_reg rax 0x40'' []) (\<lambda>_. ret 0))
         else bnd (suffix v 2) (\<lambda>t. bnd (c_strtol 16 t) (\<lambda>(n, rest). bnd (gets errno) (\<lambda>e.
           if e = ERANGE \<or> rest \<noteq> []
           then bnd (sylvan_print_error ''Invalid value: %s'' [FStr v]) (\<lambda>_.
                bnd (sylvan_print_instruction (tab @ ''set_reg <reg> <value>'') []) (\<lambda>_. ret 0))
           else let val = word_of_int n; r = sylvan_registers_info ! nat idx in
             read_registers os (\<lambda>regs. attempt (sylvan_set_regs os (set_register r val regs))
               (bnd (sylvan_print_ok (''%s to %#lx'' @ newline) [FStr (reg_name r), FLong val]) (\<lambda>_. ret 0))))))))))))))"

end
