(* ===== verification/Breakpoint_Commands.thy ===== *)
theory Breakpoint_Commands
  imports Commands
begin

text \<open>
  The commands of \<open>src/command_handler.c\<close> on breakpoints and aliases.
\<close>

section \<open>Breakpoints\<close>

text \<open>An address that does not parse becomes 0.\<close>

definition handle_breakpoint_set :: "'w os \<Rightarrow> argv \<Rightarrow> ('w, 'm, int) tprog" where
  "handle_breakpoint_set os c = bnd (arg c 1) (\<lambda>p.
     if p = WNull
     then bnd (fail ''address missing'') (\<lambda>_. bnd (sylvan_print_instruction (tab @ ''breakpoint <address>'') []) (\<lambda>_. ret 0))
     else no_more c 2 (bnd (set_errno 0) (\<lambda>_. bnd (deref p) (\<lambda>w.
       bnd (suffix w 2) (\<lambda>t. bnd (c_strtol 16 t) (\<lambda>(n, rest). bnd (gets errno) (\<lambda>e.
       let addr = (if e = ERANGE \<or> rest \<noteq> [] then 0 else word_of_int n) in
       bnd (char_at w 0) (\<lambda>c0.
         if c0 \<noteq> CHR ''0''
         then attempt (sylvan_set_breakpoint_function os (Some w))
           (bnd (sylvan_print_ok ''breakpoint set at: %s'' [FStr w]) (\<lambda>_. ret 0))
         else attempt (sylvan_breakpoint_set os addr)
           (bnd (sylvan_print_ok ''breakpoint set at: %#lx'' [FLong addr]) (\<lambda>_. ret 0))))))))))"

text \<open>The usage lines of \<open>toggle_breakpoint\<close> and of the deletion.\<close>

definition bp_usage :: "string \<Rightarrow> ('w, 'm, unit) tprog" where
  "bp_usage name = sylvan_print_instruction (tab @ name @ '' <id>'' @ newline @ tab @ name @ '' -a <address>'') []"

text \<open>
  A breakpoint is named by its number or, after \<open>-a\<close>, by its address. The number is
  compared as an \<open>int\<close>, and a number equal to the count passes.
\<close>

definition with_id :: "string \<Rightarrow> string \<Rightarrow> (nat \<Rightarrow> ('w, 'm, int) tprog) \<Rightarrow> ('w, 'm, int) tprog" where
  "with_id t hint k =
     bnd (c_strtol 10 t) (\<lambda>(v, rest). bnd (gets errno) (\<lambda>e.
       let n = to_int v in
       if e = ERANGE \<or> n < 0 \<or> rest \<noteq> [] then fail ''Invalid id''
       else bnd get_inf (\<lambda>i.
         if n > int (inf_breakpoint_count i) then fail (''Invalid id use: '' @ hint)
         else k (nat n))))"

definition with_addr :: "argv \<Rightarrow> string \<Rightarrow> string \<Rightarrow> (addr \<Rightarrow> ('w, 'm, int) tprog) \<Rightarrow> ('w, 'm, int) tprog" where
  "with_addr c usage_name msg k = bnd (arg c 2) (\<lambda>p.
     if p = WNull then bnd (fail ''Invalid Arguments'') (\<lambda>_. bnd (bp_usage usage_name) (\<lambda>_. ret 0))
     else bnd (deref p) (\<lambda>w. bnd (suffix w 2) (\<lambda>t. bnd (c_strtol 16 t) (\<lambda>(n, rest). bnd (gets errno) (\<lambda>e.
       if e = ERANGE \<or> (word_of_int n :: addr) = 0 \<or> rest \<noteq> [] then fail msg
       else k (word_of_int n))))))"

definition toggle_result :: "bool \<Rightarrow> addr \<Rightarrow> ('w, 'm, unit) tprog" where
  "toggle_result is_disable a =
     sylvan_print_ok ''breakpoint at addr 0x%lx  %s'' [FLong a, FStr (if is_disable then ''disabled'' else ''enabled'')]"

definition toggle_breakpoint :: "'w os \<Rightarrow> argv \<Rightarrow> bool \<Rightarrow> ('w, 'm, int) tprog" where
  "toggle_breakpoint os c is_disable = bnd (arg c 1) (\<lambda>p.
     if p = WNull then bnd (fail ''Invalid Arguments'') (\<lambda>_. bnd (bp_usage ''disable'') (\<lambda>_. ret 0))
     else let toggle = (\<lambda>a. if is_disable then sylvan_breakpoint_disable os a else sylvan_breakpoint_enable os a) in
       bnd (set_errno 0) (\<lambda>_. bnd (deref p) (\<lambda>t.
       if t \<noteq> ''-a''
       then with_id t ''info breakpoint'' (\<lambda>n. bnd (get_bp n) (\<lambda>b.
         attempt (toggle (bp_addr b)) (bnd (get_bp n) (\<lambda>b. bnd (toggle_result is_disable (bp_addr b)) (\<lambda>_. ret 0)))))
       else with_addr c ''disable'' ''Invalid address'' (\<lambda>a.
         attempt (toggle a) (bnd (toggle_result is_disable a) (\<lambda>_. ret 0))))))"

definition handle_disable_breakpoint :: "'w os \<Rightarrow> argv \<Rightarrow> ('w, 'm, int) tprog" where
  "handle_disable_breakpoint os c = bnd (toggle_breakpoint os c True) (\<lambda>_. ret 0)"

definition handle_enable_breakpoint :: "'w os \<Rightarrow> argv \<Rightarrow> ('w, 'm, int) tprog" where
  "handle_enable_breakpoint os c = bnd (toggle_breakpoint os c False) (\<lambda>_. ret 0)"

text \<open>The message is written after the deletion, with what is in the slot then.\<close>

definition handle_delete_breakpoint :: "'w os \<Rightarrow> argv \<Rightarrow> ('w, 'm, int) tprog" where
  "handle_delete_breakpoint os c = bnd (arg c 1) (\<lambda>p.
     if p = WNull then bnd (fail ''Invalid Arguments'') (\<lambda>_. bnd (bp_usage ''delete'') (\<lambda>_. ret 0))
     else bnd (set_errno 0) (\<lambda>_. bnd (deref p) (\<lambda>t.
       if t \<noteq> ''-a''
       then with_id t ''info_breakpoint'' (\<lambda>n. bnd (get_bp n) (\<lambda>b.
         attempt (sylvan_breakpoint_unset os (bp_addr b)) (bnd (get_bp n) (\<lambda>b.
           bnd (sylvan_print_ok ''breakpoint at addr 0x%lx  is deleted'' [FLong (bp_addr b)]) (\<lambda>_. ret 0)))))
       else with_addr c ''delete'' ''Invalid Address'' (\<lambda>a.
         attempt (sylvan_breakpoint_unset os a)
           (bnd (sylvan_print_ok ''breakpoint at addr 0x%lx  is deleted'' [FLong a]) (\<lambda>_. ret 0))))))"

definition breakpoint_cols :: "table_col list" where
  "breakpoint_cols = [\<lparr>tc_header = ''NUM'', tc_width = 5, tc_format = TABLE_COL_INT\<rparr>,
                      \<lparr>tc_header = ''TYPE'', tc_width = 12, tc_format = TABLE_COL_STR\<rparr>,
                      \<lparr>tc_header = ''ADDRESS'', tc_width = 18, tc_format = TABLE_COL_HEX_LONG\<rparr>,
                      \<lparr>tc_header = ''STATUS'', tc_width = 10, tc_format = TABLE_COL_INT\<rparr>]"

definition breakpoint_rows :: "inferior \<Rightarrow> table_row list" where
  "breakpoint_rows i = map (\<lambda>n. let b = inf_breakpoints i ! n in
     [CellInt (int n), CellStr ''software'', CellHexLong (bp_addr b), CellInt (of_bool (is_enabled_log b))])
     [0..<inf_breakpoint_count i]"

definition handle_info_breakpoints :: "'w os \<Rightarrow> 'w tty \<Rightarrow> argv \<Rightarrow> ('w, 'm, int) tprog" where
  "handle_info_breakpoints os tty c = no_more c 1 (bnd is_null (\<lambda>b.
     if b then fail ''Null inferior pointer''
     else bnd get_inf (\<lambda>i.
       if length (inf_breakpoints i) < inf_breakpoint_count i then undefined_behaviour
       else let rows = breakpoint_rows i in
         bnd (alloc_blocks os (concat (map (\<lambda>_. [16, 24]) rows))) (\<lambda>_.
         bnd (print_table tty ''BREAKPOINTS'' breakpoint_cols rows (int (inf_breakpoint_count i))) (\<lambda>_. ret 0)))))"


section \<open>Aliases\<close>

text \<open>A pointer that may be null.\<close>

definition opt_deref :: "word_ptr \<Rightarrow> ('s, string option) prog" where
  "opt_deref p = (if p = WNull then ret None else bnd (deref p) (\<lambda>t. ret (Some t)))"

definition handle_set_alias :: "'w os \<Rightarrow> argv \<Rightarrow> ('w, 'm, int) uprog" where
  "handle_set_alias os c = bnd (arg c 1) (\<lambda>p1. bnd (if p1 = WNull then ret WNull else arg c 2) (\<lambda>p2.
     if p1 = WNull \<or> p2 = WNull then fail ''Invalid arguments''
     else bnd (gets alias_table) (\<lambda>als. let alias_id = int (length als) + 1 in
       bnd (arg c 3) (\<lambda>p3. bnd (opt_deref p2) (\<lambda>name. bnd (opt_deref p3) (\<lambda>org.
       bnd (insert_alias os name org alias_id (CHR ''u'')) (\<lambda>failed.
         if failed \<noteq> 0 then fail ''Failed to add alias''
         else with_str name (\<lambda>x. with_str org (\<lambda>y.
           bnd (sylvan_print_ok (''Alias added successfully: '' @ [CHR 0x27] @ ''%s'' @ [CHR 0x27] @ '' -> '' @ [CHR 0x27] @ ''%s'' @ [CHR 0x27])
             [FStr x, FStr y]) (\<lambda>_. ret 0))))))))))"

definition handle_info_alias :: "argv \<Rightarrow> ('w, 'm, int) uprog" where
  "handle_info_alias c = no_more c 1 (
     bnd (printf (''%sCommand Name         Alias   %s'' @ newline) [FStr BLUE, FStr RESET]) (\<lambda>_.
     bnd (printf (''%s-------------------- -------%s'' @ newline) [FStr BLUE, FStr RESET]) (\<lambda>_.
     bnd (gets alias_table) (\<lambda>als.
     bnd (print_each (\<lambda>a. printf (''%s%-20s%s %s%-8s%s'' @ newline)
            [FStr GREEN, FStr (al_name a), FStr RESET, FStr YELLOW, FStr (al_org_cmd a), FStr RESET]) als) (\<lambda>_.
       ret 0)))))"

end
