(* ===== verification/Disassembly.thy ===== *)
theory Disassembly
  imports Commands
begin

text \<open>
  \<open>src/disassemble.c\<close> and the command \<open>disassemble\<close>: the file offset of an address
  from the program headers, the bounds of a function from the symbol table, and the
  list of the instructions that Zydis decodes. \<open>dl_decode\<close> is
  \<open>ZydisDisassembleIntel\<close>: the length and the text of the first instruction of a
  buffer; \<open>dl_fopen\<close> answers the contents of a file.
\<close>

section \<open>The libraries\<close>

record 'w dislib =
  dl_decode :: "addr \<Rightarrow> byte list \<Rightarrow> (nat \<times> string) option"
  dl_errmsg :: string
  dl_fopen :: "string \<Rightarrow> 'w \<Rightarrow> (int + byte list) \<times> 'w"

record disassembled_instruction =
  di_addr :: addr
  di_opcodes :: string
  di_instruction :: string

text \<open>A little-endian field of \<open>n\<close> bytes at an offset.\<close>

definition le_field :: "nat \<Rightarrow> nat \<Rightarrow> byte list \<Rightarrow> 64 word" where
  "le_field n pos bs = word_of_bytes (take n (drop pos bs))"

definition error_line :: "string \<Rightarrow> farg list \<Rightarrow> ('w, 'm, unit) tprog" where
  "error_line fmt args = fprintf Stderr (''%s'' @ fmt @ ''%s'' @ newline) (FStr RED # args @ [FStr RESET])"


section \<open>Program headers\<close>

definition PT_LOAD :: "64 word" where "PT_LOAD = 1"
definition EHDR_SIZE :: nat where "EHDR_SIZE = 64"
definition PHDR_SIZE :: nat where "PHDR_SIZE = 56"

record phdr =
  p_type :: "64 word"
  p_offset :: "64 word"
  p_vaddr :: "64 word"
  p_filesz :: "64 word"
  p_memsz :: "64 word"

definition phdr_of :: "byte list \<Rightarrow> phdr" where
  "phdr_of bs = \<lparr>p_type = le_field 4 0 bs, p_offset = le_field 8 8 bs, p_vaddr = le_field 8 16 bs,
     p_filesz = le_field 8 32 bs, p_memsz = le_field 8 40 bs\<rparr>"

definition in_segment :: "phdr \<Rightarrow> addr \<Rightarrow> bool" where
  "in_segment p vaddr \<longleftrightarrow> p_type p = PT_LOAD \<and> p_vaddr p \<le> vaddr \<and> vaddr < p_vaddr p + p_memsz p"

text \<open>The loop over the headers: the file position, and \<open>n\<close> headers still to read.\<close>

fun search_phdrs :: "byte list \<Rightarrow> addr \<Rightarrow> 64 word \<Rightarrow> nat \<Rightarrow> int \<Rightarrow> nat \<Rightarrow> ('w, 'm, (64 word \<times> 64 word) option) tprog" where
  "search_phdrs file vaddr sz pos i 0 =
     bnd (error_line ''Virtual address 0x%016lx not found in any loadable segment'' [FLong vaddr]) (\<lambda>_. ret None)"
| "search_phdrs file vaddr sz pos i (Suc n) =
     (if length file < pos + PHDR_SIZE
      then bnd (error_line ''Failed to read program header %d'' [FInt i]) (\<lambda>_. ret None)
      else let p = phdr_of (drop pos file) in
        if in_segment p vaddr
        then let max_size = p_filesz p - (vaddr - p_vaddr p) in
          bnd (if max_size < sz
               then printf (''Adjusted size from %zu to %zu to fit section'' @ newline) [FLong sz, FLong max_size]
               else ret ()) (\<lambda>_.
            ret (Some (p_offset p + (vaddr - p_vaddr p), max_size)))
        else search_phdrs file vaddr sz (pos + PHDR_SIZE) (i + 1) n)"

text \<open>
  The file offset and the number of bytes from there to the end of the segment.
  Seeking to a negative position fails, and reading goes on behind the header.
\<close>

definition get_file_offset_from_vaddr ::
  "byte list \<Rightarrow> addr \<Rightarrow> 64 word \<Rightarrow> ('w, 'm, (64 word \<times> 64 word) option) tprog" where
  "get_file_offset_from_vaddr file vaddr sz =
     (if length file < EHDR_SIZE then bnd (error_line ''Failed to read ELF header'' []) (\<lambda>_. ret None)
      else if take 4 file \<noteq> [0x7F, 0x45, 0x4C, 0x46] then bnd (error_line ''Not an ELF file'' []) (\<lambda>_. ret None)
      else let phoff = le_field 8 32 file; phnum = unat (le_field 2 56 file) in
        search_phdrs file vaddr sz (if 0 \<le> sint phoff then unat phoff else EHDR_SIZE) 0 phnum)"


section \<open>Function bounds\<close>

text \<open>The first symbol of that name in a section.\<close>

fun find_symbol :: "(nat \<Rightarrow> elf_symbol option) \<Rightarrow> string \<Rightarrow> nat list \<Rightarrow> (addr \<times> 64 word) option" where
  "find_symbol syms name [] = None"
| "find_symbol syms name (n # ns) =
     (case syms n of
        Some y \<Rightarrow> if es_name y = Some name then Some (es_value y, es_size y) else find_symbol syms name ns
      | None \<Rightarrow> find_symbol syms name ns)"

fun search_sections :: "string \<Rightarrow> elf_section list \<Rightarrow> ('s, (addr \<times> 64 word) option) prog" where
  "search_sections name [] = ret None"
| "search_sections name (sc # scs) =
     (if \<not> sh_ok sc \<or> sh_type sc \<noteq> SHT_SYMTAB then search_sections name scs
      else if sh_entsize sc = 0 then undefined_behaviour
      else case (if sh_data_ok sc then find_symbol (sh_syms sc) name [0..<unat (sh_size sc div sh_entsize sc)] else None) of
             Some r \<Rightarrow> ret (Some r)
           | None \<Rightarrow> search_sections name scs)"

definition get_function_bounds ::
  "'w os \<Rightarrow> 'w dislib \<Rightarrow> string option \<Rightarrow> string \<Rightarrow> ('w, 'm, (addr \<times> 64 word) option) tprog" where
  "get_function_bounds os dl binary_path func_name =
     bnd (extern (os_elf os binary_path)) (\<lambda>e.
       if \<not> elf_version_ok e
       then bnd (error_line ''ELF library initialization failed: %s'' [FStr (dl_errmsg dl)]) (\<lambda>_. ret None)
       else case elf_open e of
         Inl err \<Rightarrow> with_str binary_path (\<lambda>path.
           bnd (error_line ''Cannot open %s: %s'' [FStr path, FStr (os_strerror os err)]) (\<lambda>_. ret None))
       | Inr _ \<Rightarrow>
           if \<not> elf_begin_ok e
           then bnd (error_line ''elf_begin failed: %s'' [FStr (dl_errmsg dl)]) (\<lambda>_. ret None)
           else if \<not> elf_shstrndx_ok e
           then bnd (error_line ''elf_getshdrstrndx failed: %s'' [FStr (dl_errmsg dl)]) (\<lambda>_. ret None)
           else bnd (search_sections func_name (elf_sections e)) (\<lambda>r.
             case r of
               Some b \<Rightarrow> ret (Some b)
             | None \<Rightarrow> with_str binary_path (\<lambda>path.
                 bnd (error_line (''Function '' @ [CHR 0x27] @ ''%s'' @ [CHR 0x27] @ '' not found in %s'')
                        [FStr func_name, FStr path]) (\<lambda>_. ret None))))"


section \<open>Decoding\<close>

definition opcode_text :: "byte \<Rightarrow> string" where
  "opcode_text b = (let t = map to_upper (digits 16 (unat b)) in (if length t < 2 then CHR ''0'' # t else t))"

definition NODE_SIZE :: nat where "NODE_SIZE = 32"

text \<open>
  The allocations for one instruction, with a message where one fails. An instruction
  longer than the bytes \<open>bs\<close> that are left would be copied from behind the buffer; one of
  length 0 would be terminated before its text.
\<close>

definition alloc_node :: "'w os \<Rightarrow> byte list \<Rightarrow> nat \<Rightarrow> string \<Rightarrow> ('w, 'm, bool) tprog" where
  "alloc_node os bs len instr =
     bnd (sys (os_malloc os NODE_SIZE)) (\<lambda>r.
       if r \<noteq> Inr () then bnd (error_line ''Memory allocation failed (node)'' []) (\<lambda>_. ret False)
       else bnd (sys (os_malloc os (len * 3 + 1))) (\<lambda>r.
         if r \<noteq> Inr () then bnd (error_line ''Memory allocation failed (opcodes)'' []) (\<lambda>_. ret False)
         else if len = 0 \<or> length bs < len then undefined_behaviour
         else bnd (sys (os_malloc os (length instr + 1))) (\<lambda>r.
           if r \<noteq> Inr () then bnd (error_line ''Memory allocation failed (instruction)'' []) (\<lambda>_. ret False)
           else ret True)))"

text \<open>
  The loop on the bytes that are left. The fuel is more than the number of bytes.
\<close>

fun decode_loop :: "'w os \<Rightarrow> 'w dislib \<Rightarrow> bool \<Rightarrow> nat \<Rightarrow> addr \<Rightarrow> byte list \<Rightarrow>
    ('w, 'm, disassembled_instruction list) tprog" where
  "decode_loop os dl is_func 0 a bs = (\<lambda>s. Diverge)"
| "decode_loop os dl is_func (Suc fuel) a bs =
     (case dl_decode dl a bs of
        None \<Rightarrow> ret []
      | Some (len, instr) \<Rightarrow>
          bnd (alloc_node os bs len instr) (\<lambda>ok.
            if \<not> ok then ret []
            else let node = \<lparr>di_addr = a, di_opcodes = join_with (CHR '' '') (map opcode_text (take len bs)),
                             di_instruction = instr\<rparr> in
              if is_func \<and> take 3 instr = ''ret'' then ret [node]
              else bnd (decode_loop os dl is_func fuel (a + of_nat len) (drop len bs)) (\<lambda>rest. ret (node # rest))))"

text \<open>\<open>None\<close>: failure. An empty buffer counts as decoded.\<close>

definition decode_range ::
  "'w os \<Rightarrow> 'w dislib \<Rightarrow> byte list \<Rightarrow> bool \<Rightarrow> addr \<Rightarrow> 64 word \<Rightarrow> 64 word \<Rightarrow>
    ('w, 'm, disassembled_instruction list option) tprog" where
  "decode_range os dl file is_func start_addr file_offset sz =
     bnd (sys (os_malloc os (unat sz))) (\<lambda>r.
       if r \<noteq> Inr () then bnd (error_line ''Memory allocation failed'' []) (\<lambda>_. ret None)
       else if sint file_offset < 0
       then bnd (error_line ''Failed to seek to offset 0x%016lx'' [FLong file_offset]) (\<lambda>_. ret None)
       else let buffer = take (unat sz) (drop (unat file_offset) file) in
         if length buffer \<noteq> unat sz
         then bnd (error_line ''Failed to read %zu bytes from file (read %zu)''
                     [FLong sz, FLong (of_nat (length buffer))]) (\<lambda>_. ret None)
         else bnd (decode_loop os dl is_func (Suc (length buffer)) start_addr buffer) (\<lambda>xs.
           if sz = 0 \<or> xs \<noteq> [] then ret (Some xs) else ret None))"

definition disassemble ::
  "'w os \<Rightarrow> 'w dislib \<Rightarrow> addr \<Rightarrow> addr \<Rightarrow> ('w, 'm, disassembled_instruction list option) tprog" where
  "disassemble os dl start_addr end_addr = bnd is_null (\<lambda>null.
     if null then bnd (error_line ''Invalid arguments or address range'' []) (\<lambda>_. ret None)
     else bnd get_inf (\<lambda>i.
     case inf_realpath i of
       None \<Rightarrow> bnd (error_line ''Invalid arguments or address range'' []) (\<lambda>_. ret None)
     | Some path \<Rightarrow>
         if end_addr < start_addr then bnd (error_line ''Invalid arguments or address range'' []) (\<lambda>_. ret None)
         else bnd (sys (dl_fopen dl path)) (\<lambda>r.
           case r of
             Inl e \<Rightarrow> bnd (put Stderr (''Failed to open the file: '' @ os_strerror os e @ newline)) (\<lambda>_. ret None)
           | Inr file \<Rightarrow>
               let sz = end_addr - start_addr; is_not_func = (to_int (uint sz) \<noteq> 0) in
               bnd (get_file_offset_from_vaddr file start_addr sz) (\<lambda>off.
                 case off of
                   None \<Rightarrow> ret None
                 | Some (file_offset, max_size) \<Rightarrow>
                     decode_range os dl file (\<not> is_not_func) start_addr file_offset
                       (if max_size < sz \<or> sz = 0 then max_size else sz)))))"

definition disassembly_cols :: "table_col list" where
  "disassembly_cols = [\<lparr>tc_header = ''Address'', tc_width = 18, tc_format = TABLE_COL_HEX_LONG\<rparr>,
                       \<lparr>tc_header = ''Opcodes'', tc_width = 34, tc_format = TABLE_COL_STR\<rparr>,
                       \<lparr>tc_header = ''Instruction'', tc_width = 40, tc_format = TABLE_COL_STR\<rparr>]"

definition print_disassembly :: "'w os \<Rightarrow> 'w tty \<Rightarrow> disassembled_instruction list \<Rightarrow> ('w, 'm, unit) tprog" where
  "print_disassembly os tty xs =
     (if xs = [] then printf (''%sNo instructions to display%s'' @ newline) [FStr YELLOW, FStr RESET]
      else bnd (alloc_blocks os (concat (map (\<lambda>x.
             [16, 24, length (di_opcodes x) + 1, length (di_instruction x) + 1]) xs))) (\<lambda>_.
        print_table tty ''Disassembly'' disassembly_cols
          (map (\<lambda>x. [CellHexLong (di_addr x), CellStr (di_opcodes x), CellStr (di_instruction x)]) xs)
          (int (length xs))))"


section \<open>The command\<close>

text \<open>\<open>strtol\<close> of a whole word as an address; the check \<open>bad\<close> is on the address.\<close>

definition parse_bound :: "string \<Rightarrow> (addr \<Rightarrow> bool) \<Rightarrow> ('w, 'm, addr option) tprog" where
  "parse_bound t bad =
     bnd (set_errno 0) (\<lambda>_. bnd (c_strtol 16 t) (\<lambda>(n, rest). bnd (gets errno) (\<lambda>e.
       if e = ERANGE \<or> bad (word_of_int n) \<or> rest \<noteq> [] then ret None else ret (Some (word_of_int n)))))"

text \<open>The end of the handler: the bounds of the function, the instructions, their table.\<close>

definition show_range ::
  "'w os \<Rightarrow> 'w tty \<Rightarrow> 'w dislib \<Rightarrow> bool \<Rightarrow> string \<Rightarrow> addr \<Rightarrow> addr \<Rightarrow> ('w, 'm, int) tprog" where
  "show_range os tty dl is_func name start_addr end_addr =
     bnd (if \<not> is_func then ret (Some (start_addr, end_addr))
          else bnd get_inf (\<lambda>i. bnd (get_function_bounds os dl (inf_realpath i) name) (\<lambda>b.
            ret (map_option (\<lambda>(a, _). (a, a)) b)))) (\<lambda>range'.
       case range' of
         None \<Rightarrow> ret 0
       | Some (a, b) \<Rightarrow> bnd (disassemble os dl a b) (\<lambda>xs.
           case xs of
             None \<Rightarrow> ret 0
           | Some ys \<Rightarrow> bnd (print_disassembly os tty ys) (\<lambda>_. ret 0)))"

text \<open>
  The addresses of a range are parsed and then overwritten: \<open>is_func\<close> is cleared for
  \<open>-c\<close> only.
\<close>

definition explicit_range ::
  "argv \<Rightarrow> string \<Rightarrow> addr \<Rightarrow> addr \<Rightarrow> (addr \<Rightarrow> addr \<Rightarrow> ('w, 'm, int) tprog) \<Rightarrow> ('w, 'm, int) tprog" where
  "explicit_range c w start_addr end_addr k = bnd (arg c 2) (\<lambda>p2.
     if p2 = WNull then k start_addr end_addr
     else bnd (parse_bound w (\<lambda>a. a = 0)) (\<lambda>s.
       case s of
         None \<Rightarrow> bnd (sylvan_print_error ''Invalid start address: %s'' [FStr w]) (\<lambda>_. ret 0)
       | Some a \<Rightarrow> bnd (deref p2) (\<lambda>w2. bnd (parse_bound w2 (\<lambda>b. b \<le> a)) (\<lambda>e.
           case e of
             None \<Rightarrow> bnd (sylvan_print_error ''Invalid end address: %s'' [FStr w2]) (\<lambda>_. ret 0)
           | Some b \<Rightarrow> k a b))))"

definition handle_disassemble :: "'w os \<Rightarrow> 'w tty \<Rightarrow> 'w dislib \<Rightarrow> argv \<Rightarrow> ('w, 'm, int) tprog" where
  "handle_disassemble os tty dl c = bnd is_null (\<lambda>null.
     if null then fail ''Null Inferior Pointer''
     else bnd (arg c 1) (\<lambda>p1.
       if p1 = WNull
       then bnd (fail ''Enter Valid start Address'') (\<lambda>_. bnd (sylvan_print_instruction
         (tab @ ''dissassemble <addr> <endaddr>'' @ newline @ tab @ ''disassemble <function>'' @ newline @ tab @ ''disassemble -c'') [])
         (\<lambda>_. ret 0))
       else bnd (deref p1) (\<lambda>w.
         if strncmp_eq w ''-c'' 3
         then read_registers os (\<lambda>regs. explicit_range c w (regs rip_cell) (regs rip_cell + 15)
                (\<lambda>a b. show_range os tty dl False w a b))
         else explicit_range c w 0 0 (\<lambda>a b. show_range os tty dl True w a b))))"

end
