(* ===== verification/Memory_Commands.thy ===== *)
theory Memory_Commands
  imports Breakpoint_Commands Disassembly
begin

text \<open>
  The commands of \<open>src/command_handler.c\<close> that read and write the memory of the process,
  and \<open>handle_command\<close> of \<open>src/command_registry.c\<close>, which finds the handler of a
  command.
\<close>

section \<open>Reading memory\<close>

text \<open>The eight bytes of a word, the highest first.\<close>

definition word_text :: "64 word \<Rightarrow> string option" where
  "word_text d = snprintf 24 ''%02x %02x %02x %02x %02x %02x %02x %02x''
     (map (\<lambda>j. FInt (uint (byte_of d j))) [7, 6, 5, 4, 3, 2, 1, 0])"

definition memory_cols :: "table_col list" where
  "memory_cols = [\<lparr>tc_header = ''Address'', tc_width = 18, tc_format = TABLE_COL_HEX_LONG\<rparr>,
                  \<lparr>tc_header = ''Value'', tc_width = 40, tc_format = TABLE_COL_STR\<rparr>]"

fun memory_rows :: "64 word list \<Rightarrow> addr \<Rightarrow> table_row list option" where
  "memory_rows [] addr = Some []"
| "memory_rows (d # ds) addr =
     (case (word_text d, memory_rows ds (addr + 8)) of
        (Some t, Some rows) \<Rightarrow> Some ([CellHexLong addr, CellStr t] # rows)
      | _ \<Rightarrow> None)"

definition print_memory_table :: "'w os \<Rightarrow> 'w tty \<Rightarrow> 64 word list \<Rightarrow> addr \<Rightarrow> ('w, 'm, unit) tprog" where
  "print_memory_table os tty ds addr =
     bnd (alloc_blocks os (concat (map (\<lambda>_. [24, 16, 16]) ds))) (\<lambda>_.
       case memory_rows ds addr of
         None \<Rightarrow> undefined_behaviour
       | Some rows \<Rightarrow> print_table tty [] memory_cols rows (int (length ds)))"

text \<open>
  The loop: \<open>num_rows\<close> words from the address on, each printed at once unless they go to a
  table. \<open>allocated\<close>: the array for the words is there. \<open>None\<close>: an error was
  printed.
\<close>

fun read_words :: "'w os \<Rightarrow> bool \<Rightarrow> bool \<Rightarrow> nat \<Rightarrow> addr \<Rightarrow> ('w, 'm, 64 word list option) tprog" where
  "read_words os p_table allocated 0 addr = ret (Some [])"
| "read_words os p_table allocated (Suc n) addr =
     bnd (sylvan_get_memory os addr) (\<lambda>(code, d).
       case d of
         None \<Rightarrow> bnd sylvan_get_last_error (\<lambda>msg.
           bnd (sylvan_print_error ''Error at 0x%016lx: %s'' [FLong addr, FStr msg]) (\<lambda>_. ret None))
       | Some x \<Rightarrow>
           if \<not> allocated then undefined_behaviour
           else bnd (if p_table then ret ()
                     else printf (''%s0x%016lx:%s     %s0x%016lx%s'' @ newline)
                       [FStr BLUE, FLong addr, FStr RESET, FStr GREEN, FLong x, FStr RESET]) (\<lambda>_.
             bnd (read_words os p_table allocated n (addr + 8)) (\<lambda>rest. ret (map_option (Cons x) rest))))"

text \<open>The number of rows: \<open>None\<close> after an error.\<close>

definition read_row_count :: "word_ptr \<Rightarrow> ('w, 'm, nat option) tprog" where
  "read_row_count p =
     (if p = WNull then ret (Some 1)
      else bnd (deref p) (\<lambda>t. bnd (c_strtol 10 t) (\<lambda>(v, rest). bnd (gets errno) (\<lambda>e.
        let num_rows = to_int v in
        if e = ERANGE \<or> num_rows \<le> 0 \<or> rest \<noteq> []
        then bnd (sylvan_print_error ''Invalid lines number'' []) (\<lambda>_. ret None)
        else if num_rows > 16
        then bnd (printf (''%sLimiting the lines to 16%s'' @ newline) [FStr YELLOW, FStr RESET]) (\<lambda>_. ret (Some 16))
        else ret (Some (nat num_rows))))))"

text \<open>The address and the words after it.\<close>

definition read_memory_at :: "'w os \<Rightarrow> 'w tty \<Rightarrow> bool \<Rightarrow> nat \<Rightarrow> string \<Rightarrow> ('w, 'm, int) tprog" where
  "read_memory_at os tty p_table num_rows w =
     (if strncmp_eq w ''0x'' 3
      then bnd (fail ''Invalid Address'') (\<lambda>_. bnd (sylvan_print_instruction ''Ex: memory_read 0x1234'' []) (\<lambda>_. ret 0))
      else bnd (suffix w 2) (\<lambda>t. bnd (c_strtol 16 t) (\<lambda>(n, rest). bnd (gets errno) (\<lambda>e.
        let addr = (word_of_int n :: addr) in
        if e = ERANGE \<or> addr = 0 \<or> rest \<noteq> []
        then bnd (sylvan_print_error ''Invalid address: %s'' [FStr w]) (\<lambda>_. ret 0)
        else bnd (sys (os_malloc os (num_rows * 8))) (\<lambda>r.
          bnd (read_words os p_table (r = Inr ()) num_rows addr) (\<lambda>ds.
          case ds of
            None \<Rightarrow> ret 0
          | Some xs \<Rightarrow> bnd (if p_table then print_memory_table os tty xs addr else ret ()) (\<lambda>_. ret 0)))))))"

definition handle_read_memory :: "'w os \<Rightarrow> 'w tty \<Rightarrow> argv \<Rightarrow> ('w, 'm, int) tprog" where
  "handle_read_memory os tty c =
     bnd (set_errno 0) (\<lambda>_. bnd (arg c 1) (\<lambda>p1.
     bnd (if p1 = WNull then ret False else bnd (deref p1) (\<lambda>t. ret (strncmp_eq t ''-t'' 2))) (\<lambda>p_table.
     bnd (arg c 2) (\<lambda>p2. bnd (if p_table then arg c 3 else ret p2) (\<lambda>row_str.
     let addr_str = (if p_table then p2 else p1) in
     if addr_str = WNull then fail ''Invalid: No address provided''
     else bnd (read_row_count row_str) (\<lambda>rows.
       case rows of
         None \<Rightarrow> ret 0
       | Some num_rows \<Rightarrow> bnd (deref addr_str) (\<lambda>w. read_memory_at os tty p_table num_rows w)))))))"


section \<open>Writing memory\<close>

datatype values_result = ValuesOk "byte list" | TooManyBytes | BadString | BadValue string | BufferOverrun

definition VALUES_SIZE :: nat where "VALUES_SIZE = 256"

text \<open>The characters up to the closing quote, which are stored without a check of the size.\<close>

fun quoted_bytes :: "string \<Rightarrow> byte list \<Rightarrow> values_result" where
  "quoted_bytes [] acc = BadString"
| "quoted_bytes (x # xs) acc =
     (if x = CHR 0x22 then ValuesOk acc
      else if VALUES_SIZE \<le> length acc then BufferOverrun
      else quoted_bytes xs (acc @ [of_char x]))"

definition string_value :: "string \<Rightarrow> byte list \<Rightarrow> values_result" where
  "string_value w acc =
     (if (of_nat (length acc) + (of_nat (length w) - 2) :: 64 word) > 256 then TooManyBytes
      else quoted_bytes (tl w) acc)"

definition number_value :: "string \<Rightarrow> byte list \<Rightarrow> values_result" where
  "number_value w acc =
     (let hex = (take 2 w = ''0x''); t = (if hex then drop 2 w else w) in
      case strtoul (if hex then 16 else 10) t of (v, rest, er) \<Rightarrow>
        if er \<or> v > 0xFF \<or> rest \<noteq> [] then BadValue t else ValuesOk (acc @ [word_of_int v]))"

text \<open>The loop over the words; it stops where the buffer is full.\<close>

fun parse_values :: "string list \<Rightarrow> byte list \<Rightarrow> values_result" where
  "parse_values [] acc = ValuesOk acc"
| "parse_values (w # ws) acc =
     (if VALUES_SIZE \<le> length acc then ValuesOk acc
      else case (if take 1 w = [CHR 0x22] then string_value w acc else number_value w acc) of
             ValuesOk acc' \<Rightarrow> parse_values ws acc'
           | r \<Rightarrow> r)"

definition value_hint :: "('w, 'm, unit) tprog" where
  "value_hint = printf (tab @ ''%s<value>: hex (e.g., 0x12, ff), decimal (e.g., 255), or string (e.g., '' @
     [CHR 0x22] @ ''hello'' @ [CHR 0x22] @ '' without space in betwen)%s'' @ newline) [FStr YELLOW, FStr RESET]"

text \<open>The words from the third on.\<close>

definition write_values :: "'w os \<Rightarrow> addr \<Rightarrow> string list \<Rightarrow> ('w, 'm, int) tprog" where
  "write_values os addr ws =
     (case parse_values ws [] of
        BufferOverrun \<Rightarrow> undefined_behaviour
      | TooManyBytes \<Rightarrow> fail ''Too many bytes (max 256)''
      | BadString \<Rightarrow> bnd (fail ''Enter valid values'') (\<lambda>_. bnd value_hint (\<lambda>_. ret 0))
      | BadValue t \<Rightarrow> bnd (sylvan_print_error ''Invalid value: %s'' [FStr t]) (\<lambda>_. ret 0)
      | ValuesOk bytes \<Rightarrow> attempt (sylvan_set_memory os addr (Some bytes))
          (bnd (sylvan_print_ok ''Wrote at address %#lx'' [FLong addr]) (\<lambda>_. ret 0)))"

text \<open>\<open>errno\<close> is not tracked through the values.\<close>

definition handle_write_memory :: "'w os \<Rightarrow> argv \<Rightarrow> ('w, 'm, int) tprog" where
  "handle_write_memory os c =
     bnd (arg c 1) (\<lambda>p1. bnd (if p1 = WNull then ret WNull else arg c 2) (\<lambda>p2.
     bnd (if p1 = WNull \<or> p2 = WNull then ret True else bnd (deref p1) (\<lambda>t. ret (strncmp_eq t ''0x'' 3))) (\<lambda>bad.
     if bad
     then bnd (fail ''Enter Valid Address'') (\<lambda>_.
          bnd (sylvan_print_instruction (tab @ ''memory_write <addr(in hex eg: 0xabcd)> <bytes> ...'') []) (\<lambda>_.
          bnd value_hint (\<lambda>_. ret 0)))
     else bnd (set_errno 0) (\<lambda>_. bnd (deref p1) (\<lambda>w. bnd (suffix w 2) (\<lambda>t. bnd (c_strtol 16 t) (\<lambda>(n, rest).
       bnd (gets errno) (\<lambda>e.
       let addr = (word_of_int n :: addr) in
       if e = ERANGE \<or> addr = 0 \<or> rest \<noteq> []
       then bnd (deref p2) (\<lambda>x. bnd (sylvan_print_error ''Invalid address: %s'' [FStr x]) (\<lambda>_. ret 0))
       else write_values os addr (drop 2 (argv_words c))))))))))"


section \<open>Dispatch\<close>

definition run_handler ::
  "'w os \<Rightarrow> 'w tty \<Rightarrow> 'w dislib \<Rightarrow> (nat \<Rightarrow> byte) \<Rightarrow> command_handler \<Rightarrow> argv \<Rightarrow> ('w, 'm, int) uprog" where
  "run_handler os tty dl heap h c =
     (case h of
        Handle_help \<Rightarrow> handle_help c
      | Handle_exit \<Rightarrow> handle_exit c
      | Handle_continue \<Rightarrow> handle_continue os c
      | Handle_breakpoint_set \<Rightarrow> handle_breakpoint_set os c
      | Handle_info \<Rightarrow> handle_info c
      | Handle_add_inferior \<Rightarrow> handle_add_inferior os c
      | Handle_disassemble \<Rightarrow> handle_disassemble os tty dl c
      | Handle_run \<Rightarrow> handle_run os c
      | Handle_step_inst \<Rightarrow> handle_step_inst os c
      | Handle_file \<Rightarrow> handle_file os c
      | Handle_attach \<Rightarrow> handle_attach os c
      | Handle_set \<Rightarrow> handle_set c
      | Handle_disable_breakpoint \<Rightarrow> handle_disable_breakpoint os c
      | Handle_enable_breakpoint \<Rightarrow> handle_enable_breakpoint os c
      | Handle_delete_breakpoint \<Rightarrow> handle_delete_breakpoint os c
      | Handle_read_memory \<Rightarrow> handle_read_memory os tty c
      | Handle_write_memory \<Rightarrow> handle_write_memory os c
      | Handle_info_registers \<Rightarrow> handle_info_registers os tty c
      | Handle_info_args \<Rightarrow> handle_info_args c
      | Handle_info_auxv \<Rightarrow> handle_info_auxv os tty heap c
      | Handle_info_breakpoints \<Rightarrow> handle_info_breakpoints os tty c
      | Handle_info_inferiors \<Rightarrow> handle_info_inferiors c
      | Handle_info_alias \<Rightarrow> handle_info_alias c
      | Handle_set_args \<Rightarrow> handle_set_args os c
      | Handle_set_reg \<Rightarrow> handle_set_reg os c
      | Handle_set_alias \<Rightarrow> handle_set_alias os c)"

definition handle_command ::
  "'w os \<Rightarrow> 'w tty \<Rightarrow> 'w dislib \<Rightarrow> (nat \<Rightarrow> byte) \<Rightarrow> argv \<Rightarrow> ('w, 'm, int) uprog" where
  "handle_command os tty dl heap c = bnd (arg c 0) (\<lambda>p.
     if p = WNull then bnd (put Stderr (''Error: Invalid command'' @ newline)) (\<lambda>_. ret 0)
     else bnd (deref p) (\<lambda>name. bnd (lookup_command (Some name)) (\<lambda>cmd.
       case cmd of
         Some x \<Rightarrow> run_handler os tty dl heap (cmd_handler x) c
       | None \<Rightarrow> bnd (printf (''Unknown command: %s'' @ newline) [FStr name]) (\<lambda>_.
           bnd (put Stdout (''Type '' @ [CHR 0x27] @ ''help'' @ [CHR 0x27] @ '' for available commands'' @ newline)) (\<lambda>_. ret 0)))))"

end
