(* ===== verification/Shell.thy ===== *)
theory Shell
  imports Memory_Commands
begin

text \<open>
  \<open>src/user_interface.c\<close> and \<open>src/debugger_startup.c\<close>: reading a line and splitting it
  into words, the loop on commands, and the start of the program from its arguments.
  \<open>readline\<close> answers the line, or nothing at the end of the input, and whether the
  interrupt flag was set meanwhile; \<open>getopt_long\<close> answers the options with their
  arguments and the remaining words.
\<close>

section \<open>Reading a command\<close>

record 'w shell = "'w ui" +
  history :: "string list"

type_synonym ('w, 'm, 'a) sprog = "(('w, 'm) shell_scheme, 'a) prog"

record 'w lines =
  ln_readline :: "'w \<Rightarrow> (string option \<times> bool) \<times> 'w"
  ln_junk :: "'w \<Rightarrow> nat \<Rightarrow> bool"
  ln_signal :: "'w \<Rightarrow> (int + unit) \<times> 'w"

definition INITIAL_ARG_COUNT :: nat where "INITIAL_ARG_COUNT = 10"

definition perror :: "'w os \<Rightarrow> string \<Rightarrow> ('w, 'm, unit) tprog" where
  "perror os msg = bnd (gets errno) (\<lambda>e. put Stderr (msg @ '': '' @ os_strerror os e @ newline))"

text \<open>The words are copied one by one; the array doubles before it is full.\<close>

fun collect_args :: "'w os \<Rightarrow> string list \<Rightarrow> string list \<Rightarrow> nat \<Rightarrow> ('w, 'm, (string list \<times> nat) option) tprog" where
  "collect_args os [] acc n = ret (Some (acc, n))"
| "collect_args os (t # ts) acc n =
     bnd (sys (os_malloc os (length t + 1))) (\<lambda>r.
       case r of
         Inl _ \<Rightarrow> bnd (perror os ''Error: strdup failed'') (\<lambda>_. ret None)
       | Inr _ \<Rightarrow>
           if Suc (length acc) \<ge> n - 1
           then bnd (sys (os_malloc os (2 * n * 8))) (\<lambda>r.
             case r of
               Inl _ \<Rightarrow> bnd (perror os ''Error: realloc failed'') (\<lambda>_. ret None)
             | Inr _ \<Rightarrow> collect_args os ts (acc @ [t]) (2 * n))
           else collect_args os ts (acc @ [t]) n)"

text \<open>An empty line stands for the last one of the history.\<close>

definition recall_line :: "'w os \<Rightarrow> string \<Rightarrow> ('w, 'm, string) sprog" where
  "recall_line os input =
     (if input \<noteq> [] then bnd (modify (\<lambda>s. s\<lparr>history := history s @ [input]\<rparr>)) (\<lambda>_. ret input)
      else bnd (gets history) (\<lambda>h.
        if h \<noteq> [] \<and> last h \<noteq> []
        then bnd (sys (os_malloc os (length (last h) + 1))) (\<lambda>r.
          case r of Inl _ \<Rightarrow> undefined_behaviour | Inr _ \<Rightarrow> ret (last h))
        else ret input))"

text \<open>\<open>None\<close>: the null pointer. The end of the input is dereferenced.\<close>

definition get_command :: "'w os \<Rightarrow> 'w lines \<Rightarrow> ('w, 'm, argv option) sprog" where
  "get_command os inp =
     bnd (extern (ln_readline inp)) (\<lambda>(input, interrupted).
       if interrupted then ret None
       else case input of
         None \<Rightarrow> undefined_behaviour
       | Some line \<Rightarrow>
           bnd (recall_line os line) (\<lambda>line.
           bnd (sys (os_malloc os (INITIAL_ARG_COUNT * 8))) (\<lambda>r.
             case r of
               Inl _ \<Rightarrow> bnd (perror os ''Error: malloc failed for args'') (\<lambda>_. ret None)
             | Inr _ \<Rightarrow> bnd (collect_args os (strtok_all (CHR '' '') line) [] INITIAL_ARG_COUNT) (\<lambda>res.
                 case res of
                   None \<Rightarrow> ret None
                 | Some (ws, n) \<Rightarrow> bnd (gets (\<lambda>s. ln_junk inp (world s))) (\<lambda>junk.
                     ret (Some \<lparr>argv_words = ws, argv_size = n, argv_junk = junk\<rparr>))))))"


section \<open>The loop\<close>

text \<open>The characters of the banner in UTF-8.\<close>

definition box_char :: "nat \<Rightarrow> string" where
  "box_char n = [CHR 0xE2, CHR 0x95, char_of n]"

definition print_heading :: "'w tty \<Rightarrow> ('w, 'm, unit) tprog" where
  "print_heading tty =
     bnd clear_screen (\<lambda>_.
     bnd (gets (\<lambda>s. ts_width (get_terminal_size tty (world s)))) (\<lambda>width.
       let title = ''SYLVAN DEBUGGER v1.0''; title_len = int (length title);
           left_pad = sgn (width - title_len) * (\<bar>width - title_len\<bar> div 2); right_pad = width - title_len - left_pad;
           bars = concat (replicate (nat (width - 2)) (box_char 0x90)) in
       bnd (put Stdout (newline @ CYAN @ box_char 0x94 @ bars @ box_char 0x97 @ RESET @ newline)) (\<lambda>_.
       bnd (printf (''%s%s%*s%s%*s%s'' @ newline)
         [FStr BOLD, FStr MAGENTA, FInt left_pad, FStr [], FStr title, FInt right_pad, FStr [], FStr RESET]) (\<lambda>_.
       put Stdout (CYAN @ box_char 0x9A @ bars @ box_char 0x9D @ RESET @ newline @ newline)))))"

text \<open>One turn of the loop: whether it ends.\<close>

definition shell_turn :: "'w os \<Rightarrow> 'w tty \<Rightarrow> 'w dislib \<Rightarrow> (nat \<Rightarrow> byte) \<Rightarrow> 'w lines \<Rightarrow> ('w, 'm, bool) sprog" where
  "shell_turn os tty dl heap inp =
     bnd (get_command os inp) (\<lambda>line.
       case line of
         None \<Rightarrow> ret False
       | Some c \<Rightarrow>
           if argv_words c = [] \<or> argv_words c ! 0 = [] then ret False
           else bnd (handle_command os tty dl heap c) (\<lambda>r. ret (r \<noteq> 0)))"

text \<open>\<open>while (1)\<close>, for as many turns as the fuel allows.\<close>

fun shell_loop :: "'w os \<Rightarrow> 'w tty \<Rightarrow> 'w dislib \<Rightarrow> (nat \<Rightarrow> byte) \<Rightarrow> 'w lines \<Rightarrow> nat \<Rightarrow> ('w, 'm, unit) sprog" where
  "shell_loop os tty dl heap inp 0 = (\<lambda>s. Diverge)"
| "shell_loop os tty dl heap inp (Suc fuel) =
     bnd (shell_turn os tty dl heap inp) (\<lambda>ended. if ended then ret () else shell_loop os tty dl heap inp fuel)"

definition interface_loop :: "'w os \<Rightarrow> 'w tty \<Rightarrow> 'w dislib \<Rightarrow> (nat \<Rightarrow> byte) \<Rightarrow> 'w lines \<Rightarrow> nat \<Rightarrow> ('w, 'm, unit) sprog" where
  "interface_loop os tty dl heap inp fuel =
     bnd (sys (ln_signal inp)) (\<lambda>r.
       case r of
         Inl _ \<Rightarrow> perror os ''Failed to set SIGINT handler''
       | Inr _ \<Rightarrow>
           bnd (print_heading tty) (\<lambda>_.
           bnd init_commands (\<lambda>_.
           bnd (shell_loop os tty dl heap inp fuel) (\<lambda>_.
           bnd free_alias_table (\<lambda>_.
             modify (\<lambda>s. s\<lparr>history := []\<rparr>))))))"


section \<open>Start\<close>

record cmd_args =
  file_args :: "string option"
  filepath :: "string option"
  is_attached :: bool
  arg_pid :: pid

definition cmd_args_init :: cmd_args where
  "cmd_args_init = \<lparr>file_args = None, filepath = None, is_attached = False, arg_pid = 0\<rparr>"

definition EXIT_SUCCESS :: int where "EXIT_SUCCESS = 0"
definition EXIT_FAILURE :: int where "EXIT_FAILURE = 1"

definition print_help :: "('w, 'm, unit) tprog" where
  "print_help = put Stdout (''Usage: sylvan [options]'' @ newline @
     ''  -h, --help                Show this help message'' @ newline @
     ''  -v, --version             Show version information'' @ newline @
     ''  -a, --args   <args>       Pass <args> as arguments to the sylvan_inferior'' @ newline @
     ''  -p, --attach <pid>        Attach to a process with process id <pid>'' @ newline)"

definition print_version :: "('w, 'm, unit) tprog" where
  "print_version = put Stdout (''Version 0.1.0'' @ newline)"

definition print_invalid_opt :: "('w, 'm, unit) tprog" where
  "print_invalid_opt = put Stderr (''Use '' @ [CHR 0x27] @ ''sylvan -h or --help'' @ [CHR 0x27] @ '' to print a list of options.'' @ newline)"

text \<open>The loop over the options: \<open>Inl\<close> the exit code, or the settings.\<close>

fun parse_options :: "(char \<times> string) list \<Rightarrow> cmd_args \<Rightarrow> ('w, 'm, int + cmd_args) tprog" where
  "parse_options [] a = ret (Inr a)"
| "parse_options ((opt, optarg) # rest) a =
     (if opt = CHR ''h'' then bnd print_help (\<lambda>_. ret (Inl EXIT_SUCCESS))
      else if opt = CHR ''v'' then bnd print_version (\<lambda>_. ret (Inl EXIT_SUCCESS))
      else if opt = CHR ''a'' then parse_options rest (a\<lparr>file_args := Some optarg\<rparr>)
      else if opt = CHR ''p''
      then bnd (c_strtol 10 optarg) (\<lambda>(n, end').
        if end' \<noteq> []
        then bnd (fprintf Stderr (''Invalid process id: %s'' @ newline) [FStr optarg]) (\<lambda>_. ret (Inl EXIT_FAILURE))
        else parse_options rest (a\<lparr>is_attached := True, arg_pid := to_int n\<rparr>))
      else if opt = CHR ''?'' then bnd print_invalid_opt (\<lambda>_. ret (Inl EXIT_FAILURE))
      else ret (Inl EXIT_FAILURE))"

text \<open>The remaining words: a separator is skipped, the first one is the file.\<close>

definition parse_operands :: "string list \<Rightarrow> cmd_args \<Rightarrow> ('w, 'm, cmd_args) tprog" where
  "parse_operands ws a =
     (let ws = (if ws \<noteq> [] \<and> hd ws = ''--'' then tl ws else ws);
          a = (if ws \<noteq> [] then a\<lparr>filepath := Some (hd ws)\<rparr> else a) in
      if tl ws \<noteq> []
      then bnd (put Stderr (''Ignoring excess options: '' @ concat (map (\<lambda>w. w @ '' '') (tl ws)) @ newline)) (\<lambda>_. ret a)
      else ret a)"

definition parse_args :: "(char \<times> string) list \<times> string list \<Rightarrow> cmd_args \<Rightarrow> ('w, 'm, int + cmd_args) tprog" where
  "parse_args parsed a =
     bnd (parse_options (fst parsed) a) (\<lambda>r.
       case r of
         Inl code \<Rightarrow> ret (Inl code)
       | Inr a \<Rightarrow> bnd (parse_operands (snd parsed) a) (\<lambda>a. ret (Inr a)))"

text \<open>The message is the format here too.\<close>

definition error :: "string \<Rightarrow> ('w, 'm, unit) tprog" where
  "error msg = bnd (fprintf Stderr msg []) (\<lambda>_. put Stderr newline)"

definition print_last :: "('w, 'm, unit) tprog" where
  "print_last = bnd sylvan_get_last_error error"

text \<open>A setting that was given is passed on; failing is reported.\<close>

definition apply_setting :: "'a option \<Rightarrow> ('a \<Rightarrow> ('w, 'm, sylvan_code) tprog) \<Rightarrow> ('w, 'm, unit) tprog" where
  "apply_setting x f =
     (case x of
        None \<Rightarrow> ret ()
      | Some v \<Rightarrow> bnd (f v) (\<lambda>code. if code \<noteq> SYLVANC_OK then print_last else ret ()))"

definition debugger_main ::
  "'w os \<Rightarrow> 'w tty \<Rightarrow> 'w dislib \<Rightarrow> (nat \<Rightarrow> byte) \<Rightarrow> 'w lines \<Rightarrow> nat \<Rightarrow> (char \<times> string) list \<times> string list \<Rightarrow> ('w, 'm, int) sprog" where
  "debugger_main os tty dl heap inp fuel parsed =
     bnd (parse_args parsed cmd_args_init) (\<lambda>r.
       case r of
         Inl code \<Rightarrow> ret code
       | Inr a \<Rightarrow>
           bnd (modify (\<lambda>s. s\<lparr>infp := InfNull\<rparr>)) (\<lambda>_.
           bnd (sylvan_inferior_create os) (\<lambda>code.
           if code \<noteq> SYLVANC_OK then bnd print_last (\<lambda>_. ret EXIT_FAILURE)
           else
             bnd (apply_setting (filepath a) (\<lambda>f. sylvan_set_filepath os (Some f))) (\<lambda>_.
             bnd (apply_setting (file_args a) (\<lambda>x. sylvan_set_args os (Some x))) (\<lambda>_.
             bnd (apply_setting (if is_attached a then Some (arg_pid a) else None) (sylvan_attach os)) (\<lambda>_.
             bnd (interface_loop os tty dl heap inp fuel) (\<lambda>_.
             bnd (sylvan_inferior_destroy os) (\<lambda>code.
               if code \<noteq> SYLVANC_OK then bnd print_last (\<lambda>_. ret EXIT_FAILURE)
               else ret EXIT_SUCCESS))))))))"

end
