(* ===== verification/Console_Simulation.thy ===== *)
theory Console_Simulation
  imports Simulation Shell Library_Properties
begin

text \<open>
  The small machine of \<open>Simulation\<close> with a terminal, a keyboard and a disassembler: a
  terminal without size whose environment is a parameter, an input that is at its end,
  a decoder of one-byte instructions, and a script of lines to read.
\<close>

definition sim_tty :: "(string \<Rightarrow> string option) \<Rightarrow> 'w tty" where
  "sim_tty env = \<lparr>tty_winsize = (\<lambda>f w. None), tty_getenv = (\<lambda>v w. env v), tty_getchar = (\<lambda>w. (EOF, w)),
     tty_open = (\<lambda>p w. (Inl ENOENT, w)), tty_read = (\<lambda>n w. (Inr [], w))\<rparr>"

definition sim_decode :: "addr \<Rightarrow> byte list \<Rightarrow> (nat \<times> string) option" where
  "sim_decode a bs = (case bs of [] \<Rightarrow> None | b # _ \<Rightarrow> Some (1, if b = 0xC3 then ''ret'' else ''nop''))"

definition sim_dislib :: "byte list \<Rightarrow> 'w dislib" where
  "sim_dislib file = \<lparr>dl_decode = sim_decode, dl_errmsg = ''error'', dl_fopen = (\<lambda>p w. (Inr file, w))\<rparr>"

definition sim_lines :: "string \<Rightarrow> 'w lines" where
  "sim_lines line = \<lparr>ln_readline = (\<lambda>w. ((Some line, False), w)), ln_junk = (\<lambda>w n. False), ln_signal = (\<lambda>w. (Inr (), w))\<rparr>"

text \<open>A console that has printed nothing, in a shell with the static tables.\<close>

definition sim_shell :: "inferior \<Rightarrow> sim shell" where
  "sim_shell i = \<lparr>infp = InfLive i, sylvan_inferior_idx = 1, sylvan_inferior_count = 1,
     sylvan_last_error = no_error, errno = 0, world = sim_world, con_out = [],
     command_hash = static_commands, alias_table = static_aliases, history = []\<rparr>"

text \<open>A command without anything behind its words.\<close>

definition sim_argv :: "string list \<Rightarrow> argv" where
  "sim_argv ws = \<lparr>argv_words = ws, argv_size = 10, argv_junk = (\<lambda>_. False)\<rparr>"

lemma sim_shell_simps [simp]:
  "infp (sim_shell i) = InfLive i" "world (sim_shell i) = sim_world" "errno (sim_shell i) = 0"
  "con_out (sim_shell i) = []" "command_hash (sim_shell i) = static_commands"
  "alias_table (sim_shell i) = static_aliases" "history (sim_shell i) = []"
  by (simp_all add: sim_shell_def)

lemma sim_argv_simps [simp]:
  "argv_words (sim_argv ws) = ws" "argv_size (sim_argv ws) = 10" "argv_junk (sim_argv ws) n = False"
  by (simp_all add: sim_argv_def)

lemma sim_tty_ends: "tty_ends_lines (sim_tty env)"
  unfolding tty_ends_lines_def by (auto simp: sim_tty_def intro: exI [of _ 0])

lemma sim_height: "ts_height (get_terminal_size (sim_tty env) w) = env_size (env ''LINES'') 24"
  by (simp add: get_terminal_size_def sim_tty_def)

lemma malloc_failedD: "os_malloc os k w = (Inl e, w') \<Longrightarrow> \<not> malloc_succeeds os"
  by (metis malloc_succeedsE prod.inject sum.distinct(1))

end
