(* ===== verification/Command_Properties.thy ===== *)
theory Command_Properties
  imports Console_Simulation
begin

text \<open>
  Properties of the commands that read and write registers and memory, from the words
  of the user to the process.
\<close>

section \<open>Numbers as words\<close>

definition hex_word :: "nat \<Rightarrow> string" where
  "hex_word n = ''0x'' @ digits 16 n"

lemma digits_head: "2 \<le> b \<Longrightarrow> b \<le> 36 \<Longrightarrow> \<exists>c cs. digits b n = c # cs \<and> base_digit b c"
  using digits_base_digit [of b n] by (cases "digits b n") auto

lemma digits_no_NUL: "2 \<le> b \<Longrightarrow> b \<le> 36 \<Longrightarrow> CHR 0x00 \<notin> set (digits b n)"
  using digits_base_digit [of b n] by (auto simp: base_digit_def digit_val_def)

lemma hex_word_simps [simp]:
  "2 \<le> length (hex_word n)" "Suc 0 \<le> length (hex_word n)" "drop 2 (hex_word n) = digits 16 n" "hex_word n ! 0 = CHR ''0''"
  "Suc 0 < length (hex_word n)" "hex_word n ! Suc 0 = CHR ''x''" "take 2 (hex_word n) = ''0x''" "hex_word n \<noteq> []"
  by (simp_all add: hex_word_def)

lemma hex_word_not_0x: "\<not> strncmp_eq (hex_word n) ''0x'' 3"
  using digits_no_NUL [of 16 n] by (auto simp: strncmp_eq_def hex_word_def take_Cons' split: if_splits)
    (cases "digits 16 n", auto)

lemma hex_word_not_flag: "\<not> strncmp_eq (hex_word n) ''-t'' 2"
  by (simp add: strncmp_eq_def hex_word_def)

lemma strtol_hex: "int n \<le> LONG_MAX \<Longrightarrow> strtol 16 (digits 16 n) = (int n, [], False)"
  by (simp add: strtol_digits)

lemma strtoul_digits: "2 \<le> b \<Longrightarrow> b \<le> 16 \<Longrightarrow> int n \<le> ULONG_MAX \<Longrightarrow> strtoul b (digits b n) = (int n, [], False)"
  by (simp add: strtoul_def scan_number_digits)


lemma ERANGE_nonzero [simp]: "ERANGE \<noteq> 0" "0 \<noteq> ERANGE"
  by (simp_all add: ERANGE_def)


section \<open>Registers\<close>

text \<open>
  A process that is stopped, whose registers can be read and written: \<open>regs p w\<close> are
  the registers of process \<open>p\<close>.
\<close>

definition register_access :: "'w os \<Rightarrow> (pid \<Rightarrow> 'w \<Rightarrow> user_regs) \<Rightarrow> bool" where
  "register_access os regs \<longleftrightarrow>
     (\<forall>p w. \<exists>w'. os_getregs os p w = (Inr (regs p w), w') \<and> regs p w' = regs p w) \<and>
     (\<forall>p r w. \<exists>w'. os_setregs os p r w = (Inr (), w') \<and> regs p w' = r) \<and>
     (\<forall>n p w. \<exists>w'. os_malloc os n w = (Inr (), w') \<and> regs p w' = regs p w) \<and>
     (\<forall>p w. \<exists>st w'. os_waitpid os p True w = (Inr (0, st), w') \<and> regs p w' = regs p w)"

lemma setregsE:
  assumes "register_access os regs"
  obtains w' where "os_setregs os p r w = (Inr (), w')" "regs p w' = r"
  using assms unfolding register_access_def by blast

lemma mallocE:
  assumes "register_access os regs"
  obtains w' where "os_malloc os n w = (Inr (), w')" "regs p w' = regs p w"
  using assms unfolding register_access_def by blast

lemma stopped_status:
  assumes acc: "register_access os regs" and s: "infp s = InfLive i" "0 < inf_pid i"
  shows "wp (sylvan_update_inf_status os False) (\<lambda>c s'. c = SYLVANC_OK \<and>
    (\<exists>w. s' = s\<lparr>world := w\<rparr> \<and> regs (inf_pid i) w = regs (inf_pid i) (world s))) s"
proof -
  obtain st w where w: "os_waitpid os (inf_pid i) True (world s) = (Inr (0, st), w)"
      "regs (inf_pid i) w = regs (inf_pid i) (world s)"
    using acc unfolding register_access_def by blast
  then have "wp (sys_retry (os_waitpid os (inf_pid i) True)) Q s = Q (Inr (0, st)) (s\<lparr>world := w\<rparr>)" for Q
    by (subst wp_sys_retry_once) (simp_all add: wp_sys)
  with w s show ?thesis by (auto simp: sylvan_update_inf_status_def wp_simps)
qed

lemma get_regs_stopped:
  assumes acc: "register_access os regs" and s: "infp s = InfLive i" "0 < inf_pid i" "isactive i"
  shows "wp (sylvan_get_regs os) (\<lambda>(c, r) s'. c = SYLVANC_OK \<and> r = Some (regs (inf_pid i) (world s)) \<and>
    (\<exists>w. s' = s\<lparr>world := w\<rparr> \<and> regs (inf_pid i) w = regs (inf_pid i) (world s))) s"
proof -
  have "wp (bnd get_inf (\<lambda>i.
         if \<not> isactive i
         then bnd (sylvan_set_message SYLVANC_INVALID_STATE
           ''Cannot get registers: process is not running or stopped'' []) (\<lambda>c. ret (c, None))
         else bnd (sys (os_getregs os (inf_pid i))) (\<lambda>r.
           case r of
             Inl _ \<Rightarrow> bnd (sylvan_set_errno_msg os SYLVANC_PTRACE_GETREGS_FAILED ''ptrace get regs'' []) (\<lambda>c. ret (c, None))
           | Inr regs \<Rightarrow> ret (SYLVANC_OK, Some regs))))
     (\<lambda>(c, r) s'. c = SYLVANC_OK \<and> r = Some (regs (inf_pid i) (world s)) \<and>
        (\<exists>w. s' = s\<lparr>world := w\<rparr> \<and> regs (inf_pid i) w = regs (inf_pid i) (world s))) (s\<lparr>world := v\<rparr>)"
    if "regs (inf_pid i) v = regs (inf_pid i) (world s)" for v
  proof -
    obtain w' where "os_getregs os (inf_pid i) v = (Inr (regs (inf_pid i) v), w')" "regs (inf_pid i) w' = regs (inf_pid i) v"
      using acc unfolding register_access_def by blast
    with that s show ?thesis by (auto simp: wp_simps)
  qed
  note k = this
  show ?thesis
    unfolding sylvan_get_regs_def wp_bnd wp_is_null
    using s(1) k by (auto simp: wp_bnd intro!: wp_mono [OF stopped_status [OF acc s(1,2)]])
qed

lemma set_regs_stopped:
  assumes acc: "register_access os regs" and s: "infp s = InfLive i" "0 < inf_pid i" "isactive i"
  shows "wp (sylvan_set_regs os r) (\<lambda>c s'. c = SYLVANC_OK \<and>
    (\<exists>w. s' = s\<lparr>world := w\<rparr> \<and> regs (inf_pid i) w = r)) s"
proof -
  have "wp (bnd get_inf (\<lambda>i.
       if \<not> isactive i
       then sylvan_set_message SYLVANC_INVALID_STATE ''Cannot set registers: process is not running or stopped'' []
       else bnd (sys (os_setregs os (inf_pid i) r)) (\<lambda>r.
         case r of
           Inl _ \<Rightarrow> sylvan_set_errno_msg os SYLVANC_PTRACE_SETREGS_FAILED ''ptrace set regs'' []
         | Inr _ \<Rightarrow> ret SYLVANC_OK)))
     (\<lambda>c s'. c = SYLVANC_OK \<and> (\<exists>w. s' = s\<lparr>world := w\<rparr> \<and> regs (inf_pid i) w = r)) (s\<lparr>world := v\<rparr>)" for v
  proof -
    obtain w' where "os_setregs os (inf_pid i) r v = (Inr (), w')" "regs (inf_pid i) w' = r"
      using acc by (rule setregsE)
    with s show ?thesis by (auto simp: wp_simps)
  qed
  note k = this
  show ?thesis
    unfolding sylvan_set_regs_def wp_check_inf wp_on_ok
    using s(1) k by (auto intro!: wp_mono [OF stopped_status [OF acc s(1,2)]])
qed

text \<open>A message at the end of a handler.\<close>

lemma wp_print_ok:
  assumes "cformat fmt args \<noteq> None" "\<And>t. Q x (s\<lparr>con_out := con_out s @ t\<rparr>)"
  shows "wp (bnd (sylvan_print_ok fmt args) (\<lambda>_. ret x)) Q s"
  using assms by (auto simp: print_defs wp_simps)

lemma named_register_set:
  assumes acc: "register_access os regs" and s: "infp s = InfLive i" "0 < inf_pid i" "isactive i"
    and r: "r \<in> set sylvan_registers_info" and n: "int n \<le> LONG_MAX"
    and c: "argv_words c = [w0, reg_name r, hex_word n]" "4 < argv_size c" "\<not> argv_junk c 4"
  shows "wp (handle_set_reg os c) (\<lambda>_ s'. infp s' = infp s \<and>
    (\<forall>q \<in> set sylvan_registers_info. get_register q (regs (inf_pid i) (world s')) =
       (if q = r then of_nat n else get_register q (regs (inf_pid i) (world s))))) s"
proof -
  let ?regs = "regs (inf_pid i) (world s)" and ?val = "of_nat n :: 64 word"
  obtain k where k: "k < NUM_REGISTERS" "find_register_by_name (reg_name r) = int k" "reg_name (sylvan_registers_info ! k) = reg_name r"
    using find_register_spec [of "reg_name r"] r by auto
  then have "sylvan_registers_info ! k = r"
    using register_names_distinct r by (simp add: distinct_map inj_on_def register_count)
  note idx = k(2) this
  have set: "get_register q (set_register r ?val ?regs) = (if q = r then of_nat n else get_register q ?regs)"
    if "q \<in> set sylvan_registers_info" for q
    using gpr.get_set [OF r] gpr.get_other [OF r that] by simp
  have fmt: "cformat (''%s to %#lx'' @ newline) [FStr (reg_name r), FLong ?val] \<noteq> None"
    by (simp add: format_simps newline_def)
  obtain w1 where w1: "os_malloc os REGS_SIZE (world s) = (Inr (), w1)" "regs (inf_pid i) w1 = ?regs"
    using acc by (rule mallocE)
  define Q where "Q = (\<lambda>(_ :: int) (s' :: ('a, 'b) console_scheme). infp s' = infp s \<and>
    (\<forall>q \<in> set sylvan_registers_info. get_register q (regs (inf_pid i) (world s')) =
       (if q = r then of_nat n else get_register q ?regs)))"
  have att: "wp (attempt (sylvan_set_regs os (set_register r ?val ?regs))
       (bnd (sylvan_print_ok (''%s to %#lx'' @ newline) [FStr (reg_name r), FLong ?val]) (\<lambda>_. ret 0))) Q u"
    if u: "infp u = infp s" for u
  proof -
    have "wp (bnd (sylvan_print_ok (''%s to %#lx'' @ newline) [FStr (reg_name r), FLong ?val]) (\<lambda>_. ret 0)) Q (u\<lparr>world := w\<rparr>)"
      if "regs (inf_pid i) w = set_register r ?val ?regs" for w
      by (rule wp_print_ok [OF fmt]) (simp add: Q_def that u set)
    then show ?thesis
      unfolding attempt_def
      by (rule_tac wp_bndI [OF set_regs_stopped [OF acc, of u i]]) (use u s in auto)
  qed
  have read: "wp (read_registers os (\<lambda>x. attempt (sylvan_set_regs os (set_register r ?val x))
       (bnd (sylvan_print_ok (''%s to %#lx'' @ newline) [FStr (reg_name r), FLong ?val]) (\<lambda>_. ret 0)))) Q (s\<lparr>errno := 0\<rparr>)"
    unfolding read_registers_def
    using w1 s att
    by (auto simp: wp_bnd wp_sys intro!: wp_mono [OF get_regs_stopped [OF acc, of _ i]])
  show ?thesis
    using read idx strtol_hex [OF n] c
    by (simp add: handle_set_reg_def no_more_def wp_simps Let_def flip: Q_def)
qed

text \<open>C16: \<open>set_reg\<close> changes the register it names to the value it is given, and no other
  register, where the cell of the array behind the next word is null. The reading of a line
  never sets that cell: where it happens to hold anything else (\<open>argv_junk\<close>), the same command
  changes nothing and prints that its arguments are invalid.\<close>

theorem set_reg_sets_register:
  assumes acc: "register_access os regs" and s: "infp s = InfLive i" "0 < inf_pid i" "isactive i"
    and r: "r \<in> set sylvan_registers_info" and n: "int n \<le> LONG_MAX"
    and c: "argv_words c = [w0, reg_name r, hex_word n]" "4 < argv_size c"
  shows "wp (handle_set_reg os c) (\<lambda>_ s'. infp s' = infp s \<and>
    (\<forall>q \<in> set sylvan_registers_info. get_register q (regs (inf_pid i) (world s')) =
       (if q = r \<and> \<not> argv_junk c 4 then of_nat n else get_register q (regs (inf_pid i) (world s)))) \<and>
    (argv_junk c 4 \<longrightarrow> world s' = world s \<and>
       con_out s' = con_out s @ [(Stdout, RED @ ''Invalid Arguments'' @ RESET @ newline)])) s"
proof (cases "argv_junk c 4")
  case True
  then show ?thesis
    using c s by (simp add: handle_set_reg_def no_more_def fail_def print_defs wp_simps cformat_plain)
next
  case False
  have "wp (handle_set_reg os c) (\<lambda>_ s'. infp s' = infp s \<and>
    (\<forall>q \<in> set sylvan_registers_info. get_register q (regs (inf_pid i) (world s')) =
       (if q = r then of_nat n else get_register q (regs (inf_pid i) (world s))))) s"
    by (rule named_register_set [OF acc s r n c False])
  with False show ?thesis by simp
qed

definition sim_stopped :: "sim os" where
  "sim_stopped = sim_os\<lparr>os_waitpid := (\<lambda>p b w. (Inr (0, 0), w))\<rparr>"

lemma sim_registers: "register_access sim_stopped (\<lambda>p w. sim_regs w)"
  by (simp add: register_access_def sim_stopped_def sim_os_def)

theorem set_reg_sets_register_witness:
  "wp (handle_set_reg sim_stopped (sim_argv [''set_reg'', reg_name (gpr_64 R_rbx ''rbx'' 3 40), hex_word 66])) (\<lambda>_ s'.
     infp s' = infp (sim_shell (sim_inferior [])) \<and>
     (\<forall>q \<in> set sylvan_registers_info. get_register q (sim_regs (world s')) =
       (if q = gpr_64 R_rbx ''rbx'' 3 40 \<and> \<not> argv_junk (sim_argv [''set_reg'', reg_name (gpr_64 R_rbx ''rbx'' 3 40), hex_word 66]) 4
        then of_nat 66 else get_register q (sim_regs (world (sim_shell (sim_inferior [])))))) \<and>
     (argv_junk (sim_argv [''set_reg'', reg_name (gpr_64 R_rbx ''rbx'' 3 40), hex_word 66]) 4 \<longrightarrow>
       world s' = world (sim_shell (sim_inferior [])) \<and> con_out s' = con_out (sim_shell (sim_inferior [])) @
         [(Stdout, RED @ ''Invalid Arguments'' @ RESET @ newline)])) (sim_shell (sim_inferior []))"
proof (rule set_reg_sets_register [OF sim_registers])
  show "gpr_64 R_rbx ''rbx'' 3 40 \<in> set sylvan_registers_info" by (simp add: sylvan_registers_info_def)
  show "0 < inf_pid (sim_inferior [])" "isactive (sim_inferior [])" by (simp_all add: sim_inferior_def isactive_def)
qed (simp_all add: LONG_MAX_def)


section \<open>Values\<close>

text \<open>The three forms in which bytes are given to \<open>memory_write\<close>.\<close>

datatype mem_value = HexValue byte | DecValue byte | StringValue string

fun value_word :: "mem_value \<Rightarrow> string" where
  "value_word (HexValue b) = hex_word (unat b)"
| "value_word (DecValue b) = digits 10 (unat b)"
| "value_word (StringValue t) = CHR 0x22 # t @ [CHR 0x22]"

fun value_bytes :: "mem_value \<Rightarrow> byte list" where
  "value_bytes (HexValue b) = [b]"
| "value_bytes (DecValue b) = [b]"
| "value_bytes (StringValue t) = map of_char t"

fun value_ok :: "mem_value \<Rightarrow> bool" where
  "value_ok (StringValue t) = (CHR 0x22 \<notin> set t)"
| "value_ok _ = True"

lemma byte_bound: "uint (x :: byte) \<le> 255" "uint (x :: byte) < 256"
proof -
  show "uint x < 256" by (rule order.strict_trans2 [OF unsigned_less]) simp
  then show "uint x \<le> 255" by simp
qed

lemma byte_value:
  "2 \<le> b \<Longrightarrow> b \<le> 16 \<Longrightarrow> strtoul b (digits b (unat (x :: byte))) = (int (unat x), [], False)"
  using byte_bound(1) [of x] by (intro strtoul_digits) (simp_all add: ULONG_MAX_def)

lemma number_value_hex: "number_value (hex_word (unat x)) acc = ValuesOk (acc @ [x])"
  using byte_value [of 16 x] byte_bound [of x] by (simp add: number_value_def)

lemma decimal_prefix: "take 2 (digits 10 n) \<noteq> ''0x''"
  using digits_base_digit [of 10 n] base_digit_10_not_x [of "CHR ''x''"]
  by (cases "digits 10 n"; cases "tl (digits 10 n)") auto

lemma number_value_decimal: "number_value (digits 10 (unat x)) acc = ValuesOk (acc @ [x])"
  using byte_value [of 10 x] byte_bound [of x] decimal_prefix [of "unat x"] by (simp add: number_value_def)

lemma quoted_bytes_closed:
  "CHR 0x22 \<notin> set t \<Longrightarrow> length acc + length t \<le> VALUES_SIZE \<Longrightarrow>
     quoted_bytes (t @ CHR 0x22 # rest) acc = ValuesOk (acc @ map of_char t)"
  by (induction t arbitrary: acc) auto

lemma string_value_closed:
  assumes "CHR 0x22 \<notin> set t" "length acc + length t \<le> VALUES_SIZE"
  shows "string_value (CHR 0x22 # t @ [CHR 0x22]) acc = ValuesOk (acc @ map of_char t)"
proof -
  have "(of_nat (length acc) + (of_nat (length (CHR 0x22 # t @ [CHR 0x22])) - 2) :: 64 word) = of_nat (length acc + length t)"
    by simp
  moreover have "\<not> 256 < (of_nat (length acc + length t) :: 64 word)"
    using assms(2) unfolding VALUES_SIZE_def word_less_nat_alt by (simp add: unat_of_nat del: of_nat_add)
  ultimately show ?thesis
    using quoted_bytes_closed [OF assms, of "[]"] unfolding string_value_def by simp
qed

lemma not_quoted: "take 1 (hex_word n) \<noteq> [CHR 0x22]" "take 1 (digits 10 n) \<noteq> [CHR 0x22]"
proof -
  show "take 1 (hex_word n) \<noteq> [CHR 0x22]" by (simp add: hex_word_def)
  obtain c cs where "digits 10 n = c # cs" "base_digit 10 c" using digits_head [of 10 n] by auto
  then show "take 1 (digits 10 n) \<noteq> [CHR 0x22]" by (auto simp: base_digit_def digit_val_def)
qed

lemma value_parsed:
  assumes "value_ok v" "length acc + length (value_bytes v) \<le> VALUES_SIZE"
  shows "(if take 1 (value_word v) = [CHR 0x22] then string_value (value_word v) acc
      else number_value (value_word v) acc) = ValuesOk (acc @ value_bytes v)"
  using assms not_quoted
  by (cases v) (simp_all add: number_value_hex number_value_decimal string_value_closed)

lemma values_parsed:
  "\<forall>v \<in> set vs. value_ok v \<Longrightarrow> length acc + length (concat (map value_bytes vs)) \<le> VALUES_SIZE \<Longrightarrow>
     parse_values (map value_word vs) acc = ValuesOk (acc @ concat (map value_bytes vs))"
proof (induction vs arbitrary: acc)
  case (Cons v vs)
  show ?case
  proof (cases "VALUES_SIZE \<le> length acc")
    case True
    with Cons.prems(2) have "concat (map value_bytes (v # vs)) = []" by (simp only: length_0_conv [symmetric])
    with True show ?thesis by simp
  next
    case False
    have "parse_values (map value_word vs) (acc @ value_bytes v) = ValuesOk ((acc @ value_bytes v) @ concat (map value_bytes vs))"
      using Cons.prems by (intro Cons.IH) simp_all
    then show ?thesis
      using False value_parsed [of v acc] Cons.prems by (simp del: value_word.simps)
  qed
qed simp

text \<open>C37: The words that spell bytes in hexadecimal, in decimal or as a quoted string are
  read back as these bytes, up to the 256 that the buffer holds.\<close>

theorem values_roundtrip:
  assumes "\<forall>v \<in> set vs. value_ok v" "length (concat (map value_bytes vs)) \<le> VALUES_SIZE"
  shows "parse_values (map value_word vs) [] = ValuesOk (concat (map value_bytes vs))"
  using values_parsed [OF assms(1), of "[]"] assms(2) by simp

theorem values_roundtrip_witness:
  "parse_values (map value_word [HexValue 18, DecValue 255, StringValue ''ab'']) [] = ValuesOk [18, 255, 97, 98]"
proof -
  have "value_bytes (StringValue ''ab'') = [97, 98]" by code_simp
  then show ?thesis
    using values_roundtrip [of "[HexValue 18, DecValue 255, StringValue ''ab'']"]
    by (simp add: VALUES_SIZE_def del: value_bytes.simps(3) value_word.simps)
qed

lemma values_fit:
  "length acc \<le> VALUES_SIZE \<Longrightarrow> parse_values ws acc = ValuesOk bs \<Longrightarrow> length bs \<le> VALUES_SIZE"
proof (induction ws arbitrary: acc)
  case (Cons w ws)
  have quoted: "length acc \<le> VALUES_SIZE \<Longrightarrow> quoted_bytes t acc = ValuesOk bs \<Longrightarrow> length bs \<le> VALUES_SIZE" for t acc bs
    by (induction t acc rule: quoted_bytes.induct) (auto split: if_splits)
  show ?case
    using Cons.prems quoted [of acc "tl w"] Cons.IH [of "acc @ [x]" for x] Cons.IH
    by (auto simp: string_value_def number_value_def Let_def split: if_splits values_result.splits prod.splits)
qed simp

text \<open>A quoted word of 256 characters without its closing quote passes the check of the
  size, and the byte after the buffer is written.\<close>

lemma unclosed_string_overruns:
  assumes "length t = 257" "CHR 0x22 \<notin> set t"
  shows "write_values os addr ((CHR 0x22 # t) # ws) s = UB"
proof -
  have run: "VALUES_SIZE < length acc + length u \<Longrightarrow> length acc \<le> VALUES_SIZE \<Longrightarrow> CHR 0x22 \<notin> set u \<Longrightarrow>
      quoted_bytes u acc = BufferOverrun" for u :: string and acc
    by (induction u arbitrary: acc) auto
  have "string_value (CHR 0x22 # t) [] = BufferOverrun"
    using run [of "[]" t] assms by (simp add: string_value_def VALUES_SIZE_def)
  then show ?thesis
    by (simp add: write_values_def undefined_behaviour_def VALUES_SIZE_def)
qed

lemma unclosed_string_overruns_witness:
  "write_values sim_os 64 [CHR 0x22 # replicate 257 (CHR ''a'')] (sim_shell zero_inferior) = UB"
  by (rule unclosed_string_overruns) simp_all


section \<open>Writing and reading memory\<close>

text \<open>C15: \<open>memory_write\<close> writes exactly the bytes that its words spell to the memory of the
  process, from the address it is given.\<close>

theorem memory_write_writes:
  assumes mem: "tracee_memory os mem" and acc: "memory_accessible os (inf_pid i)" and s: "infp s = InfLive i"
    and a: "0 < n" "int n \<le> LONG_MAX"
    and vs: "\<forall>v \<in> set vs. value_ok v" "concat (map value_bytes vs) \<noteq> []" "length (concat (map value_bytes vs)) \<le> VALUES_SIZE"
    and c: "argv_words c = w0 # hex_word n # map value_word vs"
  shows "wp (handle_write_memory os c) (\<lambda>r s'. r = 0 \<and> infp s' = infp s \<and>
    mem (inf_pid i) (world s') = write_bytes (mem (inf_pid i) (world s)) (of_nat n) (concat (map value_bytes vs))) s"
proof -
  let ?bs = "concat (map value_bytes vs)" and ?a = "of_nat n :: addr"
  have "n < 2 ^ 64" using a(2) by (simp add: LONG_MAX_def)
  then have a0: "?a \<noteq> 0" using a(1) by (simp add: of_nat_eq_0_iff take_bit_nat_eq_self unat_of_nat flip: unat_eq_0)
  define Q where "Q = (\<lambda>(r :: int) (s' :: ('a, 'b) console_scheme). r = 0 \<and> infp s' = infp s \<and>
    mem (inf_pid i) (world s') = write_bytes (mem (inf_pid i) (world s)) ?a ?bs)"
  have fmt: "cformat ''Wrote at address %#lx'' [FLong ?a] \<noteq> None" by (simp add: format_simps)
  have "length ?bs \<le> 2 ^ 64" using vs(3) by (simp add: VALUES_SIZE_def)
  then have "wp (attempt (sylvan_set_memory os ?a (Some ?bs))
      (bnd (sylvan_print_ok ''Wrote at address %#lx'' [FLong ?a]) (\<lambda>_. ret 0))) Q (s\<lparr>errno := 0\<rparr>)"
    unfolding attempt_def
    by (rule_tac wp_bndI [OF set_memory_writes [OF mem acc _ vs(2) _ a0]])
      (use s fmt in \<open>auto intro!: wp_print_ok simp: Q_def\<close>)
  then have stored: "wp (write_values os ?a (map value_word vs)) Q (s\<lparr>errno := 0\<rparr>)"
    using values_parsed [OF vs(1), of "[]"] vs(3) by (simp add: write_values_def)
  obtain y ys where y: "map value_word vs = y # ys" using vs(2) by (cases vs) auto
  have "wp (handle_write_memory os c) Q s"
    using stored c a0 hex_word_not_0x [of n] strtol_hex [OF a(2)]
    unfolding y by (simp add: handle_write_memory_def wp_simps Let_def)
  then show ?thesis by (simp only: Q_def)
qed

theorem memory_write_writes_witness:
  "wp (handle_write_memory sim_os (sim_argv (''memory_write'' # hex_word 4660 # map value_word [HexValue 1, DecValue 2])))
    (\<lambda>r s'. r = 0 \<and> infp s' = infp (sim_shell (sim_inferior [])) \<and>
       sim_mem (world s') = write_bytes (sim_mem sim_world) 4660 [1, 2]) (sim_shell (sim_inferior []))"
  using memory_write_writes [OF sim_tracee_memory sim_accessible, of "sim_shell (sim_inferior [])" "sim_inferior []" 4660
      "[HexValue 1, DecValue 2]" "sim_argv (''memory_write'' # hex_word 4660 # map value_word [HexValue 1, DecValue 2])" "''memory_write''"]
  by (simp add: LONG_MAX_def VALUES_SIZE_def)


lemma to_int_small: "0 \<le> v \<Longrightarrow> v < 2 ^ 31 \<Longrightarrow> to_int v = v"
  by (simp add: to_int_def int_word_sint)

text \<open>Allocating succeeds and does not touch the memory of the process.\<close>

definition separate_heap :: "'w os \<Rightarrow> (pid \<Rightarrow> 'w \<Rightarrow> memory) \<Rightarrow> bool" where
  "separate_heap os mem \<longleftrightarrow> (\<forall>n p w. \<exists>w'. os_malloc os n w = (Inr (), w') \<and> mem p w' = mem p w)"

text \<open>One line of output.\<close>

definition hex16 :: "64 word \<Rightarrow> string" where
  "hex16 w = (let ds = digits 16 (unat w) in ''0x'' @ replicate (16 - length ds) (CHR ''0'') @ ds)"

definition memory_line :: "addr \<Rightarrow> 64 word \<Rightarrow> stream \<times> string" where
  "memory_line a v = (Stdout, BLUE @ hex16 a @ '':'' @ RESET @ ''     '' @ GREEN @ hex16 v @ RESET @ newline)"

lemma memory_line_text:
  "cformat (''%s0x%016lx:%s     %s0x%016lx%s'' @ newline) [FStr BLUE, FLong a, FStr RESET, FStr GREEN, FLong v, FStr RESET] =
     Some (snd (memory_line a v))"
  by (simp add: format_simps memory_line_def hex16_def newline_def hex_string_def)

lemma get_memory_exact:
  assumes mem: "tracee_memory os mem" and acc: "memory_accessible os (inf_pid i)" and s: "infp s = InfLive i"
  shows "\<exists>w. mem (inf_pid i) w = mem (inf_pid i) (world s) \<and> (\<forall>Q. wp (sylvan_get_memory os a) Q s =
    Q (SYLVANC_OK, Some (read_word (mem (inf_pid i) (world s)) a)) (s\<lparr>errno := 0, world := w\<rparr>))"
proof -
  obtain v w where pk: "os_peek os (inf_pid i) a (world s) = (Inr v, w)" using acc by (rule memory_accessibleE)
  with tracee_peek [OF mem pk] s show ?thesis by (auto simp: sylvan_get_memory_def wp_simps)
qed

lemma read_words_lines:
  assumes mem: "tracee_memory os mem" and acc: "memory_accessible os (inf_pid i)"
  shows "infp s = InfLive i \<Longrightarrow> wp (read_words os False True n a) (\<lambda>r s'.
    r = Some (map (\<lambda>k. read_word (mem (inf_pid i) (world s)) (a + 8 * of_nat k)) [0..<n]) \<and> infp s' = infp s \<and>
    con_out s' = con_out s @ map (\<lambda>k. memory_line (a + 8 * of_nat k) (read_word (mem (inf_pid i) (world s)) (a + 8 * of_nat k))) [0..<n]) s"
proof (induction n arbitrary: a s)
  case 0
  then show ?case by (simp add: wp_simps)
next
  case (Suc n)
  let ?m = "mem (inf_pid i) (world s)"
  have shift: "map (\<lambda>k. f (a + 8 * of_nat k)) [0..<Suc n] = f a # map (\<lambda>k. f (a + 8 + 8 * of_nat k)) [0..<n]" for f :: "addr \<Rightarrow> 'z"
    by (simp add: upt_conv_Cons map_Suc_upt [symmetric] algebra_simps del: upt_Suc)
  obtain w where w: "mem (inf_pid i) w = ?m"
      and get: "wp (sylvan_get_memory os a) Q s = Q (SYLVANC_OK, Some (read_word ?m a)) (s\<lparr>errno := 0, world := w\<rparr>)" for Q
    using get_memory_exact [OF mem acc Suc.prems, of a] by blast
  let ?t = "s\<lparr>errno := 0, world := w, con_out := con_out s @ [memory_line a (read_word ?m a)]\<rparr>"
  have out: "(Stdout, snd (memory_line x y)) = memory_line x y" for x y by (simp add: memory_line_def)
  have "wp (read_words os False True n (a + 8)) (\<lambda>r s'.
      r = Some (map (\<lambda>k. read_word (mem (inf_pid i) (world ?t)) (a + 8 + 8 * of_nat k)) [0..<n]) \<and> infp s' = infp ?t \<and>
      con_out s' = con_out ?t @ map (\<lambda>k. memory_line (a + 8 + 8 * of_nat k) (read_word (mem (inf_pid i) (world ?t)) (a + 8 + 8 * of_nat k))) [0..<n]) ?t"
    by (rule Suc.IH) (simp add: Suc.prems)
  then have rest: "wp (read_words os False True n (a + 8)) (\<lambda>r s'. map_option (Cons (read_word ?m a)) r =
        Some (map (\<lambda>k. read_word ?m (a + 8 * of_nat k)) [0..<Suc n]) \<and> infp s' = infp s \<and>
      con_out s' = con_out s @ map (\<lambda>k. memory_line (a + 8 * of_nat k) (read_word ?m (a + 8 * of_nat k))) [0..<Suc n]) ?t"
    unfolding shift [of "\<lambda>x. memory_line x (read_word ?m x)"] shift [of "read_word ?m"]
    by (rule wp_mono) (simp add: w)
  show ?case
    using rest
    unfolding read_words.simps wp_bnd get prod.case option.case
    by (simp add: wp_simps memory_line_text [simplified] out del: upt_Suc)
qed

text \<open>C32: \<open>memory_read\<close> prints the number of words it is asked for, sixteen at most, each
  with its address and with the value that the memory of the process holds there.\<close>

theorem memory_read_prints_words:
  assumes mem: "tracee_memory os mem" and acc: "memory_accessible os (inf_pid i)" and heap: "separate_heap os mem"
    and s: "infp s = InfLive i" and a: "0 < n" "int n \<le> LONG_MAX" and k: "0 < k" "k < 2 ^ 31"
    and c: "argv_words c = [w0, hex_word n, digits 10 k]"
  shows "wp (handle_read_memory os tty c) (\<lambda>r s'. r = 0 \<and> con_out s' = con_out s @
    (if 16 < k then [(Stdout, YELLOW @ ''Limiting the lines to 16'' @ RESET @ newline)] else []) @
    map (\<lambda>j. memory_line (of_nat n + 8 * of_nat j) (read_word (mem (inf_pid i) (world s)) (of_nat n + 8 * of_nat j)))
      [0..<min 16 k]) s"
proof -
  let ?m = "mem (inf_pid i) (world s)" and ?a = "of_nat n :: addr"
  have "n < 2 ^ 64" using a(2) by (simp add: LONG_MAX_def)
  then have a0: "?a \<noteq> 0" using a(1) by (simp add: of_nat_eq_0_iff take_bit_nat_eq_self unat_of_nat flip: unat_eq_0)
  have at: "wp (read_memory_at os tty False j (hex_word n)) (\<lambda>r s'. r = 0 \<and> con_out s' = con_out t @
      map (\<lambda>j. memory_line (?a + 8 * of_nat j) (read_word ?m (?a + 8 * of_nat j))) [0..<j]) t"
    if t: "infp t = infp s" "world t = world s" "errno t = 0" for j and t :: "('a, 'b) console_scheme"
  proof -
    obtain w where w: "os_malloc os (j * 8) (world t) = (Inr (), w)" "mem (inf_pid i) w = ?m"
      using heap t(2) unfolding separate_heap_def by metis
    have "infp (t\<lparr>world := w\<rparr>) = InfLive i" using t(1) s by simp
    from read_words_lines [OF mem acc this, of j ?a]
    have "wp (read_words os False True j ?a) (\<lambda>r s'. r \<noteq> None \<and> con_out s' = con_out t @
        map (\<lambda>j. memory_line (?a + 8 * of_nat j) (read_word ?m (?a + 8 * of_nat j))) [0..<j]) (t\<lparr>world := w\<rparr>)"
      by (rule wp_mono) (simp add: w(2))
    then show ?thesis
      using w(1) a0 t(3) hex_word_not_0x [of n] strtol_hex [OF a(2)]
      by (auto simp: read_memory_at_def wp_simps Let_def elim!: wp_mono)
  qed
  have num: "strtol 10 (digits 10 k) = (int k, [], False)" "to_int (int k) = int k"
    using k by (simp_all add: strtol_digits LONG_MAX_def to_int_small)
  have limit: "cformat (''%sLimiting the lines to 16%s'' @ newline) [FStr YELLOW, FStr RESET] =
      Some (YELLOW @ ''Limiting the lines to 16'' @ RESET @ newline)"
    by (simp add: format_simps newline_def)
  show ?thesis
    using k(1) num limit [simplified] c hex_word_not_flag [of n] at [of "s\<lparr>errno := 0\<rparr>"] at [of "s\<lparr>errno := 0, con_out := con_out s @
      [(Stdout, YELLOW @ ''Limiting the lines to 16'' @ RESET @ newline)]\<rparr>"]
    by (auto simp: handle_read_memory_def read_row_count_def wp_simps Let_def min_def elim!: wp_mono)
qed

theorem memory_read_prints_words_witness:
  "wp (handle_read_memory sim_os (sim_tty Map.empty) (sim_argv [''memory_read'', hex_word 4660, digits 10 2])) (\<lambda>r s'. r = 0 \<and>
     con_out s' = [memory_line 4660 (read_word (sim_mem sim_world) 4660), memory_line 4668 (read_word (sim_mem sim_world) 4668)])
     (sim_shell (sim_inferior []))"
proof -
  have heap: "separate_heap sim_os sim_memory" by (simp add: separate_heap_def sim_os_def)
  have two: "[0..<min 16 2] = [0, 1 :: nat]" by (simp add: upt_rec)
  show ?thesis
    using memory_read_prints_words [OF sim_tracee_memory sim_accessible heap, of "sim_shell (sim_inferior [])" "sim_inferior []" 4660 2
        "sim_argv [''memory_read'', hex_word 4660, digits 10 2]" "''memory_read''" "sim_tty Map.empty"]
    unfolding two by (simp add: LONG_MAX_def)
qed

end
