(* ===== verification/Disassembly_Properties.thy ===== *)
theory Disassembly_Properties
  imports Command_Properties
begin

text \<open>
  Properties of the disassembler: the instructions of a buffer, the place of an address in
  the file, and the command on a range.
\<close>

section \<open>Decoding\<close>

text \<open>What Zydis promises of a successful call: the instruction is the beginning of the buffer.\<close>

definition decodes_prefix :: "'w dislib \<Rightarrow> bool" where
  "decodes_prefix dl \<longleftrightarrow> (\<forall>a bs len t. dl_decode dl a bs = Some (len, t) \<longrightarrow> 1 \<le> len \<and> len \<le> length bs)"

text \<open>
  A list of instructions takes the decoder from an address and the bytes there to a
  later address and the bytes left: each is what the decoder answers where the one
  before it ends.
\<close>

inductive decoded ::
  "'w dislib \<Rightarrow> addr \<Rightarrow> byte list \<Rightarrow> disassembled_instruction list \<Rightarrow> addr \<Rightarrow> byte list \<Rightarrow> bool" for dl where
  decoded_nil: "decoded dl a bs [] a bs"
| decoded_cons: "dl_decode dl a (c @ bs) = Some (length c, t) \<Longrightarrow> c \<noteq> [] \<Longrightarrow> decoded dl (a + of_nat (length c)) bs xs b rest \<Longrightarrow>
    decoded dl a (c @ bs)
      (\<lparr>di_addr = a, di_opcodes = join_with (CHR '' '') (map opcode_text c), di_instruction = t\<rparr> # xs) b rest"

inductive_simps decoded_nil_iff [simp]: "decoded dl a bs [] b rest"

inductive_cases decoded_consE: "decoded dl a bs (x # xs) b rest"

lemma decoded_step:
  assumes "dl_decode dl a bs = Some (len, t)" "1 \<le> len" "len \<le> length bs" "decoded dl (a + of_nat len) (drop len bs) xs b rest"
  shows "decoded dl a bs
    (\<lparr>di_addr = a, di_opcodes = join_with (CHR '' '') (map opcode_text (take len bs)), di_instruction = t\<rparr> # xs) b rest"
proof -
  have c: "length (take len bs) = len" "take len bs \<noteq> []" using assms(2,3) by auto
  then show ?thesis
    using decoded_cons [of dl a "take len bs" "drop len bs" t xs b rest] assms(1,4) by (simp add: min_absorb2)
qed

text \<open>The pieces of the buffer follow one another, and so do the addresses.\<close>

lemma decoded_chunks:
  "decoded dl a bs xs b rest \<Longrightarrow> \<exists>chunks. bs = concat chunks @ rest \<and> b = a + of_nat (length (concat chunks)) \<and>
     map di_opcodes xs = map (\<lambda>c. join_with (CHR '' '') (map opcode_text c)) chunks \<and>
     (\<forall>k < length xs. di_addr (xs ! k) = a + of_nat (length (concat (take k chunks))))"
proof (induction rule: decoded.induct)
  case (decoded_cons a c bs t xs b rest)
  then obtain chunks where chunks: "bs = concat chunks @ rest" "b = a + of_nat (length c) + of_nat (length (concat chunks))"
      "map di_opcodes xs = map (\<lambda>c. join_with (CHR '' '') (map opcode_text c)) chunks"
      "\<forall>k < length xs. di_addr (xs ! k) = a + of_nat (length c) + of_nat (length (concat (take k chunks)))"
    by blast
  then show ?case by (intro exI [of _ "c # chunks"]) (auto simp: nth_Cons add.assoc split: nat.splits)
qed simp

lemma wp_error_line:
  assumes "cformat (''%s'' @ fmt @ ''%s'' @ newline) (FStr RED # args @ [FStr RESET]) \<noteq> None" "\<And>t. Q () (s\<lparr>con_out := con_out s @ t\<rparr>)"
  shows "wp (error_line fmt args) Q s"
  using assms by (auto simp: error_line_def wp_fprintf)

lemma cformat_prefix: "CHR ''%'' \<notin> set m \<Longrightarrow> cformat (m @ fmt) args = map_option (append m) (cformat fmt args)"
  by (cases "cformat fmt args"; induction m) (auto simp: cformat.simps)

lemma error_line_plain:
  "CHR ''%'' \<notin> set m \<Longrightarrow> cformat (''%s'' @ m @ ''%s'' @ newline) [FStr RED, FStr RESET] = Some (RED @ m @ RESET @ newline)"
  by (simp add: cformat_prefix format_simps newline_def)

lemma alloc_node_ok:
  assumes "1 \<le> len" "len \<le> length bs"
  shows "wp (alloc_node os bs len t) (\<lambda>ok s'. (malloc_succeeds os \<longrightarrow> ok) \<and> infp s' = infp s) s"
proof -
  have err: "wp (error_line m []) (\<lambda>_ s'. \<not> malloc_succeeds os \<and> infp s' = infp s) u"
    if "CHR ''%'' \<notin> set m" "\<not> malloc_succeeds os" "infp u = infp s" for m u
    by (rule wp_error_line) (use that error_line_plain [OF that(1)] in simp_all)
  show ?thesis
    using assms
    by (auto simp: alloc_node_def wp_sys wp_bnd wp_ret wp_if Let_def split: prod.splits sum.splits intro!: err
        dest!: malloc_failedD)
qed

text \<open>An instruction at which the listing of a function stops.\<close>

definition is_ret :: "disassembled_instruction \<Rightarrow> bool" where
  "is_ret x \<longleftrightarrow> take 3 (di_instruction x) = ''ret''"

text \<open>
  The listing is not cut short: it goes on to where nothing can be decoded, and in a function
  to the first return if there is one before.
\<close>

definition runs_out :: "'w dislib \<Rightarrow> bool \<Rightarrow> disassembled_instruction list \<Rightarrow> addr \<Rightarrow> byte list \<Rightarrow> bool" where
  "runs_out dl is_func xs b rest \<longleftrightarrow>
     (if is_func then (\<forall>x \<in> set (butlast xs). \<not> is_ret x) \<and> (xs \<noteq> [] \<and> is_ret (last xs) \<or> dl_decode dl b rest = None)
      else dl_decode dl b rest = None)"

lemma runs_out_Cons:
  "runs_out dl f xs b rest \<Longrightarrow> \<not> (f \<and> is_ret x) \<Longrightarrow> runs_out dl f (x # xs) b rest"
  by (auto simp: runs_out_def)

lemma decode_loop_decoded:
  assumes law: "decodes_prefix dl" and heap: "malloc_succeeds os"
  shows "length bs < fuel \<Longrightarrow> wp (decode_loop os dl is_func fuel a bs) (\<lambda>xs s'. infp s' = infp s \<and>
    (\<exists>b rest. decoded dl a bs xs b rest \<and> runs_out dl is_func xs b rest)) s"
proof (induction fuel arbitrary: a bs s)
  case 0
  then show ?case by simp
next
  case (Suc fuel)
  let ?R = "\<lambda>a bs xs. \<exists>b rest. decoded dl a bs xs b rest \<and> runs_out dl is_func xs b rest"
  show ?case
  proof (cases "dl_decode dl a bs")
    case None
    then show ?thesis by (simp add: wp_simps runs_out_def)
  next
    case (Some p)
    obtain len t where p: "p = (len, t)" by fastforce
    with law Some have len: "1 \<le> len" "len \<le> length bs" unfolding decodes_prefix_def by blast+
    let ?x = "\<lparr>di_addr = a, di_opcodes = join_with (CHR '' '') (map opcode_text (take len bs)), di_instruction = t\<rparr>"
    have dec: "dl_decode dl a bs = Some (len, t)" using Some p by simp
    have cons: "?R a bs (?x # xs)" if "?R (a + of_nat len) (drop len bs) xs" "\<not> (is_func \<and> is_ret ?x)" for xs
      using that decoded_step [OF dec len] runs_out_Cons [OF _ that(2)] by blast
    have single: "?R a bs [?x]" if "is_func" "take 3 t = ''ret''"
      using decoded_step [OF dec len, of "[]"] that by (auto simp: runs_out_def is_ret_def)
    have "length (drop len bs) < fuel" using Suc.prems len by simp
    note IH = Suc.IH [OF this, of "a + of_nat len"]
    show ?thesis
      unfolding decode_loop.simps dec option.case prod.case
    proof (rule wp_bndI [OF alloc_node_ok [OF len]])
      fix ok and s' :: "('a, 'b) console_scheme"
      assume h: "(malloc_succeeds os \<longrightarrow> ok) \<and> infp s' = infp s"
      have "wp (bnd (decode_loop os dl is_func fuel (a + of_nat len) (drop len bs)) (\<lambda>rest. ret (?x # rest)))
          (\<lambda>xs s'. infp s' = infp s \<and> ?R a bs xs) s'" if "\<not> (is_func \<and> take 3 t = ''ret'')"
        by (rule wp_bndI [OF IH]) (use h cons that in \<open>auto simp: wp_ret is_ret_def\<close>)
      then show "wp (if \<not> ok then ret [] else let node = ?x in
            if is_func \<and> take 3 t = ''ret'' then ret [node]
            else bnd (decode_loop os dl is_func fuel (a + of_nat len) (drop len bs)) (\<lambda>rest. ret (node # rest)))
          (\<lambda>xs s'. infp s' = infp s \<and> ?R a bs xs) s'"
        using h heap single by (auto simp: wp_ret Let_def)
    qed
  qed
qed


section \<open>The place in the file\<close>

definition phdr_start :: "byte list \<Rightarrow> nat" where
  "phdr_start file = (let phoff = le_field 8 32 file in if 0 \<le> sint phoff then unat phoff else EHDR_SIZE)"

definition phdr_count :: "byte list \<Rightarrow> nat" where
  "phdr_count file = unat (le_field 2 56 file)"

text \<open>Header number \<open>k\<close>, and whether the file holds it.\<close>

definition file_phdr :: "byte list \<Rightarrow> nat \<Rightarrow> phdr" where
  "file_phdr file k = phdr_of (drop (phdr_start file + k * PHDR_SIZE) file)"

definition has_phdr :: "byte list \<Rightarrow> nat \<Rightarrow> bool" where
  "has_phdr file k \<longleftrightarrow> phdr_start file + Suc k * PHDR_SIZE \<le> length file"

text \<open>The segment of an address: the first header that contains it.\<close>

definition segment_of :: "byte list \<Rightarrow> addr \<Rightarrow> nat \<Rightarrow> bool" where
  "segment_of file a k \<longleftrightarrow> k < phdr_count file \<and> has_phdr file k \<and> in_segment (file_phdr file k) a \<and>
     (\<forall>j < k. \<not> in_segment (file_phdr file j) a)"

definition is_elf :: "byte list \<Rightarrow> bool" where
  "is_elf file \<longleftrightarrow> EHDR_SIZE \<le> length file \<and> take 4 file = [0x7F, 0x45, 0x4C, 0x46]"

text \<open>
  The pair the code computes for an address: the position in the file, and the room to the
  end of what the file holds of the segment, which wraps around behind it.
\<close>

definition offset_in :: "phdr \<Rightarrow> addr \<Rightarrow> 64 word \<times> 64 word" where
  "offset_in p a = (p_offset p + (a - p_vaddr p), p_filesz p - (a - p_vaddr p))"

lemma error_line_not_found:
  "cformat (''%s'' @ ''Virtual address 0x%016lx not found in any loadable segment'' @ ''%s'' @ newline)
     (FStr RED # [FLong a] @ [FStr RESET]) \<noteq> None"
  "cformat (''%s'' @ ''Failed to read program header %d'' @ ''%s'' @ newline) (FStr RED # [FInt i] @ [FStr RESET]) \<noteq> None"
  "cformat (''Adjusted size from %zu to %zu to fit section'' @ newline) [FLong a, FLong b] \<noteq> None"
  by (simp_all add: format_simps newline_def)

lemma search_phdrs_spec:
  assumes "pos = phdr_start file + k * PHDR_SIZE" "k + n = phdr_count file" "\<forall>j < k. has_phdr file j \<and> \<not> in_segment (file_phdr file j) a"
    "printed u s"
  shows "wp (search_phdrs file a sz pos i n) (\<lambda>r s'. printed u s' \<and>
    (case r of
       None \<Rightarrow> \<forall>j. \<not> segment_of file a j \<or> (\<exists>l < j. \<not> has_phdr file l)
     | Some x \<Rightarrow> \<exists>j. segment_of file a j \<and> (\<forall>l \<le> j. has_phdr file l) \<and> x = offset_in (file_phdr file j) a)) s"
  using assms
proof (induction n arbitrary: pos i k s)
  case 0
  then have "\<forall>j. \<not> segment_of file a j" by (auto simp: segment_of_def)
  with 0 show ?case
    by (auto simp: wp_simps intro!: wp_error_line printed_put error_line_not_found)
next
  case (Suc n)
  have p: "phdr_of (drop pos file) = file_phdr file k" using Suc.prems(1) by (simp add: file_phdr_def)
  have fits: "length file < pos + PHDR_SIZE \<longleftrightarrow> \<not> has_phdr file k" using Suc.prems(1) by (auto simp: has_phdr_def)
  show ?case
  proof (cases "has_phdr file k")
    case False
    have "\<not> segment_of file a j \<or> (\<exists>l < j. \<not> has_phdr file l)" for j
      using False Suc.prems(3) by (cases j k rule: linorder_cases) (auto simp: segment_of_def)
    then show ?thesis
      using False fits Suc.prems(4)
      by (auto simp: wp_simps intro!: wp_error_line printed_put error_line_not_found)
  next
    case True
    show ?thesis
    proof (cases "in_segment (file_phdr file k) a")
      case False
      then have "\<forall>j < Suc k. has_phdr file j \<and> \<not> in_segment (file_phdr file j) a" using True Suc.prems(3) by (auto simp: less_Suc_eq)
      then have "wp (search_phdrs file a sz (pos + PHDR_SIZE) (i + 1) n) (\<lambda>r s'. printed u s' \<and>
        (case r of None \<Rightarrow> \<forall>j. \<not> segment_of file a j \<or> (\<exists>l < j. \<not> has_phdr file l)
         | Some x \<Rightarrow> \<exists>j. segment_of file a j \<and> (\<forall>l \<le> j. has_phdr file l) \<and> x = offset_in (file_phdr file j) a)) s"
        using Suc.prems(1,2,4) by (intro Suc.IH [of _ "Suc k"]) simp_all
      then show ?thesis using True False fits p by (simp add: wp_simps Let_def)
    next
      case seg: True
      then have "segment_of file a k" "\<forall>l \<le> k. has_phdr file l"
        using True Suc.prems(2,3) by (auto simp: segment_of_def le_less)
      moreover obtain t where "cformat (''Adjusted size from %zu to %zu to fit section'' @ newline)
          [FLong sz, FLong (p_filesz (file_phdr file k) - (a - p_vaddr (file_phdr file k)))] = Some t"
        using error_line_not_found(3) by blast
      ultimately show ?thesis
        using True seg fits p Suc.prems(4)
        by (auto simp: wp_simps Let_def offset_in_def printed_put)
    qed
  qed
qed

lemma elf_texts:
  "cformat (''%s'' @ ''Failed to read ELF header'' @ ''%s'' @ newline) [FStr RED, FStr RESET] \<noteq> None"
  "cformat (''%s'' @ ''Not an ELF file'' @ ''%s'' @ newline) [FStr RED, FStr RESET] \<noteq> None"
  "cformat (''%s'' @ ''Memory allocation failed'' @ ''%s'' @ newline) [FStr RED, FStr RESET] \<noteq> None"
  "cformat (''%s'' @ ''Invalid arguments or address range'' @ ''%s'' @ newline) [FStr RED, FStr RESET] \<noteq> None"
  "cformat (''%s'' @ ''Failed to seek to offset 0x%016lx'' @ ''%s'' @ newline) (FStr RED # [FLong a] @ [FStr RESET]) \<noteq> None"
  "cformat (''%s'' @ ''Failed to read %zu bytes from file (read %zu)'' @ ''%s'' @ newline) (FStr RED # [FLong a, FLong b] @ [FStr RESET]) \<noteq> None"
  by (simp_all add: format_simps newline_def)

lemmas elf_texts_simplified = elf_texts [simplified]

lemma file_offset_spec:
  fixes s :: "('w, 'm) console_scheme"
  shows "printed u s \<Longrightarrow> wp (get_file_offset_from_vaddr file a sz) (\<lambda>r s'. printed u s' \<and>
    (case r of
       None \<Rightarrow> \<not> is_elf file \<or> (\<forall>j. \<not> segment_of file a j \<or> (\<exists>l < j. \<not> has_phdr file l))
     | Some x \<Rightarrow> is_elf file \<and> (\<exists>j. segment_of file a j \<and> (\<forall>l \<le> j. has_phdr file l) \<and> x = offset_in (file_phdr file j) a))) s"
proof -
  assume "printed u s"
  then have "wp (search_phdrs file a sz (phdr_start file) 0 (phdr_count file)) (\<lambda>r s'. printed u s' \<and>
    (case r of
       None \<Rightarrow> \<forall>j. \<not> segment_of file a j \<or> (\<exists>l < j. \<not> has_phdr file l)
     | Some x \<Rightarrow> \<exists>j. segment_of file a j \<and> (\<forall>l \<le> j. has_phdr file l) \<and> x = offset_in (file_phdr file j) a)) s"
    by (intro search_phdrs_spec [where k = 0]) simp_all
  then have found: "is_elf file \<Longrightarrow> wp (search_phdrs file a sz (phdr_start file) 0 (phdr_count file)) (\<lambda>r s'. printed u s' \<and>
    (case r of
       None \<Rightarrow> \<not> is_elf file \<or> (\<forall>j. \<not> segment_of file a j \<or> (\<exists>l < j. \<not> has_phdr file l))
     | Some x \<Rightarrow> is_elf file \<and> (\<exists>j. segment_of file a j \<and> (\<forall>l \<le> j. has_phdr file l) \<and> x = offset_in (file_phdr file j) a))) s"
    by (auto elim!: wp_mono split: option.splits)
  have "(get_file_offset_from_vaddr file a sz :: ('w, 'm, _) tprog) =
      (if is_elf file then search_phdrs file a sz (phdr_start file) 0 (phdr_count file)
       else if length file < EHDR_SIZE then bnd (error_line ''Failed to read ELF header'' []) (\<lambda>_. ret None)
       else bnd (error_line ''Not an ELF file'' []) (\<lambda>_. ret None))"
    by (simp add: get_file_offset_from_vaddr_def is_elf_def phdr_start_def phdr_count_def Let_def)
  with found \<open>printed u s\<close> show ?thesis
    by (auto simp: wp_simps printed_put elf_texts_simplified intro!: wp_error_line)
qed

text \<open>The file offset of an address is taken from the first loadable segment that contains
  it; there is none exactly where the file is no ELF file, no segment contains the address, or
  the headers are cut off before the segment's.\<close>

lemma file_offset_in_segment:
  "wp (get_file_offset_from_vaddr file a sz) (\<lambda>r s'. printed s s' \<and>
    (case r of
       None \<Rightarrow> \<not> is_elf file \<or> (\<forall>j. \<not> segment_of file a j \<or> (\<exists>l < j. \<not> has_phdr file l))
     | Some x \<Rightarrow> is_elf file \<and> (\<exists>j. segment_of file a j \<and> (\<forall>l \<le> j. has_phdr file l) \<and> x = offset_in (file_phdr file j) a))) s"
  by (rule file_offset_spec) simp

text \<open>The instructions of some bytes: the pieces of the bytes follow one another, and so do the addresses.\<close>

definition disassembled :: "'w dislib \<Rightarrow> bool \<Rightarrow> addr \<Rightarrow> byte list \<Rightarrow> disassembled_instruction list \<Rightarrow> bool" where
  "disassembled dl is_func a bs xs \<longleftrightarrow> (\<exists>b rest chunks. decoded dl a bs xs b rest \<and> runs_out dl is_func xs b rest \<and>
     bs = concat chunks @ rest \<and> map di_opcodes xs = map (\<lambda>c. join_with (CHR '' '') (map opcode_text c)) chunks \<and>
     (\<forall>m < length xs. di_addr (xs ! m) = a + of_nat (length (concat (take m chunks)))))"

lemma disassembledI:
  assumes "decoded dl a bs xs b rest" "runs_out dl f xs b rest"
  shows "disassembled dl f a bs xs"
proof -
  obtain chunks where "bs = concat chunks @ rest"
      "map di_opcodes xs = map (\<lambda>c. join_with (CHR '' '') (map opcode_text c)) chunks"
      "\<forall>m < length xs. di_addr (xs ! m) = a + of_nat (length (concat (take m chunks)))"
    using decoded_chunks [OF assms(1)] by blast
  with assms show ?thesis unfolding disassembled_def by blast
qed

lemma decode_range_lists:
  fixes s :: "('w, 'm) console_scheme"
  assumes law: "decodes_prefix dl" and heap: "malloc_succeeds os" and s: "infp s = p"
    and room: "n \<noteq> 0" "unat off + unat n \<le> length file" "0 \<le> sint off"
  shows "wp (decode_range os dl file is_func a off n) (\<lambda>r s'. infp s' = p \<and>
    (\<exists>xs. disassembled dl is_func a (take (unat n) (drop (unat off) file)) xs \<and> r = (if xs = [] then None else Some xs))) s"
proof -
  let ?bs = "take (unat n) (drop (unat off) file)"
  have len: "length ?bs = unat n" using room(2) by simp
  have loop: "wp (decode_loop os dl is_func (Suc (unat n)) a ?bs) (\<lambda>xs s'. infp s' = p \<and> disassembled dl is_func a ?bs xs) t"
    if "infp t = p" for t :: "('w, 'm) console_scheme"
    by (rule wp_mono [OF decode_loop_decoded [OF law heap, of ?bs "Suc (unat n)"]])
      (use that len in \<open>auto intro: disassembledI\<close>)
  obtain w where w: "os_malloc os (unat n) (world s) = (Inr (), w)" using heap by (rule malloc_succeedsE)
  have "wp (bnd (decode_loop os dl is_func (Suc (unat n)) a ?bs) (\<lambda>xs. if n = 0 \<or> xs \<noteq> [] then ret (Some xs) else ret None))
      (\<lambda>r s'. infp s' = p \<and> (\<exists>xs. disassembled dl is_func a ?bs xs \<and> r = (if xs = [] then None else Some xs))) (s\<lparr>world := w\<rparr>)"
    by (rule wp_bndI [OF loop]) (use s room(1) in \<open>auto simp: wp_ret\<close>)
  with w len room(3) show ?thesis
    by (simp add: decode_range_def wp_bnd wp_sys Let_def del: decode_loop.simps length_take)
qed

text \<open>Where the address lies in the part of the segment that the file holds, the subtractions do not wrap.\<close>

lemma sint_nonneg: "unat (w :: 64 word) < 2 ^ 63 \<Longrightarrow> 0 \<le> sint w"
proof -
  assume "unat w < 2 ^ 63"
  then have "uint w < 2 ^ 63" by (simp add: nat_less_numeral_power_cancel_iff flip: nat_uint_eq)
  moreover have "- (2 ^ 63) \<le> uint w" by (rule order_trans [of _ 0]) simp_all
  ultimately have "signed_take_bit 63 (uint w) = uint w" by (intro signed_take_bit_int_eq_self)
  then show ?thesis by (simp add: sint_uint)
qed

lemma place_in_file:
  assumes seg: "in_segment p a" "unat a - unat (p_vaddr p) < unat (p_filesz p)"
    and held: "unat (p_offset p) + unat (p_filesz p) \<le> len" "len < 2 ^ 63" and x: "(off, m) = offset_in p a"
  shows "unat off = unat (p_offset p) + (unat a - unat (p_vaddr p))" "unat m = unat (p_filesz p) - (unat a - unat (p_vaddr p))"
    "0 \<le> sint off"
proof -
  have d: "unat (a - p_vaddr p) = unat a - unat (p_vaddr p)"
    using seg(1) by (simp add: in_segment_def unat_sub)
  then show "unat m = unat (p_filesz p) - (unat a - unat (p_vaddr p))"
    using seg(2) x by (simp add: offset_in_def unat_sub word_le_nat_alt)
  show off: "unat off = unat (p_offset p) + (unat a - unat (p_vaddr p))"
    using seg(2) held x d by (simp add: offset_in_def unat_word_ariths)
  show "0 \<le> sint off" by (rule sint_nonneg) (use off seg(2) held in linarith)
qed

text \<open>Behind that part the computed room wraps around, and is larger than any range.\<close>

lemma place_behind_file:
  assumes seg: "in_segment p a" "unat (p_filesz p) < unat a - unat (p_vaddr p)" and e: "a \<le> e"
    and held: "unat (p_offset p) + (unat e - unat (p_vaddr p)) \<le> len" "len < 2 ^ 63" and x: "(off, m) = offset_in p a"
  shows "unat off = unat (p_offset p) + (unat a - unat (p_vaddr p))" "\<not> m < e - a" "0 \<le> sint off"
proof -
  have d: "unat (a - p_vaddr p) = unat a - unat (p_vaddr p)"
    using seg(1) by (simp add: in_segment_def unat_sub)
  have le: "unat a \<le> unat e" using e by (simp add: word_le_nat_alt)
  show off: "unat off = unat (p_offset p) + (unat a - unat (p_vaddr p))"
    using le held x d by (simp add: offset_in_def unat_word_ariths)
  show "0 \<le> sint off" by (rule sint_nonneg) (use off le held in linarith)
  have "unat m = unat (p_filesz p) + 2 ^ 64 - (unat a - unat (p_vaddr p))"
    using x d seg(2) by (simp add: offset_in_def unat_sub_if_size word_size)
  moreover have "unat (e - a) = unat e - unat a" using e by (simp add: unat_sub)
  moreover have "unat e < 2 ^ 64" using unsigned_less [of e, where 'a = nat] by simp
  ultimately show "\<not> m < e - a" by (simp add: word_less_nat_alt)
qed

text \<open>The first loadable segment of an address, found in a file that holds the headers up to its own.\<close>

definition found_segment :: "byte list \<Rightarrow> addr \<Rightarrow> phdr \<Rightarrow> bool" where
  "found_segment file a p \<longleftrightarrow> is_elf file \<and> (\<exists>k. segment_of file a k \<and> (\<forall>l \<le> k. has_phdr file l) \<and> p = file_phdr file k)"

lemma wp_file_offset:
  fixes s :: "('w, 'm) console_scheme"
  assumes p: "found_segment file a p"
  shows "wp (get_file_offset_from_vaddr file a sz) (\<lambda>r s'. printed s s' \<and> r = Some (offset_in p a)) s"
proof (rule wp_mono [OF file_offset_in_segment], elim conjE, intro conjI, assumption)
  obtain k where k: "is_elf file" "segment_of file a k" "\<forall>l \<le> k. has_phdr file l" "p = file_phdr file k"
    using p by (auto simp: found_segment_def)
  fix r
  assume h: "case r of None \<Rightarrow> \<not> is_elf file \<or> (\<forall>j. \<not> segment_of file a j \<or> (\<exists>l < j. \<not> has_phdr file l))
     | Some x \<Rightarrow> is_elf file \<and> (\<exists>j. segment_of file a j \<and> (\<forall>l \<le> j. has_phdr file l) \<and> x = offset_in (file_phdr file j) a)"
  show "r = Some (offset_in p a)"
  proof (cases r)
    case None
    with h k(1-3) show ?thesis by (auto dest: less_imp_le)
  next
    case (Some x)
    with h obtain j where j: "segment_of file a j" "x = offset_in (file_phdr file j) a" by auto
    have "j = k" using j(1) k(2) by (cases j k rule: linorder_cases) (auto simp: segment_of_def)
    with j(2) k(4) Some show ?thesis by simp
  qed
qed

lemma to_int_zero: "to_int (uint (w :: 64 word)) = 0 \<longleftrightarrow> 2 ^ 32 dvd unat w"
proof -
  have "(word_of_int (uint w) :: 32 word) = word_of_nat (unat w)" by simp
  then have "to_int (uint w) = 0 \<longleftrightarrow> sint (word_of_nat (unat w) :: 32 word) = 0"
    unfolding to_int_def by (rule arg_cong)
  also have "\<dots> \<longleftrightarrow> (word_of_nat (unat w) :: 32 word) = 0" by (metis signed_0 signed_word_eqI)
  also have "\<dots> \<longleftrightarrow> 2 ^ 32 dvd unat w" by (subst word_of_nat_eq_0_iff) simp
  finally show ?thesis .
qed

text \<open>What \<open>disassemble\<close> does where the segment is found and the bytes can be read.\<close>

lemma disassemble_lists:
  fixes s :: "('w, 'm) console_scheme"
  assumes law: "decodes_prefix dl" "malloc_succeeds os" and s: "infp s = InfLive i" "inf_realpath i = Some path"
    and opened: "dl_fopen dl path (world s) = (Inr file, w)" and p: "found_segment file a p" "(off, m) = offset_in p a" and e: "a \<le> e"
    and n: "n = (if m < e - a \<or> e = a then m else e - a)" "n \<noteq> 0" "unat off + unat n \<le> length file" "0 \<le> sint off"
  shows "wp (disassemble os dl a e) (\<lambda>r s'. infp s' = infp s \<and>
    (\<exists>xs. disassembled dl (2 ^ 32 dvd unat e - unat a) a (take (unat n) (drop (unat off) file)) xs \<and>
      r = (if xs = [] then None else Some xs))) s"
proof -
  let ?f = "2 ^ 32 dvd unat e - unat a"
  define Q where "Q = (\<lambda>r (s' :: ('w, 'm) console_scheme). infp s' = infp s \<and>
    (\<exists>xs. disassembled dl ?f a (take (unat n) (drop (unat off) file)) xs \<and> r = (if xs = [] then None else Some xs)))"
  have "unat (e - a) = unat e - unat a" using e by (simp add: unat_sub)
  then have flag: "(to_int (uint (e - a)) \<noteq> 0) = (\<not> ?f)" using to_int_zero [of "e - a"] by simp
  have eq: "(if m < e - a \<or> e - a = 0 then m else e - a) = n" by (simp add: n(1))
  have dec: "wp (decode_range os dl file ?f a off n) Q t" if "printed (s\<lparr>world := w\<rparr>) t" for t :: "('w, 'm) console_scheme"
    unfolding Q_def using printed_infp [OF that] by (intro decode_range_lists law n(2-4)) simp
  have "wp (bnd (get_file_offset_from_vaddr file a (e - a)) (\<lambda>off. case off of
        None \<Rightarrow> ret None
      | Some (file_offset, max_size) \<Rightarrow> decode_range os dl file ?f a file_offset
          (if max_size < e - a \<or> e - a = 0 then max_size else e - a))) Q (s\<lparr>world := w\<rparr>)"
    by (rule wp_bndI [OF wp_file_offset [OF p(1)]]) (use dec eq in \<open>simp flip: p(2)\<close>)
  then have "wp (disassemble os dl a e) Q s"
    using s opened leD [OF e] flag by (simp add: disassemble_def wp_simps Let_def cong del: option.case_cong_weak prod.case_cong_weak)
  then show ?thesis by (simp only: Q_def)
qed

text \<open>C14: Disassembling from an address in the part of its segment that the file holds gives
  the instructions of exactly the bytes of the segment from there to the end address, or to
  the end of that part where the range is empty or longer: each instruction is what the
  decoder gives for the bytes behind the one before it, and they go on until nothing can be
  decoded, or, in a range that is empty as an \<open>int\<close>, to the first return. The file is an ELF
  file that holds the headers and the segment, and memory allocation succeeds.\<close>

theorem disassembly_follows_segment:
  assumes law: "decodes_prefix dl" and heap: "malloc_succeeds os"
    and s: "infp s = InfLive i" "inf_realpath i = Some path" and opened: "dl_fopen dl path (world s) = (Inr file, w)"
    and p: "found_segment file a p" "unat a - unat (p_vaddr p) < unat (p_filesz p)"
    and held: "unat (p_offset p) + unat (p_filesz p) \<le> length file" "length file < 2 ^ 63" and e: "a \<le> e"
  shows "wp (disassemble os dl a e) (\<lambda>r s'. infp s' = infp s \<and> (\<exists>xs. disassembled dl (2 ^ 32 dvd unat e - unat a) a
    (take (if e = a then unat (p_filesz p) else unat e - unat a)
      (drop (unat a - unat (p_vaddr p)) (take (unat (p_filesz p)) (drop (unat (p_offset p)) file)))) xs \<and>
    r = (if xs = [] then None else Some xs))) s"
proof -
  obtain off m where x: "(off, m) = offset_in p a" by (metis surj_pair)
  have "in_segment p a" using p(1) by (auto simp: found_segment_def segment_of_def)
  note place = place_in_file [OF this p(2) held x]
  let ?d = "unat a - unat (p_vaddr p)"
  define n where "n = (if m < e - a \<or> e = a then m else e - a)"
  have sub: "unat (e - a) = unat e - unat a" using e by (simp add: unat_sub)
  have n: "unat n = (if e = a then unat (p_filesz p) - ?d else min (unat e - unat a) (unat (p_filesz p) - ?d))"
    using place(2) sub by (simp add: n_def word_less_nat_alt)
  have "unat a < unat e" if "e \<noteq> a"
    using order.not_eq_order_implies_strict [OF that [symmetric] e] by (simp only: word_less_nat_alt)
  then have "0 < unat n" using n p(2) by (cases "e = a") simp_all
  then have "n \<noteq> 0" by auto
  moreover have "unat off + unat n \<le> length file" using n place(1) p(2) held(1) by (auto simp: min_def split: if_splits)
  moreover have "take (unat n) (drop (unat off) file) = take (if e = a then unat (p_filesz p) else unat e - unat a)
      (drop ?d (take (unat (p_filesz p)) (drop (unat (p_offset p)) file)))"
  proof -
    have "drop ?d (take (unat (p_filesz p)) (drop (unat (p_offset p)) file)) = take (unat (p_filesz p) - ?d) (drop (unat off) file)"
      unfolding place(1) by (simp only: drop_take drop_drop add.commute)
    then show ?thesis using n by (cases "e = a") (simp_all only: take_take if_True if_False, simp_all)
  qed
  ultimately show ?thesis
    using disassemble_lists [OF law heap s opened p(1) x e n_def _ _ place(3)] by simp
qed

text \<open>C39: An address behind the part of the segment that the file holds, in the memory that is
  filled with zeros: the room computed for it wraps around, and what is listed are bytes of
  the file that lie behind the segment.\<close>

theorem zero_fill_lists_other_bytes:
  assumes law: "decodes_prefix dl" and heap: "malloc_succeeds os"
    and s: "infp s = InfLive i" "inf_realpath i = Some path" and opened: "dl_fopen dl path (world s) = (Inr file, w)"
    and p: "found_segment file a p" "unat (p_filesz p) < unat a - unat (p_vaddr p)"
    and held: "unat (p_offset p) + (unat e - unat (p_vaddr p)) \<le> length file" "length file < 2 ^ 63" and e: "a < e"
  shows "wp (disassemble os dl a e) (\<lambda>r s'. infp s' = infp s \<and> (\<exists>xs. disassembled dl (2 ^ 32 dvd unat e - unat a) a
    (take (unat e - unat a) (drop (unat (p_offset p) + (unat a - unat (p_vaddr p))) file)) xs \<and>
    r = (if xs = [] then None else Some xs))) s"
proof -
  obtain off m where x: "(off, m) = offset_in p a" by (metis surj_pair)
  have seg: "in_segment p a" using p(1) by (auto simp: found_segment_def segment_of_def)
  have le: "a \<le> e" using e by simp
  note place = place_behind_file [OF seg p(2) le held x]
  have n: "e - a = (if m < e - a \<or> e = a then m else e - a)" using place(2) less_imp_neq [OF e] by simp
  have sub: "unat (e - a) = unat e - unat a" using le by (simp add: unat_sub)
  have vaddr: "unat (p_vaddr p) \<le> unat a" "unat a < unat e" using seg e by (simp_all add: in_segment_def word_le_nat_alt word_less_nat_alt)
  have "e - a \<noteq> 0" using e by auto
  moreover have "unat off + unat (e - a) \<le> length file" using sub place(1) held(1) vaddr by linarith
  ultimately have "wp (disassemble os dl a e) (\<lambda>r s'. infp s' = infp s \<and> (\<exists>xs. disassembled dl (2 ^ 32 dvd unat e - unat a) a
      (take (unat (e - a)) (drop (unat off) file)) xs \<and> r = (if xs = [] then None else Some xs))) s"
    by (intro disassemble_lists [OF law heap s opened p(1) x le n] place(3))
  then show ?thesis unfolding sub place(1) .
qed

lemma sim_decodes: "decodes_prefix (sim_dislib img)"
  by (auto simp: decodes_prefix_def sim_dislib_def sim_decode_def split: list.splits)

text \<open>An executable with one segment, which holds a function of two bytes at \<open>0x1000\<close>.\<close>

definition sim_image :: "byte list" where
  "sim_image = [0x7F, 0x45, 0x4C, 0x46] @ replicate 28 0 @ [64] @ replicate 23 0 @ [1] @ replicate 7 0 @
     [1] @ replicate 7 0 @ [120] @ replicate 8 0 @ [0x10] @ replicate 14 0 @ [2] @ replicate 7 0 @ [2] @ replicate 15 0 @
     [0x90, 0xC3]"

lemma sim_image_segment: "segment_of sim_image 0x1000 0" "offset_in (file_phdr sim_image 0) 0x1000 = (120, 2)"
  by code_simp+

lemma sim_found: "found_segment sim_image 0x1000 (file_phdr sim_image 0)"
proof -
  have "is_elf sim_image" "segment_of sim_image 0x1000 0" "has_phdr sim_image 0" by code_simp+
  then show ?thesis by (auto simp: found_segment_def)
qed

definition sim_loaded :: inferior where
  "sim_loaded = (sim_inferior [])\<lparr>inf_realpath := Some ''/a''\<rparr>"

lemma file_offset_in_segment_witness:
  "wp (get_file_offset_from_vaddr sim_image 0x1000 2) (\<lambda>r s'. printed (sim_shell sim_loaded) s' \<and>
    (case r of
       None \<Rightarrow> \<not> is_elf sim_image \<or> (\<forall>j. \<not> segment_of sim_image 0x1000 j \<or> (\<exists>l < j. \<not> has_phdr sim_image l))
     | Some x \<Rightarrow> is_elf sim_image \<and> (\<exists>j. segment_of sim_image 0x1000 j \<and> (\<forall>l \<le> j. has_phdr sim_image l) \<and>
         x = offset_in (file_phdr sim_image j) 0x1000))) (sim_shell sim_loaded)"
  by (rule file_offset_in_segment)

theorem disassembly_follows_segment_witness:
  "wp (disassemble sim_os (sim_dislib sim_image) 0x1000 0x1002) (\<lambda>r s'. infp s' = infp (sim_shell sim_loaded) \<and>
    (\<exists>xs. disassembled (sim_dislib sim_image :: sim dislib) (2 ^ 32 dvd unat (0x1002 :: addr) - unat (0x1000 :: addr)) 0x1000
      (take (if (0x1002 :: addr) = 0x1000 then unat (p_filesz (file_phdr sim_image 0)) else unat (0x1002 :: addr) - unat (0x1000 :: addr))
        (drop (unat (0x1000 :: addr) - unat (p_vaddr (file_phdr sim_image 0)))
          (take (unat (p_filesz (file_phdr sim_image 0))) (drop (unat (p_offset (file_phdr sim_image 0))) sim_image)))) xs \<and>
      r = (if xs = [] then None else Some xs)))
    (sim_shell sim_loaded)"
proof (rule disassembly_follows_segment [OF sim_decodes sim_malloc, where i = sim_loaded and w = sim_world and path = "''/a''"])
  show "found_segment sim_image 0x1000 (file_phdr sim_image 0)" by (rule sim_found)
  show "unat (0x1000 :: addr) - unat (p_vaddr (file_phdr sim_image 0)) < unat (p_filesz (file_phdr sim_image 0))"
    "unat (p_offset (file_phdr sim_image 0)) + unat (p_filesz (file_phdr sim_image 0)) \<le> length sim_image"
    by code_simp+
  show "length sim_image < 2 ^ 63" by (simp add: sim_image_def)
qed (simp_all add: sim_dislib_def sim_loaded_def)

text \<open>The same with a segment of sixteen bytes in memory: four bytes behind its two there is nothing of the file.\<close>

definition sim_zero_image :: "byte list" where
  "sim_zero_image = [0x7F, 0x45, 0x4C, 0x46] @ replicate 28 0 @ [64] @ replicate 23 0 @ [1] @ replicate 7 0 @
     [1] @ replicate 7 0 @ [120] @ replicate 8 0 @ [0x10] @ replicate 14 0 @ [2] @ replicate 7 0 @ [16] @ replicate 15 0 @
     [0x90, 0xC3, 1, 2, 3, 4]"

theorem zero_fill_lists_other_bytes_witness:
  "wp (disassemble sim_os (sim_dislib sim_zero_image) 0x1004 0x1006) (\<lambda>r s'. infp s' = infp (sim_shell sim_loaded) \<and>
    (\<exists>xs. disassembled (sim_dislib sim_zero_image :: sim dislib) (2 ^ 32 dvd unat (0x1006 :: addr) - unat (0x1004 :: addr)) 0x1004
      (take (unat (0x1006 :: addr) - unat (0x1004 :: addr)) (drop (unat (p_offset (file_phdr sim_zero_image 0)) +
         (unat (0x1004 :: addr) - unat (p_vaddr (file_phdr sim_zero_image 0)))) sim_zero_image)) xs \<and>
      r = (if xs = [] then None else Some xs)))
    (sim_shell sim_loaded)"
proof (rule zero_fill_lists_other_bytes [OF sim_decodes sim_malloc, where i = sim_loaded and w = sim_world and path = "''/a''"])
  have "is_elf sim_zero_image" "segment_of sim_zero_image 0x1004 0" "has_phdr sim_zero_image 0" by code_simp+
  then show "found_segment sim_zero_image 0x1004 (file_phdr sim_zero_image 0)" by (auto simp: found_segment_def)
  show "unat (p_filesz (file_phdr sim_zero_image 0)) < unat (0x1004 :: addr) - unat (p_vaddr (file_phdr sim_zero_image 0))"
    "unat (p_offset (file_phdr sim_zero_image 0)) + (unat (0x1006 :: addr) - unat (p_vaddr (file_phdr sim_zero_image 0))) \<le> length sim_zero_image"
    by code_simp+
  show "length sim_zero_image < 2 ^ 63" by (simp add: sim_zero_image_def)
qed (simp_all add: sim_dislib_def sim_loaded_def)


section \<open>The command on a range\<close>

lemma strtol_0x: "int n \<le> LONG_MAX \<Longrightarrow> strtol 16 (hex_word n) = (int n, [], False)"
proof -
  assume n: "int n \<le> LONG_MAX"
  have all: "\<forall>c \<in> set (digits 16 n). base_digit 16 c" using digits_base_digit [of 16 n] by simp
  obtain d ds where ds: "digits 16 n = d # ds" "base_digit 16 d" using digits_head [of 16 n] by auto
  have "dropWhile c_isspace (hex_word n) = hex_word n" by (simp add: hex_word_def c_isspace_def)
  moreover have "strip_sign (hex_word n) = (False, hex_word n)" by (simp add: hex_word_def strip_sign_def)
  moreover have "strip_0x 16 (hex_word n) = digits 16 n" using ds by (simp add: hex_word_def strip_0x_def)
  moreover have "takeWhile (base_digit 16) (digits 16 n) = digits 16 n" "dropWhile (base_digit 16) (digits 16 n) = []"
    using all by (simp_all add: takeWhile_eq_all_conv dropWhile_eq_Nil_conv)
  ultimately have "scan_number 16 (hex_word n) = Some (False, n, [])"
    using digits_roundtrip [of 16 n]
    by (simp add: scan_number_def del: takeWhile_eq_all_conv dropWhile_eq_Nil_conv)
  then show ?thesis using n by (simp add: strtol_def LONG_MIN_def)
qed

lemma find_symbol_None: "\<forall>n \<in> set ns. \<forall>y. syms n = Some y \<longrightarrow> es_name y \<noteq> Some name \<Longrightarrow> find_symbol syms name ns = None"
  by (induction ns) (auto split: option.splits)

lemma search_sections_None:
  assumes "\<forall>sc \<in> set scs. entries_sized sc \<and> (\<forall>n y. sh_syms sc n = Some y \<longrightarrow> es_name y \<noteq> Some name)"
  shows "wp (search_sections name scs) (\<lambda>r s'. r = None \<and> s' = s) s"
  using assms
proof (induction scs)
  case (Cons sc scs)
  then have "find_symbol (sh_syms sc) name [0..<unat (sh_size sc div sh_entsize sc)] = None" by (intro find_symbol_None) auto
  with Cons show ?case by (auto simp: wp_simps entries_sized_def)
qed (simp add: wp_simps)

text \<open>\<open>disassemble\<close> with a start and an end address never shows the range: it looks for a
  function whose name is the start address, reports that there is none, and stops.\<close>

lemma disassemble_range_refused:
  assumes s: "infp s = InfLive i" "inf_realpath i = Some path" and os: "debug_info os (Some path) d e" "elf_readable e"
    and ab: "0 < a" "a < b" "int b \<le> LONG_MAX" and c: "argv_words c = [w0, hex_word a, hex_word b]"
    and none: "\<forall>sc \<in> set (elf_sections e). \<forall>n y. sh_syms sc n = Some y \<longrightarrow> es_name y \<noteq> Some (hex_word a)"
  shows "wp (handle_disassemble os tty dl c) (\<lambda>r s'. r = 0 \<and> infp s' = infp s \<and> con_out s' = con_out s @ [(Stderr,
    RED @ ''Function '' @ [CHR 0x27] @ hex_word a @ [CHR 0x27] @ '' not found in '' @ path @ RESET @ newline)]) s"
proof -
  have a: "int a \<le> LONG_MAX" using ab by simp
  have "b < 2 ^ 64" using ab(3) by (simp add: LONG_MAX_def)
  then have words: "(of_nat a :: addr) \<noteq> 0" "\<not> (of_nat b :: addr) \<le> of_nat a"
    using ab by (simp_all add: word_le_nat_alt unat_of_nat of_nat_eq_0_iff take_bit_nat_eq_self flip: unat_eq_0)
  have flag: "\<not> strncmp_eq (hex_word a) ''-c'' 3" by (simp add: strncmp_eq_def hex_word_def)
  obtain w where w: "os_elf os (Some path) (world s) = (e, w)" using os(1) unfolding debug_info_def by (metis prod.collapse)
  have msg: "cformat (''%s'' @ (''Function '' @ [CHR 0x27] @ ''%s'' @ [CHR 0x27] @ '' not found in %s'') @ ''%s'' @ newline)
      (FStr RED # [FStr (hex_word a), FStr path] @ [FStr RESET]) =
      Some (RED @ ''Function '' @ [CHR 0x27] @ hex_word a @ [CHR 0x27] @ '' not found in '' @ path @ RESET @ newline)"
    by (simp add: format_simps newline_def)
  have search: "wp (search_sections (hex_word a) (elf_sections e)) (\<lambda>r s'. r = None \<and> s' = t) t" for t :: "('a, 'b) console_scheme"
    by (rule search_sections_None) (use os(2) none in \<open>auto simp: elf_readable_def\<close>)
  have search_eq: "wp (search_sections (hex_word a) (elf_sections e)) Q t = Q None t" for Q and t :: "('a, 'b) console_scheme"
    using search [of t] by (auto simp: wp_iff)
  show ?thesis
    using s w words flag os(2) c strtol_0x [OF a] strtol_0x [OF ab(3)] msg [simplified] search_eq
    by (simp add: handle_disassemble_def explicit_range_def parse_bound_def show_range_def get_function_bounds_def with_str_def
        error_line_def elf_readable_def wp_simps Let_def)
qed

lemma disassemble_range_refused_witness:
  "wp (handle_disassemble sim_os (sim_tty Map.empty) (sim_dislib sim_image) (sim_argv [''disas'', hex_word 4096, hex_word 4098]))
    (\<lambda>r s'. r = 0 \<and> infp s' = infp (sim_shell sim_loaded) \<and> con_out s' = con_out (sim_shell sim_loaded) @ [(Stderr,
    RED @ ''Function '' @ [CHR 0x27] @ hex_word 4096 @ [CHR 0x27] @ '' not found in '' @ ''/a'' @ RESET @ newline)]) (sim_shell sim_loaded)"
  by (rule disassemble_range_refused [OF _ _ sim_debug_info sim_elf_readable, where i = sim_loaded and b = 4098])
    (simp_all add: sim_loaded_def LONG_MAX_def sim_elf_def hex_word_def)

end
