(* ===== verification/Registry_Properties.thy ===== *)
theory Registry_Properties
  imports Console_Simulation
begin

text \<open>
  Properties of the registry: which handler a word runs, what a new alias stands for,
  and what is refused.
\<close>

section \<open>Dispatch\<close>

lemma find_distinct: "distinct (map f xs) \<Longrightarrow> x \<in> set xs \<Longrightarrow> hash_find f xs (f x) = Some x"
  using find_by_key [of f xs x] by (simp add: hash_find_def)

lemma static_command_found: "cmd \<in> set static_commands \<Longrightarrow> hash_find cmd_name static_commands (cmd_name cmd) = Some cmd"
  using static_names(1) by (simp add: find_distinct keys_distinct_def)

lemma static_alias_found: "a \<in> set static_aliases \<Longrightarrow> hash_find al_name static_aliases (al_name a) = Some a"
  using static_names(2) by (simp add: find_distinct keys_distinct_def)

lemma names_disjoint: "set (map cmd_name static_commands) \<inter> set (map al_name static_aliases) = {}"
  by (simp add: static_commands_def standard_commands_def sub_commands_def define_command_def static_aliases_def)

lemma static_resolve:
  assumes "cmd \<in> set static_commands"
    and "w = cmd_name cmd \<or> (\<exists>a \<in> set static_aliases. al_name a = w \<and> al_org_cmd a = cmd_name cmd)"
  shows "resolve_name static_commands static_aliases w = Some cmd"
  using assms(2)
proof
  assume w: "w = cmd_name cmd"
  then have "hash_find al_name static_aliases w = None"
    using names_disjoint assms(1) unfolding hash_find_None by auto
  then show ?thesis using static_command_found [OF assms(1)] w by (simp add: resolve_not_alias)
next
  assume "\<exists>a \<in> set static_aliases. al_name a = w \<and> al_org_cmd a = cmd_name cmd"
  then show ?thesis
    using static_alias_found static_command_found [OF assms(1)] by (auto simp: resolve_name_def)
qed

text \<open>C31: The first word of a command, by its name or by an alias, runs the handler that the
  table lists for it, and nothing else happens.\<close>

theorem static_dispatch:
  assumes "command_hash s = static_commands" "alias_table s = static_aliases" "cmd \<in> set static_commands"
    and "w = cmd_name cmd \<or> (\<exists>a \<in> set static_aliases. al_name a = w \<and> al_org_cmd a = cmd_name cmd)"
    and "argv_words c = w # ws"
  shows "handle_command os tty dl heap c s = run_handler os tty dl heap (cmd_handler cmd) c s"
  using static_resolve [OF assms(3,4)] assms(1,2,5)
  by (simp add: handle_command_def arg_def deref_def lookup_command_def bnd_def gets_def ret_def)

theorem static_dispatch_witness:
  "handle_command sim_os (sim_tty Map.empty) (sim_dislib []) (\<lambda>_. 0) (sim_argv [''q'']) (sim_shell zero_inferior) =
     run_handler sim_os (sim_tty Map.empty) (sim_dislib []) (\<lambda>_. 0) Handle_exit (sim_argv [''q'']) (sim_shell zero_inferior)"
proof -
  let ?q = "static_commands ! 1"
  have "?q \<in> set static_commands" "cmd_name ?q = ''quit''" "cmd_handler ?q = Handle_exit"
    by (simp_all add: static_commands_def standard_commands_def define_command_def)
  then show ?thesis
    using static_dispatch [of "sim_shell zero_inferior" ?q "''q''" "sim_argv [''q'']" "[]" sim_os "sim_tty Map.empty" "sim_dislib []" "\<lambda>_. 0"]
    by (simp add: static_aliases_def)
qed

lemma static_targets: "\<forall>a \<in> set static_aliases. (al_org_cmd a \<in> set (map cmd_name static_commands)) = (al_name a \<noteq> ''i_adr'')"
  by code_simp

text \<open>Of the predefined aliases all but \<open>i_adr\<close> stand for a command; \<open>i_adr\<close> stands for
  a command that the tables do not have.\<close>

lemma static_aliases_resolve:
  assumes "a \<in> set static_aliases"
  shows "wp (bnd init_commands (\<lambda>_. lookup_command (Some (al_name a)))) (\<lambda>r s'.
    if al_name a = ''i_adr'' then r = None
    else \<exists>cmd \<in> set static_commands. r = Some cmd \<and> cmd_name cmd = al_org_cmd a) s"
proof -
  have "(al_org_cmd a \<in> set (map cmd_name static_commands)) = (al_name a \<noteq> ''i_adr'')"
    using static_targets assms by blast
  then show ?thesis
    using static_alias_found [OF assms] static_command_found
    by (auto simp: wp_simps resolve_name_def hash_find_None)
qed

lemma static_aliases_resolve_witness:
  "wp (bnd init_commands (\<lambda>_. lookup_command (Some ''i_adr''))) (\<lambda>r s'. r = None) (sim_shell zero_inferior)"
proof -
  have "static_aliases ! 15 \<in> set static_aliases" "al_name (static_aliases ! 15) = ''i_adr''"
    by (simp_all add: static_aliases_def)
  then show ?thesis using static_aliases_resolve [of "static_aliases ! 15" "sim_shell zero_inferior"] by simp
qed

text \<open>A word that is neither a command nor an alias is reported; nothing else changes.\<close>

lemma unknown_command_reported:
  assumes "resolve_name (command_hash s) (alias_table s) w = None" "argv_words c = w # ws"
  shows "wp (handle_command os tty dl heap c) (\<lambda>r s'. r = 0 \<and> s' = s\<lparr>con_out := con_out s @
    [(Stdout, ''Unknown command: '' @ w @ newline),
     (Stdout, ''Type '' @ [CHR 0x27] @ ''help'' @ [CHR 0x27] @ '' for available commands'' @ newline)]\<rparr>) s"
proof -
  have "cformat (''Unknown command: %s'' @ newline) [FStr w] = Some (''Unknown command: '' @ w @ newline)"
    by (simp add: format_simps newline_def)
  then show ?thesis using assms by (simp add: handle_command_def wp_simps)
qed

lemma unknown_command_reported_witness:
  "wp (handle_command sim_os (sim_tty Map.empty) (sim_dislib []) (\<lambda>_. 0) (sim_argv [''jump''])) (\<lambda>r s'. r = 0 \<and>
    s' = (sim_shell zero_inferior)\<lparr>con_out := con_out (sim_shell zero_inferior) @
    [(Stdout, ''Unknown command: '' @ ''jump'' @ newline),
     (Stdout, ''Type '' @ [CHR 0x27] @ ''help'' @ [CHR 0x27] @ '' for available commands'' @ newline)]\<rparr>) (sim_shell zero_inferior)"
  by (rule unknown_command_reported [where ws = "[]"])
    (simp_all add: resolve_name_def hash_find_def static_commands_def standard_commands_def sub_commands_def
      define_command_def static_aliases_def)


section \<open>Aliases\<close>

lemma wp_insert_alias:
  assumes "hash_find al_name (alias_table s) n = None" "resolve_name (command_hash s) (alias_table s) org \<noteq> None"
  shows "wp (insert_alias os (Some n) (Some org) i ty) (\<lambda>r s'.
    command_hash s' = command_hash s \<and> infp s' = infp s \<and>
    (if r = 0 then alias_table s' = hash_add \<lparr>al_name = n, al_org_cmd = org, al_id = i, al_type = ty\<rparr> (alias_table s)
     else r = 1 \<and> alias_table s' = alias_table s) \<and> (malloc_succeeds os \<longrightarrow> r = 0)) s"
proof -
  have added: "cformat (''Added alias: %s -> %s (type: %c, id: %d)'' @ newline) [FStr n, FStr org, FChar ty, FInt i] \<noteq> None"
    by (rule alias_texts)
  have fails: "malloc_succeeds os \<Longrightarrow> os_malloc os k w \<noteq> (Inl e, w')" for k w e w'
    by (metis malloc_succeedsE old.sum.distinct(1) prod.inject sum.distinct(1))
  show ?thesis
    using assms added
    by (auto simp: insert_alias_def wp_simps dest: fails split: prod.splits sum.splits option.splits)
qed

text \<open>A new alias stands for its command from then on and every other word for what it
  stood for before; where memory ran out nothing changes.\<close>

lemma new_alias_resolves:
  assumes "keys_distinct al_name (alias_table s)" "hash_find al_name (alias_table s) n = None"
    and "hash_find al_name (alias_table s) org = None" "hash_find cmd_name (command_hash s) org = Some cmd"
  shows "wp (bnd (insert_alias os (Some n) (Some org) i ty) (\<lambda>r. bnd (lookup_command (Some k)) (\<lambda>x. ret (r, x))))
    (\<lambda>(r, x) s'. keys_distinct al_name (alias_table s') \<and> (malloc_succeeds os \<longrightarrow> r = 0) \<and>
       x = (if r = 0 \<and> k = n then Some cmd else resolve_name (command_hash s) (alias_table s) k)) s"
proof (rule wp_bndI [OF wp_insert_alias [OF assms(2)]])
  show "resolve_name (command_hash s) (alias_table s) org \<noteq> None"
    using assms(3,4) by (simp add: resolve_not_alias)
next
  fix r s'
  let ?a = "\<lparr>al_name = n, al_org_cmd = org, al_id = i, al_type = ty\<rparr>"
  assume h: "command_hash s' = command_hash s \<and> infp s' = infp s \<and>
    (if r = 0 then alias_table s' = hash_add ?a (alias_table s)
     else r = 1 \<and> alias_table s' = alias_table s) \<and> (malloc_succeeds os \<longrightarrow> r = 0)"
  have "resolve_name cmds (hash_add ?a (alias_table s)) k =
      (if k = n then hash_find cmd_name cmds org else resolve_name cmds (alias_table s) k)" for cmds
    using resolve_new_alias [OF assms(1), of ?a] assms(2) by simp
  moreover have "keys_distinct al_name (hash_add ?a (alias_table s))"
    using hash.inv_add [OF assms(1), of ?a] assms(2) by simp
  ultimately show "wp (bnd (lookup_command (Some k)) (\<lambda>x. ret (r, x))) (\<lambda>(r, x) s'. keys_distinct al_name (alias_table s') \<and>
      (malloc_succeeds os \<longrightarrow> r = 0) \<and>
      x = (if r = 0 \<and> k = n then Some cmd else resolve_name (command_hash s) (alias_table s) k)) s'"
    using h assms(1,4) by (auto simp: wp_simps split: if_splits)
qed

text \<open>The static tables know \<open>go\<close> neither as a command nor as an alias.\<close>

lemma go_unknown: "hash_find al_name static_aliases ''go'' = None" "hash_find al_name static_aliases ''run'' = None"
  by (simp_all add: hash_find_def static_aliases_def)

lemma run_known: "\<exists>cmd. hash_find cmd_name static_commands ''run'' = Some cmd \<and> cmd_handler cmd = Handle_run"
  by (simp add: hash_find_def static_commands_def standard_commands_def define_command_def)

lemma new_alias_resolves_witness:
  "wp (bnd (insert_alias sim_os (Some ''go'') (Some ''run'') 25 (CHR ''u'')) (\<lambda>r. bnd (lookup_command (Some ''go'')) (\<lambda>x. ret (r, x))))
    (\<lambda>(r, x) s'. r = 0 \<and> (\<exists>cmd. x = Some cmd \<and> cmd_handler cmd = Handle_run)) (sim_shell zero_inferior)"
proof -
  obtain cmd where cmd: "hash_find cmd_name static_commands ''run'' = Some cmd" "cmd_handler cmd = Handle_run"
    using run_known by blast
  show ?thesis
    by (rule wp_mono [OF new_alias_resolves [where n = "''go''" and cmd = cmd]])
      (use cmd sim_malloc static_names(2) in \<open>auto simp: go_unknown\<close>)
qed

text \<open>An alias of an alias is accepted, but no command is ever found by it.\<close>

lemma alias_of_alias_dead:
  assumes "keys_distinct al_name (alias_table s)" "hash_find al_name (alias_table s) n = None"
    and "resolve_name (command_hash s) (alias_table s) org \<noteq> None" "hash_find cmd_name (command_hash s) org = None"
    and "malloc_succeeds os"
  shows "wp (bnd (insert_alias os (Some n) (Some org) i ty) (\<lambda>r. bnd (lookup_command (Some n)) (\<lambda>x. ret (r, x))))
    (\<lambda>(r, x) s'. r = 0 \<and> x = None) s"
  by (rule wp_bndI [OF wp_insert_alias [OF assms(2,3)]])
    (use resolve_new_alias [OF assms(1), of "\<lparr>al_name = n, al_org_cmd = org, al_id = i, al_type = ty\<rparr>"] assms(2,4,5)
      in \<open>auto simp: wp_simps split: if_splits\<close>)

lemma alias_of_alias_dead_witness:
  "wp (bnd (insert_alias sim_os (Some ''go'') (Some ''r'') 25 (CHR ''u'')) (\<lambda>r. bnd (lookup_command (Some ''go'')) (\<lambda>x. ret (r, x))))
    (\<lambda>(r, x) s'. r = 0 \<and> x = None) (sim_shell zero_inferior)"
proof (rule alias_of_alias_dead)
  have "static_commands ! 7 \<in> set static_commands" "cmd_name (static_commands ! 7) = ''run''"
    by (simp_all add: static_commands_def standard_commands_def define_command_def)
  then have "resolve_name static_commands static_aliases ''r'' = Some (static_commands ! 7)"
    by (intro static_resolve) (simp_all add: static_aliases_def)
  then show "resolve_name (command_hash (sim_shell zero_inferior)) (alias_table (sim_shell zero_inferior)) ''r'' \<noteq> None" by simp
  show "hash_find cmd_name (command_hash (sim_shell zero_inferior)) ''r'' = None"
    by (simp add: hash_find_def static_commands_def standard_commands_def sub_commands_def define_command_def)
qed (simp_all add: go_unknown static_names sim_malloc)

text \<open>The form of \<open>set_alias\<close> that its help text documents, with a command and a name,
  always fails: the handler reads the words after the next.\<close>

lemma documented_set_alias_fails:
  assumes "argv_words c = [w0, w1, w2]"
  shows "wp (handle_set_alias os c) (\<lambda>r s'. r = 0 \<and>
    s' = s\<lparr>con_out := con_out s @ [(Stdout, RED @ ''Failed to add alias'' @ RESET @ newline)]\<rparr>) s"
  using assms
  by (simp add: handle_set_alias_def insert_alias_def opt_deref_def fail_def print_defs wp_simps Let_def cformat_plain)

lemma documented_set_alias_fails_witness:
  "wp (handle_set_alias sim_os (sim_argv [''set_alias'', ''run'', ''go''])) (\<lambda>r s'. r = 0 \<and>
    s' = (sim_shell zero_inferior)\<lparr>con_out := con_out (sim_shell zero_inferior) @
      [(Stdout, RED @ ''Failed to add alias'' @ RESET @ newline)]\<rparr>) (sim_shell zero_inferior)"
  by (rule documented_set_alias_fails) simp

end
