(* ===== verification/Shell_Properties.thy ===== *)
theory Shell_Properties
  imports Registry_Properties
begin

text \<open>
  Properties of the interactive loop: the words of a line, the line that an empty one
  stands for, and the end of the loop.
\<close>

section \<open>Reading a command\<close>

text \<open>The words are all there, with room for the null pointer behind them, unless memory ran out.\<close>

lemma collect_args_spec:
  "length acc < n - 1 \<Longrightarrow> wp (collect_args os ts acc n) (\<lambda>r s'. history s' = history s \<and> infp s' = infp s \<and>
     (malloc_succeeds os \<longrightarrow> r \<noteq> None \<and> con_out s' = con_out s) \<and>
     (case r of None \<Rightarrow> True | Some (ws, m) \<Rightarrow> ws = acc @ ts \<and> length ws < m - 1 \<and> n \<le> m)) (s :: ('w, 'm) shell_scheme)"
proof (induction ts arbitrary: acc n s)
  case Nil
  then show ?case by (simp add: wp_simps)
next
  case (Cons t ts)
  define P where "P = (\<lambda>r (s' :: ('w, 'm) shell_scheme). history s' = history s \<and> infp s' = infp s \<and>
     (malloc_succeeds os \<longrightarrow> r \<noteq> None \<and> con_out s' = con_out s) \<and>
     (case r of None \<Rightarrow> True | Some (ws, m) \<Rightarrow> ws = acc @ t # ts \<and> length ws < m - 1 \<and> n \<le> m))"
  have step: "wp (collect_args os ts (acc @ [t]) k) P (s\<lparr>world := w\<rparr>)" if "Suc (length acc) < k - 1" "n \<le> k" for k w
    by (rule wp_mono [OF Cons.IH]) (use that in \<open>auto simp: P_def split: option.splits\<close>)
  have failed: "P None (s\<lparr>errno := e, world := w, con_out := out\<rparr>)" if "\<not> malloc_succeeds os" for e w out
    using that by (simp add: P_def)
  have "Suc (length acc) < 2 * n - 1" using Cons.prems by simp
  then have "wp (collect_args os (t # ts) acc n) P s"
    by (auto simp: wp_simps perror_def intro!: step failed dest!: malloc_failedD split: prod.splits sum.splits)
  then show ?case by (simp only: P_def)
qed

text \<open>C27: The words of a line come back one by one in the order they were typed, with room
  behind them; an empty line stands for the last one that was not.\<close>

theorem line_gives_words:
  assumes read: "ln_readline inp (world s) = ((Some line, False), w)" and hist: "[] \<notin> set (history s)"
    and line: "(if line = [] \<and> history s \<noteq> [] then last (history s) else line) = join_with (CHR '' '') ws"
    and ws: "\<forall>x \<in> set ws. x \<noteq> [] \<and> CHR '' '' \<notin> set x" and heap: "malloc_succeeds os"
  shows "wp (get_command os inp) (\<lambda>r s'. \<exists>c. r = Some c \<and> argv_words c = ws \<and> length ws < argv_size c - 1 \<and>
    10 \<le> argv_size c \<and> history s' = (if line = [] then history s else history s @ [line]) \<and> infp s' = infp s \<and>
    con_out s' = con_out s) (s :: ('w, 'm) shell_scheme)"
proof -
  let ?line = "join_with (CHR '' '') ws" and ?hist = "if line = [] then history s else history s @ [line]"
  define P where "P = (\<lambda>(r :: argv option) (s' :: ('w, 'm) shell_scheme). \<exists>c. r = Some c \<and> argv_words c = ws \<and> length ws < argv_size c - 1 \<and>
    10 \<le> argv_size c \<and> history s' = ?hist \<and> infp s' = infp s \<and> con_out s' = con_out s)"
  define k :: "string \<Rightarrow> ('w, 'm, argv option) sprog" where "k = (\<lambda>l. bnd (sys (os_malloc os (INITIAL_ARG_COUNT * 8))) (\<lambda>r.
             case r of
               Inl _ \<Rightarrow> bnd (perror os ''Error: malloc failed for args'') (\<lambda>_. ret None)
             | Inr _ \<Rightarrow> bnd (collect_args os (strtok_all (CHR '' '') l) [] INITIAL_ARG_COUNT) (\<lambda>res.
                 case res of
                   None \<Rightarrow> ret None
                 | Some (ws, n) \<Rightarrow> bnd (gets (\<lambda>s. ln_junk inp (world s))) (\<lambda>junk.
                     ret (Some \<lparr>argv_words = ws, argv_size = n, argv_junk = junk\<rparr>)))))"
  have rest: "wp (k ?line) P t"
    if t: "history t = ?hist" "infp t = infp s" "con_out t = con_out s" for t :: "('w, 'm) shell_scheme"
  proof -
    obtain w' where w': "os_malloc os (INITIAL_ARG_COUNT * 8) (world t) = (Inr (), w')" by (rule malloc_succeedsE [OF heap])
    have "wp (collect_args os ws [] INITIAL_ARG_COUNT) (\<lambda>res. wp (
            case res of
                   None \<Rightarrow> ret None
                 | Some (ws, n) \<Rightarrow> bnd (gets (\<lambda>s. ln_junk inp (world s))) (\<lambda>junk.
                     ret (Some \<lparr>argv_words = ws, argv_size = n, argv_junk = junk\<rparr>))) P) (t\<lparr>world := w'\<rparr>)"
      by (rule wp_mono [OF collect_args_spec])
        (use t heap in \<open>auto simp: INITIAL_ARG_COUNT_def P_def wp_simps split: option.splits\<close>)
    with w' strtok_join [OF ws] show ?thesis by (simp add: k_def wp_bnd wp_sys)
  qed
  have "wp (recall_line os line) (\<lambda>l. wp (k l) P) (s\<lparr>world := w\<rparr>)"
  proof (cases "line = [] \<and> history s \<noteq> []")
    case True
    obtain w' where "os_malloc os (length (last (history s)) + 1) w = (Inr (), w')" by (rule malloc_succeedsE [OF heap])
    moreover have "last (history s) \<noteq> []" using True hist last_in_set by metis
    ultimately show ?thesis using True line rest by (simp add: recall_line_def wp_simps)
  next
    case False
    then show ?thesis using line rest by (auto simp: recall_line_def wp_simps)
  qed
  then have "wp (get_command os inp) P s"
    by (simp only: get_command_def k_def [symmetric] wp_bnd wp_extern read prod.case option.case if_False)
  then show ?thesis by (simp only: P_def)
qed

theorem line_gives_words_witness:
  "wp (get_command sim_os (sim_lines ''b main'')) (\<lambda>r s'. \<exists>c. r = Some c \<and> argv_words c = [''b'', ''main''] \<and>
     length [''b'', ''main''] < argv_size c - 1 \<and> 10 \<le> argv_size c \<and> history s' = [''b main''] \<and>
     infp s' = infp (sim_shell zero_inferior) \<and> con_out s' = con_out (sim_shell zero_inferior)) (sim_shell zero_inferior)"
  using line_gives_words [where inp = "sim_lines ''b main''" and s = "sim_shell zero_inferior" and line = "''b main''"
      and ws = "[''b'', ''main'']" and os = sim_os and w = sim_world]
  by (simp add: sim_lines_def sim_malloc)


section \<open>The loop\<close>

text \<open>The user types \<open>quit\<close> after \<open>n\<close> lines that are empty or interrupted.\<close>

fun quits_after :: "'w lines \<Rightarrow> nat \<Rightarrow> 'w \<Rightarrow> bool" where
  "quits_after inp 0 w = (fst (ln_readline inp w) = (Some ''quit'', False))"
| "quits_after inp (Suc n) w =
     ((snd (fst (ln_readline inp w)) \<or> fst (ln_readline inp w) = (Some [], False)) \<and> quits_after inp n (snd (ln_readline inp w)))"

text \<open>Allocating succeeds and does not touch the keyboard.\<close>

definition typing_kept :: "'w os \<Rightarrow> 'w lines \<Rightarrow> bool" where
  "typing_kept os inp \<longleftrightarrow>
     (\<forall>n w. \<exists>w'. os_malloc os n w = (Inr (), w') \<and> (\<forall>k. quits_after inp k w \<longrightarrow> quits_after inp k w'))"

lemma typing_keptE:
  assumes "typing_kept os inp"
  obtains w' where "os_malloc os n w = (Inr (), w')" "\<And>k. quits_after inp k w \<Longrightarrow> quits_after inp k w'"
  using assms unfolding typing_kept_def by blast

text \<open>A turn on which nothing is typed, and the one with \<open>quit\<close>.\<close>

definition idle_shell :: "('w, 'm) shell_scheme \<Rightarrow> ('w, 'm) shell_scheme \<Rightarrow> bool" where
  "idle_shell s s' \<longleftrightarrow> command_hash s' = static_commands \<and> alias_table s' = static_aliases \<and> history s' = [] \<and>
     infp s' = infp s \<and> con_out s' = con_out s"

lemma blank_turn:
  assumes kept: "typing_kept os inp" and quits: "quits_after inp (Suc n) (world s)" and s: "idle_shell u s"
  shows "wp (shell_turn os tty dl heap inp) (\<lambda>ended s'. \<not> ended \<and> idle_shell u s' \<and> quits_after inp n (world s')) s"
proof -
  obtain r w where r: "ln_readline inp (world s) = (r, w)" by fastforce
  then have q: "quits_after inp n w" "snd r \<or> r = (Some [], False)" using quits by simp_all
  obtain w' where w': "os_malloc os (INITIAL_ARG_COUNT * 8) w = (Inr (), w')" "\<And>k. quits_after inp k w \<Longrightarrow> quits_after inp k w'"
    using typing_keptE [OF kept] by blast
  show ?thesis
    using r q w' s
    by (cases r) (auto simp: shell_turn_def get_command_def recall_line_def strtok_all_def idle_shell_def wp_simps split: option.splits)
qed

definition exit_message :: "stream \<times> string" where
  "exit_message = (Stdout, MAGENTA @ ''Exiting Debugger'' @ RESET @ newline)"

lemma handle_quit:
  assumes c: "argv_words c = [''quit'']" and s: "command_hash s = static_commands" "alias_table s = static_aliases"
  shows "wp (handle_command os tty dl heap c) (\<lambda>r s'. r = 1 \<and> s' = s\<lparr>con_out := con_out s @ [exit_message]\<rparr>) s"
proof -
  have cmd: "\<exists>cmd. resolve_name static_commands static_aliases ''quit'' = Some cmd \<and> cmd_handler cmd = Handle_exit"
  proof -
    have "static_commands ! 1 \<in> set static_commands" "cmd_name (static_commands ! 1) = ''quit''" "cmd_handler (static_commands ! 1) = Handle_exit"
      by (simp_all add: static_commands_def standard_commands_def define_command_def)
    then show ?thesis using static_resolve [of "static_commands ! 1" "''quit''"] by auto
  qed
  have msg: "cformat (''%sExiting Debugger%s'' @ newline) [FStr MAGENTA, FStr RESET] = Some (snd exit_message)"
    by (simp add: format_simps newline_def exit_message_def)
  have out: "(Stdout, snd exit_message) = exit_message" by (simp add: exit_message_def)
  show ?thesis
    using c s cmd msg [simplified] by (auto simp: handle_command_def run_handler_def handle_exit_def wp_simps out)
qed

lemma quit_turn:
  assumes kept: "typing_kept os inp" and quits: "quits_after inp 0 (world s)" and s: "idle_shell u s"
  shows "wp (shell_turn os tty dl heap inp) (\<lambda>ended s'. ended \<and> infp s' = infp u \<and> con_out s' = con_out u @ [exit_message]) s"
proof -
  obtain w where r: "ln_readline inp (world s) = ((Some ''quit'', False), w)" using quits by (metis prod.collapse quits_after.simps(1))
  obtain w1 where w1: "os_malloc os (INITIAL_ARG_COUNT * 8) w = (Inr (), w1)" using kept by (rule typing_keptE)
  obtain w2 where w2: "os_malloc os (length ''quit'' + 1) w1 = (Inr (), w2)" using kept by (rule typing_keptE)
  have toks: "strtok_all (CHR '' '') ''quit'' = [''quit'']" by (simp add: strtok_all_def)
  show ?thesis
    using r w1 w2 toks s
    by (auto simp: shell_turn_def get_command_def recall_line_def INITIAL_ARG_COUNT_def idle_shell_def wp_simps
        intro!: wp_mono [OF handle_quit])
qed

lemma loop_quits:
  assumes kept: "typing_kept os inp" and quits: "quits_after inp n (world s)" and fuel: "n < fuel"
    and s: "command_hash s = static_commands" "alias_table s = static_aliases" "history s = []"
  shows "wp (shell_loop os tty dl heap inp fuel) (\<lambda>_ s'. infp s' = infp s \<and> con_out s' = con_out s @ [exit_message]) s"
proof -
  have "quits_after inp n (world t) \<Longrightarrow> n < fuel \<Longrightarrow> idle_shell s t \<Longrightarrow>
      wp (shell_loop os tty dl heap inp fuel) (\<lambda>_ s'. infp s' = infp s \<and> con_out s' = con_out s @ [exit_message]) t"
    for t n fuel
  proof (induction n arbitrary: fuel t)
    case 0
    then obtain f where f: "fuel = Suc f" by (cases fuel) auto
    show ?case
      unfolding f shell_loop.simps
      by (rule wp_bndI [OF quit_turn [OF kept 0(1,3)]]) (auto simp: wp_simps)
  next
    case (Suc n)
    then obtain f where f: "fuel = Suc f" by (cases fuel) auto
    show ?case
      unfolding f shell_loop.simps
      by (rule wp_bndI [OF blank_turn [OF kept Suc.prems(1,3)]]) (use Suc.IH [of _ f] Suc.prems(2) f in auto)
  qed
  moreover have "idle_shell s s" using s by (simp add: idle_shell_def)
  ultimately show ?thesis using quits fuel by blast
qed

lemma sim_typing: "typing_kept sim_os (sim_lines l)"
  by (simp add: typing_kept_def sim_os_def)

lemma sim_quits: "quits_after (sim_lines ''quit'') 0 (world (sim_shell i))"
  by (simp add: sim_lines_def)

text \<open>When the user types \<open>quit\<close>, after any number of empty or interrupted lines, the
  loop ends: one turn for each line is enough, and more fuel changes nothing.\<close>

lemma quit_ends_loop:
  assumes kept: "typing_kept os inp" and quits: "quits_after inp n (world s)" and fuel: "n < fuel"
    and s: "command_hash s = static_commands" "alias_table s = static_aliases" "history s = []"
  shows "wp (shell_loop os tty dl heap inp fuel) (\<lambda>_ s'. infp s' = infp s \<and> con_out s' = con_out s @ [exit_message]) s"
  using assms by (rule loop_quits)

lemma quit_ends_loop_witness:
  "wp (shell_loop sim_os (sim_tty Map.empty) (sim_dislib []) (\<lambda>_. 0) (sim_lines ''quit'') 3)
     (\<lambda>_ s'. infp s' = infp (sim_shell zero_inferior) \<and> con_out s' = con_out (sim_shell zero_inferior) @ [exit_message])
     (sim_shell zero_inferior)"
  by (rule quit_ends_loop [OF sim_typing sim_quits]) simp_all

text \<open>The number of turns allowed does not matter once the loop has an outcome.\<close>

lemma loop_fuel_enough:
  assumes "shell_loop os tty dl heap inp n s \<noteq> Diverge" "n \<le> m"
  shows "shell_loop os tty dl heap inp m s = shell_loop os tty dl heap inp n s"
  using assms
proof (induction n arbitrary: m s)
  case (Suc n)
  then obtain k where k: "m = Suc k" "n \<le> k" by (cases m) auto
  show ?case
  proof (cases "shell_turn os tty dl heap inp s")
    case (Ret r)
    then show ?thesis
      using Suc.prems(1) Suc.IH [of "snd r" k] k by (cases r) (auto simp: bnd_def split: if_splits)
  qed (simp_all add: k bnd_def)
qed simp

lemma loop_fuel_enough_witness:
  "shell_loop sim_os (sim_tty Map.empty) (sim_dislib []) (\<lambda>_. 0) (sim_lines ''quit'') 9 (sim_shell zero_inferior) =
   shell_loop sim_os (sim_tty Map.empty) (sim_dislib []) (\<lambda>_. 0) (sim_lines ''quit'') 1 (sim_shell zero_inferior)"
proof (rule loop_fuel_enough)
  have "wp (shell_loop sim_os (sim_tty Map.empty) (sim_dislib []) (\<lambda>_. 0) (sim_lines ''quit'') 1) (\<lambda>_ _. True) (sim_shell zero_inferior)"
    by (rule wp_mono [OF loop_quits [OF sim_typing sim_quits]]) simp_all
  then show "shell_loop sim_os (sim_tty Map.empty) (sim_dislib []) (\<lambda>_. 0) (sim_lines ''quit'') 1 (sim_shell zero_inferior) \<noteq> Diverge"
    by (auto simp: wp_iff)
qed simp

end
