(* ===== verification/Console_Properties.thy ===== *)
theory Console_Properties
  imports Console_Simulation
begin

text \<open>
  Properties of the terminal, the tables, the registers, the auxiliary vector and the
  registry of commands.
\<close>

section \<open>Terminal and tables\<close>

text \<open>The terminal is taken to have at least one column and one row, and its sizes
  fit the \<open>int\<close>s that hold them, whatever the system and the environment say.\<close>

lemma terminal_size_in_range:
  "ts_width (get_terminal_size tty w) \<in> {1..INT_MAX} \<and> ts_height (get_terminal_size tty w) \<in> {1..INT_MAX}"
  using terminal_size_bounds [of tty w] by auto

text \<open>C33: A table is printed to its end if the input ends its lines and the page is not
  empty: every loop stops, nothing undefined happens, and only the output grows.\<close>

theorem table_printing_returns:
  assumes "tty_ends_lines tty" "ts_height (get_terminal_size tty (world s)) \<noteq> 12" "\<forall>row \<in> set rows. row_fits cols row"
  shows "wp (print_table tty title cols rows row_count) (\<lambda>_. printed s) s"
  by (rule print_table_printed) (use assms in simp_all)

theorem table_printing_returns_witness:
  "wp (print_table (sim_tty Map.empty) ''CPU'' register_cols (register_rows (\<lambda>_. 7)) 25)
     (\<lambda>_. printed (sim_shell zero_inferior)) (sim_shell zero_inferior)"
  by (rule table_printing_returns)
    (simp_all add: sim_tty_ends sim_height env_size_def register_rows_fit)

text \<open>On a terminal of twelve rows a table with a row divides by zero.\<close>

lemma table_without_page_undefined:
  assumes "ts_height (get_terminal_size tty (world s)) = 12" "cols \<noteq> []" "row_fits cols row" "0 < row_count"
  shows "print_table tty title cols (row # rows) row_count s = UB"
  by (rule print_table_no_page [OF assms])

lemma env_twelve: "env_size (Some ''12'') n = 12"
proof -
  have "strtol 10 ''12'' = (12, [], False)" by code_simp
  then show ?thesis by (simp add: env_size_def INT_MAX_def)
qed

lemma table_without_page_undefined_witness:
  "print_table (sim_tty (\<lambda>_. Some ''12'')) ''CPU'' register_cols (register_rows (\<lambda>_. 7)) 25 (sim_shell zero_inferior) = UB"
proof -
  obtain row rows where rows: "register_rows (\<lambda>_. 7) = row # rows"
    by (simp add: register_rows_def sylvan_registers_info_def)
  with register_rows_fit [of "\<lambda>_. 7"] have "row_fits register_cols row" by simp
  then show ?thesis
    unfolding rows by (intro table_without_page_undefined) (simp_all add: sim_height env_twelve register_cols_def)
qed

text \<open>Each cell of each row of these tables is of the format its column is printed with.\<close>

lemma program_rows_fit:
  "list_all (row_fits register_cols) (register_rows regs) \<and>
   list_all (row_fits breakpoint_cols) (breakpoint_rows i) \<and>
   (\<exists>rows. memory_rows ds a = Some rows \<and> length rows = length ds \<and> list_all (row_fits memory_cols) rows)"
proof -
  have word: "word_text d \<noteq> None" for d
    by (simp add: word_text_def snprintf_def format_simps)
  have "\<exists>rows. memory_rows ds a = Some rows \<and> length rows = length ds \<and> (\<forall>row \<in> set rows. row_fits memory_cols row)"
  proof (induction ds a rule: memory_rows.induct)
    case (2 d ds a)
    then obtain rows where "memory_rows ds (a + 8) = Some rows" "length rows = length ds" "\<forall>row \<in> set rows. row_fits memory_cols row"
      using word [of d] by auto
    then show ?case using word [of d] by (auto simp: row_fits_def memory_cols_def)
  qed simp
  then show ?thesis
    using register_rows_fit
    by (auto simp: list_all_iff breakpoint_rows_def breakpoint_cols_def row_fits_def Let_def)
qed


section \<open>Registers\<close>

text \<open>C36: A search for a register finds the entry of that name, and only where there is
  one; the value of the entry is eight aligned bytes inside the register structure.\<close>

theorem register_search_correct:
  "let n = find_register_by_name name in
   if n = -1 then name \<notin> set (map reg_name sylvan_registers_info)
   else 0 \<le> n \<and> nat n < length sylvan_registers_info \<and>
     (let r = sylvan_registers_info ! nat n in
      reg_name r = name \<and> register_num (reg_id r) = nat n \<and> reg_size r = 8 \<and>
      8 dvd reg_offset r \<and> reg_offset r + reg_size r \<le> 27 * 8)"
proof -
  have order: "register_num (reg_id (sylvan_registers_info ! k)) = k" if "k < NUM_REGISTERS" for k
    using arg_cong [OF register_order, of "\<lambda>xs. xs ! k"] that by (simp add: register_count)
  have size: "r \<in> set sylvan_registers_info \<Longrightarrow> reg_size r = 8" for r
    by (auto simp: sylvan_registers_info_def gpr_64_def)
  show ?thesis
    using find_register_spec [of name]
  proof (elim disjE exE conjE)
    fix k assume k: "k < NUM_REGISTERS" "find_register_by_name name = int k" "reg_name (sylvan_registers_info ! k) = name"
    then have "sylvan_registers_info ! k \<in> set sylvan_registers_info" by (simp add: register_count)
    with k order [of k] register_aligned size show ?thesis by (simp add: Let_def register_count)
  qed simp
qed


section \<open>The auxiliary vector\<close>

text \<open>C18: Parsing what the kernel writes gives the entries up to the terminator.\<close>

theorem auxv_roundtrip:
  assumes "\<forall>e \<in> set es. ax_type e \<noteq> AT_NULL" "malloc_succeeds os"
  shows "wp (parse_auxv os (concat (map auxv_bytes (es @ [\<lparr>ax_type = AT_NULL, ax_value = v\<rparr>])) @ junk)
      (16 * (length es + 1)) True)
    (\<lambda>r s'. r = Some (es @ [\<lparr>ax_type = AT_NULL, ax_value = 0\<rparr>])) s"
  using parse_entries_encoded [OF assms(1) refl, of 0 "16 * (length es + 1)" "length es + 2" v junk] assms(2)
  by (auto simp: parse_auxv_def auxv_entry_size_def wp_simps malloc_succeeds_def Let_def split: prod.splits sum.splits)
    (metis sum.distinct(1) fst_conv)

theorem auxv_roundtrip_witness:
  "wp (parse_auxv sim_os (concat (map auxv_bytes ([\<lparr>ax_type = 6, ax_value = 4096\<rparr>] @ [\<lparr>ax_type = AT_NULL, ax_value = 0\<rparr>])) @ [1, 2])
      (16 * (length [\<lparr>ax_type = 6, ax_value = 4096\<rparr>] + 1)) True)
    (\<lambda>r s'. r = Some ([\<lparr>ax_type = 6, ax_value = 4096\<rparr>] @ [\<lparr>ax_type = AT_NULL, ax_value = 0\<rparr>])) (sim_shell zero_inferior)"
  by (rule auxv_roundtrip) (simp_all add: AT_NULL_def sim_malloc)

text \<open>C19: Data in whole entries is parsed without leaving the buffer or the array,
  whatever it holds, and the result is terminated.\<close>

theorem auxv_whole_entries_safe:
  assumes "len = k * auxv_entry_size b" "len \<le> length block"
  shows "wp (parse_auxv os block len b) (\<lambda>r s'. case r of
      None \<Rightarrow> True
    | Some es \<Rightarrow> es \<noteq> [] \<and> last es = \<lparr>ax_type = AT_NULL, ax_value = 0\<rparr> \<and> length es \<le> k + 1 \<and>
        (\<forall>e \<in> set (butlast es). ax_type e \<noteq> AT_NULL)) s"
proof -
  have "len div auxv_entry_size b = k" using assms(1) by (simp add: auxv_entry_size_def)
  then show ?thesis
    using parse_entries_whole [OF assms, of 0]
    by (auto simp: parse_auxv_def wp_simps Let_def split: prod.splits sum.splits)
qed

theorem auxv_whole_entries_safe_witness:
  "wp (parse_auxv sim_os (replicate 40 1) (2 * auxv_entry_size True) True) (\<lambda>r s'. case r of
      None \<Rightarrow> True
    | Some es \<Rightarrow> es \<noteq> [] \<and> last es = \<lparr>ax_type = AT_NULL, ax_value = 0\<rparr> \<and> length es \<le> 2 + 1 \<and>
        (\<forall>e \<in> set (butlast es). ax_type e \<noteq> AT_NULL)) (sim_shell zero_inferior)"
  by (rule auxv_whole_entries_safe) (simp_all add: auxv_entry_size_def)


lemma parse_entries_partial:
  assumes sz: "sz = auxv_entry_size b" and len: "k * sz < len" "len < Suc k * sz" "Suc k * sz \<le> length block"
    and full: "\<forall>i \<le> k. ax_type (auxv_at b block i) \<noteq> AT_NULL" and i: "i \<le> Suc k"
  shows "parse_entries b block len (k + 1) i = None"
  using i
proof (induction "Suc k - i" arbitrary: i)
  case 0
  then have "i = Suc k" by simp
  with len(2) sz show ?case by (subst parse_entries.simps) auto
next
  case (Suc n)
  then have i: "i \<le> k" by simp
  then have "i * sz < len" "Suc i * sz \<le> length block"
    using len(1,3) mult_le_mono1 [of i k sz] mult_le_mono1 [of "Suc i" "Suc k" sz] by linarith+
  moreover have "parse_entries b block len (k + 1) (Suc i) = None"
    using Suc.hyps(2) i by (intro Suc.hyps(1)) simp_all
  ultimately show ?case
    using full i sz by (subst parse_entries.simps) simp
qed

text \<open>C40: Data that ends inside an entry and holds no terminator overruns the array.\<close>

theorem auxv_partial_entry_overflows:
  assumes "sz = auxv_entry_size b" "0 < k" "k * sz < len" "len < Suc k * sz" "Suc k * sz \<le> length block"
    "\<forall>i \<le> k. ax_type (auxv_at b block i) \<noteq> AT_NULL" "malloc_succeeds os"
  shows "parse_auxv os block len b s = UB"
proof -
  have pos: "0 < sz" using assms(1) by (simp add: auxv_entry_size_def)
  then have k: "len div sz = k" using assms(3,4) by (intro div_nat_eqI) (simp_all add: mult.commute)
  have "sz \<le> k * sz" using assms(2) by simp
  then have le: "\<not> len < sz" "len \<noteq> 0" using assms(3) by linarith+
  obtain w where "os_malloc os ((k + 1) * 16) (world s) = (Inr (), w)"
    by (rule malloc_succeedsE [OF assms(7)])
  with parse_entries_partial [OF assms(1,3-6), of 0] le k show ?thesis
    unfolding assms(1)
    by (simp add: parse_auxv_def bnd_def sys_def syscall_def undefined_behaviour_def Let_def)
qed

theorem auxv_partial_entry_overflows_witness:
  "parse_auxv sim_os (replicate 40 1) 17 True (sim_shell zero_inferior) = UB"
proof (rule auxv_partial_entry_overflows [where k = 1 and sz = 16])
  have "ax_type (auxv_at True (replicate 40 1) 0) \<noteq> AT_NULL" "ax_type (auxv_at True (replicate 40 1) 1) \<noteq> AT_NULL"
    by code_simp+
  then show "\<forall>i \<le> 1. ax_type (auxv_at True (replicate 40 1) i) \<noteq> AT_NULL"
    by (metis One_nat_def le_Suc_eq le_zero_eq)
qed (simp_all add: auxv_entry_size_def sim_malloc)

end
