(* ===== verification/Process_Properties.thy ===== *)
theory Process_Properties
  imports Console_Simulation
begin

text \<open>
  Properties of starting and resuming a process: what the parent learns from a child
  that could not start, what happens where a child dies at once, what continuing from a
  breakpoint does, the life of an inferior, and the bound on messages.
\<close>

section \<open>Messages\<close>

text \<open>C38: Whatever a formatted message and the text of the error number are, the message
  with the error number is written inside the buffer of 2048 bytes, and what is read back is
  both texts joined by a colon, cut to 2047 bytes; where the first leaves no three bytes it
  stands alone. No byte that the buffer held before shows.\<close>

theorem errno_message_fits:
  assumes "cformat fmt args = Some msg" and "NUL \<notin> set msg" "NUL \<notin> set (os_strerror os (errno s))"
    and "length buf = ERRMSG_SIZE"
  shows "\<exists>buf' s'. errno_message buf msg (os_strerror os (errno s)) = Some buf' \<and> length buf' = ERRMSG_SIZE \<and>
     sylvan_set_errno_msg os code fmt args s = Ret (code, s') \<and>
     s' = s\<lparr>sylvan_last_error := \<lparr>ec_code = code, ec_os_errno = errno s, ec_message = cstr buf'\<rparr>\<rparr> \<and>
     cstr buf' = take (ERRMSG_SIZE - 1)
       (msg @ (if length msg + 3 < ERRMSG_SIZE then '': '' @ os_strerror os (errno s) else []))"
proof -
  obtain buf' where b: "errno_message buf msg (os_strerror os (errno s)) = Some buf'" "length buf' = ERRMSG_SIZE"
      "cstr buf' = errno_text msg (os_strerror os (errno s))"
    by (rule errno_message_text [OF assms(4)])
  have "errno_text msg (os_strerror os (errno s)) = take (ERRMSG_SIZE - 1)
      (msg @ (if length msg + 3 < ERRMSG_SIZE then '': '' @ os_strerror os (errno s) else []))"
    using assms(2,3) unfolding errno_text_def ERRMSG_SIZE_def by (subst cstr_plain) (auto dest!: in_set_takeD simp: NUL_def)
  with b assms(1) show ?thesis by (simp add: sylvan_set_errno_msg_eq)
qed

theorem errno_message_fits_witness:
  "\<exists>buf' s'. errno_message sylvan_errmsg_buffer ''kill'' (os_strerror sim_os (errno (sim_dbg zero_inferior))) = Some buf' \<and>
     length buf' = ERRMSG_SIZE \<and>
     sylvan_set_errno_msg sim_os SYLVANC_KILL_FAILED ''kill'' [] (sim_dbg zero_inferior) = Ret (SYLVANC_KILL_FAILED, s') \<and>
     s' = (sim_dbg zero_inferior)\<lparr>sylvan_last_error := \<lparr>ec_code = SYLVANC_KILL_FAILED,
       ec_os_errno = errno (sim_dbg zero_inferior), ec_message = cstr buf'\<rparr>\<rparr> \<and>
     cstr buf' = take (ERRMSG_SIZE - 1) (''kill'' @ (if length ''kill'' + 3 < ERRMSG_SIZE
       then '': '' @ os_strerror sim_os (errno (sim_dbg zero_inferior)) else []))"
  by (rule errno_message_fits)
    (simp_all add: cformat_plain sylvan_errmsg_buffer_def sim_os_def sim_dbg_def NUL_def)


section \<open>A child that cannot start\<close>

lemma strtol_digit_run:
  assumes ds: "ds \<noteq> []" "\<forall>c \<in> set ds. base_digit 10 c" and rest: "rest = [] \<or> \<not> base_digit 10 (hd rest)"
    and n: "int (digits_val 10 0 ds) \<le> LONG_MAX"
  shows "strtol 10 (ds @ rest) = (int (digits_val 10 0 ds), rest, False)"
proof -
  obtain c cs where cons: "ds = c # cs" using ds(1) by (cases ds) auto
  with ds(2) have c: "base_digit 10 c" by simp
  have "strip_0x 10 s = s" for s by (auto simp: strip_0x_def split: list.splits)
  moreover have "dropWhile c_isspace (ds @ rest) = ds @ rest" "strip_sign (ds @ rest) = (False, ds @ rest)"
    using cons base_digit_not_special [OF c] by (simp_all add: strip_sign_def)
  moreover have "takeWhile (base_digit 10) (ds @ rest) = ds" "dropWhile (base_digit 10) (ds @ rest) = rest"
    using ds(2) rest by (cases rest; simp add: takeWhile_append2 dropWhile_append2)+
  ultimately have "scan_number 10 (ds @ rest) = Some (False, digits_val 10 0 ds, rest)"
    using ds(1) by (simp add: scan_number_def)
  then show ?thesis using n by (simp add: strtol_def LONG_MIN_def)
qed

lemma sint_small: "n < 2 ^ 31 \<Longrightarrow> sint (of_nat n :: 32 word) = int n"
  using int_word_sint [of "int n", where 'a = 32] by simp

lemma scan_int_digits:
  assumes "ds \<noteq> []" "\<forall>c \<in> set ds. base_digit 10 c" "digits_val 10 0 ds < 2 ^ 31" "rest = [] \<or> \<not> base_digit 10 (hd rest)"
  shows "scan_int (ds @ rest) = Some (int (digits_val 10 0 ds), rest)"
  using strtol_digit_run [of ds rest] assms by (simp add: scan_int_def LONG_MAX_def sint_small)

lemma digits_run: "digits 10 n @ ds \<noteq> []" "digits_val 10 0 (digits 10 n @ ds) = digits_val 10 n ds"
  using digits_length [of 10 1 0] by (simp_all add: digits_val_append digits_roundtrip)

lemma scan_int_space:
  assumes "ds \<noteq> []" "\<forall>c \<in> set ds. base_digit 10 c" "digits_val 10 0 ds < 2 ^ 31" "rest = [] \<or> \<not> base_digit 10 (hd rest)"
  shows "scan_int (CHR '' '' # ds @ rest) = Some (int (digits_val 10 0 ds), rest)"
proof -
  have "scan_number 10 (CHR '' '' # ds @ rest) = scan_number 10 (ds @ rest)" by (simp add: scan_number_def c_isspace_def)
  moreover have "scan_number 10 (ds @ rest) \<noteq> None"
    using scan_int_digits [OF assms] by (cases "scan_number 10 (ds @ rest)") (auto simp: scan_int_def strtol_def)
  ultimately have "strtol 10 (CHR '' '' # ds @ rest) = strtol 10 (ds @ rest)" by (auto simp: strtol_def)
  moreover have "rest \<noteq> CHR '' '' # ds @ rest" using arg_cong [of rest "CHR '' '' # ds @ rest" length] by auto
  moreover have "strtol 10 (ds @ rest) = (int (digits_val 10 0 ds), rest, False)"
    using assms by (intro strtol_digit_run) (simp_all add: LONG_MAX_def)
  ultimately show ?thesis using assms(3) by (simp add: scan_int_def sint_small)
qed

text \<open>What the parent reads of two numbers, where digits and then other characters follow in the buffer.\<close>

lemma scan_report:
  assumes "m < 2 ^ 31" "digits_val 10 n ds < 2 ^ 31" "\<forall>c \<in> set ds. base_digit 10 c" "rest = [] \<or> \<not> base_digit 10 (hd rest)"
  shows "scan_two_ints (digits 10 m @ CHR '' '' # digits 10 n @ ds @ rest) = Some (int m, int (digits_val 10 n ds))"
proof -
  have "\<not> base_digit 10 (CHR '' '')" by (simp add: base_digit_def digit_val_def)
  moreover have "\<forall>c \<in> set (digits 10 k). base_digit 10 c" for k by (rule digits_base_digit) simp_all
  moreover have "scan_int (CHR '' '' # (digits 10 n @ ds) @ rest) = Some (int (digits_val 10 0 (digits 10 n @ ds)), rest)"
    by (intro scan_int_space) (use assms digits_run [of n ds] calculation(2) in auto)
  ultimately show ?thesis
    using assms(1) scan_int_digits [of "digits 10 m" "CHR '' '' # (digits 10 n @ ds) @ rest"] digits_run [of m "[]"] digits_run [of n ds]
    by (simp add: scan_two_ints_def)
qed

lemma report_no_NUL: "takeWhile (\<lambda>c. c \<noteq> CHR 0x00) ((digits 10 m @ CHR '' '' # digits 10 n) @ junk) =
    digits 10 m @ CHR '' '' # digits 10 n @ takeWhile (\<lambda>c. c \<noteq> CHR 0x00) junk"
proof -
  have "CHR 0x00 \<notin> set (digits 10 k)" for k
    using digits_base_digit [of 10 k] by (auto simp: base_digit_def digit_val_def)
  then show ?thesis by (subst takeWhile_append2) auto
qed

lemma junk_digits:
  "\<exists>rest. takeWhile (\<lambda>c. c \<noteq> CHR 0x00) junk = takeWhile (base_digit 10) junk @ rest \<and> (rest = [] \<or> \<not> base_digit 10 (hd rest))"
proof (induction junk)
  case (Cons c junk)
  have "\<not> base_digit 10 (CHR 0x00)" by (simp add: base_digit_def digit_val_def)
  with Cons show ?case by (cases "base_digit 10 c") auto
qed simp

text \<open>C17: A child that gives up before it executes the program tells its parent why: the parent
  ends with the code that the child gave up with and the description of the code. The number
  of the error is the child's \<open>errno\<close>, run on by any digits that the uninitialised memory
  behind the unterminated buffer of the pipe holds there; where it holds none, and else where
  the number is an \<open>int\<close> and not that of one of the four codes that the parent looks for among
  the numbers of errors.\<close>

theorem child_error_reaches_parent:
  assumes child: "handle_child cc path args = exit_child cc code err" "cc_dprintf cc"
    and code: "code \<in> set named_codes" and err: "0 \<le> err" "err < 256"
    and pipe: "os_close os True (world s) = (Inr (), w1)" "wait_answers (os_read_pipe os) w1 (Inr (fst (handle_child cc path args))) w2"
      "os_close os False w2 = (Inr (), w3)"
    and more: "ds = takeWhile (base_digit 10) (os_stack_junk os w3)"
      "ds \<noteq> [] \<Longrightarrow> digits_val 10 (nat err) ds < 2 ^ 31 \<and> int (digits_val 10 (nat err) ds) \<notin>
         code_num ` {SYLVANC_PTRACE_ERROR, SYLVANC_OUT_OF_MEMORY, SYLVANC_INVALID_ARGUMENT, SYLVANC_FILE_NOT_FOUND}"
  shows "wp (handle_parent os pid) (\<lambda>c s'. c = code \<and> infp s' = infp s \<and> sylvan_last_error s' =
    \<lparr>ec_code = code, ec_os_errno = (if ds = [] then err else int (digits_val 10 (nat err) ds)),
     ec_message = sylvan_strerror code\<rparr>) (s :: ('w, 'm) dbg_scheme)"
proof -
  obtain m n where mn: "code_num code = int m" "err = int n" using code_num_nonneg [OF code] err(1) nonneg_int_cases by metis
  let ?v = "digits_val 10 n ds" and ?t = "fst (handle_child cc path args)"
  have m: "m < 2 ^ 31" using code mn(1) by (auto simp: named_codes_def)
  have t: "?t = digits 10 m @ CHR '' '' # digits 10 n" "?t \<noteq> []"
    using child mn by (simp_all add: exit_child_def dec_string_def)
  obtain rest where rest: "takeWhile (\<lambda>c. c \<noteq> CHR 0x00) (os_stack_junk os w3) = ds @ rest" "rest = [] \<or> \<not> base_digit 10 (hd rest)"
    using junk_digits [of "os_stack_junk os w3"] more(1) by auto
  have v: "?v < 2 ^ 31" "int ?v \<notin> code_num ` {SYLVANC_PTRACE_ERROR, SYLVANC_OUT_OF_MEMORY, SYLVANC_INVALID_ARGUMENT, SYLVANC_FILE_NOT_FOUND}"
    using more(2) err(2) mn(2) by (cases "ds = []"; auto)+
  have "\<forall>c \<in> set ds. base_digit 10 c" unfolding more(1) by (auto dest: set_takeWhileD)
  then have scan: "scan_two_ints (pipe_buffer os w3 ?t) = Some (int m, int ?v)"
    unfolding pipe_buffer_def t(1) report_no_NUL rest(1) by (intro scan_report [OF m v(1) _ rest(2)])
  define Q where "Q = (\<lambda>c (s' :: ('w, 'm) dbg_scheme). c = code \<and> infp s' = infp s \<and> sylvan_last_error s' =
    \<lparr>ec_code = code, ec_os_errno = (if ds = [] then err else int (digits_val 10 (nat err) ds)),
     ec_message = sylvan_strerror code\<rparr>)"
  have "code_of_int (int m) = code" using code_of_code_num [OF code] mn(1) by simp
  then have report: "wp (child_report os ?t) Q u" if "infp u = infp s" "world u = w3" for u
    using that scan v(2) mn(2) by (auto simp: child_report_def wp_simps Q_def)
  have "wp (sys_retry (os_read_pipe os)) (\<lambda>bytes_read. wp (bnd (sys (os_close os False)) (\<lambda>r.
             case r of
               Inl _ \<Rightarrow> sylvan_set_errno_msg os SYLVANC_SYSTEM_ERROR ''close pipe'' []
             | Inr _ \<Rightarrow>
                 (case bytes_read of
                    Inl _ \<Rightarrow> sylvan_set_errno_msg os SYLVANC_SYSTEM_ERROR ''read from pipe'' []
                  | Inr t \<Rightarrow> if t \<noteq> [] then child_report os t else parent_wait os pid))) Q) (s\<lparr>world := w1\<rparr>)"
    by (rule wp_wait_answers [where r = "Inr ?t" and w' = w2])
      (use pipe t(2) report in \<open>simp_all add: wp_bnd wp_sys\<close>)
  then have "wp (handle_parent os pid) Q s"
    using pipe(1) by (simp add: handle_parent_def wp_bnd [of "sys (os_close os True)"] wp_bnd [of "sys_retry (os_read_pipe os)"] wp_sys)
  then show ?thesis by (simp only: Q_def)
qed

definition sim_child :: child_calls where
  "sim_child = \<lparr>cc_close_read = True, cc_traceme = Inr (), cc_malloc = False, cc_heap_junk = [], cc_wordexp = (\<lambda>_. Inr []),
     cc_errno = 0, cc_dprintf = True, cc_close_write = True, cc_execvp = True\<rparr>"

definition sim_starved :: child_calls where
  "sim_starved = sim_child\<lparr>cc_malloc := False, cc_errno := ENOMEM\<rparr>"

theorem child_error_reaches_parent_witness:
  "wp (handle_parent (sim_os\<lparr>os_read_pipe := (\<lambda>w. (Inr (fst (handle_child sim_starved ''/bin/a'' None)), w)), os_stack_junk := (\<lambda>w. ''7x'')\<rparr>) 42)
     (\<lambda>c s'. c = SYLVANC_OUT_OF_MEMORY \<and> infp s' = infp (sim_dbg zero_inferior) \<and> sylvan_last_error s' =
       \<lparr>ec_code = SYLVANC_OUT_OF_MEMORY, ec_os_errno = (if ''7'' = [] then ENOMEM else int (digits_val 10 (nat ENOMEM) ''7'')),
        ec_message = sylvan_strerror SYLVANC_OUT_OF_MEMORY\<rparr>)
     (sim_dbg zero_inferior)"
proof (rule child_error_reaches_parent [where cc = sim_starved and path = "''/bin/a''" and args = None])
  show "wait_answers (os_read_pipe (sim_os\<lparr>os_read_pipe := (\<lambda>w. (Inr (fst (handle_child sim_starved ''/bin/a'' None)), w)),
      os_stack_junk := (\<lambda>w. ''7x'')\<rparr>)) (world (sim_dbg zero_inferior)) (Inr (fst (handle_child sim_starved ''/bin/a'' None)))
      (world (sim_dbg zero_inferior))"
    by (rule wait_answers.answered_now) simp_all
  show "''7'' = takeWhile (base_digit 10) (os_stack_junk (sim_os\<lparr>os_read_pipe := (\<lambda>w. (Inr (fst (handle_child sim_starved ''/bin/a'' None)), w)),
      os_stack_junk := (\<lambda>w. ''7x'')\<rparr>) (world (sim_dbg zero_inferior)))"
    by (simp add: base_digit_def digit_val_def)
qed (simp_all add: named_codes_def ENOMEM_def sim_starved_def sim_child_def handle_child_def sim_os_def digit_val_def)

text \<open>The death of a child by a signal before it could be started fails an assertion of the parent.\<close>

lemma signalled_child_aborts_parent:
  assumes s: "infp s = InfLive i" "bps_ok i" and st: "os_waitpid os p False (world s) = (Inr (p, st), w)" "WIFSIGNALED st"
  shows "parent_wait os p s = Abort"
proof -
  have kind: "\<not> WIFEXITED st" "\<not> WIFSTOPPED st"
    using st(2) wait_low_bits(1) [of st] by (auto simp: wifsignaled_iff WIFEXITED_def WTERMSIG_def WIFSTOPPED_def)
  have wait: "sys_retry (os_waitpid os p False) s = Ret (Inr (p, st), s\<lparr>world := w\<rparr>)"
    using st(1) by (subst sys_retry_def, subst retry_eintr.simps) (simp add: syscall_def)
  let ?j = "i\<lparr>inf_status := SYLVAN_INFSTATE_TERMINATED, inf_pid := p, inf_is_attached := False\<rparr>"
  let ?t = "s\<lparr>world := w, infp := InfLive ?j\<rparr>"
  have j: "bps_ok ?j" using s(2) by (simp add: bps_ok_def)
  obtain k where k: "sylvan_breakpoint_reset_phybp ?t = Ret (SYLVANC_OK, ?t\<lparr>infp := InfLive k\<rparr>)" "\<not> isactive k"
  proof -
    have "wp sylvan_breakpoint_reset_phybp (\<lambda>c s'. c = SYLVANC_OK \<and> (\<exists>k. s' = ?t\<lparr>infp := InfLive k\<rparr> \<and> \<not> isactive k)) ?t"
      using bp_onlyD(3) [OF forget_from_simps(3) [of ?j 0]]
      by (auto simp: wp_reset [of ?t ?j] j isactive_def intro!: exI [of _ "forget_from 0 ?j"])
    then show ?thesis using that by (auto simp: wp_iff)
  qed
  show ?thesis
    using s(1) st(2) kind k
    by (simp add: parent_wait_def bnd_def wait sylvan_update_wait_status_def assert_inf_def is_null_def gets_def c_assert_def
        upd_inf_def on_ok_def sylvan_breakpoint_setall_phybp_def get_inf_def assertion_failed_def)
qed

lemma signalled_child_aborts_parent_witness:
  "parent_wait (sim_os\<lparr>os_waitpid := (\<lambda>p b w. (Inr (p, 9), w))\<rparr>) 42 (sim_dbg zero_inferior) = Abort"
proof (rule signalled_child_aborts_parent [where i = zero_inferior])
  show "WIFSIGNALED 9" by code_simp
qed (simp_all add: zero_bps_ok)


section \<open>Continuing from a breakpoint\<close>

text \<open>
  A system on which nothing fails and a single step is reported as such: a stop by
  \<open>SIGTRAP\<close> whose \<open>si_code\<close> is \<open>TRAP_TRACE\<close>. \<open>regs\<close> are the registers before the step,
  \<open>conts\<close> counts the requests to continue.
\<close>

definition SIGTRAP_STOP :: wait_status where "SIGTRAP_STOP = 0x057F"

definition TRAP_TRACE :: int where "TRAP_TRACE = 2"

definition stepping :: "'w os \<Rightarrow> (pid \<Rightarrow> 'w \<Rightarrow> user_regs) \<Rightarrow> ('w \<Rightarrow> nat) \<Rightarrow> bool" where
  "stepping os regs conts \<longleftrightarrow>
     (\<forall>p w. \<exists>st w'. os_waitpid os p True w = (Inr (0, st), w') \<and> regs p w' = regs p w \<and> conts w' = conts w) \<and>
     (\<forall>p w. \<exists>w'. os_waitpid os p False w = (Inr (p, SIGTRAP_STOP), w') \<and> conts w' = conts w) \<and>
     (\<forall>p w. \<exists>w'. os_getsiginfo os p w = (Inr TRAP_TRACE, w') \<and> conts w' = conts w) \<and>
     (\<forall>p w. \<exists>w'. os_getregs os p w = (Inr (regs p w), w') \<and> conts w' = conts w) \<and>
     (\<forall>p r w. \<exists>w'. os_setregs os p r w = (Inr (), w') \<and> conts w' = conts w) \<and>
     (\<forall>p w. \<exists>w'. os_step os p w = (Inr (), w') \<and> conts w' = conts w) \<and>
     (\<forall>p a w. \<exists>v w'. os_peek os p a w = (Inr v, w') \<and> v \<noteq> -1 \<and> conts w' = conts w) \<and>
     (\<forall>p a v w. \<exists>w'. os_poke os p a v w = (Inr (), w') \<and> conts w' = conts w)"

lemma steppingE:
  assumes "stepping os regs conts"
  obtains (all) "\<And>p w. \<exists>st w'. os_waitpid os p True w = (Inr (0, st), w') \<and> regs p w' = regs p w \<and> conts w' = conts w"
    "\<And>p w. \<exists>w'. os_waitpid os p False w = (Inr (p, SIGTRAP_STOP), w') \<and> conts w' = conts w"
    "\<And>p w. \<exists>w'. os_getsiginfo os p w = (Inr TRAP_TRACE, w') \<and> conts w' = conts w"
    "\<And>p w. \<exists>w'. os_getregs os p w = (Inr (regs p w), w') \<and> conts w' = conts w"
    "\<And>p r w. \<exists>w'. os_setregs os p r w = (Inr (), w') \<and> conts w' = conts w"
    "\<And>p w. \<exists>w'. os_step os p w = (Inr (), w') \<and> conts w' = conts w"
    "\<And>p a w. \<exists>v w'. os_peek os p a w = (Inr v, w') \<and> v \<noteq> -1 \<and> conts w' = conts w"
    "\<And>p a v w. \<exists>w'. os_poke os p a v w = (Inr (), w') \<and> conts w' = conts w"
  using assms unfolding stepping_def by blast

text \<open>After the step the wait ends with a code that is not success.\<close>

lemma stopped_after_step:
  assumes os: "stepping os regs conts" and s: "infp s = InfLive i" "0 < inf_pid i"
  shows "wp (sylvan_update_inf_status os True) (\<lambda>c s'. c = SYLVANC_PROC_STOPPED \<and> conts (world s') = conts (world s) \<and>
    infp s' = InfLive (i\<lparr>inf_status := SYLVAN_INFSTATE_STOPPED\<rparr>)) s"
proof (rule steppingE [OF os])
  assume wait: "\<And>p w. \<exists>w'. os_waitpid os p False w = (Inr (p, SIGTRAP_STOP), w') \<and> conts w' = conts w"
    and info: "\<And>p w. \<exists>w'. os_getsiginfo os p w = (Inr TRAP_TRACE, w') \<and> conts w' = conts w"
    and getregs: "\<And>p w. \<exists>w'. os_getregs os p w = (Inr (regs p w), w') \<and> conts w' = conts w"
  obtain w1 where w1: "os_waitpid os (inf_pid i) False (world s) = (Inr (inf_pid i, SIGTRAP_STOP), w1)" "conts w1 = conts (world s)"
    using wait by blast
  obtain w2 where w2: "os_getsiginfo os (inf_pid i) w1 = (Inr TRAP_TRACE, w2)" "conts w2 = conts w1" using info by blast
  obtain w3 where w3: "os_getregs os (inf_pid i) w2 = (Inr (regs (inf_pid i) w2), w3)" "conts w3 = conts w2" using getregs by blast
  have kind: "\<not> WIFEXITED SIGTRAP_STOP" "\<not> WIFSIGNALED SIGTRAP_STOP" "WIFSTOPPED SIGTRAP_STOP" by code_simp+
  have once: "wp (sys_retry (os_waitpid os (inf_pid i) False)) Q s = Q (Inr (inf_pid i, SIGTRAP_STOP)) (s\<lparr>world := w1\<rparr>)" for Q
    using w1 by (subst wp_sys_retry_once) (simp_all add: wp_sys)
  have "TRAP_TRACE \<noteq> SI_KERNEL" by (simp add: TRAP_TRACE_def SI_KERNEL_def)
  then show ?thesis
    using s w1 w2 w3 kind
    by (simp add: sylvan_update_inf_status_def status_reported_def stop_reason_def wp_assert_inf wp_bnd wp_get_inf once
        wp_upd_inf wp_sys wp_set_message snprintf_def formats)
qed

lemma step_over_stops:
  assumes os: "stepping os regs conts" and s: "infp s = InfLive i" "bps_ok i" "isactive i" "0 < inf_pid i" "n < inf_breakpoint_count i"
    and phys: "is_enabled_phy (bp_at i n)"
  shows "wp (step_over os (inf_pid i) n) (\<lambda>c s'. c = SYLVANC_PROC_STOPPED \<and> conts (world s') = conts (world s) \<and>
    (\<exists>i'. infp s' = InfLive i' \<and> bps_ok i' \<and> bp_map i' = (bp_map i)(bp_addr (bp_at i n) \<mapsto> False))) s"
proof (rule steppingE [OF os])
  assume peek: "\<And>p a w. \<exists>v w'. os_peek os p a w = (Inr v, w') \<and> v \<noteq> -1 \<and> conts w' = conts w"
    and poke: "\<And>p a v w. \<exists>w'. os_poke os p a v w = (Inr (), w') \<and> conts w' = conts w"
    and step: "\<And>p w. \<exists>w'. os_step os p w = (Inr (), w') \<and> conts w' = conts w"
  let ?b = "bp_at i n"
  obtain v w1 where w1: "os_peek os (inf_pid i) (bp_addr ?b) (world s) = (Inr v, w1)" "v \<noteq> -1" "conts w1 = conts (world s)"
    using peek by blast
  obtain w2 where w2: "os_poke os (inf_pid i) (bp_addr ?b) ((v AND NOT 0xFF) OR ucast (og_byte ?b)) w1 = (Inr (), w2)" "conts w2 = conts w1"
    using poke by blast
  obtain w3 where w3: "os_step os (inf_pid i) w2 = (Inr (), w3)" "conts w3 = conts w2" using step by blast
  have len: "n < length (inf_breakpoints i)" using s(2,5) by (rule bps_ok_slot_lt)
  let ?j = "set_slot n (?b\<lparr>is_enabled_log := False, is_enabled_phy := False\<rparr>) i"
  have j: "bps_ok ?j" "bp_map ?j = (bp_map i)(bp_addr ?b \<mapsto> False)" "inf_pid ?j = inf_pid i"
    using s(2,5) bps_ok_set_slot [of i n] bp_map_set_slot [of i n] by (simp_all add: set_slot_def)
  let ?u = "s\<lparr>infp := InfLive ?j, world := w3\<rparr>"
  have dis: "wp (sylvan_breakpoint_disable_ptr os n) Q s = Q SYLVANC_OK (s\<lparr>world := w2, infp := InfLive ?j\<rparr>)" for Q
    using s(1,3) phys len w1 w2
    by (simp add: sylvan_breakpoint_disable_ptr_def sylvan_breakpoint_remove_phybp_def wp_simps isactive_def set_slot_def Let_def)
  let ?k = "?j\<lparr>inf_status := SYLVAN_INFSTATE_STOPPED\<rparr>"
  have k: "bps_ok ?k" "bp_map ?k = bp_map ?j" using j(1) by (simp_all add: bp_map_def fun_eq_iff)
  have "wp (sylvan_update_inf_status os True) (\<lambda>c s'. c = SYLVANC_PROC_STOPPED \<and> conts (world s') = conts w3 \<and>
      infp s' = InfLive ?k) ?u"
    using stopped_after_step [OF os, of ?u ?j] s(4) j(3) by simp
  then have "wp (on_ok (sylvan_update_inf_status os True) (on_ok (sylvan_breakpoint_enable_ptr os n) (ret SYLVANC_OK)))
     (\<lambda>c s'. c = SYLVANC_PROC_STOPPED \<and> conts (world s') = conts (world s) \<and>
       (\<exists>i'. infp s' = InfLive i' \<and> bps_ok i' \<and> bp_map i' = (bp_map i)(bp_addr ?b \<mapsto> False))) ?u"
    unfolding wp_on_ok by (rule wp_mono) (use k j w1 w2 w3 in auto)
  with w3(1) show ?thesis
    by (simp add: step_over_def wp_on_ok [of "sylvan_breakpoint_disable_ptr os n"] dis wp_bnd wp_sys)
qed


definition sim_stepping :: "sim os" where
  "sim_stepping = sim_os\<lparr>os_waitpid := (\<lambda>p nohang w. (Inr (if nohang then (0, 0) else (p, SIGTRAP_STOP)), w)),
     os_getsiginfo := (\<lambda>p w. (Inr TRAP_TRACE, w)), os_peek := (\<lambda>p a w. (Inr 0, w))\<rparr>"

lemma sim_is_stepping: "stepping sim_stepping (\<lambda>p w. sim_regs w) (\<lambda>w. length (filter (\<lambda>x. x = Cont) (sim_log w)))"
  by (simp add: stepping_def sim_stepping_def sim_os_def)



section \<open>The life of an inferior\<close>

lemma destroy_idle:
  assumes "infp s = InfLive i" "\<not> isactive i" "freeable (inf_elf_table i)" "freeable (inf_dwarf_table i)"
  shows "wp (sylvan_inferior_destroy os) (\<lambda>c s'. c = SYLVANC_OK \<and> infp s' = InfFreed \<and>
    sylvan_inferior_count s' = sylvan_inferior_count s - 1 \<and> dbg.more s' = dbg.more s) s"
proof -
  have "wp (sylvan_terminate_or_detach os) Q s = Q SYLVANC_OK s" for Q
    using assms(1,2) by (simp add: sylvan_terminate_or_detach_def wp_simps)
  moreover have "wp (sylvan_sym_destroy i) (\<lambda>r. wp (case r of (code, i) \<Rightarrow>
         bnd (upd_inf (\<lambda>_. i)) (\<lambda>_.
         if code \<noteq> SYLVANC_OK then ret code
         else bnd (modify (\<lambda>s. s\<lparr>infp := InfFreed, sylvan_inferior_count := sylvan_inferior_count s - 1\<rparr>)) (\<lambda>_.
           ret SYLVANC_OK)))
      (\<lambda>c s'. c = SYLVANC_OK \<and> infp s' = InfFreed \<and> sylvan_inferior_count s' = sylvan_inferior_count s - 1 \<and> dbg.more s' = dbg.more s)) s"
    by (rule wp_mono [OF sym_destroy_spec [OF assms(3,4)]]) (auto simp: wp_simps assms(1))
  ultimately show ?thesis
    using assms(1) by (simp add: sylvan_inferior_destroy_def wp_check_inf wp_on_ok wp_bnd wp_get_inf)
qed

lemma destroy_spec:
  assumes "infp s = InfLive i" "\<not> isactive i" "freeable (inf_elf_table i)" "freeable (inf_dwarf_table i)"
  shows "wp (sylvan_inferior_destroy os) (\<lambda>c s'. c = SYLVANC_OK \<and> infp s' = InfFreed \<and>
    sylvan_inferior_count s' = sylvan_inferior_count s - 1) s"
  by (rule wp_mono [OF destroy_idle [OF assms]]) simp

text \<open>C35: Creating an inferior gives a valid one without a process, under a number that no earlier
  one has, and destroying it frees it and takes it out of the count.\<close>

theorem inferior_lifecycle:
  assumes "malloc_succeeds os"
  shows "wp (sylvan_inferior_create os) (\<lambda>c s'. c = SYLVANC_OK \<and> inf_inv s' \<and> sylvan_inferior_idx s' = sylvan_inferior_idx s + 1 \<and>
    (\<exists>i. infp s' = InfLive i \<and> inf_id i = sylvan_inferior_idx s \<and> \<not> isactive i \<and> inf_breakpoint_count i = 0) \<and>
    wp (sylvan_inferior_destroy os) (\<lambda>c s''. c = SYLVANC_OK \<and> infp s'' = InfFreed \<and>
      sylvan_inferior_count s'' = sylvan_inferior_count s) s') (s :: ('a, 'b) dbg_scheme)"
proof -
  define Q where "Q = (\<lambda>c (s' :: ('a, 'b) dbg_scheme). c = SYLVANC_OK \<and> inf_inv s' \<and> sylvan_inferior_idx s' = sylvan_inferior_idx s + 1 \<and>
    (\<exists>i. infp s' = InfLive i \<and> inf_id i = sylvan_inferior_idx s \<and> \<not> isactive i \<and> inf_breakpoint_count i = 0) \<and>
    wp (sylvan_inferior_destroy os) (\<lambda>c s''. c = SYLVANC_OK \<and> infp s'' = InfFreed \<and>
      sylvan_inferior_count s'' = sylvan_inferior_count s) s')"
  let ?made = "\<lambda>w e d. s\<lparr>world := w, sylvan_inferior_idx := sylvan_inferior_idx s + 1,
      sylvan_inferior_count := sylvan_inferior_count s + 1,
      infp := InfLive (zero_inferior\<lparr>inf_elf_table := e, inf_dwarf_table := d, inf_id := sylvan_inferior_idx s\<rparr>)\<rparr>"
  have made: "Q SYLVANC_OK (?made w e d)" if "table_ok e" "table_ok d" for w e d
  proof -
    let ?t = "?made w e d"
    let ?i = "zero_inferior\<lparr>inf_elf_table := e, inf_dwarf_table := d, inf_id := sylvan_inferior_idx s\<rparr>"
    have i: "\<not> isactive ?i" "bps_ok ?i" "inf_breakpoint_count ?i = 0"
      using zero_bps_ok by (simp_all add: isactive_def zero_inferior_def bps_ok_def)
    have "wp (sylvan_inferior_destroy os) (\<lambda>c s''. c = SYLVANC_OK \<and> infp s'' = InfFreed \<and>
        sylvan_inferior_count s'' = sylvan_inferior_count ?t - 1) ?t"
      using that i by (intro destroy_spec [where i = ?i]) (simp_all add: table_ok_freeable)
    with i that show ?thesis by (simp add: Q_def inf_ok_def zero_inferior_def isactive_def table_ok_searchable)
  qed
  have init: "wp (sylvan_sym_init os zero_inferior) (\<lambda>r. wp (case r of (code, i) \<Rightarrow>
           if code \<noteq> SYLVANC_OK then ret code
           else bnd (gets sylvan_inferior_idx) (\<lambda>idx.
             bnd (modify (\<lambda>s. s\<lparr>sylvan_inferior_idx := idx + 1,
                   sylvan_inferior_count := sylvan_inferior_count s + 1,
                   infp := InfLive (i\<lparr>inf_id := idx\<rparr>)\<rparr>)) (\<lambda>_.
               ret SYLVANC_OK))) Q) (s\<lparr>world := w\<rparr>)" for w
    by (rule wp_mono [OF sym_init_spec [OF assms]]) (clarsimp simp: world_only_def wp_bnd wp_gets wp_modify wp_ret made)
  have "wp (sylvan_inferior_create os) Q s"
    unfolding sylvan_inferior_create_def wp_bnd [of "sys _"]
    by (rule wp_malloc [OF assms], simp only: sum.case wp_bnd [of "sylvan_sym_init _ _"], rule init)
  then show ?thesis by (simp only: Q_def)
qed

theorem inferior_lifecycle_witness:
  "wp (sylvan_inferior_create sim_os) (\<lambda>c s'. c = SYLVANC_OK \<and> inf_inv s' \<and> sylvan_inferior_idx s' = 2 \<and>
    (\<exists>i. infp s' = InfLive i \<and> inf_id i = 1 \<and> \<not> isactive i \<and> inf_breakpoint_count i = 0) \<and>
    wp (sylvan_inferior_destroy sim_os) (\<lambda>c s''. c = SYLVANC_OK \<and> infp s'' = InfFreed \<and>
      sylvan_inferior_count s'' = 1) s') (sim_dbg zero_inferior)"
  using inferior_lifecycle [OF sim_malloc, of "sim_dbg zero_inferior"] by (simp add: sim_dbg_def)

end
