(* ===== verification/Frames.thy ===== *)
theory Frames
  imports Process_Properties Command_Properties
begin

text \<open>
  What the library leaves alone. The locale \<open>frame\<close> has the laws that a relation between
  the states before and after must have for every function of the library to respect it. Two
  relations have them: the state of the user interface is not touched, and neither a message
  with a percent sign appears, so that printing the message of the last error, which the
  interface passes as a format, is defined.
\<close>

section \<open>Messages without a percent sign\<close>

definition plain :: "string \<Rightarrow> bool" where
  "plain t \<longleftrightarrow> CHR ''%'' \<notin> set t"

fun plain_arg :: "farg \<Rightarrow> bool" where
  "plain_arg (FStr t) = plain t"
| "plain_arg (FChar c) = (c \<noteq> CHR ''%'')"
| "plain_arg _ = True"

lemma plain_simps [simp]:
  "plain []" "plain (c # t) \<longleftrightarrow> c \<noteq> CHR ''%'' \<and> plain t" "plain (t @ u) \<longleftrightarrow> plain t \<and> plain u"
  by (auto simp: plain_def)

lemma plain_take [simp]: "plain t \<Longrightarrow> plain (take n t)"
  by (auto simp: plain_def dest: in_set_takeD)

lemma plain_replicate [simp]: "c \<noteq> CHR ''%'' \<Longrightarrow> plain (replicate n c)"
  by (simp add: plain_def)

lemma plain_digits [simp]: "2 \<le> b \<Longrightarrow> b \<le> 16 \<Longrightarrow> plain (digits b n)"
  using digits_base_digit [of b n] by (auto simp: plain_def base_digit_def digit_val_def)

lemma upper_percent: "to_upper c = CHR ''%'' \<longleftrightarrow> c = CHR ''%''"
proof (cases "97 \<le> (of_char c :: nat) \<and> (of_char c :: nat) \<le> 122")
  case True
  then have "of_char c - 32 < (256 :: nat)" by linarith
  with True have "(of_char (to_upper c) :: nat) = of_char c - 32" by (simp add: to_upper_def)
  with True have "(of_char (to_upper c) :: nat) \<noteq> of_char CHR ''%''" "(of_char c :: nat) \<noteq> of_char CHR ''%''" by auto
  then show ?thesis by auto
qed (auto simp: to_upper_def)

lemma plain_upper: "plain t \<Longrightarrow> plain (map to_upper t)"
proof -
  assume "plain t"
  then have "to_upper c \<noteq> CHR ''%''" if "c \<in> set t" for c using that upper_percent [of c] by (auto simp: plain_def)
  then show ?thesis unfolding plain_def set_map by (metis imageE)
qed

lemma plain_dec: "plain (dec_string i)"
  by (simp add: dec_string_def)

lemma plain_hex: "plain (hex_string d n)"
  by (simp add: hex_string_def Let_def plain_upper)

lemma plain_convert: "convert_arg d a = Some t \<Longrightarrow> plain_arg a \<Longrightarrow> plain t"
  by (cases a) (auto simp: convert_arg_def Let_def plain_dec plain_hex split: if_splits option.splits)

lemma plain_pad: "plain t \<Longrightarrow> plain (pad left zero w t)"
  by (simp add: pad_def)

lemma plain_render:
  "render_directive d args = Some (t, rest) \<Longrightarrow> list_all plain_arg args \<Longrightarrow> plain t \<and> list_all plain_arg rest"
  by (auto simp: render_directive.simps Let_def plain_pad plain_convert split: if_splits list.splits farg.splits)

declare render_directive.simps [simp del]

lemma plain_cformat: "cformat fmt args = Some t \<Longrightarrow> list_all plain_arg args \<Longrightarrow> plain t"
proof (induction fmt args arbitrary: t rule: cformat.induct)
  case (2 c cs args)
  show ?case
  proof (cases "c = CHR ''%''")
    case False
    with 2 show ?thesis by (auto simp: cformat.simps)
  next
    case True
    with 2(3) obtain d rest u args' v where
      d: "parse_directive cs = Some (d, rest)" "render_directive d args = Some (u, args')" "cformat rest args' = Some v" "t = u @ v"
      by (auto simp: cformat.simps split: option.splits)
    with plain_render 2(2) [of "(d, rest)" d rest "(u, args')" u args' v] 2(4) True show ?thesis by auto
  qed
qed (simp add: cformat.simps)

definition plain_system :: "'w os \<Rightarrow> bool" where
  "plain_system os \<longleftrightarrow> (\<forall>e. plain (os_strerror os e))"

lemma plain_takeWhile: "plain xs \<Longrightarrow> plain (takeWhile P xs)"
  by (induction xs) simp_all

lemma plain_errno_text: "plain msg \<Longrightarrow> plain err \<Longrightarrow> plain (errno_text msg err)"
  unfolding errno_text_def cstr_def by (rule plain_takeWhile) simp

lemma plain_strerror: "plain (sylvan_strerror c)"
  by (cases c) simp_all


section \<open>Relations that every function respects\<close>

text \<open>Whenever \<open>m\<close> returns.\<close>

definition frames_by :: "('s \<Rightarrow> 's \<Rightarrow> bool) \<Rightarrow> ('s, 'a) prog \<Rightarrow> bool" where
  "frames_by R m \<longleftrightarrow> (\<forall>s r s'. m s = Ret (r, s') \<longrightarrow> R s s')"

lemma frames_byD: "frames_by R m \<Longrightarrow> m s = Ret (r, s') \<Longrightarrow> R s s'"
  by (simp add: frames_by_def)

named_theorems framing

locale stable =
  fixes R :: "'s \<Rightarrow> 's \<Rightarrow> bool"
  assumes R_refl [simp]: "R s s" and R_trans: "R s t \<Longrightarrow> R t u \<Longrightarrow> R s u"
begin

lemma frames_ret [framing]: "frames_by R (ret a)"
  by (simp add: frames_by_def ret_def)

lemma frames_bnd [framing]: "frames_by R m \<Longrightarrow> (\<And>a. frames_by R (k a)) \<Longrightarrow> frames_by R (bnd m k)"
  unfolding frames_by_def bnd_def by (auto split: outcome.splits) (metis R_trans)

lemma frames_undefined [framing]: "frames_by R undefined_behaviour" "frames_by R assertion_failed"
  by (simp_all add: frames_by_def undefined_behaviour_def assertion_failed_def)

lemma frames_assert [framing]: "frames_by R m \<Longrightarrow> frames_by R (c_assert b m)"
  by (simp add: c_assert_def frames_undefined)

lemma frames_cases [framing]:
  "(b \<Longrightarrow> frames_by R m) \<Longrightarrow> (\<not> b \<Longrightarrow> frames_by R m') \<Longrightarrow> frames_by R (if b then m else m')"
  "(\<And>e. frames_by R (f e)) \<Longrightarrow> (\<And>r. frames_by R (g r)) \<Longrightarrow> frames_by R (case x of Inl e \<Rightarrow> f e | Inr r \<Rightarrow> g r)"
  "frames_by R m \<Longrightarrow> (\<And>r. frames_by R (g r)) \<Longrightarrow> frames_by R (case y of None \<Rightarrow> m | Some r \<Rightarrow> g r)"
  "(\<And>a b. frames_by R (h a b)) \<Longrightarrow> frames_by R (case z of (a, b) \<Rightarrow> h a b)"
  by (auto split: sum.splits option.splits prod.splits)

lemma frames_gets [framing]: "frames_by R (gets h)"
  by (simp add: frames_by_def gets_def)

lemma frames_modify [framing]: "(\<And>s. R s (f s)) \<Longrightarrow> frames_by R (modify f)"
  by (simp add: frames_by_def modify_def)

end

text \<open>\<open>good_arg\<close>: the arguments of a message for which the law of messages holds.\<close>

locale frame = stable R for R :: "('w, 'm) dbg_scheme \<Rightarrow> ('w, 'm) dbg_scheme \<Rightarrow> bool" +
  fixes good_arg :: "farg \<Rightarrow> bool" and good_os :: "'w os \<Rightarrow> bool"
  assumes R_updates [simp]: "R s (s\<lparr>infp := p\<rparr>)" "R s (s\<lparr>world := w\<rparr>)" "R s (s\<lparr>errno := e\<rparr>)" "R s (s\<lparr>errno := e, world := w\<rparr>)"
      "R s (s\<lparr>infp := p, sylvan_inferior_count := n\<rparr>)" "R s (s\<lparr>sylvan_inferior_idx := k, sylvan_inferior_count := n, infp := p\<rparr>)"
    and good_num [simp]: "good_arg (FInt i)" "good_arg (FLong a)"
    and set_code [framing]: "frames_by R (sylvan_set_code c)"
    and message [framing]: "list_all good_arg args \<Longrightarrow> frames_by R (sylvan_set_message c fmt args)"
    and errno_msg [framing]: "list_all good_arg args \<Longrightarrow> good_os os \<Longrightarrow> frames_by R (sylvan_set_errno_msg os c fmt args)"
begin

lemma frames_primitives [framing]:
  "frames_by R get_inf" "frames_by R (upd_inf f)" "frames_by R is_null" "frames_by R (sys c)" "frames_by R (extern d)" "frames_by R (set_errno e)"
  by (auto simp: frames_by_def get_inf_def upd_inf_def is_null_def gets_def sys_def syscall_def extern_def set_errno_def modify_def
      split: inferior_ptr.splits prod.splits sum.splits)

lemma frames_slots [framing]: "frames_by R (get_bp n)" "frames_by R (upd_bp n f)"
  unfolding get_bp_def upd_bp_def by (intro framing)+

lemma frames_retry [framing]:
  fixes c :: "'w \<Rightarrow> (int + 'r) \<times> 'w"
  shows "frames_by R (sys_retry c :: ('w, 'm, int + 'r) lib)"
proof -
  have step: "R s u" if "syscall c s = (x, u)" for s u :: "('w, 'm) dbg_scheme" and x
    using that by (auto simp: syscall_def split: prod.splits sum.splits)
  let ?keeps = "\<lambda>call :: ('w, 'm) dbg_scheme \<Rightarrow> (int + 'r) \<times> ('w, 'm) dbg_scheme. \<forall>v. R v (snd (call v))"
  have "?keeps call \<longrightarrow> R s (snd y)" if "retry_eintr call s = Some y" for call s y
  proof (rule retry_eintr.raw_induct [OF _ that], rule impI)
    fix retry and call :: "('w, 'm) dbg_scheme \<Rightarrow> (int + 'r) \<times> ('w, 'm) dbg_scheme" and s y
    assume IH: "\<And>call s y. retry call s = Some y \<Longrightarrow> ?keeps call \<longrightarrow> R s (snd y)" and call: "?keeps call"
      and body: "(case call s of
        (Inl e, s') \<Rightarrow> if e = EINTR then retry call s' else Some (Inl e, s')
      | (Inr r, s') \<Rightarrow> Some (Inr r, s')) = Some y"
    obtain x u where x: "call s = (x, u)" by fastforce
    then have u: "R s u" using call by (metis snd_conv)
    show "R s (snd y)"
    proof (cases "x = Inl EINTR")
      case True
      then have "R u (snd y)" using IH [of call u y] call body x by simp
      with u show ?thesis by (rule R_trans)
    next
      case False
      then have "y = (x, u)" using body x by (simp split: sum.splits if_splits)
      then show ?thesis using u by simp
    qed
  qed
  from this [of "syscall c"] step have "retry_eintr (syscall c) s = Some y \<Longrightarrow> R s (snd y)"
    for s :: "('w, 'm) dbg_scheme" and y by (metis prod.collapse)
  then show ?thesis by (fastforce simp: frames_by_def sys_retry_def split: option.splits)
qed

lemma frames_on_ok [framing]: "frames_by R m \<Longrightarrow> frames_by R k \<Longrightarrow> frames_by R (on_ok m k)"
  unfolding on_ok_def by (intro framing)

lemma frames_assert_inf [framing]: "frames_by R m \<Longrightarrow> frames_by R (assert_inf m)"
  unfolding assert_inf_def by (intro framing)

lemma frames_check_inf [framing]: "frames_by R m \<Longrightarrow> frames_by R (check_inf m)"
  unfolding check_inf_def by (intro framing)


section \<open>The functions of the library\<close>

lemma frames_find_from [framing]: "frames_by R (find_from n a i)"
  by (induction n a i rule: find_from.induct) (subst find_from.simps, auto intro!: framing)

lemma frames_find [framing]: "frames_by R (sylvan_breakpoint_find_by_addr a)"
  unfolding sylvan_breakpoint_find_by_addr_def by (intro framing)+

lemma frames_phybp [framing]:
  assumes os: "good_os os"
  shows "frames_by R (sylvan_breakpoint_create_phybp os n)" "frames_by R (sylvan_breakpoint_remove_phybp os n)"
  unfolding sylvan_breakpoint_create_phybp_def sylvan_breakpoint_remove_phybp_def Let_def
  by (intro framing os; simp)+

lemma frames_ptr [framing]:
  assumes os: "good_os os"
  shows "frames_by R (sylvan_breakpoint_enable_ptr os n)" "frames_by R (sylvan_breakpoint_disable_ptr os n)"
  unfolding sylvan_breakpoint_enable_ptr_def sylvan_breakpoint_disable_ptr_def
  by (intro framing os)+

lemma frames_breakpoint [framing]:
  assumes os: "good_os os"
  shows "frames_by R (sylvan_breakpoint_enable os a)" "frames_by R (sylvan_breakpoint_disable os a)"
    "frames_by R (sylvan_breakpoint_set os a)" "frames_by R (sylvan_breakpoint_unset os a)"
  unfolding sylvan_breakpoint_enable_def sylvan_breakpoint_disable_def sylvan_breakpoint_set_def
    sylvan_breakpoint_unset_def Let_def
  by (intro framing os)+

lemma frames_slots_loop [framing]: "(\<And>n. frames_by R (body n)) \<Longrightarrow> frames_by R (for_slots body n i)"
  by (induction body n i rule: for_slots.induct) (subst for_slots.simps, auto intro!: framing)

lemma frames_clear_from [framing]: "good_os os \<Longrightarrow> frames_by R (clear_from os n)"
  by (induction n) (auto intro!: framing)

lemma frames_reset [framing]: "frames_by R sylvan_breakpoint_reset_phybp"
  unfolding sylvan_breakpoint_reset_phybp_def by (intro framing)

lemma frames_bulk [framing]:
  assumes os: "good_os os"
  shows "frames_by R (sylvan_breakpoint_clearall os)"
    "frames_by R (sylvan_breakpoint_setall_phybp os)" "frames_by R (sylvan_breakpoint_unsetall_phybp os)"
  unfolding sylvan_breakpoint_clearall_def sylvan_breakpoint_setall_phybp_def
    sylvan_breakpoint_unsetall_phybp_def
  by (intro framing os)+

lemma frames_status [framing]:
  assumes os: "good_os os"
  shows "frames_by R (stop_reason os i)" "frames_by R (status_lost os i e)" "frames_by R (status_reported os i b st)"
    "frames_by R (sylvan_update_inf_status os b)"
  unfolding stop_reason_def status_lost_def status_reported_def sylvan_update_inf_status_def
  by (intro framing os; simp)+

lemma frames_end [framing]:
  assumes os: "good_os os"
  shows "frames_by R (sylvan_kill os)" "frames_by R (detach_release os)" "frames_by R (sylvan_detach os)" "frames_by R (sylvan_terminate_or_detach os)"
  unfolding sylvan_kill_def detach_release_def sylvan_detach_def sylvan_terminate_or_detach_def
  by (intro framing os; simp)+


text \<open>Symbols and paths.\<close>

lemma frames_sym_tables [framing]:
  "frames_by R (sylvan_sym_table_init os t)" "frames_by R (sylvan_sym_table_destroy t)" "frames_by R (sort_table t)"
  unfolding sylvan_sym_table_init_def sylvan_sym_table_destroy_def sort_table_def by (intro framing)+

lemma frames_sym_pair [framing]: "frames_by R (sylvan_sym_init os i)" "frames_by R (sylvan_sym_destroy i)"
  unfolding sylvan_sym_init_def sylvan_sym_destroy_def Let_def by (intro framing)+

lemma frames_sym_store [framing]: "frames_by R (sym_store os name a t)"
  unfolding sym_store_def by (intro framing)

lemma frames_sym_add [framing]: "frames_by R (sylvan_sym_add os name a t)"
  unfolding sylvan_sym_add_def Let_def by (intro framing)

lemma frames_load_dies [framing]: "frames_by R (load_dies os ds t)"
  by (induction os ds t rule: load_dies.induct) (auto intro!: framing split: option.splits)

lemma frames_load_units [framing]: "frames_by R (load_units os us t)"
  by (induction os us t rule: load_units.induct) (auto intro!: framing)

lemma frames_fold [framing]: "(\<And>x b. frames_by R (f x b)) \<Longrightarrow> frames_by R (fold_prog f xs b)"
  by (induction xs arbitrary: b) (auto intro!: framing)

lemma frames_elf_symbol [framing]: "frames_by R (load_elf_symbol os y t)"
  unfolding load_elf_symbol_def by (auto intro!: framing split: option.splits list.splits)

lemma frames_elf_section [framing]: "frames_by R (load_elf_section os sc t)"
  unfolding load_elf_section_def Let_def by (intro framing)

lemma frames_load [framing]:
  assumes os: "good_os os"
  shows "frames_by R (sylvan_sym_load_dwarf os p t)" "frames_by R (sylvan_sym_load_elf os p t)" "frames_by R sym_sort_tables"
    "frames_by R (sym_load_elf_table os)" "frames_by R (sylvan_sym_load_tables os)"
  unfolding sylvan_sym_load_dwarf_def sylvan_sym_load_elf_def sym_sort_tables_def sym_load_elf_table_def
    sylvan_sym_load_tables_def
  by (intro framing os; simp)+

lemma frames_search_PATH [framing]: "frames_by R (search_PATH os c ts)"
  by (induction ts) (auto intro!: framing simp: Let_def)

lemma frames_paths [framing]:
  assumes os: "good_os os"
  shows "frames_by R (sylvan_real_path os f)" "frames_by R (sylvan_find_in_PATH os f)" "frames_by R (sylvan_canonical_path os f)"
    "frames_by R (sylvan_real_path_pid os p)"
  unfolding sylvan_real_path_def sylvan_find_in_PATH_def sylvan_canonical_path_def sylvan_real_path_pid_def
  by (intro framing os; simp)+

text \<open>The inferior.\<close>

lemma frames_attach [framing]:
  assumes os: "good_os os"
  shows "frames_by R (attach_finish os pid path)" "frames_by R (attach_wait os pid path)" "frames_by R (sylvan_attach os pid)"
  unfolding attach_finish_def attach_wait_def sylvan_attach_def
  by (intro framing os; simp)+

lemma frames_resume [framing]:
  assumes os: "good_os os"
  shows "frames_by R (step_over os pid n)" "frames_by R (sylvan_handle_breakpoint_at_current_addr os)"
    "frames_by R (sylvan_validate_process_state os)" "frames_by R (sylvan_continue os)" "frames_by R (sylvan_stepinst os)"
  unfolding step_over_def sylvan_handle_breakpoint_at_current_addr_def sylvan_validate_process_state_def
    sylvan_continue_def sylvan_stepinst_def
  by (intro framing os; simp)+

lemma frames_settings [framing]:
  assumes os: "good_os os"
  shows "frames_by R (sylvan_get_regs os)" "frames_by R (sylvan_set_regs os regs)" "frames_by R (sylvan_set_args os x)"
    "frames_by R (sylvan_get_memory os a)"
  unfolding sylvan_get_regs_def sylvan_set_regs_def sylvan_set_args_def sylvan_get_memory_def
  by (intro framing os; simp)+

lemma frames_filepath [framing]: "good_os os \<Longrightarrow> good_arg (FStr f) \<Longrightarrow> frames_by R (sylvan_set_filepath os (Some f))"
  unfolding sylvan_set_filepath_def option.case by (intro framing; simp)

lemma frames_create [framing]: "frames_by R (sylvan_inferior_create os)"
  unfolding sylvan_inferior_create_def by (intro framing) simp

lemma frames_destroy [framing]: "good_os os \<Longrightarrow> frames_by R (sylvan_inferior_destroy os)"
  unfolding sylvan_inferior_destroy_def by (intro framing) simp_all

text \<open>Memory.\<close>

lemma frames_set_memory_from: "good_os os \<Longrightarrow> frames_by R (set_memory_from os a bytes)"
proof (induction os a bytes rule: set_memory_from.induct)
  case (1 os a bytes)
  have "frames_by R (poke_failed os a)" using 1(2) unfolding poke_failed_def by (intro framing; simp)
  moreover from this have "frames_by R (set_memory_tail os a bytes)" using 1(2) unfolding set_memory_tail_def Let_def by (intro framing; simp)
  ultimately show ?case using 1 by (subst set_memory_from.simps) (auto intro!: framing)
qed

lemma frames_set_memory [framing]: "good_os os \<Longrightarrow> frames_by R (sylvan_set_memory os a data)"
  unfolding sylvan_set_memory_def by (intro framing frames_set_memory_from; simp)

text \<open>What takes a name from the user, and what reports what the child wrote.\<close>

lemma frames_label [framing]: "good_arg (FStr name) \<Longrightarrow> frames_by R (sylvan_get_label_addr name)"
  unfolding sylvan_get_label_addr_def sym_lookup_def by (intro framing; simp)

lemma frames_function [framing]:
  "good_os os \<Longrightarrow> good_arg (FStr f) \<Longrightarrow> frames_by R (sylvan_set_breakpoint_function os (Some f))"
  unfolding sylvan_set_breakpoint_function_def option.case by (intro framing; simp)

lemma frames_parent [framing]:
  assumes os: "good_os os"
  shows "frames_by R (child_report os t)" "frames_by R (parent_wait os pid)" "frames_by R (handle_parent os pid)"
  unfolding child_report_def parent_wait_def handle_parent_def sylvan_update_wait_status_def
  by (intro framing os; simp)+

lemma frames_run [framing]:
  "good_os os \<Longrightarrow> (\<And>f. good_arg (FStr f)) \<Longrightarrow> frames_by R (sylvan_run os)"
  unfolding sylvan_run_def by (intro framing; simp)

end


section \<open>The user interface\<close>

text \<open>Messages without a percent sign stay so.\<close>

definition plain_error :: "('w, 'm) dbg_scheme \<Rightarrow> bool" where
  "plain_error s \<longleftrightarrow> plain (ec_message (sylvan_last_error s))"

definition same_ui :: "('w, 'm) dbg_scheme \<Rightarrow> ('w, 'm) dbg_scheme \<Rightarrow> bool" where
  "same_ui s s' \<longleftrightarrow> dbg.more s' = dbg.more s \<and> (plain_error s \<longrightarrow> plain_error s')"

interpretation ui_frame: frame same_ui plain_arg plain_system
proof
  show "frames_by same_ui (sylvan_set_code c)" for c
    by (simp add: frames_by_def sylvan_set_code_def same_ui_def plain_error_def plain_strerror)
  show "list_all plain_arg args \<Longrightarrow> frames_by same_ui (sylvan_set_message c fmt args)" for c fmt args
    by (auto simp: frames_by_def sylvan_set_message_def same_ui_def plain_error_def snprintf_def dest: plain_cformat split: option.splits)
  show "list_all plain_arg args \<Longrightarrow> plain_system os \<Longrightarrow> frames_by same_ui (sylvan_set_errno_msg os c fmt args)" for os c fmt args
    by (auto simp: frames_by_def sylvan_set_errno_msg_eq same_ui_def plain_error_def plain_system_def plain_errno_text
        dest: plain_cformat split: option.splits)
qed (simp_all add: same_ui_def plain_error_def)

abbreviation frames :: "('w, 'm, 'a) lib \<Rightarrow> bool" where
  "frames \<equiv> frames_by same_ui"

lemmas framesD = frames_byD [where R = same_ui]

lemma plain_filepath: "plain_system os \<Longrightarrow> plain f \<Longrightarrow> frames (sylvan_set_filepath os (Some f))"
  by (rule ui_frame.frames_filepath) simp_all

text \<open>Whatever the arguments of a message are, the state of the interface is not touched.\<close>

definition same_more :: "('w, 'm) dbg_scheme \<Rightarrow> ('w, 'm) dbg_scheme \<Rightarrow> bool" where
  "same_more s s' \<longleftrightarrow> dbg.more s' = dbg.more s"

interpretation more_frame: frame same_more "\<lambda>_. True" "\<lambda>_. True"
  by unfold_locales
    (auto simp: same_more_def frames_by_def sylvan_set_code_def sylvan_set_message_def sylvan_set_errno_msg_eq split: option.splits)

end
