(* ===== verification/Sessions.thy ===== *)
theory Sessions
  imports Frames Registry_Properties Disassembly_Properties
begin

text \<open>
  Sequences of commands of the user: from a valid state, whatever the system answers, the
  commands return without a failed assertion or undefined behaviour, and the state is valid
  again. \<open>allowed\<close> lists the words that are excluded, which the code does not check.
\<close>

section \<open>States between commands\<close>

definition ui_ok :: "('w, 'm) ui_scheme \<Rightarrow> bool" where
  "ui_ok s \<longleftrightarrow> plain_error s \<and> command_hash s = static_commands \<and> alias_table s = static_aliases"

definition session_ok :: "('w, 'm) ui_scheme \<Rightarrow> bool" where
  "session_ok s \<longleftrightarrow> inf_inv s \<and> ui_ok s"

text \<open>The part of the state behind the fields of the library.\<close>

lemma same_ui_ok: "same_ui s s' \<Longrightarrow> ui_ok s \<Longrightarrow> ui_ok s'"
  by (cases s, cases s') (auto simp: same_ui_def ui_ok_def plain_error_def)

lemma same_ui_out: "same_ui s s' \<Longrightarrow> con_out s' = con_out s"
  by (cases s, cases s') (auto simp: same_ui_def)

lemma session_ok_updates [simp]:
  "session_ok (s\<lparr>con_out := t\<rparr>) = session_ok s" "session_ok (s\<lparr>errno := e\<rparr>) = session_ok s"
  "session_ok (s\<lparr>world := w\<rparr>) = session_ok s"
  by (simp_all add: session_ok_def ui_ok_def plain_error_def inf_inv_def)

lemma wp_framed: "wp m P s \<Longrightarrow> frames m \<Longrightarrow> ui_ok s \<Longrightarrow> wp m (\<lambda>r s'. P r s' \<and> ui_ok s') s"
  by (auto simp: wp_iff dest!: framesD intro: same_ui_ok)

definition safe :: "('w, 'm, 'a) uprog \<Rightarrow> bool" where
  "safe m \<longleftrightarrow> (\<forall>s. session_ok s \<longrightarrow> wp m (\<lambda>_. session_ok) s)"

lemma safeD: "safe m \<Longrightarrow> session_ok s \<Longrightarrow> wp m (\<lambda>_. session_ok) s"
  by (simp add: safe_def)

lemma safe_lib: "keeps_inv m \<Longrightarrow> frames m \<Longrightarrow> safe m"
  unfolding safe_def session_ok_def by (auto intro: wp_framed keeps_invD)

lemma safe_ret: "safe (ret a)"
  by (simp add: safe_def wp_simps)

lemma safe_bnd: "safe m \<Longrightarrow> (\<And>a. safe (k a)) \<Longrightarrow> safe (bnd m k)"
  unfolding safe_def by (auto intro: wp_bndI)

text \<open>Steps whose result is known.\<close>

lemma safe_bnd_get_inf: "(\<And>i. inf_ok i \<Longrightarrow> safe (k i)) \<Longrightarrow> safe (bnd get_inf k)"
  by (auto simp: safe_def session_ok_def inf_inv_def wp_simps)

lemma safe_bnd_is_null: "safe (k False) \<Longrightarrow> safe (bnd is_null k)"
  by (auto simp: safe_def session_ok_def inf_inv_def wp_simps)

lemma safe_bnd_gets: "(\<And>x. safe (k x)) \<Longrightarrow> safe (bnd (gets f) k)"
  by (simp add: safe_def wp_simps)

lemma safe_bnd_set_errno: "safe (k ()) \<Longrightarrow> safe (bnd (set_errno e) k)"
  by (simp add: safe_def wp_simps)

lemma safe_bnd_strtol: "(\<And>v rest e. strtol b t = (v, rest, e) \<Longrightarrow> safe (k (v, rest))) \<Longrightarrow> safe (bnd (c_strtol b t) k)"
  by (auto simp: safe_def wp_simps split: prod.splits)

lemma safe_bnd_malloc: "malloc_succeeds os \<Longrightarrow> safe (k (Inr ())) \<Longrightarrow> safe (bnd (sys (os_malloc os n)) k)"
  unfolding safe_def wp_bnd by (auto intro: wp_malloc)

lemma safe_bnd_get_bp: "n < MAX_BREAKPOINTS \<Longrightarrow> (\<And>b. safe (k b)) \<Longrightarrow> safe (bnd (get_bp n) k)"
  by (auto simp: safe_def session_ok_def inf_inv_def inf_ok_def bps_ok_def wp_simps)

lemma safe_if: "(b \<Longrightarrow> safe m) \<Longrightarrow> (\<not> b \<Longrightarrow> safe m') \<Longrightarrow> safe (if b then m else m')"
  by simp

lemma safe_prod: "(\<And>a b. safe (f a b)) \<Longrightarrow> safe (case z of (a, b) \<Rightarrow> f a b)"
  by (cases z) auto

lemma safe_option: "safe m \<Longrightarrow> (\<And>x. safe (f x)) \<Longrightarrow> safe (case y of None \<Rightarrow> m | Some x \<Rightarrow> f x)"
  by (cases y) auto

text \<open>Printing.\<close>

lemma safe_put: "safe (put f t)"
  by (simp add: safe_def wp_simps)

lemma safe_printf: "cformat fmt args \<noteq> None \<Longrightarrow> safe (fprintf f fmt args)"
  by (auto simp: safe_def wp_simps)

lemma safe_coloured:
  assumes "cformat fmt args \<noteq> None"
  shows "safe (sylvan_print_error fmt args)" "safe (sylvan_print_ok fmt args)" "safe (sylvan_print_instruction fmt args)"
  using assms by (auto simp: safe_def print_defs wp_simps)

lemma safe_fail: "CHR ''%'' \<notin> set m \<Longrightarrow> safe (fail m)"
  unfolding fail_def by (intro safe_bnd safe_coloured safe_ret) (simp add: cformat_plain)

lemma safe_last_error: "safe print_last_error"
  by (auto simp: safe_def session_ok_def print_last_error_def sylvan_get_last_error_def print_defs wp_simps ui_ok_def
      plain_error_def plain_def cformat_plain inf_inv_def)

lemma safe_attempt: "safe m \<Longrightarrow> safe k \<Longrightarrow> safe (attempt m k)"
  unfolding attempt_def by (intro safe_bnd safe_if safe_last_error safe_ret)

text \<open>A library call, and what follows.\<close>

lemma safe_attempt_lib: "keeps_inv m \<Longrightarrow> frames m \<Longrightarrow> safe k \<Longrightarrow> safe (attempt m k)"
  by (rule safe_attempt [OF safe_lib])

text \<open>Words of a command.\<close>

definition well_formed :: "argv \<Rightarrow> bool" where
  "well_formed c \<longleftrightarrow> 10 \<le> argv_size c \<and> length (argv_words c) < argv_size c \<and> argv_words c \<noteq> [] \<and> [] \<notin> set (argv_words c)"

lemma well_formedD: "well_formed c \<Longrightarrow> argv_words c \<noteq> []"
  by (simp add: well_formed_def)

lemma safe_bnd_arg:
  assumes "well_formed c" "n < 10"
    and "n < length (argv_words c) \<Longrightarrow> safe (k (WStr (argv_words c ! n)))"
    and "length (argv_words c) \<le> n \<Longrightarrow> safe (k WNull)" "length (argv_words c) < n \<Longrightarrow> safe (k WJunk)"
  shows "safe (bnd (arg c n) k)"
  using assms by (auto simp: safe_def wp_simps well_formed_def)

lemma safe_no_more: "well_formed c \<Longrightarrow> n < 10 \<Longrightarrow> (length (argv_words c) \<le> n \<Longrightarrow> safe k) \<Longrightarrow> safe (no_more c n k)"
  unfolding no_more_def by (rule safe_bnd_arg) (simp_all add: safe_fail)

lemma deref_str [simp]: "deref (WStr t) = ret t"
  by (simp add: deref_def)

lemma suffix_in [simp]: "n \<le> length t \<Longrightarrow> suffix t n = ret (drop n t)"
  by (simp add: suffix_def)

lemma char_at_in [simp]: "n < length t \<Longrightarrow> char_at t n = ret (t ! n)"
  by (simp add: char_at_def)

lemmas safe_steps = safe_bnd_get_inf safe_bnd_is_null safe_bnd_gets safe_bnd_set_errno safe_bnd_strtol safe_no_more


section \<open>A fresh inferior\<close>

lemma destroy_inv:
  assumes os: "system_ok os" and s: "inf_inv s"
  shows "wp (sylvan_inferior_destroy os) (\<lambda>c s'. c \<noteq> SYLVANC_OK \<longrightarrow> inf_inv s') s"
proof -
  have rest: "wp (bnd get_inf (\<lambda>i.
       bnd (sylvan_sym_destroy i) (\<lambda>(code, i).
         bnd (upd_inf (\<lambda>_. i)) (\<lambda>_.
         if code \<noteq> SYLVANC_OK then ret code
         else bnd (modify (\<lambda>s. s\<lparr>infp := InfFreed, sylvan_inferior_count := sylvan_inferior_count s - 1\<rparr>)) (\<lambda>_.
           ret SYLVANC_OK))))) (\<lambda>c s'. c \<noteq> SYLVANC_OK \<longrightarrow> inf_inv s') t" if t: "inf_inv t" for t :: "('a, 'b) dbg_scheme"
  proof -
    obtain i where i: "infp t = InfLive i" "freeable (inf_elf_table i)" "freeable (inf_dwarf_table i)"
      using t by (auto simp: inf_inv_def inf_okD)
    have "wp (sylvan_sym_destroy i) (\<lambda>r. wp (case r of (code, i) \<Rightarrow>
         bnd (upd_inf (\<lambda>_. i)) (\<lambda>_.
         if code \<noteq> SYLVANC_OK then ret code
         else bnd (modify (\<lambda>s. s\<lparr>infp := InfFreed, sylvan_inferior_count := sylvan_inferior_count s - 1\<rparr>)) (\<lambda>_.
           ret SYLVANC_OK))) (\<lambda>c s'. c \<noteq> SYLVANC_OK \<longrightarrow> inf_inv s')) t"
      by (rule wp_mono [OF sym_destroy_spec [OF i(2,3)]]) (auto simp: wp_simps i(1))
    with i(1) show ?thesis by (simp add: wp_bnd [of get_inf] wp_get_inf wp_bnd [of "sylvan_sym_destroy _"])
  qed
  have "wp (on_ok (sylvan_terminate_or_detach os) (bnd get_inf (\<lambda>i.
       bnd (sylvan_sym_destroy i) (\<lambda>(code, i).
         bnd (upd_inf (\<lambda>_. i)) (\<lambda>_.
         if code \<noteq> SYLVANC_OK then ret code
         else bnd (modify (\<lambda>s. s\<lparr>infp := InfFreed, sylvan_inferior_count := sylvan_inferior_count s - 1\<rparr>)) (\<lambda>_.
           ret SYLVANC_OK)))))) (\<lambda>c s'. c \<noteq> SYLVANC_OK \<longrightarrow> inf_inv s') s"
    unfolding wp_on_ok by (rule wp_mono [OF keeps_invD [OF keeps_terminate [OF os] s]]) (use rest in auto)
  with s show ?thesis by (auto simp: sylvan_inferior_destroy_def wp_check_inf inf_inv_def)
qed

lemma create_inv:
  assumes heap: "malloc_succeeds os"
  shows "wp (sylvan_inferior_create os) (\<lambda>c s'. c = SYLVANC_OK \<and> inf_inv s') s"
proof -
  have "inf_ok (zero_inferior\<lparr>inf_elf_table := e, inf_dwarf_table := d, inf_id := n\<rparr>)" if "table_ok e" "table_ok d" for e d n
    using that zero_bps_ok by (simp add: inf_ok_def bps_ok_def zero_inferior_def isactive_def table_ok_searchable)
  then have "wp (sylvan_sym_init os zero_inferior) (\<lambda>r. wp (case r of (code, i) \<Rightarrow>
           if code \<noteq> SYLVANC_OK then ret code
           else bnd (gets sylvan_inferior_idx) (\<lambda>idx.
             bnd (modify (\<lambda>s. s\<lparr>sylvan_inferior_idx := idx + 1,
                   sylvan_inferior_count := sylvan_inferior_count s + 1,
                   infp := InfLive (i\<lparr>inf_id := idx\<rparr>)\<rparr>)) (\<lambda>_.
               ret SYLVANC_OK))) (\<lambda>c s'. c = SYLVANC_OK \<and> inf_inv s')) t" for t :: "('a, 'b) dbg_scheme"
    by (intro wp_mono [OF sym_init_spec [OF heap]]) (clarsimp simp: wp_simps)
  then show ?thesis
    unfolding sylvan_inferior_create_def wp_bnd [of "sys _"]
    by (intro wp_malloc [OF heap], simp only: sum.case wp_bnd [of "sylvan_sym_init _ _"])
qed

lemma safe_fresh:
  assumes os: "system_ok os" "plain_system os" "malloc_succeeds os" and k: "safe k"
  shows "safe (fresh_inferior os k)"
  unfolding safe_def
proof (intro allI impI)
  fix s :: "('a, 'b) ui_scheme" assume s: "session_ok s"
  have create: "wp (attempt (sylvan_inferior_create os) k) (\<lambda>_. session_ok) t" if t: "ui_ok t" for t :: "('a, 'b) ui_scheme"
  proof -
    have "wp (sylvan_inferior_create os) (\<lambda>c s'. (c = SYLVANC_OK \<and> inf_inv s') \<and> ui_ok s') t"
      by (rule wp_framed [OF create_inv [OF os(3)] ui_frame.frames_create t])
    then show ?thesis
      unfolding attempt_def wp_bnd [of "sylvan_inferior_create os"]
      by (rule wp_mono) (use k in \<open>auto simp: safe_def session_ok_def\<close>)
  qed
  have err: "safe (bnd print_last_error (\<lambda>_. ret (0 :: int)))" by (rule safe_bnd [OF safe_last_error safe_ret])
  have "wp (sylvan_inferior_destroy os) (\<lambda>c s'. (c \<noteq> SYLVANC_OK \<longrightarrow> inf_inv s') \<and> ui_ok s') s"
    using s by (intro wp_framed destroy_inv os ui_frame.frames_destroy) (simp_all add: session_ok_def)
  then show "wp (fresh_inferior os k) (\<lambda>_. session_ok) s"
    unfolding fresh_inferior_def attempt_def [of "sylvan_inferior_destroy os"] wp_bnd [of "sylvan_inferior_destroy os"]
    by (rule wp_mono)
      (use create safeD [OF err] in \<open>auto simp: session_ok_def\<close>)
qed


section \<open>The handlers\<close>

lemma safe_print_each: "(\<And>x. safe (f x)) \<Longrightarrow> safe (print_each f xs)"
  by (induction xs) (auto intro: safe_ret safe_bnd)

lemma safe_print_command: "safe (print_command cmd)"
  unfolding print_command_def
  by (intro safe_bnd safe_printf safe_put) (simp_all add: format_simps newline_def)

lemma safe_print_commands_of:
  assumes "CHR ''%'' \<notin> set h"
  shows "safe (print_commands_of h ty)"
proof -
  have "cformat (''%s'' @ h @ ''%s'' @ newline) [FStr CYAN, FStr RESET] \<noteq> None"
    using cformat_prefix [OF assms, of "''%s'' @ newline" "[FStr RESET]"] by (simp add: format_simps newline_def)
  then show ?thesis
    unfolding print_commands_of_def
    by (intro safe_bnd [OF safe_printf] safe_bnd_gets safe_print_each safe_print_command)
qed

lemma safe_print_commands: "safe (print_commands_list ty b)"
  unfolding print_commands_list_def
  by (intro safe_bnd safe_if safe_ret safe_print_commands_of) simp_all

lemma safe_help: "well_formed c \<Longrightarrow> safe (handle_help c)"
  unfolding handle_help_def
  by (rule safe_bnd_arg) (auto intro!: safe_bnd [OF safe_print_commands] safe_ret dest: well_formedD)

lemma safe_lists: "well_formed c \<Longrightarrow> safe (handle_info c)" "well_formed c \<Longrightarrow> safe (handle_set c)"
  unfolding handle_info_def handle_set_def
  by (auto intro!: safe_no_more safe_bnd [OF safe_print_commands] safe_ret)

lemma safe_exit: "safe (handle_exit c)"
  unfolding handle_exit_def by (intro safe_bnd safe_printf safe_ret) (simp add: format_simps newline_def)

lemma safe_info_alias: "well_formed c \<Longrightarrow> safe (handle_info_alias c)"
  unfolding handle_info_alias_def
  by (intro safe_no_more safe_bnd [OF safe_printf] safe_bnd_gets safe_bnd [OF safe_print_each] safe_printf safe_ret)
    (simp_all add: format_simps newline_def)

lemma safe_resume:
  assumes os: "system_ok os" "plain_system os"
  shows "safe (handle_continue os c)" "well_formed c \<Longrightarrow> safe (handle_step_inst os c)"
  unfolding handle_continue_def handle_step_inst_def
  by (intro safe_attempt_lib keeps_continue os ui_frame.frames_resume safe_ret safe_no_more keeps_stepinst
      safe_bnd [OF safe_coloured(2)]; simp add: cformat_plain)+

lemma ok_texts:
  "cformat ''Created New Inferior: ID: %d'' [FInt n] \<noteq> None"
  "cformat ''File %s assigned to inferior id: %d'' [FStr f, FInt n] \<noteq> None"
  "cformat ''Process PID: %ld to inferior id: %d'' [FLong w, FInt n] \<noteq> None"
  "cformat (''Added arguments to inferior: %d'' @ newline) [FInt n] \<noteq> None"
  "cformat ''Invalid PID: %s'' [FStr f] \<noteq> None"
  "cformat ''breakpoint set at: %#lx'' [FLong w] \<noteq> None"
  "cformat ''breakpoint at addr 0x%lx  is deleted'' [FLong w] \<noteq> None"
  "cformat ''breakpoint at addr 0x%lx  %s'' [FLong w, FStr f] \<noteq> None"
  "cformat ''Invalid value: %s'' [FStr f] \<noteq> None"
  "cformat ''Invalid address: %s'' [FStr f] \<noteq> None"
  "cformat ''Error at 0x%016lx: %s'' [FLong w, FStr f] \<noteq> None"
  "cformat (''%s to %#lx'' @ newline) [FStr f, FLong w] \<noteq> None"
  "cformat (tab @ ''attach <pid>'') [] \<noteq> None" "cformat (tab @ ''breakpoint <address>'') [] \<noteq> None"
  "cformat (tab @ ''set_reg <register name> <value>'') [] \<noteq> None" "cformat (tab @ ''set_reg <reg> <value>'') [] \<noteq> None"
  "cformat ''set_reg rax 0x40'' [] \<noteq> None" "cformat ''Ex: memory_read 0x1234'' [] \<noteq> None"
  "cformat ''Invalid lines number'' [] \<noteq> None"
  by (simp_all add: format_simps newline_def tab_def)

lemmas ok_texts_simplified = ok_texts ok_texts [simplified]

lemma safe_add_inferior:
  assumes os: "system_ok os" "plain_system os" "malloc_succeeds os" and c: "well_formed c"
  shows "safe (handle_add_inferior os c)"
  unfolding handle_add_inferior_def
  by (intro safe_no_more c safe_fresh os safe_bnd_get_inf safe_bnd [OF safe_coloured(2)] safe_ret ok_texts) simp

text \<open>Word number \<open>n\<close>, if there is one.\<close>

definition in_words :: "string list \<Rightarrow> nat \<Rightarrow> (string \<Rightarrow> bool) \<Rightarrow> bool" where
  "in_words ws n P \<longleftrightarrow> (n < length ws \<longrightarrow> P (ws ! n))"

lemma safe_file:
  assumes os: "system_ok os" "plain_system os" "symbols_ok os" and c: "well_formed c"
    and w: "in_words (argv_words c) 1 plain"
  shows "safe (handle_file os c)"
proof -
  have heap: "malloc_succeeds os" using os(3) by (simp add: symbols_ok_def)
  have assign: "safe (attempt (sylvan_set_filepath os (Some f)) (bnd get_inf (\<lambda>i.
             bnd (sylvan_print_ok ''File %s assigned to inferior id: %d'' [FStr f, FInt (sint (inf_id i))]) (\<lambda>_. ret 0))))"
    if "plain f" for f
    by (intro safe_attempt_lib keeps_set_filepath plain_filepath os that safe_bnd_get_inf safe_bnd [OF safe_coloured(2)]
        safe_ret ok_texts)
  show ?thesis
    unfolding handle_file_def
    by (rule safe_bnd_arg [OF c])
      (use assign w c in \<open>auto simp: Let_def in_words_def intro!: safe_fail safe_no_more safe_bnd_get_inf safe_if safe_fresh os heap dest: well_formedD\<close>)
qed

lemma to_int_range: "to_int v < 2 ^ 31"
proof -
  have "sint (word_of_int v :: 32 word) < 2 ^ 31" using sint_lt [of "word_of_int v :: 32 word"] by simp
  then show ?thesis by (simp add: to_int_def)
qed

text \<open>A pid whose low half is not positive is passed on as a group or as every process.\<close>

definition pid_word :: "string \<Rightarrow> bool" where
  "pid_word w \<longleftrightarrow> (0 < fst (strtol 10 w) \<longrightarrow> 0 < to_int (fst (strtol 10 w)))"

lemma safe_attach:
  assumes os: "system_ok os" "plain_system os" "symbols_ok os" and c: "well_formed c"
    and w: "in_words (argv_words c) 1 pid_word"
  shows "safe (handle_attach os c)"
proof -
  have heap: "malloc_succeeds os" using os(3) by (simp add: symbols_ok_def)
  have attach: "safe (attempt (sylvan_attach os (to_int pid)) (bnd get_inf (\<lambda>i.
               bnd (sylvan_print_ok ''Process PID: %ld to inferior id: %d'' [FLong (word_of_int pid), FInt (sint (inf_id i))]) (\<lambda>_. ret 0))))"
    if "0 < to_int pid" for pid
    by (intro safe_attempt_lib keeps_attach ui_frame.frames_attach os that to_int_range safe_bnd_get_inf safe_bnd [OF safe_coloured(2)]
        safe_ret ok_texts)
  have usage: "safe (bnd (sylvan_print_instruction (tab @ ''attach <pid>'') []) (\<lambda>_. ret 0))"
    by (intro safe_bnd [OF safe_coloured(3)] safe_ret ok_texts)
  have bad: "safe (sylvan_print_error ''Invalid PID: %s'' [FStr f])" for f by (intro safe_coloured ok_texts)
  show ?thesis
    unfolding handle_attach_def
    by (rule safe_bnd_arg [OF c])
      (use w c in \<open>auto simp: Let_def in_words_def pid_word_def dest: well_formedD
        intro!: attach usage bad safe_bnd [OF safe_fail] safe_no_more safe_bnd_set_errno safe_bnd_strtol safe_bnd_gets safe_if safe_bnd [OF bad]
          safe_bnd_get_inf safe_fresh os heap\<close>)
qed

lemma safe_set_args:
  assumes os: "plain_system os" "malloc_succeeds os"
  shows "safe (handle_set_args os c)"
  unfolding handle_set_args_def Let_def
  by (rule safe_bnd_malloc [OF os(2)], simp only: sum.case)
    (intro safe_attempt_lib keeps_set_args ui_frame.frames_settings os safe_bnd_get_inf safe_bnd [OF safe_coloured(2)] safe_ret ok_texts)

text \<open>Breakpoints.\<close>

lemma safe_breakpoint_set:
  assumes os: "plain_system os" and c: "well_formed c"
    and w: "in_words (argv_words c) 1 (\<lambda>w. 2 \<le> length w \<and> (hd w = CHR ''0'' \<or> plain w))"
  shows "safe (handle_breakpoint_set os c)"
proof -
  have keeps: "keeps_inv (sylvan_breakpoint_set os a)" for a
    using keeps_bp_exec [of os "BpSet a"] by (simp add: bp_exec_def)
  have set_bp: "safe (attempt (sylvan_breakpoint_set os a)
           (bnd (sylvan_print_ok ''breakpoint set at: %#lx'' [FLong a]) (\<lambda>_. ret 0)))" for a
    by (intro safe_attempt_lib keeps ui_frame.frames_breakpoint os safe_bnd [OF safe_coloured(2)] safe_ret ok_texts)
  have usage: "safe (bnd (sylvan_print_instruction (tab @ ''breakpoint <address>'') []) (\<lambda>_. ret 0))"
    by (intro safe_bnd [OF safe_coloured(3)] safe_ret ok_texts)
  show ?thesis
  proof (cases "1 < length (argv_words c)")
    case False
    then show ?thesis
      unfolding handle_breakpoint_set_def
      by (intro safe_bnd_arg [OF c]) (use c in \<open>auto dest: well_formedD intro!: usage safe_bnd [OF safe_fail]\<close>)
  next
    case True
    then obtain x y z where word: "argv_words c ! Suc 0 = z # x # y" "z = CHR ''0'' \<or> plain (z # x # y)"
      using w by (cases "argv_words c ! 1" rule: remdups_adj.cases) (auto simp: in_words_def)
    have set_fn: "safe (attempt (sylvan_set_breakpoint_function os (Some (z # x # y)))
        (bnd (sylvan_print_ok ''breakpoint set at: %s'' [FStr (z # x # y)]) (\<lambda>_. ret 0)))" if "z \<noteq> CHR ''0''"
      using word(2) that
      by (intro safe_attempt_lib keeps_set_breakpoint_function ui_frame.frames_function os safe_bnd [OF safe_coloured(2)] safe_ret)
        (simp_all add: format_simps)
    show ?thesis
      unfolding handle_breakpoint_set_def
      by (intro safe_bnd_arg [OF c])
        (use True c word(1) set_fn in \<open>auto simp: Let_def intro!: set_bp safe_no_more safe_bnd_set_errno safe_bnd_strtol safe_bnd_gets\<close>)
  qed
qed

text \<open>
  A breakpoint by number, which must not be the size of the array, or by address, which must
  have two characters.
\<close>

definition bp_words :: "string list \<Rightarrow> bool" where
  "bp_words ws \<longleftrightarrow> in_words ws 1 (\<lambda>w. if w = ''-a'' then in_words ws 2 (\<lambda>a. 2 \<le> length a)
     else to_int (fst (strtol 10 w)) \<noteq> int MAX_BREAKPOINTS)"

lemma safe_with_id:
  assumes t: "to_int (fst (strtol 10 t)) \<noteq> int MAX_BREAKPOINTS" and h: "CHR ''%'' \<notin> set h"
    and k: "\<And>n. n < MAX_BREAKPOINTS \<Longrightarrow> safe (k n)"
  shows "safe (with_id t h k)"
  unfolding with_id_def
  using t h by (auto simp: Let_def intro!: safe_bnd_strtol safe_bnd_gets safe_if safe_fail safe_bnd_get_inf k
      dest!: inf_okD(1) bps_ok_countD)

lemma safe_usage: "safe (bp_usage ''disable'')" "safe (bp_usage ''delete'')"
  by (auto simp: bp_usage_def intro!: safe_coloured simp: format_simps newline_def tab_def)

lemma safe_with_addr:
  assumes c: "well_formed c" and a: "in_words (argv_words c) 2 (\<lambda>a. 2 \<le> length a)" "1 < length (argv_words c)"
    and u: "u = ''disable'' \<or> u = ''delete''" "CHR ''%'' \<notin> set m" and k: "\<And>a. safe (k a)"
  shows "safe (with_addr c u m k)"
  unfolding with_addr_def
  by (rule safe_bnd_arg [OF c])
    (use a u k in \<open>auto simp: in_words_def intro!: safe_bnd [OF safe_fail] safe_bnd [OF safe_usage(1)] safe_bnd [OF safe_usage(2)] safe_ret safe_bnd_strtol safe_bnd_gets
       safe_if safe_fail\<close>)

lemma keeps_bp [intro]:
  "keeps_inv (sylvan_breakpoint_enable os a)" "keeps_inv (sylvan_breakpoint_disable os a)" "keeps_inv (sylvan_breakpoint_unset os a)"
  using keeps_bp_exec [of os "BpEnable a"] keeps_bp_exec [of os "BpDisable a"] keeps_bp_exec [of os "BpUnset a"]
  by (simp_all add: bp_exec_def)

lemma safe_toggle:
  assumes os: "plain_system os" and c: "well_formed c" and w: "bp_words (argv_words c)"
  shows "safe (toggle_breakpoint os c d)"
proof -
  have lib: "safe (attempt (if d then sylvan_breakpoint_disable os a else sylvan_breakpoint_enable os a) k)" if "safe k" for a k
    using that by (auto intro!: safe_attempt_lib ui_frame.frames_breakpoint os)
  have result: "safe (toggle_result d a)" for a
    unfolding toggle_result_def by (intro safe_coloured ok_texts)
  show ?thesis
    unfolding toggle_breakpoint_def Let_def
    by (rule safe_bnd_arg [OF c])
      (use w c in \<open>auto simp: bp_words_def in_words_def dest: well_formedD
        intro!: safe_bnd [OF safe_fail] safe_bnd [OF safe_usage(1)] safe_ret safe_bnd_set_errno safe_if safe_with_id safe_with_addr
          safe_bnd_get_bp lib safe_bnd [OF result]\<close>)
qed

lemma safe_toggles:
  assumes "plain_system os" "well_formed c" "bp_words (argv_words c)"
  shows "safe (handle_disable_breakpoint os c)" "safe (handle_enable_breakpoint os c)"
  unfolding handle_disable_breakpoint_def handle_enable_breakpoint_def
  by (intro safe_bnd safe_toggle assms safe_ret)+

lemma safe_delete:
  assumes os: "plain_system os" and c: "well_formed c" and w: "bp_words (argv_words c)"
  shows "safe (handle_delete_breakpoint os c)"
proof -
  have deleted: "safe (sylvan_print_ok ''breakpoint at addr 0x%lx  is deleted'' [FLong a])" for a
    by (intro safe_coloured ok_texts)
  show ?thesis
    unfolding handle_delete_breakpoint_def
    by (rule safe_bnd_arg [OF c])
      (use w c in \<open>auto simp: bp_words_def in_words_def dest: well_formedD
        intro!: safe_bnd [OF safe_fail] safe_bnd [OF safe_usage(2)] safe_ret safe_bnd_set_errno safe_if safe_with_id safe_with_addr
          safe_bnd_get_bp safe_attempt_lib ui_frame.frames_breakpoint os safe_bnd [OF deleted]\<close>)
qed

text \<open>Registers.\<close>

lemma safe_read_registers:
  assumes os: "system_ok os" "plain_system os" "malloc_succeeds os" and k: "\<And>x. safe (k x)"
  shows "safe (read_registers os k)"
  unfolding read_registers_def
  by (rule safe_bnd_malloc [OF os(3)])
    (auto intro!: safe_bnd [OF safe_lib [OF keeps_get_regs ui_frame.frames_settings(1)]] os safe_option safe_bnd [OF safe_last_error] safe_ret k
      split: prod.splits)

lemma safe_set_reg:
  assumes os: "system_ok os" "plain_system os" "malloc_succeeds os" and c: "well_formed c"
    and w: "in_words (argv_words c) 2 (\<lambda>w. 2 \<le> length w)"
  shows "safe (handle_set_reg os c)"
proof -
  have usage: "safe (bnd (sylvan_print_instruction (tab @ ''set_reg <register name> <value>'') []) (\<lambda>_. ret 0))"
    "safe (bnd (sylvan_print_instruction ''set_reg rax 0x40'' []) (\<lambda>_. ret 0))"
    "safe (bnd (sylvan_print_instruction (tab @ ''set_reg <reg> <value>'') []) (\<lambda>_. ret 0))"
    by (intro safe_bnd [OF safe_coloured(3)] safe_ret ok_texts)+
  have bad: "safe (sylvan_print_error ''Invalid value: %s'' [FStr f])" for f by (intro safe_coloured ok_texts)
  have stores: "safe (read_registers os (\<lambda>regs. attempt (sylvan_set_regs os (set_register r v regs))
       (bnd (sylvan_print_ok (''%s to %#lx'' @ newline) [FStr (reg_name r), FLong v]) (\<lambda>_. ret 0))))" for r v
    by (intro safe_read_registers os safe_attempt_lib keeps_set_regs ui_frame.frames_settings safe_bnd [OF safe_coloured(2)] ok_texts safe_ret)
  show ?thesis
  proof (cases "2 < length (argv_words c)")
    case False
    then show ?thesis
      unfolding handle_set_reg_def
      by (intro safe_bnd_arg [OF c])
        (use c in \<open>auto dest: well_formedD intro!: usage safe_bnd [OF safe_fail] safe_bnd_arg [OF c]\<close>)
  next
    case True
    then obtain a b t where "argv_words c ! 2 = a # b # t"
      using w by (cases "argv_words c ! 2" rule: remdups_adj.cases) (auto simp: in_words_def)
    then show ?thesis
      unfolding handle_set_reg_def
      by (intro safe_bnd_arg [OF c])
        (use True c in \<open>auto simp: Let_def simp del: append.simps intro!: usage stores safe_no_more safe_fail safe_bnd_set_errno safe_bnd_strtol safe_bnd_gets
           safe_if safe_bnd [OF bad] safe_bnd [OF safe_fail] safe_bnd_arg [OF c]\<close>)
  qed
qed

text \<open>Tables.\<close>

definition usable_tty :: "'w tty \<Rightarrow> bool" where
  "usable_tty tty \<longleftrightarrow> tty_ends_lines tty \<and> (\<forall>w. ts_height (get_terminal_size tty w) \<noteq> 12)"

lemma printed_session: "printed s s' \<Longrightarrow> session_ok s \<Longrightarrow> session_ok s'"
  by (cases s, cases s') (auto simp: printed_def session_ok_def ui_ok_def plain_error_def inf_inv_def)

lemma safe_table:
  assumes "usable_tty tty" "\<forall>row \<in> set rows. row_fits cols row"
  shows "safe (print_table tty title cols rows n)"
  unfolding safe_def
proof (intro allI impI)
  fix s :: "('a, 'b) ui_scheme" assume s: "session_ok s"
  show "wp (print_table tty title cols rows n) (\<lambda>_. session_ok) s"
    by (rule wp_mono [OF print_table_printed [where u = s]])
      (use assms s printed_session in \<open>auto simp: usable_tty_def\<close>)
qed

lemma safe_blocks: "malloc_succeeds os \<Longrightarrow> safe (alloc_blocks os ns)"
  by (induction ns) (auto intro: safe_ret safe_bnd_malloc)

lemma safe_info_registers:
  assumes os: "system_ok os" "plain_system os" "malloc_succeeds os" and tty: "usable_tty tty" and c: "well_formed c"
  shows "safe (handle_info_registers os tty c)"
  unfolding handle_info_registers_def print_registers_def Let_def
  by (intro safe_no_more c safe_read_registers os safe_bnd [OF safe_bnd] safe_blocks safe_table tty register_rows_fit safe_ret) simp

lemma breakpoint_rows_fit: "\<forall>row \<in> set (breakpoint_rows i). row_fits breakpoint_cols row"
  by (auto simp: breakpoint_rows_def breakpoint_cols_def row_fits_def Let_def)

lemma safe_info_breakpoints:
  assumes os: "malloc_succeeds os" and tty: "usable_tty tty" and c: "well_formed c"
  shows "safe (handle_info_breakpoints os tty c)"
  unfolding handle_info_breakpoints_def
  by (rule safe_no_more [OF c])
    (auto simp: Let_def intro!: safe_bnd_is_null safe_bnd_get_inf safe_bnd [OF safe_blocks] os safe_bnd [OF safe_table] tty
      breakpoint_rows_fit safe_ret dest!: inf_okD(1) simp: bps_ok_def)

text \<open>Memory.\<close>

lemma safe_read_words:
  assumes os: "plain_system os"
  shows "safe (read_words os p True n a)"
proof (induction n arbitrary: a)
  case (Suc n)
  have err: "safe (sylvan_print_error ''Error at 0x%016lx: %s'' [FLong a, FStr msg])" for msg
    by (intro safe_coloured ok_texts)
  have line: "safe (printf (''%s0x%016lx:%s     %s0x%016lx%s'' @ newline)
      [FStr BLUE, FLong a, FStr RESET, FStr GREEN, FLong x, FStr RESET])" for x
    by (intro safe_printf) (simp add: format_simps newline_def)
  show ?case
    unfolding read_words.simps not_True_eq_False if_False sylvan_get_last_error_def
    by (intro safe_bnd [OF safe_lib [OF keeps_get_memory ui_frame.frames_settings(4) [OF os]]] safe_prod safe_option safe_bnd_gets
        safe_bnd [OF err] safe_ret safe_bnd [OF safe_if] line safe_bnd [OF Suc])
qed (simp add: safe_ret)

lemma safe_memory_table:
  assumes os: "malloc_succeeds os" and tty: "usable_tty tty"
  shows "safe (print_memory_table os tty ds a)"
proof -
  have word: "word_text d \<noteq> None" for d
    by (simp add: word_text_def snprintf_def format_simps)
  have "\<exists>rows. memory_rows ds a = Some rows \<and> (\<forall>row \<in> set rows. row_fits memory_cols row)"
  proof (induction ds a rule: memory_rows.induct)
    case (2 d ds a)
    then show ?case using word [of d] by (auto simp: row_fits_def memory_cols_def)
  qed simp
  then show ?thesis
    unfolding print_memory_table_def
    by (auto intro!: safe_bnd [OF safe_blocks] os safe_table tty)
qed

definition memory_words :: "string list \<Rightarrow> bool" where
  "memory_words ws \<longleftrightarrow> in_words ws 1 (\<lambda>w. if strncmp_eq w ''-t'' 2 then in_words ws 2 (\<lambda>a. 2 \<le> length a) else 2 \<le> length w)"

lemma safe_read_at:
  assumes os: "plain_system os" "malloc_succeeds os" and tty: "usable_tty tty" and w: "2 \<le> length w"
  shows "safe (read_memory_at os tty p n w)"
proof -
  have usage: "safe (bnd (sylvan_print_instruction ''Ex: memory_read 0x1234'' []) (\<lambda>_. ret 0))"
    by (intro safe_bnd [OF safe_coloured(3)] safe_ret ok_texts)
  have bad: "safe (sylvan_print_error ''Invalid address: %s'' [FStr f])" for f by (intro safe_coloured ok_texts)
  have words: "safe (bnd (read_words os p True n a) (\<lambda>ds.
          case ds of
            None \<Rightarrow> ret 0
          | Some xs \<Rightarrow> bnd (if p then print_memory_table os tty xs a else ret ()) (\<lambda>_. ret 0)))" for a
    by (intro safe_bnd [OF safe_read_words [OF os(1)]] safe_option safe_ret safe_bnd [OF safe_if] safe_memory_table os tty)
  show ?thesis
    unfolding read_memory_at_def
    using w by (auto simp: Let_def intro!: usage words safe_bnd [OF safe_fail] safe_bnd_strtol safe_bnd_gets safe_if safe_bnd [OF bad] safe_ret
      safe_bnd_malloc [OF os(2)])
qed

lemma safe_row_count:
  assumes "p \<noteq> WJunk"
  shows "safe (read_row_count p)"
proof -
  have "safe (sylvan_print_error ''Invalid lines number'' [])" by (intro safe_coloured ok_texts)
  moreover have "safe (printf (''%sLimiting the lines to 16%s'' @ newline) [FStr YELLOW, FStr RESET])"
    by (intro safe_printf) (simp add: format_simps newline_def)
  ultimately show ?thesis
    using assms unfolding read_row_count_def
    by (cases p) (auto simp: Let_def simp del: append.simps intro!: safe_ret safe_bnd_strtol safe_bnd_gets safe_if safe_bnd)
qed

lemma safe_memory_read:
  assumes os: "plain_system os" "malloc_succeeds os" and tty: "usable_tty tty" and c: "well_formed c"
    and w: "memory_words (argv_words c)"
  shows "safe (handle_read_memory os tty c)"
proof -
  have rest: "safe (bnd (read_row_count r) (case_option (ret 0) (\<lambda>n. read_memory_at os tty p n t)))"
    if "r \<noteq> WJunk" "2 \<le> length t" for r t p
    using that by (intro safe_bnd [OF safe_row_count] safe_option safe_ret safe_read_at os tty)
  show ?thesis
    unfolding handle_read_memory_def
    by (intro safe_bnd_set_errno safe_bnd_arg [OF c])
      (use w c in \<open>auto simp: Let_def memory_words_def in_words_def dest: well_formedD intro!: safe_fail safe_bnd_arg [OF c] rest
        split: if_splits\<close>)
qed


section \<open>Sequences of commands\<close>

text \<open>
  The words a command may have. Left out are the commands that fail an assertion or
  dereference what they do not check even when they are used as documented, and these forms
  of the others: an address or a function of one character, the number behind the last
  breakpoint of a full table, a number of a process that is not one, and a function or a
  file with a percent sign in its name, which becomes part of a format.
\<close>

fun allowed :: "command_handler \<Rightarrow> string list \<Rightarrow> bool" where
  "allowed Handle_breakpoint_set ws = in_words ws 1 (\<lambda>w. 2 \<le> length w \<and> (hd w = CHR ''0'' \<or> plain w))"
| "allowed Handle_disable_breakpoint ws = bp_words ws"
| "allowed Handle_enable_breakpoint ws = bp_words ws"
| "allowed Handle_delete_breakpoint ws = bp_words ws"
| "allowed Handle_read_memory ws = memory_words ws"
| "allowed Handle_set_reg ws = in_words ws 2 (\<lambda>w. 2 \<le> length w)"
| "allowed Handle_file ws = in_words ws 1 plain"
| "allowed Handle_attach ws = in_words ws 1 pid_word"
| "allowed Handle_run ws = False"
| "allowed Handle_disassemble ws = False"
| "allowed Handle_write_memory ws = False"
| "allowed Handle_info_args ws = False"
| "allowed Handle_info_auxv ws = False"
| "allowed Handle_info_inferiors ws = False"
| "allowed Handle_set_alias ws = False"
| "allowed _ ws = True"

definition permitted :: "argv \<Rightarrow> bool" where
  "permitted c \<longleftrightarrow> well_formed c \<and>
     (case resolve_name static_commands static_aliases (hd (argv_words c)) of
        None \<Rightarrow> True
      | Some cmd \<Rightarrow> allowed (cmd_handler cmd) (argv_words c))"

text \<open>What is relied on of the system, the libraries and the terminal.\<close>

definition session_system :: "'w os \<Rightarrow> 'w tty \<Rightarrow> bool" where
  "session_system os tty \<longleftrightarrow> system_ok os \<and> symbols_ok os \<and> plain_system os \<and> usable_tty tty"

lemma session_systemD:
  assumes "session_system os tty"
  shows "system_ok os" "symbols_ok os" "plain_system os" "usable_tty tty" "malloc_succeeds os"
  using assms by (simp_all add: session_system_def symbols_ok_def)

lemma safe_handler:
  assumes "session_system os tty" "well_formed c" "allowed h (argv_words c)"
  shows "safe (run_handler os tty dl heap h c)"
proof -
  note os = session_systemD [OF assms(1)]
  show ?thesis
    using assms(3)
    by (cases h)
      (simp_all add: run_handler_def safe_help safe_exit safe_lists safe_resume safe_add_inferior safe_file
        safe_attach safe_breakpoint_set safe_toggles safe_delete safe_memory_read safe_info_registers safe_info_breakpoints
        safe_info_alias safe_set_args safe_set_reg os assms(2))
qed

lemma safe_command:
  assumes "session_system os tty" "permitted c"
  shows "safe (handle_command os tty dl heap c)"
  unfolding safe_def
proof (intro allI impI)
  fix s :: "('a, 'b) ui_scheme" assume s: "session_ok s"
  obtain w ws where w: "argv_words c = w # ws" using assms(2) by (cases "argv_words c") (auto simp: permitted_def well_formed_def)
  have unknown: "cformat (''Unknown command: %s'' @ newline) [FStr w] \<noteq> None"
    by (simp add: format_simps newline_def)
  show "wp (handle_command os tty dl heap c) (\<lambda>_. session_ok) s"
  proof (cases "resolve_name static_commands static_aliases w")
    case None
    with s w unknown show ?thesis
      by (auto simp: handle_command_def lookup_command_def wp_simps session_ok_def ui_ok_def plain_error_def inf_inv_def)
  next
    case (Some cmd)
    then have "safe (run_handler os tty dl heap (cmd_handler cmd) c :: ('a, 'b, int) uprog)"
      using assms w by (intro safe_handler) (simp_all add: permitted_def)
    with s w Some show ?thesis
      by (simp add: handle_command_def lookup_command_def wp_simps session_ok_def ui_ok_def safe_def)
  qed
qed

interpretation session_serv: safe_service "handle_command os tty dl heap" permitted
    "\<lambda>s. session_system os tty \<and> session_ok s" for os :: "'w os" and tty dl heap
proof
  fix c :: argv and s :: "('w, 'm) ui_scheme"
  assume c: "permitted c" "session_system os tty \<and> session_ok s"
  then have "wp (handle_command os tty dl heap c) (\<lambda>_. session_ok) s"
    by (intro safeD safe_command) simp_all
  with c show "wp (handle_command os tty dl heap c) (\<lambda>_ s'. session_system os tty \<and> session_ok s') s"
    by (auto elim: wp_mono)
qed

text \<open>C6: A sequence of permitted commands returns after each of them: no assertion fails,
  nothing undefined happens, a message of the library never breaks the format it is printed
  with, the inferior is valid and the tables of commands are as they were. The system may
  answer anything, but memory allocation succeeds, \<open>waitpid\<close> settles on a documented status,
  the symbol tables of the files it opens state the size of their entries, the texts of
  \<open>strerror\<close> have no percent sign, and the terminal is usable (\<open>session_system\<close>). Never
  permitted, so outside this theorem, are \<open>run\<close>, \<open>disassemble\<close>, \<open>memory_write\<close>, \<open>set alias\<close> and
  \<open>info\<close> on arguments, the auxiliary vector and inferiors; of the others \<open>allowed\<close> names the
  words.\<close>

theorem session_safe:
  assumes "session_system os tty" "session_ok s" "\<forall>c \<in> set cs. permitted c"
  shows "wp (run_all (handle_command os tty dl heap) cs) (\<lambda>rs s'. session_ok s' \<and> length rs = length cs) s"
  by (rule wp_mono [OF session_serv.sequence_safe [OF assms(3)]]) (use assms in simp_all)


lemma sim_plain: "plain_system sim_os"
  by (simp add: plain_system_def sim_os_def)

lemma sim_session_system: "session_system sim_os (sim_tty Map.empty)"
  by (simp add: session_system_def sim_system sim_symbols sim_plain usable_tty_def sim_tty_ends sim_height env_size_def)

lemma sim_session_ok: "distinct as \<Longrightarrow> length as \<le> MAX_BREAKPOINTS \<Longrightarrow> session_ok (sim_shell (sim_inferior as))"
  using sim_inf_ok [of as] by (simp add: session_ok_def ui_ok_def inf_inv_def plain_error_def sim_shell_def no_error_def)

theorem session_safe_witness:
  "wp (run_all (handle_command sim_os (sim_tty Map.empty) (sim_dislib []) (\<lambda>_. 0))
       [sim_argv [''b'', ''0x1234''], sim_argv [''b'', ''main''], sim_argv [''si''], sim_argv [''delete'', ''-a'', ''0x3''], sim_argv [''quit'']])
     (\<lambda>rs s'. session_ok s' \<and> length rs =
       length [sim_argv [''b'', ''0x1234''], sim_argv [''b'', ''main''], sim_argv [''si''], sim_argv [''delete'', ''-a'', ''0x3''], sim_argv [''quit'']])
     (sim_shell (sim_inferior [3]))"
proof (rule session_safe [OF sim_session_system])
  show "session_ok (sim_shell (sim_inferior [3]))" by (rule sim_session_ok) (simp_all add: small_table)
  show "\<forall>c \<in> set [sim_argv [''b'', ''0x1234''], sim_argv [''b'', ''main''], sim_argv [''si''], sim_argv [''delete'', ''-a'', ''0x3''], sim_argv [''quit'']]. permitted c"
    by (simp add: permitted_def well_formed_def) code_simp
qed

end
