(* ===== verification/Breakpoint_Sessions.thy ===== *)
theory Breakpoint_Sessions
  imports Sessions
begin

text \<open>
  The commands of the user on breakpoints refine the abstract service: what is typed changes
  the map as \<open>Breakpoint_Service\<close> says, and what is printed tells the result.
\<close>

section \<open>What the user types\<close>

fun bp_target :: "bp_cmd \<Rightarrow> addr" where
  "bp_target (BpSet a) = a"
| "bp_target (BpUnset a) = a"
| "bp_target (BpEnable a) = a"
| "bp_target (BpDisable a) = a"
| "bp_target BpClear = 0"

text \<open>The handler and the words behind the name of the command. There is no command to clear the table.\<close>

fun bp_handler :: "bp_cmd \<Rightarrow> command_handler option" where
  "bp_handler (BpSet a) = Some Handle_breakpoint_set"
| "bp_handler (BpUnset a) = Some Handle_delete_breakpoint"
| "bp_handler (BpEnable a) = Some Handle_enable_breakpoint"
| "bp_handler (BpDisable a) = Some Handle_disable_breakpoint"
| "bp_handler BpClear = None"

fun bp_operands :: "bp_cmd \<Rightarrow> string list" where
  "bp_operands (BpSet a) = [hex_word (unat a)]"
| "bp_operands b = [''-a'', hex_word (unat (bp_target b))]"

definition bp_spells :: "bp_cmd \<Rightarrow> argv \<Rightarrow> bool" where
  "bp_spells b c \<longleftrightarrow> bp_target b \<noteq> 0 \<and> uint (bp_target b) \<le> LONG_MAX \<and> argv_words c \<noteq> [] \<and> tl (argv_words c) = bp_operands b \<and>
     map_option cmd_handler (resolve_name static_commands static_aliases (hd (argv_words c))) = bp_handler b \<and> bp_handler b \<noteq> None"

section \<open>What is printed\<close>

definition addr_text :: "addr \<Rightarrow> string" where
  "addr_text a = ''0x'' @ digits 16 (unat a)"

fun bp_report :: "bp_cmd \<Rightarrow> string" where
  "bp_report (BpSet a) = ''breakpoint set at: '' @ addr_text a"
| "bp_report (BpUnset a) = ''breakpoint at addr '' @ addr_text a @ ''  is deleted''"
| "bp_report (BpEnable a) = ''breakpoint at addr '' @ addr_text a @ ''  enabled''"
| "bp_report (BpDisable a) = ''breakpoint at addr '' @ addr_text a @ ''  disabled''"
| "bp_report BpClear = []"

text \<open>A green report if the library returned success, and otherwise the last error in red.\<close>

definition bp_line :: "bp_cmd \<Rightarrow> sylvan_code \<Rightarrow> string \<Rightarrow> stream \<times> string" where
  "bp_line b code msg =
     (Stdout, (if code = SYLVANC_OK then GREEN @ bp_report b else RED @ msg) @ RESET @ newline)"

text \<open>What a handler is to do: call the library once and print the line of the code it returns.\<close>

definition bp_dialogue :: "'w os \<Rightarrow> bp_cmd \<Rightarrow> ('w, 'm, sylvan_code) tprog" where
  "bp_dialogue os b =
     bnd (set_errno 0) (\<lambda>_. bnd (bp_exec os b) (\<lambda>code. bnd (gets (\<lambda>s. ec_message (sylvan_last_error s))) (\<lambda>msg.
       bnd (modify (con_out_update (\<lambda>out. out @ [bp_line b code msg]))) (\<lambda>_. ret code))))"

lemma dialogue_resets: "bp_dialogue os b (s\<lparr>errno := 0\<rparr>) = bp_dialogue os b s"
  by (simp add: bp_dialogue_def bnd_def set_errno_def modify_def)

lemma report_formats:
  assumes "a \<noteq> 0"
  shows "cformat ''breakpoint set at: %#lx'' [FLong a] = Some (bp_report (BpSet a))"
    "cformat ''breakpoint at addr 0x%lx  is deleted'' [FLong a] = Some (bp_report (BpUnset a))"
    "cformat ''breakpoint at addr 0x%lx  %s'' [FLong a, FStr ''enabled''] = Some (bp_report (BpEnable a))"
    "cformat ''breakpoint at addr 0x%lx  %s'' [FLong a, FStr ''disabled''] = Some (bp_report (BpDisable a))"
  using assms by (simp_all add: format_simps addr_text_def hex_string_def unat_eq_zero)


section \<open>One command\<close>

definition answered :: "'w os \<Rightarrow> bp_cmd \<Rightarrow> ('w, 'm) ui_scheme \<Rightarrow> int \<Rightarrow> ('w, 'm) ui_scheme \<Rightarrow> bool" where
  "answered os b s r s' \<longleftrightarrow> r = 0 \<and> bp_live s' \<and> ui_ok s' \<and>
     (\<exists>code msg. bp_dialogue os b s = Ret (code, s') \<and> bp_step (bp_view s) b code (bp_view s') \<and>
        con_out s' = con_out s @ [bp_line b code msg])"

lemma answered_zero: "wp m (answered os b s) u \<Longrightarrow> wp m (\<lambda>r. answered os b s 0) u"
  by (erule wp_mono) (simp add: answered_def)

lemma frames_exec: "plain_system os \<Longrightarrow> frames (bp_exec os b)"
  by (cases b) (simp_all add: bp_exec_def ui_frame.frames_breakpoint ui_frame.frames_bulk)

lemma wp_same_ui: "wp m P s \<Longrightarrow> frames m \<Longrightarrow> wp m (\<lambda>r s'. P r s' \<and> same_ui s s') s"
  by (auto simp: wp_iff dest: framesD)

lemma same_ui_con: "same_ui s s' \<Longrightarrow> con_out s' = con_out s"
  by (cases s, cases s') (simp add: same_ui_def)

lemma exec_step:
  assumes os: "plain_system os" and s: "bp_live s" "ui_ok s"
  shows "wp (bp_exec os b) (\<lambda>r s'. bp_live s' \<and> bp_step (bp_view s) b r (bp_view s') \<and> ui_ok s' \<and> con_out s' = con_out s) s"
  by (rule wp_mono [OF wp_same_ui [OF exec_refines_live [OF s(1)] frames_exec [OF os]]])
    (use s(2) in \<open>auto intro: same_ui_ok same_ui_con\<close>)

lemma live_printed: "bp_live (s\<lparr>con_out := out\<rparr>) = bp_live s" "bp_view (s\<lparr>con_out := out\<rparr>) = bp_view s"
    "ui_ok (s\<lparr>con_out := out\<rparr>) = ui_ok s"
    "bp_live (s\<lparr>errno := e\<rparr>) = bp_live s" "bp_view (s\<lparr>errno := e\<rparr>) = bp_view s" "ui_ok (s\<lparr>errno := e\<rparr>) = ui_ok s"
  by (simp_all add: bp_live_def bp_view_def ui_ok_def plain_error_def)

lemma attempt_answers:
  assumes os: "plain_system os" and s: "bp_live s" "ui_ok s" "errno s = 0" and fmt: "cformat fmt args = Some (bp_report b)"
  shows "wp (attempt (bp_exec os b) (bnd (sylvan_print_ok fmt args) (\<lambda>_. ret 0))) (answered os b s) s"
proof -
  have plain: "cformat (ec_message (sylvan_last_error t)) [] = Some (ec_message (sylvan_last_error t))" if "ui_ok t" for t :: "('a, 'b) ui_scheme"
    using that by (simp add: ui_ok_def plain_error_def plain_def cformat_plain)
  obtain code t where t: "bp_exec os b s = Ret (code, t)" "bp_live t" "bp_step (bp_view s) b code (bp_view t)" "ui_ok t"
      "con_out t = con_out s"
    using exec_step [OF os s(1,2), where b = b] by (auto simp: wp_iff)
  let ?msg = "ec_message (sylvan_last_error t)"
  have u: "s\<lparr>errno := 0\<rparr> = s" using s(3) by (cases s) simp
  have "bp_dialogue os b s = Ret (code, t\<lparr>con_out := con_out t @ [bp_line b code ?msg]\<rparr>)"
    by (simp add: bp_dialogue_def bnd_def set_errno_def modify_def gets_def ret_def u t(1))
  moreover have "wp (attempt (bp_exec os b) (bnd (sylvan_print_ok fmt args) (\<lambda>_. ret 0)))
      (\<lambda>r s'. r = 0 \<and> s' = t\<lparr>con_out := con_out t @ [bp_line b code ?msg]\<rparr>) s"
    unfolding attempt_def wp_bnd
    by (rule wp_iff [THEN iffD2])
      (use t fmt plain [OF t(4)] in \<open>auto simp: print_last_error_def sylvan_get_last_error_def print_defs wp_simps bp_line_def\<close>)
  ultimately show ?thesis
    by (elim wp_mono) (use t in \<open>auto simp: answered_def live_printed\<close>)
qed


text \<open>From the words to the call.\<close>

lemma spelled_value: "uint (a :: addr) \<le> LONG_MAX \<Longrightarrow> strtol 16 (digits 16 (unat a)) = (uint a, [], False)"
  by (simp add: strtol_hex)

lemma handler_answers:
  assumes os: "plain_system os" and s: "bp_live s" "ui_ok s"
    and b: "bp_target b \<noteq> 0" "uint (bp_target b) \<le> LONG_MAX" and c: "argv_words c = w # bp_operands b" and h: "bp_handler b = Some h"
  shows "wp (run_handler os tty dl heap h c) (answered os b s) s"
proof -
  let ?u = "s\<lparr>errno := 0\<rparr>"
  have u: "bp_live ?u" "ui_ok ?u" "errno ?u = 0" "answered os b ?u = answered os b s"
    using s by (simp_all add: live_printed answered_def fun_eq_iff dialogue_resets)
  note go = attempt_answers [OF os u(1-3), where b = b, unfolded u(4)]
  note fmts = report_formats [OF b(1)]
  show ?thesis
  proof (cases b)
    case (BpSet a)
    have "wp (attempt (sylvan_breakpoint_set os a) (bnd (sylvan_print_ok ''breakpoint set at: %#lx'' [FLong a]) (\<lambda>_. ret 0)))
        (answered os b s) ?u"
      using go fmts(1) BpSet by (simp add: bp_exec_def)
    then show ?thesis
      using BpSet b c h by (simp add: run_handler_def handle_breakpoint_set_def no_more_def wp_simps Let_def spelled_value)
  next
    case (BpUnset a)
    have "wp (attempt (sylvan_breakpoint_unset os a)
        (bnd (sylvan_print_ok ''breakpoint at addr 0x%lx  is deleted'' [FLong a]) (\<lambda>_. ret 0))) (answered os b s) ?u"
      using go fmts(2) BpUnset by (simp add: bp_exec_def)
    then show ?thesis
      using BpUnset b c h by (simp add: run_handler_def handle_delete_breakpoint_def with_addr_def wp_simps Let_def spelled_value)
  next
    case (BpEnable a)
    have "wp (attempt (sylvan_breakpoint_enable os a)
        (bnd (sylvan_print_ok ''breakpoint at addr 0x%lx  %s'' [FLong a, FStr ''enabled'']) (\<lambda>_. ret 0))) (answered os b s) ?u"
      using go fmts(3) BpEnable by (simp add: bp_exec_def)
    then show ?thesis
      using BpEnable b c h
      by (simp add: run_handler_def handle_enable_breakpoint_def toggle_breakpoint_def toggle_result_def with_addr_def wp_simps
          Let_def spelled_value answered_zero)
  next
    case (BpDisable a)
    have "wp (attempt (sylvan_breakpoint_disable os a)
        (bnd (sylvan_print_ok ''breakpoint at addr 0x%lx  %s'' [FLong a, FStr ''disabled'']) (\<lambda>_. ret 0))) (answered os b s) ?u"
      using go fmts(4) BpDisable by (simp add: bp_exec_def)
    then show ?thesis
      using BpDisable b c h
      by (simp add: run_handler_def handle_disable_breakpoint_def toggle_breakpoint_def toggle_result_def with_addr_def wp_simps
          Let_def spelled_value answered_zero)
  next
    case BpClear
    with h show ?thesis by simp
  qed
qed


lemma command_answers:
  assumes "plain_system os" "bp_live s" "ui_ok s" "bp_spells b c"
  shows "wp (handle_command os tty dl heap c) (answered os b s) s"
proof -
  obtain w where c: "argv_words c = w # bp_operands b"
    using assms(4) by (cases "argv_words c") (auto simp: bp_spells_def)
  then obtain cmd where cmd: "resolve_name static_commands static_aliases w = Some cmd" "bp_handler b = Some (cmd_handler cmd)"
    using assms(4) by (auto simp: bp_spells_def)
  have "wp (run_handler os tty dl heap (cmd_handler cmd) c) (answered os b s) s"
    using assms c cmd(2) by (intro handler_answers) (auto simp: bp_spells_def)
  then show ?thesis
    using c cmd(1) assms(3) by (simp add: handle_command_def lookup_command_def wp_simps ui_ok_def)
qed


section \<open>A sequence of commands\<close>

text \<open>C2: The commands with which the user sets, deletes, enables and disables breakpoints at
  addresses, under any of their names, return 0 and leave exactly the state of the dialogue
  that calls the library once for each, in order, and prints one line for the code that this
  call returned: the report in green for success, the last error in red for any other code.
  These codes and the table change as the abstract service says.\<close>

theorem user_breakpoints_refine:
  assumes os: "plain_system os" and s: "bp_live s" "ui_ok s" and cs: "list_all2 bp_spells bs cs"
  shows "\<exists>codes outs s'. run_all (bp_dialogue os) bs s = Ret (codes, s') \<and>
    run_all (handle_command os tty dl heap) cs s = Ret (replicate (length cs) 0, s') \<and>
    bp_live s' \<and> bp_steps (bp_view s) bs codes (bp_view s') \<and> con_out s' = con_out s @ outs \<and>
    list_all2 (\<lambda>(b, code) out. \<exists>msg. out = bp_line b code msg) (zip bs codes) outs"
  using cs s
proof (induction bs cs arbitrary: s rule: list_all2_induct)
  case Nil
  then show ?case by (simp add: ret_def bp_steps_Nil)
next
  case (Cons b bs c cs)
  obtain code msg t where t: "handle_command os tty dl heap c s = Ret (0, t)" "bp_live t" "ui_ok t"
      "bp_dialogue os b s = Ret (code, t)" "bp_step (bp_view s) b code (bp_view t)"
      "con_out t = con_out s @ [bp_line b code msg]"
    using command_answers [OF os Cons.prems Cons.hyps(1), of tty dl heap] by (auto simp: wp_iff answered_def)
  obtain codes outs s' where u: "run_all (bp_dialogue os) bs t = Ret (codes, s')"
      "run_all (handle_command os tty dl heap) cs t = Ret (replicate (length cs) 0, s')" "bp_live s'"
      "bp_steps (bp_view t) bs codes (bp_view s')" "con_out s' = con_out t @ outs"
      "list_all2 (\<lambda>(b, code) out. \<exists>msg. out = bp_line b code msg) (zip bs codes) outs"
    using Cons.IH [OF t(2,3)] by blast
  show ?case
    by (rule exI [of _ "code # codes"], rule exI [of _ "bp_line b code msg # outs"], rule exI [of _ s'])
      (use t u in \<open>auto simp: bnd_def ret_def intro: bp_steps_Cons\<close>)
qed

theorem user_breakpoints_refine_witness:
  "\<exists>codes outs s'. run_all (bp_dialogue sim_os) [BpSet 4660, BpDisable 3, BpUnset 9] (sim_shell (sim_inferior [3])) = Ret (codes, s') \<and>
    run_all (handle_command sim_os (sim_tty Map.empty) (sim_dislib []) (\<lambda>_. 0))
      [sim_argv [''b'', hex_word 4660], sim_argv [''disable'', ''-a'', hex_word 3], sim_argv [''delete'', ''-a'', hex_word 9]]
      (sim_shell (sim_inferior [3])) = Ret (replicate (length [sim_argv [''b'', hex_word 4660],
        sim_argv [''disable'', ''-a'', hex_word 3], sim_argv [''delete'', ''-a'', hex_word 9]]) 0, s') \<and>
    bp_live s' \<and> bp_steps (bp_view (sim_shell (sim_inferior [3]))) [BpSet 4660, BpDisable 3, BpUnset 9] codes (bp_view s') \<and>
    con_out s' = con_out (sim_shell (sim_inferior [3])) @ outs \<and>
    list_all2 (\<lambda>(b, code) out. \<exists>msg. out = bp_line b code msg) (zip [BpSet 4660, BpDisable 3, BpUnset 9] codes) outs"
proof (rule user_breakpoints_refine [OF sim_plain])
  have "session_ok (sim_shell (sim_inferior [3]))" by (rule sim_session_ok) (simp_all add: small_table)
  then show "ui_ok (sim_shell (sim_inferior [3]))" by (simp add: session_ok_def)
  show "bp_live (sim_shell (sim_inferior [3]))" by (simp add: bp_live_def sim_bps_ok small_table)
  have "map_option cmd_handler (resolve_name static_commands static_aliases ''b'') = Some Handle_breakpoint_set"
    "map_option cmd_handler (resolve_name static_commands static_aliases ''disable'') = Some Handle_disable_breakpoint"
    "map_option cmd_handler (resolve_name static_commands static_aliases ''delete'') = Some Handle_delete_breakpoint"
    by code_simp+
  then show "list_all2 bp_spells [BpSet 4660, BpDisable 3, BpUnset 9]
      [sim_argv [''b'', hex_word 4660], sim_argv [''disable'', ''-a'', hex_word 3], sim_argv [''delete'', ''-a'', hex_word 9]]"
    by (simp add: bp_spells_def sim_argv_def LONG_MAX_def)
qed

end
