(* ===== verification/Startup_Properties.thy ===== *)
theory Startup_Properties
  imports Shell_Properties Process_Properties Registry_Properties
begin

text \<open>
  Properties of the start of the program: its options, and a run from the start to the end.
\<close>

section \<open>A run of the program\<close>

text \<open>Installing the signal handler succeeds and does not touch the keyboard.\<close>

definition signal_kept :: "'w lines \<Rightarrow> bool" where
  "signal_kept inp \<longleftrightarrow> (\<forall>w. \<exists>w'. ln_signal inp w = (Inr (), w') \<and> (\<forall>k. quits_after inp k w \<longrightarrow> quits_after inp k w'))"

text \<open>The heading is all that is printed before the first prompt.\<close>

definition only_out :: "('w, 'm) console_scheme \<Rightarrow> ('w, 'm) console_scheme \<Rightarrow> bool" where
  "only_out s u \<longleftrightarrow> (\<exists>out. u = s\<lparr>con_out := out\<rparr>)"

lemma only_out_refl: "only_out s s"
  unfolding only_out_def by (rule exI [of _ "con_out s"]) simp

lemma only_out_put: "only_out s u \<Longrightarrow> only_out s (u\<lparr>con_out := out\<rparr>)"
  by (auto simp: only_out_def)

lemma wp_put_only: "only_out s u \<Longrightarrow> wp (put f t) (\<lambda>_. only_out s) u"
  by (simp add: wp_simps only_out_put)

lemma heading_only: "wp (print_heading tty) (\<lambda>_. only_out s) s"
proof -
  have title: "wp (printf (''%s%s%*s%s%*s%s'' @ newline)
      [FStr BOLD, FStr MAGENTA, FInt l, FStr [], FStr t, FInt r, FStr [], FStr RESET]) (\<lambda>_. only_out s) u"
    if "only_out s u" for l r t u
  proof -
    have "cformat (''%s%s%*s%s%*s%s'' @ newline)
      [FStr BOLD, FStr MAGENTA, FInt l, FStr [], FStr t, FInt r, FStr [], FStr RESET] \<noteq> None"
      by (simp add: format_simps newline_def)
    then show ?thesis using that by (auto simp: wp_fprintf only_out_put)
  qed
  show ?thesis
    unfolding print_heading_def clear_screen_def Let_def
    by (rule wp_bndI [OF wp_put_only [OF only_out_refl]], unfold wp_bnd [of "gets _"] wp_gets)
      (intro wp_bndI [OF wp_put_only] wp_bndI [OF title] wp_put_only)
qed

text \<open>A new inferior has no process and can be destroyed.\<close>

definition idle_inferior :: "inferior \<Rightarrow> bool" where
  "idle_inferior i \<longleftrightarrow> \<not> isactive i \<and> freeable (inf_elf_table i) \<and> freeable (inf_dwarf_table i)"

lemma create_typing:
  assumes kept: "typing_kept os inp" and quits: "quits_after inp n (world s)"
  shows "wp (sylvan_inferior_create os) (\<lambda>c s'. c = SYLVANC_OK \<and> quits_after inp n (world s') \<and> con_out s' = con_out s \<and>
    history s' = history s \<and> (\<exists>i. infp s' = InfLive i \<and> idle_inferior i)) (s :: ('w, 'm) shell_scheme)"
proof -
  obtain w1 where w1: "os_malloc os INFERIOR_SIZE (world s) = (Inr (), w1)" "quits_after inp n w1"
    using typing_keptE [OF kept] quits by metis
  obtain w2 where w2: "os_malloc os (256 * SYMBOL_SIZE) w1 = (Inr (), w2)" "quits_after inp n w2"
    using typing_keptE [OF kept] w1(2) by metis
  obtain w3 where w3: "os_malloc os (256 * SYMBOL_SIZE) w2 = (Inr (), w3)" "quits_after inp n w3"
    using typing_keptE [OF kept] w2(2) by metis
  show ?thesis
    using w1 w2 w3
    by (simp add: sylvan_inferior_create_def sylvan_sym_init_def sylvan_sym_table_init_def wp_simps Let_def idle_inferior_def
        freeable_def zero_inferior_def isactive_def)
qed

text \<open>The last line of the output tells that the program ends.\<close>

definition program_over :: "int \<Rightarrow> ('w, 'm) shell_scheme \<Rightarrow> bool" where
  "program_over r s \<longleftrightarrow> r = EXIT_SUCCESS \<and> infp s = InfFreed \<and> last (con_out s) = exit_message"

lemma destroyed_over:
  fixes t :: "('w, 'm) shell_scheme"
  assumes t: "infp t = InfLive i" "idle_inferior i" "last (con_out t) = exit_message"
  shows "wp (bnd (sylvan_inferior_destroy os) (\<lambda>code.
               if code \<noteq> SYLVANC_OK then bnd print_last (\<lambda>_. ret EXIT_FAILURE)
               else ret EXIT_SUCCESS)) program_over t"
proof -
  have out: "con_out t' = con_out t" if "dbg.more t' = dbg.more t" for t' :: "('w, 'm) shell_scheme"
    using that by (cases t, cases t') simp
  have "wp (sylvan_inferior_destroy os) (\<lambda>c t'. c = SYLVANC_OK \<and> infp t' = InfFreed \<and>
      sylvan_inferior_count t' = sylvan_inferior_count t - 1 \<and> dbg.more t' = dbg.more t) t"
    using t(2) by (intro destroy_idle [OF t(1)]) (simp_all add: idle_inferior_def)
  then show ?thesis by (rule wp_bndI) (auto simp: wp_ret program_over_def t(3) dest!: out)
qed

lemma interface_quits:
  fixes t :: "('w, 'm) shell_scheme"
  assumes kept: "typing_kept os inp" and signal: "signal_kept inp" and fuel: "n < fuel"
    and t: "quits_after inp n (world t)" "history t = []"
  shows "wp (interface_loop os tty dl heap inp fuel) (\<lambda>_ t'. infp t' = infp t \<and> last (con_out t') = exit_message) t"
proof -
  obtain w where w: "ln_signal inp (world t) = (Inr (), w)" "quits_after inp n w"
    using signal t(1) unfolding signal_kept_def by metis
  have body: "wp (bnd init_commands (\<lambda>_. bnd (shell_loop os tty dl heap inp fuel) (\<lambda>_. bnd free_alias_table (\<lambda>_.
      modify (\<lambda>s. s\<lparr>history := []\<rparr>))))) (\<lambda>_ t'. infp t' = infp t \<and> last (con_out t') = exit_message) u"
    if u: "only_out (t\<lparr>world := w\<rparr>) u" for u
  proof -
    have "history u = []" "infp u = infp t" "world u = w" using u t(2) by (auto simp: only_out_def)
    then show ?thesis
      using w(2) unfolding wp_bnd [of init_commands] wp_init_commands
      by (intro wp_bndI [OF loop_quits [OF kept _ fuel]]) (auto simp: free_alias_table_def wp_simps)
  qed
  show ?thesis
    unfolding interface_loop_def wp_bnd [of "sys _"] wp_sys w(1) prod.case sum.case
    by (rule wp_bndI [OF heading_only body])
qed

text \<open>C26: Started without options, the program runs until the user types \<open>quit\<close>: it prints its
  heading, ends the loop, frees the inferior and reports success.\<close>

theorem program_quits:
  assumes kept: "typing_kept os inp" and signal: "signal_kept inp" and quits: "quits_after inp n (world s)" and fuel: "n < fuel"
    and hist: "history s = []"
  shows "wp (debugger_main os tty dl heap inp fuel ([], [])) (\<lambda>r s'. r = EXIT_SUCCESS \<and> infp s' = InfFreed \<and>
    last (con_out s') = exit_message) (s :: ('w, 'm) shell_scheme)"
proof -
  have main: "wp (bnd (interface_loop os tty dl heap inp fuel) (\<lambda>_.
             bnd (sylvan_inferior_destroy os) (\<lambda>code.
               if code \<noteq> SYLVANC_OK then bnd print_last (\<lambda>_. ret EXIT_FAILURE)
               else ret EXIT_SUCCESS))) program_over t"
    if "quits_after inp n (world t)" "history t = []" "infp t = InfLive i" "idle_inferior i" for t :: "('w, 'm) shell_scheme" and i
    by (rule wp_bndI [OF interface_quits [OF kept signal fuel that(1,2)]]) (use that in \<open>auto intro!: destroyed_over\<close>)
  have args: "wp (parse_args ([], []) cmd_args_init) Q t = Q (Inr cmd_args_init) t" for Q and t :: "('w, 'm) shell_scheme"
    by (simp add: parse_args_def parse_operands_def wp_simps)
  have "wp (debugger_main os tty dl heap inp fuel ([], [])) program_over s"
    unfolding debugger_main_def wp_bnd [of "parse_args _ _"] args sum.case wp_bnd [of "modify _"] wp_modify
  proof (rule wp_bndI [OF create_typing [OF kept]])
    show "quits_after inp n (world (s\<lparr>infp := InfNull\<rparr>))" using quits by simp
  next
    fix c and t :: "('w, 'm) shell_scheme"
    assume "c = SYLVANC_OK \<and> quits_after inp n (world t) \<and> con_out t = con_out (s\<lparr>infp := InfNull\<rparr>) \<and>
      history t = history (s\<lparr>infp := InfNull\<rparr>) \<and> (\<exists>i. infp t = InfLive i \<and> idle_inferior i)"
    then obtain i where c: "c = SYLVANC_OK" "quits_after inp n (world t)" "history t = []" "infp t = InfLive i" "idle_inferior i"
      using hist by auto
    show "wp (if c \<noteq> SYLVANC_OK then bnd print_last (\<lambda>_. ret EXIT_FAILURE)
           else
             bnd (apply_setting (filepath cmd_args_init) (\<lambda>f. sylvan_set_filepath os (Some f))) (\<lambda>_.
             bnd (apply_setting (file_args cmd_args_init) (\<lambda>x. sylvan_set_args os (Some x))) (\<lambda>_.
             bnd (apply_setting (if is_attached cmd_args_init then Some (arg_pid cmd_args_init) else None) (sylvan_attach os)) (\<lambda>_.
             bnd (interface_loop os tty dl heap inp fuel) (\<lambda>_.
             bnd (sylvan_inferior_destroy os) (\<lambda>code.
               if code \<noteq> SYLVANC_OK then bnd print_last (\<lambda>_. ret EXIT_FAILURE)
               else ret EXIT_SUCCESS)))))) program_over t"
      using main [OF c(2-5)] unfolding c(1) apply_setting_def cmd_args_init_def by (simp add: wp_bnd [of "ret _"] wp_ret)
  qed
  then show ?thesis by (simp only: program_over_def [abs_def])
qed

theorem program_quits_witness:
  "wp (debugger_main sim_os (sim_tty Map.empty) (sim_dislib []) (\<lambda>_. 0) (sim_lines ''quit'') 1 ([], []))
     (\<lambda>r s'. r = EXIT_SUCCESS \<and> infp s' = InfFreed \<and> last (con_out s') = exit_message) (sim_shell zero_inferior)"
  by (rule program_quits [OF sim_typing _ sim_quits])
    (simp_all add: signal_kept_def sim_lines_def sim_shell_def)

end
