(* ===== verification/Line_Memory.thy ===== *)
theory Line_Memory
  imports Shell
begin

text \<open>
  \<open>src/user_interface.c\<close> again, with the blocks of the heap that a line goes through and with
  the signal: the buffer that \<open>readline\<close> returns, the array of words and the words, what
  \<open>strtok\<close> keeps between its calls, the handler of \<open>SIGINT\<close>, the hook that \<open>readline\<close> calls
  while it waits, and \<open>free_command\<close>. \<open>Shell\<close> has the same loop on lists.
\<close>

section \<open>Blocks\<close>

text \<open>
  Two kinds of blocks: characters, and pointers to them. A cell of an array is \<open>None\<close> until it
  is set; \<open>Some None\<close> is the null pointer. A block that was freed, or not yet allocated, is
  \<open>None\<close>; accessing or freeing it is undefined.
\<close>

type_synonym cell = "nat option option"

record 'w line_mem = "'w shell" +
  char_blocks :: "nat \<Rightarrow> string option"
  ptr_blocks :: "nat \<Rightarrow> cell list option"
  next_addr :: nat
  strtok_save :: "(nat \<times> nat) option"
  interrupted :: int
  rl_done :: int
  rl_line_buffer :: string

type_synonym ('w, 'm, 'a) lprog = "(('w, 'm) line_mem_scheme, 'a) prog"

definition new_string :: "string \<Rightarrow> ('w, 'm, nat) lprog" where
  "new_string t = (\<lambda>s. Ret (next_addr s,
     s\<lparr>char_blocks := (char_blocks s)(next_addr s \<mapsto> t), next_addr := next_addr s + 1\<rparr>))"

definition new_array :: "cell list \<Rightarrow> ('w, 'm, nat) lprog" where
  "new_array cs = (\<lambda>s. Ret (next_addr s,
     s\<lparr>ptr_blocks := (ptr_blocks s)(next_addr s \<mapsto> cs), next_addr := next_addr s + 1\<rparr>))"

definition block_at :: "nat \<Rightarrow> ('w, 'm, string) lprog" where
  "block_at b = bnd (gets (\<lambda>s. char_blocks s b)) (\<lambda>t. not_null t ret)"

definition array_at :: "nat \<Rightarrow> ('w, 'm, cell list) lprog" where
  "array_at a = bnd (gets (\<lambda>s. ptr_blocks s a)) (\<lambda>cs. not_null cs ret)"

definition free_string :: "nat option \<Rightarrow> ('w, 'm, unit) lprog" where
  "free_string p = (case p of None \<Rightarrow> ret ()
     | Some b \<Rightarrow> bnd (block_at b) (\<lambda>_. modify (\<lambda>s. s\<lparr>char_blocks := (char_blocks s)(b := None)\<rparr>)))"

definition free_array :: "nat \<Rightarrow> ('w, 'm, unit) lprog" where
  "free_array a = bnd (array_at a) (\<lambda>_. modify (\<lambda>s. s\<lparr>ptr_blocks := (ptr_blocks s)(a := None)\<rparr>))"

text \<open>\<open>args[i]\<close>\<close>

definition get_cell :: "nat \<Rightarrow> nat \<Rightarrow> ('w, 'm, nat option) lprog" where
  "get_cell a i = bnd (array_at a) (\<lambda>cs. if i < length cs then not_null (cs ! i) ret else undefined_behaviour)"

definition set_cell :: "nat \<Rightarrow> nat \<Rightarrow> nat option \<Rightarrow> ('w, 'm, unit) lprog" where
  "set_cell a i p = bnd (array_at a) (\<lambda>cs. if i < length cs
     then modify (\<lambda>s. s\<lparr>ptr_blocks := (ptr_blocks s)(a \<mapsto> cs[i := Some p])\<rparr>) else undefined_behaviour)"

text \<open>The string at a place in a block, which must end inside the block.\<close>

definition string_at :: "nat \<times> nat \<Rightarrow> ('w, 'm, string) lprog" where
  "string_at p = bnd (block_at (fst p)) (\<lambda>t.
     if NUL \<in> set (drop (snd p) t) then ret (cstr (drop (snd p) t)) else undefined_behaviour)"

definition copy_string :: "'w os \<Rightarrow> string \<Rightarrow> ('w, 'm, nat option) lprog" where
  "copy_string os t = bnd (sys (os_malloc os (length t + 1))) (\<lambda>r.
     case r of Inl _ \<Rightarrow> ret None | Inr _ \<Rightarrow> bnd (new_string (t @ [NUL])) (\<lambda>b. ret (Some b)))"

definition c_strdup :: "'w os \<Rightarrow> nat \<times> nat \<Rightarrow> ('w, 'm, nat option) lprog" where
  "c_strdup os p = bnd (string_at p) (copy_string os)"

definition malloc_array :: "'w os \<Rightarrow> nat \<Rightarrow> ('w, 'm, nat option) lprog" where
  "malloc_array os n = bnd (sys (os_malloc os (n * 8))) (\<lambda>r.
     case r of Inl _ \<Rightarrow> ret None | Inr _ \<Rightarrow> bnd (new_array (replicate n None)) (\<lambda>a. ret (Some a)))"

text \<open>\<open>realloc\<close> to a greater size: the old block is freed unless memory ran out.\<close>

definition realloc_array :: "'w os \<Rightarrow> nat \<Rightarrow> nat \<Rightarrow> ('w, 'm, nat option) lprog" where
  "realloc_array os a n = bnd (array_at a) (\<lambda>cs. bnd (sys (os_malloc os (n * 8))) (\<lambda>r.
     case r of Inl _ \<Rightarrow> ret None
     | Inr _ \<Rightarrow> bnd (free_array a) (\<lambda>_. bnd (new_array (take n cs @ replicate (n - length cs) None)) (\<lambda>a'. ret (Some a')))))"

text \<open>
  \<open>strtok\<close> with one separator: it writes a NUL over the separator behind the word and keeps the
  place after it, or the place of the final NUL.
\<close>

definition strtok :: "char \<Rightarrow> (nat \<times> nat) option \<Rightarrow> ('w, 'm, (nat \<times> nat) option) lprog" where
  "strtok d p =
     bnd (case p of Some q \<Rightarrow> ret q | None \<Rightarrow> bnd (gets strtok_save) (\<lambda>q. not_null q ret)) (\<lambda>(b, i).
     bnd (string_at (b, i)) (\<lambda>t.
       let from = i + length (takeWhile (\<lambda>c. c = d) t); w = takeWhile (\<lambda>c. c \<noteq> d) (dropWhile (\<lambda>c. c = d) t);
           stop = from + length w in
       if w = [] then bnd (modify (\<lambda>s. s\<lparr>strtok_save := Some (b, i + length t)\<rparr>)) (\<lambda>_. ret None)
       else if stop = i + length t then bnd (modify (\<lambda>s. s\<lparr>strtok_save := Some (b, stop)\<rparr>)) (\<lambda>_. ret (Some (b, from)))
       else bnd (block_at b) (\<lambda>u.
         bnd (modify (\<lambda>s. s\<lparr>char_blocks := (char_blocks s)(b \<mapsto> u[stop := NUL]), strtok_save := Some (b, stop + 1)\<rparr>)) (\<lambda>_.
           ret (Some (b, from))))))"


section \<open>The signal\<close>

definition handle_sigint :: "int \<Rightarrow> ('w, 'm, unit) lprog" where
  "handle_sigint sig = modify (\<lambda>s. s\<lparr>interrupted := 1\<rparr>)"

text \<open>What is displayed is not modelled.\<close>

definition event_hook :: "('w, 'm, int) lprog" where
  "event_hook = bnd (gets interrupted) (\<lambda>f.
     if f \<noteq> 0 then bnd (modify (\<lambda>s. s\<lparr>rl_done := 1, rl_line_buffer := []\<rparr>)) (\<lambda>_. ret 1) else ret 0)"

text \<open>
  What happens until the user ends the line: a signal arrives, \<open>readline\<close> calls its hook, or
  the line is edited. \<open>readline\<close> returns at once when \<open>rl_done\<close> is set. A signal that arrives
  outside of \<open>readline\<close> is taken as the first of the next line: nothing but \<open>readline\<close> and
  what follows it reads the flag.
\<close>

datatype rl_event = Rl_signal | Rl_idle | Rl_edit string

definition rl_event_step :: "rl_event \<Rightarrow> ('w, 'm, unit) lprog" where
  "rl_event_step e = (case e of
       Rl_signal \<Rightarrow> handle_sigint 2
     | Rl_idle \<Rightarrow> bnd event_hook (\<lambda>_. ret ())
     | Rl_edit t \<Rightarrow> modify (\<lambda>s. s\<lparr>rl_line_buffer := t\<rparr>))"

fun during_readline :: "rl_event list \<Rightarrow> ('w, 'm, unit) lprog" where
  "during_readline [] = ret ()"
| "during_readline (e # es) = bnd (rl_event_step e) (\<lambda>_. bnd (gets rl_done) (\<lambda>d.
     if d \<noteq> 0 then ret () else during_readline es))"

text \<open>
  The terminal: the events of a line, and whether it ends with the end of the input, when
  \<open>readline\<close> answers a null pointer; otherwise it answers a copy of its buffer.
\<close>

record 'w keyboard =
  kb_read :: "string \<Rightarrow> 'w \<Rightarrow> (rl_event list \<times> bool) \<times> 'w"
  kb_junk :: "'w \<Rightarrow> nat \<Rightarrow> bool"
  kb_signal :: "'w \<Rightarrow> (int + unit) \<times> 'w"

definition readline :: "'w keyboard \<Rightarrow> string \<Rightarrow> ('w, 'm, nat option) lprog" where
  "readline kb prompt =
     bnd (modify (\<lambda>s. s\<lparr>rl_done := 0, rl_line_buffer := []\<rparr>)) (\<lambda>_.
     bnd (extern (kb_read kb prompt)) (\<lambda>(events, eof).
     bnd (during_readline events) (\<lambda>_.
     bnd (gets rl_done) (\<lambda>d. bnd (gets rl_line_buffer) (\<lambda>t.
       if d = 0 \<and> eof then ret None else bnd (new_string (cstr t @ [NUL])) (\<lambda>b. ret (Some b)))))))"


section \<open>Reading a command\<close>

text \<open>\<open>for (i = 0; i < n; i++) free(args[i]);\<close>\<close>

fun free_words :: "nat \<Rightarrow> nat \<Rightarrow> nat \<Rightarrow> ('w, 'm, unit) lprog" where
  "free_words a i 0 = ret ()"
| "free_words a i (Suc n) = bnd (get_cell a i) (\<lambda>p. bnd (free_string p) (\<lambda>_. free_words a (Suc i) n))"

text \<open>What both error paths of the loop do: free the words, the array and the line.\<close>

definition give_up :: "'w os \<Rightarrow> string \<Rightarrow> nat option \<Rightarrow> nat \<Rightarrow> nat \<Rightarrow> ('w, 'm, unit) lprog" where
  "give_up os msg input a n =
     bnd (perror os msg) (\<lambda>_. bnd (free_words a 0 n) (\<lambda>_. bnd (free_array a) (\<lambda>_. free_string input)))"

text \<open>One turn of the loop over the words, with \<open>args\<close>, \<open>arg_count\<close>, \<open>arg_size\<close> and \<open>token\<close>;
  at the end the array and the number of words, or \<open>None\<close> after an error.\<close>

definition copy_word ::
  "'w os \<Rightarrow> nat option \<Rightarrow> nat \<times> nat \<times> nat \<times> (nat \<times> nat) option \<Rightarrow>
   ('w, 'm, (nat \<times> nat \<times> nat \<times> (nat \<times> nat) option) + (nat \<times> nat) option) lprog" where
  "copy_word os input = (\<lambda>(args, arg_count, arg_size, token).
     case token of
       None \<Rightarrow> ret (Inr (Some (args, arg_count)))
     | Some t \<Rightarrow>
         bnd (c_strdup os t) (\<lambda>w. bnd (set_cell args arg_count w) (\<lambda>_.
           if w = None then bnd (give_up os ''Error: strdup failed'' input args arg_count) (\<lambda>_. ret (Inr None))
           else if Suc arg_count \<ge> arg_size - 1
           then bnd (realloc_array os args (2 * arg_size)) (\<lambda>new_args.
             case new_args of
               None \<Rightarrow> bnd (give_up os ''Error: realloc failed'' input args (Suc arg_count)) (\<lambda>_. ret (Inr None))
             | Some args \<Rightarrow> bnd (strtok (CHR '' '') None) (\<lambda>token. ret (Inl (args, Suc arg_count, 2 * arg_size, token))))
           else bnd (strtok (CHR '' '') None) (\<lambda>token. ret (Inl (args, Suc arg_count, arg_size, token))))))"

text \<open>An empty line is replaced by a copy of the last one of the history.\<close>

definition recalled :: "'w os \<Rightarrow> nat \<Rightarrow> ('w, 'm, nat option) lprog" where
  "recalled os b = bnd (string_at (b, 0)) (\<lambda>line.
     if line \<noteq> [] then bnd (modify (\<lambda>s. s\<lparr>history := history s @ [line]\<rparr>)) (\<lambda>_. ret (Some b))
     else bnd (gets history) (\<lambda>h.
       if h \<noteq> [] \<and> last h \<noteq> [] then bnd (free_string (Some b)) (\<lambda>_. copy_string os (last h)) else ret (Some b)))"

definition split_line :: "'w os \<Rightarrow> nat option \<Rightarrow> ('w, 'm, nat option) lprog" where
  "split_line os input =
     bnd (malloc_array os INITIAL_ARG_COUNT) (\<lambda>args.
       case args of
         None \<Rightarrow> bnd (perror os ''Error: malloc failed for args'') (\<lambda>_. bnd (free_string input) (\<lambda>_. ret None))
       | Some args \<Rightarrow>
           bnd (strtok (CHR '' '') (map_option (\<lambda>b. (b, 0)) input)) (\<lambda>token.
           bnd (loop (copy_word os input) (args, 0, INITIAL_ARG_COUNT, token)) (\<lambda>res.
             case res of
               None \<Rightarrow> ret None
             | Some (args, arg_count) \<Rightarrow>
                 bnd (set_cell args arg_count None) (\<lambda>_. bnd (free_string input) (\<lambda>_. ret (Some args))))))"

definition mem_get_command :: "'w os \<Rightarrow> 'w keyboard \<Rightarrow> string option \<Rightarrow> ('w, 'm, nat option) lprog" where
  "mem_get_command os kb prompt =
     (case prompt of
        None \<Rightarrow> bnd (put Stderr (''Error: Prompt is NULL'' @ newline)) (\<lambda>_. ret None)
      | Some prompt \<Rightarrow>
          bnd (readline kb prompt) (\<lambda>input. bnd (gets interrupted) (\<lambda>f.
            if f \<noteq> 0
            then bnd (modify (\<lambda>s. s\<lparr>interrupted := 0\<rparr>)) (\<lambda>_. bnd (free_string input) (\<lambda>_. ret None))
            else not_null input (\<lambda>b. bnd (recalled os b) (split_line os)))))"

text \<open>\<open>for (i = 0; args[i] != NULL; i++) free(args[i]); free(args);\<close>\<close>

definition mem_free_command :: "nat option \<Rightarrow> ('w, 'm, unit) lprog" where
  "mem_free_command args = (case args of None \<Rightarrow> ret ()
     | Some a \<Rightarrow> bnd (loop (\<lambda>i. bnd (get_cell a i) (\<lambda>p.
         if p = None then ret (Inr ()) else bnd (free_string p) (\<lambda>_. ret (Inl (Suc i))))) 0) (\<lambda>_. free_array a))"


section \<open>The loop\<close>

text \<open>The array as the handlers see it.\<close>

fun words_of :: "(nat \<Rightarrow> string option) \<Rightarrow> cell list \<Rightarrow> string list option" where
  "words_of m [] = None"
| "words_of m (None # cs) = None"
| "words_of m (Some None # cs) = Some []"
| "words_of m (Some (Some b) # cs) =
     (case m b of None \<Rightarrow> None | Some t \<Rightarrow> if NUL \<in> set t then map_option (Cons (cstr t)) (words_of m cs) else None)"

definition argv_at :: "(nat \<Rightarrow> bool) \<Rightarrow> ('w, 'm) line_mem_scheme \<Rightarrow> nat \<Rightarrow> argv option" where
  "argv_at junk s a = (case ptr_blocks s a of None \<Rightarrow> None
     | Some cs \<Rightarrow> map_option (\<lambda>ws. \<lparr>argv_words = ws, argv_size = length cs, argv_junk = junk\<rparr>) (words_of (char_blocks s) cs))"

definition read_argv :: "'w keyboard \<Rightarrow> nat \<Rightarrow> ('w, 'm, argv) lprog" where
  "read_argv kb a = bnd (gets (\<lambda>s. argv_at (kb_junk kb (world s)) s a)) (\<lambda>c. not_null c ret)"

definition PROMPT_MAX_LEN :: nat where "PROMPT_MAX_LEN = 50"

definition shell_prompt :: "string option" where
  "shell_prompt = snprintf PROMPT_MAX_LEN (''%s[%ssylvan%s]%s'' @ [CHR 0xE2, CHR 0x9E, CHR 0xA4] @ ''%s '')
     [FStr BLUE, FStr MAGENTA, FStr BLUE, FStr YELLOW, FStr RESET]"

definition mem_turn ::
  "'w os \<Rightarrow> 'w tty \<Rightarrow> 'w dislib \<Rightarrow> (nat \<Rightarrow> byte) \<Rightarrow> 'w keyboard \<Rightarrow> string \<Rightarrow> ('w, 'm, bool) lprog" where
  "mem_turn os tty dl heap kb prompt =
     bnd (mem_get_command os kb (Some prompt)) (\<lambda>line.
       case line of
         None \<Rightarrow> ret False
       | Some a \<Rightarrow> bnd (read_argv kb a) (\<lambda>c.
           if argv_words c = [] \<or> argv_words c ! 0 = [] then bnd (mem_free_command line) (\<lambda>_. ret False)
           else bnd (handle_command os tty dl heap c) (\<lambda>r.
             bnd (mem_free_command line) (\<lambda>_. ret (r \<noteq> 0)))))"

definition mem_loop ::
  "'w os \<Rightarrow> 'w tty \<Rightarrow> 'w dislib \<Rightarrow> (nat \<Rightarrow> byte) \<Rightarrow> 'w keyboard \<Rightarrow> string \<Rightarrow> ('w, 'm, unit) lprog" where
  "mem_loop os tty dl heap kb prompt =
     loop (\<lambda>_. bnd (mem_turn os tty dl heap kb prompt) (\<lambda>ended. ret (if ended then Inr () else Inl ()))) ()"

definition mem_interface_loop ::
  "'w os \<Rightarrow> 'w tty \<Rightarrow> 'w dislib \<Rightarrow> (nat \<Rightarrow> byte) \<Rightarrow> 'w keyboard \<Rightarrow> ('w, 'm, unit) lprog" where
  "mem_interface_loop os tty dl heap kb =
     bnd (sys (kb_signal kb)) (\<lambda>r.
       case r of
         Inl _ \<Rightarrow> perror os ''Failed to set SIGINT handler''
       | Inr _ \<Rightarrow>
           bnd (print_heading tty) (\<lambda>_. bnd init_commands (\<lambda>_. not_null shell_prompt (\<lambda>prompt.
           bnd (mem_loop os tty dl heap kb prompt) (\<lambda>_. bnd free_alias_table (\<lambda>_.
             modify (\<lambda>s. s\<lparr>history := []\<rparr>)))))))"

end
