(* ===== verification/Line_Memory_Lemmas.thy ===== *)
theory Line_Memory_Lemmas
  imports Line_Memory
begin

text \<open>
  The blocks of \<open>Line_Memory\<close>: what each operation on them does, the buffer that \<open>strtok\<close>
  cuts into words, and what a line owns while it is read.
\<close>

section \<open>Operations on blocks\<close>

lemma wp_new_string [wp_simps]:
  "wp (new_string t) Q s = Q (next_addr s) (s\<lparr>char_blocks := (char_blocks s)(next_addr s \<mapsto> t), next_addr := next_addr s + 1\<rparr>)"
  by (simp add: wp_def new_string_def)

lemma wp_new_array [wp_simps]:
  "wp (new_array cs) Q s = Q (next_addr s) (s\<lparr>ptr_blocks := (ptr_blocks s)(next_addr s \<mapsto> cs), next_addr := next_addr s + 1\<rparr>)"
  by (simp add: wp_def new_array_def)

lemma wp_block_at [wp_simps]: "wp (block_at b) Q s = (case char_blocks s b of None \<Rightarrow> False | Some t \<Rightarrow> Q t s)"
  by (simp add: block_at_def wp_simps split: option.splits)

lemma wp_array_at [wp_simps]: "wp (array_at a) Q s = (case ptr_blocks s a of None \<Rightarrow> False | Some cs \<Rightarrow> Q cs s)"
  by (simp add: array_at_def wp_simps split: option.splits)

lemma wp_free_string [wp_simps]:
  "wp (free_string p) Q s = (case p of None \<Rightarrow> Q () s
     | Some b \<Rightarrow> char_blocks s b \<noteq> None \<and> Q () (s\<lparr>char_blocks := (char_blocks s)(b := None)\<rparr>))"
  by (auto simp: free_string_def wp_simps split: option.splits)

lemma wp_free_array [wp_simps]:
  "wp (free_array a) Q s = (ptr_blocks s a \<noteq> None \<and> Q () (s\<lparr>ptr_blocks := (ptr_blocks s)(a := None)\<rparr>))"
  by (auto simp: free_array_def wp_simps split: option.splits)

lemma wp_get_cell:
  "ptr_blocks s a = Some cs \<Longrightarrow> i < length cs \<Longrightarrow> cs ! i = Some p \<Longrightarrow> wp (get_cell a i) Q s = Q p s"
  by (simp add: get_cell_def wp_simps)

lemma wp_set_cell:
  "ptr_blocks s a = Some cs \<Longrightarrow> i < length cs \<Longrightarrow>
   wp (set_cell a i p) Q s = Q () (s\<lparr>ptr_blocks := (ptr_blocks s)(a \<mapsto> cs[i := Some p])\<rparr>)"
  by (simp add: set_cell_def wp_simps)

lemma wp_string_at:
  "char_blocks s b = Some t \<Longrightarrow> NUL \<in> set (drop i t) \<Longrightarrow> wp (string_at (b, i)) Q s = Q (cstr (drop i t)) s"
  by (simp add: string_at_def wp_simps)

lemma wp_perror [wp_simps]:
  "wp (perror os msg) Q s = Q () (s\<lparr>con_out := con_out s @ [(Stderr, msg @ '': '' @ os_strerror os (errno s) @ newline)]\<rparr>)"
  by (simp add: perror_def wp_simps)


section \<open>Freeing words\<close>

lemma restrict_all [simp]: "m |` UNIV = m"
  by (simp add: restrict_map_def)

lemma wp_free_words:
  assumes "ptr_blocks s a = Some cs" "take (length ps) (drop i cs) = map (Some \<circ> Some) ps" "distinct ps" "set ps \<subseteq> dom (char_blocks s)"
  shows "wp (free_words a i (length ps)) Q s = Q () (s\<lparr>char_blocks := char_blocks s |` (- set ps)\<rparr>)"
  using assms
proof (induction ps arbitrary: i s)
  case Nil
  then show ?case by (simp add: wp_simps)
next
  case (Cons p ps)
  then have "drop i cs \<noteq> []" by auto
  then have i: "i < length cs" "drop i cs = cs ! i # drop (Suc i) cs" by (simp_all add: Cons_nth_drop_Suc)
  then have cell: "cs ! i = Some (Some p)" "take (length ps) (drop (Suc i) cs) = map (Some \<circ> Some) ps" using Cons.prems(2) by simp_all
  have "char_blocks s p \<noteq> None" using Cons.prems(4) by auto
  then have "wp (free_words a i (length (p # ps))) Q s
    = wp (free_words a (Suc i) (length ps)) Q (s\<lparr>char_blocks := (char_blocks s)(p := None)\<rparr>)"
    using cell Cons.prems i by (simp add: wp_bnd wp_get_cell wp_free_string)
  also have "\<dots> = Q () (s\<lparr>char_blocks := char_blocks s |` (- set (p # ps))\<rparr>)"
    using Cons.prems cell(2) by (subst Cons.IH) (auto simp: Compl_insert)
  finally show ?case .
qed

lemma wp_free_until_null:
  assumes "ptr_blocks s a = Some cs" "drop i cs = map (Some \<circ> Some) ps @ Some None # rest" "distinct ps" "set ps \<subseteq> dom (char_blocks s)"
  shows "wp (loop (\<lambda>i. bnd (get_cell a i) (\<lambda>p.
         if p = None then ret (Inr ()) else bnd (free_string p) (\<lambda>_. ret (Inl (Suc i))))) i) Q s
    = Q () (s\<lparr>char_blocks := char_blocks s |` (- set ps)\<rparr>)"
  using assms
proof (induction ps arbitrary: i s)
  case Nil
  then have "i < length cs" "cs ! i = Some None" using nth_via_drop [of i cs] by (auto simp: not_le [symmetric])
  then show ?case using Nil by (subst wp_loop) (simp add: wp_bnd wp_get_cell wp_ret)
next
  case (Cons p ps)
  then have i: "i < length cs" by (auto simp: not_le [symmetric])
  then have "drop i cs = cs ! i # drop (Suc i) cs" by (simp add: Cons_nth_drop_Suc)
  then have cell: "cs ! i = Some (Some p)" "drop (Suc i) cs = map (Some \<circ> Some) ps @ Some None # rest" using Cons.prems(2) by (simp_all add: comp_def)
  have "char_blocks s p \<noteq> None" using Cons.prems(4) by auto
  then show ?case
    using Cons.prems cell i by (subst wp_loop) (simp add: wp_bnd wp_get_cell wp_free_string wp_ret, subst Cons.IH, auto simp: Compl_insert)
qed


section \<open>Strings\<close>

lemma NUL_cstr [simp]: "NUL \<notin> set (cstr t)"
  by (auto simp: cstr_def dest: set_takeWhileD)

lemma first_run:
  assumes "d \<in> set t"
  shows "\<exists>r. t = takeWhile (\<lambda>c. c \<noteq> d) t @ d # r"
proof -
  obtain w r where "t = w @ d # r" "d \<notin> set w" using split_list_first [OF assms] by blast
  moreover have "takeWhile (\<lambda>c. c \<noteq> d) (w @ d # r) = w" using \<open>d \<notin> set w\<close> by (induction w) auto
  ultimately show ?thesis by metis
qed

lemma takeWhile_all [simp]: "d \<notin> set t \<Longrightarrow> takeWhile (\<lambda>c. c \<noteq> d) t = t"
  by (induction t) auto

lemma cstr_id [simp]: "NUL \<notin> set t \<Longrightarrow> cstr (t @ [NUL]) = t" "NUL \<notin> set t \<Longrightarrow> cstr (t @ NUL # u) = t"
  by (induction t) (auto simp: cstr_def)

lemma cstr_split: "NUL \<in> set t \<Longrightarrow> \<exists>u. t = cstr t @ NUL # u"
  unfolding cstr_def by (rule first_run)

text \<open>The first word of a string, and what is left of it.\<close>

lemma strtok_all_skip: "strtok_all d s = strtok_all d (dropWhile (\<lambda>c. c = d) s)"
  by (induction s) (simp_all add: strtok_all_def)

lemma strtok_all_first:
  assumes "t = dropWhile (\<lambda>c. c = d) s" "w = takeWhile (\<lambda>c. c \<noteq> d) t"
  shows "strtok_all d s = (if w = [] then [] else w # strtok_all d (drop (length w + 1) t))"
proof -
  have w: "d \<notin> set w" using assms(2) by (auto dest: set_takeWhileD)
  show ?thesis
  proof (cases "t = w")
    case True
    then show ?thesis using w strtok_all_skip [of d s] assms(1) by (simp add: strtok_all_def strtok_from_last)
  next
    case False
    then have "d \<in> set t" using assms(2) by (metis takeWhile_all)
    then obtain r where r: "t = w @ d # r" using first_run assms(2) by metis
    have "w \<noteq> []" using r assms(1) hd_dropWhile [of "\<lambda>c. c = d" s] by auto
    with w r show ?thesis using strtok_all_skip [of d s] assms(1) by (simp add: strtok_all_def strtok_from_word)
  qed
qed


section \<open>strtok\<close>

text \<open>The words \<open>ts\<close> are still to come: the first at the token, the others behind the saved place.\<close>

definition token_ok :: "char \<Rightarrow> nat \<Rightarrow> string \<Rightarrow> (nat \<times> nat) option \<Rightarrow> (nat \<times> nat) option \<Rightarrow> string list \<Rightarrow> bool" where
  "token_ok d b buf save token ts \<longleftrightarrow> (\<exists>j. save = Some (b, j)) \<and> (case token of
       None \<Rightarrow> ts = []
     | Some (c, i) \<Rightarrow> c = b \<and> NUL \<in> set (drop i buf) \<and> ts \<noteq> [] \<and> cstr (drop i buf) = hd ts \<and>
         (\<exists>j. save = Some (b, j) \<and> NUL \<in> set (drop j buf) \<and> strtok_all d (cstr (drop j buf)) = tl ts))"

lemma strtok_spec:
  assumes blk: "char_blocks s b = Some buf" and place: "p = Some (b, i) \<or> p = None \<and> strtok_save s = Some (b, i)"
    and nul: "NUL \<in> set (drop i buf)" "d \<noteq> NUL"
    and Q: "\<And>token buf' save'. token_ok d b buf' save' token (strtok_all d (cstr (drop i buf))) \<Longrightarrow>
      Q token (s\<lparr>char_blocks := (char_blocks s)(b \<mapsto> buf'), strtok_save := save'\<rparr>)"
  shows "wp (strtok d p) Q s"
proof -
  define t where "t = cstr (drop i buf)"
  define u where "u = dropWhile (\<lambda>c. c = d) t"
  define w where "w = takeWhile (\<lambda>c. c \<noteq> d) u"
  define from' where "from' = i + length (takeWhile (\<lambda>c. c = d) t)"
  have t: "NUL \<notin> set t" by (simp add: t_def)
  obtain rest where rest: "drop i buf = t @ NUL # rest" using cstr_split [OF nul(1)] by (auto simp: t_def)
  have tu: "t = takeWhile (\<lambda>c. c = d) t @ u" by (simp add: u_def)
  have at: "drop from' buf = u @ NUL # rest"
  proof -
    have "drop from' buf = drop (length (takeWhile (\<lambda>c. c = d) t)) (drop i buf)" by (simp add: from'_def add.commute)
    also have "\<dots> = u @ NUL # rest" unfolding rest by (subst tu) simp
    finally show ?thesis .
  qed
  have u: "NUL \<notin> set u" using t tu by (metis Un_iff set_append)
  have uw: "u = w @ drop (length w) u" unfolding w_def by (metis append_eq_conv_conj takeWhile_dropWhile_id)
  have nw: "NUL \<notin> set w" using u by (auto simp: w_def dest: set_takeWhileD)
  have words: "strtok_all d t = (if w = [] then [] else w # strtok_all d (drop (length w + 1) u))"
    by (rule strtok_all_first) (simp_all add: u_def w_def)
  have same: "s\<lparr>char_blocks := (char_blocks s)(b \<mapsto> buf), strtok_save := v\<rparr> = s\<lparr>strtok_save := v\<rparr>" for v
  proof -
    have "(char_blocks s)(b \<mapsto> buf) = char_blocks s" using blk by (rule map_upd_triv)
    then show ?thesis by (cases s) simp
  qed
  have len: "from' + length u = i + length t" using tu by (metis from'_def add.assoc length_append)
  let ?stop = "from' + length w"
  have Q1: "Q None (s\<lparr>strtok_save := Some (b, k)\<rparr>)" if "w = []" for k
    using Q [of buf "Some (b, k)" None] that words by (simp add: same token_ok_def t_def [symmetric])
  have Q2: "Q (Some (b, from')) (s\<lparr>strtok_save := Some (b, ?stop)\<rparr>)" if "w \<noteq> []" "?stop = i + length t"
  proof -
    have wu: "u = w" using that(2) len uw by (metis add_left_cancel append_Nil2 drop_all order_refl)
    have "drop ?stop buf = NUL # rest" using at by (metis add.commute drop_drop append_eq_conv_conj wu)
    then have "token_ok d b buf (Some (b, ?stop)) (Some (b, from')) (strtok_all d t)"
      using that(1) words nw at wu by (simp add: token_ok_def cstr_def [of "NUL # _"] strtok_all_def)
    then show ?thesis using Q [of buf "Some (b, ?stop)" "Some (b, from')"] by (simp add: same t_def)
  qed
  have Q3: "Q (Some (b, from')) (s\<lparr>char_blocks := (char_blocks s)(b \<mapsto> buf[?stop := NUL]), strtok_save := Some (b, ?stop + 1)\<rparr>)"
    if "w \<noteq> []" "?stop \<noteq> i + length t"
  proof -
    have "w \<noteq> u" using that(2) len by auto
    then have "d \<in> set u" unfolding w_def by (metis takeWhile_all)
    then obtain x where x: "u = w @ d # x" using first_run w_def by metis
    let ?buf = "buf[?stop := NUL]"
    have d1: "drop from' ?buf = w @ NUL # x @ NUL # rest" using at x by (simp add: drop_update_swap list_update_append)
    have d2: "drop (?stop + 1) ?buf = x @ NUL # rest"
    proof -
      have "drop (?stop + 1) ?buf = drop (length w + 1) (drop from' ?buf)" by (simp add: add.commute add.left_commute)
      then show ?thesis unfolding d1 by simp
    qed
    have "NUL \<notin> set x" using u x by auto
    then have "token_ok d b ?buf (Some (b, ?stop + 1)) (Some (b, from')) (strtok_all d t)"
      unfolding token_ok_def option.case prod.case using that(1) words nw x d1 d2 by simp
    then show ?thesis using Q by (simp add: t_def)
  qed
  have p: "wp (case p of Some q \<Rightarrow> ret q | None \<Rightarrow> bnd (gets strtok_save) (\<lambda>q. not_null q ret)) R s = R (b, i) s" for R
    using place by (auto simp: wp_simps)
  show ?thesis
    unfolding strtok_def wp_bnd p prod.case wp_string_at [OF blk nul(1)] Let_def t_def [symmetric]
    unfolding u_def [symmetric] w_def [symmetric] from'_def [symmetric]
    using Q1 Q2 Q3 blk by (simp add: wp_simps)
qed

end
