(* ===== verification/Line_Refinement.thy ===== *)
theory Line_Refinement
  imports Line_Memory_Lemmas
begin

text \<open>
  Reading a line on the blocks of the heap gives what reading it on lists gives
  (\<open>get_command\<close> of \<open>Shell\<close>), and owns no more than the words it returns.
\<close>

section \<open>What the two models share\<close>

definition same_shell :: "('w, 'm) line_mem_scheme \<Rightarrow> ('w, 'n) shell_scheme \<Rightarrow> bool" where
  "same_shell s t \<longleftrightarrow> shell.truncate s = shell.truncate t"

lemma same_shell_fields:
  "same_shell s t \<Longrightarrow> infp s = infp t \<and> world s = world t \<and> errno s = errno t \<and> con_out s = con_out t \<and> history s = history t"
  by (simp add: same_shell_def shell.truncate_def)

lemma same_shell_blocks [simp]:
  "same_shell (s\<lparr>char_blocks := m\<rparr>) t = same_shell s t" "same_shell (s\<lparr>ptr_blocks := k\<rparr>) t = same_shell s t"
  "same_shell (s\<lparr>next_addr := n\<rparr>) t = same_shell s t" "same_shell (s\<lparr>strtok_save := p\<rparr>) t = same_shell s t"
  "same_shell (s\<lparr>interrupted := i\<rparr>) t = same_shell s t" "same_shell (s\<lparr>rl_done := i\<rparr>) t = same_shell s t"
  "same_shell (s\<lparr>rl_line_buffer := l\<rparr>) t = same_shell s t"
  by (simp_all add: same_shell_def shell.truncate_def)

lemma same_shell_updates [simp]:
  "same_shell s t \<Longrightarrow> same_shell (s\<lparr>errno := e\<rparr>) (t\<lparr>errno := e\<rparr>)"
  "same_shell s t \<Longrightarrow> same_shell (s\<lparr>world := w\<rparr>) (t\<lparr>world := w\<rparr>)"
  "same_shell s t \<Longrightarrow> same_shell (s\<lparr>con_out := out\<rparr>) (t\<lparr>con_out := out\<rparr>)"
  "same_shell s t \<Longrightarrow> same_shell (s\<lparr>history := h\<rparr>) (t\<lparr>history := h\<rparr>)"
  by (simp_all add: same_shell_def shell.truncate_def)

text \<open>Nothing is allocated at the addresses still to be given.\<close>

definition heap_ok :: "('w, 'm) line_mem_scheme \<Rightarrow> bool" where
  "heap_ok s \<longleftrightarrow> (\<forall>a \<ge> next_addr s. char_blocks s a = None \<and> ptr_blocks s a = None)"

text \<open>What holds between two lines: no signal is pending, the lines of the history are strings,
  and the place that \<open>strtok\<close> keeps is in a block that was freed.\<close>

definition hist_ok :: "('w, 'm) shell_scheme \<Rightarrow> bool" where
  "hist_ok s \<longleftrightarrow> (\<forall>h \<in> set (history s). NUL \<notin> set h)"

definition saved_freed :: "('w, 'm) line_mem_scheme \<Rightarrow> bool" where
  "saved_freed s \<longleftrightarrow> (\<forall>b j. strtok_save s = Some (b, j) \<longrightarrow> char_blocks s b = None \<and> b < next_addr s)"

definition term_ok :: "('w, 'm) line_mem_scheme \<Rightarrow> bool" where
  "term_ok s \<longleftrightarrow> heap_ok s \<and> interrupted s = 0 \<and> hist_ok s \<and> saved_freed s"

lemma saved_freed_updates [simp]:
  "saved_freed (s\<lparr>errno := e\<rparr>) = saved_freed s" "saved_freed (s\<lparr>world := w\<rparr>) = saved_freed s"
  "saved_freed (s\<lparr>con_out := out\<rparr>) = saved_freed s" "saved_freed (s\<lparr>ptr_blocks := m\<rparr>) = saved_freed s"
  "saved_freed (s\<lparr>interrupted := i\<rparr>) = saved_freed s" "saved_freed (s\<lparr>rl_done := d\<rparr>) = saved_freed s"
  "saved_freed (s\<lparr>rl_line_buffer := l\<rparr>) = saved_freed s" "saved_freed (s\<lparr>history := hs\<rparr>) = saved_freed s"
  by (simp_all add: saved_freed_def)

lemma hist_ok_cong: "history s = history t \<Longrightarrow> hist_ok s = hist_ok t"
  by (simp add: hist_ok_def)

text \<open>\<open>s\<close> has the blocks of \<open>s0\<close> and nothing else.\<close>

definition same_blocks :: "('w, 'm) line_mem_scheme \<Rightarrow> ('w, 'm) line_mem_scheme \<Rightarrow> bool" where
  "same_blocks s0 s \<longleftrightarrow> char_blocks s = char_blocks s0 \<and> ptr_blocks s = ptr_blocks s0 \<and> next_addr s0 \<le> next_addr s"

text \<open>
  What a line owns beyond the blocks of \<open>s0\<close> while it is split: the buffer \<open>b\<close>, the array
  \<open>a\<close> of \<open>n\<close> cells, and a block for each of the words so far.
\<close>

definition word_blocks :: "nat list \<Rightarrow> string list \<Rightarrow> nat \<Rightarrow> string option" where
  "word_blocks ps ws = map_of (zip ps (map (\<lambda>w. w @ [NUL]) ws))"

definition word_cells :: "nat list \<Rightarrow> nat \<Rightarrow> cell list" where
  "word_cells ps n = map (Some \<circ> Some) ps @ replicate (n - length ps) None"

definition owned ::
  "('w, 'm) line_mem_scheme \<Rightarrow> ('w, 'm) line_mem_scheme \<Rightarrow> nat \<Rightarrow> string \<Rightarrow> nat \<Rightarrow> nat \<Rightarrow> nat list \<Rightarrow> string list \<Rightarrow> bool" where
  "owned s0 s b buf a n ps ws \<longleftrightarrow> length ps = length ws \<and> distinct (b # ps) \<and> length ws < n - 1 \<and>
     (\<forall>p \<in> set (a # b # ps). next_addr s0 \<le> p \<and> p < next_addr s) \<and> (\<forall>w \<in> set ws. NUL \<notin> set w) \<and>
     char_blocks s = (char_blocks s0)(b \<mapsto> buf) ++ word_blocks ps ws \<and> ptr_blocks s = (ptr_blocks s0)(a \<mapsto> word_cells ps n)"

text \<open>What the command owns: the array up to its null pointer, and the words.\<close>

definition command_owned :: "('w, 'm) line_mem_scheme \<Rightarrow> ('w, 'm) line_mem_scheme \<Rightarrow> nat \<Rightarrow> nat \<Rightarrow> string list \<Rightarrow> bool" where
  "command_owned s0 s a n ws \<longleftrightarrow> next_addr s0 \<le> next_addr s \<and> (\<forall>w \<in> set ws. NUL \<notin> set w) \<and>
     (\<exists>ps k. length ps = length ws \<and> distinct ps \<and> (\<forall>p \<in> set (a # ps). next_addr s0 \<le> p \<and> p < next_addr s) \<and>
       n = length ps + Suc k \<and> char_blocks s = char_blocks s0 ++ word_blocks ps ws \<and>
       ptr_blocks s = (ptr_blocks s0)(a \<mapsto> map (Some \<circ> Some) ps @ Some None # replicate k None))"

lemma dom_word_blocks: "length ps = length ws \<Longrightarrow> dom (word_blocks ps ws) = set ps"
  by (simp add: word_blocks_def)

lemma word_blocks_snoc:
  "length ps = length ws \<Longrightarrow> p \<notin> set ps \<Longrightarrow> word_blocks (ps @ [p]) (ws @ [w]) = (word_blocks ps ws)(p \<mapsto> w @ [NUL])"
  by (induction ps ws rule: list_induct2) (auto simp: word_blocks_def fun_eq_iff)

lemma add_snoc:
  "length ps = length ws \<Longrightarrow> p \<notin> set ps \<Longrightarrow> (m ++ word_blocks ps ws)(p \<mapsto> w @ [NUL]) = m ++ word_blocks (ps @ [p]) (ws @ [w])"
  by (simp add: word_blocks_snoc)

text \<open>Freeing the words gives back what was there.\<close>

lemma forget_words:
  assumes "length ps = length ws" "\<forall>p \<in> set ps. m p = None"
  shows "(m ++ word_blocks ps ws) |` (- set ps) = m"
proof
  fix x show "((m ++ word_blocks ps ws) |` (- set ps)) x = m x"
    using assms dom_word_blocks [OF assms(1)] by (cases "x \<in> set ps") (auto simp: restrict_map_def map_add_dom_app_simps domIff)
qed

lemma map_upd_under: "b \<notin> dom f \<Longrightarrow> (m(b \<mapsto> t) ++ f)(b \<mapsto> u) = m(b \<mapsto> u) ++ f"
  by (auto simp: map_add_def fun_eq_iff domIff split: option.splits)

lemma map_del_under: "b \<notin> dom f \<Longrightarrow> m b = None \<Longrightarrow> (m(b \<mapsto> t) ++ f)(b := None) = m ++ f"
  by (auto simp: map_add_def fun_eq_iff domIff split: option.splits)


section \<open>Freeing a command\<close>

lemma free_command_spec:
  assumes s0: "heap_ok s0" and own: "command_owned s0 s a n ws"
  shows "wp (mem_free_command (Some a)) Q s = Q () (s\<lparr>char_blocks := char_blocks s0, ptr_blocks := ptr_blocks s0\<rparr>)"
proof -
  obtain ps k where ps: "length ps = length ws" "distinct ps" "\<forall>p \<in> set ps. next_addr s0 \<le> p"
      "char_blocks s = char_blocks s0 ++ word_blocks ps ws"
      "ptr_blocks s = (ptr_blocks s0)(a \<mapsto> map (Some \<circ> Some) ps @ Some None # replicate k None)"
    and a: "next_addr s0 \<le> a"
    using own by (auto simp: command_owned_def)
  have new: "\<forall>p \<in> set ps. char_blocks s0 p = None" "ptr_blocks s0 a = None" using s0 ps(3) a by (auto simp: heap_ok_def)
  let ?cs = "map (Some \<circ> Some) ps @ Some None # replicate k None"
  have "ptr_blocks s a = Some ?cs" using ps(5) by simp
  moreover have "set ps \<subseteq> dom (char_blocks s)" using dom_word_blocks [OF ps(1)] ps(4) by auto
  moreover have "(ptr_blocks s)(a := None) = ptr_blocks s0" using ps(5) new(2) by (simp add: fun_upd_idem)
  ultimately show ?thesis
    using ps(2) forget_words [OF ps(1) new(1)] ps(4)
    by (simp add: mem_free_command_def wp_bnd wp_free_array wp_free_until_null [where cs = ?cs and ps = ps and rest = "replicate k None"])
qed


section \<open>Giving up\<close>

lemma give_up_spec:
  assumes s0: "heap_ok s0" and own: "length ps = length ws" "distinct (b # ps)" "\<forall>p \<in> set (a # b # ps). next_addr s0 \<le> p"
    and blocks: "char_blocks s = (char_blocks s0)(b \<mapsto> buf) ++ word_blocks ps ws" "ptr_blocks s = (ptr_blocks s0)(a \<mapsto> cs)"
    and cs: "take (length ps) cs = map (Some \<circ> Some) ps"
  shows "wp (give_up os msg (Some b) a (length ps)) Q s = Q () (s\<lparr>
    con_out := con_out s @ [(Stderr, msg @ '': '' @ os_strerror os (errno s) @ newline)],
    ptr_blocks := ptr_blocks s0, char_blocks := char_blocks s0\<rparr>)"
proof -
  have new: "\<forall>p \<in> set (b # ps). char_blocks s0 p = None" "ptr_blocks s0 a = None" using s0 own(3) by (auto simp: heap_ok_def)
  have b: "((char_blocks s0)(b \<mapsto> buf) ++ word_blocks ps ws) |` (- set ps) = (char_blocks s0)(b \<mapsto> buf)"
    by (rule forget_words) (use own new in auto)
  have dom: "set ps \<subseteq> dom (char_blocks s)" using dom_word_blocks [OF own(1)] blocks(1) by auto
  have none: "(char_blocks s0)(b := None) = char_blocks s0" "(ptr_blocks s0)(a := None) = ptr_blocks s0"
    using new by (simp_all add: fun_upd_idem)
  show ?thesis
    using own(2) blocks cs dom none b
    by (simp add: give_up_def wp_bnd wp_perror wp_free_array wp_free_string wp_free_words [where cs = cs])
qed

section \<open>The words\<close>

lemma owned_heap_ok: "heap_ok s0 \<Longrightarrow> owned s0 s b buf a n ps ws \<Longrightarrow> heap_ok s"
proof -
  assume s0: "heap_ok s0" and own: "owned s0 s b buf a n ps ws"
  then have ps: "length ps = length ws" "\<forall>p \<in> set (a # b # ps). next_addr s0 \<le> p \<and> p < next_addr s"
      "char_blocks s = (char_blocks s0)(b \<mapsto> buf) ++ word_blocks ps ws" "ptr_blocks s = (ptr_blocks s0)(a \<mapsto> word_cells ps n)"
    by (auto simp: owned_def)
  show ?thesis unfolding heap_ok_def
  proof (intro allI impI)
    fix x assume x: "next_addr s \<le> x"
    then have "x \<notin> set (a # b # ps)" "next_addr s0 \<le> x" using ps(2) by fastforce+
    then show "char_blocks s x = None \<and> ptr_blocks s x = None"
      using s0 ps dom_word_blocks [OF ps(1)] by (auto simp: heap_ok_def map_add_None)
  qed
qed

lemma owned_buffer: "owned s0 s b buf a n ps ws \<Longrightarrow> char_blocks s b = Some buf"
  using dom_word_blocks [of ps ws] by (auto simp: owned_def map_add_Some_iff domIff)

lemma owned_setbuf:
  "owned s0 s b buf a n ps ws \<Longrightarrow> owned s0 (s\<lparr>char_blocks := (char_blocks s)(b \<mapsto> buf'), strtok_save := v\<rparr>) b buf' a n ps ws"
  using dom_word_blocks [of ps ws] by (simp add: owned_def map_upd_under)

lemma next_word:
  assumes own: "owned s0 s b buf a n ps ws" and save: "strtok_save s = Some (b, j)" "NUL \<in> set (drop j buf)"
    and Q: "\<And>token buf' s'. owned s0 s' b buf' a n ps ws \<Longrightarrow>
      token_ok (CHR '' '') b buf' (strtok_save s') token (strtok_all (CHR '' '') (cstr (drop j buf))) \<Longrightarrow>
      (\<forall>t :: ('w, 'n) shell_scheme. same_shell s' t = same_shell s t) \<Longrightarrow> interrupted s' = interrupted s \<Longrightarrow> history s' = history s \<Longrightarrow> Q token s'"
  shows "wp (strtok (CHR '' '') None) Q (s :: ('w, 'm) line_mem_scheme)"
proof (rule strtok_spec [where b = b and i = j and buf = buf])
  show "char_blocks s b = Some buf" using own by (rule owned_buffer)
qed (use save own in \<open>auto simp: NUL_def intro!: Q owned_setbuf\<close>)

text \<open>A new word: \<open>room\<close> is what is left after it.\<close>

lemma word_cells_snoc:
  "length ps < n \<Longrightarrow> (word_cells ps n)[length ps := Some (Some p)] = word_cells (ps @ [p]) n"
  by (cases "n - length ps") (simp_all add: word_cells_def list_update_append Suc_diff_Suc)

lemma word_cells_null:
  "length ps < n \<Longrightarrow> take (length ps) ((word_cells ps n)[length ps := x]) = map (Some \<circ> Some) ps"
  by (simp add: word_cells_def take_update_cancel)

lemma length_word_cells [simp]: "length ps \<le> n \<Longrightarrow> length (word_cells ps n) = n"
  by (simp add: word_cells_def)

lemma grown_cells: "length ps \<le> n \<Longrightarrow> take (2 * n) (word_cells ps n) @ replicate (2 * n - n) None = word_cells ps (2 * n)"
  by (simp add: word_cells_def replicate_add [symmetric])

definition copied ::
  "('w, 'm) line_mem_scheme \<Rightarrow> ('w, 'm) line_mem_scheme \<Rightarrow> nat \<Rightarrow> (string list \<times> nat) option \<Rightarrow> ('w, 'n) shell_scheme \<Rightarrow>
   (nat \<times> nat) option \<Rightarrow> ('w, 'm) line_mem_scheme \<Rightarrow> bool" where
  "copied s0 u b res t r s \<longleftrightarrow> same_shell s t \<and> interrupted s = interrupted u \<and> history s = history u \<and>
     (\<exists>j. strtok_save s = Some (b, j) \<and> b < next_addr s) \<and> (case res of
       None \<Rightarrow> r = None \<and> same_blocks s0 s
     | Some (ws, n) \<Rightarrow> \<exists>a ps buf. r = Some (a, length ws) \<and> owned s0 s b buf a n ps ws)"

lemma collect_copied:
  fixes s0 :: "('w, 'm) line_mem_scheme" and t :: "('w, 'n) shell_scheme"
  assumes s0: "heap_ok s0"
  shows "owned s0 s b buf a n ps ws \<Longrightarrow> token_ok (CHR '' '') b buf (strtok_save s) token ts \<Longrightarrow> same_shell s t \<Longrightarrow>
    collect_args os ts ws n t = Ret (res, t') \<Longrightarrow>
    wp (loop (copy_word os (Some b)) (a, length ws, n, token)) (copied s0 s b res t') s"
proof (induction ts arbitrary: s t buf a n ps ws token)
  case Nil
  then have "token = None" "res = Some (ws, n)" "t' = t" by (auto simp: token_ok_def ret_def split: option.splits)
  moreover have "\<exists>j. strtok_save s = Some (b, j)" "b < next_addr s" using Nil by (auto simp: token_ok_def owned_def)
  ultimately show ?case using Nil by (subst wp_loop) (auto simp: copy_word_def copied_def wp_ret)
next
  case (Cons tk ts)
  define K where "K = (copied s0 s b res t' :: (nat \<times> nat) option \<Rightarrow> ('w, 'm) line_mem_scheme \<Rightarrow> bool)"
  note own = Cons.prems(1)
  let ?p = "next_addr s"
  obtain i j where tok: "token = Some (b, i)" "NUL \<in> set (drop i buf)" "cstr (drop i buf) = tk"
      "strtok_save s = Some (b, j)" "NUL \<in> set (drop j buf)" "strtok_all (CHR '' '') (cstr (drop j buf)) = ts"
    using Cons.prems(2) by (auto simp: token_ok_def split: option.splits)
  have L: "length ps = length ws" "length ps < n - 1" "length ps < n" "next_addr s0 \<le> ?p" "?p \<notin> set (b # ps)" "a < ?p" "distinct (b # ps)"
      "\<forall>p \<in> set (a # b # ps). next_addr s0 \<le> p"
      "char_blocks s = (char_blocks s0)(b \<mapsto> buf) ++ word_blocks ps ws" "ptr_blocks s = (ptr_blocks s0)(a \<mapsto> word_cells ps n)" "b < ?p"
    using own by (auto simp: owned_def)
  have ntk: "NUL \<notin> set tk" using tok(3) by auto
  have w: "world s = world t" "errno s = errno t" "con_out s = con_out t" using same_shell_fields [OF Cons.prems(3)] by auto
  obtain r1 w1 where r1: "os_malloc os (length tk + 1) (world t) = (r1, w1)" by fastforce
  have dup: "wp (c_strdup os (b, i)) R s = (case r1 of
      Inl e \<Rightarrow> R None (s\<lparr>errno := e, world := w1\<rparr>)
    | Inr _ \<Rightarrow> R (Some ?p) (s\<lparr>world := w1, char_blocks := (char_blocks s)(?p \<mapsto> tk @ [NUL]), next_addr := Suc ?p\<rparr>))" for R
    using r1 w(1) by (auto simp: c_strdup_def copy_string_def wp_bnd wp_string_at [OF owned_buffer [OF own] tok(2)] tok(3) wp_sys
        wp_ret wp_new_string split: sum.splits)
  have cell: "wp (set_cell a (length ws) q) R u = R () (u\<lparr>ptr_blocks := (ptr_blocks u)(a \<mapsto> (word_cells ps n)[length ps := Some q])\<rparr>)"
    if "ptr_blocks u = ptr_blocks s" for q R u
    using that L(1,3,10) wp_set_cell [of u a "word_cells ps n" "length ws" q R] by simp
  show ?case
  proof (cases r1)
    case (Inl e)
    let ?out = "con_out s @ [(Stderr, ''Error: strdup failed'' @ '': '' @ os_strerror os e @ newline)]"
    have "wp (collect_args os (tk # ts) ws n) (\<lambda>res t'. res = None \<and> t' = t\<lparr>errno := e, world := w1, con_out := ?out\<rparr>) t"
      using r1 Inl w by (simp add: wp_bnd wp_sys wp_ret wp_perror)
    then have res: "res = None" "t' = t\<lparr>errno := e, world := w1, con_out := ?out\<rparr>" using Cons.prems(4) by (auto dest: wp_RetD)
    let ?u = "s\<lparr>errno := e, world := w1, ptr_blocks := (ptr_blocks s)(a \<mapsto> (word_cells ps n)[length ps := Some None])\<rparr>"
    have u: "char_blocks ?u = (char_blocks s0)(b \<mapsto> buf) ++ word_blocks ps ws"
        "ptr_blocks ?u = (ptr_blocks s0)(a \<mapsto> (word_cells ps n)[length ps := Some None])" using L(9,10) by simp_all
    have "wp (give_up os ''Error: strdup failed'' (Some b) a (length ws)) R ?u =
        R () (?u\<lparr>con_out := ?out, ptr_blocks := ptr_blocks s0, char_blocks := char_blocks s0\<rparr>)" for R
      unfolding L(1) [symmetric] by (rule trans [OF give_up_spec [OF s0 L(1,7,8) u word_cells_null [OF L(3)]]]) simp
    moreover have "K None (?u\<lparr>con_out := ?out, ptr_blocks := ptr_blocks s0, char_blocks := char_blocks s0\<rparr>)"
      using Cons.prems(3) res L(4,11) tok(4) by (simp add: K_def copied_def same_blocks_def)
    ultimately have "wp (loop (copy_word os (Some b)) (a, length ws, n, token)) K s"
      using Inl by (subst wp_loop) (simp add: copy_word_def tok(1) wp_bnd dup cell wp_ret)
    then show ?thesis by (simp only: K_def)
  next
    case (Inr u)
    let ?s1 = "s\<lparr>world := w1, char_blocks := (char_blocks s)(?p \<mapsto> tk @ [NUL]), next_addr := Suc ?p,
      ptr_blocks := (ptr_blocks s)(a \<mapsto> word_cells (ps @ [?p]) n)\<rparr>"
    let ?t1 = "t\<lparr>world := w1\<rparr>"
    have s1: "char_blocks ?s1 = (char_blocks s0)(b \<mapsto> buf) ++ word_blocks (ps @ [?p]) (ws @ [tk])"
        "ptr_blocks ?s1 = (ptr_blocks s0)(a \<mapsto> word_cells (ps @ [?p]) n)" "same_shell ?s1 ?t1"
      using L Cons.prems(3) add_snoc [of ps ws ?p] by simp_all
    have go_on: "wp (strtok (CHR '' '') None) (\<lambda>token. wp (loop (copy_word os (Some b)) (a', Suc (length ws), m, token)) K) v"
      if "owned s0 v b buf a' m (ps @ [?p]) (ws @ [tk])" "strtok_save v = strtok_save s" "interrupted v = interrupted s" "history v = history s"
        "same_shell v t2" "collect_args os ts (ws @ [tk]) m t2 = Ret (res, t')" for a' m v t2
    proof (rule next_word [OF that(1)])
      show "strtok_save v = Some (b, j)" "NUL \<in> set (drop j buf)" using tok that(2) by auto
      fix token buf' v'
      assume v': "owned s0 v' b buf' a' m (ps @ [?p]) (ws @ [tk])"
        "token_ok (CHR '' '') b buf' (strtok_save v') token (strtok_all (CHR '' '') (cstr (drop j buf)))"
        "\<forall>t :: ('w, 'n) shell_scheme. same_shell v' t = same_shell v t" "interrupted v' = interrupted v" "history v' = history v"
      show "wp (loop (copy_word os (Some b)) (a', Suc (length ws), m, token)) K v'"
      proof -
        have "copied s0 v' b res t' = K" using v'(4,5) that(3,4) by (intro ext) (simp add: K_def copied_def)
        then show ?thesis using Cons.IH [OF v'(1), of token t2] v' that tok(6) by simp
      qed
    qed
    show ?thesis
    proof (cases "Suc (length ws) \<ge> n - 1")
      case False
      then have "collect_args os ts (ws @ [tk]) n ?t1 = Ret (res, t')"
        using Cons.prems(4) r1 Inr by (simp add: bnd_def sys_def syscall_def)
      moreover have "owned s0 ?s1 b buf a n (ps @ [?p]) (ws @ [tk])"
        using own s1 False ntk L(5) by (auto simp: owned_def)
      ultimately have "wp (strtok (CHR '' '') None) (\<lambda>token. wp (loop (copy_word os (Some b)) (a, Suc (length ws), n, token)) K) ?s1"
        using s1(3) by (intro go_on) simp_all
      then have "wp (loop (copy_word os (Some b)) (a, length ws, n, token)) K s"
        using Inr False by (subst wp_loop) (simp add: copy_word_def tok(1) wp_bnd dup cell wp_ret word_cells_snoc [OF L(3)])
      then show ?thesis by (simp only: K_def)
    next
      case True
      obtain r2 w2 where r2: "os_malloc os (2 * n * 8) w1 = (r2, w2)" by fastforce
      let ?q = "Suc ?p"
      let ?s2 = "?s1\<lparr>world := w2, ptr_blocks := (ptr_blocks s)(a := None, ?q \<mapsto> word_cells (ps @ [?p]) (2 * n)), next_addr := Suc ?q\<rparr>"
      have n: "length (ps @ [?p]) \<le> n" using L(3) by simp
      have grow: "wp (realloc_array os a (2 * n)) R ?s1 = (case r2 of
          Inl e \<Rightarrow> R None (?s1\<lparr>errno := e, world := w2\<rparr>) | Inr _ \<Rightarrow> R (Some ?q) ?s2)" for R
        using r2 n grown_cells [OF n]
        by (auto simp: realloc_array_def wp_bnd wp_array_at wp_sys wp_free_array wp_new_array wp_ret mult.assoc [symmetric]
            simp del: length_append split: sum.splits)
      have step: "wp (copy_word os (Some b) (a, length ws, n, token)) R s = (case r2 of
          Inl e \<Rightarrow> wp (give_up os ''Error: realloc failed'' (Some b) a (Suc (length ws))) (\<lambda>_. R (Inr None)) (?s1\<lparr>errno := e, world := w2\<rparr>)
        | Inr _ \<Rightarrow> wp (strtok (CHR '' '') None) (\<lambda>token. R (Inl (?q, Suc (length ws), 2 * n, token))) ?s2)" for R
        using Inr True by (cases r2) (simp_all add: copy_word_def tok(1) wp_bnd dup cell wp_ret word_cells_snoc [OF L(3)] grow)
      have turn: "wp (loop (copy_word os (Some b)) (a, length ws, n, token)) K s = (case r2 of
          Inl e \<Rightarrow> wp (give_up os ''Error: realloc failed'' (Some b) a (Suc (length ws))) (\<lambda>_. K None) (?s1\<lparr>errno := e, world := w2\<rparr>)
        | Inr _ \<Rightarrow> wp (strtok (CHR '' '') None) (\<lambda>token. wp (loop (copy_word os (Some b)) (?q, Suc (length ws), 2 * n, token)) K) ?s2)"
        by (subst wp_loop) (simp only: step sum.case)
      have "wp (loop (copy_word os (Some b)) (a, length ws, n, token)) K s"
      proof (cases r2)
        case (Inl e)
        let ?out = "con_out s @ [(Stderr, ''Error: realloc failed'' @ '': '' @ os_strerror os e @ newline)]"
        have "wp (collect_args os (tk # ts) ws n) (\<lambda>res t'. res = None \<and> t' = t\<lparr>errno := e, world := w2, con_out := ?out\<rparr>) t"
          using r1 r2 Inr Inl True w by (simp add: wp_bnd wp_sys wp_ret wp_perror)
        then have res: "res = None" "t' = t\<lparr>errno := e, world := w2, con_out := ?out\<rparr>" using Cons.prems(4) by (auto dest: wp_RetD)
        let ?u = "?s1\<lparr>errno := e, world := w2\<rparr>"
        have u: "char_blocks ?u = (char_blocks s0)(b \<mapsto> buf) ++ word_blocks (ps @ [?p]) (ws @ [tk])"
            "ptr_blocks ?u = (ptr_blocks s0)(a \<mapsto> word_cells (ps @ [?p]) n)" using s1 by simp_all
        have own': "length (ps @ [?p]) = length (ws @ [tk])" "distinct (b # ps @ [?p])" "\<forall>p \<in> set (a # b # ps @ [?p]). next_addr s0 \<le> p"
          using L by auto
        have cs: "take (length (ps @ [?p])) (word_cells (ps @ [?p]) n) = map (Some \<circ> Some) (ps @ [?p])" by (simp add: word_cells_def)
        have count: "Suc (length ws) = length (ps @ [?p])" using L(1) by simp
        have "wp (give_up os ''Error: realloc failed'' (Some b) a (Suc (length ws))) R ?u =
            R () (?u\<lparr>con_out := ?out, ptr_blocks := ptr_blocks s0, char_blocks := char_blocks s0\<rparr>)" for R
          unfolding count by (rule trans [OF give_up_spec [OF s0 own' u cs]]) simp
        moreover have "K None (?u\<lparr>con_out := ?out, ptr_blocks := ptr_blocks s0, char_blocks := char_blocks s0\<rparr>)"
          using Cons.prems(3) res L(4,11) tok(4) by (simp add: K_def copied_def same_blocks_def)
        ultimately show ?thesis using turn Inl by simp
      next
        case r2': (Inr v)
        have new: "ptr_blocks s0 a = None" using s0 L(8) by (auto simp: heap_ok_def)
        then have "ptr_blocks ?s2 = (ptr_blocks s0)(?q \<mapsto> word_cells (ps @ [?p]) (2 * n))" using L(10) by (simp add: fun_upd_idem)
        then have "owned s0 ?s2 b buf ?q (2 * n) (ps @ [?p]) (ws @ [tk])"
          using own s1(1) ntk L(2,4,5) by (auto simp: owned_def)
        moreover have "collect_args os ts (ws @ [tk]) (2 * n) (t\<lparr>world := w2\<rparr>) = Ret (res, t')"
          using Cons.prems(4) r1 r2 Inr r2' True by (simp add: bnd_def sys_def syscall_def)
        ultimately have "wp (strtok (CHR '' '') None) (\<lambda>token. wp (loop (copy_word os (Some b)) (?q, Suc (length ws), 2 * n, token)) K) ?s2"
          using Cons.prems(3) by (intro go_on) simp_all
        then show ?thesis using turn r2' by simp
      qed
      then show ?thesis by (simp only: K_def)
    qed
  qed
qed

section \<open>Splitting a line\<close>

text \<open>What is left of \<open>get_command\<close> once the line is there.\<close>

definition split_on_lists :: "'w os \<Rightarrow> 'w lines \<Rightarrow> string \<Rightarrow> ('w, 'm, argv option) sprog" where
  "split_on_lists os inp line =
     bnd (sys (os_malloc os (INITIAL_ARG_COUNT * 8))) (\<lambda>r.
       case r of
         Inl _ \<Rightarrow> bnd (perror os ''Error: malloc failed for args'') (\<lambda>_. ret None)
       | Inr _ \<Rightarrow> bnd (collect_args os (strtok_all (CHR '' '') line) [] INITIAL_ARG_COUNT) (\<lambda>res.
           case res of
             None \<Rightarrow> ret None
           | Some (ws, n) \<Rightarrow> bnd (gets (\<lambda>s. ln_junk inp (world s))) (\<lambda>junk.
               ret (Some \<lparr>argv_words = ws, argv_size = n, argv_junk = junk\<rparr>))))"

lemma get_command_split:
  "get_command os inp = bnd (extern (ln_readline inp)) (\<lambda>(input, interrupted).
     if interrupted then ret None
     else case input of None \<Rightarrow> undefined_behaviour | Some line \<Rightarrow> bnd (recall_line os line) (split_on_lists os inp))"
  by (simp only: get_command_def split_on_lists_def [abs_def])

lemma bnd_extern: "bnd (extern c) k s = (case c (world s) of (r, w) \<Rightarrow> k r (s\<lparr>world := w\<rparr>))"
  by (simp add: bnd_def extern_def split: prod.splits)

definition line_read ::
  "('w, 'm) line_mem_scheme \<Rightarrow> 'w lines \<Rightarrow> argv option \<Rightarrow> ('w, 'n) shell_scheme \<Rightarrow> nat option \<Rightarrow> ('w, 'm) line_mem_scheme \<Rightarrow> bool" where
  "line_read s0 inp line t p s \<longleftrightarrow> same_shell s t \<and> term_ok s \<and> (case line of
       None \<Rightarrow> p = None \<and> same_blocks s0 s
     | Some c \<Rightarrow> argv_junk c = ln_junk inp (world s) \<and> (\<exists>a. p = Some a \<and> command_owned s0 s a (argv_size c) (argv_words c)))"

lemma same_blocks_ok: "heap_ok s0 \<Longrightarrow> same_blocks s0 s \<Longrightarrow> heap_ok s"
  by (auto simp: heap_ok_def same_blocks_def)

lemma command_heap_ok:
  assumes s0: "heap_ok s0" and own: "command_owned s0 s a n ws"
  shows "heap_ok s"
proof -
  obtain ps cs where ps: "length ps = length ws" "\<forall>p \<in> set (a # ps). p < next_addr s" "char_blocks s = char_blocks s0 ++ word_blocks ps ws"
      "ptr_blocks s = (ptr_blocks s0)(a \<mapsto> cs)" "next_addr s0 \<le> next_addr s"
    using own by (auto simp: command_owned_def)
  show ?thesis unfolding heap_ok_def
  proof (intro allI impI)
    fix x assume x: "next_addr s \<le> x"
    then have "x \<notin> set (a # ps)" "next_addr s0 \<le> x" using ps(2,5) by fastforce+
    then show "char_blocks s x = None \<and> ptr_blocks s x = None"
      using s0 ps dom_word_blocks [OF ps(1)] by (auto simp: heap_ok_def map_add_None)
  qed
qed

lemma end_of_words:
  assumes s0: "heap_ok s0" and own: "owned s0 s b buf a n ps ws" and sh: "same_shell s t"
    and ok: "interrupted s = 0" "hist_ok s" "strtok_save s = Some (b, j)"
  shows "wp (bnd (set_cell a (length ws) None) (\<lambda>_. bnd (free_string (Some b)) (\<lambda>_. ret (Some a))))
    (line_read s0 inp (Some \<lparr>argv_words = ws, argv_size = n, argv_junk = ln_junk inp (world t)\<rparr>) t) s"
proof -
  have L: "length ps = length ws" "length ps < n" "b \<notin> set ps" "distinct ps" "\<forall>p \<in> set (a # b # ps). next_addr s0 \<le> p \<and> p < next_addr s"
      "char_blocks s = (char_blocks s0)(b \<mapsto> buf) ++ word_blocks ps ws" "ptr_blocks s = (ptr_blocks s0)(a \<mapsto> word_cells ps n)"
      "\<forall>w \<in> set ws. NUL \<notin> set w"
    using own by (auto simp: owned_def)
  obtain k where k: "n = length ps + Suc k" using L(2) by (auto simp: less_iff_Suc_add)
  have cells: "(word_cells ps n)[length ws := Some None] = map (Some \<circ> Some) ps @ Some None # replicate k None"
    by (simp add: word_cells_def k list_update_append L(1) [symmetric])
  have b: "char_blocks s0 b = None" using s0 L(5) by (auto simp: heap_ok_def)
  then have chars: "(char_blocks s)(b := None) = char_blocks s0 ++ word_blocks ps ws"
    using L(3,6) dom_word_blocks [OF L(1)] map_del_under [of b "word_blocks ps ws"] by simp
  let ?s = "s\<lparr>ptr_blocks := (ptr_blocks s0)(a \<mapsto> map (Some \<circ> Some) ps @ Some None # replicate k None),
    char_blocks := char_blocks s0 ++ word_blocks ps ws\<rparr>"
  have own': "command_owned s0 ?s a n ws"
    unfolding command_owned_def using L k by (intro conjI exI [of _ ps] exI [of _ k]) (auto intro: le_trans less_imp_le)
  moreover have "saved_freed ?s"
    using ok(3) b L(3,5) dom_word_blocks [OF L(1)] by (auto simp: saved_freed_def map_add_None)
  moreover have "hist_ok ?s" using ok(2) by (simp add: hist_ok_def)
  ultimately have "line_read s0 inp (Some \<lparr>argv_words = ws, argv_size = n, argv_junk = ln_junk inp (world t)\<rparr>) t (Some a) ?s"
    using sh ok(1) same_shell_fields [OF sh] command_heap_ok [OF s0 own'] by (simp add: line_read_def term_ok_def)
  moreover have "char_blocks s b \<noteq> None" using owned_buffer [OF own] by simp
  ultimately show ?thesis
    using cells chars L(1,2,7) by (simp add: wp_bnd wp_set_cell [where cs = "word_cells ps n"] wp_free_string wp_ret)
qed

text \<open>The only block beyond those of \<open>s0\<close> is a copy of the line.\<close>

definition line_held :: "('w, 'm) line_mem_scheme \<Rightarrow> ('w, 'm) line_mem_scheme \<Rightarrow> nat \<Rightarrow> string \<Rightarrow> bool" where
  "line_held s0 s b line \<longleftrightarrow> char_blocks s = (char_blocks s0)(b \<mapsto> line @ [NUL]) \<and> NUL \<notin> set line \<and>
     ptr_blocks s = ptr_blocks s0 \<and> next_addr s0 \<le> b \<and> b < next_addr s"

lemma split_refines:
  fixes t :: "('w, 'n) shell_scheme" and s0 s :: "('w, 'm) line_mem_scheme"
  assumes s0: "heap_ok s0" and held: "line_held s0 s b line" and sh: "same_shell s t"
    and ok: "interrupted s = 0" "hist_ok s" "saved_freed s0" "strtok_save s = strtok_save s0"
    and abs: "split_on_lists os inp line t = Ret (r, t')"
  shows "wp (split_line os (Some b)) (line_read s0 inp r t') s"
proof -
  have line: "char_blocks s = (char_blocks s0)(b \<mapsto> line @ [NUL])" "NUL \<notin> set line"
    and rest: "ptr_blocks s = ptr_blocks s0" "next_addr s0 \<le> b" "b < next_addr s"
    using held by (auto simp: line_held_def)
  define K where "K = (line_read s0 inp r t' :: nat option \<Rightarrow> ('w, 'm) line_mem_scheme \<Rightarrow> bool)"
  have w: "world s = world t" "con_out s = con_out t" using same_shell_fields [OF sh] by auto
  obtain r1 w1 where r1: "os_malloc os (INITIAL_ARG_COUNT * 8) (world t) = (r1, w1)" by fastforce
  have b: "char_blocks s0 b = None" using s0 rest(2) by (simp add: heap_ok_def)
  have "wp (split_line os (Some b)) K s"
  proof (cases r1)
    case (Inl e)
    let ?out = "con_out s @ [(Stderr, ''Error: malloc failed for args'' @ '': '' @ os_strerror os e @ newline)]"
    have "wp (split_on_lists os inp line) (\<lambda>r t'. r = None \<and> t' = t\<lparr>errno := e, world := w1, con_out := ?out\<rparr>) t"
      using r1 Inl w by (simp add: split_on_lists_def wp_bnd wp_sys wp_ret wp_perror)
    then have res: "r = None" "t' = t\<lparr>errno := e, world := w1, con_out := ?out\<rparr>" using abs by (auto dest: wp_RetD)
    have "K None (s\<lparr>errno := e, world := w1, con_out := ?out, char_blocks := char_blocks s0\<rparr>)"
      using sh rest res s0 ok by (fastforce simp: K_def line_read_def same_blocks_def term_ok_def heap_ok_def hist_ok_def saved_freed_def)
    then show ?thesis
      using r1 Inl w line(1) b
      by (simp add: split_line_def malloc_array_def wp_bnd wp_sys wp_ret wp_perror wp_free_string fun_upd_idem)
  next
    case (Inr u)
    let ?a = "next_addr s" and ?n = INITIAL_ARG_COUNT
    let ?s1 = "s\<lparr>world := w1, ptr_blocks := (ptr_blocks s)(?a \<mapsto> replicate ?n None), next_addr := Suc ?a\<rparr>"
    obtain res t1 where col: "collect_args os (strtok_all (CHR '' '') line) [] ?n (t\<lparr>world := w1\<rparr>) = Ret (res, t1)"
        "(case res of None \<Rightarrow> ret None
           | Some (ws, n) \<Rightarrow> bnd (gets (\<lambda>s. ln_junk inp (world s))) (\<lambda>junk.
               ret (Some \<lparr>argv_words = ws, argv_size = n, argv_junk = junk\<rparr>))) t1 = Ret (r, t')"
    proof -
      obtain a u where au: "sys (os_malloc os (INITIAL_ARG_COUNT * 8)) t = Ret (a, u)"
          "(case a of
              Inl _ \<Rightarrow> bnd (perror os ''Error: malloc failed for args'') (\<lambda>_. ret None)
            | Inr _ \<Rightarrow> bnd (collect_args os (strtok_all (CHR '' '') line) [] ?n) (\<lambda>res.
                case res of
                  None \<Rightarrow> ret None
                | Some (ws, n) \<Rightarrow> bnd (gets (\<lambda>s. ln_junk inp (world s))) (\<lambda>junk.
                    ret (Some \<lparr>argv_words = ws, argv_size = n, argv_junk = junk\<rparr>)))) u = Ret (r, t')"
        using abs unfolding split_on_lists_def by (rule bnd_RetE)
      have "a = Inr ()" "u = t\<lparr>world := w1\<rparr>" using au(1) r1 Inr by (simp_all add: sys_def syscall_def)
      then show ?thesis using au(2) by (auto elim!: bnd_RetE intro: that)
    qed
    define R :: "(nat \<times> nat) option \<Rightarrow> ('w, 'm, nat option) lprog" where "R = (\<lambda>res. case res of
               None \<Rightarrow> ret None
             | Some (args, arg_count) \<Rightarrow>
                 bnd (set_cell args arg_count None) (\<lambda>_. bnd (free_string (Some b)) (\<lambda>_. ret (Some args))))"
    have own: "owned s0 ?s1 b (line @ [NUL]) ?a ?n [] []"
      using line rest by (auto simp: owned_def word_blocks_def word_cells_def INITIAL_ARG_COUNT_def)
    have "wp (strtok (CHR '' '') (Some (b, 0))) (\<lambda>token. wp (loop (copy_word os (Some b)) (?a, 0, ?n, token)) (\<lambda>res. wp (R res) K)) ?s1"
    proof (rule strtok_spec [where b = b and i = 0 and buf = "line @ [NUL]"])
      fix token buf' save'
      let ?s2 = "?s1\<lparr>char_blocks := (char_blocks ?s1)(b \<mapsto> buf'), strtok_save := save'\<rparr>"
      assume "token_ok (CHR '' '') b buf' save' token (strtok_all (CHR '' '') (cstr (drop 0 (line @ [NUL]))))"
      then have tok: "token_ok (CHR '' '') b buf' (strtok_save ?s2) token (strtok_all (CHR '' '') line)" using line(2) by simp
      have "owned s0 ?s2 b buf' ?a ?n [] []" using own by (rule owned_setbuf)
      moreover have "same_shell ?s2 (t\<lparr>world := w1\<rparr>)" using sh by simp
      ultimately have "wp (loop (copy_word os (Some b)) (?a, 0, ?n, token)) (copied s0 ?s2 b res t1) ?s2"
        using collect_copied [OF s0 _ tok _ col(1)] by fastforce
      then show "wp (loop (copy_word os (Some b)) (?a, 0, ?n, token)) (\<lambda>res. wp (R res) K) ?s2"
      proof (rule wp_mono)
        fix q u assume q: "copied s0 ?s2 b res t1 q u"
        then obtain j where u: "interrupted u = 0" "hist_ok u" "strtok_save u = Some (b, j)" "b < next_addr u" "same_shell u t1"
          using ok by (auto simp: copied_def hist_ok_def)
        show "wp (R q) K u"
        proof (cases res)
          case None
          then have r: "r = None" "t' = t1" using col(2) by (simp_all add: ret_def)
          have same: "q = None" "same_blocks s0 u" using q None by (simp_all add: copied_def)
          then have "saved_freed u" using u(3,4) b by (simp add: saved_freed_def same_blocks_def)
          then have "K None u" using u r same same_blocks_ok [OF s0] by (simp add: K_def line_read_def term_ok_def)
          then show ?thesis using same(1) by (simp add: R_def wp_ret)
        next
          case (Some y)
          obtain ws n where y: "y = (ws, n)" by fastforce
          obtain a ps buf where q': "q = Some (a, length ws)" "owned s0 u b buf a n ps ws"
            using q Some y by (auto simp: copied_def)
          have "r = Some \<lparr>argv_words = ws, argv_size = n, argv_junk = ln_junk inp (world t1)\<rparr>" "t' = t1"
            using col(2) Some y by (auto simp: bnd_def gets_def ret_def)
          then show ?thesis using end_of_words [OF s0 q'(2) u(5) u(1-3), of inp] q'(1) by (simp add: R_def K_def)
        qed
      qed
    qed (use owned_buffer [OF own] in \<open>auto simp: NUL_def\<close>)
    then show ?thesis
      using r1 Inr w by (simp add: split_line_def malloc_array_def R_def wp_bnd wp_sys wp_ret wp_new_array)
  qed
  then show ?thesis by (simp only: K_def)
qed

lemma recall_refines:
  fixes t :: "('w, 'n) shell_scheme" and s0 s :: "('w, 'm) line_mem_scheme"
  assumes s0: "heap_ok s0" and held: "line_held s0 s b line" and sh: "same_shell s t" and hist: "hist_ok s"
    and abs: "recall_line os line t = Ret (line', t')"
  shows "wp (recalled os b) (\<lambda>p s'. \<exists>b'. p = Some b' \<and> line_held s0 s' b' line' \<and> same_shell s' t' \<and>
    interrupted s' = interrupted s \<and> hist_ok s' \<and> strtok_save s' = strtok_save s) s"
proof -
  have line: "char_blocks s = (char_blocks s0)(b \<mapsto> line @ [NUL])" "NUL \<notin> set line"
    and rest: "ptr_blocks s = ptr_blocks s0" "next_addr s0 \<le> b" "b < next_addr s"
    using held by (auto simp: line_held_def)
  have w: "world s = world t" "history s = history t" using same_shell_fields [OF sh] by auto
  have b: "(char_blocks s0)(b := None) = char_blocks s0" using s0 rest(2) by (simp add: heap_ok_def fun_upd_idem)
  have read: "wp (string_at (b, 0)) Q s = Q line s" for Q using line by (simp add: wp_string_at)
  consider "line \<noteq> []" | "line = []" "history t = [] \<or> last (history t) = []" | "line = []" "history t \<noteq> []" "last (history t) \<noteq> []" by blast
  then show ?thesis
  proof cases
    case 1
    then have "line' = line" "t' = t\<lparr>history := history t @ [line]\<rparr>" using abs by (auto simp: recall_line_def bnd_def modify_def ret_def)
    then show ?thesis using 1 held sh w hist line by (simp add: recalled_def wp_bnd read wp_modify wp_ret line_held_def hist_ok_def)
  next
    case 2
    then have "line' = line" "t' = t" using abs by (auto simp: recall_line_def bnd_def gets_def ret_def split: if_splits)
    then show ?thesis using 2 held sh w hist by (auto simp: recalled_def wp_bnd read wp_gets wp_ret)
  next
    case 3
    let ?h = "last (history t)"
    obtain r1 w1 where r1: "os_malloc os (Suc (length ?h)) (world t) = (r1, w1)" by fastforce
    then have r: "r1 = Inr ()" "line' = ?h" "t' = t\<lparr>world := w1\<rparr>"
      using abs 3 by (cases r1; auto simp: recall_line_def bnd_def gets_def sys_def syscall_def undefined_behaviour_def ret_def)+
    have "NUL \<notin> set ?h" using 3(2) hist w by (simp add: hist_ok_def)
    then show ?thesis
      using 3 r r1 w line b rest sh hist
      by (simp add: recalled_def copy_string_def wp_bnd read wp_gets wp_free_string wp_sys wp_new_string wp_ret line_held_def hist_ok_def)
  qed
qed


section \<open>Reading a line\<close>

text \<open>The flag, whether the hook ended the line, and the buffer after some events.\<close>

fun reading :: "rl_event list \<Rightarrow> int \<Rightarrow> string \<Rightarrow> int \<times> bool \<times> string" where
  "reading [] f l = (f, False, l)"
| "reading (Rl_signal # es) f l = reading es 1 l"
| "reading (Rl_idle # es) f l = (if f \<noteq> 0 then (f, True, []) else reading es f l)"
| "reading (Rl_edit t # es) f l = reading es f t"

lemma wp_during_readline:
  "rl_done s = 0 \<Longrightarrow> wp (during_readline es) Q s = (case reading es (interrupted s) (rl_line_buffer s) of
     (f, d, l) \<Rightarrow> Q () (s\<lparr>interrupted := f, rl_done := of_bool d, rl_line_buffer := l\<rparr>))"
proof (induction es arbitrary: s)
  case Nil
  then have "s\<lparr>interrupted := interrupted s, rl_done := 0, rl_line_buffer := rl_line_buffer s\<rparr> = s" by (cases s) simp
  then show ?case by (simp add: wp_ret)
next
  case (Cons e es)
  show ?case
  proof (cases e)
    case Rl_idle
    then show ?thesis
      using Cons by (auto simp: rl_event_step_def event_hook_def wp_bnd wp_gets wp_modify wp_ret)
  qed (use Cons in \<open>simp_all add: rl_event_step_def handle_sigint_def wp_bnd wp_gets wp_modify\<close>)
qed

text \<open>The lines that the model on lists reads from the same keyboard.\<close>

definition lines_of :: "'w keyboard \<Rightarrow> string \<Rightarrow> 'w lines" where
  "lines_of kb prompt = \<lparr>
     ln_readline = (\<lambda>w. case kb_read kb prompt w of ((es, eof), w') \<Rightarrow> case reading es 0 [] of (f, d, l) \<Rightarrow>
       ((if \<not> d \<and> eof then None else Some (cstr l), f \<noteq> 0), w')),
     ln_junk = kb_junk kb, ln_signal = kb_signal kb\<rparr>"

lemma wp_readline:
  assumes "kb_read kb prompt (world s) = ((es, eof), w)" "reading es (interrupted s) [] = (f, d, l)"
  shows "wp (readline kb prompt) Q s = (let u = s\<lparr>world := w, interrupted := f, rl_done := of_bool d, rl_line_buffer := l\<rparr> in
    if \<not> d \<and> eof then Q None u
    else Q (Some (next_addr s)) (u\<lparr>char_blocks := (char_blocks s)(next_addr s \<mapsto> cstr l @ [NUL]), next_addr := Suc (next_addr s)\<rparr>))"
  using assms by (simp add: readline_def wp_bnd wp_modify wp_extern wp_gets wp_during_readline wp_new_string wp_ret)

lemma get_command_refines:
  fixes t :: "('w, 'n) shell_scheme" and s :: "('w, 'm) line_mem_scheme"
  assumes ok: "term_ok s" and sh: "same_shell s t"
    and abs: "get_command os (lines_of kb prompt) t = Ret (line, t')"
  shows "wp (mem_get_command os kb (Some prompt)) (line_read s (lines_of kb prompt) line t') s"
proof -
  have s: "heap_ok s" "interrupted s = 0" "hist_ok s" "saved_freed s" using ok by (simp_all add: term_ok_def)
  define K where "K = (line_read s (lines_of kb prompt) line t' :: nat option \<Rightarrow> ('w, 'm) line_mem_scheme \<Rightarrow> bool)"
  obtain es eof w where kb: "kb_read kb prompt (world s) = ((es, eof), w)" by (metis prod.collapse)
  obtain f d l where rd: "reading es 0 [] = (f, d, l)" by (metis prod_cases3)
  have w: "world s = world t" using same_shell_fields [OF sh] by simp
  let ?inp = "lines_of kb prompt" and ?b = "next_addr s"
  let ?u = "s\<lparr>world := w, interrupted := f, rl_done := of_bool d, rl_line_buffer := l\<rparr>"
  let ?v = "?u\<lparr>char_blocks := (char_blocks s)(?b \<mapsto> cstr l @ [NUL]), next_addr := Suc ?b\<rparr>"
  have rl: "ln_readline ?inp (world t) = ((if \<not> d \<and> eof then None else Some (cstr l), f \<noteq> 0), w)"
    using kb rd w by (simp add: lines_of_def)
  have b: "(char_blocks s)(?b := None) = char_blocks s" using s(1) by (simp add: heap_ok_def fun_upd_idem)
  note run = wp_readline [OF kb, unfolded s(2), OF rd]
  have "wp (mem_get_command os kb (Some prompt)) K s"
  proof (cases "f = 0")
    case False
    then have "line = None" "t' = t\<lparr>world := w\<rparr>" using abs rl False by (simp_all add: get_command_split bnd_extern ret_def)
    then have "K None (s\<lparr>world := w, rl_done := x, rl_line_buffer := l, interrupted := 0\<rparr>)"
        "K None (s\<lparr>world := w, rl_done := x, rl_line_buffer := l, next_addr := Suc ?b, interrupted := 0\<rparr>)" for x
      using sh s by (auto simp: K_def line_read_def same_blocks_def term_ok_def heap_ok_def saved_freed_def hist_ok_def)
    then show ?thesis
      using False b by (simp add: mem_get_command_def wp_bnd run Let_def wp_gets wp_modify wp_free_string wp_ret)
  next
    case True
    have split: "get_command os ?inp t = (if \<not> d \<and> eof then UB
        else bnd (recall_line os (cstr l)) (split_on_lists os ?inp) (t\<lparr>world := w\<rparr>))"
      using rl True by (simp add: get_command_split bnd_extern undefined_behaviour_def)
    then have eof: "\<not> (\<not> d \<and> eof)" using abs by auto
    then have "bnd (recall_line os (cstr l)) (split_on_lists os ?inp) (t\<lparr>world := w\<rparr>) = Ret (line, t')" using abs split by (simp split: if_splits)
    then obtain line1 t1 where t1: "recall_line os (cstr l) (t\<lparr>world := w\<rparr>) = Ret (line1, t1)" "split_on_lists os ?inp line1 t1 = Ret (line, t')"
      by (rule bnd_RetE)
    have held: "line_held s ?v ?b (cstr l)" by (simp add: line_held_def)
    have sh': "same_shell ?v (t\<lparr>world := w\<rparr>)" and hist': "hist_ok ?v"
      using sh s(3) by (simp_all add: hist_ok_def)
    have "wp (recalled os ?b) (\<lambda>p. wp (split_line os p) K) ?v"
    proof (rule wp_mono [OF recall_refines [OF s(1) held sh' hist' t1(1)]], elim exE conjE)
      fix p s1 b1 assume s1: "p = Some b1" "line_held s s1 b1 line1" "same_shell s1 t1" "interrupted s1 = interrupted ?v"
        "hist_ok s1" "strtok_save s1 = strtok_save ?v"
      show "wp (split_line os p) K s1" using split_refines [OF s(1) s1(2,3) _ s1(5) s(4) _ t1(2)] s1 True by (simp add: K_def)
    qed
    then show ?thesis using True eof by (auto simp: mem_get_command_def wp_bnd run Let_def wp_gets wp_not_null)
  qed
  then show ?thesis by (simp only: K_def)
qed

text \<open>The handlers see the words.\<close>

lemma words_of_blocks:
  assumes "length ps = length ws" "distinct ps" "\<forall>w \<in> set ws. NUL \<notin> set w" "\<forall>i < length ps. m (ps ! i) = Some (ws ! i @ [NUL])"
  shows "words_of m (map (Some \<circ> Some) ps @ Some None # cs) = Some ws"
  using assms
proof (induction ps ws rule: list_induct2)
  case (Cons p ps w ws)
  have "m p = Some (w @ [NUL])" using Cons.prems(3) by force
  moreover have "\<forall>i < length ps. m (ps ! i) = Some (ws ! i @ [NUL])" using Cons.prems(3) by force
  ultimately show ?case using Cons by simp
qed simp

lemma word_blocks_nth: "length ps = length ws \<Longrightarrow> distinct ps \<Longrightarrow> i < length ps \<Longrightarrow> word_blocks ps ws (ps ! i) = Some (ws ! i @ [NUL])"
  unfolding word_blocks_def by (rule map_of_is_SomeI) (auto simp: set_zip)

lemma command_argv:
  assumes "command_owned s0 s a n ws"
  shows "argv_at junk s a = Some \<lparr>argv_words = ws, argv_size = n, argv_junk = junk\<rparr>"
proof -
  obtain ps k where ps: "length ps = length ws" "distinct ps" "n = length ps + Suc k" "char_blocks s = char_blocks s0 ++ word_blocks ps ws"
      "ptr_blocks s a = Some (map (Some \<circ> Some) ps @ Some None # replicate k None)" and ws: "\<forall>w \<in> set ws. NUL \<notin> set w"
    using assms by (auto simp: command_owned_def)
  have "words_of (char_blocks s) (map (Some \<circ> Some) ps @ Some None # replicate k None) = Some ws"
    using word_blocks_nth [OF ps(1,2)] by (intro words_of_blocks [OF ps(1,2) ws]) (simp add: ps(4) map_add_Some_iff)
  then show ?thesis using ps(3,5) by (simp add: argv_at_def)
qed

end
