(* ===== verification/Handler_Frames.thy ===== *)
theory Handler_Frames
  imports Frames Shell
begin

text \<open>
  No handler touches the state of the loop that reads the lines: the history, the flag of the
  signal, and the blocks of the line.
\<close>

section \<open>Under the user interface\<close>

definition same_loop :: "('w, 'm) ui_scheme \<Rightarrow> ('w, 'm) ui_scheme \<Rightarrow> bool" where
  "same_loop s s' \<longleftrightarrow> ui.more s' = ui.more s"

interpretation loop_frame: stable same_loop
  by unfold_locales (simp_all add: same_loop_def)

abbreviation loop_kept :: "('w, 'm, 'a) uprog \<Rightarrow> bool" where
  "loop_kept \<equiv> frames_by same_loop"

text \<open>The library does not even touch what is printed.\<close>

lemma kept_lib: "frames_by same_more m \<Longrightarrow> loop_kept m"
  unfolding frames_by_def same_more_def same_loop_def
proof (intro allI impI)
  fix s r s' assume "\<forall>s r s'. m s = Ret (r, s') \<longrightarrow> dbg.more s' = dbg.more s" "m s = Ret (r, s')"
  then have "dbg.more s' = dbg.more s" by blast
  then show "ui.more s' = ui.more s" by (cases s; cases s') simp
qed

lemma kept_primitives [framing]:
  "loop_kept get_inf" "loop_kept is_null" "loop_kept (sys c)" "loop_kept (extern d)" "loop_kept (set_errno e)" "loop_kept sylvan_get_last_error"
  unfolding sylvan_get_last_error_def by (intro kept_lib framing)+

lemma kept_library [framing]:
  "loop_kept (sylvan_set_code c)" "loop_kept (sylvan_breakpoint_set os a)" "loop_kept (sylvan_breakpoint_unset os a)"
  "loop_kept (sylvan_breakpoint_enable os a)" "loop_kept (sylvan_breakpoint_disable os a)" "loop_kept (sylvan_continue os)" "loop_kept (sylvan_stepinst os)"
  "loop_kept (sylvan_inferior_create os)" "loop_kept (sylvan_inferior_destroy os)" "loop_kept (sylvan_attach os pid)" "loop_kept (sylvan_set_args os x)"
  "loop_kept (sylvan_get_regs os)" "loop_kept (sylvan_set_regs os regs)" "loop_kept (sylvan_get_memory os a)" "loop_kept (sylvan_set_memory os a bytes)"
  "loop_kept (sylvan_run os)" "loop_kept (sylvan_set_filepath os (Some f))" "loop_kept (sylvan_set_breakpoint_function os (Some f))"
  "loop_kept (sylvan_breakpoint_find_by_addr a)" "loop_kept (get_bp n)"
  by (rule kept_lib, intro framing TrueI)+

lemma kept_put [framing]: "loop_kept (put f t)"
  unfolding put_def by (intro framing) (simp add: same_loop_def)

lemma kept_printing [framing]:
  "loop_kept (fprintf f fmt args)" "loop_kept (coloured c fmt args)"
  unfolding fprintf_def coloured_def by (intro framing)+

lemma kept_messages [framing]: "loop_kept (sylvan_print_error fmt args)" "loop_kept (sylvan_print_ok fmt args)" "loop_kept (sylvan_print_instruction fmt args)"
  unfolding print_defs by (intro framing)+

lemma kept_print_error [framing]: "loop_kept print_last_error" "loop_kept (fail msg)"
  unfolding print_last_error_def fail_def by (intro framing)+

lemma kept_attempt [framing]: "loop_kept m \<Longrightarrow> loop_kept k \<Longrightarrow> loop_kept (attempt m k)"
  unfolding attempt_def by (intro framing)

lemma kept_deref [framing]: "loop_kept (deref p)" "loop_kept (opt_deref p)"
proof -
  show "loop_kept (deref p)" unfolding deref_def by (cases p; simp; intro framing)
  then show "loop_kept (opt_deref p)" unfolding opt_deref_def by (intro framing)
qed

lemma kept_words [framing]: "loop_kept (arg c n)" "loop_kept (char_at t i)" "loop_kept (suffix t i)" "loop_kept (c_strtol b t)"
  unfolding arg_def char_at_def suffix_def c_strtol_def by (intro framing)+

lemma kept_with_str [framing]: "(\<And>x. loop_kept (k x)) \<Longrightarrow> loop_kept (with_str t k)"
  unfolding with_str_def by (intro framing)

lemma kept_no_more [framing]: "loop_kept k \<Longrightarrow> loop_kept (no_more c n k)"
  unfolding no_more_def by (intro framing)

lemma kept_print_each [framing]: "(\<And>x. loop_kept (f x)) \<Longrightarrow> loop_kept (print_each f xs)"
  by (induction xs) (auto intro!: framing)

text \<open>Tables.\<close>

lemma kept_alloc [framing]: "loop_kept (alloc_blocks os ns)"
  by (induction ns) (auto intro!: framing)

lemma kept_prompt [framing]: "loop_kept (prompt_for_continue tty r n)"
proof -
  have "loop_kept (\<lambda>s. case skip_line (tty_getchar tty) c (world s) of None \<Rightarrow> Diverge | Some w \<Rightarrow> Ret ((), s\<lparr>world := w\<rparr>))" for c
    by (auto simp: frames_by_def same_loop_def split: option.splits)
  then show ?thesis unfolding prompt_for_continue_def by (intro framing)
qed

lemma kept_rows [framing]: "loop_kept (print_rows tty p n widths cols r rows)"
  by (induction rows arbitrary: r) (auto intro!: framing simp: Let_def print_table_line_def split: option.splits)

lemma kept_table [framing]: "loop_kept (print_table tty title cols rows n)"
  unfolding print_table_def Let_def print_table_line_def by (intro framing)


section \<open>The handlers\<close>

lemma kept_lists [framing]: "loop_kept (print_commands_list ty b)"
  unfolding print_commands_list_def print_commands_of_def print_command_def by (intro framing)

lemma kept_help:
  "loop_kept (handle_help c)" "loop_kept (handle_exit c)" "loop_kept (handle_info c)" "loop_kept (handle_set c)"
  unfolding handle_help_def handle_exit_def handle_info_def handle_set_def by (intro framing)+

lemma kept_fresh [framing]: "loop_kept k \<Longrightarrow> loop_kept (fresh_inferior os k)"
  unfolding fresh_inferior_def by (intro framing)

lemma kept_process:
  "loop_kept (handle_continue os c)" "loop_kept (handle_run os c)" "loop_kept (handle_step_inst os c)"
  "loop_kept (handle_add_inferior os c)" "loop_kept (handle_file os c)" "loop_kept (handle_attach os c)"
  "loop_kept (handle_set_args os c)" "loop_kept (handle_info_args c)" "loop_kept (handle_info_inferiors c)"
  unfolding handle_continue_def handle_run_def handle_step_inst_def handle_add_inferior_def handle_file_def handle_attach_def
    handle_set_args_def handle_info_args_def handle_info_inferiors_def Let_def
  by (intro framing)+

lemma kept_auxv_words [framing]: "loop_kept (print_auxv_entry e)" "loop_kept (target_read_auxv os tty pid)" "loop_kept (parse_auxv os buf n b)"
  unfolding print_auxv_entry_def target_read_auxv_def parse_auxv_def Let_def by (intro framing)+

lemma kept_info_auxv: "loop_kept (handle_info_auxv os tty heap c)"
  unfolding handle_info_auxv_def by (intro framing)

lemma kept_read_registers [framing]: "(\<And>x. loop_kept (k x)) \<Longrightarrow> loop_kept (read_registers os k)"
  unfolding read_registers_def by (intro framing)

lemma kept_registers: "loop_kept (handle_info_registers os tty c)" "loop_kept (handle_set_reg os c)"
  unfolding handle_info_registers_def handle_set_reg_def print_registers_def Let_def by (intro framing)+

lemma kept_by_name [framing]:
  "(\<And>n. loop_kept (k n)) \<Longrightarrow> loop_kept (with_id t hint k)" "(\<And>a. loop_kept (h a)) \<Longrightarrow> loop_kept (with_addr c name msg h)"
  "loop_kept (bp_usage name)" "loop_kept (toggle_result b a)"
  unfolding with_id_def with_addr_def bp_usage_def toggle_result_def Let_def by (intro framing; assumption)+

lemma kept_breakpoints:
  "loop_kept (handle_breakpoint_set os c)" "loop_kept (handle_disable_breakpoint os c)" "loop_kept (handle_enable_breakpoint os c)"
  "loop_kept (handle_delete_breakpoint os c)" "loop_kept (handle_info_breakpoints os tty c)"
  unfolding handle_breakpoint_set_def handle_disable_breakpoint_def handle_enable_breakpoint_def handle_delete_breakpoint_def
    handle_info_breakpoints_def toggle_breakpoint_def Let_def
  by (intro framing)+

lemma kept_lookup [framing]: "loop_kept (lookup_command name)"
  unfolding lookup_command_def by (intro framing)

lemma kept_insert_alias [framing]: "loop_kept (insert_alias os name org i ty)"
  unfolding insert_alias_def by (intro framing) (simp add: same_loop_def)

lemma kept_alias: "loop_kept (handle_set_alias os c)" "loop_kept (handle_info_alias c)"
  unfolding handle_set_alias_def handle_info_alias_def Let_def by (intro framing)+

text \<open>Disassembling.\<close>

lemma kept_error_line [framing]: "loop_kept (error_line fmt args)"
  unfolding error_line_def by (intro framing)

lemma kept_offset [framing]: "loop_kept (get_file_offset_from_vaddr bs a n)"
proof -
  have "loop_kept (search_phdrs bs a n pos i k)" for pos i k
    by (induction k arbitrary: pos i) (auto intro!: framing simp: Let_def)
  then show ?thesis unfolding get_file_offset_from_vaddr_def Let_def by (intro framing)
qed

lemma kept_bounds [framing]: "loop_kept (get_function_bounds os dl path name)"
proof -
  have "loop_kept (search_sections name scs)" for scs
    by (induction scs) (auto intro!: framing)
  then show ?thesis unfolding get_function_bounds_def by (auto intro!: framing split: sum.splits)
qed

lemma kept_node [framing]: "loop_kept (alloc_node os bs n instr)"
  unfolding alloc_node_def by (intro framing)

lemma kept_decode_loop [framing]: "loop_kept (decode_loop os dl is_func fuel a bs)"
proof (induction fuel arbitrary: a bs)
  case 0
  show ?case by (simp add: frames_by_def)
next
  case (Suc fuel)
  then show ?case unfolding decode_loop.simps Let_def by (intro framing)
qed

lemma kept_decode [framing]: "loop_kept (decode_range os dl bs is_func a off sz)"
  unfolding decode_range_def Let_def by (intro framing)

lemma kept_disassemble [framing]: "loop_kept (disassemble os dl a b)" "loop_kept (print_disassembly os tty xs)"
  unfolding disassemble_def print_disassembly_def Let_def by (intro framing)+

lemma kept_ranges [framing]:
  "loop_kept (show_range os tty dl is_func w a b)" "(\<And>a b. loop_kept (k a b)) \<Longrightarrow> loop_kept (explicit_range c w a b k)"
  unfolding show_range_def explicit_range_def parse_bound_def by (intro framing; assumption)+

lemma kept_handle_disassemble: "loop_kept (handle_disassemble os tty dl c)"
  unfolding handle_disassemble_def by (intro framing)

text \<open>Memory.\<close>

lemma kept_read_words [framing]: "loop_kept (read_words os p_table b n a)"
  by (induction n arbitrary: a) (auto intro!: framing split: option.splits)

lemma kept_read_memory: "loop_kept (handle_read_memory os tty c)"
  unfolding handle_read_memory_def read_row_count_def read_memory_at_def print_memory_table_def Let_def by (intro framing)

lemma kept_write_values [framing]: "loop_kept (write_values os a ws)"
  unfolding write_values_def value_hint_def by (cases "parse_values ws []") (simp_all, (intro framing)+)

lemma kept_write_memory: "loop_kept (handle_write_memory os c)"
  unfolding handle_write_memory_def value_hint_def Let_def by (intro framing)


section \<open>Every command\<close>

lemmas kept_handlers = kept_help kept_process kept_info_auxv kept_registers kept_breakpoints kept_alias
  kept_handle_disassemble kept_read_memory kept_write_memory

lemma kept_handler [framing]: "loop_kept (run_handler os tty dl heap h c)"
  unfolding run_handler_def by (cases h) (simp_all add: kept_handlers)

lemma kept_command: "loop_kept (handle_command os tty dl heap c)"
  unfolding handle_command_def by (intro framing)

end
