(* ===== verification/Line_Blocks.thy ===== *)
theory Line_Blocks
  imports Line_Refinement Handler_Frames Shell_Properties
begin

text \<open>
  What is allocated after a line was read, whatever the calls answered, and after a turn of
  the loop, in which a handler runs.
\<close>

section \<open>Reading a line, whatever happens\<close>

lemma collect_returns: "wp (collect_args os ts acc n) (\<lambda>_ _. True) (s :: ('w, 'm) shell_scheme)"
  by (induction ts arbitrary: acc n s)
    (auto simp: wp_simps perror_def split: prod.splits sum.splits)

lemma split_returns: "\<exists>r. split_on_lists os inp line s = Ret r"
proof -
  have "wp (split_on_lists os inp line) (\<lambda>_ _. True) s"
    unfolding split_on_lists_def
    by (auto simp: wp_simps perror_def split: prod.splits sum.splits intro!: wp_mono [OF collect_returns] split: option.splits)
  then show ?thesis by (auto simp: wp_iff)
qed

text \<open>No memory for the last line of the history.\<close>

lemma recall_fails:
  fixes t :: "('w, 'n) shell_scheme" and s0 s :: "('w, 'm) line_mem_scheme"
  assumes s0: "heap_ok s0" and held: "line_held s0 s b line" and sh: "same_shell s t"
    and abs: "\<not> (\<exists>r. recall_line os line t = Ret r)"
  shows "wp (recalled os b) (\<lambda>p s'. p = None \<and> same_blocks s0 s' \<and> interrupted s' = interrupted s \<and>
    history s' = history s \<and> strtok_save s' = strtok_save s) s"
proof -
  have line: "char_blocks s = (char_blocks s0)(b \<mapsto> line @ [NUL])" "NUL \<notin> set line"
    and rest: "ptr_blocks s = ptr_blocks s0" "next_addr s0 \<le> b" "b < next_addr s"
    using held by (auto simp: line_held_def)
  have w: "world s = world t" "history s = history t" using same_shell_fields [OF sh] by auto
  have b: "(char_blocks s0)(b := None) = char_blocks s0" using s0 rest(2) by (simp add: heap_ok_def fun_upd_idem)
  have read: "wp (string_at (b, 0)) Q s = Q line s" for Q using line by (simp add: wp_string_at)
  have no: "line = []" "history t \<noteq> []" "last (history t) \<noteq> []" "fst (os_malloc os (Suc (length (last (history t)))) (world t)) \<noteq> Inr ()"
    using abs by (auto simp: recall_line_def bnd_def modify_def gets_def ret_def sys_def syscall_def split: prod.splits sum.splits if_splits)
  then obtain e w1 where "os_malloc os (Suc (length (last (history t)))) (world t) = (Inl e, w1)"
    by (cases "os_malloc os (Suc (length (last (history t)))) (world t)"; cases "fst (os_malloc os (Suc (length (last (history t)))) (world t))") auto
  then show ?thesis
    using no w line b rest
    by (simp add: recalled_def copy_string_def wp_bnd read wp_gets wp_free_string wp_sys wp_ret same_blocks_def)
qed

lemma split_null:
  assumes s0: "heap_ok s0" "saved_freed s0" "same_blocks s0 s" "interrupted s = 0" "hist_ok s" "strtok_save s = strtok_save s0"
    and run: "split_line os None s = Ret (p, s')"
  shows "p = None \<and> same_blocks s0 s' \<and> term_ok s'"
proof -
  obtain r w where r: "os_malloc os (INITIAL_ARG_COUNT * 8) (world s) = (r, w)" by fastforce
  show ?thesis
  proof (cases r)
    case (Inl e)
    have "wp (split_line os None) (\<lambda>p s'. p = None \<and> same_blocks s0 s' \<and> term_ok s') s"
      using s0 r Inl same_blocks_ok [OF s0(1,3)]
      by (auto simp: split_line_def malloc_array_def wp_bnd wp_sys wp_ret wp_perror wp_free_string same_blocks_def term_ok_def
          saved_freed_def hist_ok_def heap_ok_def)
    then show ?thesis using run by (auto dest: wp_RetD)
  next
    case (Inr u)
    have "\<not> wp (split_line os None) (\<lambda>_ _. True) s"
      using s0 r Inr
      by (auto simp: split_line_def malloc_array_def strtok_def string_at_def wp_bnd wp_sys wp_ret wp_new_array wp_gets wp_not_null wp_block_at
          same_blocks_def saved_freed_def split: option.splits)
    then show ?thesis using run by (simp add: wp_iff)
  qed
qed

text \<open>What is allocated after reading a line: nothing, or the command.\<close>

lemma command_blocks:
  assumes ok: "term_ok s" and run: "mem_get_command os kb (Some prompt) s = Ret (p, s')"
  shows "term_ok s' \<and> (case p of None \<Rightarrow> same_blocks s s' | Some a \<Rightarrow> \<exists>n ws. command_owned s s' a n ws)"
proof (cases "\<exists>r. get_command os (lines_of kb prompt) s = Ret r")
  case True
  then obtain line t' where abs: "get_command os (lines_of kb prompt) s = Ret (line, t')" by auto
  have sh: "same_shell s s" by (simp add: same_shell_def)
  have "line_read s (lines_of kb prompt) line t' p s'" by (rule wp_RetD [OF get_command_refines [OF ok sh abs] run])
  then show ?thesis by (auto simp: line_read_def split: option.splits)
next
  case False
  have s: "heap_ok s" "interrupted s = 0" "hist_ok s" "saved_freed s" using ok by (simp_all add: term_ok_def)
  obtain es eof w where kb: "kb_read kb prompt (world s) = ((es, eof), w)" by (metis prod.collapse)
  obtain f d l where rd: "reading es 0 [] = (f, d, l)" by (metis prod_cases3)
  have rl: "ln_readline (lines_of kb prompt) (world s) = ((if \<not> d \<and> eof then None else Some (cstr l), f \<noteq> 0), w)"
    using kb rd by (simp add: lines_of_def)
  have f: "f = 0"
  proof (rule ccontr)
    assume "f \<noteq> 0"
    then have "get_command os (lines_of kb prompt) s = Ret (None, s\<lparr>world := w\<rparr>)" using rl by (simp add: get_command_split bnd_extern ret_def)
    with False show False by blast
  qed
  let ?b = "next_addr s"
  let ?v = "s\<lparr>world := w, interrupted := f, rl_done := of_bool d, rl_line_buffer := l,
    char_blocks := (char_blocks s)(?b \<mapsto> cstr l @ [NUL]), next_addr := Suc ?b\<rparr>"
  note read = wp_readline [OF kb, unfolded s(2), OF rd]
  have eof: "\<not> (\<not> d \<and> eof)"
  proof
    assume "\<not> d \<and> eof"
    then have "\<not> wp (mem_get_command os kb (Some prompt)) (\<lambda>_ _. True) s"
      using f by (auto simp: mem_get_command_def wp_bnd read Let_def wp_gets wp_not_null)
    then show False using run by (simp add: wp_iff)
  qed
  have no_recall: "\<not> (\<exists>r. recall_line os (cstr l) (s\<lparr>world := w\<rparr>) = Ret r)"
  proof
    assume "\<exists>r. recall_line os (cstr l) (s\<lparr>world := w\<rparr>) = Ret r"
    then obtain line u where "recall_line os (cstr l) (s\<lparr>world := w\<rparr>) = Ret (line, u)" by auto
    then have "get_command os (lines_of kb prompt) s = split_on_lists os (lines_of kb prompt) line u"
      using rl f eof by (simp add: get_command_split bnd_extern) (simp add: bnd_def)
    then have "\<exists>r. get_command os (lines_of kb prompt) s = Ret r" using split_returns [of os "lines_of kb prompt" line u] by simp
    with False show False by blast
  qed
  have held: "line_held s ?v ?b (cstr l)" and sh: "same_shell ?v (s\<lparr>world := w\<rparr>)"
    by (simp_all add: line_held_def) (simp add: same_shell_def shell.truncate_def)
  have "wp (recalled os ?b) (\<lambda>p s'. p = None \<and> same_blocks s s' \<and> interrupted s' = 0 \<and> hist_ok s' \<and> strtok_save s' = strtok_save s) ?v"
    by (rule wp_mono [OF recall_fails [OF s(1) held sh no_recall]]) (use s(3) f in \<open>auto simp: hist_ok_def\<close>)
  then obtain v where v: "recalled os ?b ?v = Ret (None, v)" "same_blocks s v" "interrupted v = 0" "hist_ok v" "strtok_save v = strtok_save s"
    by (auto simp: wp_iff)
  have "wp (mem_get_command os kb (Some prompt)) Q s = wp (split_line os None) Q v" for Q
  proof -
    have "wp (mem_get_command os kb (Some prompt)) Q s = wp (recalled os ?b) (\<lambda>p. wp (split_line os p) Q) ?v"
      using f eof by (cases d) (simp_all add: mem_get_command_def wp_bnd read Let_def wp_gets wp_not_null)
    also have "\<dots> = wp (split_line os None) Q v" unfolding wp_def [of "recalled os ?b"] v(1) by simp
    finally show ?thesis .
  qed
  from this [of "\<lambda>a u. a = p \<and> u = s'"] have "split_line os None v = Ret (p, s')" using run by (simp add: wp_iff)
  from split_null [OF s(1,4) v(2-5) this] show ?thesis by simp
qed


section \<open>A turn of the loop\<close>

text \<open>The fields of the loop, as the handlers leave them.\<close>

lemma same_loop_fields:
  assumes "same_loop s (t :: ('w, 'm) line_mem_scheme)"
  shows "char_blocks t = char_blocks s \<and> ptr_blocks t = ptr_blocks s \<and> next_addr t = next_addr s \<and>
    interrupted t = interrupted s \<and> strtok_save t = strtok_save s \<and> history t = history s"
  using assms by (cases s; cases t) (simp add: same_loop_def)

lemma term_ok_cong:
  "same_loop s t \<Longrightarrow> term_ok t = term_ok s" "same_loop s t \<Longrightarrow> command_owned s0 t a n ws = command_owned s0 s a n ws"
  by (drule same_loop_fields, simp add: term_ok_def heap_ok_def hist_ok_def saved_freed_def command_owned_def)+

text \<open>The command is freed, and the blocks are those before the line.\<close>

lemma freed_command:
  assumes ok: "term_ok s0" "term_ok s" and own: "command_owned s0 s a n ws"
  shows "wp (mem_free_command (Some a)) (\<lambda>_ s'. same_blocks s0 s' \<and> term_ok s') s"
proof -
  have s0: "heap_ok s0" using ok(1) by (simp add: term_ok_def)
  let ?s = "s\<lparr>char_blocks := char_blocks s0, ptr_blocks := ptr_blocks s0\<rparr>"
  have same: "same_blocks s0 ?s" using own by (simp add: same_blocks_def command_owned_def)
  obtain f where "char_blocks s = char_blocks s0 ++ f" using own by (auto simp: command_owned_def)
  then have "saved_freed ?s" using ok(2) by (auto simp: term_ok_def saved_freed_def map_add_None)
  then have "term_ok ?s" using ok(2) same_blocks_ok [OF s0 same] by (simp add: term_ok_def hist_ok_def)
  then show ?thesis using same by (simp add: free_command_spec [OF s0 own])
qed

lemma turn_blocks:
  assumes ok: "term_ok s" and run: "mem_turn os tty dl heap kb prompt s = Ret (ended, s')"
  shows "same_blocks s s' \<and> term_ok s'"
proof -
  obtain line u where u: "mem_get_command os kb (Some prompt) s = Ret (line, u)"
    "(case line of
         None \<Rightarrow> ret False
       | Some a \<Rightarrow> bnd (read_argv kb a) (\<lambda>c.
           if argv_words c = [] \<or> argv_words c ! 0 = [] then bnd (mem_free_command line) (\<lambda>_. ret False)
           else bnd (handle_command os tty dl heap c) (\<lambda>r.
             bnd (mem_free_command line) (\<lambda>_. ret (r \<noteq> 0))))) u = Ret (ended, s')"
    using run unfolding mem_turn_def by (rule bnd_RetE)
  note blocks = command_blocks [OF ok u(1)]
  show ?thesis
  proof (cases line)
    case None
    then show ?thesis using u(2) blocks by (auto simp: ret_def)
  next
    case (Some a)
    then obtain n ws where own: "command_owned s u a n ws" and uok: "term_ok u" using blocks by auto
    have freed: "same_blocks s v \<and> term_ok v" if "same_loop u t" "bnd (mem_free_command (Some a)) (\<lambda>_. ret x) t = Ret (ended, v)" for t v x
    proof -
      have "wp (mem_free_command (Some a)) (\<lambda>_ v. same_blocks s v \<and> term_ok v) t"
        by (rule freed_command [OF ok]) (use own uok term_ok_cong [OF that(1)] in auto)
      then have "wp (bnd (mem_free_command (Some a)) (\<lambda>_. ret x)) (\<lambda>_ v. same_blocks s v \<and> term_ok v) t" by (simp add: wp_bnd wp_ret)
      then show ?thesis using that(2) by (auto dest: wp_RetD)
    qed
    obtain c v where c: "read_argv kb a u = Ret (c, v)"
      "(if argv_words c = [] \<or> argv_words c ! 0 = [] then bnd (mem_free_command line) (\<lambda>_. ret False)
           else bnd (handle_command os tty dl heap c) (\<lambda>r. bnd (mem_free_command line) (\<lambda>_. ret (r \<noteq> 0)))) v = Ret (ended, s')"
      using u(2) unfolding Some option.case by (rule bnd_RetE)
    have v: "v = u" using c(1) by (auto simp: read_argv_def bnd_def gets_def not_null_def ret_def undefined_behaviour_def split: option.splits)
    show ?thesis
    proof (cases "argv_words c = [] \<or> argv_words c ! 0 = []")
      case True
      then show ?thesis using c(2) Some v by (intro freed [of u]) (auto simp: same_loop_def)
    next
      case False
      then obtain r t where t: "handle_command os tty dl heap c u = Ret (r, t)" "bnd (mem_free_command (Some a)) (\<lambda>_. ret (r \<noteq> 0)) t = Ret (ended, s')"
        using c(2) Some v by (auto elim: bnd_RetE)
      then show ?thesis using frames_byD [OF kept_command t(1)] freed by blast
    qed
  qed
qed

end
