(* ===== verification/Line_Properties.thy ===== *)
theory Line_Properties
  imports Line_Blocks Startup_Properties
begin

text \<open>
  Properties of the loop that reads the lines, with the blocks of the heap and the signal:
  it reads what the loop on lists reads, frees every line, and gives up a line that the user
  interrupts.
\<close>

section \<open>Reading\<close>

text \<open>C28: Reading a line into blocks of the heap, with \<open>strtok\<close> writing into the line, the array growing
  and every failed allocation, gives what reading it on lists gives. The words that the handlers
  then see are those of the list, and freeing the command leaves the blocks that there were before.\<close>

theorem line_refinement:
  assumes ok: "term_ok s" and sh: "same_shell s t" and abs: "get_command os (lines_of kb prompt) t = Ret (line, t')"
  shows "wp (mem_get_command os kb (Some prompt)) (\<lambda>p s'. same_shell s' t' \<and> interrupted s' = 0 \<and>
    (case line of
       None \<Rightarrow> p = None
     | Some c \<Rightarrow> \<exists>a. p = Some a \<and> argv_at (kb_junk kb (world s')) s' a = Some c) \<and>
    wp (mem_free_command p) (\<lambda>_ u. char_blocks u = char_blocks s \<and> ptr_blocks u = ptr_blocks s) s') s"
proof (rule wp_mono [OF get_command_refines [OF ok sh abs]])
  fix p s' assume read: "line_read s (lines_of kb prompt) line t' p s'"
  then have s': "same_shell s' t'" "term_ok s'" by (simp_all add: line_read_def)
  show "same_shell s' t' \<and> interrupted s' = 0 \<and>
    (case line of
       None \<Rightarrow> p = None
     | Some c \<Rightarrow> \<exists>a. p = Some a \<and> argv_at (kb_junk kb (world s')) s' a = Some c) \<and>
    wp (mem_free_command p) (\<lambda>_ u. char_blocks u = char_blocks s \<and> ptr_blocks u = ptr_blocks s) s'"
  proof (cases line)
    case None
    then show ?thesis using s' read by (simp add: line_read_def term_ok_def same_blocks_def mem_free_command_def wp_ret)
  next
    case (Some c)
    then obtain a where a: "p = Some a" "command_owned s s' a (argv_size c) (argv_words c)" "argv_junk c = kb_junk kb (world s')"
      using read by (auto simp: line_read_def lines_of_def)
    have "argv_at (kb_junk kb (world s')) s' a = Some c" using command_argv [OF a(2), of "argv_junk c"] a(3) by simp
    moreover have "wp (mem_free_command p) (\<lambda>_ u. char_blocks u = char_blocks s \<and> ptr_blocks u = ptr_blocks s) s'"
      unfolding a(1) by (rule wp_mono [OF freed_command [OF ok s'(2) a(2)]]) (simp add: same_blocks_def)
    ultimately show ?thesis using Some a(1) s' by (simp add: term_ok_def)
  qed
qed

text \<open>The simulated user types one line again and again.\<close>

definition sim_keyboard :: "string \<Rightarrow> 'w keyboard" where
  "sim_keyboard line = \<lparr>kb_read = (\<lambda>prompt w. (([Rl_idle, Rl_edit line], False), w)),
     kb_junk = (\<lambda>w n. False), kb_signal = (\<lambda>w. (Inr (), w))\<rparr>"

definition sim_term :: "sim line_mem" where
  "sim_term = \<lparr>infp = InfLive zero_inferior, sylvan_inferior_idx = 1, sylvan_inferior_count = 1,
     sylvan_last_error = no_error, errno = 0, world = sim_world, con_out = [],
     command_hash = static_commands, alias_table = static_aliases, history = [],
     char_blocks = Map.empty, ptr_blocks = Map.empty, next_addr = 0, strtok_save = None,
     interrupted = 0, rl_done = 0, rl_line_buffer = []\<rparr>"

lemma sim_term_ok: "term_ok sim_term"
  by (simp add: term_ok_def heap_ok_def hist_ok_def saved_freed_def sim_term_def)

lemma quit_typed:
  "get_command sim_os (lines_of (sim_keyboard ''quit'') p) s = Ret (Some (sim_argv [''quit'']), s\<lparr>history := history s @ [''quit'']\<rparr>)"
  by (simp add: get_command_def lines_of_def sim_keyboard_def recall_line_def strtok_all_def sim_os_def INITIAL_ARG_COUNT_def
      sim_argv_def bnd_def extern_def modify_def gets_def sys_def syscall_def ret_def cstr_def NUL_def)

theorem line_refinement_witness:
  "wp (mem_get_command sim_os (sim_keyboard ''quit'') (Some ''> '')) (\<lambda>line s'. \<exists>a. line = Some a \<and>
     argv_at (\<lambda>_. False) s' a = Some (sim_argv [''quit'']) \<and>
     wp (mem_free_command line) (\<lambda>_ u. char_blocks u = Map.empty \<and> ptr_blocks u = Map.empty) s') sim_term"
proof -
  have "same_shell sim_term sim_term" by (simp add: same_shell_def)
  from line_refinement [OF sim_term_ok this quit_typed] show ?thesis
    by (rule wp_mono) (auto simp: sim_term_def sim_keyboard_def)
qed

text \<open>The whole loop. The prompt fits into its buffer.\<close>

lemma shell_prompt_fits: "\<exists>p. shell_prompt = Some p \<and> length p = 36"
  by (simp add: shell_prompt_def snprintf_def format_simps PROMPT_MAX_LEN_def BLUE_def MAGENTA_def YELLOW_def RESET_def)

lemma loop_blocks:
  assumes ok: "term_ok s" and run: "mem_loop os tty dl heap kb prompt s = Ret ((), s')"
  shows "same_blocks s s' \<and> term_ok s'"
proof -
  have "same_blocks s u' \<and> term_ok u'"
    if "same_blocks s u \<and> term_ok u" "bnd (mem_turn os tty dl heap kb prompt) (\<lambda>ended. ret (if ended then Inr () else Inl ())) u = Ret (r, u')"
    for u u' and r :: "unit + unit"
    using that turn_blocks [of u os tty dl heap kb prompt]
    by (auto elim!: bnd_RetE simp: ret_def same_blocks_def dest: le_trans)
  from loop_keeps [where I = "\<lambda>u. same_blocks s u \<and> term_ok u", OF this _ run [unfolded mem_loop_def]]
  show ?thesis using ok by (auto simp: same_blocks_def)
qed

lemma kept_interface: "loop_kept (print_heading tty)" "loop_kept init_commands" "loop_kept free_alias_table" "loop_kept (perror os msg)"
  unfolding print_heading_def clear_screen_def init_commands_def free_alias_table_def perror_def Let_def
  by (intro framing; simp add: same_loop_def)+

text \<open>What keeps the blocks, and the state in order.\<close>

definition keeps_blocks :: "('w, 'm, 'a) lprog \<Rightarrow> bool" where
  "keeps_blocks m \<longleftrightarrow> (\<forall>u r u'. term_ok u \<longrightarrow> m u = Ret (r, u') \<longrightarrow> same_blocks u u' \<and> term_ok u')"

lemma keeps_blocks_bnd:
  assumes "keeps_blocks m" "\<And>a. keeps_blocks (k a)"
  shows "keeps_blocks (bnd m k)"
  unfolding keeps_blocks_def
proof (intro allI impI)
  fix u r u' assume u: "term_ok u" "bnd m k u = Ret (r, u')"
  obtain a v where v: "m u = Ret (a, v)" "k a v = Ret (r, u')" using u(2) by (rule bnd_RetE)
  have "same_blocks u v" "term_ok v" using assms(1) u(1) v(1) unfolding keeps_blocks_def by blast+
  moreover from this(2) have "same_blocks v u'" "term_ok u'" using assms(2) [of a] v(2) unfolding keeps_blocks_def by blast+
  ultimately show "same_blocks u u' \<and> term_ok u'" by (auto simp: same_blocks_def)
qed

lemma keeps_interface: "loop_kept m \<Longrightarrow> keeps_blocks m"
  unfolding keeps_blocks_def
proof (intro allI impI)
  fix u r u' assume "loop_kept m" "term_ok u" "m u = Ret (r, u')"
  moreover from this have "same_loop u u'" by (rule_tac frames_byD)
  ultimately show "same_blocks u u' \<and> term_ok u'"
    using same_loop_fields [of u u'] term_ok_cong(1) [of u u'] by (simp add: same_blocks_def)
qed

lemma keeps_forgetting: "keeps_blocks (modify (\<lambda>s. s\<lparr>history := []\<rparr>))"
  by (auto simp: keeps_blocks_def modify_def same_blocks_def term_ok_def heap_ok_def hist_ok_def)

lemma keeps_session: "keeps_blocks (mem_interface_loop os tty dl heap kb)"
proof -
  obtain prompt where p: "shell_prompt = Some prompt" using shell_prompt_fits by blast
  have loop: "keeps_blocks (mem_loop os tty dl heap kb prompt)" unfolding keeps_blocks_def by (intro allI impI) (rule loop_blocks, assumption, simp)
  have rest: "keeps_blocks (bnd (print_heading tty) (\<lambda>_. bnd init_commands (\<lambda>_. not_null shell_prompt (\<lambda>prompt.
           bnd (mem_loop os tty dl heap kb prompt) (\<lambda>_. bnd free_alias_table (\<lambda>_. modify (\<lambda>s. s\<lparr>history := []\<rparr>)))))))"
    unfolding p not_null_def option.case by (intro keeps_blocks_bnd loop keeps_forgetting keeps_interface [OF kept_interface(1)] keeps_interface [OF kept_interface(2)]
      keeps_interface [OF kept_interface(3)])
  show ?thesis
    unfolding mem_interface_loop_def
  proof (rule keeps_blocks_bnd [OF keeps_interface [OF kept_primitives(3)]])
    show "keeps_blocks (case r of
         Inl _ \<Rightarrow> perror os ''Failed to set SIGINT handler''
       | Inr _ \<Rightarrow> bnd (print_heading tty) (\<lambda>_. bnd init_commands (\<lambda>_. not_null shell_prompt (\<lambda>prompt.
           bnd (mem_loop os tty dl heap kb prompt) (\<lambda>_. bnd free_alias_table (\<lambda>_. modify (\<lambda>s. s\<lparr>history := []\<rparr>)))))))" for r
      using rest keeps_interface [OF kept_interface(4)] by (cases r) simp_all
  qed
qed

text \<open>C29: When the loop ends, every line that it read has been freed: the buffers of \<open>readline\<close>, the copies
  of the history, the arrays and the words, whatever the handlers did, whichever allocations failed
  and however often the user interrupted. No signal is left pending.\<close>

theorem session_frees_lines:
  assumes ok: "term_ok s" and run: "mem_interface_loop os tty dl heap kb s = Ret ((), s')"
  shows "char_blocks s' = char_blocks s \<and> ptr_blocks s' = ptr_blocks s \<and> interrupted s' = 0"
proof -
  have "same_blocks s s' \<and> term_ok s'" using keeps_session ok run unfolding keeps_blocks_def by blast
  then show ?thesis by (simp add: same_blocks_def term_ok_def)
qed

text \<open>C30: A signal is never lost: whether it came before \<open>readline\<close> was called, in between, or just before
  the user ended the line, or the input ended, the line is given up without a word of it being kept, and
  the flag is clear again. Signals that come together count as one.\<close>

theorem interrupt_discards_line:
  assumes ok: "heap_ok s" and kb: "kb_read kb prompt (world s) = ((es, eof), w)"
    and signal: "interrupted s \<noteq> 0 \<or> Rl_signal \<in> set es"
  shows "wp (mem_get_command os kb (Some prompt)) (\<lambda>line s'. line = None \<and> interrupted s' = 0 \<and>
    char_blocks s' = char_blocks s \<and> ptr_blocks s' = ptr_blocks s \<and> world s' = w \<and>
    history s' = history s \<and> con_out s' = con_out s \<and> infp s' = infp s) s"
proof -
  obtain f d l where rd: "reading es (interrupted s) [] = (f, d, l)" by (metis prod_cases3)
  have "fst (reading es i t) \<noteq> 0" if "i \<noteq> 0 \<or> Rl_signal \<in> set es" for i t
    using that by (induction es i t rule: reading.induct) auto
  from this [OF signal, of "[]"] have f: "f \<noteq> 0" using rd by simp
  have "(char_blocks s)(next_addr s := None) = char_blocks s" using ok by (simp add: heap_ok_def fun_upd_idem)
  then show ?thesis
    using f by (simp add: mem_get_command_def wp_bnd wp_readline [OF kb rd] Let_def wp_gets wp_modify wp_free_string wp_ret)
qed

theorem interrupt_discards_line_witness:
  "wp (mem_get_command sim_os \<lparr>kb_read = (\<lambda>p w. (([Rl_edit ''qui'', Rl_signal, Rl_idle, Rl_edit ''t''], False), w)),
     kb_junk = (\<lambda>w n. False), kb_signal = (\<lambda>w. (Inr (), w))\<rparr> (Some ''> ''))
     (\<lambda>line s'. line = None \<and> interrupted s' = 0 \<and> history s' = [] \<and> char_blocks s' = Map.empty) sim_term"
proof -
  have "heap_ok sim_term" using sim_term_ok by (simp add: term_ok_def)
  from interrupt_discards_line [OF this, where kb = "\<lparr>kb_read = (\<lambda>p w. (([Rl_edit ''qui'', Rl_signal, Rl_idle, Rl_edit ''t''], False), w)),
     kb_junk = (\<lambda>w n. False), kb_signal = (\<lambda>w. (Inr (), w))\<rparr>" and os = sim_os and prompt = "''> ''"]
  show ?thesis by (rule wp_mono) (auto simp: sim_term_def)
qed


section \<open>A session\<close>

text \<open>The turn on which the user types \<open>quit\<close>.\<close>

lemma quit_turn_ends:
  assumes ok: "term_ok s" and s: "command_hash s = static_commands" "alias_table s = static_aliases"
  shows "wp (mem_turn sim_os tty dl heap (sim_keyboard ''quit'') p) (\<lambda>ended _. ended) s"
proof -
  let ?kb = "sim_keyboard ''quit'' :: sim keyboard"
  have sh: "same_shell s s" by (simp add: same_shell_def)
  obtain line u where u: "mem_get_command sim_os ?kb (Some p) s = Ret (line, u)"
      "line_read s (lines_of ?kb p) (Some (sim_argv [''quit''])) (s\<lparr>history := history s @ [''quit'']\<rparr>) line u"
    using get_command_refines [OF ok sh quit_typed [of p s]] by (auto simp: wp_iff)
  then obtain a where a: "line = Some a" "command_owned s u a 10 [''quit'']" "term_ok u" "same_shell u (s\<lparr>history := history s @ [''quit'']\<rparr>)"
    by (auto simp: line_read_def sim_argv_def)
  have tables: "command_hash u = static_commands" "alias_table u = static_aliases"
    using a(4) s by (simp_all add: same_shell_def shell.truncate_def)
  have argv: "wp (read_argv ?kb a) Q u = Q (sim_argv [''quit'']) u" for Q
    using command_argv [OF a(2), of "\<lambda>_. False"] by (simp add: read_argv_def wp_bnd wp_gets wp_not_null wp_ret sim_keyboard_def sim_argv_def)
  obtain r t where t: "handle_command sim_os tty dl heap (sim_argv [''quit'']) u = Ret (r, t)" "r = 1"
    using handle_quit [of "sim_argv [''quit'']" u sim_os tty dl heap] tables by (auto simp: wp_iff sim_argv_def)
  have loop: "same_loop u t" by (rule frames_byD [OF kept_command t(1)])
  have "wp (mem_free_command (Some a)) (\<lambda>_ s'. same_blocks s s' \<and> term_ok s') t"
    by (rule freed_command [OF ok]) (use a(2,3) term_ok_cong [OF loop] in auto)
  then have "wp (handle_command sim_os tty dl heap (sim_argv [''quit''])) (\<lambda>r. wp (mem_free_command (Some a)) (\<lambda>_ _. r \<noteq> 0)) u"
    unfolding wp_iff [of "handle_command _ _ _ _ _"] using t by (auto elim: wp_mono)
  then have "wp (bnd (handle_command sim_os tty dl heap (sim_argv [''quit''])) (\<lambda>r. bnd (mem_free_command line) (\<lambda>_. ret (r \<noteq> 0)))) (\<lambda>ended _. ended) u"
    by (simp add: wp_bnd wp_ret a(1))
  then show ?thesis
    unfolding mem_turn_def wp_bnd [of "mem_get_command _ _ _"] wp_iff [of "mem_get_command _ _ _"] u(1)
    by (simp add: a(1) wp_bnd [of "read_argv _ _"] argv sim_argv_def)
qed

lemma sim_session_ends: "\<exists>s'. mem_interface_loop sim_os tty dl heap (sim_keyboard ''quit'') sim_term = Ret ((), s')"
proof -
  let ?kb = "sim_keyboard ''quit'' :: sim keyboard"
  obtain p where p: "shell_prompt = Some p" using shell_prompt_fits by blast
  have body: "wp (bnd init_commands (\<lambda>_. bnd (mem_loop sim_os tty dl heap ?kb p) (\<lambda>_. bnd free_alias_table (\<lambda>_.
      modify (\<lambda>s. s\<lparr>history := []\<rparr>))))) (\<lambda>_ _. True) u" if u: "only_out sim_term u" for u
  proof -
    let ?u = "u\<lparr>command_hash := static_commands, alias_table := static_aliases\<rparr>"
    have "term_ok ?u" using u sim_term_ok by (auto simp: only_out_def term_ok_def heap_ok_def hist_ok_def saved_freed_def)
    then have "wp (mem_turn sim_os tty dl heap ?kb p) (\<lambda>ended _. ended) ?u" by (rule quit_turn_ends) simp_all
    then have "wp (mem_loop sim_os tty dl heap ?kb p) (\<lambda>_ _. True) ?u"
      unfolding mem_loop_def by (subst wp_loop) (auto simp: wp_bnd wp_ret elim!: wp_mono)
    then show ?thesis unfolding wp_bnd [of init_commands] wp_init_commands by (rule wp_bndI) (simp add: free_alias_table_def wp_simps)
  qed
  have "wp (mem_interface_loop sim_os tty dl heap ?kb) (\<lambda>_ _. True) sim_term"
    unfolding mem_interface_loop_def wp_bnd [of "sys _"] wp_sys p not_null_def
    by (simp add: sim_keyboard_def) (rule wp_bndI [OF heading_only], use body in \<open>auto simp: only_out_def sim_keyboard_def\<close>)
  then show ?thesis by (auto simp: wp_iff)
qed

theorem session_frees_lines_witness:
  "\<exists>s'. mem_interface_loop sim_os (sim_tty Map.empty) (sim_dislib []) (\<lambda>_. 0) (sim_keyboard ''quit'') sim_term = Ret ((), s') \<and>
     char_blocks s' = Map.empty \<and> ptr_blocks s' = Map.empty \<and> interrupted s' = 0"
proof -
  obtain s' where s': "mem_interface_loop sim_os (sim_tty Map.empty) (sim_dislib []) (\<lambda>_. 0) (sim_keyboard ''quit'') sim_term = Ret ((), s')"
    using sim_session_ends by blast
  from session_frees_lines [OF sim_term_ok s'] s' show ?thesis by (auto simp: sim_term_def)
qed

end
