(* ===== verification/Hash_Table.thy ===== *)
theory Hash_Table
  imports Registry
begin

text \<open>
  \<open>include/uthash.h\<close>, as far as \<open>command_registry.c\<close> expands it, with \<open>HASH_BLOOM\<close> and
  \<open>HASH_NONFATAL_OOM\<close> off: the buckets, the two doubly linked lists that run through the
  hash handles (the elements in the order of insertion, and those of one bucket), the hash
  function, and the doubling of the buckets. A pointer to a handle is written as the pointer
  to the element that holds it: \<open>ELMT_FROM_HH\<close> and \<open>HH_FROM_ELMT\<close> only add and subtract the
  offset of the handle in the element.
\<close>

section \<open>The store\<close>

type_synonym u32 = "32 word"

text \<open>The objects with a handle: the entries of the two static arrays, and blocks of the heap.\<close>

datatype elt = Static_command nat | Static_alias nat | Block nat

record ut_handle =
  uh_tbl :: "nat option"
  uh_prev :: "elt option"
  uh_next :: "elt option"
  uh_hh_prev :: "elt option"
  uh_hh_next :: "elt option"
  uh_key :: string
  uh_keylen :: u32
  uh_hashv :: u32

record ut_bucket =
  ub_head :: "elt option"
  ub_count :: u32
  ub_mult :: u32

record ut_table =
  ut_buckets :: "ut_bucket list"
  num_buckets :: u32
  log2_num_buckets :: u32
  num_items :: u32
  ut_tail :: "elt option"
  ideal_chain_maxlen :: u32
  nonideal_items :: u32
  ineff_expands :: u32
  noexpand :: u32
  signature :: u32

definition zero_handle :: ut_handle where
  "zero_handle = \<lparr>uh_tbl = None, uh_prev = None, uh_next = None, uh_hh_prev = None, uh_hh_next = None,
     uh_key = [], uh_keylen = 0, uh_hashv = 0\<rparr>"

definition zero_bucket :: ut_bucket where
  "zero_bucket = \<lparr>ub_head = None, ub_count = 0, ub_mult = 0\<rparr>"

definition ut_zero_table :: ut_table where
  "ut_zero_table = \<lparr>ut_buckets = [], num_buckets = 0, log2_num_buckets = 0, num_items = 0, ut_tail = None,
     ideal_chain_maxlen = 0, nonideal_items = 0, ineff_expands = 0, noexpand = 0, signature = 0\<rparr>"

text \<open>The handles of the live objects, and the tables; one that was freed is \<open>None\<close>.\<close>

record 'w ut = "'w console" +
  handles :: "elt \<Rightarrow> ut_handle option"
  tables :: "ut_table option list"

type_synonym ('w, 'm, 'a) hprog = "(('w, 'm) ut_scheme, 'a) prog"

definition hh :: "elt \<Rightarrow> ('w, 'm, ut_handle) hprog" where
  "hh x = (\<lambda>s. case handles s x of None \<Rightarrow> UB | Some h \<Rightarrow> Ret (h, s))"

definition upd_hh :: "elt \<Rightarrow> (ut_handle \<Rightarrow> ut_handle) \<Rightarrow> ('w, 'm, unit) hprog" where
  "upd_hh x f = (\<lambda>s. case handles s x of None \<Rightarrow> UB | Some h \<Rightarrow> Ret ((), s\<lparr>handles := (handles s)(x := Some (f h))\<rparr>))"

definition table_at :: "ut_table option list \<Rightarrow> nat \<Rightarrow> ut_table option" where
  "table_at ts t = (if t < length ts then ts ! t else None)"

definition tbl :: "nat \<Rightarrow> ('w, 'm, ut_table) hprog" where
  "tbl t = (\<lambda>s. case table_at (tables s) t of None \<Rightarrow> UB | Some T \<Rightarrow> Ret (T, s))"

definition upd_tbl :: "nat \<Rightarrow> (ut_table \<Rightarrow> ut_table) \<Rightarrow> ('w, 'm, unit) hprog" where
  "upd_tbl t f = (\<lambda>s. case table_at (tables s) t of None \<Rightarrow> UB
     | Some T \<Rightarrow> Ret ((), s\<lparr>tables := (tables s)[t := Some (f T)]\<rparr>))"

text \<open>\<open>(head)->hh.tbl\<close>\<close>

definition head_tbl :: "elt option \<Rightarrow> ('w, 'm, nat) hprog" where
  "head_tbl head = not_null head (\<lambda>x. bnd (hh x) (\<lambda>h. not_null (uh_tbl h) ret))"

text \<open>\<open>tbl->buckets[b]\<close>\<close>

definition bucket :: "nat \<Rightarrow> u32 \<Rightarrow> ('w, 'm, ut_bucket) hprog" where
  "bucket t b = bnd (tbl t) (\<lambda>T. if unat b < length (ut_buckets T) then ret (ut_buckets T ! unat b) else undefined_behaviour)"

definition upd_bucket :: "nat \<Rightarrow> u32 \<Rightarrow> (ut_bucket \<Rightarrow> ut_bucket) \<Rightarrow> ('w, 'm, unit) hprog" where
  "upd_bucket t b f = bnd (bucket t b) (\<lambda>B. upd_tbl t (\<lambda>T. T\<lparr>ut_buckets := (ut_buckets T)[unat b := f B]\<rparr>))"

text \<open>\<open>uthash_fatal\<close> ends the program with \<open>exit(-1)\<close>.\<close>

abbreviation uthash_fatal :: "('s, 'a) prog" where
  "uthash_fatal \<equiv> assertion_failed"


section \<open>The hash function\<close>

text \<open>\<open>HASH_JEN_MIX\<close>, line by line.\<close>

definition HASH_JEN_MIX :: "u32 \<times> u32 \<times> u32 \<Rightarrow> u32 \<times> u32 \<times> u32" where
  "HASH_JEN_MIX = (\<lambda>(a, b, c).
     let a = (a - b - c) XOR drop_bit 13 c;
         b = (b - c - a) XOR push_bit 8 a;
         c = (c - a - b) XOR drop_bit 13 b;
         a = (a - b - c) XOR drop_bit 12 c;
         b = (b - c - a) XOR push_bit 16 a;
         c = (c - a - b) XOR drop_bit 5 b;
         a = (a - b - c) XOR drop_bit 3 c;
         b = (b - c - a) XOR push_bit 10 a;
         c = (c - a - b) XOR drop_bit 15 b
     in (a, b, c))"

text \<open>\<open>(unsigned)key[n] << k\<close>; the code reads no byte behind the length.\<close>

definition key_byte :: "string \<Rightarrow> nat \<Rightarrow> nat \<Rightarrow> u32" where
  "key_byte key n k = (if n < length key then push_bit k (of_char (key ! n)) else 0)"

definition key_word :: "string \<Rightarrow> nat \<Rightarrow> u32" where
  "key_word key n = key_byte key n 0 + key_byte key (n + 1) 8 + key_byte key (n + 2) 16 + key_byte key (n + 3) 24"

text \<open>The loop over blocks of twelve bytes: what is left of the key, and of its length.\<close>

function jen_blocks :: "string \<Rightarrow> nat \<Rightarrow> u32 \<times> u32 \<times> u32 \<Rightarrow> string \<times> nat \<times> u32 \<times> u32 \<times> u32" where
  "jen_blocks key k (i, j, h) =
     (if 12 \<le> k
      then jen_blocks (drop 12 key) (k - 12) (HASH_JEN_MIX (i + key_word key 0, j + key_word key 4, h + key_word key 8))
      else (key, k, i, j, h))"
  by pat_completeness auto
termination by (relation "measure (\<lambda>(key, k, m). k)") auto

text \<open>The \<open>switch\<close> whose cases fall through: case \<open>n\<close> is run when \<open>n\<close> bytes or more are left.\<close>

definition left_byte :: "string \<Rightarrow> nat \<Rightarrow> nat \<Rightarrow> nat \<Rightarrow> u32" where
  "left_byte key left n k = (if n \<le> left then key_byte key (n - 1) k else 0)"

definition HASH_JEN :: "string \<Rightarrow> u32 \<Rightarrow> u32" where
  "HASH_JEN key keylen =
     (case jen_blocks key (unat keylen) (0x9e3779b9, 0x9e3779b9, 0xfeedbeef) of (key, k, i, j, h) \<Rightarrow>
        let h = h + keylen + left_byte key k 11 24 + left_byte key k 10 16 + left_byte key k 9 8;
            j = j + left_byte key k 8 24 + left_byte key k 7 16 + left_byte key k 6 8 + left_byte key k 5 0;
            i = i + left_byte key k 4 24 + left_byte key k 3 16 + left_byte key k 2 8 + left_byte key k 1 0
        in snd (snd (HASH_JEN_MIX (i, j, h))))"

definition HASH_TO_BKT :: "u32 \<Rightarrow> u32 \<Rightarrow> u32" where
  "HASH_TO_BKT hashv num_bkts = hashv AND (num_bkts - 1)"



section \<open>Finding\<close>

text \<open>\<open>memcmp(a, b, n) == 0\<close>\<close>

definition memcmp_eq :: "string \<Rightarrow> string \<Rightarrow> u32 \<Rightarrow> ('s, bool) prog" where
  "memcmp_eq a b n =
     (if length a < unat n \<or> length b < unat n then undefined_behaviour else ret (take (unat n) a = take (unat n) b))"

definition HASH_FIND_IN_BKT :: "nat \<Rightarrow> u32 \<Rightarrow> string \<Rightarrow> u32 \<Rightarrow> u32 \<Rightarrow> ('w, 'm, elt option) hprog" where
  "HASH_FIND_IN_BKT t b keyptr keylen hashval = bnd (bucket t b) (\<lambda>B.
     loop (\<lambda>out. case out of
         None \<Rightarrow> ret (Inr None)
       | Some x \<Rightarrow> bnd (hh x) (\<lambda>h.
           bnd (if uh_hashv h = hashval \<and> uh_keylen h = keylen then memcmp_eq (uh_key h) keyptr keylen else ret False) (\<lambda>found.
           if found then ret (Inr (Some x)) else ret (Inl (uh_hh_next h)))))
       (ub_head B))"

definition HASH_FIND_BYHASHVALUE :: "elt option \<Rightarrow> string \<Rightarrow> u32 \<Rightarrow> u32 \<Rightarrow> ('w, 'm, elt option) hprog" where
  "HASH_FIND_BYHASHVALUE head keyptr keylen hashval =
     (if head \<noteq> None
      then bnd (head_tbl head) (\<lambda>t. bnd (tbl t) (\<lambda>T.
        HASH_FIND_IN_BKT t (HASH_TO_BKT hashval (num_buckets T)) keyptr keylen hashval))
      else ret None)"

definition HASH_FIND :: "elt option \<Rightarrow> string \<Rightarrow> u32 \<Rightarrow> ('w, 'm, elt option) hprog" where
  "HASH_FIND head keyptr keylen =
     (if head \<noteq> None then HASH_FIND_BYHASHVALUE head keyptr keylen (HASH_JEN keyptr keylen) else ret None)"

definition HASH_FIND_STR :: "elt option \<Rightarrow> string \<Rightarrow> ('w, 'm, elt option) hprog" where
  "HASH_FIND_STR head findstr = HASH_FIND head findstr (of_nat (length findstr))"


section \<open>Adding\<close>

definition HASH_INITIAL_NUM_BUCKETS :: nat where "HASH_INITIAL_NUM_BUCKETS = 32"
definition HASH_BKT_CAPACITY_THRESH :: u32 where "HASH_BKT_CAPACITY_THRESH = 10"
definition UT_TABLE_SIZE :: nat where "UT_TABLE_SIZE = 64"
definition UT_BUCKET_SIZE :: nat where "UT_BUCKET_SIZE = 16"
definition HASH_SIGNATURE :: u32 where "HASH_SIGNATURE = 0xa0111fe1"

text \<open>\<open>uthash_malloc\<close>, which does not return without the block.\<close>

definition uthash_malloc :: "'w os \<Rightarrow> nat \<Rightarrow> ('w, 'm, unit) lib" where
  "uthash_malloc os n = bnd (sys (os_malloc os n)) (\<lambda>r. case r of Inl _ \<Rightarrow> uthash_fatal | Inr _ \<Rightarrow> ret ())"

definition HASH_MAKE_TABLE :: "'w os \<Rightarrow> elt \<Rightarrow> ('w, 'm, unit) hprog" where
  "HASH_MAKE_TABLE os head = bnd (uthash_malloc os UT_TABLE_SIZE) (\<lambda>_. bnd (gets (\<lambda>s. length (tables s))) (\<lambda>t.
     bnd (modify (\<lambda>s. s\<lparr>tables := tables s @ [Some (ut_zero_table\<lparr>ut_tail := Some head,
       num_buckets := of_nat HASH_INITIAL_NUM_BUCKETS, log2_num_buckets := 5\<rparr>)]\<rparr>)) (\<lambda>_.
     bnd (upd_hh head (uh_tbl_update (\<lambda>_. Some t))) (\<lambda>_.
     bnd (uthash_malloc os (HASH_INITIAL_NUM_BUCKETS * UT_BUCKET_SIZE)) (\<lambda>_.
       upd_tbl t (\<lambda>T. T\<lparr>signature := HASH_SIGNATURE, ut_buckets := replicate HASH_INITIAL_NUM_BUCKETS zero_bucket\<rparr>))))))"

definition HASH_APPEND_LIST :: "elt option \<Rightarrow> elt \<Rightarrow> ('w, 'm, unit) hprog" where
  "HASH_APPEND_LIST head add = bnd (upd_hh add (uh_next_update (\<lambda>_. None))) (\<lambda>_.
     bnd (head_tbl head) (\<lambda>t. bnd (tbl t) (\<lambda>T.
     bnd (upd_hh add (uh_prev_update (\<lambda>_. ut_tail T))) (\<lambda>_.
     bnd (not_null (ut_tail T) (\<lambda>l. upd_hh l (uh_next_update (\<lambda>_. Some add)))) (\<lambda>_.
       upd_tbl t (ut_tail_update (\<lambda>_. Some add)))))))"

text \<open>
  Doubling. The new buckets are a local array until they replace the old ones. The inner loop
  moves the elements of one old bucket to the front of their new buckets.
\<close>

definition expand_move :: "nat \<Rightarrow> elt \<Rightarrow> ut_bucket list \<Rightarrow> ('w, 'm, elt option \<times> ut_bucket list) hprog" where
  "expand_move t thh new = bnd (hh thh) (\<lambda>h. bnd (tbl t) (\<lambda>T.
     let nxt = uh_hh_next h; b = unat (HASH_TO_BKT (uh_hashv h) (num_buckets T * 2)) in
     if length new \<le> b then undefined_behaviour
     else let B = (new ! b)\<lparr>ub_count := ub_count (new ! b) + 1\<rparr>; crowded = ideal_chain_maxlen T < ub_count B in
       bnd (if crowded then upd_tbl t (\<lambda>T. T\<lparr>nonideal_items := nonideal_items T + 1\<rparr>) else ret ()) (\<lambda>_.
       let B' = (if crowded \<and> ub_mult B * ideal_chain_maxlen T < ub_count B then B\<lparr>ub_mult := ub_mult B + 1\<rparr> else B) in
       bnd (upd_hh thh (\<lambda>h. h\<lparr>uh_hh_prev := None, uh_hh_next := ub_head B'\<rparr>)) (\<lambda>_.
       bnd (case ub_head B' of None \<Rightarrow> ret () | Some y \<Rightarrow> upd_hh y (uh_hh_prev_update (\<lambda>_. Some thh))) (\<lambda>_.
         ret (nxt, new[b := B'\<lparr>ub_head := Some thh\<rparr>]))))))"

definition expand_chain :: "nat \<Rightarrow> elt option \<Rightarrow> ut_bucket list \<Rightarrow> ('w, 'm, ut_bucket list) hprog" where
  "expand_chain t thh new = loop (\<lambda>(thh, new). case thh of
       None \<Rightarrow> ret (Inr new)
     | Some x \<Rightarrow> bnd (expand_move t x new) (\<lambda>r. ret (Inl r))) (thh, new)"

definition expand_all :: "nat \<Rightarrow> u32 \<Rightarrow> ut_bucket list \<Rightarrow> ('w, 'm, ut_bucket list) hprog" where
  "expand_all t i new = loop (\<lambda>(i, new). bnd (tbl t) (\<lambda>T.
     if i < num_buckets T
     then bnd (bucket t i) (\<lambda>B. bnd (expand_chain t (ub_head B) new) (\<lambda>new. ret (Inl (i + 1, new))))
     else ret (Inr new))) (i, new)"

text \<open>\<open>n / b\<close> rounded up, for the doubled number of buckets.\<close>

definition ideal_maxlen :: "ut_table \<Rightarrow> u32" where
  "ideal_maxlen T = drop_bit (unat (log2_num_buckets T + 1)) (num_items T) +
     (if num_items T AND (num_buckets T * 2 - 1) \<noteq> 0 then 1 else 0)"

definition HASH_EXPAND_BUCKETS :: "'w os \<Rightarrow> nat \<Rightarrow> ('w, 'm, unit) hprog" where
  "HASH_EXPAND_BUCKETS os t = bnd (tbl t) (\<lambda>T.
     bnd (uthash_malloc os (UT_BUCKET_SIZE * unat (num_buckets T) * 2)) (\<lambda>_.
     bnd (upd_tbl t (\<lambda>T. T\<lparr>ideal_chain_maxlen := ideal_maxlen T, nonideal_items := 0\<rparr>)) (\<lambda>_.
     bnd (expand_all t 0 (replicate (unat (num_buckets T) * 2) zero_bucket)) (\<lambda>new.
     bnd (upd_tbl t (\<lambda>T. T\<lparr>num_buckets := num_buckets T * 2, log2_num_buckets := log2_num_buckets T + 1, ut_buckets := new,
       ineff_expands := (if drop_bit 1 (num_items T) < nonideal_items T then ineff_expands T + 1 else 0)\<rparr>)) (\<lambda>_.
       upd_tbl t (\<lambda>T. if 1 < ineff_expands T then T\<lparr>noexpand := 1\<rparr> else T))))))"

definition HASH_ADD_TO_BKT :: "'w os \<Rightarrow> nat \<Rightarrow> u32 \<Rightarrow> elt \<Rightarrow> ('w, 'm, unit) hprog" where
  "HASH_ADD_TO_BKT os t b addhh = bnd (upd_bucket t b (\<lambda>B. B\<lparr>ub_count := ub_count B + 1\<rparr>)) (\<lambda>_.
     bnd (bucket t b) (\<lambda>B.
     bnd (upd_hh addhh (\<lambda>h. h\<lparr>uh_hh_next := ub_head B, uh_hh_prev := None\<rparr>)) (\<lambda>_.
     bnd (case ub_head B of None \<Rightarrow> ret () | Some y \<Rightarrow> upd_hh y (uh_hh_prev_update (\<lambda>_. Some addhh))) (\<lambda>_.
     bnd (upd_bucket t b (ub_head_update (\<lambda>_. Some addhh))) (\<lambda>_.
     bnd (bucket t b) (\<lambda>B. bnd (head_tbl (Some addhh)) (\<lambda>t'. bnd (tbl t') (\<lambda>T.
       if (ub_mult B + 1) * HASH_BKT_CAPACITY_THRESH \<le> ub_count B \<and> noexpand T = 0
       then HASH_EXPAND_BUCKETS os t'
       else ret ()))))))))"

definition HASH_ADD_TO_TABLE :: "'w os \<Rightarrow> elt option \<Rightarrow> u32 \<Rightarrow> elt \<Rightarrow> ('w, 'm, unit) hprog" where
  "HASH_ADD_TO_TABLE os head hashval add = bnd (head_tbl head) (\<lambda>t.
     bnd (upd_tbl t (\<lambda>T. T\<lparr>num_items := num_items T + 1\<rparr>)) (\<lambda>_. bnd (tbl t) (\<lambda>T.
       HASH_ADD_TO_BKT os t (HASH_TO_BKT hashval (num_buckets T)) add)))"

text \<open>The head is an lvalue: the value it gets is returned.\<close>

definition HASH_ADD_KEYPTR_BYHASHVALUE ::
  "'w os \<Rightarrow> elt option \<Rightarrow> string \<Rightarrow> u32 \<Rightarrow> u32 \<Rightarrow> elt \<Rightarrow> ('w, 'm, elt option) hprog" where
  "HASH_ADD_KEYPTR_BYHASHVALUE os head keyptr keylen hashval add =
     bnd (upd_hh add (\<lambda>h. h\<lparr>uh_hashv := hashval, uh_key := keyptr, uh_keylen := keylen\<rparr>)) (\<lambda>_.
     bnd (if head = None
          then bnd (upd_hh add (\<lambda>h. h\<lparr>uh_next := None, uh_prev := None\<rparr>)) (\<lambda>_.
            bnd (HASH_MAKE_TABLE os add) (\<lambda>_. ret (Some add)))
          else bnd (head_tbl head) (\<lambda>t. bnd (upd_hh add (uh_tbl_update (\<lambda>_. Some t))) (\<lambda>_.
            bnd (HASH_APPEND_LIST head add) (\<lambda>_. ret head)))) (\<lambda>head.
     bnd (HASH_ADD_TO_TABLE os head hashval add) (\<lambda>_. ret head)))"

definition HASH_ADD_KEYPTR :: "'w os \<Rightarrow> elt option \<Rightarrow> string \<Rightarrow> u32 \<Rightarrow> elt \<Rightarrow> ('w, 'm, elt option) hprog" where
  "HASH_ADD_KEYPTR os head keyptr keylen add =
     HASH_ADD_KEYPTR_BYHASHVALUE os head keyptr keylen (HASH_JEN keyptr keylen) add"

definition HASH_ADD_STR :: "'w os \<Rightarrow> elt option \<Rightarrow> string \<Rightarrow> elt \<Rightarrow> ('w, 'm, elt option) hprog" where
  "HASH_ADD_STR os head name add = HASH_ADD_KEYPTR os head name (of_nat (length name)) add"


section \<open>Deleting\<close>

definition HASH_DEL_IN_BKT :: "nat \<Rightarrow> u32 \<Rightarrow> elt \<Rightarrow> ('w, 'm, unit) hprog" where
  "HASH_DEL_IN_BKT t b delhh = bnd (upd_bucket t b (\<lambda>B. B\<lparr>ub_count := ub_count B - 1\<rparr>)) (\<lambda>_.
     bnd (bucket t b) (\<lambda>B. bnd (hh delhh) (\<lambda>h.
     bnd (if ub_head B = Some delhh then upd_bucket t b (ub_head_update (\<lambda>_. uh_hh_next h)) else ret ()) (\<lambda>_.
     bnd (case uh_hh_prev h of None \<Rightarrow> ret () | Some p \<Rightarrow> upd_hh p (uh_hh_next_update (\<lambda>_. uh_hh_next h))) (\<lambda>_.
     bnd (hh delhh) (\<lambda>h.
       case uh_hh_next h of None \<Rightarrow> ret () | Some n \<Rightarrow> upd_hh n (uh_hh_prev_update (\<lambda>_. uh_hh_prev h))))))))"

text \<open>The second half of a deletion, with the head as it is then.\<close>

definition hash_leave_bkt :: "elt option \<Rightarrow> u32 \<Rightarrow> elt \<Rightarrow> ('w, 'm, elt option) hprog" where
  "hash_leave_bkt head hashv del = bnd (head_tbl head) (\<lambda>t. bnd (tbl t) (\<lambda>T.
     bnd (HASH_DEL_IN_BKT t (HASH_TO_BKT hashv (num_buckets T)) del) (\<lambda>_.
     bnd (upd_tbl t (\<lambda>T. T\<lparr>num_items := num_items T - 1\<rparr>)) (\<lambda>_. ret head))))"

definition HASH_DELETE :: "elt option \<Rightarrow> elt \<Rightarrow> ('w, 'm, elt option) hprog" where
  "HASH_DELETE head del = bnd (hh del) (\<lambda>h. bnd (head_tbl head) (\<lambda>t.
     if uh_prev h = None \<and> uh_next h = None
     then bnd (tbl t) (\<lambda>_. bnd (modify (\<lambda>s. s\<lparr>tables := (tables s)[t := None]\<rparr>)) (\<lambda>_. ret None))
     else bnd (tbl t) (\<lambda>T.
       bnd (if ut_tail T = Some del
            then not_null (uh_prev h) (\<lambda>p. upd_tbl t (ut_tail_update (\<lambda>_. Some p))) else ret ()) (\<lambda>_.
       bnd (case uh_prev h of
              Some p \<Rightarrow> bnd (upd_hh p (uh_next_update (\<lambda>_. uh_next h))) (\<lambda>_. ret head)
            | None \<Rightarrow> ret (uh_next h)) (\<lambda>head.
       bnd (hh del) (\<lambda>h.
       bnd (case uh_next h of None \<Rightarrow> ret () | Some n \<Rightarrow> upd_hh n (uh_prev_update (\<lambda>_. uh_prev h))) (\<lambda>_.
         hash_leave_bkt head (uh_hashv h) del)))))))"


section \<open>Iteration and count\<close>

definition next_of :: "elt option \<Rightarrow> ('w, 'm, elt option) hprog" where
  "next_of p = (case p of None \<Rightarrow> ret None | Some x \<Rightarrow> bnd (hh x) (\<lambda>h. ret (uh_next h)))"

text \<open>The body may delete the element it is run on: the next one is read before.\<close>

definition HASH_ITER :: "elt option \<Rightarrow> (elt \<Rightarrow> ('w, 'm, unit) hprog) \<Rightarrow> ('w, 'm, unit) hprog" where
  "HASH_ITER head body = bnd (next_of head) (\<lambda>tmp.
     loop (\<lambda>(el, tmp). case el of
         None \<Rightarrow> ret (Inr ())
       | Some x \<Rightarrow> bnd (body x) (\<lambda>_. bnd (next_of tmp) (\<lambda>tmp'. ret (Inl (tmp, tmp'))))) (head, tmp))"

definition HASH_COUNT :: "elt option \<Rightarrow> ('w, 'm, u32) hprog" where
  "HASH_COUNT head = (if head = None then ret 0 else bnd (head_tbl head) (\<lambda>t. bnd (tbl t) (\<lambda>T. ret (num_items T))))"


section \<open>The integrity check\<close>

text \<open>\<open>HASH_FSCK\<close>, which \<open>HASH_DEBUG\<close> runs after every change: \<open>HASH_OOPS\<close> ends the program.\<close>

definition fsck_chain :: "elt option \<Rightarrow> elt option \<Rightarrow> u32 \<Rightarrow> ('w, 'm, u32) hprog" where
  "fsck_chain thh prev n = loop (\<lambda>(thh, prev, n). case thh of
       None \<Rightarrow> ret (Inr n)
     | Some x \<Rightarrow> bnd (hh x) (\<lambda>h. c_assert (uh_hh_prev h = prev) (ret (Inl (uh_hh_next h, Some x, n + 1))))) (thh, prev, n)"

definition fsck_buckets :: "nat \<Rightarrow> u32 \<Rightarrow> u32 \<Rightarrow> ('w, 'm, u32) hprog" where
  "fsck_buckets t i n = loop (\<lambda>(i, n). bnd (tbl t) (\<lambda>T.
     if i < num_buckets T
     then bnd (bucket t i) (\<lambda>B. bnd (fsck_chain (ub_head B) None 0) (\<lambda>k. c_assert (ub_count B = k) (ret (Inl (i + 1, n + k)))))
     else ret (Inr n))) (i, n)"

definition fsck_list :: "elt option \<Rightarrow> elt option \<Rightarrow> u32 \<Rightarrow> ('w, 'm, u32) hprog" where
  "fsck_list thh prev n = loop (\<lambda>(thh, prev, n). case thh of
       None \<Rightarrow> ret (Inr n)
     | Some x \<Rightarrow> bnd (hh x) (\<lambda>h. c_assert (uh_prev h = prev) (ret (Inl (uh_next h, Some x, n + 1))))) (thh, prev, n)"

definition HASH_FSCK :: "elt option \<Rightarrow> ('w, 'm, unit) hprog" where
  "HASH_FSCK head =
     (if head = None then ret ()
      else bnd (head_tbl head) (\<lambda>t.
        bnd (fsck_buckets t 0 0) (\<lambda>n. bnd (tbl t) (\<lambda>T. c_assert (n = num_items T) (
        bnd (fsck_list head None 0) (\<lambda>n. c_assert (n = num_items T) (ret ())))))))"

end
