(* ===== verification/Hash_Table_Macros.thy ===== *)
theory Hash_Table_Macros
  imports Hash_Table
begin

text \<open>
  The macros of \<open>include/uthash.h\<close> that the program does not expand: replacing, adding in order,
  sorting, selecting, clearing. They work on the store of \<open>Hash_Table\<close>. A comparison function
  of C is a function into the integers, and a condition one into the truth values; both may look
  at what the elements hold besides their handles, which no macro changes.
\<close>

section \<open>Replacing\<close>

text \<open>The new head, and the element that was replaced.\<close>

definition HASH_REPLACE_BYHASHVALUE ::
  "'w os \<Rightarrow> elt option \<Rightarrow> string \<Rightarrow> u32 \<Rightarrow> u32 \<Rightarrow> elt \<Rightarrow> ('w, 'm, elt option \<times> elt option) hprog" where
  "HASH_REPLACE_BYHASHVALUE os head fieldname keylen hashval add =
     bnd (HASH_FIND_BYHASHVALUE head fieldname keylen hashval) (\<lambda>replaced.
     bnd (case replaced of None \<Rightarrow> ret head | Some x \<Rightarrow> HASH_DELETE head x) (\<lambda>head.
     bnd (HASH_ADD_KEYPTR_BYHASHVALUE os head fieldname keylen hashval add) (\<lambda>head. ret (head, replaced))))"

definition HASH_REPLACE :: "'w os \<Rightarrow> elt option \<Rightarrow> string \<Rightarrow> u32 \<Rightarrow> elt \<Rightarrow> ('w, 'm, elt option \<times> elt option) hprog" where
  "HASH_REPLACE os head fieldname keylen add =
     HASH_REPLACE_BYHASHVALUE os head fieldname keylen (HASH_JEN fieldname keylen) add"

definition HASH_REPLACE_STR :: "'w os \<Rightarrow> elt option \<Rightarrow> string \<Rightarrow> elt \<Rightarrow> ('w, 'm, elt option \<times> elt option) hprog" where
  "HASH_REPLACE_STR os head strfield add = HASH_REPLACE os head strfield (of_nat (length strfield)) add"


section \<open>Adding in order\<close>

text \<open>The walk to the first element that comes behind the new one.\<close>

definition HASH_AKBI_INNER_LOOP :: "elt option \<Rightarrow> elt \<Rightarrow> (elt \<Rightarrow> elt \<Rightarrow> int) \<Rightarrow> ('w, 'm, elt option) hprog" where
  "HASH_AKBI_INNER_LOOP iter add cmpfcn = loop (\<lambda>iter. not_null iter (\<lambda>x.
     if cmpfcn x add > 0 then ret (Inr iter)
     else bnd (hh x) (\<lambda>h. if uh_next h = None then ret (Inr None) else ret (Inl (uh_next h))))) iter"

text \<open>The element is put before \<open>iter\<close>; the result is the head.\<close>

definition akbi_link :: "elt option \<Rightarrow> elt \<Rightarrow> elt option \<Rightarrow> ('w, 'm, elt option) hprog" where
  "akbi_link head add iter = (case iter of
       None \<Rightarrow> bnd (HASH_APPEND_LIST head add) (\<lambda>_. ret head)
     | Some x \<Rightarrow> bnd (upd_hh add (uh_next_update (\<lambda>_. Some x))) (\<lambda>_. bnd (hh x) (\<lambda>h.
         bnd (upd_hh add (uh_prev_update (\<lambda>_. uh_prev h))) (\<lambda>_.
         bnd (case uh_prev h of
                Some p \<Rightarrow> bnd (upd_hh p (uh_next_update (\<lambda>_. Some add))) (\<lambda>_. ret head)
              | None \<Rightarrow> ret (Some add)) (\<lambda>head.
         bnd (upd_hh x (uh_prev_update (\<lambda>_. Some add))) (\<lambda>_. ret head))))))"

definition HASH_ADD_KEYPTR_BYHASHVALUE_INORDER ::
  "'w os \<Rightarrow> elt option \<Rightarrow> string \<Rightarrow> u32 \<Rightarrow> u32 \<Rightarrow> elt \<Rightarrow> (elt \<Rightarrow> elt \<Rightarrow> int) \<Rightarrow> ('w, 'm, elt option) hprog" where
  "HASH_ADD_KEYPTR_BYHASHVALUE_INORDER os head keyptr keylen hashval add cmpfcn =
     bnd (upd_hh add (\<lambda>h. h\<lparr>uh_hashv := hashval, uh_key := keyptr, uh_keylen := keylen\<rparr>)) (\<lambda>_.
     bnd (if head = None
          then bnd (upd_hh add (\<lambda>h. h\<lparr>uh_next := None, uh_prev := None\<rparr>)) (\<lambda>_.
            bnd (HASH_MAKE_TABLE os add) (\<lambda>_. ret (Some add)))
          else bnd (head_tbl head) (\<lambda>t. bnd (upd_hh add (uh_tbl_update (\<lambda>_. Some t))) (\<lambda>_.
            bnd (HASH_AKBI_INNER_LOOP head add cmpfcn) (akbi_link head add)))) (\<lambda>head.
     bnd (HASH_ADD_TO_TABLE os head hashval add) (\<lambda>_. ret head)))"

definition HASH_ADD_KEYPTR_INORDER ::
  "'w os \<Rightarrow> elt option \<Rightarrow> string \<Rightarrow> u32 \<Rightarrow> elt \<Rightarrow> (elt \<Rightarrow> elt \<Rightarrow> int) \<Rightarrow> ('w, 'm, elt option) hprog" where
  "HASH_ADD_KEYPTR_INORDER os head keyptr keylen add cmpfcn =
     HASH_ADD_KEYPTR_BYHASHVALUE_INORDER os head keyptr keylen (HASH_JEN keyptr keylen) add cmpfcn"

definition HASH_REPLACE_BYHASHVALUE_INORDER ::
  "'w os \<Rightarrow> elt option \<Rightarrow> string \<Rightarrow> u32 \<Rightarrow> u32 \<Rightarrow> elt \<Rightarrow> (elt \<Rightarrow> elt \<Rightarrow> int) \<Rightarrow> ('w, 'm, elt option \<times> elt option) hprog" where
  "HASH_REPLACE_BYHASHVALUE_INORDER os head fieldname keylen hashval add cmpfcn =
     bnd (HASH_FIND_BYHASHVALUE head fieldname keylen hashval) (\<lambda>replaced.
     bnd (case replaced of None \<Rightarrow> ret head | Some x \<Rightarrow> HASH_DELETE head x) (\<lambda>head.
     bnd (HASH_ADD_KEYPTR_BYHASHVALUE_INORDER os head fieldname keylen hashval add cmpfcn) (\<lambda>head. ret (head, replaced))))"

definition HASH_REPLACE_INORDER ::
  "'w os \<Rightarrow> elt option \<Rightarrow> string \<Rightarrow> u32 \<Rightarrow> elt \<Rightarrow> (elt \<Rightarrow> elt \<Rightarrow> int) \<Rightarrow> ('w, 'm, elt option \<times> elt option) hprog" where
  "HASH_REPLACE_INORDER os head fieldname keylen add cmpfcn =
     HASH_REPLACE_BYHASHVALUE_INORDER os head fieldname keylen (HASH_JEN fieldname keylen) add cmpfcn"


section \<open>Sorting\<close>

text \<open>\<open>p->next\<close> for a pointer that is not null.\<close>

definition succ_of :: "elt option \<Rightarrow> ('w, 'm, elt option) hprog" where
  "succ_of p = not_null p (\<lambda>x. bnd (hh x) (\<lambda>h. ret (uh_next h)))"

text \<open>Steps over \<open>insize\<close> elements, as far as there are so many: what is behind, and their number.\<close>

definition sort_run :: "u32 \<Rightarrow> elt option \<Rightarrow> ('w, 'm, elt option \<times> u32) hprog" where
  "sort_run insize p = loop (\<lambda>(i, q, psize).
     if i < insize
     then bnd (succ_of q) (\<lambda>q. if q = None then ret (Inr (q, psize + 1)) else ret (Inl (i + 1, q, psize + 1)))
     else ret (Inr (q, psize))) (0, p, 0)"

text \<open>The next element of the two runs, with \<open>p\<close>, \<open>psize\<close>, \<open>q\<close>, \<open>qsize\<close> behind it.\<close>

definition sort_take ::
  "(elt \<Rightarrow> elt \<Rightarrow> int) \<Rightarrow> elt option \<Rightarrow> u32 \<Rightarrow> elt option \<Rightarrow> u32 \<Rightarrow>
   ('w, 'm, elt option \<times> elt option \<times> u32 \<times> elt option \<times> u32) hprog" where
  "sort_take cmpfcn p psize q qsize =
     (if psize = 0 then bnd (succ_of q) (\<lambda>q'. ret (q, p, psize, q', qsize - 1))
      else if qsize = 0 \<or> q = None then bnd (next_of p) (\<lambda>p'. ret (p, p', psize - 1, q, qsize))
      else not_null p (\<lambda>x. not_null q (\<lambda>y.
        if cmpfcn x y \<le> 0 then bnd (next_of p) (\<lambda>p'. ret (p, p', psize - 1, q, qsize))
        else bnd (succ_of q) (\<lambda>q'. ret (q, p, psize, q', qsize - 1)))))"

text \<open>Puts it behind the tail of the sorted list.\<close>

definition sort_link :: "elt option \<Rightarrow> elt option \<Rightarrow> elt option \<Rightarrow> ('w, 'm, elt option) hprog" where
  "sort_link e list tail =
     bnd (case tail of Some t \<Rightarrow> bnd (upd_hh t (uh_next_update (\<lambda>_. e))) (\<lambda>_. ret list) | None \<Rightarrow> ret e) (\<lambda>list.
     bnd (case e of None \<Rightarrow> ret () | Some x \<Rightarrow> upd_hh x (uh_prev_update (\<lambda>_. tail))) (\<lambda>_. ret list))"

definition sort_merge ::
  "(elt \<Rightarrow> elt \<Rightarrow> int) \<Rightarrow> elt option \<Rightarrow> u32 \<Rightarrow> elt option \<Rightarrow> u32 \<Rightarrow> elt option \<Rightarrow> elt option \<Rightarrow>
   ('w, 'm, elt option \<times> elt option \<times> elt option) hprog" where
  "sort_merge cmpfcn p psize q qsize list tail = loop (\<lambda>(p, psize, q, qsize, list, tail).
     if psize \<noteq> 0 \<or> qsize \<noteq> 0 \<and> q \<noteq> None
     then bnd (sort_take cmpfcn p psize q qsize) (\<lambda>(e, p, psize, q, qsize).
       bnd (sort_link e list tail) (\<lambda>list. ret (Inl (p, psize, q, qsize, list, e))))
     else ret (Inr (q, list, tail))) (p, psize, q, qsize, list, tail)"

text \<open>One pass over the list: the new list, its tail, and the number of merges.\<close>

definition sort_pass ::
  "(elt \<Rightarrow> elt \<Rightarrow> int) \<Rightarrow> u32 \<Rightarrow> elt option \<Rightarrow> elt option \<Rightarrow> elt option \<Rightarrow> u32 \<Rightarrow>
   ('w, 'm, elt option \<times> elt option \<times> u32) hprog" where
  "sort_pass cmpfcn insize p list tail nmerges = loop (\<lambda>(p, list, tail, nmerges).
     if p = None then ret (Inr (list, tail, nmerges))
     else bnd (sort_run insize p) (\<lambda>(q, psize).
       bnd (sort_merge cmpfcn p psize q insize list tail) (\<lambda>(p, list, tail). ret (Inl (p, list, tail, nmerges + 1)))))
     (p, list, tail, nmerges)"

definition sort_passes :: "(elt \<Rightarrow> elt \<Rightarrow> int) \<Rightarrow> elt option \<Rightarrow> elt option \<Rightarrow> u32 \<Rightarrow> ('w, 'm, elt option) hprog" where
  "sort_passes cmpfcn head list insize = loop (\<lambda>(list, insize).
     bnd (sort_pass cmpfcn insize list None None 0) (\<lambda>(list, tail, nmerges).
     bnd (case tail of None \<Rightarrow> ret () | Some t \<Rightarrow> upd_hh t (uh_next_update (\<lambda>_. None))) (\<lambda>_.
     if nmerges \<le> 1
     then bnd (head_tbl head) (\<lambda>t. bnd (upd_tbl t (ut_tail_update (\<lambda>_. tail))) (\<lambda>_. ret (Inr list)))
     else ret (Inl (list, insize * 2))))) (list, insize)"

definition HASH_SRT :: "(elt \<Rightarrow> elt \<Rightarrow> int) \<Rightarrow> elt option \<Rightarrow> ('w, 'm, elt option) hprog" where
  "HASH_SRT cmpfcn head = (if head = None then ret None else sort_passes cmpfcn head head 1)"


section \<open>Selecting\<close>

text \<open>
  An element that is selected has a second handle. A handle is named by the element that holds
  it, so such an element has two names: \<open>dst_of\<close> gives the one that stands for its second
  handle, by which the table of the selected elements refers to it.
\<close>

definition select_bucket :: "'w os \<Rightarrow> elt \<Rightarrow> elt option \<Rightarrow> ('w, 'm, elt option) hprog" where
  "select_bucket os x dst =
     bnd (head_tbl (Some x)) (\<lambda>t. bnd (tbl t) (\<lambda>T. bnd (hh x) (\<lambda>d.
     bnd (HASH_ADD_TO_BKT os t (HASH_TO_BKT (uh_hashv d) (num_buckets T)) x) (\<lambda>_.
     bnd (head_tbl dst) (\<lambda>t. bnd (upd_tbl t (\<lambda>T. T\<lparr>num_items := num_items T + 1\<rparr>)) (\<lambda>_. ret dst))))))"

definition select_one ::
  "'w os \<Rightarrow> (elt \<Rightarrow> elt) \<Rightarrow> elt \<Rightarrow> elt option \<Rightarrow> elt option \<Rightarrow> ('w, 'm, elt option) hprog" where
  "select_one os dst_of src_hh dst last_elt =
     bnd (hh src_hh) (\<lambda>h. let x = dst_of src_hh in
     bnd (upd_hh x (\<lambda>d. d\<lparr>uh_key := uh_key h, uh_keylen := uh_keylen h, uh_hashv := uh_hashv h, uh_prev := last_elt, uh_next := None\<rparr>)) (\<lambda>_.
     bnd (case last_elt of None \<Rightarrow> ret () | Some l \<Rightarrow> upd_hh l (uh_next_update (\<lambda>_. Some x))) (\<lambda>_.
     bnd (if dst = None then bnd (HASH_MAKE_TABLE os x) (\<lambda>_. ret (Some x))
          else bnd (head_tbl dst) (\<lambda>t. bnd (upd_hh x (uh_tbl_update (\<lambda>_. Some t))) (\<lambda>_. ret dst)))
     (select_bucket os x))))"

definition select_chain ::
  "'w os \<Rightarrow> (elt \<Rightarrow> elt) \<Rightarrow> (elt \<Rightarrow> bool) \<Rightarrow> elt option \<Rightarrow> elt option \<Rightarrow> elt option \<Rightarrow> ('w, 'm, elt option \<times> elt option) hprog" where
  "select_chain os dst_of cond src_hh dst last_elt = loop (\<lambda>(src_hh, dst, last_elt). case src_hh of
       None \<Rightarrow> ret (Inr (dst, last_elt))
     | Some y \<Rightarrow> bnd (if cond y then bnd (select_one os dst_of y dst last_elt) (\<lambda>dst. ret (dst, Some (dst_of y)))
                       else ret (dst, last_elt)) (\<lambda>(dst, last_elt).
         bnd (hh y) (\<lambda>h. ret (Inl (uh_hh_next h, dst, last_elt))))) (src_hh, dst, last_elt)"

definition select_buckets ::
  "'w os \<Rightarrow> (elt \<Rightarrow> elt) \<Rightarrow> (elt \<Rightarrow> bool) \<Rightarrow> elt option \<Rightarrow> u32 \<Rightarrow> elt option \<Rightarrow> elt option \<Rightarrow> ('w, 'm, elt option) hprog" where
  "select_buckets os dst_of cond src i dst last_elt = loop (\<lambda>(i, dst, last_elt).
     bnd (head_tbl src) (\<lambda>t. bnd (tbl t) (\<lambda>T.
       if i < num_buckets T
       then bnd (bucket t i) (\<lambda>B. bnd (select_chain os dst_of cond (ub_head B) dst last_elt) (\<lambda>(dst, last_elt).
         ret (Inl (i + 1, dst, last_elt))))
       else ret (Inr dst)))) (i, dst, last_elt)"

definition HASH_SELECT ::
  "'w os \<Rightarrow> (elt \<Rightarrow> elt) \<Rightarrow> elt option \<Rightarrow> elt option \<Rightarrow> (elt \<Rightarrow> bool) \<Rightarrow> ('w, 'm, elt option) hprog" where
  "HASH_SELECT os dst_of dst src cond =
     (if src = None then ret dst else select_buckets os dst_of cond src 0 dst None)"


section \<open>Clearing and size\<close>

definition HASH_CLEAR :: "elt option \<Rightarrow> ('w, 'm, elt option) hprog" where
  "HASH_CLEAR head =
     (if head = None then ret None
      else bnd (head_tbl head) (\<lambda>t. bnd (tbl t) (\<lambda>_. bnd (modify (\<lambda>s. s\<lparr>tables := (tables s)[t := None]\<rparr>)) (\<lambda>_. ret None))))"

definition UT_HANDLE_SIZE :: nat where "UT_HANDLE_SIZE = 56"

text \<open>The products with \<open>sizeof\<close> are of type \<open>size_t\<close>.\<close>

definition HASH_OVERHEAD :: "elt option \<Rightarrow> ('w, 'm, 64 word) hprog" where
  "HASH_OVERHEAD head =
     (if head = None then ret 0
      else bnd (head_tbl head) (\<lambda>t. bnd (tbl t) (\<lambda>T.
        ret (ucast (num_items T) * of_nat UT_HANDLE_SIZE + ucast (num_buckets T) * of_nat UT_BUCKET_SIZE + of_nat UT_TABLE_SIZE))))"

end
