(* ===== verification/Bottom_Up_Sort.thy ===== *)
theory Bottom_Up_Sort
  imports "HOL-Library.Sorting_Algorithms"
begin

text \<open>
  Bottom-up merge sort on lists, as \<open>HASH_SRT\<close> does it on linked lists: a pass merges the runs of
  length \<open>k\<close> two by two, and the next pass works on runs of twice the length. It is the stable
  sort of the library.
\<close>

section \<open>Merging\<close>

text \<open>A comparison function of C orders as the comparator does; only the sign is looked at.\<close>

definition orders_as :: "('a \<Rightarrow> 'a \<Rightarrow> int) \<Rightarrow> 'a comparator \<Rightarrow> bool" where
  "orders_as f C \<longleftrightarrow> (\<forall>x y. f x y \<le> 0 \<longleftrightarrow> compare C x y \<noteq> Greater)"

lemma orders_asD: "orders_as f C \<Longrightarrow> f x y \<le> 0 \<longleftrightarrow> compare C x y \<noteq> Greater"
  by (simp add: orders_as_def)

fun merged :: "('a \<Rightarrow> 'a \<Rightarrow> int) \<Rightarrow> 'a list \<Rightarrow> 'a list \<Rightarrow> 'a list" where
  "merged f [] qs = qs"
| "merged f (p # ps) [] = p # ps"
| "merged f (p # ps) (q # qs) = (if f p q \<le> 0 then p # merged f ps (q # qs) else q # merged f (p # ps) qs)"

lemma merged_Nil [simp]: "merged f ps [] = ps"
  by (cases ps) simp_all

lemma mset_merged [simp]: "mset (merged f ps qs) = mset ps + mset qs"
  by (induction f ps qs rule: merged.induct) simp_all

lemma set_merged [simp]: "set (merged f ps qs) = set ps \<union> set qs"
  by (induction f ps qs rule: merged.induct) auto

lemma length_merged [simp]: "length (merged f ps qs) = length ps + length qs"
  by (induction f ps qs rule: merged.induct) simp_all

lemma distinct_merged: "distinct (merged f ps qs) \<longleftrightarrow> distinct (ps @ qs)"
  by (induction f ps qs rule: merged.induct) auto

lemma sorted_Cons_iff: "sorted C (x # xs) \<longleftrightarrow> sorted C xs \<and> (\<forall>y \<in> set xs. compare C x y \<noteq> Greater)"
  using sorted_Cons_imp_sorted [of C x xs] sorted_Cons_imp_not_less [of C x xs] by (auto intro: sorted_ConsI)

lemma sorted_merged:
  "orders_as f C \<Longrightarrow> sorted C ps \<Longrightarrow> sorted C qs \<Longrightarrow> sorted C (merged f ps qs)"
proof (induction f ps qs rule: merged.induct)
  case (3 f p ps q qs)
  show ?case
  proof (cases "compare C p q = Greater")
    case False
    then show ?thesis using "3" orders_asD [OF "3.prems"(1), of p q] by (auto simp: sorted_Cons_iff dest: compare.trans_not_greater)
  next
    case True
    then have "compare C q p \<noteq> Greater" using compare.asym_less [of C q p] by (auto simp: compare.greater_iff_sym_less)
    with True show ?thesis using "3" orders_asD [OF "3.prems"(1), of p q] by (auto simp: sorted_Cons_iff dest: compare.trans_not_greater)
  qed
qed simp_all

text \<open>Elements that are equivalent keep their order.\<close>

abbreviation same :: "'a comparator \<Rightarrow> 'a \<Rightarrow> 'a list \<Rightarrow> 'a list" where
  "same C x xs \<equiv> filter (\<lambda>y. compare C x y = Equiv) xs"

lemma same_merged:
  "orders_as f C \<Longrightarrow> sorted C ps \<Longrightarrow> same C x (merged f ps qs) = same C x ps @ same C x qs"
proof (induction f ps qs rule: merged.induct)
  case (3 f p ps q qs)
  show ?case
  proof (cases "compare C p q = Greater")
    case False
    then show ?thesis using "3" orders_asD [OF "3.prems"(1), of p q] by (auto simp: sorted_Cons_iff)
  next
    case True
    have "same C x (p # ps) = []" if "compare C x q = Equiv"
    proof -
      have "compare C y q = Greater" if "y \<in> set (p # ps)" for y
      proof (rule ccontr)
        assume "compare C y q \<noteq> Greater"
        moreover have "compare C p y \<noteq> Greater" using that "3.prems"(2) by (auto simp: sorted_Cons_iff)
        ultimately show False using True compare.trans_not_greater [of C p y q] by simp
      qed
      moreover have "compare C y q = Equiv" if "compare C x y = Equiv" for y
        using that \<open>compare C x q = Equiv\<close> compare.sym [of C y x] compare.trans_equiv [of C y x q] by simp
      ultimately have "\<forall>y \<in> set (p # ps). compare C x y \<noteq> Equiv" by force
      then show ?thesis by (simp only: filter_empty_conv)
    qed
    moreover have "merged f (p # ps) (q # qs) = q # merged f (p # ps) qs" "\<not> f p q \<le> 0"
      using True orders_asD [OF "3.prems"(1), of p q] by simp_all
    moreover from this(2) "3.IH"(2) "3.prems" have "same C x (merged f (p # ps) qs) = same C x (p # ps) @ same C x qs"
      by (simp add: sorted_Cons_imp_sorted del: filter.simps)
    ultimately show ?thesis by (cases "compare C x q = Equiv") (simp_all only: filter.simps(2) [of _ q] if_True if_False append_Nil simp_thms)
  qed
qed simp_all


section \<open>Passes\<close>

function pass :: "('a \<Rightarrow> 'a \<Rightarrow> int) \<Rightarrow> nat \<Rightarrow> 'a list \<Rightarrow> 'a list" where
  "pass f k xs = (if xs = [] \<or> k = 0 then []
     else merged f (take k xs) (take k (drop k xs)) @ pass f k (drop k (drop k xs)))"
  by pat_completeness auto
termination by (relation "measure (\<lambda>(f, k, xs). length xs)") auto

fun sorted_runs :: "'a comparator \<Rightarrow> nat \<Rightarrow> 'a list \<Rightarrow> bool" where
  "sorted_runs C 0 xs = True"
| "sorted_runs C (Suc k) [] = True"
| "sorted_runs C (Suc k) (x # xs) = (sorted C (take (Suc k) (x # xs)) \<and> sorted_runs C (Suc k) (drop k xs))"

declare pass.simps [simp del]

lemma pass_simps [simp]: "pass f k [] = []"
  by (simp add: pass.simps)

lemma sorted_runs_Nil [simp]: "sorted_runs C k []"
  by (cases k) simp_all

lemma sorted_runs_unfold: "0 < k \<Longrightarrow> sorted_runs C k xs \<longleftrightarrow> xs = [] \<or> sorted C (take k xs) \<and> sorted_runs C k (drop k xs)"
  by (cases k; cases xs) simp_all

lemma pass_unfold: "0 < k \<Longrightarrow> pass f k xs = merged f (take k xs) (take k (drop k xs)) @ pass f k (drop k (drop k xs))"
  by (cases "xs = []") (simp_all add: pass.simps [of f k xs])

lemma mset_pass: "0 < k \<Longrightarrow> mset (pass f k xs) = mset xs"
proof (induction f k xs rule: pass.induct)
  case (1 f k xs)
  have "mset xs = mset (take k xs) + (mset (take k (drop k xs)) + mset (drop k (drop k xs)))"
    by (metis append_take_drop_id mset_append)
  with 1 show ?case by (cases "xs = []") (simp_all add: pass_unfold [of k f xs])
qed

lemma same_pass: "0 < k \<Longrightarrow> orders_as f C \<Longrightarrow> sorted_runs C k xs \<Longrightarrow> same C x (pass f k xs) = same C x xs"
proof (induction f k xs rule: pass.induct)
  case (1 f k xs)
  show ?case
  proof (cases "xs = []")
    case False
    have runs: "sorted C (take k xs)" "sorted_runs C k (drop k (drop k xs))"
      using "1.prems"(3) sorted_runs_unfold [OF "1.prems"(1), of C] False by (metis drop_eq_Nil drop_Nil)+
    have "same C x xs = same C x (take k xs) @ same C x (take k (drop k xs)) @ same C x (drop k (drop k xs))"
      by (metis append_take_drop_id filter_append)
    then show ?thesis using 1 False runs by (simp add: pass_unfold [of k f xs] same_merged)
  qed simp
qed

lemma runs_pass: "0 < k \<Longrightarrow> orders_as f C \<Longrightarrow> sorted_runs C k xs \<Longrightarrow> sorted_runs C (k + k) (pass f k xs)"
proof (induction f k xs rule: pass.induct)
  case (1 f k xs)
  show ?case
  proof (cases "xs = []")
    case False
    let ?m = "merged f (take k xs) (take k (drop k xs))" and ?r = "pass f k (drop k (drop k xs))"
    have runs: "sorted C (take k xs)" "sorted_runs C k (drop k xs)"
      using "1.prems"(3) sorted_runs_unfold [OF "1.prems"(1), of C xs] False by simp_all
    then have runs2: "sorted C (take k (drop k xs))" "sorted_runs C k (drop k (drop k xs))"
      using sorted_runs_unfold [OF "1.prems"(1), of C "drop k xs"] by auto
    have m: "sorted C ?m" using "1.prems"(2) runs(1) runs2(1) by (rule sorted_merged)
    have r: "sorted_runs C (k + k) ?r" using "1.IH" "1.prems"(1,2) runs2(2) False by simp
    have split: "take (k + k) (?m @ ?r) = ?m \<and> drop (k + k) (?m @ ?r) = ?r"
    proof (cases "k + k \<le> length xs")
      case True
      then have "length ?m = k + k" by simp
      then show ?thesis by simp
    next
      case False
      then have "drop k (drop k xs) = []" "length ?m \<le> k + k" by simp_all
      then show ?thesis by simp
    qed
    have "0 < k + k" using "1.prems"(1) by simp
    then show ?thesis
      unfolding pass_unfold [OF "1.prems"(1), of f xs] sorted_runs_unfold [OF \<open>0 < k + k\<close>, of C "?m @ ?r"]
      using m r split by (simp only: simp_thms)
  qed simp
qed

text \<open>The number of merges of a pass.\<close>

function merges :: "nat \<Rightarrow> 'a list \<Rightarrow> nat" where
  "merges k xs = (if xs = [] \<or> k = 0 then 0 else Suc (merges k (drop k (drop k xs))))"
  by pat_completeness auto
termination by (relation "measure (\<lambda>(k, xs). length xs)") auto

declare merges.simps [simp del]

lemma merges_Nil [simp]: "merges k [] = 0"
  by (simp add: merges.simps)

lemma merges_le: "merges k xs \<le> length xs"
proof (induction k xs rule: merges.induct)
  case (1 k xs)
  show ?case
  proof (cases "xs = [] \<or> k = 0")
    case False
    then have "merges k xs = Suc (merges k (drop k (drop k xs)))" "length (drop k (drop k xs)) < length xs"
      by (simp_all add: merges.simps [of k xs])
    with 1 [OF False] show ?thesis by (simp only: Suc_le_eq le_less_trans)
  qed (simp add: merges.simps [of k xs])
qed

lemma merges_1: "0 < k \<Longrightarrow> merges k xs \<le> 1 \<longleftrightarrow> length xs \<le> k + k"
  by (auto simp: merges.simps [of k xs] merges.simps [of k "drop (k + k) xs"])

lemma length_pass [simp]: "0 < k \<Longrightarrow> length (pass f k xs) = length xs"
  by (metis mset_pass size_mset)

text \<open>All passes, from runs of length \<open>k\<close> on.\<close>

function bottom_up :: "('a \<Rightarrow> 'a \<Rightarrow> int) \<Rightarrow> nat \<Rightarrow> 'a list \<Rightarrow> 'a list" where
  "bottom_up f k xs = (if k = 0 \<or> length xs \<le> k + k then pass f k xs else bottom_up f (k + k) (pass f k xs))"
  by pat_completeness auto
termination by (relation "measure (\<lambda>(f, k, xs). length xs - k)") auto

declare bottom_up.simps [simp del]

lemma mset_bottom_up: "0 < k \<Longrightarrow> mset (bottom_up f k xs) = mset xs"
proof (induction f k xs rule: bottom_up.induct)
  case (1 f k xs)
  then show ?case by (cases "length xs \<le> k + k") (simp_all add: bottom_up.simps [of f k xs] mset_pass)
qed

lemma bottom_up_sorts:
  "0 < k \<Longrightarrow> orders_as f C \<Longrightarrow> sorted_runs C k xs \<Longrightarrow>
    mset (bottom_up f k xs) = mset xs \<and> sorted C (bottom_up f k xs) \<and> same C x (bottom_up f k xs) = same C x xs"
proof (induction f k xs rule: bottom_up.induct)
  case (1 f k xs)
  show ?case
  proof (cases "length xs \<le> k + k")
    case True
    have "sorted_runs C (k + k) (pass f k xs)" using 1 by (intro runs_pass)
    then have "sorted C (pass f k xs)"
      using True "1.prems"(1) sorted_runs_unfold [of "k + k" C "pass f k xs"] by auto
    then show ?thesis using True 1 by (simp add: bottom_up.simps [of f k xs] mset_pass same_pass)
  next
    case False
    then show ?thesis using 1 runs_pass [of k f C xs] by (simp add: bottom_up.simps [of f k xs] mset_pass same_pass)
  qed
qed

lemma sorted_runs_1: "sorted_runs C (Suc 0) xs"
  by (induction xs) simp_all

text \<open>It is the stable sort.\<close>

lemma bottom_up_sort:
  assumes "orders_as f C"
  shows "bottom_up f (Suc 0) xs = Sorting_Algorithms.sort C xs"
proof -
  note * = bottom_up_sorts [OF zero_less_Suc assms sorted_runs_1]
  show ?thesis by (rule sym, rule sort_eqI) (use * in auto)
qed

end
