(* ===== verification/Hash_Table_Lemmas.thy ===== *)
theory Hash_Table_Lemmas
  imports Hash_Table Symbol_Lemmas
begin

text \<open>
  What a hash table stands for: the list of its elements in the order of insertion. The
  invariant says that both kinds of linked lists are well formed and that every element is in
  the chain of its bucket, and each operation keeps it.
\<close>

section \<open>Doubly linked lists\<close>

fun first :: "'a list \<Rightarrow> 'a option \<Rightarrow> 'a option" where
  "first [] q = q"
| "first (x # xs) q = Some x"

text \<open>A segment between \<open>p\<close> and \<open>q\<close>, for the functions that give the two neighbours.\<close>

fun dseg :: "('a \<Rightarrow> 'a option) \<Rightarrow> ('a \<Rightarrow> 'a option) \<Rightarrow> 'a option \<Rightarrow> 'a list \<Rightarrow> 'a option \<Rightarrow> bool" where
  "dseg pr nx p [] q = True"
| "dseg pr nx p (x # xs) q = (pr x = p \<and> nx x = first xs q \<and> dseg pr nx (Some x) xs q)"

definition final :: "'a option \<Rightarrow> 'a list \<Rightarrow> 'a option" where
  "final p xs = (if xs = [] then p else Some (last xs))"

lemma final_simps [simp]: "final p [] = p" "final p (x # xs) = final (Some x) xs" "final p (xs @ [x]) = Some x"
  by (simp_all add: final_def)

lemma first_append: "first (xs @ ys) q = first xs (first ys q)"
  by (cases xs) simp_all

lemma first_None [simp]: "first xs None = None \<longleftrightarrow> xs = []"
  by (cases xs) simp_all

lemma first_SomeD: "first xs None = Some x \<Longrightarrow> x \<in> set xs"
  by (cases xs) simp_all

lemma dseg_append: "dseg pr nx p (xs @ ys) q \<longleftrightarrow> dseg pr nx p xs (first ys q) \<and> dseg pr nx (final p xs) ys q"
  by (induction xs arbitrary: p) (auto simp: first_append)

lemma dseg_cong:
  "dseg pr nx p xs q \<Longrightarrow> \<forall>x \<in> set xs. pr' x = pr x \<and> nx' x = nx x \<Longrightarrow> dseg pr' nx' p xs q"
  by (induction xs arbitrary: p) simp_all

lemma dseg_push:
  assumes "dseg pr nx None ys None" "distinct (x # ys)" "pr' x = None" "nx' x = first ys None"
    and "\<forall>z \<in> set ys. nx' z = nx z \<and> pr' z = (if first ys None = Some z then Some x else pr z)"
  shows "dseg pr' nx' None (x # ys) None"
proof (cases ys)
  case (Cons y zs)
  have "dseg pr' nx' (Some y) zs None"
    using assms(1,2,5) by (rule_tac dseg_cong [of pr nx]) (auto simp: Cons)
  with assms Cons show ?thesis by simp
qed (use assms in simp)

lemma dseg_snoc:
  assumes "dseg pr nx p (ys @ [l]) None" "distinct (ys @ [l, x])" "pr' x = Some l" "nx' x = None"
    and "\<forall>z \<in> set (ys @ [l]). pr' z = pr z \<and> nx' z = (if z = l then Some x else nx z)"
  shows "dseg pr' nx' p (ys @ [l, x]) None"
proof -
  have "dseg pr' nx' p ys (Some l)"
    using assms(1,2,5) by (rule_tac dseg_cong [of pr nx]) (auto simp: dseg_append)
  with assms show ?thesis by (auto simp: dseg_append)
qed

lemma dseg_remove:
  assumes "dseg pr nx None (as @ x # bs) None" "distinct (as @ x # bs)"
    and "\<forall>z \<in> set (as @ bs). nx' z = (if pr x = Some z then nx x else nx z) \<and> pr' z = (if nx x = Some z then pr x else pr z)"
  shows "dseg pr' nx' None (as @ bs) None"
proof -
  have seg: "dseg pr nx None as (Some x)" "pr x = final None as" "nx x = first bs None" "dseg pr nx (Some x) bs None"
    using assms(1) by (simp_all add: dseg_append)
  have outside: "as \<noteq> [] \<Longrightarrow> last as \<notin> set bs"
    using assms(2) last_in_set [of as] by (auto simp: disjoint_iff)
  have "dseg pr' nx' None as (first bs None)"
  proof (cases as rule: rev_cases)
    case (snoc zs l)
    have "dseg pr' nx' None zs (Some l)"
      using seg(1) assms(2,3) by (rule_tac dseg_cong [of pr nx]) (auto simp: snoc dseg_append seg(2,3) dest: first_SomeD)
    moreover have "nx' l = first bs None" "pr' l = final None zs"
      using seg(1) assms(2,3) by (auto simp: snoc dseg_append seg(2,3) dest: first_SomeD)
    ultimately show ?thesis by (simp add: snoc dseg_append)
  qed simp
  moreover have "dseg pr' nx' (final None as) bs None"
  proof (cases bs)
    case (Cons y zs)
    have "dseg pr' nx' (Some y) zs None"
      using seg(4) assms(2,3) outside by (rule_tac dseg_cong [of pr nx]) (auto simp: Cons seg(2,3) final_def)
    moreover have "pr' y = final None as" "nx' y = first zs None"
      using seg(4) assms(2,3) outside by (auto simp: Cons seg(2,3) final_def)
    ultimately show ?thesis by (simp add: Cons)
  qed simp
  ultimately show ?thesis by (simp add: dseg_append)
qed


section \<open>Rules for the store\<close>

lemma wp_hh [wp_simps]: "wp (hh x) Q s = (case handles s x of None \<Rightarrow> False | Some h \<Rightarrow> Q h s)"
  by (simp add: wp_def hh_def split: option.splits)

lemma wp_upd_hh [wp_simps]:
  "wp (upd_hh x f) Q s = (case handles s x of None \<Rightarrow> False | Some h \<Rightarrow> Q () (s\<lparr>handles := (handles s)(x := Some (f h))\<rparr>))"
  by (simp add: wp_def upd_hh_def split: option.splits)

lemma wp_tbl [wp_simps]: "wp (tbl t) Q s = (case table_at (tables s) t of None \<Rightarrow> False | Some T \<Rightarrow> Q T s)"
  by (simp add: wp_def tbl_def split: option.splits)

lemma wp_upd_tbl [wp_simps]:
  "wp (upd_tbl t f) Q s = (case table_at (tables s) t of None \<Rightarrow> False
     | Some T \<Rightarrow> Q () (s\<lparr>tables := (tables s)[t := Some (f T)]\<rparr>))"
  by (simp add: wp_def upd_tbl_def split: option.splits)

lemma table_at_update [simp]:
  "table_at ts t = Some T \<Longrightarrow> table_at (ts[t := x]) u = (if u = t then x else table_at ts u)"
  by (auto simp: table_at_def split: if_splits)

lemma table_at_append [simp]:
  "table_at (ts @ [x]) u = (if u = length ts then x else table_at ts u)"
  by (auto simp: table_at_def nth_append)

lemma wp_bucket [wp_simps]:
  "wp (bucket t b) Q s = (case table_at (tables s) t of None \<Rightarrow> False
     | Some T \<Rightarrow> unat b < length (ut_buckets T) \<and> Q (ut_buckets T ! unat b) s)"
  by (auto simp: bucket_def wp_simps split: option.splits)

lemma wp_upd_bucket [wp_simps]:
  "wp (upd_bucket t b f) Q s = (case table_at (tables s) t of None \<Rightarrow> False
     | Some T \<Rightarrow> unat b < length (ut_buckets T) \<and>
         Q () (s\<lparr>tables := (tables s)[t := Some (T\<lparr>ut_buckets := (ut_buckets T)[unat b := f (ut_buckets T ! unat b)]\<rparr>)]\<rparr>))"
  by (auto simp: upd_bucket_def wp_simps split: option.splits)

lemma wp_head_tbl [wp_simps]:
  "wp (head_tbl head) Q s = (case head of None \<Rightarrow> False | Some x \<Rightarrow>
     (case handles s x of None \<Rightarrow> False | Some h \<Rightarrow> (case uh_tbl h of None \<Rightarrow> False | Some t \<Rightarrow> Q t s)))"
  by (simp add: head_tbl_def wp_simps split: option.splits)

lemma wp_uthash_malloc:
  assumes "malloc_succeeds os" "\<And>w. Q () (s\<lparr>world := w\<rparr>)"
  shows "wp (uthash_malloc os n) Q s"
proof -
  obtain w where "os_malloc os n (world s) = (Inr (), w)" using assms(1) by (rule malloc_succeedsE)
  with assms(2) show ?thesis by (simp add: uthash_malloc_def wp_simps)
qed


section \<open>Buckets\<close>

type_synonym store = "elt \<Rightarrow> ut_handle option"

definition prev_in :: "store \<Rightarrow> elt \<Rightarrow> elt option" where "prev_in H x = uh_prev (the (H x))"
definition next_in :: "store \<Rightarrow> elt \<Rightarrow> elt option" where "next_in H x = uh_next (the (H x))"
definition hh_prev_in :: "store \<Rightarrow> elt \<Rightarrow> elt option" where "hh_prev_in H x = uh_hh_prev (the (H x))"
definition hh_next_in :: "store \<Rightarrow> elt \<Rightarrow> elt option" where "hh_next_in H x = uh_hh_next (the (H x))"

lemmas link_defs = prev_in_def next_in_def hh_prev_in_def hh_next_in_def

definition bucket_index :: "store \<Rightarrow> nat \<Rightarrow> elt \<Rightarrow> nat" where
  "bucket_index H n x = unat (HASH_TO_BKT (uh_hashv (the (H x))) (of_nat n))"

definition bucket_ok :: "store \<Rightarrow> ut_bucket \<Rightarrow> elt list \<Rightarrow> bool" where
  "bucket_ok H B ys \<longleftrightarrow> distinct ys \<and> dseg (hh_prev_in H) (hh_next_in H) None ys None \<and>
     ub_head B = first ys None \<and> ub_count B = of_nat (length ys)"

definition buckets_ok :: "store \<Rightarrow> ut_bucket list \<Rightarrow> elt set \<Rightarrow> bool" where
  "buckets_ok H bs S \<longleftrightarrow>
     (\<forall>b < length bs. \<exists>ys. bucket_ok H (bs ! b) ys \<and> set ys = {x \<in> S. bucket_index H (length bs) x = b})"

lemma buckets_okE:
  assumes "buckets_ok H bs S" "b < length bs"
  obtains ys where "bucket_ok H (bs ! b) ys" "set ys = {x \<in> S. bucket_index H (length bs) x = b}"
  using assms unfolding buckets_ok_def by blast

lemma bucket_index_less: "k \<le> 31 \<Longrightarrow> bucket_index H (2 ^ k) x < 2 ^ k"
proof -
  assume k: "k \<le> 31"
  have "HASH_TO_BKT h (2 ^ k) = take_bit k h" for h :: u32
    by (simp add: HASH_TO_BKT_def take_bit_eq_mask mask_eq_exp_minus_1)
  then have "bucket_index H (2 ^ k) x = take_bit k (unat (uh_hashv (the (H x))))"
    by (simp add: bucket_index_def unsigned_take_bit_eq)
  then show ?thesis by simp
qed

text \<open>Two stores that agree on the elements of \<open>S\<close>.\<close>

definition agree :: "elt set \<Rightarrow> store \<Rightarrow> store \<Rightarrow> bool" where
  "agree S H H' \<longleftrightarrow> (\<forall>x \<in> S. H' x = H x)"

lemma agreeD: "agree S H H' \<Longrightarrow> x \<in> S \<Longrightarrow> H' x = H x"
  by (simp add: agree_def)

lemma bucket_ok_agree: "bucket_ok H B ys \<Longrightarrow> agree (set ys) H H' \<Longrightarrow> bucket_ok H' B ys"
  unfolding bucket_ok_def by (auto intro!: dseg_cong [of "hh_prev_in H" "hh_next_in H"] simp: link_defs agree_def)


lemma buckets_ok_cong:
  assumes "buckets_ok H bs S"
    and "\<And>z m. z \<in> S \<Longrightarrow> bucket_index H' m z = bucket_index H m z \<and> hh_prev_in H' z = hh_prev_in H z \<and> hh_next_in H' z = hh_next_in H z"
  shows "buckets_ok H' bs S"
  unfolding buckets_ok_def
proof (intro allI impI)
  fix b assume "b < length bs"
  with assms(1) obtain ys where ys: "bucket_ok H (bs ! b) ys" "set ys = {x \<in> S. bucket_index H (length bs) x = b}"
    by (rule buckets_okE)
  have "dseg (hh_prev_in H') (hh_next_in H') None ys None"
    using ys assms(2) by (rule_tac dseg_cong [of "hh_prev_in H" "hh_next_in H"]) (simp_all add: bucket_ok_def)
  then have "bucket_ok H' (bs ! b) ys" using ys(1) by (simp add: bucket_ok_def)
  moreover have "set ys = {x \<in> S. bucket_index H' (length bs) x = b}" using ys(2) assms(2) by auto
  ultimately show "\<exists>ys. bucket_ok H' (bs ! b) ys \<and> set ys = {x \<in> S. bucket_index H' (length bs) x = b}" by blast
qed

text \<open>Stores that differ in the links of the buckets only.\<close>

definition unlinked :: "ut_handle \<Rightarrow> ut_handle" where
  "unlinked h = h\<lparr>uh_hh_prev := None, uh_hh_next := None\<rparr>"

definition relinked :: "store \<Rightarrow> store \<Rightarrow> bool" where
  "relinked H H' \<longleftrightarrow> (\<forall>x. map_option unlinked (H' x) = map_option unlinked (H x))"

lemma relinked_refl [simp]: "relinked H H"
  by (simp add: relinked_def)

lemma relinked_trans: "relinked H H' \<Longrightarrow> relinked H' H'' \<Longrightarrow> relinked H H''"
  by (simp add: relinked_def)

lemma unlinked_eqD:
  "unlinked h' = unlinked h \<Longrightarrow> uh_tbl h' = uh_tbl h \<and> uh_prev h' = uh_prev h \<and> uh_next h' = uh_next h \<and>
     uh_key h' = uh_key h \<and> uh_keylen h' = uh_keylen h \<and> uh_hashv h' = uh_hashv h"
  by (cases h, cases h') (simp add: unlinked_def)

lemma relinkedD:
  assumes "relinked H H'" "H x = Some h"
  obtains h' where "H' x = Some h'" "unlinked h' = unlinked h"
  using assms unfolding relinked_def by (metis map_option_eq_Some option.map_disc_iff option.simps(9))

lemma relinked_None: "relinked H H' \<Longrightarrow> H' x = None \<longleftrightarrow> H x = None"
  unfolding relinked_def by (metis option.map_disc_iff)

lemma relinked_index:
  assumes "relinked H H'" "H x \<noteq> None"
  shows "bucket_index H' n x = bucket_index H n x" "prev_in H' x = prev_in H x" "next_in H' x = next_in H x"
proof -
  obtain h h' where "H x = Some h" "H' x = Some h'" "unlinked h' = unlinked h"
    using assms relinkedD by (metis option.exhaust)
  then show "bucket_index H' n x = bucket_index H n x" "prev_in H' x = prev_in H x" "next_in H' x = next_in H x"
    using unlinked_eqD [of h' h] by (simp_all add: bucket_index_def link_defs)
qed

text \<open>Putting an element in front of a chain.\<close>

definition push_links :: "elt \<Rightarrow> elt option \<Rightarrow> store \<Rightarrow> store" where
  "push_links x y H =
     (let H1 = H(x := map_option (\<lambda>h. h\<lparr>uh_hh_next := y, uh_hh_prev := None\<rparr>) (H x))
      in case y of None \<Rightarrow> H1 | Some y \<Rightarrow> H1(y := map_option (uh_hh_prev_update (\<lambda>_. Some x)) (H1 y)))"

lemma push_links_other: "z \<noteq> x \<Longrightarrow> y \<noteq> Some z \<Longrightarrow> push_links x y H z = H z"
  by (auto simp: push_links_def Let_def split: option.splits)

lemma push_links_relinked: "relinked H (push_links x y H)"
  by (auto simp: relinked_def push_links_def Let_def unlinked_def [abs_def] option.map_comp o_def split: option.splits)

lemma bucket_push:
  assumes B: "bucket_ok H B ys" and x: "x \<notin> set ys" "\<forall>z \<in> insert x (set ys). H z \<noteq> None"
    and B': "ub_head B' = Some x" "ub_count B' = ub_count B + 1"
  shows "bucket_ok (push_links x (ub_head B) H) B' (x # ys)"
proof -
  let ?H = "push_links x (ub_head B) H"
  have ys: "distinct ys" "dseg (hh_prev_in H) (hh_next_in H) None ys None" "ub_head B = first ys None" "ub_count B = of_nat (length ys)"
    using B by (simp_all add: bucket_ok_def)
  have head: "first ys None \<noteq> Some x" using x(1) first_SomeD [of ys x] by auto
  have "hh_prev_in ?H x = None \<and> hh_next_in ?H x = first ys None"
    using x(2) head by (auto simp: link_defs push_links_def Let_def ys(3) split: option.splits)
  moreover have "hh_next_in ?H z = hh_next_in H z \<and> hh_prev_in ?H z = (if first ys None = Some z then Some x else hh_prev_in H z)"
    if "z \<in> set ys" for z
    using x that by (auto simp: link_defs push_links_def Let_def ys(3) split: option.splits)
  ultimately show ?thesis
    using ys x(1) B' dseg_push [OF ys(2), of x "hh_prev_in ?H" "hh_next_in ?H"] by (simp add: bucket_ok_def)
qed

lemma buckets_push:
  assumes bs: "buckets_ok H bs S" and x: "x \<notin> S" "\<forall>z \<in> insert x S. H z \<noteq> None"
    and b: "b < length bs" "bucket_index H (length bs) x = b"
    and B: "ub_head B = Some x" "ub_count B = ub_count (bs ! b) + 1"
  shows "buckets_ok (push_links x (ub_head (bs ! b)) H) (bs[b := B]) (insert x S)"
  unfolding buckets_ok_def length_list_update
proof (intro allI impI)
  fix c assume c: "c < length bs"
  let ?H = "push_links x (ub_head (bs ! b)) H"
  have index: "bucket_index ?H (length bs) z = bucket_index H (length bs) z" if "z \<in> insert x S" for z
    using relinked_index(1) [OF push_links_relinked] x(2) that by blast
  obtain zs where zs: "bucket_ok H (bs ! b) zs" "set zs = {z \<in> S. bucket_index H (length bs) z = b}"
    using bs b(1) by (rule buckets_okE)
  obtain ys where ys: "bucket_ok H (bs ! c) ys" "set ys = {z \<in> S. bucket_index H (length bs) z = c}"
    using bs c by (rule buckets_okE)
  show "\<exists>ys. bucket_ok ?H (bs[b := B] ! c) ys \<and> set ys = {z \<in> insert x S. bucket_index ?H (length bs) z = c}"
  proof (cases "c = b")
    case True
    have "x \<notin> set zs" "\<forall>z \<in> insert x (set zs). H z \<noteq> None" using x zs(2) by auto
    then have "bucket_ok ?H B (x # zs)" using bucket_push [OF zs(1) _ _ B] by blast
    moreover have "set (x # zs) = {z \<in> insert x S. bucket_index ?H (length bs) z = c}"
      using zs(2) b(2) True index by auto
    ultimately show ?thesis using True c by auto
  next
    case False
    have "ub_head (bs ! b) \<noteq> Some z" if "z \<in> set ys" for z
      using that zs ys(2) False first_SomeD [of zs z] by (auto simp: bucket_ok_def)
    then have "agree (set ys) H ?H" using ys(2) x(1) by (auto simp: agree_def intro!: push_links_other)
    with ys(1) have "bucket_ok ?H (bs ! c) ys" by (rule bucket_ok_agree)
    moreover have "set ys = {z \<in> insert x S. bucket_index ?H (length bs) z = c}"
      using ys(2) b(2) False index by auto
    ultimately show ?thesis using False by auto
  qed
qed


text \<open>Taking an element out of its chain.\<close>

definition drop_links :: "elt \<Rightarrow> store \<Rightarrow> store" where
  "drop_links x H =
     (let p = hh_prev_in H x; n = hh_next_in H x;
          H1 = (case p of None \<Rightarrow> H | Some p \<Rightarrow> H(p := map_option (uh_hh_next_update (\<lambda>_. n)) (H p)))
      in case n of None \<Rightarrow> H1 | Some n \<Rightarrow> H1(n := map_option (uh_hh_prev_update (\<lambda>_. p)) (H1 n)))"

lemma drop_links_relinked: "relinked H (drop_links x H)"
  by (auto simp: relinked_def drop_links_def Let_def unlinked_def [abs_def] option.map_comp o_def split: option.splits)

lemma drop_links_other: "hh_prev_in H x \<noteq> Some z \<Longrightarrow> hh_next_in H x \<noteq> Some z \<Longrightarrow> drop_links x H z = H z"
  by (auto simp: drop_links_def Let_def split: option.splits)

lemma in_chain:
  assumes "bucket_ok H B (as @ x # bs)"
  shows "hh_prev_in H x = final None as" "hh_next_in H x = first bs None"
  using assms by (simp_all add: bucket_ok_def dseg_append)

lemma bucket_remove:
  assumes B: "bucket_ok H B (as @ x # bs)" and defined: "\<forall>z \<in> set (as @ x # bs). H z \<noteq> None"
    and B': "ub_head B' = (if ub_head B = Some x then hh_next_in H x else ub_head B)" "ub_count B' = ub_count B - 1"
  shows "bucket_ok (drop_links x H) B' (as @ bs)"
proof -
  let ?H = "drop_links x H"
  have seg: "dseg (hh_prev_in H) (hh_next_in H) None (as @ x # bs) None" "distinct (as @ x # bs)"
    "ub_head B = first (as @ x # bs) None" "ub_count B = of_nat (length (as @ x # bs))"
    using B by (simp_all add: bucket_ok_def)
  have "hh_next_in ?H z = (if hh_prev_in H x = Some z then hh_next_in H x else hh_next_in H z) \<and>
      hh_prev_in ?H z = (if hh_next_in H x = Some z then hh_prev_in H x else hh_prev_in H z)" if "z \<in> set (as @ bs)" for z
  proof -
    obtain h where "H z = Some h" using \<open>z \<in> set (as @ bs)\<close> defined by fastforce
    then show ?thesis by (simp add: drop_links_def Let_def hh_prev_in_def hh_next_in_def split: option.splits)
  qed
  then have "dseg (hh_prev_in ?H) (hh_next_in ?H) None (as @ bs) None" by (intro dseg_remove [OF seg(1,2)]) blast
  moreover have "ub_head B' = first (as @ bs) None"
    using seg(2,3) B'(1) in_chain(2) [OF B] by (cases as) auto
  ultimately show ?thesis using seg(2,4) B'(2) by (simp add: bucket_ok_def)
qed

lemma buckets_remove:
  assumes bs: "buckets_ok H bs S" and x: "x \<in> S" "\<forall>z \<in> S. H z \<noteq> None"
    and b: "b < length bs" "bucket_index H (length bs) x = b"
    and B: "ub_head B = (if ub_head (bs ! b) = Some x then hh_next_in H x else ub_head (bs ! b))" "ub_count B = ub_count (bs ! b) - 1"
  shows "buckets_ok (drop_links x H) (bs[b := B]) (S - {x})"
  unfolding buckets_ok_def length_list_update
proof (intro allI impI)
  fix c assume c: "c < length bs"
  let ?H = "drop_links x H"
  have index: "bucket_index ?H (length bs) z = bucket_index H (length bs) z" if "z \<in> S" for z
    using relinked_index(1) [OF drop_links_relinked] x(2) that by blast
  obtain zs where zs: "bucket_ok H (bs ! b) zs" "set zs = {z \<in> S. bucket_index H (length bs) z = b}"
    using bs b(1) by (rule buckets_okE)
  then have "x \<in> set zs" using x(1) b(2) by simp
  then obtain as cs where split: "zs = as @ x # cs" by (auto simp: in_set_conv_decomp)
  obtain ys where ys: "bucket_ok H (bs ! c) ys" "set ys = {z \<in> S. bucket_index H (length bs) z = c}"
    using bs c by (rule buckets_okE)
  show "\<exists>ys. bucket_ok ?H (bs[b := B] ! c) ys \<and> set ys = {z \<in> S - {x}. bucket_index ?H (length bs) z = c}"
  proof (cases "c = b")
    case True
    have "\<forall>z \<in> set (as @ x # cs). H z \<noteq> None" using x(2) zs(2) split by blast
    then have "bucket_ok ?H B (as @ cs)" using bucket_remove [OF zs(1) [unfolded split] _ B] by blast
    moreover have "set (as @ cs) = set zs - {x}" using zs(1) by (auto simp: split bucket_ok_def)
    then have "set (as @ cs) = {z \<in> S - {x}. bucket_index ?H (length bs) z = c}"
      using zs(2) True index by auto
    ultimately show ?thesis using True c by auto
  next
    case False
    have near: "hh_prev_in H x = Some z \<or> hh_next_in H x = Some z \<Longrightarrow> z \<in> set zs" for z
      using in_chain [OF zs(1) [unfolded split]] by (auto simp: split final_def dest: first_SomeD split: if_splits)
    have "hh_prev_in H x \<noteq> Some z \<and> hh_next_in H x \<noteq> Some z" if "z \<in> set ys" for z
      using near [of z] that ys(2) zs(2) False by auto
    then have "agree (set ys) H ?H" by (simp add: agree_def drop_links_other)
    with ys(1) have "bucket_ok ?H (bs ! c) ys" by (rule bucket_ok_agree)
    moreover have "set ys = {z \<in> S - {x}. bucket_index ?H (length bs) z = c}"
      using ys(2) b(2) False index by auto
    ultimately show ?thesis using False by auto
  qed
qed

end
