(* ===== verification/Hash_Table_Specs.thy ===== *)
theory Hash_Table_Specs
  imports Hash_Table_Lemmas
begin

text \<open>
  Each operation of the hash table does to the list of elements what its name says, keeps the
  invariant, and leaves other elements and other tables alone.
\<close>

section \<open>The invariant\<close>

definition key_in :: "store \<Rightarrow> elt \<Rightarrow> string" where
  "key_in H x = uh_key (the (H x))"

text \<open>Lengths of keys are 32 bits wide.\<close>

definition short_key :: "string \<Rightarrow> bool" where
  "short_key k \<longleftrightarrow> length k < 2 ^ 32"

definition handle_ok :: "nat \<Rightarrow> ut_handle \<Rightarrow> bool" where
  "handle_ok t h \<longleftrightarrow> uh_tbl h = Some t \<and> short_key (uh_key h) \<and> uh_keylen h = of_nat (length (uh_key h)) \<and>
     uh_hashv h = HASH_JEN (uh_key h) (uh_keylen h)"

definition handles_ok :: "store \<Rightarrow> nat \<Rightarrow> elt set \<Rightarrow> bool" where
  "handles_ok H t S \<longleftrightarrow> (\<forall>x \<in> S. \<exists>h. H x = Some h \<and> handle_ok t h)"

definition list_ok :: "store \<Rightarrow> nat \<Rightarrow> ut_table \<Rightarrow> elt list \<Rightarrow> bool" where
  "list_ok H t T xs \<longleftrightarrow> xs \<noteq> [] \<and> distinct xs \<and> handles_ok H t (set xs) \<and>
     dseg (prev_in H) (next_in H) None xs None \<and> ut_tail T = Some (last xs)"

definition sized :: "nat \<Rightarrow> ut_table \<Rightarrow> bool" where
  "sized k T \<longleftrightarrow> k \<le> 31 \<and> num_buckets T = 2 ^ k \<and> log2_num_buckets T = of_nat k \<and> length (ut_buckets T) = 2 ^ k"

definition table_holds :: "store \<Rightarrow> nat \<Rightarrow> ut_table \<Rightarrow> nat \<Rightarrow> elt list \<Rightarrow> bool" where
  "table_holds H t T k xs \<longleftrightarrow> list_ok H t T xs \<and> num_items T = of_nat (length xs) \<and> sized k T \<and>
     buckets_ok H (ut_buckets T) (set xs)"

text \<open>
  A bucket has at most \<open>A\<close> elements more than its multiplier, which is small, accounts for.
\<close>

definition roomy :: "nat \<Rightarrow> ut_table \<Rightarrow> bool" where
  "roomy A T \<longleftrightarrow> (\<forall>B \<in> set (ut_buckets T). unat (ub_count B) \<le> unat (ub_mult B) + 1 + A \<and> unat (ub_mult B) \<le> 64)"

text \<open>
  The number of doublings is paid for by \<open>n\<close> added elements: the first 32 buckets are doubled
  after nine elements at the earliest, and the same holds after each doubling.
\<close>

definition paid :: "nat \<Rightarrow> nat \<Rightarrow> ut_table \<Rightarrow> bool" where
  "paid n k T \<longleftrightarrow> 5 \<le> k \<and> (\<exists>A. 9 * (k - 5) + A \<le> n \<and> roomy A T)"

lemma paid_mono: "paid n k T \<Longrightarrow> n \<le> m \<Longrightarrow> paid m k T"
  unfolding paid_def by (meson le_trans)

lemma paid_few: "paid n k T \<Longrightarrow> n < 200 \<Longrightarrow> k \<le> 27"
  unfolding paid_def by auto

text \<open>
  The head stands for the list \<open>xs\<close> of fewer than 64 elements, in table \<open>t\<close> unless the list is
  empty; at most \<open>n\<close> elements have been added.
\<close>

definition hash_ok :: "nat \<Rightarrow> elt option \<Rightarrow> nat \<Rightarrow> ('w, 'm) ut_scheme \<Rightarrow> elt list \<Rightarrow> bool" where
  "hash_ok n head t s xs \<longleftrightarrow> head = first xs None \<and> length xs < 64 \<and>
     (xs \<noteq> [] \<longrightarrow> (\<exists>T k. paid n k T \<and> table_at (tables s) t = Some T \<and> table_holds (handles s) t T k xs))"

lemma hash_ok_empty [simp]: "hash_ok n head t s [] \<longleftrightarrow> head = None"
  by (simp add: hash_ok_def)

lemma hash_okE:
  assumes "hash_ok n head t s xs" "xs \<noteq> []"
  obtains T k where "head = first xs None" "paid n k T" "table_at (tables s) t = Some T" "table_holds (handles s) t T k xs"
  using assms unfolding hash_ok_def by blast

lemma hash_ok_length: "hash_ok n head t s xs \<Longrightarrow> length xs < 64"
  by (simp add: hash_ok_def)

lemma handles_okE:
  assumes "handles_ok H t S" "x \<in> S"
  obtains h where "H x = Some h" "handle_ok t h"
  using assms unfolding handles_ok_def by blast

lemma handles_ok_defined: "handles_ok H t S \<Longrightarrow> \<forall>x \<in> S. H x \<noteq> None"
  by (auto simp: handles_ok_def)

lemma handles_ok_relinked: "handles_ok H t S \<Longrightarrow> relinked H H' \<Longrightarrow> handles_ok H' t S"
  unfolding handles_ok_def
proof
  fix x assume ok: "\<forall>x \<in> S. \<exists>h. H x = Some h \<and> handle_ok t h" "relinked H H'" and x: "x \<in> S"
  then obtain h where h: "H x = Some h" "handle_ok t h" by blast
  obtain h' where "H' x = Some h'" "unlinked h' = unlinked h" using ok(2) h(1) by (rule relinkedD)
  with h(2) unlinked_eqD [of h' h] show "\<exists>h. H' x = Some h \<and> handle_ok t h" by (simp add: handle_ok_def)
qed

lemma list_ok_relinked:
  assumes "list_ok H t T xs" "relinked H H'" "ut_tail T' = ut_tail T"
  shows "list_ok H' t T' xs"
proof -
  have "\<forall>x \<in> set xs. H x \<noteq> None" using assms(1) by (auto simp: list_ok_def dest: handles_ok_defined)
  then have "dseg (prev_in H') (next_in H') None xs None"
    using assms(1) relinked_index [OF assms(2)]
    by (rule_tac dseg_cong [of "prev_in H" "next_in H"]) (auto simp: list_ok_def)
  with assms handles_ok_relinked show ?thesis by (auto simp: list_ok_def)
qed

text \<open>What an operation on a table leaves alone.\<close>

definition ut_frame :: "elt set \<Rightarrow> nat \<Rightarrow> ('w, 'm) ut_scheme \<Rightarrow> ('w, 'm) ut_scheme \<Rightarrow> bool" where
  "ut_frame S t s s' \<longleftrightarrow> agree (- S) (handles s) (handles s') \<and>
     (\<forall>u. u \<noteq> t \<longrightarrow> table_at (tables s') u = table_at (tables s) u) \<and> length (tables s) \<le> length (tables s') \<and>
     s'\<lparr>world := world s, handles := handles s, tables := tables s\<rparr> = s"

lemma ut_frame_refl [simp]: "ut_frame S t s s"
  by (simp add: ut_frame_def agree_def)

lemma ut_frame_trans:
  assumes "ut_frame S t s s'" "ut_frame S t s' s''"
  shows "ut_frame S t s s''"
proof -
  have "s''\<lparr>world := world s, handles := handles s, tables := tables s\<rparr> =
      (s''\<lparr>world := world s', handles := handles s', tables := tables s'\<rparr>)\<lparr>world := world s, handles := handles s, tables := tables s\<rparr>"
    by simp
  with assms show ?thesis by (auto simp: ut_frame_def agree_def)
qed

lemma ut_frame_mono: "ut_frame S t s s' \<Longrightarrow> S \<subseteq> S' \<Longrightarrow> ut_frame S' t s s'"
  by (auto simp: ut_frame_def agree_def)

lemma ut_frame_world [simp]: "ut_frame S t s (s\<lparr>world := w\<rparr>)"
  by (simp add: ut_frame_def agree_def)

lemma ut_frame_out: "ut_frame S t s s' \<Longrightarrow> con_out s' = con_out s"
proof -
  assume "ut_frame S t s s'"
  then have "s'\<lparr>world := world s, handles := handles s, tables := tables s\<rparr> = s" by (simp add: ut_frame_def)
  then have "con_out (s'\<lparr>world := world s, handles := handles s, tables := tables s\<rparr>) = con_out s" by (rule arg_cong)
  then show ?thesis by simp
qed

text \<open>A table and its elements decide alone what the table stands for.\<close>

lemma hash_ok_cong:
  assumes "hash_ok n head t s xs" "\<forall>x \<in> set xs. handles s' x = handles s x"
    and "xs \<noteq> [] \<Longrightarrow> table_at (tables s') t = table_at (tables s) t"
  shows "hash_ok n head t s' xs"
proof (cases "xs = []")
  case False
  obtain T k where T: "head = first xs None" "paid n k T" "table_at (tables s) t = Some T" "table_holds (handles s) t T k xs"
    using assms(1) False by (rule hash_okE)
  have same: "handles s' x = handles s x" if "x \<in> set xs" for x
    using assms(2) that by blast
  have links: "prev_in (handles s') x = prev_in (handles s) x" "next_in (handles s') x = next_in (handles s) x"
    "bucket_index (handles s') m x = bucket_index (handles s) m x" if "x \<in> set xs" for x m
    using same [OF that] by (simp_all add: link_defs bucket_index_def)
  have "list_ok (handles s') t T xs"
    using T(4) same links
    by (auto simp: table_holds_def list_ok_def handles_ok_def intro: dseg_cong [of "prev_in (handles s)" "next_in (handles s)"])
  moreover have "buckets_ok (handles s') (ut_buckets T) (set xs)"
    using T(4) links(3) same by (rule_tac buckets_ok_cong [of "handles s"]) (auto simp: table_holds_def link_defs)
  moreover have "table_at (tables s') t = Some T" using assms(3) T(3) False by simp
  ultimately show ?thesis using T hash_ok_length [OF assms(1)] by (auto simp: hash_ok_def table_holds_def)
qed (use assms in simp)

section \<open>Finding\<close>

lemma of_nat_eq_u32: "short_key a \<Longrightarrow> short_key b \<Longrightarrow> (of_nat (length a) :: u32) = of_nat (length b) \<longleftrightarrow> length a = length b"
  by (simp add: short_key_def word_of_nat_eq_iff take_bit_nat_eq_self)

text \<open>The walk along a chain finds the first element of that key.\<close>

lemma chain_search:
  assumes "dseg (hh_prev_in H) (hh_next_in H) p ys None" "handles_ok H t (set ys)" "short_key k" "handles s = H"
  shows "wp (loop (\<lambda>out. case out of
         None \<Rightarrow> ret (Inr None)
       | Some x \<Rightarrow> bnd (hh x) (\<lambda>h.
           bnd (if uh_hashv h = HASH_JEN k (of_nat (length k)) \<and> uh_keylen h = of_nat (length k)
                then memcmp_eq (uh_key h) k (of_nat (length k)) else ret False) (\<lambda>found.
           if found then ret (Inr (Some x)) else ret (Inl (uh_hh_next h)))))
       (first ys None)) (\<lambda>r s'. s' = s \<and> r = find (\<lambda>x. key_in H x = k) ys) s"
  using assms(1,2)
proof (induction ys arbitrary: p)
  case Nil
  then show ?case by (subst wp_loop) (simp add: wp_simps)
next
  case (Cons x ys)
  obtain h where h: "H x = Some h" "handle_ok t h" using Cons.prems(2) by (auto simp: handles_ok_def)
  have eq: "(uh_hashv h = HASH_JEN k (of_nat (length k)) \<and> uh_keylen h = of_nat (length k) \<and> uh_key h = k) = (key_in H x = k)"
    using h by (auto simp: key_in_def handle_ok_def)
  have size: "unat (of_nat (length k) :: u32) = length k" using assms(3) by (simp add: short_key_def unat_of_nat take_bit_nat_eq_self)
  have next': "uh_hh_next h = first ys None" using Cons.prems(1) h(1) by (simp add: hh_next_in_def)
  have len: "length (uh_key h) = length k" if "uh_keylen h = of_nat (length k)"
    using that h(2) assms(3) of_nat_eq_u32 by (auto simp: handle_ok_def)
  have IH: "wp (loop (\<lambda>out. case out of
         None \<Rightarrow> ret (Inr None)
       | Some x \<Rightarrow> bnd (hh x) (\<lambda>h.
           bnd (if uh_hashv h = HASH_JEN k (of_nat (length k)) \<and> uh_keylen h = of_nat (length k)
                then memcmp_eq (uh_key h) k (of_nat (length k)) else ret False) (\<lambda>found.
           if found then ret (Inr (Some x)) else ret (Inl (uh_hh_next h)))))
       (first ys None)) (\<lambda>r s'. s' = s \<and> r = find (\<lambda>x. key_in H x = k) ys) s"
    using Cons.prems by (intro Cons.IH [of "Some x"]) (auto simp: handles_ok_def)
  show ?case
    using h(1) assms(4) eq IH len size
    by (subst wp_loop) (auto simp: wp_simps memcmp_eq_def next')
qed

text \<open>Searching does not look at the tail of the table.\<close>

lemma find_in_table:
  assumes T: "head = first xs None" "table_at (tables s) t = Some T" "handles_ok (handles s) t (set xs)" "sized m T"
      "buckets_ok (handles s) (ut_buckets T) (set xs)" and "xs \<noteq> []" "short_key k"
  shows "wp (HASH_FIND_STR head k) (\<lambda>r s'. s' = s \<and>
    (case r of None \<Rightarrow> \<forall>x \<in> set xs. key_in (handles s) x \<noteq> k | Some x \<Rightarrow> x \<in> set xs \<and> key_in (handles s) x = k)) s"
proof -
  let ?H = "handles s" and ?hash = "HASH_JEN k (of_nat (length k))"
  obtain x zs where xs: "xs = x # zs" "handles_ok ?H t (set xs)" using T(3) assms(6) by (cases xs) auto
  obtain h where h: "?H x = Some h" "handle_ok t h" using xs by (auto simp: handles_ok_def)
  have size: "length (ut_buckets T) = 2 ^ m" "num_buckets T = 2 ^ m" "m \<le> 31" "buckets_ok ?H (ut_buckets T) (set xs)"
    using T(4,5) by (simp_all add: sized_def)
  let ?b = "HASH_TO_BKT ?hash (num_buckets T)"
  have index: "bucket_index ?H (2 ^ m) z = unat ?b" if "z \<in> set xs" "key_in ?H z = k" for z
    using xs(2) that by (auto simp: handles_ok_def handle_ok_def bucket_index_def key_in_def size(2))
  have b: "unat ?b < length (ut_buckets T)"
    using bucket_index_less [OF size(3), of "\<lambda>_. Some (zero_handle\<lparr>uh_hashv := ?hash\<rparr>)" x]
    by (simp add: bucket_index_def size(1,2))
  obtain ys where ys: "bucket_ok ?H (ut_buckets T ! unat ?b) ys" "set ys = {z \<in> set xs. bucket_index ?H (2 ^ m) z = unat ?b}"
    using size(4) b by (rule buckets_okE) (simp add: size(1))
  have "handles_ok ?H t (set ys)" using xs(2) ys(2) by (auto simp: handles_ok_def)
  moreover have "dseg (hh_prev_in ?H) (hh_next_in ?H) None ys None" "ub_head (ut_buckets T ! unat ?b) = first ys None"
    using ys(1) by (simp_all add: bucket_ok_def)
  moreover have "case find (\<lambda>x. key_in ?H x = k) ys of None \<Rightarrow> \<forall>x \<in> set xs. key_in ?H x \<noteq> k
      | Some x \<Rightarrow> x \<in> set xs \<and> key_in ?H x = k"
    using ys(2) index by (auto simp: find_None_iff find_Some_iff split: option.splits)
  ultimately show ?thesis
    using T(1,2) h b chain_search [of ?H None ys t k s] assms(7)
    by (auto simp: HASH_FIND_STR_def HASH_FIND_def HASH_FIND_BYHASHVALUE_def HASH_FIND_IN_BKT_def wp_simps xs(1) handle_ok_def
        elim!: wp_mono split: option.splits)
qed

lemma hash_find_spec:
  assumes "hash_ok n head t s xs" "short_key k"
  shows "wp (HASH_FIND_STR head k) (\<lambda>r s'. s' = s \<and>
    (case r of None \<Rightarrow> \<forall>x \<in> set xs. key_in (handles s) x \<noteq> k | Some x \<Rightarrow> x \<in> set xs \<and> key_in (handles s) x = k)) s"
proof (cases "xs = []")
  case True
  with assms show ?thesis by (simp add: HASH_FIND_STR_def HASH_FIND_def wp_simps)
next
  case False
  obtain T m where T: "head = first xs None" "table_at (tables s) t = Some T" "table_holds (handles s) t T m xs"
    using assms(1) False by (rule hash_okE)
  then have "handles_ok (handles s) t (set xs)" "sized m T" "buckets_ok (handles s) (ut_buckets T) (set xs)"
    by (simp_all add: table_holds_def list_ok_def)
  with T(1,2) False assms(2) show ?thesis by (intro find_in_table)
qed

end
