(* ===== verification/Hash_Table_Growth.thy ===== *)
theory Hash_Table_Growth
  imports Hash_Table_Specs
begin

text \<open>
  Adding an element, and the doubling of the buckets that it may cause.
\<close>

section \<open>Doubling\<close>

lemma unat_2_power: "k \<le> 31 \<Longrightarrow> unat (2 ^ k :: u32) = 2 ^ k"
proof -
  assume "k \<le> 31"
  then have "(2 :: nat) ^ k < 2 ^ 32" by (intro power_strict_increasing) simp_all
  then have "unat (of_nat (2 ^ k) :: u32) = 2 ^ k" by (simp add: unat_of_nat take_bit_nat_eq_self del: of_nat_power)
  then show ?thesis by simp
qed

text \<open>While the elements are moved only a counter of the table changes.\<close>

definition counting :: "nat \<Rightarrow> ut_table \<Rightarrow> ('w, 'm) ut_scheme \<Rightarrow> bool" where
  "counting t T s \<longleftrightarrow> (\<exists>v. table_at (tables s) t = Some (T\<lparr>nonideal_items := v\<rparr>))"

definition moved :: "elt set \<Rightarrow> nat \<Rightarrow> ut_table \<Rightarrow> ('w, 'm) ut_scheme \<Rightarrow> ('w, 'm) ut_scheme \<Rightarrow> bool" where
  "moved S t T s s' \<longleftrightarrow> counting t T s' \<and> relinked (handles s) (handles s') \<and> ut_frame S t s s'"

lemma moved_refl: "counting t T s \<Longrightarrow> moved S t T s s"
  by (simp add: moved_def)

lemma moved_trans: "moved S t T s s' \<Longrightarrow> moved S t T s' s'' \<Longrightarrow> moved S t T s s''"
  unfolding moved_def using relinked_trans ut_frame_trans by blast

lemma moved_mono: "moved S t T s s' \<Longrightarrow> S \<subseteq> S' \<Longrightarrow> moved S' t T s s'"
  unfolding moved_def using ut_frame_mono by blast

lemma push_links_eq:
  assumes "H x = Some h"
  shows "push_links x None H = H(x \<mapsto> h\<lparr>uh_hh_prev := None, uh_hh_next := None\<rparr>)"
    "y \<noteq> x \<Longrightarrow> H y = Some hy \<Longrightarrow>
       push_links x (Some y) H = H(x \<mapsto> h\<lparr>uh_hh_prev := None, uh_hh_next := Some y\<rparr>, y \<mapsto> hy\<lparr>uh_hh_prev := Some x\<rparr>)"
    "push_links x None H = H(x \<mapsto> h\<lparr>uh_hh_next := None, uh_hh_prev := None\<rparr>)"
    "y \<noteq> x \<Longrightarrow> H y = Some hy \<Longrightarrow>
       push_links x (Some y) H = H(x \<mapsto> h\<lparr>uh_hh_next := Some y, uh_hh_prev := None\<rparr>, y \<mapsto> hy\<lparr>uh_hh_prev := Some x\<rparr>)"
  using assms by (auto simp: push_links_def Let_def fun_eq_iff)

lemma push_links_frame:
  assumes "\<And>y. p = Some y \<Longrightarrow> y \<in> S"
  shows "agree (- insert x S) H (push_links x p H)"
  using assms by (auto simp: agree_def intro!: push_links_other)

lemma head_in_bucket:
  assumes "buckets_ok H bs S" "b < length bs" "ub_head (bs ! b) = Some y"
  shows "y \<in> S"
proof -
  obtain ys where ys: "bucket_ok H (bs ! b) ys" "set ys = {x \<in> S. bucket_index H (length bs) x = b}"
    using assms(1,2) by (rule buckets_okE)
  then have "first ys None = Some y" using assms(3) by (simp add: bucket_ok_def)
  from first_SomeD [OF this] ys(2) show ?thesis by simp
qed

text \<open>
  A bucket that was filled with an ideal length of one: its multiplier is so large that nine
  times as many elements have to be added before it asks for a doubling.
\<close>

definition crowd_ok :: "ut_bucket \<Rightarrow> bool" where
  "crowd_ok B \<longleftrightarrow> unat (ub_count B) \<le> unat (ub_mult B) + 1 \<and> unat (ub_mult B) \<le> unat (ub_count B)"

definition crowds :: "ut_bucket list \<Rightarrow> bool" where
  "crowds bs \<longleftrightarrow> (\<forall>B \<in> set bs. crowd_ok B)"

lemma crowds_zero: "crowds (replicate n zero_bucket)"
  by (simp add: crowds_def crowd_ok_def zero_bucket_def)

text \<open>Tables of fewer than 64 elements.\<close>

definition few :: "elt set \<Rightarrow> bool" where
  "few S \<longleftrightarrow> finite S \<and> card S < 64"

lemma few_subset: "few S \<Longrightarrow> R \<subseteq> S \<Longrightarrow> few R"
  unfolding few_def using card_mono [of S R] finite_subset [of R S] by auto

lemma few_count:
  assumes "buckets_ok H bs S" "b < length bs" "few S"
  shows "unat (ub_count (bs ! b)) < 64"
proof -
  obtain ys where ys: "bucket_ok H (bs ! b) ys" "set ys = {x \<in> S. bucket_index H (length bs) x = b}"
    using assms(1,2) by (rule buckets_okE)
  have "few (set ys)" using assms(3) ys(2) by (auto intro: few_subset)
  then have "length ys < 64" using ys(1) distinct_card [of ys] by (simp add: few_def bucket_ok_def)
  with ys(1) show ?thesis by (simp add: bucket_ok_def unat_of_nat take_bit_nat_eq_self)
qed

lemma unat_add_1: "unat (w :: u32) < 64 \<Longrightarrow> unat (w + 1) = unat w + 1"
  by (simp add: unat_word_ariths)

lemma crowd_step:
  assumes "crowd_ok B" "unat (ub_count B) < 64"
  defines "C \<equiv> B\<lparr>ub_count := ub_count B + 1\<rparr>"
  shows "crowd_ok ((if 1 < ub_count C \<and> ub_mult C < ub_count C then C\<lparr>ub_mult := ub_mult C + 1\<rparr> else C)\<lparr>ub_head := h\<rparr>)"
proof -
  have "unat (ub_mult B) < 64" using assms(1,2) by (simp add: crowd_ok_def)
  with assms(1,2) show ?thesis by (auto simp: C_def crowd_ok_def unat_add_1 word_less_nat_alt)
qed

lemma expand_move_spec:
  assumes T: "counting t T s" "num_buckets T * 2 = of_nat (length new)" "length new = 2 ^ k" "k \<le> 31"
    and H: "handles s x = Some h" "\<forall>z \<in> S. handles s z \<noteq> None" "buckets_ok (handles s) new S" "x \<notin> S"
    and crowd: "ideal_chain_maxlen T = 1" "crowds new" "few S"
  shows "wp (expand_move t x new) (\<lambda>(nxt, new') s'. nxt = uh_hh_next h \<and> length new' = length new \<and>
    crowds new' \<and> buckets_ok (handles s') new' (insert x S) \<and> moved (insert x S) t T s s') s"
proof -
  let ?b = "unat (HASH_TO_BKT (uh_hashv h) (num_buckets T * 2))"
  obtain v where v: "table_at (tables s) t = Some (T\<lparr>nonideal_items := v\<rparr>)" using T(1) by (auto simp: counting_def)
  have b: "bucket_index (handles s) (length new) x = ?b" using H(1) by (simp add: bucket_index_def T(2))
  have less: "?b < length new" using bucket_index_less [OF T(4), of "handles s" x] b T(3) by simp
  define hd where "hd = ub_head (new ! ?b)"
  have hd: "y \<in> S \<and> y \<noteq> x" if "hd = Some y" for y
    using head_in_bucket [OF H(3) less] that H(4) by (auto simp: hd_def)
  let ?H = "push_links x hd (handles s)"
  have new: "buckets_ok ?H (new[?b := B]) (insert x S)" if "ub_head B = Some x" "ub_count B = ub_count (new ! ?b) + 1" for B
    unfolding hd_def using H that less b by (intro buckets_push) auto
  let ?C = "(new ! ?b)\<lparr>ub_count := ub_count (new ! ?b) + 1\<rparr>"
  have "crowd_ok (new ! ?b)" using crowd(2) nth_mem [OF less] by (simp add: crowds_def)
  then have step: "crowd_ok ((if 1 < ub_count ?C \<and> ub_mult ?C < ub_count ?C then ?C\<lparr>ub_mult := ub_mult ?C + 1\<rparr> else ?C)\<lparr>ub_head := g\<rparr>)" for g
    using few_count [OF H(3) less crowd(3)] by (rule crowd_step)
  have crowded: "crowds (new[?b := C])" if "crowd_ok C" for C
    unfolding crowds_def using crowd(2) [unfolded crowds_def] that set_update_subset_insert [of new ?b C] by blast
  have frame: "moved (insert x S) t T s (s\<lparr>tables := ts, handles := ?H\<rparr>)"
    if "\<exists>w. ts = (tables s)[t := Some (T\<lparr>nonideal_items := w\<rparr>)]" for ts
    using that v hd push_links_relinked push_links_frame [of hd S x "handles s"]
    by (auto simp: moved_def counting_def ut_frame_def)
  have frame': "moved (insert x S) t T s (s\<lparr>handles := ?H\<rparr>)"
  proof -
    have "tables s ! t = Some (T\<lparr>nonideal_items := v\<rparr>)" using v by (simp add: table_at_def split: if_splits)
    then have "tables s = (tables s)[t := Some (T\<lparr>nonideal_items := v\<rparr>)]" by (metis list_update_id)
    then show ?thesis using frame [of "tables s"] by auto
  qed
  show ?thesis
  proof (cases hd)
    case None
    then have "?H = (handles s)(x \<mapsto> h\<lparr>uh_hh_prev := None, uh_hh_next := None\<rparr>)" using push_links_eq(1) [of "handles s" x h] H(1) by simp
    with None v less H(1) new frame frame' crowd(1) crowded [OF step] show ?thesis
      by (auto simp: expand_move_def wp_simps Let_def hd_def [symmetric])
  next
    case (Some y)
    then obtain hy where y: "y \<in> S" "y \<noteq> x" "handles s y = Some hy" using hd H(2) by blast
    then have "?H = (handles s)(x \<mapsto> h\<lparr>uh_hh_prev := None, uh_hh_next := Some y\<rparr>, y \<mapsto> hy\<lparr>uh_hh_prev := Some x\<rparr>)"
      using push_links_eq(2) [of "handles s" x h] H(1) Some by simp
    with Some y v less H(1) new frame frame' crowd(1) crowded [OF step] show ?thesis
      by (auto simp: expand_move_def wp_simps Let_def hd_def [symmetric])
  qed
qed


lemma expand_chain_spec:
  assumes T: "counting t T s" "num_buckets T * 2 = of_nat (length new)" "length new = 2 ^ k" "k \<le> 31"
    and ys: "dseg (hh_prev_in (handles s)) (hh_next_in (handles s)) p ys None" "distinct ys" "set ys \<inter> S = {}"
    and S: "\<forall>z \<in> S \<union> set ys. handles s z \<noteq> None" "buckets_ok (handles s) new S"
    and crowd: "ideal_chain_maxlen T = 1" "crowds new" "few (S \<union> set ys)"
  shows "wp (expand_chain t (first ys None) new) (\<lambda>new' s'. length new' = length new \<and> crowds new' \<and>
    buckets_ok (handles s') new' (S \<union> set ys) \<and> moved (S \<union> set ys) t T s s') s"
  using assms
proof (induction ys arbitrary: p S new s)
  case Nil
  then show ?case unfolding expand_chain_def by (subst wp_loop) (simp add: wp_simps moved_refl)
next
  case (Cons x ys)
  obtain h where h: "handles s x = Some h" using Cons.prems(8) by auto
  have next': "uh_hh_next h = first ys None" using Cons.prems(5) h by (simp add: hh_next_in_def)
  have step: "wp (expand_move t x new) (\<lambda>(nxt, new') s'. nxt = uh_hh_next h \<and> length new' = length new \<and> crowds new' \<and>
      buckets_ok (handles s') new' (insert x S) \<and> moved (insert x S) t T s s') s"
  proof (rule expand_move_spec)
    show "few S" using Cons.prems(12) by (rule few_subset) blast
  qed (use Cons.prems h in auto)
  have rest: "wp (expand_chain t (first ys None) new') (\<lambda>new'' s''. length new'' = length new \<and> crowds new'' \<and>
      buckets_ok (handles s'') new'' (insert x (S \<union> set ys)) \<and> moved (insert x (S \<union> set ys)) t T s s'') s'"
    if s': "length new' = length new" "buckets_ok (handles s') new' (insert x S)" "moved (insert x S) t T s s'" "crowds new'" for new' s'
  proof -
    have ag: "\<forall>z \<in> set ys. handles s' z = handles s z"
      using s'(3) Cons.prems(6,7) by (auto simp: moved_def ut_frame_def agree_def)
    have "dseg (hh_prev_in (handles s')) (hh_next_in (handles s')) (Some x) ys None"
      using Cons.prems(5) ag by (auto simp: link_defs elim!: dseg_cong)
    moreover have "handles s' z = None \<longleftrightarrow> handles s z = None" for z
      using s'(3) relinked_None unfolding moved_def by blast
    then have "\<forall>z \<in> insert x S \<union> set ys. handles s' z \<noteq> None" using Cons.prems(8) by simp
    ultimately have "wp (expand_chain t (first ys None) new') (\<lambda>new'' s''. length new'' = length new' \<and> crowds new'' \<and>
        buckets_ok (handles s'') new'' (insert x S \<union> set ys) \<and> moved (insert x S \<union> set ys) t T s' s'') s'"
      using Cons.prems s' by (intro Cons.IH) (auto simp: moved_def)
    then show ?thesis
      by (rule wp_mono) (use s' moved_mono [OF s'(3), of "insert x (S \<union> set ys)"] in \<open>auto intro: moved_trans\<close>)
  qed
  show ?case
    unfolding expand_chain_def
    by (subst wp_loop) (auto simp: wp_simps next' expand_chain_def [symmetric] intro!: wp_mono [OF step] rest)
qed


lemma wp_expand_all:
  "wp (expand_all t i new) Q s = (case table_at (tables s) t of None \<Rightarrow> False | Some T \<Rightarrow>
     if i < num_buckets T
     then unat i < length (ut_buckets T) \<and>
       wp (expand_chain t (ub_head (ut_buckets T ! unat i)) new) (\<lambda>new. wp (expand_all t (i + 1) new) Q) s
     else Q new s)"
  unfolding expand_all_def
  by (subst wp_loop) (simp add: wp_simps split: option.splits)

text \<open>The buckets from \<open>i\<close> on; \<open>R\<close> is what was moved before.\<close>

lemma expand_all_spec:
  fixes s0 s :: "('w, 'm) ut_scheme" and i :: u32 and T S j
  defines "R \<equiv> {x \<in> S. bucket_index (handles s0) (2 ^ j) x < unat i}"
  assumes old: "buckets_ok (handles s0) (ut_buckets T) S" "length (ut_buckets T) = 2 ^ j" "num_buckets T = 2 ^ j" "j \<le> 30"
      "\<forall>z \<in> S. handles s0 z \<noteq> None" "counting t T s0" "ideal_chain_maxlen T = 1" "few S"
    and i: "unat i \<le> 2 ^ j"
    and new: "length new = 2 ^ Suc j" "buckets_ok (handles s) new R" "moved R t T s0 s" "crowds new"
  shows "wp (expand_all t i new) (\<lambda>new' s'. length new' = 2 ^ Suc j \<and> crowds new' \<and> buckets_ok (handles s') new' S \<and> moved S t T s0 s') s"
  using i new unfolding R_def
proof (induction "2 ^ j - unat i" arbitrary: i new s)
  case (0 i new s)
  then have "unat i = 2 ^ j" by simp
  then have all: "{x \<in> S. bucket_index (handles s0) (2 ^ j) x < unat i} = S"
    using bucket_index_less [of j] old(4) by auto
  have "\<not> i < num_buckets T" using \<open>unat i = 2 ^ j\<close> old(3,4) by (simp add: word_less_nat_alt unat_2_power)
  moreover have "counting t T s" using "0.prems"(4) by (simp add: moved_def)
  ultimately show ?case
    using "0.prems"(2-5) unfolding all by (subst wp_expand_all) (auto simp: counting_def)
next
  case (Suc m i new s)
  let ?R = "{x \<in> S. bucket_index (handles s0) (2 ^ j) x < unat i}"
  let ?C = "{x \<in> S. bucket_index (handles s0) (2 ^ j) x = unat i}"
  have i: "unat i < 2 ^ j" using Suc(2) by simp
  then have less: "i < num_buckets T" using old(3,4) by (simp add: word_less_nat_alt unat_2_power)
  have succ: "unat (i + 1) = Suc (unat i)"
    using i old(4) power_increasing [of j 30 "2 :: nat"] by (simp add: unat_word_ariths)
  obtain ys where ys: "bucket_ok (handles s0) (ut_buckets T ! unat i) ys" "set ys = ?C"
    using old(1) i by (rule_tac buckets_okE [of "handles s0" "ut_buckets T" S "unat i"]) (simp_all add: old(2))
  have cnt: "counting t T s" using Suc.prems(4) by (simp add: moved_def)
  have "agree (set ys) (handles s0) (handles s)"
    using Suc.prems(4) ys(2) by (auto simp: moved_def ut_frame_def agree_def)
  with ys(1) have B: "bucket_ok (handles s) (ut_buckets T ! unat i) ys" by (rule bucket_ok_agree)
  have def': "handles s z = None \<longleftrightarrow> handles s0 z = None" for z
    using Suc.prems(4) relinked_None unfolding moved_def by blast
  have chain: "wp (expand_chain t (first ys None) new) (\<lambda>new' s'. length new' = length new \<and> crowds new' \<and>
      buckets_ok (handles s') new' (?R \<union> set ys) \<and> moved (?R \<union> set ys) t T s s') s"
  proof (rule expand_chain_spec [where k = "Suc j" and p = None])
    show "few (?R \<union> set ys)" using old(8) by (rule few_subset) (auto simp: ys(2))
  qed (use B ys(2) Suc.prems(2,3,5) old(3-5,7) cnt def' in \<open>auto simp: bucket_ok_def\<close>)
  have union: "?R \<union> set ys = {x \<in> S. bucket_index (handles s0) (2 ^ j) x < unat (i + 1)}"
    unfolding ys(2) succ less_Suc_eq by blast
  have rest: "wp (expand_all t (i + 1) new') (\<lambda>new' s'. length new' = 2 ^ Suc j \<and> crowds new' \<and>
      buckets_ok (handles s') new' S \<and> moved S t T s0 s') s'"
    if s': "length new' = length new" "buckets_ok (handles s') new' (?R \<union> set ys)" "moved (?R \<union> set ys) t T s s'" "crowds new'" for new' s'
  proof (rule Suc.hyps(1))
    show "m = 2 ^ j - unat (i + 1)" "unat (i + 1) \<le> 2 ^ j" using Suc(2) succ i by auto
    show "crowds new'" by (rule s'(4))
    show "length new' = 2 ^ Suc j" using s'(1) Suc.prems(2) by simp
    show "buckets_ok (handles s') new' {x \<in> S. bucket_index (handles s0) (2 ^ j) x < unat (i + 1)}"
      using s'(2) unfolding union .
    have "moved (?R \<union> set ys) t T s0 s'" by (rule moved_trans [OF moved_mono [OF Suc.prems(4)] s'(3)]) simp
    then show "moved {x \<in> S. bucket_index (handles s0) (2 ^ j) x < unat (i + 1)} t T s0 s'" unfolding union .
  qed
  obtain v where v: "table_at (tables s) t = Some (T\<lparr>nonideal_items := v\<rparr>)" using cnt by (auto simp: counting_def)
  have head: "ub_head (ut_buckets T ! unat i) = first ys None" using B by (simp add: bucket_ok_def)
  have "wp (expand_chain t (first ys None) new) (\<lambda>new. wp (expand_all t (i + 1) new) (\<lambda>new' s'. length new' = 2 ^ Suc j \<and> crowds new' \<and>
      buckets_ok (handles s') new' S \<and> moved S t T s0 s')) s"
    by (rule wp_mono [OF chain], elim conjE, rule rest)
  then show ?case
    using v less i head by (subst wp_expand_all) (simp add: old(2))
qed

lemma buckets_ok_zero: "buckets_ok H (replicate n zero_bucket) {}"
  by (auto simp: buckets_ok_def bucket_ok_def zero_bucket_def)

text \<open>The table afterwards.\<close>

definition doubled :: "nat \<Rightarrow> ut_table \<Rightarrow> ut_table \<Rightarrow> bool" where
  "doubled k T T' \<longleftrightarrow> sized (Suc k) T' \<and> ut_tail T' = ut_tail T \<and> num_items T' = num_items T \<and> crowds (ut_buckets T')"

lemma ideal_maxlen_1:
  assumes T: "sized k T" "5 \<le> k" "k \<le> 30" and m: "num_items T = of_nat m" "0 < m" "m < 64"
  shows "ideal_maxlen T = 1"
proof -
  have "unat (log2_num_buckets T + 1) = Suc k"
    using T by (simp add: sized_def unat_word_ariths unat_of_nat take_bit_nat_eq_self)
  moreover have small: "m < 2 ^ Suc k" using T(2) m(3) power_increasing [of 6 "Suc k" "2 :: nat"] by simp
  have "unat (drop_bit (Suc k) (of_nat m :: u32)) = drop_bit (Suc k) m"
    using m(3) by (simp add: unsigned_drop_bit_eq unat_of_nat take_bit_nat_eq_self)
  then have "drop_bit (Suc k) (of_nat m :: u32) = 0" using small by (simp add: drop_bit_eq_div unat_eq_0)
  moreover have "num_buckets T * 2 = 2 ^ Suc k" using T by (simp add: sized_def)
  moreover have "take_bit (Suc k) (of_nat m :: u32) = of_nat m"
    using small by (simp add: take_bit_nat_eq_self flip: of_nat_take_bit)
  then have "(of_nat m :: u32) AND (2 ^ Suc k - 1) = of_nat m" by (simp add: take_bit_eq_mask mask_eq_exp_minus_1)
  moreover have "(of_nat m :: u32) \<noteq> 0" using m(2,3) by (simp add: word_of_nat_eq_0_iff nat_dvd_not_less)
  ultimately show ?thesis using m(1) by (simp add: ideal_maxlen_def)
qed

lemma expand_spec:
  assumes os: "malloc_succeeds os" and T: "table_at (tables s) t = Some T" "sized k T" "k \<le> 30"
    and S: "buckets_ok (handles s) (ut_buckets T) S" "\<forall>z \<in> S. handles s z \<noteq> None"
    and items: "5 \<le> k" "num_items T = of_nat m" "few S" "0 < m" "m < 64"
  shows "wp (HASH_EXPAND_BUCKETS os t) (\<lambda>_ s'. relinked (handles s) (handles s') \<and> ut_frame S t s s' \<and>
    (\<exists>T'. table_at (tables s') t = Some T' \<and> doubled k T T' \<and> buckets_ok (handles s') (ut_buckets T') S)) s"
proof -
  let ?T = "T\<lparr>ideal_chain_maxlen := ideal_maxlen T, nonideal_items := 0\<rparr>"
  have sz: "num_buckets T = 2 ^ k" "length (ut_buckets T) = 2 ^ k" "log2_num_buckets T = of_nat k"
    using T(2) by (simp_all add: sized_def)
  have n: "unat (num_buckets T) * 2 = 2 ^ Suc k" using T(3) by (simp add: sz(1) unat_2_power)
  have ideal: "ideal_maxlen T = 1" using items(4,5) by (rule ideal_maxlen_1 [OF T(2) items(1) T(3) items(2)])
  have all: "wp (expand_all t 0 (replicate (2 ^ Suc k) zero_bucket)) (\<lambda>new' s'. length new' = 2 ^ Suc k \<and> crowds new' \<and>
      buckets_ok (handles s') new' S \<and> moved S t ?T u s') u"
    if u: "handles u = handles s" "table_at (tables u) t = Some ?T" for u
    using S sz T(3) u items(3) ideal
    by (intro expand_all_spec [where j = k]) (auto simp: crowds_zero buckets_ok_zero counting_def moved_def intro!: exI [of _ 0])
  have fin: "wp (bnd (upd_tbl t (\<lambda>T. T\<lparr>num_buckets := num_buckets T * 2, log2_num_buckets := log2_num_buckets T + 1, ut_buckets := new,
       ineff_expands := (if drop_bit 1 (num_items T) < nonideal_items T then ineff_expands T + 1 else 0)\<rparr>)) (\<lambda>_.
       upd_tbl t (\<lambda>T. if 1 < ineff_expands T then T\<lparr>noexpand := 1\<rparr> else T)))
     (\<lambda>_ s'. relinked (handles s) (handles s') \<and> ut_frame S t s s' \<and>
    (\<exists>T'. table_at (tables s') t = Some T' \<and> doubled k T T' \<and> buckets_ok (handles s') (ut_buckets T') S)) v"
    if v: "ut_frame S t s u" "handles u = handles s" "length new = 2 ^ Suc k" "buckets_ok (handles v) new S" "moved S t ?T u v" "crowds new" for u v new
  proof -
    obtain c where c: "table_at (tables v) t = Some (?T\<lparr>nonideal_items := c\<rparr>)" using v(5) by (auto simp: moved_def counting_def)
    have frame: "ut_frame S t s (v\<lparr>tables := (tables v)[t := Some X]\<rparr>)" for X
    proof -
      have "ut_frame S t s v" using v(1,5) ut_frame_trans by (auto simp: moved_def)
      then show ?thesis using c by (auto simp: ut_frame_def)
    qed
    show ?thesis
      using c frame v(2-6) T(3) by (auto simp: wp_simps doubled_def sized_def sz moved_def)
  qed
  let ?P = "\<lambda>(_ :: unit) s'. relinked (handles s) (handles s') \<and> ut_frame S t s s' \<and>
    (\<exists>T'. table_at (tables s') t = Some T' \<and> doubled k T T' \<and> buckets_ok (handles s') (ut_buckets T') S)"
  show ?thesis
    unfolding HASH_EXPAND_BUCKETS_def wp_bnd [of "tbl _"] wp_tbl T(1) option.case n
  proof (rule wp_bndI [OF wp_uthash_malloc [OF os]])
    fix w show "\<exists>w'. s\<lparr>world := w\<rparr> = s\<lparr>world := w'\<rparr>" by blast
  next
    fix a :: unit and u :: "('a, 'b) ut_scheme" assume "\<exists>w. u = s\<lparr>world := w\<rparr>"
    then obtain w where w: "u = s\<lparr>world := w\<rparr>" by blast
    let ?u = "u\<lparr>tables := (tables u)[t := Some ?T]\<rparr>"
    have "ut_frame S t s ?u" using T(1) by (simp add: w ut_frame_def agree_def)
    then have "wp (bnd (expand_all t 0 (replicate (2 ^ Suc k) zero_bucket)) (\<lambda>new.
        bnd (upd_tbl t (\<lambda>T. T\<lparr>num_buckets := num_buckets T * 2, log2_num_buckets := log2_num_buckets T + 1, ut_buckets := new,
       ineff_expands := (if drop_bit 1 (num_items T) < nonideal_items T then ineff_expands T + 1 else 0)\<rparr>)) (\<lambda>_.
       upd_tbl t (\<lambda>T. if 1 < ineff_expands T then T\<lparr>noexpand := 1\<rparr> else T)))) ?P ?u"
      using T(1) by (intro wp_bndI [OF all] fin [of ?u]) (auto simp: w)
    then show "wp (bnd (upd_tbl t (\<lambda>T. T\<lparr>ideal_chain_maxlen := ideal_maxlen T, nonideal_items := 0\<rparr>)) (\<lambda>_.
        bnd (expand_all t 0 (replicate (2 ^ Suc k) zero_bucket)) (\<lambda>new.
        bnd (upd_tbl t (\<lambda>T. T\<lparr>num_buckets := num_buckets T * 2, log2_num_buckets := log2_num_buckets T + 1, ut_buckets := new,
       ineff_expands := (if drop_bit 1 (num_items T) < nonideal_items T then ineff_expands T + 1 else 0)\<rparr>)) (\<lambda>_.
       upd_tbl t (\<lambda>T. if 1 < ineff_expands T then T\<lparr>noexpand := 1\<rparr> else T))))) ?P u"
      using T(1) by (simp only: wp_bnd [of "upd_tbl _ _"] wp_upd_tbl) (simp add: w)
  qed
qed



section \<open>Adding\<close>

text \<open>One element of the list is not yet in a bucket, and not counted.\<close>

definition linked :: "store \<Rightarrow> nat \<Rightarrow> ut_table \<Rightarrow> nat \<Rightarrow> elt list \<Rightarrow> elt \<Rightarrow> bool" where
  "linked H t T k xs x \<longleftrightarrow> list_ok H t T xs \<and> x \<in> set xs \<and> num_items T + 1 = of_nat (length xs) \<and> sized k T \<and>
     buckets_ok H (ut_buckets T) (set xs - {x})"

text \<open>What putting an element into its bucket has to reach, and what adding it has to reach.\<close>

definition all_bucketed :: "nat \<Rightarrow> nat \<Rightarrow> elt set \<Rightarrow> ut_table \<Rightarrow> ('w, 'm) ut_scheme \<Rightarrow> ('w, 'm) ut_scheme \<Rightarrow> bool" where
  "all_bucketed t n S T s s' \<longleftrightarrow> relinked (handles s) (handles s') \<and> ut_frame S t s s' \<and>
     (\<exists>T' k'. paid n k' T' \<and> table_at (tables s') t = Some T' \<and> sized k' T' \<and> buckets_ok (handles s') (ut_buckets T') S \<and>
       num_items T' = num_items T \<and> ut_tail T' = ut_tail T)"

definition all_linked :: "nat \<Rightarrow> nat \<Rightarrow> elt list \<Rightarrow> ('w, 'm) ut_scheme \<Rightarrow> ('w, 'm) ut_scheme \<Rightarrow> bool" where
  "all_linked t n xs s s' \<longleftrightarrow> relinked (handles s) (handles s') \<and> ut_frame (set xs) t s s' \<and>
     (\<exists>T' k'. paid n k' T' \<and> table_at (tables s') t = Some T' \<and> table_holds (handles s') t T' k' xs)"

lemma crowds_paid:
  assumes "crowds (ut_buckets T)" "buckets_ok H (ut_buckets T) S" "few S" "5 \<le> k" "9 * (k - 5) \<le> n"
  shows "paid n k T"
proof -
  have "roomy 0 T"
    unfolding roomy_def
  proof
    fix B assume B: "B \<in> set (ut_buckets T)"
    then obtain b where "b < length (ut_buckets T)" "B = ut_buckets T ! b" by (auto simp: in_set_conv_nth)
    with few_count [OF assms(2) _ assms(3)] have "unat (ub_count B) < 64" by simp
    then show "unat (ub_count B) \<le> unat (ub_mult B) + 1 + 0 \<and> unat (ub_mult B) \<le> 64"
      using assms(1) B by (auto simp: crowds_def crowd_ok_def)
  qed
  with assms(4,5) show ?thesis by (auto simp: paid_def intro!: exI [of _ 0])
qed

text \<open>A bucket with room for nine more elements is doubled only when they have been added.\<close>

lemma expanded_bucketed:
  assumes os: "malloc_succeeds os" and T: "table_at (tables u) t = Some T" "sized k T" "5 \<le> k" "k \<le> 30"
    and S: "buckets_ok (handles u) (ut_buckets T) S" "\<forall>z \<in> S. handles u z \<noteq> None" "few S"
    and u: "relinked (handles s) (handles u)" "ut_frame S t s u" "9 * (k + 1 - 5) \<le> n"
    and items: "num_items T = of_nat m" "0 < m" "m < 64" "num_items T0 = num_items T" "ut_tail T0 = ut_tail T"
  shows "wp (HASH_EXPAND_BUCKETS os t) (\<lambda>_. all_bucketed t n S T0 s) u"
proof (rule wp_mono [OF expand_spec [OF os T(1,2,4) S(1,2) T(3) items(1) S(3) items(2,3)]], elim conjE exE)
  fix s' T'
  assume s': "relinked (handles u) (handles s')" "ut_frame S t u s'" "table_at (tables s') t = Some T'" "doubled k T T'"
    "buckets_ok (handles s') (ut_buckets T') S"
  have "paid n (Suc k) T'"
    using s'(4,5) S(3) T(3) u(3) by (intro crowds_paid) (auto simp: doubled_def)
  then show "all_bucketed t n S T0 s s'"
    using relinked_trans [OF u(1) s'(1)] ut_frame_trans [OF u(2) s'(2)] s'(3-5) items(4,5) unfolding all_bucketed_def doubled_def by auto
qed

lemma paid_cong: "paid n k T \<Longrightarrow> ut_buckets T' = ut_buckets T \<Longrightarrow> paid n k T'"
  by (simp add: paid_def roomy_def)

lemma paid_full:
  assumes "paid n k T" "b < length (ut_buckets T)" "ub_mult B = ub_mult (ut_buckets T ! b)"
  shows "unat ((ub_mult B + 1) * HASH_BKT_CAPACITY_THRESH) = (unat (ub_mult B) + 1) * 10" "2 \<le> unat ((ub_mult B + 1) * HASH_BKT_CAPACITY_THRESH)"
proof -
  obtain A where "roomy A T" using assms(1) by (auto simp: paid_def)
  then have "unat (ub_mult (ut_buckets T ! b)) \<le> 64" using nth_mem [OF assms(2)] by (simp add: roomy_def)
  then show "unat ((ub_mult B + 1) * HASH_BKT_CAPACITY_THRESH) = (unat (ub_mult B) + 1) * 10"
    by (simp add: assms(3) HASH_BKT_CAPACITY_THRESH_def unat_word_ariths)
  then show "2 \<le> unat ((ub_mult B + 1) * HASH_BKT_CAPACITY_THRESH)" by simp
qed

lemma paid_add:
  assumes "paid n k T" "b < length (ut_buckets T)" "unat (ub_count (ut_buckets T ! b)) < 64"
    and T': "ut_buckets T' = (ut_buckets T)[b := B]" "ub_count B = ub_count (ut_buckets T ! b) + 1" "ub_mult B = ub_mult (ut_buckets T ! b)"
  shows "paid (Suc n) k T'" "(ub_mult B + 1) * HASH_BKT_CAPACITY_THRESH \<le> ub_count B \<Longrightarrow> 9 * (k + 1 - 5) \<le> Suc n"
proof -
  obtain A where A: "5 \<le> k" "9 * (k - 5) + A \<le> n" "roomy A T" using assms(1) by (auto simp: paid_def)
  have b: "unat (ub_count (ut_buckets T ! b)) \<le> unat (ub_mult (ut_buckets T ! b)) + 1 + A" "unat (ub_mult (ut_buckets T ! b)) \<le> 64"
    using A(3) nth_mem [OF assms(2)] by (auto simp: roomy_def)
  have count: "unat (ub_count B) = unat (ub_count (ut_buckets T ! b)) + 1" using assms(3) by (simp add: T'(2) unat_add_1)
  have "roomy (Suc A) T'"
    unfolding roomy_def
  proof
    fix C assume "C \<in> set (ut_buckets T')"
    then consider "C = B" | "C \<in> set (ut_buckets T)"
      using set_update_subset_insert [of "ut_buckets T" b B] by (auto simp: T'(1))
    then show "unat (ub_count C) \<le> unat (ub_mult C) + 1 + Suc A \<and> unat (ub_mult C) \<le> 64"
    proof cases
      case 1
      then show ?thesis using b count T'(3) by simp
    next
      case 2
      then show ?thesis using A(3) unfolding roomy_def by fastforce
    qed
  qed
  then show "paid (Suc n) k T'" using A by (auto simp: paid_def intro!: exI [of _ "Suc A"])
  assume "(ub_mult B + 1) * HASH_BKT_CAPACITY_THRESH \<le> ub_count B"
  moreover have "unat ((ub_mult B + 1) * HASH_BKT_CAPACITY_THRESH) = (unat (ub_mult B) + 1) * 10"
    using assms(1,2) T'(3) by (rule paid_full)
  ultimately have "(unat (ub_mult B) + 1) * 10 \<le> unat (ub_count B)" by (simp add: word_le_nat_alt)
  then show "9 * (k + 1 - 5) \<le> Suc n" using b count A T'(3) by simp
qed

lemma count_le_card:
  assumes "buckets_ok H bs S" "b < length bs" "few S"
  shows "unat (ub_count (bs ! b)) \<le> card S"
proof -
  obtain ys where ys: "bucket_ok H (bs ! b) ys" "set ys = {x \<in> S. bucket_index H (length bs) x = b}"
    using assms(1,2) by (rule buckets_okE)
  have "card (set ys) \<le> card S" using assms(3) ys(2) by (intro card_mono) (auto simp: few_def)
  moreover from this have "length ys < 64" using ys(1) assms(3) by (simp add: bucket_ok_def few_def distinct_card)
  ultimately show ?thesis using ys(1) by (simp add: bucket_ok_def distinct_card unat_of_nat take_bit_nat_eq_self)
qed

text \<open>
  One element is put into its bucket. The number of the elements may not count it yet: it is
  only used to compute the ideal length of a chain.
\<close>

lemma add_to_bkt_spec:
  assumes os: "malloc_succeeds os" and T: "table_at (tables s) t = Some T" "sized k T" "paid n k T" "n < 200"
    and S: "handles_ok (handles s) t S" "few S" "x \<in> S" "buckets_ok (handles s) (ut_buckets T) (S - {x})"
    and items: "num_items T = of_nat m" "m < 64" "card S \<le> Suc m" and h: "handles s x = Some h"
  shows "wp (HASH_ADD_TO_BKT os t (HASH_TO_BKT (uh_hashv h) (num_buckets T)) x) (\<lambda>_. all_bucketed t (Suc n) S T s) s"
proof -
  have k: "5 \<le> k" "k \<le> 30" using T(3) paid_few [OF T(3,4)] by (simp_all add: paid_def)
  have sz: "num_buckets T = 2 ^ k" "length (ut_buckets T) = 2 ^ k" using T(2) by (simp_all add: sized_def)
  have tbl: "uh_tbl h = Some t" using S(1,3) h by (auto simp: handles_ok_def handle_ok_def)
  let ?w = "HASH_TO_BKT (uh_hashv h) (num_buckets T)"
  let ?b = "unat ?w"
  have b: "bucket_index (handles s) (length (ut_buckets T)) x = ?b" using h by (simp add: bucket_index_def sz)
  have less: "?b < length (ut_buckets T)" using bucket_index_less [of k "handles s" x] b k by (simp add: sz)
  define hd where "hd = ub_head (ut_buckets T ! ?b)"
  let ?B = "(ut_buckets T ! ?b)\<lparr>ub_count := ub_count (ut_buckets T ! ?b) + 1, ub_head := Some x\<rparr>"
  let ?T = "T\<lparr>ut_buckets := (ut_buckets T)[?b := ?B]\<rparr>"
  let ?H = "push_links x hd (handles s)"
  have hd: "z \<in> S \<and> z \<noteq> x" if "hd = Some z" for z
    using head_in_bucket [OF S(4) less] that by (auto simp: hd_def)
  have "buckets_ok ?H ((ut_buckets T)[?b := ?B]) (insert x (S - {x}))"
    unfolding hd_def using S handles_ok_defined [OF S(1)] less b by (intro buckets_push) auto
  then have buckets: "buckets_ok ?H ((ut_buckets T)[?b := ?B]) S" using S(3) by (simp add: insert_absorb)
  let ?u = "s\<lparr>handles := ?H, tables := (tables s)[t := Some ?T]\<rparr>"
  have frame: "ut_frame S t s ?u"
    using push_links_frame [of hd S x "handles s"] hd T(1) S(3) by (auto simp: ut_frame_def insert_absorb)
  have "few (S - {x})" using S(2) by (rule few_subset) blast
  then have "unat (ub_count (ut_buckets T ! ?b)) < 64" by (rule few_count [OF S(4) less])
  note paid = paid_add [OF T(3) less this, of ?T ?B, simplified]
  have links: "relinked (handles s) ?H" by (rule push_links_relinked)
  define Q where "Q = (\<lambda>_ :: unit. all_bucketed t (Suc n) S T s)"
  have goal: "Q () ?u" using T(1,2) buckets paid(1) links frame by (auto simp: Q_def all_bucketed_def sized_def intro!: exI [of _ k])
  have grow: "wp (HASH_EXPAND_BUCKETS os t) Q ?u" if full: "(ub_mult ?B + 1) * HASH_BKT_CAPACITY_THRESH \<le> ub_count ?B"
  proof -
    have "9 * (k + 1 - 5) \<le> Suc n" using paid(2) full by simp
    moreover have "m \<noteq> 0"
    proof
      assume "m = 0"
      then have "unat (ub_count ?B) \<le> 1" using count_le_card [OF buckets, of ?b] less S(2) items(3) by simp
      moreover have "2 \<le> unat ((ub_mult ?B + 1) * HASH_BKT_CAPACITY_THRESH)" by (rule paid_full(2) [OF T(3) less]) simp
      ultimately show False using full by (simp add: word_le_nat_alt)
    qed
    moreover have "\<forall>z \<in> S. handles ?u z \<noteq> None" using handles_ok_defined [OF S(1)] relinked_None [OF links] by simp
    ultimately show ?thesis
      unfolding Q_def using T(1,2) k buckets S(2) links frame items
      by (intro expanded_bucketed [OF os, where T = ?T and k = k and m = m]) (auto simp: sized_def)
  qed
  have tbl': "table_at ((tables s)[t := Some X]) t = Some X" for X using T(1) by simp
  have "wp (HASH_ADD_TO_BKT os t ?w x) Q s"
  proof (cases hd)
    case None
    then have "?H = (handles s)(x \<mapsto> h\<lparr>uh_hh_next := None, uh_hh_prev := None\<rparr>)" using push_links_eq(3) [of "handles s" x h] h by simp
    with None T(1) less h tbl goal grow show ?thesis
      by (auto simp: HASH_ADD_TO_BKT_def wp_simps hd_def [symmetric])
  next
    case (Some z)
    then obtain hz where z: "z \<noteq> x" "handles s z = Some hz" using hd handles_ok_defined [OF S(1)] by fastforce
    then have "?H = (handles s)(x \<mapsto> h\<lparr>uh_hh_next := Some z, uh_hh_prev := None\<rparr>, z \<mapsto> hz\<lparr>uh_hh_prev := Some x\<rparr>)"
      using push_links_eq(4) [of "handles s" x h] h Some by simp
    with Some z T(1) less h tbl goal grow show ?thesis
      by (auto simp: HASH_ADD_TO_BKT_def wp_simps hd_def [symmetric])
  qed
  then show ?thesis by (simp add: Q_def)
qed

lemma add_to_table_spec:
  assumes os: "malloc_succeeds os" and T: "table_at (tables s) t = Some T" "linked (handles s) t T k xs x" "paid n k T" "n < 200" "length xs < 64"
    and head: "head = first xs None" "hashv = uh_hashv (the (handles s x))"
  shows "wp (HASH_ADD_TO_TABLE os head hashv x) (\<lambda>_. all_linked t (Suc n) xs s) s"
proof -
  have H: "list_ok (handles s) t T xs" "num_items T + 1 = of_nat (length xs)" "sized k T"
      "buckets_ok (handles s) (ut_buckets T) (set xs - {x})" and x: "x \<in> set xs"
    using T(2) by (simp_all add: linked_def)
  then have ok: "handles_ok (handles s) t (set xs)" and dist: "distinct xs" by (simp_all add: list_ok_def)
  obtain h where h: "handles s x = Some h" using ok x by (auto simp: handles_ok_def)
  obtain y hy where y: "head = Some y" "handles s y = Some hy" "uh_tbl hy = Some t"
    using ok x head(1) by (cases xs) (auto simp: handles_ok_def handle_ok_def)
  let ?T = "T\<lparr>num_items := num_items T + 1\<rparr>"
  let ?u = "s\<lparr>tables := (tables s)[t := Some ?T]\<rparr>"
  have few: "few (set xs)" using dist T(5) by (simp add: few_def distinct_card)
  have frame: "ut_frame (set xs) t s ?u" using T(1) by (auto simp: ut_frame_def agree_def)
  have "wp (HASH_ADD_TO_BKT os t (HASH_TO_BKT (uh_hashv h) (num_buckets ?T)) x) (\<lambda>_. all_bucketed t (Suc n) (set xs) ?T ?u) ?u"
    using T(1,3-5) H ok few x dist h
    by (intro add_to_bkt_spec [OF os, where m = "length xs" and k = k]) (auto simp: sized_def distinct_card elim: paid_cong)
  then have "wp (HASH_ADD_TO_BKT os t (HASH_TO_BKT (uh_hashv h) (num_buckets T)) x) (\<lambda>_. all_linked t (Suc n) xs s) ?u"
  proof (simp, elim wp_mono)
    fix s' assume b: "all_bucketed t (Suc n) (set xs) ?T ?u s'"
    then obtain T' k' where T': "paid (Suc n) k' T'" "table_at (tables s') t = Some T'" "sized k' T'"
      "buckets_ok (handles s') (ut_buckets T') (set xs)" "num_items T' = of_nat (length xs)" "ut_tail T' = ut_tail T"
      "relinked (handles s) (handles s')" "ut_frame (set xs) t ?u s'"
      using H(2) by (auto simp: all_bucketed_def)
    have "table_holds (handles s') t T' k' xs" using T' list_ok_relinked [OF H(1) T'(7,6)] by (simp add: table_holds_def)
    then show "all_linked t (Suc n) xs s s'" using T' ut_frame_trans [OF frame T'(8)] unfolding all_linked_def by blast
  qed
  then show ?thesis using y T(1) h head(2) by (simp add: HASH_ADD_TO_TABLE_def wp_simps)
qed


text \<open>A first element makes the table.\<close>

lemma make_table_linked:
  assumes os: "malloc_succeeds os" and x: "handles s x = Some h" "uh_prev h = None" "uh_next h = None"
    and key: "short_key (uh_key h)" "uh_keylen h = of_nat (length (uh_key h))" "uh_hashv h = HASH_JEN (uh_key h) (uh_keylen h)"
  shows "wp (HASH_MAKE_TABLE os x) (\<lambda>_ s'. handles s' = (handles s)(x \<mapsto> h\<lparr>uh_tbl := Some (length (tables s))\<rparr>) \<and>
    ut_frame {x} (length (tables s)) s s' \<and>
    (\<exists>T. table_at (tables s') (length (tables s)) = Some T \<and> linked (handles s') (length (tables s)) T 5 [x] x \<and> paid 0 5 T)) s"
proof -
  let ?t = "length (tables s)"
  let ?T = "ut_zero_table\<lparr>ut_tail := Some x, num_buckets := 32, log2_num_buckets := 5, signature := HASH_SIGNATURE,
     ut_buckets := replicate 32 zero_bucket\<rparr>"
  let ?H = "(handles s)(x \<mapsto> h\<lparr>uh_tbl := Some ?t\<rparr>)"
  have linked: "linked ?H ?t ?T 5 [x] x"
    using x key by (auto simp: linked_def list_ok_def handles_ok_def handle_ok_def link_defs sized_def ut_zero_table_def buckets_ok_zero)
  have paid: "paid 0 5 ?T" by (simp add: paid_def roomy_def zero_bucket_def)
  have rest: "wp (bnd (uthash_malloc os (HASH_INITIAL_NUM_BUCKETS * UT_BUCKET_SIZE)) (\<lambda>_.
       upd_tbl ?t (\<lambda>T. T\<lparr>signature := HASH_SIGNATURE, ut_buckets := replicate HASH_INITIAL_NUM_BUCKETS zero_bucket\<rparr>)))
     (\<lambda>_ s'. handles s' = ?H \<and> ut_frame {x} ?t s s' \<and>
       (\<exists>T. table_at (tables s') ?t = Some T \<and> linked (handles s') ?t T 5 [x] x \<and> paid 0 5 T)) u"
    if u: "u = s\<lparr>world := w, tables := tables s @ [Some (ut_zero_table\<lparr>ut_tail := Some x, num_buckets := of_nat HASH_INITIAL_NUM_BUCKETS, log2_num_buckets := 5\<rparr>)],
      handles := ?H\<rparr>" for u w
    unfolding wp_bnd
    by (rule wp_uthash_malloc [OF os]) (use linked paid in \<open>auto simp: u wp_simps HASH_INITIAL_NUM_BUCKETS_def ut_frame_def agree_def\<close>)
  show ?thesis
    unfolding HASH_MAKE_TABLE_def
    by (rule wp_bndI [where P = "\<lambda>_ u. \<exists>w. u = s\<lparr>world := w\<rparr>", OF wp_uthash_malloc [OF os]], blast)
      (use x(1) in \<open>auto simp: wp_bnd [of "gets _"] wp_bnd [of "modify _"] wp_bnd [of "upd_hh _ _"] wp_gets wp_modify wp_upd_hh intro!: rest\<close>)
qed


text \<open>Otherwise it is put behind the last one.\<close>

lemma append_linked:
  assumes T: "table_at (tables s) t = Some T" "table_holds H0 t T k xs"
    and H0: "agree (set xs) H0 (handles s)" and head: "head = first xs None"
    and x: "x \<notin> set xs" "handles s x = Some h" "uh_tbl h = Some t" "short_key (uh_key h)"
      "uh_keylen h = of_nat (length (uh_key h))" "uh_hashv h = HASH_JEN (uh_key h) (uh_keylen h)"
  shows "wp (HASH_APPEND_LIST head x) (\<lambda>_ s'. ut_frame (set (xs @ [x])) t s s' \<and>
    (\<forall>z. map_option uh_key (handles s' z) = map_option uh_key (handles s z)) \<and>
    map_option uh_hashv (handles s' x) = Some (uh_hashv h) \<and>
    (\<exists>T'. table_at (tables s') t = Some T' \<and> linked (handles s') t T' k (xs @ [x]) x \<and> ut_buckets T' = ut_buckets T)) s"
proof -
  have H: "list_ok H0 t T xs" "sized k T" "buckets_ok H0 (ut_buckets T) (set xs)" "num_items T = of_nat (length xs)"
    using T(2) by (simp_all add: table_holds_def)
  then obtain ys l where xs: "xs = ys @ [l]" by (cases xs rule: rev_cases) (auto simp: list_ok_def)
  have ok: "handles_ok (handles s) t (set xs)" using H(1) H0 by (auto simp: list_ok_def handles_ok_def agree_def)
  obtain hl where hl: "handles s l = Some hl" "handle_ok t hl" using ok xs by (auto simp: handles_ok_def)
  obtain y hy where y: "head = Some y" "handles s y = Some hy" "uh_tbl hy = Some t" "y \<noteq> x"
    using ok head x(1) xs by (cases ys) (auto simp: handles_ok_def handle_ok_def)
  have tail: "ut_tail T = Some l" "l \<noteq> x" using H(1) x(1) xs by (auto simp: list_ok_def)
  let ?H = "(handles s)(x \<mapsto> h\<lparr>uh_next := None, uh_prev := Some l\<rparr>, l \<mapsto> hl\<lparr>uh_next := Some x\<rparr>)"
  have same: "H0 z = handles s z" if "z \<in> set xs" for z using H0 that by (simp add: agree_def)
  have "dseg (prev_in ?H) (next_in ?H) None (ys @ [l, x]) None"
    using H(1) x(1) tail(2) hl same unfolding list_ok_def xs
    by (intro dseg_snoc [of "prev_in H0" "next_in H0"]) (auto simp: link_defs)
  moreover have "handles_ok ?H t (set (xs @ [x]))"
    using ok hl x tail(2) by (auto simp: handles_ok_def handle_ok_def)
  moreover have "buckets_ok ?H (ut_buckets T) (set xs)"
    using same hl(1) x(1) by (intro buckets_ok_cong [OF H(3)]) (auto simp: bucket_index_def link_defs)
  moreover have "set (xs @ [x]) - {x} = set xs" using x(1) by auto
  ultimately have linked: "linked ?H t (T\<lparr>ut_tail := Some x\<rparr>) k (xs @ [x]) x"
    using H x(1) tail(2) xs by (auto simp: linked_def list_ok_def sized_def)
  show ?thesis
    using linked T(1) x(2) y hl(1) tail xs
    by (auto simp: HASH_APPEND_LIST_def wp_simps ut_frame_def agree_def)
qed

lemma hash_ok_mono: "hash_ok n head t s xs \<Longrightarrow> n \<le> m \<Longrightarrow> hash_ok m head t s xs"
  unfolding hash_ok_def by (meson paid_mono)

lemma relinked_key: "relinked H H' \<Longrightarrow> map_option uh_key (H' z) = map_option uh_key (H z)"
proof (cases "H z")
  case (Some h)
  assume "relinked H H'"
  then obtain h' where "H' z = Some h'" "unlinked h' = unlinked h" using Some by (rule relinkedD)
  with Some unlinked_eqD [of h' h] show ?thesis by simp
qed (simp add: relinked_None)

text \<open>The keys that the operations leave.\<close>

definition keys_kept :: "elt set \<Rightarrow> ('w, 'm) ut_scheme \<Rightarrow> ('w, 'm) ut_scheme \<Rightarrow> bool" where
  "keys_kept S s s' \<longleftrightarrow> (\<forall>z \<in> S. map_option uh_key (handles s' z) = map_option uh_key (handles s z))"

text \<open>What adding leaves: the list with the new element, and its key.\<close>

definition add_done ::
  "nat \<Rightarrow> nat \<Rightarrow> elt list \<Rightarrow> elt \<Rightarrow> string \<Rightarrow> ('w, 'm) ut_scheme \<Rightarrow> elt option \<Rightarrow> ('w, 'm) ut_scheme \<Rightarrow> bool" where
  "add_done n t xs x name s head' s' \<longleftrightarrow> hash_ok n head' t s' xs \<and> ut_frame (set xs) t s s' \<and> keys_kept (- {x}) s s' \<and>
     map_option uh_key (handles s' x) = Some name"

lemma finish_add:
  assumes os: "malloc_succeeds os" and n: "n < 200" "length xs < 64"
    and u: "ut_frame (set xs) t s u" "\<And>z. map_option uh_key (handles u z) = (if z = x then Some name else map_option uh_key (handles s z))"
      "map_option uh_hashv (handles u x) = Some hash" "table_at (tables u) t = Some T" "linked (handles u) t T k xs x" "paid n k T"
  shows "wp (bnd (HASH_ADD_TO_TABLE os (first xs None) hash x) (\<lambda>_. ret (first xs None))) (add_done (Suc n) t xs x name s) u"
proof (rule wp_bndI)
  have "hash = uh_hashv (the (handles u x))" using u(3) by auto
  then show "wp (HASH_ADD_TO_TABLE os (first xs None) hash x) (\<lambda>_. all_linked t (Suc n) xs u) u"
    using u(6) n by (intro add_to_table_spec [OF os u(4,5)]) simp_all
next
  fix a v assume v: "all_linked t (Suc n) xs u v"
  then have "hash_ok (Suc n) (first xs None) t v xs"
    using n(2) by (auto simp: all_linked_def hash_ok_def)
  moreover
  have key: "map_option uh_key (handles v z) = (if z = x then Some name else map_option uh_key (handles s z))" for z
    using relinked_key u(2) by (rule trans) (use v in \<open>simp add: all_linked_def\<close>)
  have "map_option uh_key (handles v x) = Some name" "keys_kept (- {x}) s v" using key [of x] key by (simp_all add: keys_kept_def)
  moreover have "ut_frame (set xs) t s v" using v u(1) ut_frame_trans by (auto simp: all_linked_def)
  ultimately show "wp (ret (first xs None)) (add_done (Suc n) t xs x name s) v" by (simp add: wp_ret add_done_def)
qed

lemma hash_add_spec:
  fixes s :: "('w, 'm) ut_scheme"
  assumes os: "malloc_succeeds os" and ok: "hash_ok n head t s xs" "n < 200" "length xs < 63"
    and x: "x \<notin> set xs" "handles s x \<noteq> None" "short_key name"
  defines "t' \<equiv> (if xs = [] then length (tables s) else t)"
  shows "wp (HASH_ADD_STR os head name x) (\<lambda>head' s'. hash_ok (Suc n) head' t' s' (xs @ [x]) \<and>
    ut_frame (set (xs @ [x])) t' s s' \<and> keys_kept (- {x}) s s' \<and> map_option uh_key (handles s' x) = Some name) s"
proof -
  obtain h where h: "handles s x = Some h" using x(2) by auto
  let ?hash = "HASH_JEN name (of_nat (length name))" and ?head = "first (xs @ [x]) None"
  let ?h = "h\<lparr>uh_hashv := ?hash, uh_key := name, uh_keylen := of_nat (length name)\<rparr>"
  let ?s = "s\<lparr>handles := (handles s)(x \<mapsto> ?h)\<rparr>"
  define Q where "Q = add_done (Suc n) t' (xs @ [x]) x name s"
  have last: "wp (bnd (HASH_ADD_TO_TABLE os ?head ?hash x) (\<lambda>_. ret ?head)) Q u"
    if "ut_frame (set (xs @ [x])) t' s u" "\<And>z. map_option uh_key (handles u z) = (if z = x then Some name else map_option uh_key (handles s z))"
      "map_option uh_hashv (handles u x) = Some ?hash" "table_at (tables u) t' = Some T" "linked (handles u) t' T k (xs @ [x]) x" "paid n k T" for u T k
    unfolding Q_def using ok(3) by (intro finish_add [OF os ok(2) _ that]) simp
  have begin': "ut_frame (set (xs @ [x])) t' s (s\<lparr>handles := (handles s)(x \<mapsto> g)\<rparr>)" for g
    by (simp add: ut_frame_def agree_def)
  have "wp (HASH_ADD_STR os head name x) Q s"
  proof (cases "xs = []")
    case True
    let ?h1 = "?h\<lparr>uh_next := None, uh_prev := None\<rparr>"
    let ?s1 = "s\<lparr>handles := (handles s)(x \<mapsto> ?h1)\<rparr>"
    have t': "t' = length (tables s)" using True by (simp add: t'_def)
    have "wp (HASH_MAKE_TABLE os x) (\<lambda>_ s'. handles s' = (handles ?s1)(x \<mapsto> ?h1\<lparr>uh_tbl := Some (length (tables ?s1))\<rparr>) \<and>
      ut_frame {x} (length (tables ?s1)) ?s1 s' \<and>
      (\<exists>T. table_at (tables s') (length (tables ?s1)) = Some T \<and> linked (handles s') (length (tables ?s1)) T 5 [x] x \<and> paid 0 5 T)) ?s1"
      using x(3) by (intro make_table_linked [OF os]) simp_all
    then have "wp (bnd (HASH_MAKE_TABLE os x) (\<lambda>_. bnd (HASH_ADD_TO_TABLE os ?head ?hash x) (\<lambda>_. ret ?head))) Q ?s1"
    proof (rule wp_bndI, elim conjE exE)
      fix a :: unit and u T
      assume u: "handles u = (handles ?s1)(x \<mapsto> ?h1\<lparr>uh_tbl := Some (length (tables ?s1))\<rparr>)" "ut_frame {x} (length (tables ?s1)) ?s1 u"
        "table_at (tables u) (length (tables ?s1)) = Some T" "linked (handles u) (length (tables ?s1)) T 5 [x] x" "paid 0 5 T"
      have "ut_frame (set (xs @ [x])) t' s u"
        using ut_frame_trans [OF begin' [of ?h1]] u(2) True t' by simp
      then show "wp (bnd (HASH_ADD_TO_TABLE os ?head ?hash x) (\<lambda>_. ret ?head)) Q u"
        by (rule last [where k = 5]) (use u True ok t' paid_mono [OF u(5)] in auto)
    qed
    then show ?thesis
      using True ok(1) h
      by (simp add: HASH_ADD_STR_def HASH_ADD_KEYPTR_def HASH_ADD_KEYPTR_BYHASHVALUE_def bnd_assoc wp_bnd [of "upd_hh _ _"] wp_upd_hh)
  next
    case False
    obtain T k where T: "head = first xs None" "paid n k T" "table_at (tables s) t = Some T" "table_holds (handles s) t T k xs"
      using ok(1) False by (rule hash_okE)
    obtain y hy where y: "head = Some y" "y \<noteq> x" "handles s y = Some hy" "uh_tbl hy = Some t" "?head = head"
      using T(1,4) False x(1) by (cases xs) (auto simp: table_holds_def list_ok_def handles_ok_def handle_ok_def)
    let ?h1 = "?h\<lparr>uh_tbl := Some t\<rparr>"
    let ?s1 = "s\<lparr>handles := (handles s)(x \<mapsto> ?h1)\<rparr>"
    have "wp (HASH_APPEND_LIST head x) (\<lambda>_ s'. ut_frame (set (xs @ [x])) t ?s1 s' \<and>
      (\<forall>z. map_option uh_key (handles s' z) = map_option uh_key (handles ?s1 z)) \<and>
      map_option uh_hashv (handles s' x) = Some (uh_hashv ?h1) \<and>
      (\<exists>T'. table_at (tables s') t = Some T' \<and> linked (handles s') t T' k (xs @ [x]) x \<and> ut_buckets T' = ut_buckets T)) ?s1"
      using T x(1,3) by (intro append_linked [where h = ?h1]) (auto simp: agree_def)
    then have "wp (bnd (HASH_APPEND_LIST head x) (\<lambda>_. bnd (HASH_ADD_TO_TABLE os ?head ?hash x) (\<lambda>_. ret ?head))) Q ?s1"
    proof (rule wp_bndI, elim conjE exE)
      fix a :: unit and u T'
      assume u: "ut_frame (set (xs @ [x])) t ?s1 u" "\<forall>z. map_option uh_key (handles u z) = map_option uh_key (handles ?s1 z)"
        "map_option uh_hashv (handles u x) = Some (uh_hashv ?h1)" "table_at (tables u) t = Some T'" "linked (handles u) t T' k (xs @ [x]) x" "ut_buckets T' = ut_buckets T"
      have "ut_frame (set (xs @ [x])) t' s u"
        using ut_frame_trans [OF begin' [of ?h1]] u(1) False by (simp add: t'_def)
      then show "wp (bnd (HASH_ADD_TO_TABLE os ?head ?hash x) (\<lambda>_. ret ?head)) Q u"
        by (rule last [where k = k]) (use u False paid_cong [OF T(2) u(6)] in \<open>auto simp: t'_def\<close>)
    qed
    then show ?thesis
      using y h
      by (simp add: HASH_ADD_STR_def HASH_ADD_KEYPTR_def HASH_ADD_KEYPTR_BYHASHVALUE_def bnd_assoc wp_bnd [of "upd_hh _ _"] wp_upd_hh
          wp_bnd [of "head_tbl _"] wp_head_tbl)
  qed
  then show ?thesis unfolding Q_def add_done_def [abs_def] .
qed

end
