(* ===== verification/Hash_Table_Deletion.thy ===== *)
theory Hash_Table_Deletion
  imports Hash_Table_Growth
begin

text \<open>
  Deleting an element, visiting all of them, counting them, and the integrity check.
\<close>

section \<open>Deleting\<close>

text \<open>Taking an element out of the list of all elements.\<close>

definition skip_links :: "elt \<Rightarrow> store \<Rightarrow> store" where
  "skip_links x H =
     (let p = prev_in H x; n = next_in H x;
          H1 = (case p of None \<Rightarrow> H | Some p \<Rightarrow> H(p := map_option (uh_next_update (\<lambda>_. n)) (H p)))
      in case n of None \<Rightarrow> H1 | Some n \<Rightarrow> H1(n := map_option (uh_prev_update (\<lambda>_. p)) (H1 n)))"

lemma skip_links_handle:
  assumes "H z = Some h"
  shows "\<exists>h'. skip_links x H z = Some h' \<and> uh_tbl h' = uh_tbl h \<and> uh_key h' = uh_key h \<and> uh_keylen h' = uh_keylen h \<and>
    uh_hashv h' = uh_hashv h \<and> uh_hh_prev h' = uh_hh_prev h \<and> uh_hh_next h' = uh_hh_next h \<and>
    uh_next h' = (if prev_in H x = Some z then next_in H x else uh_next h) \<and>
    uh_prev h' = (if next_in H x = Some z then prev_in H x else uh_prev h)"
  using assms by (auto simp: skip_links_def Let_def split: option.splits)

lemma skip_links_other: "prev_in H x \<noteq> Some z \<Longrightarrow> next_in H x \<noteq> Some z \<Longrightarrow> skip_links x H z = H z"
  by (auto simp: skip_links_def Let_def split: option.splits)

lemma skip_links_ok:
  assumes H: "handles_ok H t (set (as @ x # bs))" "dseg (prev_in H) (next_in H) None (as @ x # bs) None" "distinct (as @ x # bs)"
  shows "handles_ok (skip_links x H) t (set (as @ x # bs))" "dseg (prev_in (skip_links x H)) (next_in (skip_links x H)) None (as @ bs) None"
proof -
  show "handles_ok (skip_links x H) t (set (as @ x # bs))"
    unfolding handles_ok_def
  proof
    fix z assume "z \<in> set (as @ x # bs)"
    then obtain h where "H z = Some h" "handle_ok t h" using H(1) by (rule_tac handles_okE)
    with skip_links_handle [of H z h x] show "\<exists>h. skip_links x H z = Some h \<and> handle_ok t h" by (auto simp: handle_ok_def)
  qed
  have "next_in (skip_links x H) z = (if prev_in H x = Some z then next_in H x else next_in H z) \<and>
      prev_in (skip_links x H) z = (if next_in H x = Some z then prev_in H x else prev_in H z)" if "z \<in> set (as @ bs)" for z
  proof -
    have "z \<in> set (as @ x # bs)" using that by auto
    then obtain h where h: "H z = Some h" using H(1) by (rule_tac handles_okE)
    with skip_links_handle [of H z h x] h show ?thesis by (auto simp: prev_in_def next_in_def)
  qed
  then show "dseg (prev_in (skip_links x H)) (next_in (skip_links x H)) None (as @ bs) None"
    by (intro dseg_remove [OF H(2,3)]) blast
qed

lemma buckets_skip:
  assumes "buckets_ok H bs S" "\<forall>z \<in> S. H z \<noteq> None"
  shows "buckets_ok (skip_links x H) bs S"
proof (rule buckets_ok_cong [OF assms(1)])
  fix z m assume "z \<in> S"
  then obtain h where "H z = Some h" using assms(2) by auto
  with skip_links_handle [of H z h x]
  show "bucket_index (skip_links x H) m z = bucket_index H m z \<and> hh_prev_in (skip_links x H) z = hh_prev_in H z \<and>
      hh_next_in (skip_links x H) z = hh_next_in H z"
    by (auto simp: bucket_index_def link_defs)
qed

text \<open>\<open>HASH_DEL_IN_BKT\<close>\<close>

lemma drop_links_eq:
  assumes "H x = Some h"
  shows "uh_hh_prev h = None \<Longrightarrow> uh_hh_next h = None \<Longrightarrow> drop_links x H = H"
    "uh_hh_prev h = Some p \<Longrightarrow> uh_hh_next h = None \<Longrightarrow> H p = Some hp \<Longrightarrow> drop_links x H = H(p \<mapsto> hp\<lparr>uh_hh_next := None\<rparr>)"
    "uh_hh_prev h = None \<Longrightarrow> uh_hh_next h = Some n \<Longrightarrow> H n = Some hn \<Longrightarrow> drop_links x H = H(n \<mapsto> hn\<lparr>uh_hh_prev := None\<rparr>)"
    "uh_hh_prev h = Some p \<Longrightarrow> uh_hh_next h = Some n \<Longrightarrow> H p = Some hp \<Longrightarrow> H n = Some hn \<Longrightarrow> p \<noteq> n \<Longrightarrow>
       drop_links x H = H(p \<mapsto> hp\<lparr>uh_hh_next := Some n\<rparr>, n \<mapsto> hn\<lparr>uh_hh_prev := Some p\<rparr>)"
  using assms by (auto simp: drop_links_def Let_def hh_prev_in_def hh_next_in_def fun_eq_iff)

lemma wp_del_in_bkt:
  assumes T: "table_at (tables s) t = Some T" "unat b < length (ut_buckets T)"
    and B: "bucket_ok (handles s) (ut_buckets T ! unat b) (as @ x # bs)" "\<forall>z \<in> set (as @ x # bs). handles s z \<noteq> None"
    and Q: "\<And>B. ub_head B = (if ub_head (ut_buckets T ! unat b) = Some x then hh_next_in (handles s) x else ub_head (ut_buckets T ! unat b)) \<Longrightarrow>
      ub_count B = ub_count (ut_buckets T ! unat b) - 1 \<Longrightarrow> ub_mult B = ub_mult (ut_buckets T ! unat b) \<Longrightarrow>
      Q () (s\<lparr>tables := (tables s)[t := Some (T\<lparr>ut_buckets := (ut_buckets T)[unat b := B]\<rparr>)], handles := drop_links x (handles s)\<rparr>)"
  shows "wp (HASH_DEL_IN_BKT t b x) Q s"
proof -
  obtain h where h: "handles s x = Some h" using B(2) by auto
  have near: "uh_hh_prev h = final None as" "uh_hh_next h = first bs None" using in_chain [OF B(1)] h by (simp_all add: link_defs)
  have dist: "distinct (as @ x # bs)" using B(1) by (simp add: bucket_ok_def)
  have next': "hh_next_in (handles s) x = uh_hh_next h" using h by (simp add: hh_next_in_def)
  show ?thesis
  proof (cases as rule: rev_cases)
    case Nil
    show ?thesis
    proof (cases bs)
      case Nil
      with \<open>as = []\<close> have "drop_links x (handles s) = handles s" using drop_links_eq(1) [where H = "handles s", OF h] near by simp
      with Nil \<open>as = []\<close> T h near Q next' show ?thesis by (auto simp: HASH_DEL_IN_BKT_def wp_simps)
    next
      case (Cons n cs)
      then obtain hn where "handles s n = Some hn" using B(2) by auto
      moreover from this have "drop_links x (handles s) = (handles s)(n \<mapsto> hn\<lparr>uh_hh_prev := None\<rparr>)"
        using drop_links_eq(3) [where H = "handles s", OF h] near Nil Cons by simp
      ultimately show ?thesis using Nil Cons T h near Q next' dist by (auto simp: HASH_DEL_IN_BKT_def wp_simps)
    qed
  next
    case (snoc zs p)
    then obtain hp where hp: "handles s p = Some hp" using B(2) by auto
    show ?thesis
    proof (cases bs)
      case Nil
      have "drop_links x (handles s) = (handles s)(p \<mapsto> hp\<lparr>uh_hh_next := None\<rparr>)"
        using drop_links_eq(2) [where H = "handles s", OF h] near Nil snoc hp by simp
      with snoc Nil T h hp near Q next' dist show ?thesis by (auto simp: HASH_DEL_IN_BKT_def wp_simps)
    next
      case (Cons n cs)
      then obtain hn where hn: "handles s n = Some hn" using B(2) by auto
      have "drop_links x (handles s) = (handles s)(p \<mapsto> hp\<lparr>uh_hh_next := Some n\<rparr>, n \<mapsto> hn\<lparr>uh_hh_prev := Some p\<rparr>)"
        using drop_links_eq(4) [where H = "handles s", OF h] near Cons snoc hp hn dist by auto
      with snoc Cons T h hp hn near Q next' dist show ?thesis by (auto simp: HASH_DEL_IN_BKT_def wp_simps)
    qed
  qed
qed


lemma skip_links_eq:
  assumes "H x = Some h"
  shows "uh_prev h = Some p \<Longrightarrow> uh_next h = None \<Longrightarrow> H p = Some hp \<Longrightarrow> skip_links x H = H(p \<mapsto> hp\<lparr>uh_next := None\<rparr>)"
    "uh_prev h = None \<Longrightarrow> uh_next h = Some n \<Longrightarrow> H n = Some hn \<Longrightarrow> skip_links x H = H(n \<mapsto> hn\<lparr>uh_prev := None\<rparr>)"
    "uh_prev h = Some p \<Longrightarrow> uh_next h = Some n \<Longrightarrow> H p = Some hp \<Longrightarrow> H n = Some hn \<Longrightarrow> p \<noteq> n \<Longrightarrow>
       skip_links x H = H(p \<mapsto> hp\<lparr>uh_next := Some n\<rparr>, n \<mapsto> hn\<lparr>uh_prev := Some p\<rparr>)"
  using assms by (auto simp: skip_links_def Let_def prev_in_def next_in_def fun_eq_iff)

lemma keys_kept_skip: "map_option uh_key (skip_links x H z) = map_option uh_key (H z)"
  using skip_links_handle [of H z "the (H z)" x]
  by (cases "H z") (auto simp: skip_links_def Let_def split: option.splits)

lemma paid_drop:
  assumes "paid n k T" "b < length (ut_buckets T)" "ub_count (ut_buckets T ! b) \<noteq> 0"
    and T': "ut_buckets T' = (ut_buckets T)[b := B]" "ub_count B = ub_count (ut_buckets T ! b) - 1" "ub_mult B = ub_mult (ut_buckets T ! b)"
  shows "paid n k T'"
proof -
  obtain A where A: "5 \<le> k" "9 * (k - 5) + A \<le> n" "roomy A T" using assms(1) by (auto simp: paid_def)
  have "unat (ub_count B) \<le> unat (ub_count (ut_buckets T ! b))" using assms(3) T'(2) by (simp add: unat_minus_one)
  moreover have "unat (ub_count (ut_buckets T ! b)) \<le> unat (ub_mult (ut_buckets T ! b)) + 1 + A \<and> unat (ub_mult (ut_buckets T ! b)) \<le> 64"
    using A(3) nth_mem [OF assms(2)] by (simp add: roomy_def)
  ultimately have "roomy A T'"
    using A(3) set_update_subset_insert [of "ut_buckets T" b B] T' by (auto simp: roomy_def)
  with A(1,2) show ?thesis by (auto simp: paid_def)
qed

text \<open>The second half: out of the chain of its bucket.\<close>

lemma delete_chain:
  assumes s: "table_at (tables s) t = Some T" "table_holds (handles s) t T k (as @ x # bs)" "as @ bs \<noteq> []"
    and u: "handles u = skip_links x (handles s)" "table_at (tables u) t = Some T'" "ut_frame (set (as @ x # bs)) t s u"
      "T' = T\<lparr>ut_tail := Some (last (as @ bs))\<rparr>" "handles s x = Some h" "paid n k T" "length (as @ x # bs) < 64"
  shows "wp (hash_leave_bkt (first (as @ bs) None) (uh_hashv h) x)
     (\<lambda>head' s'. hash_ok n head' t s' (as @ bs) \<and> ut_frame (set (as @ x # bs)) t s s' \<and> keys_kept UNIV s s') u"
proof -
  let ?H = "handles s" and ?K = "handles u" and ?xs = "as @ x # bs"
  have H: "handles_ok ?H t (set ?xs)" "dseg (prev_in ?H) (next_in ?H) None ?xs None" "distinct ?xs" "sized k T"
      "buckets_ok ?H (ut_buckets T) (set ?xs)" "num_items T = of_nat (length ?xs)"
    using s(2) by (simp_all add: table_holds_def list_ok_def)
  have K: "handles_ok ?K t (set ?xs)" "dseg (prev_in ?K) (next_in ?K) None (as @ bs) None"
    using skip_links_ok [OF H(1-3)] by (simp_all add: u(1))
  have sz: "num_buckets T = 2 ^ k" "length (ut_buckets T) = 2 ^ k" "k \<le> 31" using H(4) by (simp_all add: sized_def)
  have bs: "buckets_ok ?K (ut_buckets T) (set ?xs)"
    unfolding u(1) using H(5) handles_ok_defined [OF H(1)] by (rule buckets_skip)
  let ?w = "HASH_TO_BKT (uh_hashv h) (num_buckets T)"
  have b: "bucket_index ?K (length (ut_buckets T)) x = unat ?w"
    using skip_links_handle [of ?H x h x] u(1,5) by (auto simp: bucket_index_def sz)
  have less: "unat ?w < length (ut_buckets T)" using bucket_index_less [OF sz(3), of ?K x] b by (simp add: sz)
  obtain ys where ys: "bucket_ok ?K (ut_buckets T ! unat ?w) ys" "set ys = {z \<in> set ?xs. bucket_index ?K (length (ut_buckets T)) z = unat ?w}"
    using bs less by (rule buckets_okE)
  have "x \<in> set ys" using ys(2) b by simp
  then obtain cs ds where split: "ys = cs @ x # ds" by (auto simp: in_set_conv_decomp)
  have crowd: "ub_count (ut_buckets T ! unat ?w) \<noteq> 0"
  proof -
    have "set ys \<subseteq> set ?xs" using ys(2) by blast
    then have "card (set ys) \<le> card (set ?xs)" by (intro card_mono) simp_all
    then have "length ys < 64" using ys(1) H(3) u(7) by (simp add: bucket_ok_def distinct_card del: set_append)
    then have "unat (ub_count (ut_buckets T ! unat ?w)) = length ys" using ys(1) by (simp add: bucket_ok_def unat_of_nat take_bit_nat_eq_self)
    then show ?thesis by (auto simp: split)
  qed
  have defined: "\<forall>z \<in> set (cs @ x # ds). ?K z \<noteq> None" using handles_ok_defined [OF K(1)] ys(2) unfolding split by blast
  obtain y hy where y: "first (as @ bs) None = Some y" "?K y = Some hy" "uh_tbl hy = Some t"
  proof -
    obtain y where y: "first (as @ bs) None = Some y" using s(3) by (cases "first (as @ bs) None") simp_all
    then have "y \<in> set ?xs" using first_SomeD [of "as @ bs" y] by auto
    then obtain hy where "?K y = Some hy" "handle_ok t hy" using K(1) by (rule_tac handles_okE)
    with y that show ?thesis by (simp add: handle_ok_def)
  qed
  have removed: "hash_ok n (first (as @ bs) None) t v (as @ bs) \<and> ut_frame (set ?xs) t s v \<and> keys_kept UNIV s v"
    if B: "ub_head B = (if ub_head (ut_buckets T ! unat ?w) = Some x then hh_next_in ?K x else ub_head (ut_buckets T ! unat ?w))"
      "ub_count B = ub_count (ut_buckets T ! unat ?w) - 1" "ub_mult B = ub_mult (ut_buckets T ! unat ?w)"
      and v: "handles v = drop_links x ?K" "table_at (tables v) t = Some (T'\<lparr>ut_buckets := (ut_buckets T)[unat ?w := B], num_items := num_items T - 1\<rparr>)"
        "ut_frame (set ?xs) t u v" for B v
  proof -
    have "buckets_ok (handles v) ((ut_buckets T)[unat ?w := B]) (set ?xs - {x})"
      unfolding v(1) using bs handles_ok_defined [OF K(1)] less b B by (intro buckets_remove) auto
    moreover have "set ?xs - {x} = set (as @ bs)" using H(3) by auto
    moreover have "list_ok ?K t T' (as @ bs)" using K H(3) s(3) u(4) by (auto simp: list_ok_def handles_ok_def)
    then have "list_ok (handles v) t (T'\<lparr>ut_buckets := (ut_buckets T)[unat ?w := B], num_items := num_items T - 1\<rparr>) (as @ bs)"
      unfolding v(1) using drop_links_relinked by (rule list_ok_relinked) simp
    ultimately have "table_holds (handles v) t (T'\<lparr>ut_buckets := (ut_buckets T)[unat ?w := B], num_items := num_items T - 1\<rparr>) k (as @ bs)"
      using H(4,6) u(4) by (simp add: table_holds_def sized_def)
    moreover have "keys_kept UNIV s v"
      using relinked_key [OF drop_links_relinked, of x ?K] by (simp add: keys_kept_def v(1) u(1) keys_kept_skip)
    moreover have "paid n k (T'\<lparr>ut_buckets := (ut_buckets T)[unat ?w := B], num_items := num_items T - 1\<rparr>)"
      by (rule paid_drop [OF u(6) less crowd _ B(2,3)]) simp
    ultimately show ?thesis using u(7) v(2) ut_frame_trans [OF u(3) v(3)] by (auto simp: hash_ok_def)
  qed
  have other: "drop_links x ?K z = ?K z" if "z \<notin> set ?xs" for z
  proof (rule drop_links_other)
    have "hh_prev_in ?K x = Some z \<or> hh_next_in ?K x = Some z \<Longrightarrow> z \<in> set ys"
      using in_chain [OF ys(1) [unfolded split]] by (auto simp: split final_def dest: first_SomeD split: if_splits)
    then show "hh_prev_in ?K x \<noteq> Some z" "hh_next_in ?K x \<noteq> Some z" using that ys(2) by auto
  qed
  have same: "ut_buckets T' = ut_buckets T" "num_buckets T' = num_buckets T" "num_items T' = num_items T" by (simp_all add: u(4))
  have "wp (HASH_DEL_IN_BKT t ?w x) (\<lambda>_. wp (bnd (upd_tbl t (\<lambda>T. T\<lparr>num_items := num_items T - 1\<rparr>)) (\<lambda>_. ret (first (as @ bs) None)))
      (\<lambda>head' s'. hash_ok n head' t s' (as @ bs) \<and> ut_frame (set ?xs) t s s' \<and> keys_kept UNIV s s')) u"
  proof (rule wp_del_in_bkt [OF u(2), unfolded same])
    show "unat ?w < length (ut_buckets T)" by (rule less)
    show "bucket_ok ?K (ut_buckets T ! unat ?w) (cs @ x # ds)" using ys(1) by (simp add: split)
    show "\<forall>z \<in> set (cs @ x # ds). ?K z \<noteq> None" by (rule defined)
  next
    fix B :: ut_bucket
    assume B: "ub_head B = (if ub_head (ut_buckets T ! unat ?w) = Some x then hh_next_in ?K x else ub_head (ut_buckets T ! unat ?w))"
      "ub_count B = ub_count (ut_buckets T ! unat ?w) - 1" "ub_mult B = ub_mult (ut_buckets T ! unat ?w)"
    let ?v = "u\<lparr>handles := drop_links x ?K,
      tables := (tables u)[t := Some (T'\<lparr>ut_buckets := (ut_buckets T)[unat ?w := B], num_items := num_items T - 1\<rparr>)]\<rparr>"
    have "ut_frame (set ?xs) t u ?v" using u(2) by (auto simp: ut_frame_def agree_def other)
    then show "wp (bnd (upd_tbl t (\<lambda>T. T\<lparr>num_items := num_items T - 1\<rparr>)) (\<lambda>_. ret (first (as @ bs) None)))
        (\<lambda>head' s'. hash_ok n head' t s' (as @ bs) \<and> ut_frame (set ?xs) t s s' \<and> keys_kept UNIV s s')
        (u\<lparr>tables := (tables u)[t := Some (T'\<lparr>ut_buckets := (ut_buckets T)[unat ?w := B]\<rparr>)], handles := drop_links x ?K\<rparr>)"
      using removed [OF B, of ?v] u(2) by (simp add: wp_simps same)
  qed
  then show ?thesis using y u(2) by (simp add: hash_leave_bkt_def wp_bnd [of "head_tbl _"] wp_bnd [of "tbl _"] wp_bnd [of "HASH_DEL_IN_BKT _ _ _"]
        wp_head_tbl wp_tbl same)
qed


lemma hash_delete_spec:
  assumes ok: "hash_ok n head t s xs" "x \<in> set xs"
  shows "wp (HASH_DELETE head x) (\<lambda>head' s'. hash_ok n head' t s' (remove1 x xs) \<and> ut_frame (set xs) t s s' \<and> keys_kept UNIV s s') s"
proof -
  have "xs \<noteq> []" using ok(2) by auto
  with ok(1) obtain T k where T: "head = first xs None" "paid n k T" "table_at (tables s) t = Some T" "table_holds (handles s) t T k xs"
    by (rule hash_okE)
  obtain as bs where xs: "xs = as @ x # bs" using ok(2) by (auto simp: in_set_conv_decomp)
  have H: "handles_ok (handles s) t (set xs)" "dseg (prev_in (handles s)) (next_in (handles s)) None xs None" "distinct xs"
      "ut_tail T = Some (last xs)"
    using T(4) by (simp_all add: table_holds_def list_ok_def)
  have rm: "remove1 x xs = as @ bs" using H(3) by (simp add: xs remove1_append)
  obtain h where h: "handles s x = Some h" "handle_ok t h" using H(1) ok(2) by (rule handles_okE)
  have near: "uh_prev h = final None as" "uh_next h = first bs None"
    using H(2) h(1) by (simp_all add: xs dseg_append prev_in_def next_in_def)
  obtain y hy where y: "head = Some y" "handles s y = Some hy" "uh_tbl hy = Some t"
  proof -
    obtain y where y: "head = Some y" "y \<in> set xs" using T(1) by (cases as) (auto simp: xs)
    then obtain hy where "handles s y = Some hy" "handle_ok t hy" using H(1) by (rule_tac handles_okE)
    with y that show ?thesis by (simp add: handle_ok_def)
  qed
  define Q where "Q = (\<lambda>(head' :: elt option) s'. hash_ok n head' t s' (as @ bs) \<and> ut_frame (set (as @ x # bs)) t s s' \<and> keys_kept UNIV s s')"
  have chain: "wp (hash_leave_bkt (first (as @ bs) None) (uh_hashv h) x) Q u"
    if "as @ bs \<noteq> []" "handles u = skip_links x (handles s)" "table_at (tables u) t = Some (T\<lparr>ut_tail := Some (last (as @ bs))\<rparr>)"
      "ut_frame (set (as @ x # bs)) t s u" for u
    unfolding Q_def using delete_chain [OF T(3) T(4) [unfolded xs] that(1,2,3,4) refl h(1) T(2)] hash_ok_length [OF ok(1)] by (simp add: xs)
  have "wp (HASH_DELETE head x) Q s"
  proof (cases as rule: rev_cases)
    case Nil
    show ?thesis
    proof (cases bs)
      case Nil
      with \<open>as = []\<close> show ?thesis
        using h near y T(3) by (auto simp: HASH_DELETE_def wp_simps Q_def ut_frame_def agree_def keys_kept_def)
    next
      case (Cons m cs)
      then obtain hm where hm: "handles s m = Some hm" using H(1) xs by (auto simp: handles_ok_def)
      have skip: "skip_links x (handles s) = (handles s)(m \<mapsto> hm\<lparr>uh_prev := None\<rparr>)"
        using skip_links_eq(2) [of "handles s" x h] h(1) near Nil Cons hm by simp
      have tail: "T = T\<lparr>ut_tail := Some (last (as @ bs))\<rparr>" "ut_tail T \<noteq> Some x" using H(3,4) xs Nil Cons by (cases T, auto)+
      have "ut_frame (set (as @ x # bs)) t s (s\<lparr>handles := skip_links x (handles s)\<rparr>)"
        using Cons by (simp add: skip ut_frame_def agree_def)
      from chain [OF _ _ _ this] have "wp (hash_leave_bkt (first (as @ bs) None) (uh_hashv h) x)
         Q (s\<lparr>handles := skip_links x (handles s)\<rparr>)"
        using Cons T(3) tail(1) by simp
      then show ?thesis
        using h(1) near y T(3) tail(2) Nil Cons hm skip xs
        by (simp add: HASH_DELETE_def wp_simps)
    qed
  next
    case (snoc zs p)
    obtain hp where hp: "handles s p = Some hp" using H(1) xs snoc by (auto simp: handles_ok_def)
    have p: "uh_prev h = Some p" "p \<noteq> x" using near(1) H(3) xs snoc by auto
    have head': "first (as @ bs) None = head" using T(1) xs snoc by (cases zs) auto
    show ?thesis
    proof (cases bs)
      case Nil
      have skip: "skip_links x (handles s) = (handles s)(p \<mapsto> hp\<lparr>uh_next := None\<rparr>)"
        using skip_links_eq(1) [of "handles s" x h] h(1) near(2) p Nil hp by simp
      have tail: "ut_tail T = Some x" using H(4) xs Nil by simp
      let ?u = "s\<lparr>tables := (tables s)[t := Some (T\<lparr>ut_tail := Some p\<rparr>)], handles := skip_links x (handles s)\<rparr>"
      have "ut_frame (set (as @ x # bs)) t s ?u"
        using snoc T(3) by (simp add: skip ut_frame_def agree_def)
      from chain [OF _ _ _ this] have "wp (hash_leave_bkt (first (as @ bs) None) (uh_hashv h) x) Q ?u"
        using snoc Nil T(3) by simp
      then show ?thesis
        using h(1) near(2) p y T(3) tail Nil hp skip unfolding head'
        by (simp add: HASH_DELETE_def wp_simps)
    next
      case (Cons m cs)
      then obtain hm where hm: "handles s m = Some hm" using H(1) xs by (auto simp: handles_ok_def)
      have dist: "p \<noteq> m" "m \<noteq> x" using H(3) xs snoc Cons by auto
      have skip: "skip_links x (handles s) = (handles s)(p \<mapsto> hp\<lparr>uh_next := Some m\<rparr>, m \<mapsto> hm\<lparr>uh_prev := Some p\<rparr>)"
        using skip_links_eq(3) [of "handles s" x h] h(1) near(2) p Cons hp hm dist by simp
      have tail: "T = T\<lparr>ut_tail := Some (last (as @ bs))\<rparr>" "ut_tail T \<noteq> Some x" using H(3,4) xs Cons by (cases T, auto)+
      have "ut_frame (set (as @ x # bs)) t s (s\<lparr>handles := skip_links x (handles s)\<rparr>)"
        using snoc Cons by (simp add: skip ut_frame_def agree_def)
      from chain [OF _ _ _ this]
      have "wp (hash_leave_bkt (first (as @ bs) None) (uh_hashv h) x) Q (s\<lparr>handles := skip_links x (handles s)\<rparr>)"
        using Cons T(3) tail(1) by simp
      then show ?thesis
        using h(1) near(2) p y T(3) tail(2) Cons hp hm dist skip unfolding head'
        by (simp add: HASH_DELETE_def wp_simps)
    qed
  qed
  then show ?thesis unfolding Q_def rm unfolding xs .
qed



section \<open>Counting and checking\<close>

lemma hash_count_spec:
  assumes "hash_ok n head t s xs"
  shows "wp (HASH_COUNT head) (\<lambda>r s'. s' = s \<and> r = of_nat (length xs)) s"
proof (cases "xs = []")
  case False
  obtain T k where T: "head = first xs None" "table_at (tables s) t = Some T" "table_holds (handles s) t T k xs"
    using assms False by (rule hash_okE)
  then obtain x h where x: "head = Some x" "handles s x = Some h" "uh_tbl h = Some t"
    using False by (cases xs) (auto simp: table_holds_def list_ok_def handles_ok_def handle_ok_def)
  show ?thesis unfolding x(1) using x(2,3) T(2,3) by (simp add: HASH_COUNT_def wp_simps table_holds_def)
qed (use assms in \<open>simp add: HASH_COUNT_def wp_simps\<close>)

text \<open>The two walks of the check: a list whose links are right is counted.\<close>

lemma fsck_chain_spec:
  assumes "dseg (hh_prev_in (handles s)) (hh_next_in (handles s)) p ys None" "\<forall>z \<in> set ys. handles s z \<noteq> None"
  shows "wp (fsck_chain (first ys None) p n) (\<lambda>r s'. s' = s \<and> r = n + of_nat (length ys)) s"
  using assms
proof (induction ys arbitrary: p n)
  case Nil
  then show ?case unfolding fsck_chain_def by (subst wp_loop) (simp add: wp_simps)
next
  case (Cons x ys)
  then obtain h where h: "handles s x = Some h" "uh_hh_prev h = p" "uh_hh_next h = first ys None" by (auto simp: link_defs)
  have "wp (fsck_chain (first ys None) (Some x) (n + 1)) (\<lambda>r s'. s' = s \<and> r = n + 1 + of_nat (length ys)) s"
    using Cons.prems by (intro Cons.IH) auto
  with h show ?case unfolding fsck_chain_def by (subst wp_loop) (simp add: wp_simps add.assoc)
qed

lemma fsck_list_spec:
  assumes "dseg (prev_in (handles s)) (next_in (handles s)) p ys None" "\<forall>z \<in> set ys. handles s z \<noteq> None"
  shows "wp (fsck_list (first ys None) p n) (\<lambda>r s'. s' = s \<and> r = n + of_nat (length ys)) s"
  using assms
proof (induction ys arbitrary: p n)
  case Nil
  then show ?case unfolding fsck_list_def by (subst wp_loop) (simp add: wp_simps)
next
  case (Cons x ys)
  then obtain h where h: "handles s x = Some h" "uh_prev h = p" "uh_next h = first ys None" by (auto simp: link_defs)
  have "wp (fsck_list (first ys None) (Some x) (n + 1)) (\<lambda>r s'. s' = s \<and> r = n + 1 + of_nat (length ys)) s"
    using Cons.prems by (intro Cons.IH) auto
  with h show ?case unfolding fsck_list_def by (subst wp_loop) (simp add: wp_simps add.assoc)
qed

lemma wp_fsck_buckets:
  "wp (fsck_buckets t i n) Q s = (case table_at (tables s) t of None \<Rightarrow> False | Some T \<Rightarrow>
     if i < num_buckets T
     then unat i < length (ut_buckets T) \<and> wp (fsck_chain (ub_head (ut_buckets T ! unat i)) None 0)
       (\<lambda>k s'. ub_count (ut_buckets T ! unat i) = k \<and> wp (fsck_buckets t (i + 1) (n + k)) Q s') s
     else Q n s)"
  unfolding fsck_buckets_def
  by (subst wp_loop) (simp add: wp_simps split: option.splits)

lemma fsck_buckets_spec:
  fixes i :: u32
  assumes T: "table_at (tables s) t = Some T" "sized k T" and S: "buckets_ok (handles s) (ut_buckets T) S" "\<forall>z \<in> S. handles s z \<noteq> None"
    "finite S" and i: "unat i \<le> 2 ^ k"
  shows "wp (fsck_buckets t i n) (\<lambda>r s'. s' = s \<and>
    r = n + of_nat (card {x \<in> S. unat i \<le> bucket_index (handles s) (2 ^ k) x})) s"
  using i
proof (induction "2 ^ k - unat i" arbitrary: i n)
  case (0 i n)
  have sz: "num_buckets T = 2 ^ k" "k \<le> 31" using T(2) by (simp_all add: sized_def)
  have "{x \<in> S. unat i \<le> bucket_index (handles s) (2 ^ k) x} = {}"
    using 0 bucket_index_less [OF sz(2), of "handles s"] by (auto simp: not_le intro: less_le_trans)
  moreover have "\<not> i < num_buckets T" using 0 sz by (simp add: word_less_nat_alt unat_2_power)
  ultimately show ?case using T(1) by (subst wp_fsck_buckets) (simp only: option.case if_False card.empty of_nat_0, simp)
next
  case (Suc m i n)
  have sz: "num_buckets T = 2 ^ k" "k \<le> 31" "length (ut_buckets T) = 2 ^ k" using T(2) by (simp_all add: sized_def)
  have i: "unat i < 2 ^ k" using Suc(2) by simp
  then have less: "i < num_buckets T" using sz by (simp add: word_less_nat_alt unat_2_power)
  have succ: "unat (i + 1) = Suc (unat i)"
    using i sz(2) power_increasing [of k 31 "2 :: nat"] by (simp add: unat_word_ariths)
  obtain ys where ys: "bucket_ok (handles s) (ut_buckets T ! unat i) ys"
      "set ys = {x \<in> S. bucket_index (handles s) (2 ^ k) x = unat i}"
    using S(1) i by (rule_tac buckets_okE [of "handles s" "ut_buckets T" S "unat i"]) (simp_all add: sz(3))
  let ?I = "\<lambda>j. {x \<in> S. j \<le> bucket_index (handles s) (2 ^ k) x}"
  have "?I (unat i) = set ys \<union> ?I (Suc (unat i))" "set ys \<inter> ?I (Suc (unat i)) = {}" unfolding ys(2) by auto
  then have "card (?I (unat i)) = length ys + card (?I (Suc (unat i)))"
    using S(3) ys(1) distinct_card [of ys] by (simp add: card_Un_disjoint bucket_ok_def)
  moreover have "wp (fsck_buckets t (i + 1) (n + of_nat (length ys))) (\<lambda>r s'. s' = s \<and>
      r = n + of_nat (length ys) + of_nat (card (?I (unat (i + 1))))) s"
  proof (rule Suc.hyps(1))
    show "m = 2 ^ k - unat (i + 1)" "unat (i + 1) \<le> 2 ^ k" using Suc(2) i unfolding succ by simp_all
  qed
  ultimately have rest: "wp (fsck_buckets t (i + 1) (n + of_nat (length ys))) (\<lambda>r s'. s' = s \<and> r = n + of_nat (card (?I (unat i)))) s"
    by (simp only: succ of_nat_add add.assoc)
  have "\<forall>z \<in> set ys. handles s z \<noteq> None" using S(2) ys(2) by blast
  then have "wp (fsck_chain (first ys None) None 0) (\<lambda>r s'. s' = s \<and> r = 0 + of_nat (length ys)) s"
    using ys(1) by (intro fsck_chain_spec) (simp_all add: bucket_ok_def)
  then have "wp (fsck_chain (first ys None) None 0) (\<lambda>r s'. ub_count (ut_buckets T ! unat i) = r \<and>
      wp (fsck_buckets t (i + 1) (n + r)) (\<lambda>r s'. s' = s \<and> r = n + of_nat (card (?I (unat i)))) s') s"
    by (rule wp_mono) (use rest ys(1) in \<open>simp add: bucket_ok_def\<close>)
  then show ?case
    using T(1) less i ys(1) by (subst wp_fsck_buckets) (simp add: sz(3) bucket_ok_def)
qed

lemma hash_fsck_spec:
  assumes "hash_ok n head t s xs"
  shows "wp (HASH_FSCK head) (\<lambda>_ s'. s' = s) s"
proof (cases "xs = []")
  case False
  obtain T k where T: "head = first xs None" "table_at (tables s) t = Some T" "table_holds (handles s) t T k xs"
    using assms False by (rule hash_okE)
  then have H: "handles_ok (handles s) t (set xs)" "dseg (prev_in (handles s)) (next_in (handles s)) None xs None" "distinct xs"
      "num_items T = of_nat (length xs)" "sized k T" "buckets_ok (handles s) (ut_buckets T) (set xs)"
    by (simp_all add: table_holds_def list_ok_def)
  obtain x h where x: "head = Some x" "handles s x = Some h" "uh_tbl h = Some t"
    using T(1) H(1) False by (cases xs) (auto simp: handles_ok_def handle_ok_def)
  have "wp (fsck_buckets t 0 0) (\<lambda>r s'. s' = s \<and> r = 0 + of_nat (card {x \<in> set xs. unat (0 :: u32) \<le> bucket_index (handles s) (2 ^ k) x})) s"
    using T(2) H handles_ok_defined [OF H(1)] by (intro fsck_buckets_spec) auto
  then have b: "wp (fsck_buckets t 0 0) (\<lambda>r s'. s' = s \<and> r = num_items T) s"
    using H(3,4) by (simp add: distinct_card)
  have l: "wp (fsck_list head None 0) (\<lambda>r s'. s' = s \<and> r = num_items T) s"
    using fsck_list_spec [OF H(2) handles_ok_defined [OF H(1)], of 0] T(1) H(4) by simp
  show ?thesis
    using x T(2) l by (auto simp: HASH_FSCK_def wp_simps conj_commute intro!: wp_mono [OF b])
qed (use assms in \<open>simp add: HASH_FSCK_def wp_simps\<close>)

end
