(* ===== verification/Hash_Table_Sorting.thy ===== *)
theory Hash_Table_Sorting
  imports Hash_Table_Macros Bottom_Up_Sort Hash_Table_Deletion
begin

text \<open>
  \<open>HASH_SRT\<close> relinks the elements of a table in the order of \<open>Bottom_Up_Sort\<close>. It only follows
  the links to the next element, which stay as they were in the part of the list that is not
  merged yet; the sorted part has both links, save that its last element still has an old one.
\<close>

section \<open>Two kinds of segments\<close>

text \<open>The links to the next element only.\<close>

fun nseg :: "('a \<Rightarrow> 'a option) \<Rightarrow> 'a list \<Rightarrow> 'a option \<Rightarrow> bool" where
  "nseg nx [] q = True"
| "nseg nx (x # xs) q = (nx x = first xs q \<and> nseg nx xs q)"

lemma nseg_append: "nseg nx (xs @ ys) q \<longleftrightarrow> nseg nx xs (first ys q) \<and> nseg nx ys q"
  by (induction xs) (auto simp: first_append)

lemma nseg_cong: "nseg nx xs q \<Longrightarrow> \<forall>x \<in> set xs. nx' x = nx x \<Longrightarrow> nseg nx' xs q"
  by (induction xs) simp_all

lemma dseg_nseg: "dseg pr nx p xs q \<Longrightarrow> nseg nx xs q"
  by (induction xs arbitrary: p) auto

lemma nseg_take_drop: "nseg nx xs q \<Longrightarrow> nseg nx (take k xs) (first (drop k xs) q) \<and> nseg nx (drop k xs) q"
  by (metis append_take_drop_id nseg_append)

text \<open>Both links, but not the one behind the last element.\<close>

definition out_seg :: "('a \<Rightarrow> 'a option) \<Rightarrow> ('a \<Rightarrow> 'a option) \<Rightarrow> 'a list \<Rightarrow> bool" where
  "out_seg pr nx xs \<longleftrightarrow> xs = [] \<or> dseg pr nx None (butlast xs) (Some (last xs)) \<and> pr (last xs) = final None (butlast xs)"

lemma out_seg_Nil [simp]: "out_seg pr nx []"
  by (simp add: out_seg_def)

lemma out_seg_snoc:
  assumes "out_seg pr nx xs" "distinct (xs @ [x])" "pr' x = final None xs"
    and "\<forall>z \<in> set xs. pr' z = pr z \<and> nx' z = (if final None xs = Some z then Some x else nx z)"
  shows "out_seg pr' nx' (xs @ [x])"
proof (cases xs rule: rev_cases)
  case (snoc ys y)
  have "dseg pr' nx' None ys (Some y)"
    using assms by (rule_tac dseg_cong [of pr nx]) (auto simp: snoc out_seg_def)
  with assms snoc show ?thesis by (auto simp: out_seg_def dseg_append butlast_append)
qed (use assms in \<open>simp add: out_seg_def\<close>)

lemma out_seg_close:
  assumes "out_seg pr nx xs" "xs \<noteq> []" "distinct xs" "\<forall>z \<in> set xs. pr' z = pr z \<and> nx' z = (if z = last xs then None else nx z)"
  shows "dseg pr' nx' None xs None"
proof (cases xs rule: rev_cases)
  case (snoc ys y)
  have "dseg pr' nx' None ys (Some y)"
    using assms by (rule_tac dseg_cong [of pr nx]) (auto simp: snoc out_seg_def)
  with assms snoc show ?thesis by (auto simp: out_seg_def dseg_append)
qed (use assms in simp)


section \<open>What sorting changes\<close>

definition unsorted :: "ut_handle \<Rightarrow> ut_handle" where
  "unsorted h = h\<lparr>uh_prev := None, uh_next := None\<rparr>"

text \<open>Only the links of the elements of \<open>S\<close>, and no table.\<close>

definition resorted :: "elt set \<Rightarrow> ('w, 'm) ut_scheme \<Rightarrow> ('w, 'm) ut_scheme \<Rightarrow> bool" where
  "resorted S s s' \<longleftrightarrow> (\<forall>x. map_option unsorted (handles s' x) = map_option unsorted (handles s x)) \<and>
     agree (- S) (handles s) (handles s') \<and> s'\<lparr>handles := handles s\<rparr> = s"

lemma resorted_refl [simp]: "resorted S s s"
  by (simp add: resorted_def agree_def)

lemma resorted_trans:
  assumes "resorted S s s'" "resorted S s' s''"
  shows "resorted S s s''"
proof -
  have "s''\<lparr>handles := handles s\<rparr> = (s''\<lparr>handles := handles s'\<rparr>)\<lparr>handles := handles s\<rparr>" by simp
  with assms show ?thesis by (auto simp: resorted_def agree_def)
qed

lemma resorted_mono: "resorted S s s' \<Longrightarrow> S \<subseteq> S' \<Longrightarrow> resorted S' s s'"
  by (auto simp: resorted_def agree_def)

lemma resorted_tables: "resorted S s s' \<Longrightarrow> tables s' = tables s"
proof -
  assume "resorted S s s'"
  then have "tables (s'\<lparr>handles := handles s\<rparr>) = tables s" by (simp add: resorted_def)
  then show ?thesis by simp
qed

lemma resorted_None: "resorted S s s' \<Longrightarrow> handles s' x = None \<longleftrightarrow> handles s x = None"
  unfolding resorted_def by (metis option.map_disc_iff)

lemma resorted_defined: "resorted S s s' \<Longrightarrow> \<forall>x \<in> R. handles s x \<noteq> None \<Longrightarrow> \<forall>x \<in> R. handles s' x \<noteq> None"
  using resorted_None by blast

text \<open>Changing one link.\<close>

lemma resorted_upd:
  "handles s x = Some h \<Longrightarrow> x \<in> S \<Longrightarrow> unsorted g = unsorted h \<Longrightarrow> resorted S s (s\<lparr>handles := (handles s)(x \<mapsto> g)\<rparr>)"
  by (simp add: resorted_def agree_def)

lemma unsorted_links [simp]: "unsorted (h\<lparr>uh_next := n\<rparr>) = unsorted h" "unsorted (h\<lparr>uh_prev := p\<rparr>) = unsorted h"
  by (simp_all add: unsorted_def)



section \<open>Merging two runs\<close>

text \<open>The runs \<open>ps\<close> and \<open>qs\<close>, with \<open>rest\<close> behind the second one, as the variables of the loop give them.\<close>

definition two_runs ::
  "store \<Rightarrow> elt list \<Rightarrow> elt list \<Rightarrow> elt list \<Rightarrow> elt option \<Rightarrow> u32 \<Rightarrow> elt option \<Rightarrow> u32 \<Rightarrow> bool" where
  "two_runs H ps qs rest p n q m \<longleftrightarrow> (\<exists>r. nseg (next_in H) ps r) \<and> (ps \<noteq> [] \<longrightarrow> p = first ps None) \<and> unat n = length ps \<and>
     nseg (next_in H) (qs @ rest) None \<and> q = first (qs @ rest) None \<and> length qs \<le> unat m \<and> (rest \<noteq> [] \<longrightarrow> unat m = length qs) \<and>
     distinct (ps @ qs @ rest) \<and> (\<forall>z \<in> set (ps @ qs @ rest). H z \<noteq> None)"

lemma unat_pred: "unat (w :: u32) = Suc n \<Longrightarrow> unat (w - 1) = n"
  by (subst unat_minus_one) auto

lemma two_runs_more: "two_runs H ps qs rest p n q m \<Longrightarrow> n \<noteq> 0 \<or> m \<noteq> 0 \<and> q \<noteq> None \<longleftrightarrow> ps \<noteq> [] \<or> qs \<noteq> []"
  by (cases ps; cases qs; cases rest) (auto simp: two_runs_def unat_eq_0)

lemma two_runs_first:
  assumes "two_runs H (x # ps) qs rest p n q m"
  obtains h where "H x = Some h" "p = Some x" "n \<noteq> 0" "two_runs H ps qs rest (uh_next h) (n - 1) q m"
proof -
  obtain h r where h: "H x = Some h" "nseg (next_in H) (x # ps) r" using assms by (auto simp: two_runs_def)
  have next': "ps \<noteq> [] \<longrightarrow> uh_next h = first ps None" using h by (cases ps) (auto simp: next_in_def)
  have n: "unat n = Suc (length ps)" using assms by (simp add: two_runs_def)
  have "nseg (next_in H) ps r" using h(2) by simp
  then have "two_runs H ps qs rest (uh_next h) (n - 1) q m"
    using assms next' unat_pred [OF n] unfolding two_runs_def by auto
  moreover have "p = Some x" "n \<noteq> 0" using assms n by (auto simp: two_runs_def)
  ultimately show ?thesis using that h(1) by blast
qed

lemma two_runs_second:
  assumes "two_runs H ps (y # qs) rest p n q m"
  obtains h where "H y = Some h" "q = Some y" "m \<noteq> 0" "two_runs H ps qs rest p n (uh_next h) (m - 1)"
proof -
  obtain h where h: "H y = Some h" "uh_next h = first (qs @ rest) None" using assms by (auto simp: two_runs_def next_in_def)
  have "Suc (length qs) \<le> unat m" using assms by (simp add: two_runs_def)
  then have m: "m \<noteq> 0" by auto
  then have "unat (m - 1) = unat m - 1" by (rule unat_minus_one)
  moreover have "length qs \<le> unat m - 1" using \<open>Suc (length qs) \<le> unat m\<close> by simp
  ultimately show ?thesis using that [of h] assms h m by (auto simp: two_runs_def)
qed

text \<open>The next element.\<close>

definition taken ::
  "(elt \<Rightarrow> elt \<Rightarrow> int) \<Rightarrow> store \<Rightarrow> elt list \<Rightarrow> elt list \<Rightarrow> elt list \<Rightarrow> elt option \<times> elt option \<times> u32 \<times> elt option \<times> u32 \<Rightarrow> bool" where
  "taken f H ps qs rest = (\<lambda>(e, p, n, q, m). \<exists>x ps' qs'. e = Some x \<and> merged f ps qs = x # merged f ps' qs' \<and>
     two_runs H ps' qs' rest p n q m \<and> (ps = x # ps' \<and> qs' = qs \<or> qs = x # qs' \<and> ps' = ps))"

lemma sort_take_spec:
  assumes runs: "two_runs (handles s) ps qs rest p n q m" and more: "ps \<noteq> [] \<or> qs \<noteq> []"
  shows "wp (sort_take f p n q m) (\<lambda>r s'. s' = s \<and> taken f (handles s) ps qs rest r) s"
proof -
  have first: "wp (bnd (next_of p) (\<lambda>p'. ret (p, p', n - 1, q, m))) (\<lambda>r s'. s' = s \<and> taken f (handles s) ps qs rest r) s"
    if ps: "ps = x # ps'" "merged f ps qs = x # merged f ps' qs" for x ps'
  proof -
    obtain h where "handles s x = Some h" "p = Some x" "n \<noteq> 0" "two_runs (handles s) ps' qs rest (uh_next h) (n - 1) q m"
      using runs unfolding ps(1) by (rule two_runs_first)
    with ps show ?thesis by (auto simp: next_of_def wp_simps taken_def)
  qed
  have second: "wp (bnd (succ_of q) (\<lambda>q'. ret (q, p, n, q', m - 1))) (\<lambda>r s'. s' = s \<and> taken f (handles s) ps qs rest r) s"
    if qs: "qs = y # qs'" "merged f ps qs = y # merged f ps qs'" for y qs'
  proof -
    obtain h where "handles s y = Some h" "q = Some y" "m \<noteq> 0" "two_runs (handles s) ps qs' rest p n (uh_next h) (m - 1)"
      using runs unfolding qs(1) by (rule two_runs_second)
    with qs show ?thesis by (auto simp: succ_of_def wp_simps taken_def)
  qed
  show ?thesis
  proof (cases ps)
    case Nil
    then obtain y qs' where qs: "qs = y # qs'" using more by (cases qs) auto
    have "n = 0" using runs Nil by (simp add: two_runs_def unat_eq_0)
    then show ?thesis using second [OF qs] Nil qs by (simp add: sort_take_def)
  next
    case (Cons x ps')
    then have n: "n \<noteq> 0" "p = Some x" using runs by (auto elim: two_runs_first)
    show ?thesis
    proof (cases qs)
      case Nil
      then have "m = 0 \<or> q = None" using runs by (cases rest) (auto simp: two_runs_def unat_eq_0)
      then show ?thesis using first [OF Cons] n Cons Nil by (auto simp: sort_take_def)
    next
      case (Cons y qs')
      then have "m \<noteq> 0" "q = Some y" using runs by (auto elim: two_runs_second)
      then show ?thesis
        using first [OF \<open>ps = x # ps'\<close>] second [OF Cons] n \<open>ps = x # ps'\<close> Cons by (simp add: sort_take_def wp_simps)
    qed
  qed
qed

text \<open>It goes behind the tail. What is not merged yet stays a pair of runs.\<close>

lemma sort_link_spec:
  assumes x: "handles s x \<noteq> None" "\<forall>z \<in> set out. handles s z \<noteq> None" "distinct (out @ [x])"
    and out: "out_seg (prev_in (handles s)) (next_in (handles s)) out"
  shows "wp (sort_link (Some x) (first out None) (final None out)) (\<lambda>list s'. list = first (out @ [x]) None \<and>
    out_seg (prev_in (handles s')) (next_in (handles s')) (out @ [x]) \<and> resorted (set (out @ [x])) s s' \<and>
    (\<forall>z. z \<notin> set out \<longrightarrow> next_in (handles s') z = next_in (handles s) z)) s"
proof -
  obtain h where h: "handles s x = Some h" using x(1) by blast
  show ?thesis
  proof (cases out rule: rev_cases)
    case Nil
    have "resorted {x} s (s\<lparr>handles := (handles s)(x \<mapsto> h\<lparr>uh_prev := None\<rparr>)\<rparr>)" using h by (rule resorted_upd) simp_all
    then show ?thesis using Nil h by (simp add: sort_link_def wp_simps out_seg_def next_in_def prev_in_def)
  next
    case (snoc ys t)
    then obtain g where g: "handles s t = Some g" "t \<noteq> x" using x by auto
    let ?H = "(handles s)(t \<mapsto> g\<lparr>uh_next := Some x\<rparr>, x \<mapsto> h\<lparr>uh_prev := Some t\<rparr>)"
    have "resorted (set (out @ [x])) s (s\<lparr>handles := ?H\<rparr>)"
      using h g snoc by (simp add: resorted_def agree_def)
    moreover have "out_seg (prev_in ?H) (next_in ?H) (out @ [x])"
      using out x(3) g h by (intro out_seg_snoc) (auto simp: snoc next_in_def prev_in_def)
    moreover have "first out None = first (out @ [x]) None" using snoc by (cases ys) simp_all
    ultimately show ?thesis using snoc h g by (simp add: sort_link_def wp_simps next_in_def)
  qed
qed


lemma two_runs_cong:
  assumes "two_runs H ps qs rest p n q m" "\<forall>z \<in> set (ps @ qs @ rest). next_in H' z = next_in H z \<and> (H' z = None \<longleftrightarrow> H z = None)"
  shows "two_runs H' ps qs rest p n q m"
proof -
  obtain r where "nseg (next_in H) ps r" using assms(1) by (auto simp: two_runs_def)
  then have "nseg (next_in H') ps r" by (rule nseg_cong) (use assms(2) in simp)
  moreover have "nseg (next_in H') (qs @ rest) None" using assms by (rule_tac nseg_cong [of "next_in H"]) (simp_all add: two_runs_def)
  moreover have "\<forall>z \<in> set (ps @ qs @ rest). H' z \<noteq> None" using assms by (simp add: two_runs_def)
  ultimately show ?thesis using assms(1) unfolding two_runs_def by blast
qed

text \<open>The elements of \<open>out\<close> are in their new order; those of \<open>S\<close> are not.\<close>

definition sorted_out :: "store \<Rightarrow> elt list \<Rightarrow> elt set \<Rightarrow> bool" where
  "sorted_out H out S \<longleftrightarrow> out_seg (prev_in H) (next_in H) out \<and> distinct out \<and> (\<forall>z \<in> set out. H z \<noteq> None) \<and> set out \<inter> S = {}"

lemma wp_sort_merge:
  "wp (sort_merge f p n q m list tail) Q s \<longleftrightarrow>
     (if n \<noteq> 0 \<or> m \<noteq> 0 \<and> q \<noteq> None
      then wp (sort_take f p n q m) (\<lambda>(e, p, n, q, m). wp (sort_link e list tail) (\<lambda>list. wp (sort_merge f p n q m list e) Q)) s
      else Q (q, list, tail) s)"
  unfolding sort_merge_def
  by (subst wp_loop) (simp only: wp_bnd wp_ret wp_if case_prod_unfold sum.case fst_conv snd_conv)

definition merge_done ::
  "(elt \<Rightarrow> elt \<Rightarrow> int) \<Rightarrow> elt list \<Rightarrow> elt list \<Rightarrow> elt list \<Rightarrow> elt list \<Rightarrow> ('w, 'm) ut_scheme \<Rightarrow>
   elt option \<times> elt option \<times> elt option \<Rightarrow> ('w, 'm) ut_scheme \<Rightarrow> bool" where
  "merge_done f out ps qs rest s = (\<lambda>(q, list, tail) s'. let out' = out @ merged f ps qs in
     q = first rest None \<and> list = first out' None \<and> tail = final None out' \<and> sorted_out (handles s') out' (set rest) \<and>
     nseg (next_in (handles s')) rest None \<and> resorted (set out') s s')"

lemma sort_merge_spec:
  assumes "two_runs (handles s) ps qs rest p n q m" "sorted_out (handles s) out (set (ps @ qs @ rest))"
  shows "wp (sort_merge f p n q m (first out None) (final None out)) (merge_done f out ps qs rest s) s"
  using assms
proof (induction "length ps + length qs" arbitrary: ps qs p n q m out s)
  case 0
  then have "ps = []" "qs = []" by simp_all
  then have "\<not> (n \<noteq> 0 \<or> m \<noteq> 0 \<and> q \<noteq> None)" using two_runs_more [OF "0.prems"(1)] by simp
  with \<open>ps = []\<close> \<open>qs = []\<close> "0.prems" show ?case by (subst wp_sort_merge) (auto simp: two_runs_def merge_done_def)
next
  case (Suc l)
  have more: "ps \<noteq> [] \<or> qs \<noteq> []" using Suc(2) by auto
  have step: "wp (sort_link e (first out None) (final None out)) (\<lambda>list. wp (sort_merge f p' n' q' m' list e) (merge_done f out ps qs rest s)) s"
    if t: "taken f (handles s) ps qs rest (e, p', n', q', m')" for e p' n' q' m'
  proof -
    obtain x ps' qs' where x: "e = Some x" "merged f ps qs = x # merged f ps' qs'" "two_runs (handles s) ps' qs' rest p' n' q' m'"
        "ps = x # ps' \<and> qs' = qs \<or> qs = x # qs' \<and> ps' = ps"
      using t by (auto simp: taken_def)
    have fresh: "handles s x \<noteq> None" "x \<notin> set out" "x \<notin> set (ps' @ qs' @ rest)" "set (ps' @ qs' @ rest) \<subseteq> set (ps @ qs @ rest)"
      using Suc.prems x(4) by (auto simp: two_runs_def sorted_out_def)
    have "wp (sort_link (Some x) (first out None) (final None out)) (\<lambda>list s'. list = first (out @ [x]) None \<and>
      out_seg (prev_in (handles s')) (next_in (handles s')) (out @ [x]) \<and> resorted (set (out @ [x])) s s' \<and>
      (\<forall>z. z \<notin> set out \<longrightarrow> next_in (handles s') z = next_in (handles s) z)) s"
      using Suc.prems(2) fresh by (intro sort_link_spec) (auto simp: sorted_out_def)
    then show ?thesis
      unfolding x(1)
    proof (rule wp_mono, elim conjE)
      fix list s'
      assume s': "list = first (out @ [x]) None" "out_seg (prev_in (handles s')) (next_in (handles s')) (out @ [x])"
        "resorted (set (out @ [x])) s s'" "\<forall>z. z \<notin> set out \<longrightarrow> next_in (handles s') z = next_in (handles s) z"
      have "l = length ps' + length qs'" using Suc(2) x(4) by auto
      moreover have "two_runs (handles s') ps' qs' rest p' n' q' m'"
        using x(3) by (rule two_runs_cong) (use Suc.prems(2) s'(4) fresh resorted_None [OF s'(3)] in \<open>auto simp: sorted_out_def\<close>)
      moreover have "sorted_out (handles s') (out @ [x]) (set (ps' @ qs' @ rest))"
        using Suc.prems(2) s'(2) fresh resorted_None [OF s'(3)] by (auto simp: sorted_out_def)
      ultimately have "wp (sort_merge f p' n' q' m' (first (out @ [x]) None) (final None (out @ [x]))) (merge_done f (out @ [x]) ps' qs' rest s') s'"
        by (rule Suc.hyps(1))
      then show "wp (sort_merge f p' n' q' m' list (Some x)) (merge_done f out ps qs rest s) s'"
        unfolding s'(1)
      proof (simp only: final_simps(3), elim wp_mono)
        fix r :: "elt option \<times> elt option \<times> elt option" and s''
        assume "merge_done f (out @ [x]) ps' qs' rest s' r s''"
        then show "merge_done f out ps qs rest s r s''"
          using resorted_trans [OF resorted_mono [OF s'(3)], of "set (out @ merged f ps qs)" s'']
          by (cases r) (auto simp: merge_done_def x(2) Let_def)
      qed
    qed
  qed
  have more': "n \<noteq> 0 \<or> m \<noteq> 0 \<and> q \<noteq> None" using two_runs_more [OF Suc.prems(1)] more by blast
  have "wp (sort_take f p n q m) (\<lambda>(e, p, n, q, m). wp (sort_link e (first out None) (final None out))
      (\<lambda>list. wp (sort_merge f p n q m list e) (merge_done f out ps qs rest s))) s"
    by (rule wp_mono [OF sort_take_spec [OF Suc.prems(1) more, of f]]) (use step in auto)
  with more' show ?case by (subst wp_sort_merge) (simp only: if_True)
qed



section \<open>Passes\<close>

lemma sort_run_loop:
  fixes i n :: u32
  assumes "nseg (next_in (handles s)) ys None" "\<forall>z \<in> set ys. handles s z \<noteq> None" "q = first ys None"
    and "ys \<noteq> [] \<or> insize \<le> i" "unat i \<le> unat insize" "unat n + length ys < 2 ^ 32"
  shows "wp (loop (\<lambda>(i, q, psize).
     if i < insize
     then bnd (succ_of q) (\<lambda>q. if q = None then ret (Inr (q, psize + 1)) else ret (Inl (i + 1, q, psize + 1)))
     else ret (Inr (q, psize))) (i, q, n)) (\<lambda>(q', n') s'. s' = s \<and>
       q' = first (drop (unat insize - unat i) ys) None \<and> unat n' = unat n + min (unat insize - unat i) (length ys)) s"
  using assms
proof (induction "unat insize - unat i" arbitrary: i ys q n)
  case 0
  then have "\<not> i < insize" "unat i = unat insize" by (simp_all add: word_less_nat_alt)
  with "0.prems" show ?case by (subst wp_loop) (simp add: wp_simps)
next
  case (Suc l)
  then have less: "i < insize" by (simp add: word_less_nat_alt)
  with Suc.prems(4) obtain y zs where ys: "ys = y # zs" by (cases ys) auto
  obtain h where h: "handles s y = Some h" "uh_next h = first zs None" using Suc.prems(1,2) by (auto simp: ys next_in_def)
  have "unat insize < 2 ^ 32" using unsigned_less [of insize] by simp
  then have i: "unat (i + 1) = Suc (unat i)"
    using less \<open>unat insize < 2 ^ 32\<close> by (simp add: unat_word_ariths word_less_nat_alt)
  have n: "unat (n + 1) = Suc (unat n)" using Suc.prems(6) by (simp add: ys unat_word_ariths)
  have l: "l = unat insize - unat (i + 1)" "unat insize - unat i = Suc l" using Suc(2) i by simp_all
  show ?case
  proof (cases "zs = []")
    case True
    with less h ys n Suc.prems(3) l show ?thesis by (subst wp_loop) (simp add: wp_simps succ_of_def)
  next
    case False
    have "wp (loop (\<lambda>(i, q, psize).
       if i < insize
       then bnd (succ_of q) (\<lambda>q. if q = None then ret (Inr (q, psize + 1)) else ret (Inl (i + 1, q, psize + 1)))
       else ret (Inr (q, psize))) (i + 1, first zs None, n + 1)) (\<lambda>(q', n') s'. s' = s \<and>
         q' = first (drop (unat insize - unat (i + 1)) zs) None \<and> unat n' = unat (n + 1) + min (unat insize - unat (i + 1)) (length zs)) s"
      using Suc.prems l(1) False less i n by (intro Suc.hyps(1)) (auto simp: ys word_less_nat_alt)
    with False less h ys n Suc.prems(3) l show ?thesis by (subst wp_loop) (simp add: wp_simps succ_of_def)
  qed
qed

lemma sort_run_spec:
  assumes "nseg (next_in (handles s)) ys None" "\<forall>z \<in> set ys. handles s z \<noteq> None" "ys \<noteq> []" "length ys < 64"
  shows "wp (sort_run insize (first ys None)) (\<lambda>(q, n) s'. s' = s \<and>
    q = first (drop (unat insize) ys) None \<and> unat n = length (take (unat insize) ys)) s"
proof -
  have "unat (0 :: u32) + length ys < 2 ^ 32" using assms(4) by simp
  from sort_run_loop [OF assms(1,2) refl disjI1 [OF assms(3)] _ this, where insize = insize and i = 0] show ?thesis
    by (simp add: sort_run_def min.commute)
qed

lemma wp_sort_pass:
  "wp (sort_pass f insize p list tail k) Q s \<longleftrightarrow>
     (if p = None then Q (list, tail, k) s
      else wp (sort_run insize p) (\<lambda>(q, n). wp (sort_merge f p n q insize list tail)
        (\<lambda>(p, list, tail). wp (sort_pass f insize p list tail (k + 1)) Q)) s)"
  unfolding sort_pass_def
  by (subst wp_loop) (simp only: wp_bnd wp_ret wp_if case_prod_unfold sum.case fst_conv snd_conv)

text \<open>What a pass leaves.\<close>

definition passed ::
  "(elt \<Rightarrow> elt \<Rightarrow> int) \<Rightarrow> nat \<Rightarrow> elt list \<Rightarrow> elt list \<Rightarrow> u32 \<Rightarrow> ('w, 'm) ut_scheme \<Rightarrow>
   elt option \<times> elt option \<times> u32 \<Rightarrow> ('w, 'm) ut_scheme \<Rightarrow> bool" where
  "passed f k out rest n s = (\<lambda>(list, tail, n') s'. let out' = out @ pass f k rest in
     list = first out' None \<and> tail = final None out' \<and> n' = n + of_nat (merges k rest) \<and>
     sorted_out (handles s') out' {} \<and> resorted (set out') s s')"

lemma set_pass: "0 < k \<Longrightarrow> set (pass f k xs) = set xs"
  by (metis mset_pass set_mset_mset)

lemma sort_pass_spec:
  assumes "nseg (next_in (handles s)) rest None" "\<forall>z \<in> set rest. handles s z \<noteq> None" "distinct rest"
    and "sorted_out (handles s) out (set rest)" "length rest < 64" "0 < unat insize"
  shows "wp (sort_pass f insize (first rest None) (first out None) (final None out) n) (passed f (unat insize) out rest n s) s"
  using assms(1-5)
proof (induction "length rest" arbitrary: rest out n s rule: less_induct)
  case less
  let ?k = "unat insize"
  show ?case
  proof (cases "rest = []")
    case True
    with less.prems show ?thesis by (subst wp_sort_pass) (simp add: passed_def merges.simps sorted_out_def)
  next
    case False
    let ?ps = "take ?k rest" and ?qs = "take ?k (drop ?k rest)" and ?rs = "drop ?k (drop ?k rest)"
    let ?out = "out @ merged f ?ps ?qs"
    have parts: "?ps @ ?qs @ ?rs = rest" by (metis append_take_drop_id)
    have smaller: "length ?rs < length rest" using False assms(6) by simp
    have runs: "two_runs (handles s) ?ps ?qs ?rs (first rest None) m (first (drop ?k rest) None) insize"
      if "unat m = length ?ps" for m :: u32
    proof -
      have "nseg (next_in (handles s)) ?ps (first (drop ?k rest) None)" "nseg (next_in (handles s)) (?qs @ ?rs) None"
        unfolding append_take_drop_id using nseg_take_drop [OF less.prems(1), of ?k] by simp_all
      moreover have "first ?ps None = first rest None" using False assms(6) by (cases rest; cases ?k) simp_all
      moreover have "?qs @ ?rs = drop ?k rest" by (rule append_take_drop_id)
      moreover have "length ?qs \<le> ?k" "?rs \<noteq> [] \<longrightarrow> ?k = length ?qs" by auto
      ultimately show ?thesis
        using that less.prems(2,3) unfolding two_runs_def parts by (metis (no_types, lifting))
    qed
    have sorted: "sorted_out (handles s) out (set (?ps @ ?qs @ ?rs))" using less.prems(4) by (simp only: parts)
    have merge: "wp (sort_merge f (first rest None) m q insize (first out None) (final None out))
        (\<lambda>(p, list, tail). wp (sort_pass f insize p list tail (n + 1)) (passed f ?k out rest n s)) s"
      if "unat m = length ?ps" "q = first (drop ?k rest) None" for m q
    proof (rule wp_mono [OF sort_merge_spec [OF runs [OF that(1), folded that(2)] sorted]])
      fix r :: "elt option \<times> elt option \<times> elt option" and s'
      obtain p list tail where r: "r = (p, list, tail)" by (cases r)
      assume "merge_done f out ?ps ?qs ?rs s r s'"
      then have s': "p = first ?rs None" "list = first ?out None" "tail = final None ?out" "sorted_out (handles s') ?out (set ?rs)"
          "nseg (next_in (handles s')) ?rs None" "resorted (set ?out) s s'"
        by (simp_all add: merge_done_def r Let_def)
      have rs: "set ?rs \<subseteq> set rest" "distinct ?rs"
        using less.prems(3) set_drop_subset [of ?k "drop ?k rest"] set_drop_subset [of ?k rest] by (blast intro: distinct_drop)+
      have "wp (sort_pass f insize (first ?rs None) (first ?out None) (final None ?out) (n + 1)) (passed f ?k ?out ?rs (n + 1) s') s'"
        using smaller s'(5) resorted_defined [OF s'(6), of "set rest"] rs s'(4) less.prems(2,5) by (intro less.hyps) auto
      then show "(case r of (p, list, tail) \<Rightarrow> wp (sort_pass f insize p list tail (n + 1)) (passed f ?k out rest n s)) s'"
        unfolding r prod.case s'(1-3)
      proof (rule wp_mono)
        fix res s'' assume "passed f ?k ?out ?rs (n + 1) s' res s''"
        moreover have "pass f ?k rest = merged f ?ps ?qs @ pass f ?k ?rs" using assms(6) by (rule pass_unfold)
        moreover have "merges ?k rest = Suc (merges ?k ?rs)" using False assms(6) by (simp add: merges.simps [of ?k rest])
        moreover have "set ?out \<subseteq> set (?out @ pass f ?k ?rs)" by auto
        ultimately show "passed f ?k out rest n s res s''"
          using resorted_trans [OF resorted_mono [OF s'(6)]] by (simp add: passed_def Let_def split_beta del: set_append)
      qed
    qed
    have "wp (sort_run insize (first rest None)) (\<lambda>(q, m). wp (sort_merge f (first rest None) m q insize (first out None) (final None out))
        (\<lambda>(p, list, tail). wp (sort_pass f insize p list tail (n + 1)) (passed f ?k out rest n s))) s"
      by (rule wp_mono [OF sort_run_spec [OF less.prems(1,2) False less.prems(5)]]) (use merge in auto)
    with False show ?thesis by (subst wp_sort_pass) (simp only: first_None if_False)
  qed
qed



section \<open>Sorting\<close>

lemma unsorted_eqD:
  "unsorted h' = unsorted h \<Longrightarrow> uh_tbl h' = uh_tbl h \<and> uh_hh_prev h' = uh_hh_prev h \<and> uh_hh_next h' = uh_hh_next h \<and>
     uh_key h' = uh_key h \<and> uh_keylen h' = uh_keylen h \<and> uh_hashv h' = uh_hashv h"
  by (cases h, cases h') (simp add: unsorted_def)

lemma resortedD:
  assumes "resorted S s s'" "handles s x = Some h"
  obtains h' where "handles s' x = Some h'" "unsorted h' = unsorted h"
  using assms unfolding resorted_def by (metis map_option_eq_Some option.simps(9))

lemma wp_sort_passes:
  "wp (sort_passes f head list insize) Q s \<longleftrightarrow>
     wp (sort_pass f insize list None None 0) (\<lambda>(list, tail, n). wp (case tail of None \<Rightarrow> ret () | Some t \<Rightarrow> upd_hh t (uh_next_update (\<lambda>_. None)))
       (\<lambda>_ s. if n \<le> 1 then wp (bnd (head_tbl head) (\<lambda>t. bnd (upd_tbl t (ut_tail_update (\<lambda>_. tail))) (\<lambda>_. ret list))) Q s
              else wp (sort_passes f head list (insize * 2)) Q s)) s"
  unfolding sort_passes_def
  by (subst wp_loop) (simp only: wp_bnd wp_ret wp_if case_prod_unfold sum.case fst_conv snd_conv)

text \<open>The elements are linked as the list says, and nothing else has changed.\<close>

definition relisted :: "elt list \<Rightarrow> ('w, 'm) ut_scheme \<Rightarrow> ('w, 'm) ut_scheme \<Rightarrow> bool" where
  "relisted ys s s' \<longleftrightarrow> dseg (prev_in (handles s')) (next_in (handles s')) None ys None \<and> resorted (set ys) s s'"

text \<open>A pass, and the link behind the last element.\<close>

lemma closed_pass:
  fixes s :: "('w, 'm) ut_scheme"
  assumes xs: "nseg (next_in (handles s)) xs None" "\<forall>z \<in> set xs. handles s z \<noteq> None" "distinct xs" "xs \<noteq> []" "length xs < 64"
    and k: "0 < unat insize" and next': "\<And>n u. n = of_nat (merges (unat insize) xs) \<Longrightarrow> relisted (pass f (unat insize) xs) s u \<Longrightarrow>
      P (first (pass f (unat insize) xs) None) (Some (last (pass f (unat insize) xs))) n u"
  shows "wp (sort_pass f insize (first xs None) None None 0) (\<lambda>(list, tail, n).
    wp (case tail of None \<Rightarrow> ret () | Some t \<Rightarrow> upd_hh t (uh_next_update (\<lambda>_. None))) (\<lambda>_. P list tail n)) s"
proof (rule wp_mono)
  have "sorted_out (handles s) [] (set xs)" by (simp add: sorted_out_def)
  from sort_pass_spec [OF xs(1,2,3) this xs(5) k, of f 0]
  show "wp (sort_pass f insize (first xs None) None None 0) (passed f (unat insize) [] xs 0 s) s" by simp
next
  fix r :: "elt option \<times> elt option \<times> u32" and u :: "('w, 'm) ut_scheme"
  assume u: "passed f (unat insize) [] xs 0 s r u"
  let ?ys = "pass f (unat insize) xs"
  have ys: "?ys \<noteq> []" using xs(4) length_pass [OF k, of f xs] by (metis length_0_conv)
  obtain list tail n where r: "r = (list, tail, n)" by (cases r)
  have u': "list = first ?ys None" "tail = Some (last ?ys)" "n = of_nat (merges (unat insize) xs)"
      "out_seg (prev_in (handles u)) (next_in (handles u)) ?ys" "distinct ?ys" "\<forall>z \<in> set ?ys. handles u z \<noteq> None" "resorted (set ?ys) s u"
    using u ys by (simp_all add: r passed_def Let_def sorted_out_def final_def)
  have last: "last ?ys \<in> set ?ys" using ys by (rule last_in_set)
  then obtain h where h: "handles u (last ?ys) = Some h" using u'(6) by blast
  let ?u = "u\<lparr>handles := (handles u)(last ?ys \<mapsto> h\<lparr>uh_next := None\<rparr>)\<rparr>"
  have "dseg (prev_in (handles ?u)) (next_in (handles ?u)) None ?ys None"
    using u'(4,5) ys h by (intro out_seg_close [of "prev_in (handles u)" "next_in (handles u)"]) (auto simp: prev_in_def next_in_def)
  moreover have "resorted (set ?ys) u ?u" using h last by (rule resorted_upd) simp
  ultimately have "relisted ?ys s ?u" using u'(7) resorted_trans unfolding relisted_def by blast
  with next' u'(3) have "P (first ?ys None) (Some (last ?ys)) n ?u" by blast
  then show "(case r of (list, tail, n) \<Rightarrow> wp (case tail of None \<Rightarrow> ret () | Some t \<Rightarrow> upd_hh t (uh_next_update (\<lambda>_. None)))
      (\<lambda>_. P list tail n)) u"
    by (simp add: r u'(1,2) wp_upd_hh h)
qed

lemma relisted_trans: "relisted ys s u \<Longrightarrow> relisted zs u v \<Longrightarrow> set ys = set zs \<Longrightarrow> relisted zs s v"
  unfolding relisted_def using resorted_trans by metis

lemma sort_passes_spec:
  fixes s :: "('w, 'm) ut_scheme"
  assumes "nseg (next_in (handles s)) xs None" "\<forall>z \<in> set xs. handles s z \<noteq> None" "distinct xs" "xs \<noteq> []" "length xs < 64"
    and "0 < unat insize" "unat insize \<le> 64"
    and "head = Some y" "handles s y = Some h" "uh_tbl h = Some t" "table_at (tables s) t = Some T"
  shows "wp (sort_passes f head (first xs None) insize) (\<lambda>r s'. let ys = bottom_up f (unat insize) xs in r = first ys None \<and>
    (\<exists>u. relisted ys s u \<and> s' = u\<lparr>tables := (tables s)[t := Some (T\<lparr>ut_tail := Some (last ys)\<rparr>)]\<rparr>)) s"
  using assms
proof (induction "length xs - unat insize" arbitrary: xs insize s h rule: less_induct)
  case less
  let ?k = "unat insize" and ?ys = "pass f (unat insize) xs"
  define Q where "Q = (\<lambda>r s'. let ys = bottom_up f ?k xs in r = first ys None \<and>
    (\<exists>u. relisted ys s u \<and> s' = u\<lparr>tables := (tables s)[t := Some (T\<lparr>ut_tail := Some (last ys)\<rparr>)]\<rparr>))"
  have "wp (sort_pass f insize (first xs None) None None 0) (\<lambda>(list, tail, n).
    wp (case tail of None \<Rightarrow> ret () | Some t \<Rightarrow> upd_hh t (uh_next_update (\<lambda>_. None))) (\<lambda>_ s. if n \<le> 1
      then wp (bnd (head_tbl head) (\<lambda>t. bnd (upd_tbl t (ut_tail_update (\<lambda>_. tail))) (\<lambda>_. ret list))) Q s
      else wp (sort_passes f head list (insize * 2)) Q s)) s"
  proof (rule closed_pass [OF less.prems(1-6), where P = "\<lambda>list tail n s. if n \<le> 1
      then wp (bnd (head_tbl head) (\<lambda>t. bnd (upd_tbl t (ut_tail_update (\<lambda>_. tail))) (\<lambda>_. ret list))) Q s
      else wp (sort_passes f head list (insize * 2)) Q s"])
    fix n :: u32 and u assume n: "n = of_nat (merges ?k xs)" and u: "relisted ?ys s u"
    have "merges ?k xs < 64" using merges_le [of ?k xs] less.prems(5) by simp
    then have n1: "n \<le> 1 \<longleftrightarrow> length xs \<le> ?k + ?k"
      using merges_1 [OF less.prems(6), of xs] by (simp add: n word_le_nat_alt unat_of_nat take_bit_nat_eq_self)
    have tables: "tables u = tables s" and dseg: "dseg (prev_in (handles u)) (next_in (handles u)) None ?ys None"
      and resorted: "resorted (set ?ys) s u"
      using u resorted_tables by (auto simp: relisted_def)
    obtain h' where h': "handles u y = Some h'" "uh_tbl h' = Some t"
      using resortedD [OF resorted less.prems(9)] unsorted_eqD less.prems(10) by metis
    have ys: "mset ?ys = mset xs" using less.prems(6) by (rule mset_pass)
    show "if n \<le> 1 then wp (bnd (head_tbl head) (\<lambda>t. bnd (upd_tbl t (ut_tail_update (\<lambda>_. Some (last ?ys)))) (\<lambda>_. ret (first ?ys None)))) Q u
      else wp (sort_passes f head (first ?ys None) (insize * 2)) Q u"
    proof (cases "length xs \<le> ?k + ?k")
      case True
      then have "bottom_up f ?k xs = ?ys" by (simp add: bottom_up.simps [of f ?k xs])
      with True n1 u h' less.prems(8,11) tables show ?thesis
        by (auto simp: Q_def Let_def wp_simps)
    next
      case False
      have k2: "unat (insize * 2) = ?k + ?k" using less.prems(7) by (simp add: unat_word_ariths)
      have set: "set ?ys = set xs" "distinct ?ys" "length ?ys = length xs" "?ys \<noteq> []"
        using ys less.prems(3,4) by (metis set_mset_mset, metis mset_eq_imp_distinct_iff, metis size_mset, metis mset_zero_iff)
      have passes: "wp (sort_passes f head (first ?ys None) (insize * 2)) (\<lambda>r s'. let zs = bottom_up f (unat (insize * 2)) ?ys in r = first zs None \<and>
          (\<exists>v. relisted zs u v \<and> s' = v\<lparr>tables := (tables u)[t := Some (T\<lparr>ut_tail := Some (last zs)\<rparr>)]\<rparr>)) u"
      proof (rule less.hyps)
        show "length ?ys - unat (insize * 2) < length xs - ?k" using False less.prems(6) by (simp add: k2 set(3))
        show "nseg (next_in (handles u)) ?ys None" using dseg by (rule dseg_nseg)
        show "\<forall>z \<in> set ?ys. handles u z \<noteq> None" using resorted_defined [OF resorted less.prems(2)] by (simp only: set(1))
        show "0 < unat (insize * 2)" "unat (insize * 2) \<le> 64" using less.prems(5,6) False by (simp_all add: k2)
        show "table_at (tables u) t = Some T" by (simp add: tables less.prems(11))
      qed (use set less.prems(5,8) h' in simp_all)
      have zs: "bottom_up f (?k + ?k) ?ys = bottom_up f ?k xs" using False less.prems(6) by (simp add: bottom_up.simps [of f ?k xs])
      have same: "set ?ys = set (bottom_up f ?k xs)"
        unfolding zs [symmetric] using mset_bottom_up [of "?k + ?k" f ?ys] less.prems(6) by (metis add_pos_pos set_mset_mset)
      have "wp (sort_passes f head (first ?ys None) (insize * 2)) Q u"
      proof (rule wp_mono [OF passes [unfolded k2 zs Let_def tables]], elim conjE exE)
        fix r s' v
        assume "r = first (bottom_up f ?k xs) None" "relisted (bottom_up f ?k xs) u v"
          "s' = v\<lparr>tables := (tables s)[t := Some (T\<lparr>ut_tail := Some (last (bottom_up f ?k xs))\<rparr>)]\<rparr>"
        moreover have "relisted (bottom_up f ?k xs) s v" using u calculation(2) same by (rule relisted_trans)
        ultimately show "Q r s'" unfolding Q_def Let_def by (intro conjI exI [of _ v])
      qed
      with False n1 show ?thesis by simp
    qed
  qed
  then show ?case by (subst wp_sort_passes) (simp only: Q_def)
qed


lemma handles_ok_resorted:
  assumes "handles_ok (handles s) t R" "resorted S s s'"
  shows "handles_ok (handles s') t R"
  unfolding handles_ok_def
proof
  fix x assume "x \<in> R"
  then obtain h where h: "handles s x = Some h" "handle_ok t h" using assms(1) by (rule_tac handles_okE)
  obtain h' where "handles s' x = Some h'" "unsorted h' = unsorted h" using assms(2) h(1) by (rule resortedD)
  with h(2) unsorted_eqD [of h' h] show "\<exists>h. handles s' x = Some h \<and> handle_ok t h" by (simp add: handle_ok_def)
qed

lemma buckets_ok_resorted:
  assumes "buckets_ok (handles s) bs R" "\<forall>z \<in> R. handles s z \<noteq> None" "resorted S s s'"
  shows "buckets_ok (handles s') bs R"
proof (rule buckets_ok_cong [OF assms(1)])
  fix z m assume "z \<in> R"
  then obtain h where h: "handles s z = Some h" using assms(2) by blast
  obtain h' where "handles s' z = Some h'" "unsorted h' = unsorted h" using assms(3) h by (rule resortedD)
  with h unsorted_eqD [of h' h]
  show "bucket_index (handles s') m z = bucket_index (handles s) m z \<and> hh_prev_in (handles s') z = hh_prev_in (handles s) z \<and>
      hh_next_in (handles s') z = hh_next_in (handles s) z"
    by (simp add: bucket_index_def link_defs)
qed

lemma resorted_keys: "resorted S s s' \<Longrightarrow> keys_kept R s s'"
  unfolding keys_kept_def
proof
  fix z assume s': "resorted S s s'"
  show "map_option uh_key (handles s' z) = map_option uh_key (handles s z)"
  proof (cases "handles s z")
    case (Some h)
    obtain h' where "handles s' z = Some h'" "unsorted h' = unsorted h" using s' Some by (rule resortedD)
    with Some unsorted_eqD [of h' h] show ?thesis by simp
  qed (simp add: resorted_None [OF s'])
qed

text \<open>A table whose elements are linked in another order, with the tail set.\<close>

lemma relisted_ok:
  assumes ok: "hash_ok n head t s xs" "table_at (tables s) t = Some T" and u: "relisted ys s u" "mset ys = mset xs" "xs \<noteq> []"
  defines "s' \<equiv> u\<lparr>tables := (tables s)[t := Some (T\<lparr>ut_tail := Some (last ys)\<rparr>)]\<rparr>"
  shows "hash_ok n (first ys None) t s' ys" "ut_frame (set xs) t s s'" "keys_kept UNIV s s'"
proof -
  obtain k where T: "paid n k T" "table_holds (handles s) t T k xs"
    using ok u(3) by (auto elim: hash_okE)
  have H: "handles_ok (handles s) t (set xs)" "distinct xs" "num_items T = of_nat (length xs)" "sized k T"
      "buckets_ok (handles s) (ut_buckets T) (set xs)"
    using T(2) by (simp_all add: table_holds_def list_ok_def)
  have re: "resorted (set ys) s u" "dseg (prev_in (handles u)) (next_in (handles u)) None ys None"
    using u(1) by (simp_all add: relisted_def)
  have ys: "set ys = set xs" "distinct ys" "length ys = length xs" "ys \<noteq> []"
    using u(2,3) H(2) by (metis set_mset_mset, metis mset_eq_imp_distinct_iff, metis size_mset, metis mset_zero_iff)
  let ?T = "T\<lparr>ut_tail := Some (last ys)\<rparr>"
  have "table_holds (handles u) t ?T k ys"
    using H re(2) ys handles_ok_resorted [OF H(1) re(1)] buckets_ok_resorted [OF H(5) handles_ok_defined [OF H(1)] re(1)]
    by (simp add: table_holds_def list_ok_def sized_def)
  moreover have "paid n k ?T" using T(1) by (rule paid_cong) simp
  ultimately show "hash_ok n (first ys None) t s' ys"
    using hash_ok_length [OF ok(1)] ys(3) ok(2) by (auto simp: hash_ok_def s'_def)
  have "u\<lparr>handles := handles s\<rparr> = s" using re(1) by (simp add: resorted_def)
  moreover have "u\<lparr>world := world s, handles := handles s, tables := tables s\<rparr> = (u\<lparr>handles := handles s\<rparr>)\<lparr>world := world s, tables := tables s\<rparr>"
    by simp
  ultimately have "u\<lparr>world := world s, handles := handles s, tables := tables s\<rparr> = s" by simp
  then have "s'\<lparr>world := world s, handles := handles s, tables := tables s\<rparr> = s" by (simp add: s'_def)
  then show "ut_frame (set xs) t s s'"
    using re(1) ok(2) by (auto simp: ut_frame_def resorted_def s'_def ys(1))
  show "keys_kept UNIV s s'" using resorted_keys [OF re(1), of UNIV] by (simp add: keys_kept_def s'_def)
qed

lemma hash_sort_spec:
  assumes ok: "hash_ok n head t s xs" and f: "orders_as f C"
  shows "wp (HASH_SRT f head) (\<lambda>head' s'. hash_ok n head' t s' (Sorting_Algorithms.sort C xs) \<and>
    ut_frame (set xs) t s s' \<and> keys_kept UNIV s s') s"
proof (cases "xs = []")
  case True
  with ok show ?thesis by (simp add: HASH_SRT_def wp_simps keys_kept_def)
next
  case False
  obtain T k where T: "head = first xs None" "table_at (tables s) t = Some T" "table_holds (handles s) t T k xs"
    using ok False by (rule hash_okE)
  then have H: "handles_ok (handles s) t (set xs)" "distinct xs" "dseg (prev_in (handles s)) (next_in (handles s)) None xs None"
    by (simp_all add: table_holds_def list_ok_def)
  obtain y where y: "head = Some y" "y \<in> set xs" using T(1) False by (cases xs) simp_all
  then obtain h where h: "handles s y = Some h" "uh_tbl h = Some t" using H(1) by (auto simp: handle_ok_def elim: handles_okE)
  have sort: "bottom_up f (unat (1 :: u32)) xs = Sorting_Algorithms.sort C xs" using bottom_up_sort [OF f, of xs] by simp
  have "wp (sort_passes f head (first xs None) 1) (\<lambda>r s'. let ys = bottom_up f (unat (1 :: u32)) xs in r = first ys None \<and>
    (\<exists>u. relisted ys s u \<and> s' = u\<lparr>tables := (tables s)[t := Some (T\<lparr>ut_tail := Some (last ys)\<rparr>)]\<rparr>)) s"
    using H handles_ok_defined [OF H(1)] dseg_nseg [OF H(3)] False hash_ok_length [OF ok] y(1) h T(2) by (intro sort_passes_spec) simp_all
  then have "wp (sort_passes f head head 1) (\<lambda>head' s'. hash_ok n head' t s' (Sorting_Algorithms.sort C xs) \<and>
    ut_frame (set xs) t s s' \<and> keys_kept UNIV s s') s"
    unfolding sort Let_def T(1) [symmetric]
  proof (rule wp_mono, elim conjE exE)
    fix r s' u
    assume "r = first (Sorting_Algorithms.sort C xs) None" "relisted (Sorting_Algorithms.sort C xs) s u"
      "s' = u\<lparr>tables := (tables s)[t := Some (T\<lparr>ut_tail := Some (last (Sorting_Algorithms.sort C xs))\<rparr>)]\<rparr>"
    with relisted_ok [OF ok T(2) this(2) _ False]
    show "hash_ok n r t s' (Sorting_Algorithms.sort C xs) \<and> ut_frame (set xs) t s s' \<and> keys_kept UNIV s s'" by simp
  qed
  with y(1) show ?thesis by (simp add: HASH_SRT_def)
qed

end
