(* ===== verification/Hash_Table_Service.thy ===== *)
theory Hash_Table_Service
  imports Hash_Table_Deletion
begin

text \<open>
  What the registry relies on of a hash table, as the locale \<open>string_table\<close>: a table stands
  for the list of its keys and elements in the order of insertion. The hash tables of
  \<open>uthash.h\<close> keep that promise.
\<close>

section \<open>The interface\<close>

text \<open>The loops of \<open>init_commands\<close>.\<close>

fun add_entries :: "('h \<Rightarrow> string \<Rightarrow> 'e \<Rightarrow> ('s, 'h) prog) \<Rightarrow> (string \<times> 'e) list \<Rightarrow> 'h \<Rightarrow> ('s, 'h) prog" where
  "add_entries add [] head = ret head"
| "add_entries add ((k, x) # es) head = bnd (add head k x) (\<lambda>head'. add_entries add es head')"

locale string_table =
  fixes find_str :: "'h \<Rightarrow> string \<Rightarrow> ('s, 'e option) prog"
    and add_str :: "'h \<Rightarrow> string \<Rightarrow> 'e \<Rightarrow> ('s, 'h) prog"
    and holds :: "'h \<Rightarrow> 's \<Rightarrow> (string \<times> 'e) list \<Rightarrow> bool"
    and live :: "'s \<Rightarrow> 'e \<Rightarrow> bool"
    and kept :: "'s \<Rightarrow> 's \<Rightarrow> bool"
    and key_ok :: "string \<Rightarrow> bool"
    and room :: nat
  assumes find_law: "holds h s es \<Longrightarrow> key_ok k \<Longrightarrow>
      wp (find_str h k) (\<lambda>r s'. s' = s \<and> (case r of None \<Rightarrow> k \<notin> fst ` set es | Some x \<Rightarrow> (k, x) \<in> set es)) s"
    and add_law: "holds h s es \<Longrightarrow> length es < room \<Longrightarrow> key_ok k \<Longrightarrow> live s x \<Longrightarrow> x \<notin> snd ` set es \<Longrightarrow>
      wp (add_str h k x) (\<lambda>h' s'. holds h' s' (es @ [(k, x)]) \<and> kept s s') s"
    and kept_refl: "kept s s"
    and kept_trans: "kept s s' \<Longrightarrow> kept s' s'' \<Longrightarrow> kept s s''"
    and kept_live: "kept s s' \<Longrightarrow> live s x \<Longrightarrow> live s' x"
begin

text \<open>With different keys, a search is the look-up in the association list.\<close>

lemma find_map_of:
  assumes "holds h s es" "key_ok k" "distinct (map fst es)"
  shows "wp (find_str h k) (\<lambda>r s'. s' = s \<and> r = map_of es k) s"
proof (rule wp_mono [OF find_law [OF assms(1,2)]])
  fix r s' assume "s' = s \<and> (case r of None \<Rightarrow> k \<notin> fst ` set es | Some x \<Rightarrow> (k, x) \<in> set es)"
  then show "s' = s \<and> r = map_of es k"
    using assms(3) map_of_eq_None_iff [of es k] by (cases r) auto
qed

text \<open>Adding one element after the other.\<close>

lemma add_entries_law:
  assumes "holds h s es" "length es + length ks \<le> room" "\<forall>(k, x) \<in> set ks. key_ok k \<and> live s x" "distinct (map snd (es @ ks))"
  shows "wp (add_entries add_str ks h) (\<lambda>h' s'. holds h' s' (es @ ks) \<and> kept s s') s"
  using assms
proof (induction ks arbitrary: h s es)
  case Nil
  then show ?case by (simp add: wp_ret kept_refl)
next
  case (Cons e ks)
  obtain k x where e: "e = (k, x)" by (cases e)
  have add: "wp (add_str h k x) (\<lambda>h' s'. holds h' s' (es @ [e]) \<and> kept s s') s"
    unfolding e using Cons.prems by (intro add_law) (auto simp: e)
  show ?case
    unfolding e add_entries.simps
  proof (rule wp_bndI [OF add], elim conjE)
    fix h' s' assume s': "holds h' s' (es @ [e])" "kept s s'"
    have "wp (add_entries add_str ks h') (\<lambda>h'' s''. holds h'' s'' ((es @ [e]) @ ks) \<and> kept s' s'') s'"
      using Cons.prems s' kept_live by (intro Cons.IH) auto
    then show "wp (add_entries add_str ks h') (\<lambda>h'' s''. holds h'' s'' (es @ (k, x) # ks) \<and> kept s s'') s'"
      by (rule wp_mono) (use kept_trans [OF s'(2)] in \<open>auto simp: e\<close>)
  qed
qed

end


section \<open>The hash table keeps it\<close>

text \<open>
  The elements of a table are taken from \<open>S\<close>; the table is \<open>t\<close>, which is the next one to be
  made when there is no element yet.
\<close>

definition entries_held :: "'w os \<Rightarrow> nat \<Rightarrow> elt set \<Rightarrow> elt option \<Rightarrow> ('w, 'm) ut_scheme \<Rightarrow> (string \<times> elt) list \<Rightarrow> bool" where
  "entries_held os t S head s es \<longleftrightarrow> malloc_succeeds os \<and> hash_ok (length es) head t s (map snd es) \<and>
     (\<forall>(k, x) \<in> set es. key_in (handles s) x = k) \<and> (es = [] \<longrightarrow> t = length (tables s)) \<and> snd ` set es \<subseteq> S"

definition element_live :: "elt set \<Rightarrow> ('w, 'm) ut_scheme \<Rightarrow> elt \<Rightarrow> bool" where
  "element_live S s x \<longleftrightarrow> x \<in> S \<and> handles s x \<noteq> None"

definition rest_kept :: "nat \<Rightarrow> elt set \<Rightarrow> ('w, 'm) ut_scheme \<Rightarrow> ('w, 'm) ut_scheme \<Rightarrow> bool" where
  "rest_kept t S s s' \<longleftrightarrow> ut_frame S t s s' \<and> (\<forall>z. handles s z \<noteq> None \<longrightarrow> handles s' z \<noteq> None)"

lemma key_in_kept: "map_option uh_key (H' z) = map_option uh_key (H z) \<Longrightarrow> H z \<noteq> None \<Longrightarrow> key_in H' z = key_in H z"
  by (cases "H z"; cases "H' z") (auto simp: key_in_def)

lemma hash_ok_defined: "hash_ok n head t s xs \<Longrightarrow> x \<in> set xs \<Longrightarrow> handles s x \<noteq> None"
  unfolding hash_ok_def table_holds_def list_ok_def using handles_ok_defined by fastforce

lemma add_str_held:
  assumes "entries_held os t S head s es" "length es < 63" "short_key k" "element_live S s x" "x \<notin> snd ` set es"
  shows "wp (HASH_ADD_STR os head k x) (\<lambda>head' s'. entries_held os t S head' s' (es @ [(k, x)]) \<and> rest_kept t S s s') s"
proof -
  have es: "malloc_succeeds os" "hash_ok (length es) head t s (map snd es)" "\<forall>(k, x) \<in> set es. key_in (handles s) x = k"
      "es = [] \<longrightarrow> t = length (tables s)" "snd ` set es \<subseteq> S" and x: "x \<in> S" "handles s x \<noteq> None"
    using assms(1,4) by (simp_all add: entries_held_def element_live_def)
  have t: "(if map snd es = [] then length (tables s) else t) = t" using es(4) by simp
  have "wp (HASH_ADD_STR os head k x) (\<lambda>head' s'. hash_ok (Suc (length es)) head' t s' (map snd es @ [x]) \<and>
    ut_frame (set (map snd es @ [x])) t s s' \<and> keys_kept (- {x}) s s' \<and> map_option uh_key (handles s' x) = Some k) s"
    using hash_add_spec [OF es(1,2) _ _ _ x(2) assms(3)] assms(2,5) unfolding t by simp
  then show ?thesis
  proof (rule wp_mono, elim conjE)
    fix head' s'
    assume s': "hash_ok (Suc (length es)) head' t s' (map snd es @ [x])" "ut_frame (set (map snd es @ [x])) t s s'"
      "keys_kept (- {x}) s s'" "map_option uh_key (handles s' x) = Some k"
    have "key_in (handles s') z = j" if "(j, z) \<in> set es" for j z
    proof -
      have "z \<noteq> x" "handles s z \<noteq> None" using that assms(5) hash_ok_defined [OF es(2), of z] by force+
      then show ?thesis using s'(3) es(3) that key_in_kept [of "handles s'" z "handles s"] by (auto simp: keys_kept_def)
    qed
    moreover have "key_in (handles s') x = k" using s'(4) by (auto simp: key_in_def)
    ultimately have "entries_held os t S head' s' (es @ [(k, x)])"
      using s'(1) es(1,5) x(1) by (auto simp: entries_held_def)
    moreover have "handles s' z \<noteq> None" if "handles s z \<noteq> None" for z
      using s'(3,4) that by (cases "z = x") (auto simp: keys_kept_def dest!: bspec [of _ _ z])
    moreover have "ut_frame S t s s'" using s'(2) es(5) x(1) by (auto intro: ut_frame_mono)
    ultimately show "entries_held os t S head' s' (es @ [(k, x)]) \<and> rest_kept t S s s'" by (simp add: rest_kept_def)
  qed
qed

lemma find_str_held:
  assumes "entries_held os t S head s es" "short_key k"
  shows "wp (HASH_FIND_STR head k) (\<lambda>r s'. s' = s \<and> (case r of None \<Rightarrow> k \<notin> fst ` set es | Some x \<Rightarrow> (k, x) \<in> set es)) s"
proof -
  have es: "hash_ok (length es) head t s (map snd es)" "\<forall>(k, x) \<in> set es. key_in (handles s) x = k"
    using assms(1) by (simp_all add: entries_held_def)
  show ?thesis
    by (rule wp_mono [OF hash_find_spec [OF es(1) assms(2)]]) (use es(2) in \<open>force split: option.splits\<close>)
qed

interpretation ht: string_table HASH_FIND_STR "HASH_ADD_STR os" "entries_held os t S" "element_live S" "rest_kept t S" short_key 63
  for os :: "'w os" and t S
proof
  show "rest_kept t S s s" for s :: "('w, 'm) ut_scheme" by (simp add: rest_kept_def)
  show "rest_kept t S s s' \<Longrightarrow> rest_kept t S s' s'' \<Longrightarrow> rest_kept t S s s''" for s s' s'' :: "('w, 'm) ut_scheme"
    unfolding rest_kept_def using ut_frame_trans by blast
  show "rest_kept t S s s' \<Longrightarrow> element_live S s x \<Longrightarrow> element_live S s' x" for s s' :: "('w, 'm) ut_scheme" and x
    by (simp add: rest_kept_def element_live_def)
qed (rule find_str_held add_str_held, assumption+)+


section \<open>Visiting the elements\<close>

text \<open>
  \<open>HASH_ITER\<close> visits the elements in the order of insertion, also when the body deletes the
  element it runs on: \<open>J ys\<close> has to hold when \<open>ys\<close> is left.
\<close>

lemma wp_next_of:
  assumes "\<And>y zs. ys = y # zs \<Longrightarrow> \<exists>h. handles s y = Some h \<and> uh_next h = first zs None" "Q (first (tl ys) None) s"
  shows "wp (next_of (first ys None)) Q s"
  using assms by (cases ys) (auto simp: next_of_def wp_simps)

lemma hash_iter_spec:
  fixes J :: "elt list \<Rightarrow> ('w, 'm) ut_scheme \<Rightarrow> bool"
  assumes body: "\<And>x ys s. J (x # ys) s \<Longrightarrow> wp (body x) (\<lambda>_. J ys) s"
    and next': "\<And>y ys s. J (y # ys) s \<Longrightarrow> \<exists>h. handles s y = Some h \<and> uh_next h = first ys None"
    and J: "J xs s"
  shows "wp (HASH_ITER (first xs None) body) (\<lambda>_. J []) s"
proof -
  let ?loop = "loop (\<lambda>(el, tmp). case el of
         None \<Rightarrow> ret (Inr ())
       | Some x \<Rightarrow> bnd (body x) (\<lambda>_. bnd (next_of tmp) (\<lambda>tmp'. ret (Inl (tmp, tmp')))))"
  have "wp (?loop (first xs None, first (tl xs) None)) (\<lambda>_. J []) s"
    using J
  proof (induction xs arbitrary: s)
    case Nil
    then show ?case by (subst wp_loop) (simp add: wp_simps)
  next
    case (Cons x ys)
    have "wp (body x) (\<lambda>_ s'. wp (next_of (first ys None)) (\<lambda>tmp' s''. wp (?loop (first ys None, tmp')) (\<lambda>_. J []) s'') s') s"
      by (rule wp_mono [OF body [OF Cons.prems]], rule wp_next_of) (use next' Cons.IH in auto)
    then show ?case by (subst wp_loop) (simp add: wp_simps)
  qed
  then show ?thesis
    unfolding HASH_ITER_def wp_bnd by (intro wp_next_of) (use next' J in auto)
qed

lemma hash_ok_next:
  assumes "hash_ok n head t s (ks @ y # ys)"
  shows "\<exists>h. handles s y = Some h \<and> uh_next h = first ys None"
proof -
  obtain T k where "table_holds (handles s) t T k (ks @ y # ys)" using assms by (rule hash_okE) simp
  then have "handles_ok (handles s) t (set (ks @ y # ys))" "next_in (handles s) y = first ys None"
    by (simp_all add: table_holds_def list_ok_def dseg_append)
  then show ?thesis by (auto simp: handles_ok_def next_in_def)
qed

end
