(* ===== verification/Hash_Table_Order.thy ===== *)
theory Hash_Table_Order
  imports Hash_Table_Sorting Hash_Table_Service
begin

text \<open>
  The other macros that the program does not expand: adding in order, which keeps a sorted table
  sorted, replacing, clearing, and the size of the administration.
\<close>

section \<open>Adding in order\<close>

text \<open>The place of the new element, and the list with it.\<close>

definition put_before :: "('a \<Rightarrow> 'a \<Rightarrow> int) \<Rightarrow> 'a \<Rightarrow> 'a list \<Rightarrow> 'a list" where
  "put_before f x xs = takeWhile (\<lambda>y. f y x \<le> 0) xs @ x # dropWhile (\<lambda>y. f y x \<le> 0) xs"

lemma set_put_before [simp]: "set (put_before f x xs) = insert x (set xs)"
  unfolding put_before_def by (metis append.simps(2) insert_commute list.simps(15) set_append takeWhile_dropWhile_id Un_insert_right)

lemma length_put_before [simp]: "length (put_before f x xs) = Suc (length xs)"
  unfolding put_before_def by (metis add_Suc_right length_Cons length_append takeWhile_dropWhile_id)

text \<open>In a sorted list this is where the stable sort has it.\<close>

lemma sorted_dropWhile:
  fixes C :: "'a comparator"
  assumes "orders_as f C" "sorted C xs" "y \<in> set (dropWhile (\<lambda>y. f y x \<le> 0) xs)"
  shows "compare C y x = Greater"
  using assms(2,3)
proof (induction xs rule: list.induct)
  case (Cons z xs)
  show ?case
  proof (cases "f z x \<le> 0")
    case False
    then have z: "compare C z x = Greater" using orders_asD [OF assms(1)] by blast
    have "y = z \<or> compare C z y \<noteq> Greater" using Cons.prems(2) False sorted_Cons_imp_not_less [OF Cons.prems(1), of y] by auto
    then show ?thesis using z compare.trans_not_greater [of C z y x] by auto
  qed (use Cons in \<open>auto simp: sorted_Cons_iff\<close>)
qed simp

lemma put_before_sorts:
  assumes f: "orders_as f C" and xs: "sorted C xs"
  shows "Sorting_Algorithms.sort C (xs @ [x]) = put_before f x xs"
proof (rule sort_eqI)
  let ?as = "takeWhile (\<lambda>y. f y x \<le> 0) xs" and ?bs = "dropWhile (\<lambda>y. f y x \<le> 0) xs"
  have split: "?as @ ?bs = xs" by simp
  have "mset xs = mset ?as + mset ?bs" unfolding mset_append [symmetric] split ..
  then show "mset (xs @ [x]) = mset (put_before f x xs)" by (simp add: put_before_def)
  have before: "compare C y x \<noteq> Greater" if "y \<in> set ?as" for y
    using that set_takeWhileD [of y] orders_asD [OF f, of y x] by fastforce
  have behind: "compare C x y \<noteq> Greater" if "y \<in> set ?bs" for y
    using sorted_dropWhile [OF f xs that] by (simp add: compare.greater_iff_sym_less compare.asym_less)
  have "sorted C (?as @ ?bs)" using xs by (simp only: split)
  then have "sorted C ?as" "sorted C ?bs" "\<forall>y \<in> set ?as. \<forall>z \<in> set ?bs. compare C y z \<noteq> Greater"
    unfolding sorted_append_iff by blast+
  then show "sorted C (put_before f x xs)"
    unfolding put_before_def using before behind by (auto simp: sorted_append_iff sorted_Cons_iff)
  fix y assume "y \<in> set (xs @ [x])"
  have "same C y ?bs = []" if "compare C y x = Equiv"
  proof -
    have "compare C y z \<noteq> Equiv" if "z \<in> set ?bs" for z
    proof
      assume "compare C y z = Equiv"
      then have "compare C z x = Equiv" using \<open>compare C y x = Equiv\<close> compare.trans_equiv [of C z y x] compare.sym [of C z y] by simp
      then show False using sorted_dropWhile [OF f xs that] by simp
    qed
    then show ?thesis by (simp add: filter_empty_conv)
  qed
  moreover have "same C y xs = same C y ?as @ same C y ?bs" unfolding filter_append [symmetric] split ..
  ultimately show "same C y (xs @ [x]) = same C y (put_before f x xs)" by (simp add: put_before_def)
qed

text \<open>The walk stops at the first element behind the new one.\<close>

lemma wp_akbi_loop:
  "wp (HASH_AKBI_INNER_LOOP iter x f) Q s = (case iter of None \<Rightarrow> False | Some y \<Rightarrow>
     if f y x > 0 then Q iter s
     else (case handles s y of None \<Rightarrow> False
       | Some h \<Rightarrow> if uh_next h = None then Q None s else wp (HASH_AKBI_INNER_LOOP (uh_next h) x f) Q s))"
  unfolding HASH_AKBI_INNER_LOOP_def
  by (subst wp_loop) (simp add: wp_simps split: option.splits)

lemma akbi_loop_spec:
  assumes "nseg (next_in (handles s)) xs None" "\<forall>z \<in> set xs. handles s z \<noteq> None" "xs \<noteq> []"
  shows "wp (HASH_AKBI_INNER_LOOP (first xs None) x f) (\<lambda>r s'. s' = s \<and> r = first (dropWhile (\<lambda>y. f y x \<le> 0) xs) None) s"
  using assms
proof (induction xs)
  case (Cons y ys)
  then obtain h where h: "handles s y = Some h" "uh_next h = first ys None" by (auto simp: next_in_def)
  show ?case
  proof (cases "ys = [] \<or> 0 < f y x")
    case True
    with h show ?thesis by (subst wp_akbi_loop) auto
  next
    case False
    then have "wp (HASH_AKBI_INNER_LOOP (first ys None) x f) (\<lambda>r s'. s' = s \<and> r = first (dropWhile (\<lambda>y. f y x \<le> 0) ys) None) s"
      using Cons by simp
    with False h show ?thesis by (subst wp_akbi_loop) simp
  qed
qed simp

text \<open>Linking before another element.\<close>

lemma dseg_insert:
  assumes "dseg pr nx None (as @ y # bs) None" "distinct (as @ x # y # bs)" "pr' x = final None as" "nx' x = Some y"
    and "\<forall>z \<in> set (as @ y # bs). nx' z = (if final None as = Some z then Some x else nx z) \<and> pr' z = (if z = y then Some x else pr z)"
  shows "dseg pr' nx' None (as @ x # y # bs) None"
proof -
  have seg: "dseg pr nx None as (Some y)" "dseg pr nx (final None as) (y # bs) None" using assms(1) by (simp_all add: dseg_append)
  have last: "final None as \<noteq> Some z" if "z \<in> set (y # bs)" for z
  proof
    assume "final None as = Some z"
    then have "z \<in> set as" by (simp add: final_def split: if_splits) (metis last_in_set)
    then show False using that assms(2) by auto
  qed
  have "dseg pr' nx' None as (Some x)"
  proof (cases as rule: rev_cases)
    case (snoc cs c)
    have "dseg pr' nx' None cs (Some c)" using seg(1) assms(2,5) by (rule_tac dseg_cong [of pr nx]) (auto simp: snoc dseg_append)
    with snoc seg(1) assms(2,5) show ?thesis by (auto simp: dseg_append)
  qed simp
  moreover have "dseg pr' nx' (Some y) bs None" using seg(2) assms(2,5) last by (rule_tac dseg_cong [of pr nx]) auto
  moreover have "pr' y = Some x" "nx' y = first bs None" using assms(5) seg(2) last by auto
  ultimately show ?thesis using assms(3,4) by (simp add: dseg_append)
qed


lemma insert_linked:
  assumes T: "table_at (tables s) t = Some T" "table_holds H0 t T k (as @ y # bs)"
    and H0: "agree (set (as @ y # bs)) H0 (handles s)" and head: "head = first (as @ y # bs) None"
    and x: "x \<notin> set (as @ y # bs)" "handles s x = Some h" "uh_tbl h = Some t" "short_key (uh_key h)"
      "uh_keylen h = of_nat (length (uh_key h))" "uh_hashv h = HASH_JEN (uh_key h) (uh_keylen h)"
  shows "wp (akbi_link head x (Some y)) (\<lambda>head' s'. head' = first (as @ x # y # bs) None \<and> ut_frame (set (as @ x # y # bs)) t s s' \<and>
    (\<forall>z. map_option uh_key (handles s' z) = map_option uh_key (handles s z)) \<and>
    map_option uh_hashv (handles s' x) = Some (uh_hashv h) \<and>
    table_at (tables s') t = Some T \<and> linked (handles s') t T k (as @ x # y # bs) x) s"
proof -
  let ?xs = "as @ y # bs" and ?zs = "as @ x # y # bs"
  have H: "list_ok H0 t T ?xs" "sized k T" "buckets_ok H0 (ut_buckets T) (set ?xs)" "num_items T = of_nat (length ?xs)"
    using T(2) by (simp_all add: table_holds_def)
  have same: "H0 z = handles s z" if "z \<in> set ?xs" for z using agreeD [OF H0 that] by simp
  have ok: "handles_ok (handles s) t (set ?xs)" using H(1) H0 by (auto simp: list_ok_def handles_ok_def agree_def)
  obtain hy where hy: "handles s y = Some hy" "handle_ok t hy" using handles_okE [OF ok, of y] by auto
  have dist: "distinct ?zs" "x \<noteq> y" using H(1) x(1) by (auto simp: list_ok_def)
  have prev: "uh_prev hy = final None as" using H(1) hy(1) same [of y] by (auto simp: list_ok_def dseg_append prev_in_def)
  define R where "R = (\<lambda>K. linked K t T k ?zs x \<and> (\<forall>z. map_option uh_key (K z) = map_option uh_key (handles s z)) \<and>
      map_option uh_hashv (K x) = Some (uh_hashv h) \<and> ut_frame (set ?zs) t s (s\<lparr>handles := K\<rparr>))"
  have result: "R K"
    if K: "K x = Some (h\<lparr>uh_next := Some y, uh_prev := final None as\<rparr>)" "K y = Some (hy\<lparr>uh_prev := Some x\<rparr>)"
      "\<And>z. z \<noteq> x \<Longrightarrow> z \<noteq> y \<Longrightarrow> K z = (if final None as = Some z then map_option (uh_next_update (\<lambda>_. Some x)) (handles s z) else handles s z)" for K
  proof -
    have last: "final None as \<noteq> Some y" "final None as = Some z \<Longrightarrow> z \<in> set as" for z
      using dist by (auto simp: final_def split: if_splits)
    have links: "next_in K z = (if final None as = Some z then Some x else next_in H0 z) \<and> prev_in K z = (if z = y then Some x else prev_in H0 z) \<and>
        bucket_index K m z = bucket_index H0 m z \<and> hh_prev_in K z = hh_prev_in H0 z \<and> hh_next_in K z = hh_next_in H0 z" if "z \<in> set ?xs" for z m
    proof -
      obtain g where "handles s z = Some g" using ok \<open>z \<in> set ?xs\<close> by (rule handles_okE)
      moreover have "z \<noteq> x" using \<open>z \<in> set ?xs\<close> x(1) by metis
      ultimately show ?thesis using K(3) [of z] K(2) hy(1) last(1) x(1) that same [OF that]
        by (cases "z = y") (auto simp: link_defs bucket_index_def)
    qed
    have "dseg (prev_in K) (next_in K) None ?zs None"
      using H(1) dist(1) links K(1) by (intro dseg_insert [of "prev_in H0" "next_in H0"]) (auto simp: list_ok_def prev_in_def [of K x] next_in_def [of K x])
    moreover have "handles_ok K t (set ?zs)"
      unfolding handles_ok_def
    proof
      fix z assume z: "z \<in> set ?zs"
      show "\<exists>g. K z = Some g \<and> handle_ok t g"
      proof (cases "z = x \<or> z = y")
        case True
        then show ?thesis using K(1,2) x(3-6) hy(2) by (auto simp: handle_ok_def)
      next
        case False
        then have "z \<in> set ?xs" using z by auto
        then obtain g where "handles s z = Some g" "handle_ok t g" using ok by (rule_tac handles_okE)
        with K(3) [of z] False show ?thesis by (auto simp: handle_ok_def)
      qed
    qed
    moreover have "buckets_ok K (ut_buckets T) (set ?xs)" using H(3) links by (rule_tac buckets_ok_cong) auto
    moreover have "set ?zs - {x} = set ?xs" using x(1) by auto
    ultimately have "linked K t T k ?zs x" using H dist(1) by (simp add: linked_def list_ok_def)
    moreover have "map_option uh_key (K z) = map_option uh_key (handles s z)" for z
      using K x(2) hy(1) by (cases "z = x \<or> z = y") (auto simp: option.map_comp o_def)
    moreover have "K z = handles s z" if "z \<notin> set ?zs" for z using K(3) [of z] last(2) [of z] that by auto
    ultimately show ?thesis using K(1) by (simp add: R_def ut_frame_def agree_def)
  qed
  show ?thesis
  proof (cases as rule: rev_cases)
    case Nil
    let ?K = "(handles s)(x \<mapsto> h\<lparr>uh_next := Some y, uh_prev := None\<rparr>, y \<mapsto> hy\<lparr>uh_prev := Some x\<rparr>)"
    have "R ?K" by (rule result) (use Nil dist(2) in auto)
    then have "R ((handles s)(x \<mapsto> h\<lparr>uh_next := Some y, uh_prev := uh_prev hy\<rparr>, y \<mapsto> hy\<lparr>uh_prev := Some x\<rparr>))" using prev Nil by simp
    then show ?thesis
      using Nil x(2) hy(1) dist(2) prev T(1) by (simp add: akbi_link_def wp_simps R_def)
  next
    case (snoc cs c)
    then have "c \<in> set ?xs" by simp
    then obtain hc where hc: "handles s c = Some hc" using ok by (rule_tac handles_okE)
    have c: "c \<noteq> x" "c \<noteq> y" using dist snoc by auto
    let ?K = "(handles s)(x \<mapsto> h\<lparr>uh_next := Some y, uh_prev := Some c\<rparr>, c \<mapsto> hc\<lparr>uh_next := Some x\<rparr>, y \<mapsto> hy\<lparr>uh_prev := Some x\<rparr>)"
    have "head = first ?zs None" using head snoc by (cases cs) simp_all
    moreover have "R ?K" by (rule result) (use snoc dist(2) hc c in auto)
    ultimately show ?thesis
      using snoc x(2) hy(1) dist(2) prev T(1) hc c by (simp add: akbi_link_def wp_simps R_def)
  qed
qed


text \<open>Either way the new element is in its place.\<close>

definition placed ::
  "nat \<Rightarrow> ut_table \<Rightarrow> nat \<Rightarrow> elt list \<Rightarrow> elt \<Rightarrow> u32 \<Rightarrow> ('w, 'm) ut_scheme \<Rightarrow> elt option \<Rightarrow> ('w, 'm) ut_scheme \<Rightarrow> bool" where
  "placed t T k zs x hash s head' s' \<longleftrightarrow> head' = first zs None \<and> ut_frame (set zs) t s s' \<and>
    (\<forall>z. map_option uh_key (handles s' z) = map_option uh_key (handles s z)) \<and> map_option uh_hashv (handles s' x) = Some hash \<and>
    (\<exists>T'. table_at (tables s') t = Some T' \<and> linked (handles s') t T' k zs x \<and> ut_buckets T' = ut_buckets T)"

lemma akbi_placed:
  assumes T: "table_at (tables s) t = Some T" "table_holds H0 t T k xs" "xs \<noteq> []"
    and H0: "agree (set xs) H0 (handles s)" and head: "head = first xs None"
    and x: "x \<notin> set xs" "handles s x = Some h" "uh_tbl h = Some t" "short_key (uh_key h)"
      "uh_keylen h = of_nat (length (uh_key h))" "uh_hashv h = HASH_JEN (uh_key h) (uh_keylen h)"
  shows "wp (bnd (HASH_AKBI_INNER_LOOP head x f) (akbi_link head x)) (placed t T k (put_before f x xs) x (uh_hashv h) s) s"
proof (rule wp_bndI)
  let ?bs = "dropWhile (\<lambda>y. f y x \<le> 0) xs"
  have H: "handles_ok H0 t (set xs)" "nseg (next_in H0) xs None"
    using T(2) dseg_nseg by (auto simp: table_holds_def list_ok_def)
  have "nseg (next_in (handles s)) xs None" using H(2) by (rule nseg_cong) (use H0 in \<open>simp add: agree_def next_in_def\<close>)
  moreover have "\<forall>z \<in> set xs. handles s z \<noteq> None" using handles_ok_defined [OF H(1)] H0 by (simp add: agree_def)
  ultimately show "wp (HASH_AKBI_INNER_LOOP head x f) (\<lambda>r s'. s' = s \<and> r = first ?bs None) s"
    unfolding head using T(3) by (rule akbi_loop_spec)
next
  fix r s' assume "s' = s \<and> r = first (dropWhile (\<lambda>y. f y x \<le> 0) xs) None"
  then have r: "s' = s" "r = first (dropWhile (\<lambda>y. f y x \<le> 0) xs) None" by simp_all
  let ?as = "takeWhile (\<lambda>y. f y x \<le> 0) xs"
  show "wp (akbi_link head x r) (placed t T k (put_before f x xs) x (uh_hashv h) s) s'"
  proof (cases "dropWhile (\<lambda>y. f y x \<le> 0) xs")
    case Nil
    then have as: "?as = xs" by (metis append_Nil2 takeWhile_dropWhile_id)
    have "first xs None = first (xs @ [x]) None" using T(3) by (cases xs) simp_all
    then have "wp (bnd (HASH_APPEND_LIST head x) (\<lambda>_. ret head)) (placed t T k (xs @ [x]) x (uh_hashv h) s) s"
      by (intro wp_bndI [OF append_linked [OF T(1,2) H0 head x]]) (auto simp: placed_def wp_ret head)
    then show ?thesis by (simp only: r Nil first.simps as put_before_def akbi_link_def option.case)
  next
    case (Cons y bs)
    define as where "as = ?as"
    have xs: "xs = as @ y # bs" unfolding as_def Cons [symmetric] by simp
    have "wp (akbi_link head x (Some y)) (placed t T k (as @ x # y # bs) x (uh_hashv h) s) s"
      by (rule wp_mono [OF insert_linked [OF T(1) T(2) [unfolded xs] H0 [unfolded xs] head [unfolded xs] x(1) [unfolded xs] x(2-6)]])
        (use T(1) in \<open>simp add: placed_def\<close>)
    then show ?thesis by (simp only: r Cons put_before_def as_def first.simps)
  qed
qed

text \<open>Adding in order.\<close>

lemma hash_add_inorder_spec:
  fixes s :: "('w, 'm) ut_scheme"
  assumes os: "malloc_succeeds os" and ok: "hash_ok n head t s xs" "n < 200" "length xs < 63"
    and x: "x \<notin> set xs" "handles s x \<noteq> None" "short_key name"
  defines "t' \<equiv> (if xs = [] then length (tables s) else t)"
  shows "wp (HASH_ADD_KEYPTR_INORDER os head name (of_nat (length name)) x f) (add_done (Suc n) t' (put_before f x xs) x name s) s"
proof -
  obtain h where h: "handles s x = Some h" using x(2) by auto
  let ?hash = "HASH_JEN name (of_nat (length name))" and ?zs = "put_before f x xs"
  let ?h = "h\<lparr>uh_hashv := ?hash, uh_key := name, uh_keylen := of_nat (length name)\<rparr>"
  define Q where "Q = add_done (Suc n) t' ?zs x name s"
  have begin': "ut_frame (set ?zs) t' s (s\<lparr>handles := (handles s)(x \<mapsto> g)\<rparr>)" for g
    by (simp add: ut_frame_def agree_def)
  have last: "wp (bnd (HASH_ADD_TO_TABLE os (first ?zs None) ?hash x) (\<lambda>_. ret (first ?zs None))) Q u"
    if "ut_frame (set ?zs) t' s u" "\<And>z. map_option uh_key (handles u z) = (if z = x then Some name else map_option uh_key (handles s z))"
      "map_option uh_hashv (handles u x) = Some ?hash" "table_at (tables u) t' = Some T" "linked (handles u) t' T k ?zs x" "paid n k T" for u T k
    unfolding Q_def using ok(3) by (intro finish_add [OF os ok(2) _ that]) simp
  have "wp (HASH_ADD_KEYPTR_INORDER os head name (of_nat (length name)) x f) Q s"
  proof (cases "xs = []")
    case True
    let ?h1 = "?h\<lparr>uh_next := None, uh_prev := None\<rparr>"
    let ?s1 = "s\<lparr>handles := (handles s)(x \<mapsto> ?h1)\<rparr>"
    have zs: "?zs = [x]" "t' = length (tables ?s1)" using True by (simp_all add: put_before_def t'_def)
    have "wp (HASH_MAKE_TABLE os x) (\<lambda>_ s'. handles s' = (handles ?s1)(x \<mapsto> ?h1\<lparr>uh_tbl := Some (length (tables ?s1))\<rparr>) \<and>
      ut_frame {x} (length (tables ?s1)) ?s1 s' \<and>
      (\<exists>T. table_at (tables s') (length (tables ?s1)) = Some T \<and> linked (handles s') (length (tables ?s1)) T 5 [x] x \<and> paid 0 5 T)) ?s1"
      using x(3) by (intro make_table_linked [OF os]) simp_all
    then have "wp (bnd (HASH_MAKE_TABLE os x) (\<lambda>_. bnd (HASH_ADD_TO_TABLE os (Some x) ?hash x) (\<lambda>_. ret (Some x)))) Q ?s1"
    proof (rule wp_bndI, elim conjE exE)
      fix a :: unit and u T
      assume u: "handles u = (handles ?s1)(x \<mapsto> ?h1\<lparr>uh_tbl := Some (length (tables ?s1))\<rparr>)" "ut_frame {x} (length (tables ?s1)) ?s1 u"
        "table_at (tables u) (length (tables ?s1)) = Some T" "linked (handles u) (length (tables ?s1)) T 5 [x] x" "paid 0 5 T"
      have "ut_frame {x} t' s u" using ut_frame_trans [OF begin' [of ?h1]] u(2) zs by simp
      then show "wp (bnd (HASH_ADD_TO_TABLE os (Some x) ?hash x) (\<lambda>_. ret (Some x))) Q u"
        using last [of u T 5] u zs paid_mono [OF u(5)] by simp
    qed
    then show ?thesis
      using True ok(1) h
      by (simp add: HASH_ADD_KEYPTR_INORDER_def HASH_ADD_KEYPTR_BYHASHVALUE_INORDER_def bnd_assoc wp_bnd [of "upd_hh _ _"] wp_upd_hh)
  next
    case False
    obtain T k where T: "head = first xs None" "paid n k T" "table_at (tables s) t = Some T" "table_holds (handles s) t T k xs"
      using ok(1) False by (rule hash_okE)
    obtain y hy where y: "head = Some y" "y \<noteq> x" "handles s y = Some hy" "uh_tbl hy = Some t"
      using T(1,4) False x(1) by (cases xs) (auto simp: table_holds_def list_ok_def handles_ok_def handle_ok_def)
    let ?h1 = "?h\<lparr>uh_tbl := Some t\<rparr>"
    let ?s1 = "s\<lparr>handles := (handles s)(x \<mapsto> ?h1)\<rparr>"
    have "wp (bnd (HASH_AKBI_INNER_LOOP head x f) (akbi_link head x)) (placed t T k ?zs x (uh_hashv ?h1) ?s1) ?s1"
      using T x(1,3) False by (intro akbi_placed [where h = ?h1]) (auto simp: agree_def)
    then have "wp (bnd (bnd (HASH_AKBI_INNER_LOOP head x f) (akbi_link head x))
        (\<lambda>head. bnd (HASH_ADD_TO_TABLE os head ?hash x) (\<lambda>_. ret head))) Q ?s1"
    proof (rule wp_bndI)
      fix head' u assume p: "placed t T k ?zs x (uh_hashv ?h1) ?s1 head' u"
      then obtain T' where u: "head' = first ?zs None" "ut_frame (set ?zs) t ?s1 u"
        "\<forall>z. map_option uh_key (handles u z) = map_option uh_key (handles ?s1 z)" "map_option uh_hashv (handles u x) = Some ?hash"
        "table_at (tables u) t = Some T'" "linked (handles u) t T' k ?zs x" "ut_buckets T' = ut_buckets T"
        by (auto simp: placed_def)
      have t': "t' = t" using False by (simp add: t'_def)
      have "ut_frame (set ?zs) t' s u" using ut_frame_trans [OF begin' [of ?h1]] u(2) t' by simp
      then show "wp (bnd (HASH_ADD_TO_TABLE os head' ?hash x) (\<lambda>_. ret head')) Q u"
        unfolding u(1) by (rule last [where k = k]) (use u(3-7) t' paid_cong [OF T(2) u(7)] in auto)
    qed
    then show ?thesis
      using y h
      by (simp add: HASH_ADD_KEYPTR_INORDER_def HASH_ADD_KEYPTR_BYHASHVALUE_INORDER_def bnd_assoc wp_bnd [of "upd_hh _ _"] wp_upd_hh
          wp_bnd [of "head_tbl _"] wp_head_tbl)
  qed
  then show ?thesis by (simp only: Q_def)
qed



section \<open>Replacing, clearing, size\<close>

text \<open>Replacing searches, deletes what it finds, and adds.\<close>

lemma find_by_hash: "HASH_FIND_BYHASHVALUE head k (of_nat (length k)) (HASH_JEN k (of_nat (length k))) = HASH_FIND_STR head k"
  by (simp add: HASH_FIND_STR_def HASH_FIND_def HASH_FIND_BYHASHVALUE_def)

lemma replace_str:
  "HASH_REPLACE_STR os head k x =
     bnd (HASH_FIND_STR head k) (\<lambda>replaced.
     bnd (case replaced of None \<Rightarrow> ret head | Some y \<Rightarrow> HASH_DELETE head y) (\<lambda>head.
     bnd (HASH_ADD_STR os head k x) (\<lambda>head. ret (head, replaced))))"
  by (simp add: HASH_REPLACE_STR_def HASH_REPLACE_def HASH_REPLACE_BYHASHVALUE_def find_by_hash HASH_ADD_STR_def HASH_ADD_KEYPTR_def)

lemma head_table:
  assumes "hash_ok n head t s xs" "xs \<noteq> []"
  obtains T k x h where "table_at (tables s) t = Some T" "table_holds (handles s) t T k xs"
    "head = Some x" "handles s x = Some h" "uh_tbl h = Some t"
proof -
  obtain T k where T: "head = first xs None" "table_at (tables s) t = Some T" "table_holds (handles s) t T k xs"
    using assms by (rule hash_okE)
  then obtain x h where "head = Some x" "handles s x = Some h" "uh_tbl h = Some t"
    using assms(2) by (cases xs) (auto simp: table_holds_def list_ok_def handles_ok_def handle_ok_def)
  with T(2,3) that show ?thesis by blast
qed

lemma hash_clear_spec:
  assumes "hash_ok n head t s xs"
  shows "wp (HASH_CLEAR head) (\<lambda>head' s'. head' = None \<and> handles s' = handles s \<and> ut_frame {} t s s' \<and>
    (xs \<noteq> [] \<longrightarrow> table_at (tables s') t = None)) s"
proof (cases "xs = []")
  case True
  with assms show ?thesis by (simp add: HASH_CLEAR_def wp_ret)
next
  case False
  obtain T x h where T: "table_at (tables s) t = Some T" "head = Some x" "handles s x = Some h" "uh_tbl h = Some t"
    using assms False by (rule head_table)
  then show ?thesis by (simp add: HASH_CLEAR_def wp_simps ut_frame_def agree_def)
qed

text \<open>The size of the table, its buckets and the handles.\<close>

lemma hash_overhead_spec:
  assumes "hash_ok n head t s xs" "xs \<noteq> []"
  shows "wp (HASH_OVERHEAD head) (\<lambda>r s'. s' = s \<and>
    (\<exists>T k. table_at (tables s) t = Some T \<and> sized k T \<and> unat r = 56 * length xs + 16 * 2 ^ k + 64)) s"
proof -
  obtain T k x h where T: "table_at (tables s) t = Some T" "table_holds (handles s) t T k xs"
      "head = Some x" "handles s x = Some h" "uh_tbl h = Some t"
    using assms by (rule head_table)
  have items: "num_items T = of_nat (length xs)" "sized k T" "length xs < 64"
    using T(2) hash_ok_length [OF assms(1)] by (simp_all add: table_holds_def)
  have "unat (ucast (num_items T) :: 64 word) = length xs" "unat (ucast (num_buckets T) :: 64 word) = 2 ^ k"
    using items unat_2_power [of k] by (simp_all add: sized_def unsigned_ucast_eq take_bit_nat_eq_self unat_of_nat)
  moreover have "(2 :: nat) ^ k \<le> 2 ^ 31" using items(2) by (intro power_increasing) (simp_all add: sized_def)
  ultimately have "unat (ucast (num_items T) * of_nat UT_HANDLE_SIZE + ucast (num_buckets T) * of_nat UT_BUCKET_SIZE + of_nat UT_TABLE_SIZE :: 64 word)
      = 56 * length xs + 16 * 2 ^ k + 64"
    using items(3) by (simp add: unat_word_ariths UT_HANDLE_SIZE_def UT_BUCKET_SIZE_def UT_TABLE_SIZE_def)
  then show ?thesis
    unfolding HASH_OVERHEAD_def using T items(2) by (auto simp: wp_simps)
qed

end
