(* ===== verification/Hash_Table_Sessions.thy ===== *)
theory Hash_Table_Sessions
  imports Hash_Table_Order Simulation
begin

text \<open>
  Any sequence of operations on a hash table, against the list of the keys and elements: adding at
  the end or in order, replacing, deleting, searching, sorting and clearing.
\<close>

section \<open>Sessions\<close>

datatype table_op = Add string elt | Add_inorder string elt | Replace string elt | Delete elt | Find string | Sort | Clear

text \<open>An operation gives the new head, and the answer of a search.\<close>

fun table_exec ::
  "'w os \<Rightarrow> (elt \<Rightarrow> elt \<Rightarrow> int) \<Rightarrow> table_op \<Rightarrow> elt option \<Rightarrow> ('w, 'm, elt option \<times> elt option list) hprog" where
  "table_exec os f (Add k x) head = bnd (HASH_ADD_STR os head k x) (\<lambda>head. ret (head, []))"
| "table_exec os f (Add_inorder k x) head =
     bnd (HASH_ADD_KEYPTR_INORDER os head k (of_nat (length k)) x f) (\<lambda>head. ret (head, []))"
| "table_exec os f (Replace k x) head = bnd (HASH_REPLACE_STR os head k x) (\<lambda>(head, r). ret (head, [r]))"
| "table_exec os f (Delete x) head = bnd (HASH_DELETE head x) (\<lambda>head. ret (head, []))"
| "table_exec os f (Find k) head = bnd (HASH_FIND_STR head k) (\<lambda>r. ret (head, [r]))"
| "table_exec os f Sort head = bnd (HASH_SRT f head) (\<lambda>head. ret (head, []))"
| "table_exec os f Clear head = bnd (HASH_CLEAR head) (\<lambda>head. ret (head, []))"

fun run_table ::
  "'w os \<Rightarrow> (elt \<Rightarrow> elt \<Rightarrow> int) \<Rightarrow> table_op list \<Rightarrow> elt option \<Rightarrow> ('w, 'm, elt option \<times> elt option list) hprog" where
  "run_table os f [] head = ret (head, [])"
| "run_table os f (op # ops) head = bnd (table_exec os f op head) (\<lambda>(head, r).
     bnd (run_table os f ops head) (\<lambda>(head, rs). ret (head, r @ rs)))"

text \<open>The same on the list; the comparator is that of the library.\<close>

definition place :: "elt comparator \<Rightarrow> string \<Rightarrow> elt \<Rightarrow> (string \<times> elt) list \<Rightarrow> (string \<times> elt) list" where
  "place C k x es = takeWhile (\<lambda>e. compare C (snd e) x \<noteq> Greater) es @ (k, x) # dropWhile (\<lambda>e. compare C (snd e) x \<noteq> Greater) es"

fun list_step :: "elt comparator \<Rightarrow> table_op \<Rightarrow> (string \<times> elt) list \<Rightarrow> (string \<times> elt) list \<times> elt option list" where
  "list_step C (Add k x) es = (es @ [(k, x)], [])"
| "list_step C (Add_inorder k x) es = (place C k x es, [])"
| "list_step C (Replace k x) es = (filter (\<lambda>e. fst e \<noteq> k) es @ [(k, x)], [map_of es k])"
| "list_step C (Delete x) es = (filter (\<lambda>e. snd e \<noteq> x) es, [])"
| "list_step C (Find k) es = (es, [map_of es k])"
| "list_step C Sort es = (Sorting_Algorithms.sort (key snd C) es, [])"
| "list_step C Clear es = ([], [])"

fun run_list :: "elt comparator \<Rightarrow> table_op list \<Rightarrow> (string \<times> elt) list \<Rightarrow> (string \<times> elt) list \<times> elt option list" where
  "run_list C [] es = (es, [])"
| "run_list C (op # ops) es = (case list_step C op es of (es, r) \<Rightarrow> case run_list C ops es of (es, rs) \<Rightarrow> (es, r @ rs))"

text \<open>
  What the callers see to: keys and elements are new when they are added, elements are in the
  table when they are deleted, and there are at most 63.
\<close>

fun step_ok :: "table_op \<Rightarrow> (string \<times> elt) list \<Rightarrow> bool" where
  "step_ok (Add k x) es \<longleftrightarrow> short_key k \<and> k \<notin> fst ` set es \<and> x \<notin> snd ` set es \<and> length es < 63"
| "step_ok (Add_inorder k x) es \<longleftrightarrow> short_key k \<and> k \<notin> fst ` set es \<and> x \<notin> snd ` set es \<and> length es < 63"
| "step_ok (Replace k x) es \<longleftrightarrow> short_key k \<and> x \<notin> snd ` set es \<and> length es < 63"
| "step_ok (Delete x) es \<longleftrightarrow> x \<in> snd ` set es"
| "step_ok (Find k) es \<longleftrightarrow> short_key k"
| "step_ok Sort es \<longleftrightarrow> True"
| "step_ok Clear es \<longleftrightarrow> True"

fun ops_ok :: "elt comparator \<Rightarrow> table_op list \<Rightarrow> (string \<times> elt) list \<Rightarrow> bool" where
  "ops_ok C [] es \<longleftrightarrow> True"
| "ops_ok C (op # ops) es \<longleftrightarrow> step_ok op es \<and> ops_ok C ops (fst (list_step C op es))"

fun is_add :: "table_op \<Rightarrow> bool" where
  "is_add (Add k x) = True"
| "is_add (Add_inorder k x) = True"
| "is_add (Replace k x) = True"
| "is_add _ = False"

definition adds :: "table_op list \<Rightarrow> nat" where
  "adds ops = length (filter is_add ops)"


section \<open>One operation\<close>

text \<open>The table stands for the list, after at most \<open>n\<close> additions.\<close>

definition table_rep :: "nat \<Rightarrow> elt option \<Rightarrow> ('w, 'm) ut_scheme \<Rightarrow> (string \<times> elt) list \<Rightarrow> bool" where
  "table_rep n head s es \<longleftrightarrow> (\<exists>t. hash_ok n head t s (map snd es)) \<and> (\<forall>(k, x) \<in> set es. key_in (handles s) x = k) \<and>
     distinct (map fst es) \<and> (\<forall>x. handles s x \<noteq> None)"

lemma table_repE:
  assumes "table_rep n head s es"
  obtains t where "hash_ok n head t s (map snd es)" "\<forall>(k, x) \<in> set es. key_in (handles s) x = k" "distinct (map fst es)"
    "\<forall>x. handles s x \<noteq> None"
  using assms unfolding table_rep_def by blast

lemma table_rep_mono: "table_rep n head s es \<Longrightarrow> n \<le> m \<Longrightarrow> table_rep m head s es"
  unfolding table_rep_def using hash_ok_mono by blast

lemma keys_kept_defined: "keys_kept S s s' \<Longrightarrow> x \<in> S \<Longrightarrow> handles s' x = None \<longleftrightarrow> handles s x = None"
  unfolding keys_kept_def by (metis option.map_disc_iff)

lemma keys_kept_key: "keys_kept S s s' \<Longrightarrow> x \<in> S \<Longrightarrow> handles s x \<noteq> None \<Longrightarrow> key_in (handles s') x = key_in (handles s) x"
  by (auto simp: keys_kept_def intro!: key_in_kept)

text \<open>What is known after an element was added, wherever it is put.\<close>

lemma added_rep:
  assumes rep: "table_rep n head s es" and x: "x \<notin> snd ` set es" "k \<notin> fst ` set es"
    and es': "mset es' = add_mset (k, x) (mset es)" and added: "add_done m t (map snd es') x k s head' s'"
  shows "table_rep m head' s' es' \<and> con_out s' = con_out s"
proof -
  have H: "\<forall>(k, x) \<in> set es. key_in (handles s) x = k" "distinct (map fst es)" "\<forall>x. handles s x \<noteq> None"
    using rep by (auto elim: table_repE)
  have s': "hash_ok m head' t s' (map snd es')" "ut_frame (set (map snd es')) t s s'" "keys_kept (- {x}) s s'"
      "map_option uh_key (handles s' x) = Some k"
    using added by (simp_all add: add_done_def)
  have set: "set es' = insert (k, x) (set es)" using es' by (metis set_mset_add_mset_insert set_mset_mset)
  have "mset (map fst es') = mset (map fst ((k, x) # es))" by (simp only: mset_map es' mset.simps(2) list.map image_mset_add_mset)
  then have "distinct (map fst es')" using H(2) x(2) by (metis distinct.simps(2) fst_conv list.simps(9) mset_eq_imp_distinct_iff set_map)
  moreover have "key_in (handles s') z = j" if "(j, z) \<in> set es" for j z
  proof -
    have "z \<in> - {x}" using that x(1) by force
    then have "key_in (handles s') z = key_in (handles s) z" using s'(3) H(3) by (intro keys_kept_key) auto
    then show ?thesis using H(1) that by auto
  qed
  moreover have x': "key_in (handles s') x = k" "handles s' x \<noteq> None" using s'(4) by (auto simp: key_in_def)
  moreover have "handles s' z \<noteq> None" for z
    using keys_kept_defined [OF s'(3), of z] H(3) x'(2) by (cases "z = x") simp_all
  moreover have "con_out s' = con_out s" using s'(2) by (rule ut_frame_out)
  ultimately show ?thesis using s'(1) unfolding table_rep_def set by auto
qed

lemma rep_add:
  assumes os: "malloc_succeeds os" and rep: "table_rep n head s es" "n < 200"
    and x: "short_key k" "k \<notin> fst ` set es" "x \<notin> snd ` set es" "length es < 63"
  shows "wp (HASH_ADD_STR os head k x) (\<lambda>head' s'. table_rep (Suc n) head' s' (es @ [(k, x)]) \<and> con_out s' = con_out s) s"
proof -
  obtain t where t: "hash_ok n head t s (map snd es)" "\<forall>x. handles s x \<noteq> None" using rep(1) by (rule table_repE)
  have new: "length (map snd es) < 63" "x \<notin> set (map snd es)" "handles s x \<noteq> None" using x t(2) by simp_all
  show ?thesis
  proof (rule wp_mono [OF hash_add_spec [OF os t(1) rep(2) new x(1), folded add_done_def]])
    fix head' s' and t' :: nat
    assume "add_done (Suc n) (if map snd es = [] then length (tables s) else t) (map snd es @ [x]) x k s head' s'"
    then show "table_rep (Suc n) head' s' (es @ [(k, x)]) \<and> con_out s' = con_out s"
      by (intro added_rep [OF rep(1) x(3,2)]) simp_all
  qed
qed

lemma place_map:
  assumes "orders_as f C"
  shows "map snd (place C k x es) = put_before f x (map snd es)"
  using orders_asD [OF assms] by (simp add: place_def put_before_def takeWhile_map dropWhile_map o_def)

lemma rep_add_inorder:
  assumes os: "malloc_succeeds os" and f: "orders_as f C" and rep: "table_rep n head s es" "n < 200"
    and x: "short_key k" "k \<notin> fst ` set es" "x \<notin> snd ` set es" "length es < 63"
  shows "wp (HASH_ADD_KEYPTR_INORDER os head k (of_nat (length k)) x f)
    (\<lambda>head' s'. table_rep (Suc n) head' s' (place C k x es) \<and> con_out s' = con_out s) s"
proof -
  obtain t where t: "hash_ok n head t s (map snd es)" "\<forall>x. handles s x \<noteq> None" using rep(1) by (rule table_repE)
  have new: "length (map snd es) < 63" "x \<notin> set (map snd es)" "handles s x \<noteq> None" using x t(2) by simp_all
  have "mset (place C k x es) = add_mset (k, x) (mset es)"
    unfolding place_def mset_append mset.simps(2) union_mset_add_mset_right
    by (simp only: takeWhile_dropWhile_id flip: mset_append)
  then show ?thesis
    by (intro wp_mono [OF hash_add_inorder_spec [OF os t(1) rep(2) new x(1), of f, folded place_map [OF f, of k]]] added_rep [OF rep(1) x(3,2)])
qed

lemma rep_delete:
  assumes rep: "table_rep n head s es" and x: "x \<in> snd ` set es"
  shows "wp (HASH_DELETE head x) (\<lambda>head' s'. table_rep n head' s' (filter (\<lambda>e. snd e \<noteq> x) es) \<and> con_out s' = con_out s) s"
proof -
  obtain t where t: "hash_ok n head t s (map snd es)" and H: "\<forall>(k, x) \<in> set es. key_in (handles s) x = k" "distinct (map fst es)"
    "\<forall>x. handles s x \<noteq> None"
    using rep(1) by (auto simp: table_rep_def)
  have dist: "distinct (map snd es)"
    using t by (cases "es = []") (auto simp: hash_ok_def table_holds_def list_ok_def)
  then have removed: "remove1 x (map snd es) = map snd (filter (\<lambda>e. snd e \<noteq> x) es)"
    by (simp add: distinct_remove1_removeAll removeAll_filter_not_eq filter_map o_def eq_commute)
  have "x \<in> set (map snd es)" using x by simp
  then show ?thesis
  proof (rule_tac wp_mono [OF hash_delete_spec [OF t]], assumption, elim conjE)
    fix head' s'
    assume s': "hash_ok n head' t s' (remove1 x (map snd es))" "ut_frame (set (map snd es)) t s s'" "keys_kept UNIV s s'"
    have "key_in (handles s') z = key_in (handles s) z" "handles s' z \<noteq> None" for z
      using keys_kept_key [OF s'(3)] keys_kept_defined [OF s'(3)] H(3) by auto
    moreover have "con_out s' = con_out s" using s'(2) by (rule ut_frame_out)
    moreover have "distinct (map fst (filter (\<lambda>e. snd e \<noteq> x) es))" using H(2) by (simp add: distinct_map_filter)
    ultimately show "table_rep n head' s' (filter (\<lambda>e. snd e \<noteq> x) es) \<and> con_out s' = con_out s"
      using s'(1) H(1) unfolding table_rep_def removed by auto
  qed
qed

lemma rep_find:
  assumes rep: "table_rep n head s es" and k: "short_key k"
  shows "wp (HASH_FIND_STR head k) (\<lambda>r s'. s' = s \<and> r = map_of es k) s"
proof -
  obtain t where t: "hash_ok n head t s (map snd es)" and H: "\<forall>(k, x) \<in> set es. key_in (handles s) x = k" "distinct (map fst es)"
    using rep(1) by (auto simp: table_rep_def)
  show ?thesis
  proof (rule wp_mono [OF hash_find_spec [OF t k]], elim conjE)
    fix r s'
    assume r: "s' = s" "case r of None \<Rightarrow> \<forall>x \<in> set (map snd es). key_in (handles s) x \<noteq> k | Some x \<Rightarrow> x \<in> set (map snd es) \<and> key_in (handles s) x = k"
    have "map_of es k = r"
    proof (cases r)
      case None
      then show ?thesis using r(2) H(1) by (fastforce simp: map_of_eq_None_iff)
    next
      case (Some x)
      then obtain j where "(j, x) \<in> set es" using r(2) by auto
      then show ?thesis using r(2) H Some by auto
    qed
    then show "s' = s \<and> r = map_of es k" using r(1) by simp
  qed
qed

lemma rep_replace:
  assumes os: "malloc_succeeds os" and rep: "table_rep n head s es" "n < 200"
    and x: "short_key k" "x \<notin> snd ` set es" "length es < 63"
  shows "wp (HASH_REPLACE_STR os head k x) (\<lambda>(head', r) s'.
    table_rep (Suc n) head' s' (filter (\<lambda>e. fst e \<noteq> k) es @ [(k, x)]) \<and> r = map_of es k \<and> con_out s' = con_out s) s"
proof -
  let ?es = "filter (\<lambda>e. fst e \<noteq> k) es"
  have keys: "distinct (map fst es)" and elts: "distinct (map snd es)"
    using rep(1) by (auto simp: table_rep_def hash_ok_def table_holds_def list_ok_def)
  have len: "length ?es < 63" using length_filter_le x(3) by (rule le_less_trans)
  have add: "wp (HASH_ADD_STR os head' k x) (\<lambda>head'' s''. table_rep (Suc n) head'' s'' (?es @ [(k, x)]) \<and> con_out s'' = con_out s) s'"
    if "table_rep n head' s' ?es" "con_out s' = con_out s" for head' s'
    using rep_add [OF os that(1) rep(2) x(1) _ _ len, of x] x(2) that(2) by auto
  have delete: "wp (case map_of es k of None \<Rightarrow> ret head | Some y \<Rightarrow> HASH_DELETE head y)
      (\<lambda>head' s'. table_rep n head' s' ?es \<and> con_out s' = con_out s) s"
  proof (cases "map_of es k")
    case None
    then have "?es = es" by (auto simp: map_of_eq_None_iff intro: filter_True)
    with None rep(1) show ?thesis by (simp add: wp_ret)
  next
    case (Some y)
    then have y: "(k, y) \<in> set es" by (rule map_of_SomeD)
    have "?es = filter (\<lambda>e. snd e \<noteq> y) es"
    proof (rule filter_cong [OF refl])
      fix e assume "e \<in> set es"
      then show "(fst e \<noteq> k) = (snd e \<noteq> y)"
        using y keys elts unfolding distinct_map inj_on_def by (metis fst_conv snd_conv)
    qed
    moreover have "y \<in> snd ` set es" using y by force
    ultimately show ?thesis using rep_delete [OF rep(1), of y] Some by simp
  qed
  have find: "wp (HASH_FIND_STR head k) P s = P (map_of es k) s" for P
    using rep_find [OF rep(1) x(1)] by (auto simp: wp_iff)
  show ?thesis
    unfolding replace_str wp_bnd [of "HASH_FIND_STR _ _"] find
    by (rule wp_bndI [OF delete], elim conjE, rule wp_bndI [OF add]) (auto simp: wp_ret)
qed

lemma map_sort: "map g (Sorting_Algorithms.sort (key g C) es) = Sorting_Algorithms.sort C (map g es)"
proof -
  have "map g (insort (key g C) e es) = insort C (g e) (map g es)" for e es
    by (induction es) simp_all
  then show ?thesis by (induction es) simp_all
qed

lemma rep_sort:
  assumes f: "orders_as f C" and rep: "table_rep n head s es"
  shows "wp (HASH_SRT f head) (\<lambda>head' s'. table_rep n head' s' (Sorting_Algorithms.sort (key snd C) es) \<and> con_out s' = con_out s) s"
proof -
  obtain t where t: "hash_ok n head t s (map snd es)" and H: "\<forall>(k, x) \<in> set es. key_in (handles s) x = k" "distinct (map fst es)"
    "\<forall>x. handles s x \<noteq> None"
    using rep by (rule table_repE)
  let ?es = "Sorting_Algorithms.sort (key snd C) es"
  have "mset (map fst ?es) = mset (map fst es)" by (simp only: mset_map mset_sort)
  then have dist: "distinct (map fst ?es)" using H(2) mset_eq_imp_distinct_iff by blast
  show ?thesis
  proof (rule wp_mono [OF hash_sort_spec [OF t f]], elim conjE)
    fix head' s'
    assume s': "hash_ok n head' t s' (Sorting_Algorithms.sort C (map snd es))" "ut_frame (set (map snd es)) t s s'" "keys_kept UNIV s s'"
    have "key_in (handles s') z = key_in (handles s) z" "handles s' z \<noteq> None" for z
      using keys_kept_key [OF s'(3)] keys_kept_defined [OF s'(3)] H(3) by auto
    moreover have "con_out s' = con_out s" using s'(2) by (rule ut_frame_out)
    ultimately show "table_rep n head' s' ?es \<and> con_out s' = con_out s"
      using s'(1) H(1) dist unfolding table_rep_def map_sort by auto
  qed
qed

lemma rep_clear:
  assumes rep: "table_rep n head s es"
  shows "wp (HASH_CLEAR head) (\<lambda>head' s'. table_rep n head' s' [] \<and> con_out s' = con_out s) s"
proof -
  obtain t where t: "hash_ok n head t s (map snd es)" "\<forall>x. handles s x \<noteq> None" using rep by (rule table_repE)
  show ?thesis
    by (rule wp_mono [OF hash_clear_spec [OF t(1)]]) (use t(2) in \<open>auto simp: table_rep_def dest: ut_frame_out\<close>)
qed

text \<open>Each operation does to the table what it does to the list.\<close>

lemma step_rep:
  assumes os: "malloc_succeeds os" and f: "orders_as f C" and rep: "table_rep n head s es" and op: "step_ok op es" "n + adds [op] \<le> 200"
  shows "wp (table_exec os f op head) (\<lambda>(head', r) s'. (case list_step C op es of (es', r') \<Rightarrow>
    table_rep (n + adds [op]) head' s' es' \<and> r = r') \<and> con_out s' = con_out s) s"
proof (cases op)
  case (Add k x)
  then show ?thesis using rep_add [OF os rep] op by (auto simp: adds_def wp_bnd wp_ret elim!: wp_mono)
next
  case (Add_inorder k x)
  then show ?thesis using rep_add_inorder [OF os f rep] op by (auto simp: adds_def wp_bnd wp_ret elim!: wp_mono)
next
  case (Replace k x)
  then have "wp (HASH_REPLACE_STR os head k x) (\<lambda>(head', r) s'.
      table_rep (Suc n) head' s' (filter (\<lambda>e. fst e \<noteq> k) es @ [(k, x)]) \<and> r = map_of es k \<and> con_out s' = con_out s) s"
    using op by (intro rep_replace [OF os rep]) (auto simp: adds_def)
  then show ?thesis unfolding Replace table_exec.simps by (rule wp_bndI) (auto simp: wp_ret adds_def)
next
  case (Delete x)
  then show ?thesis using rep_delete [OF rep] op by (auto simp: adds_def wp_bnd wp_ret elim!: wp_mono)
next
  case (Find k)
  then have "wp (HASH_FIND_STR head k) (\<lambda>r s'. s' = s \<and> r = map_of es k) s" using op by (intro rep_find [OF rep]) simp
  then show ?thesis unfolding Find table_exec.simps by (rule wp_bndI) (use rep in \<open>simp add: wp_ret adds_def\<close>)
next
  case Sort
  then show ?thesis using rep_sort [OF f rep] by (auto simp: adds_def wp_bnd wp_ret elim!: wp_mono)
next
  case Clear
  then show ?thesis using rep_clear [OF rep] by (auto simp: adds_def wp_bnd wp_ret elim!: wp_mono)
qed


section \<open>Any number of operations\<close>

lemma adds_Cons: "adds (op # ops) = adds [op] + adds ops"
  by (simp add: adds_def)

lemma run_table_rep:
  fixes s :: "('w, 'm) ut_scheme"
  assumes os: "malloc_succeeds os" and f: "orders_as f C"
  shows "table_rep n head s es \<Longrightarrow> ops_ok C ops es \<Longrightarrow> n + adds ops \<le> 200 \<Longrightarrow>
    wp (run_table os f ops head) (\<lambda>(head', rs) s'. (case run_list C ops es of (es', rs') \<Rightarrow>
      table_rep (n + adds ops) head' s' es' \<and> rs = rs') \<and> con_out s' = con_out s) s"
proof (induction ops arbitrary: n head s es)
  case Nil
  then show ?case by (simp add: wp_ret adds_def)
next
  case (Cons op ops)
  obtain es1 r1 where es1: "list_step C op es = (es1, r1)" by fastforce
  have n: "n + adds [op] \<le> 200" "n + adds [op] + adds ops \<le> 200" using Cons.prems(3) by (simp_all add: adds_Cons [of op ops])
  have step: "wp (table_exec os f op head) (\<lambda>(head', r) s'. table_rep (n + adds [op]) head' s' es1 \<and> r = r1 \<and> con_out s' = con_out s) s"
    using step_rep [OF os f Cons.prems(1) _ n(1)] Cons.prems(2) es1 by simp
  show ?case
    unfolding run_table.simps
  proof (rule wp_bndI [OF step])
    fix p and s' :: "('w, 'm) ut_scheme"
    assume "(case p of (head', r) \<Rightarrow> \<lambda>s'. table_rep (n + adds [op]) head' s' es1 \<and> r = r1 \<and> con_out s' = con_out s) s'"
    then obtain head' where p: "p = (head', r1)" "table_rep (n + adds [op]) head' s' es1" "con_out s' = con_out s" by auto
    have "ops_ok C ops es1" using Cons.prems(2) es1 by simp
    from Cons.IH [OF p(2) this n(2)]
    show "wp (case p of (head, r) \<Rightarrow> bnd (run_table os f ops head) (\<lambda>(head, rs). ret (head, r @ rs)))
        (\<lambda>(head', rs) s'. (case run_list C (op # ops) es of (es', rs') \<Rightarrow>
           table_rep (n + adds (op # ops)) head' s' es' \<and> rs = rs') \<and> con_out s' = con_out s) s'"
      using p es1 by (auto simp: wp_bnd wp_ret adds_Cons [of op ops] add.assoc split: prod.splits elim!: wp_mono)
  qed
qed

end
