(* ===== verification/Hash_Table_Selecting.thy ===== *)
theory Hash_Table_Selecting
  imports Hash_Table_Order
begin

text \<open>
  \<open>HASH_SELECT\<close> puts the elements that satisfy a condition into a second table, through their
  second handles, in the order of the buckets. It does not move the tail of the second table, so
  the next element that is added there cuts off all but the first one.
\<close>

section \<open>The selected elements\<close>

text \<open>The table stands for the list, but its tail is the first element.\<close>

definition chosen :: "nat \<Rightarrow> elt option \<Rightarrow> nat \<Rightarrow> ('w, 'm) ut_scheme \<Rightarrow> elt list \<Rightarrow> bool" where
  "chosen n dst u s ys \<longleftrightarrow> dst = first ys None \<and> length ys < 64 \<and>
     (ys \<noteq> [] \<longrightarrow> (\<exists>T k. paid n k T \<and> table_at (tables s) u = Some T \<and> ut_tail T = first ys None \<and>
        table_holds (handles s) u (T\<lparr>ut_tail := Some (last ys)\<rparr>) k ys))"

lemma chosenE:
  assumes "chosen n dst u s ys" "ys \<noteq> []"
  obtains T k where "dst = first ys None" "paid n k T" "table_at (tables s) u = Some T" "ut_tail T = first ys None"
    "table_holds (handles s) u (T\<lparr>ut_tail := Some (last ys)\<rparr>) k ys"
  using assms unfolding chosen_def by blast

text \<open>The end of a step: the element goes into its bucket and is counted.\<close>

lemma finish_select:
  fixes v :: "('w, 'm) ut_scheme"
  assumes os: "malloc_succeeds os" and n: "n < 200" "length ys < 63"
    and T: "table_at (tables v) u = Some T" "paid n k T" "sized k T" "num_items T = of_nat (length ys)" "ut_tail T = first (ys @ [x]) None"
    and H: "list_ok (handles v) u (T\<lparr>ut_tail := Some x\<rparr>) (ys @ [x])" "buckets_ok (handles v) (ut_buckets T) (set ys)"
  shows "wp (select_bucket os x (first (ys @ [x]) None))
     (\<lambda>dst s'. chosen (Suc n) dst u s' (ys @ [x]) \<and> relinked (handles v) (handles s') \<and> ut_frame (set (ys @ [x])) u v s') v"
proof -
  let ?zs = "ys @ [x]" and ?d = "first (ys @ [x]) None"
  have ok: "handles_ok (handles v) u (set ?zs)" and dist: "distinct ?zs" using H(1) by (simp_all add: list_ok_def)
  obtain h where h: "handles v x = Some h" "uh_tbl h = Some u" using ok by (auto simp: handles_ok_def handle_ok_def)
  obtain y where y: "?d = Some y" "y \<in> set ?zs" by (cases ys) simp_all
  have few: "few (set ?zs)" using n(2) dist by (simp add: few_def distinct_card del: set_append)
  have only: "set ?zs - {x} = set ys" using dist by auto
  have card: "card (set ?zs) = Suc (length ys)" using dist by (simp add: distinct_card del: set_append)
  have "wp (HASH_ADD_TO_BKT os u (HASH_TO_BKT (uh_hashv h) (num_buckets T)) x) (\<lambda>_. all_bucketed u (Suc n) (set ?zs) T v) v"
    using T n H(2) ok few card h only
    by (intro add_to_bkt_spec [OF os, where m = "length ys" and k = k]) (simp_all del: set_append, simp)
  then have "wp (HASH_ADD_TO_BKT os u (HASH_TO_BKT (uh_hashv h) (num_buckets T)) x)
    (\<lambda>_. wp (bnd (head_tbl ?d) (\<lambda>t. bnd (upd_tbl t (\<lambda>T. T\<lparr>num_items := num_items T + 1\<rparr>)) (\<lambda>_. ret ?d)))
      (\<lambda>dst s'. chosen (Suc n) dst u s' ?zs \<and> relinked (handles v) (handles s') \<and> ut_frame (set ?zs) u v s')) v"
  proof (rule wp_mono)
    fix a :: unit and w assume "all_bucketed u (Suc n) (set ?zs) T v w"
    then obtain T' k' where w: "relinked (handles v) (handles w)" "ut_frame (set ?zs) u v w" "paid (Suc n) k' T'"
        "table_at (tables w) u = Some T'" "sized k' T'" "buckets_ok (handles w) (ut_buckets T') (set ?zs)"
        "num_items T' = of_nat (length ys)" "ut_tail T' = ?d"
      using T(4,5) by (auto simp: all_bucketed_def)
    let ?T = "T'\<lparr>num_items := num_items T' + 1\<rparr>"
    have "list_ok (handles w) u (?T\<lparr>ut_tail := Some x\<rparr>) ?zs" using H(1) w(1) by (rule list_ok_relinked) simp
    then have "table_holds (handles w) u (?T\<lparr>ut_tail := Some (last ?zs)\<rparr>) k' ?zs"
      using w(5-7) by (simp add: table_holds_def sized_def)
    moreover have "paid (Suc n) k' ?T" using w(3) by (rule paid_cong) simp
    ultimately have "chosen (Suc n) ?d u (w\<lparr>tables := (tables w)[u := Some ?T]\<rparr>) ?zs"
      using n(2) w(4,8) unfolding chosen_def by auto
    moreover have "ut_frame (set ?zs) u v (w\<lparr>tables := (tables w)[u := Some ?T]\<rparr>)"
      using w(2,4) by (auto simp: ut_frame_def)
    moreover have "\<exists>hy. handles w y = Some hy \<and> uh_tbl hy = Some u"
    proof -
      obtain hy where "handles v y = Some hy" "handle_ok u hy" using ok y(2) by (rule handles_okE)
      moreover from this(1) obtain hy' where "handles w y = Some hy'" "unlinked hy' = unlinked hy" using w(1) by (rule_tac relinkedD)
      ultimately show ?thesis using unlinked_eqD [of hy' hy] by (simp add: handle_ok_def)
    qed
    ultimately show "wp (bnd (head_tbl ?d) (\<lambda>t. bnd (upd_tbl t (\<lambda>T. T\<lparr>num_items := num_items T + 1\<rparr>)) (\<lambda>_. ret ?d)))
      (\<lambda>dst s'. chosen (Suc n) dst u s' ?zs \<and> relinked (handles v) (handles s') \<and> ut_frame (set ?zs) u v s') w"
      using w(1,4) y(1) by (auto simp: wp_simps)
  qed
  then show ?thesis using h T(1)
    by (simp add: select_bucket_def wp_bnd [of "head_tbl (Some x)"] wp_bnd [of "tbl _"] wp_bnd [of "hh _"] wp_bnd [of "HASH_ADD_TO_BKT _ _ _ _"]
      wp_head_tbl wp_tbl wp_hh del: set_append)
qed


text \<open>One element is put behind the others, under the key of its first handle.\<close>

definition picked :: "nat \<Rightarrow> nat \<Rightarrow> elt list \<Rightarrow> elt \<Rightarrow> string \<Rightarrow> ('w, 'm) ut_scheme \<Rightarrow> elt option \<Rightarrow> ('w, 'm) ut_scheme \<Rightarrow> bool" where
  "picked n u ys x k s dst s' \<longleftrightarrow> chosen n dst u s' ys \<and> ut_frame (set ys) u s s' \<and> keys_kept (- {x}) s s' \<and>
     map_option uh_key (handles s' x) = Some k"

lemma finish_picked:
  assumes "malloc_succeeds os" "n < 200" "length ys < 63" "table_at (tables v) u = Some T" "paid n k T" "sized k T"
    "num_items T = of_nat (length ys)" "ut_tail T = first (ys @ [x]) None" "list_ok (handles v) u (T\<lparr>ut_tail := Some x\<rparr>) (ys @ [x])"
    "buckets_ok (handles v) (ut_buckets T) (set ys)" "ut_frame (set (ys @ [x])) u s v" "keys_kept (- {x}) s v" "map_option uh_key (handles v x) = Some name"
  shows "wp (select_bucket os x (first (ys @ [x]) None)) (picked (Suc n) u (ys @ [x]) x name s) v"
proof (rule wp_mono [OF finish_select [OF assms(1-10)]], elim conjE)
  fix dst s' assume s': "chosen (Suc n) dst u s' (ys @ [x])" "relinked (handles v) (handles s')" "ut_frame (set (ys @ [x])) u v s'"
  have "map_option uh_key (handles s' z) = map_option uh_key (handles v z)" for z using s'(2) by (rule relinked_key)
  then show "picked (Suc n) u (ys @ [x]) x name s dst s'"
    using s'(1) assms(12,13) ut_frame_trans [OF assms(11) s'(3)] by (simp add: picked_def keys_kept_def)
qed

lemma select_one_spec:
  fixes s :: "('w, 'm) ut_scheme"
  assumes os: "malloc_succeeds os" and ok: "chosen n (first ys None) u s ys" "n < 200" "length ys < 63"
    and z: "handles s z = Some h" "handle_ok t h" and x: "x = dst_of z" "handles s x = Some d" "x \<notin> set ys"
    and u: "ys = [] \<Longrightarrow> u = length (tables s)"
  shows "wp (select_one os dst_of z (first ys None) (final None ys)) (picked (Suc n) u (ys @ [x]) x (uh_key h) s) s"
proof -
  let ?d = "d\<lparr>uh_key := uh_key h, uh_keylen := uh_keylen h, uh_hashv := uh_hashv h, uh_prev := final None ys, uh_next := None\<rparr>"
  let ?s = "s\<lparr>handles := (handles s)(x \<mapsto> ?d)\<rparr>"
  have key: "short_key (uh_key h)" "uh_keylen h = of_nat (length (uh_key h))" "uh_hashv h = HASH_JEN (uh_key h) (uh_keylen h)"
    using z(2) by (simp_all add: handle_ok_def)
  define Q where "Q = picked (Suc n) u (ys @ [x]) x (uh_key h) s"
  have finish: "wp (select_bucket os x (first (ys @ [x]) None)) Q v"
    if "table_at (tables v) u = Some T" "paid n k T" "sized k T"
      "num_items T = of_nat (length ys)" "ut_tail T = first (ys @ [x]) None" "list_ok (handles v) u (T\<lparr>ut_tail := Some x\<rparr>) (ys @ [x])"
      "buckets_ok (handles v) (ut_buckets T) (set ys)" "ut_frame (set (ys @ [x])) u s v" "keys_kept (- {x}) s v" "map_option uh_key (handles v x) = Some (uh_key h)" for v T k
    unfolding Q_def using that by (rule finish_picked [OF os ok(2,3)])
  have "wp (select_one os dst_of z (first ys None) (final None ys)) Q s"
  proof (cases ys rule: rev_cases)
    case Nil
    have u: "u = length (tables ?s)" using u Nil by simp
    have "wp (HASH_MAKE_TABLE os x) (\<lambda>_ s'. handles s' = (handles ?s)(x \<mapsto> ?d\<lparr>uh_tbl := Some (length (tables ?s))\<rparr>) \<and>
      ut_frame {x} (length (tables ?s)) ?s s' \<and>
      (\<exists>T. table_at (tables s') (length (tables ?s)) = Some T \<and> linked (handles s') (length (tables ?s)) T 5 [x] x \<and> paid 0 5 T)) ?s"
      using key Nil by (intro make_table_linked [OF os]) simp_all
    then have "wp (bnd (HASH_MAKE_TABLE os x) (\<lambda>_. select_bucket os x (Some x))) Q ?s"
    proof (rule wp_bndI, elim conjE exE)
      fix a :: unit and v T
      assume v: "handles v = (handles ?s)(x \<mapsto> ?d\<lparr>uh_tbl := Some (length (tables ?s))\<rparr>)" "ut_frame {x} (length (tables ?s)) ?s v"
        "table_at (tables v) (length (tables ?s)) = Some T" "linked (handles v) (length (tables ?s)) T 5 [x] x" "paid 0 5 T"
      have "ut_frame {x} u s ?s" by (simp add: ut_frame_def agree_def)
      then have "ut_frame {x} u s v" using v(2) ut_frame_trans unfolding u by blast
      then show "wp (select_bucket os x (Some x)) Q v"
        using finish [of v T 5] v u Nil paid_mono [OF v(5)] by (auto simp: linked_def list_ok_def keys_kept_def)
    qed
    then show ?thesis using z(1) x(1,2) Nil
      by (simp add: select_one_def Let_def bnd_assoc wp_bnd [of "hh _"] wp_hh wp_bnd [of "upd_hh _ _"] wp_upd_hh)
  next
    case (snoc as l)
    obtain T k where T: "paid n k T" "table_at (tables s) u = Some T" "ut_tail T = first ys None"
      "table_holds (handles s) u (T\<lparr>ut_tail := Some (last ys)\<rparr>) k ys"
      using ok(1) snoc by (auto elim: chosenE)
    have H: "list_ok (handles s) u (T\<lparr>ut_tail := Some l\<rparr>) ys" "sized k T" "buckets_ok (handles s) (ut_buckets T) (set ys)" "num_items T = of_nat (length ys)"
      using T(4) by (simp_all add: table_holds_def sized_def snoc)
    have l: "final None ys = Some l" "l \<noteq> x" using snoc x(3) by auto
    have hok: "handles_ok (handles s) u (set ys)" using H(1) by (simp add: list_ok_def)
    then obtain hl where hl: "handles s l = Some hl" "handle_ok u hl" by (rule handles_okE [of _ _ _ l]) (simp add: snoc)
    have "ys \<noteq> []" using snoc by simp
    then obtain y zs where "ys = y # zs" by (cases ys) simp_all
    then have y: "first ys None = Some y" "y \<in> set ys" "first (ys @ [x]) None = Some y" by simp_all
    obtain hy where hy: "handles s y = Some hy" "uh_tbl hy = Some u" using hok y(2) by (auto simp: handles_ok_def handle_ok_def)
    have "y \<noteq> x" using y(2) x(3) by auto
    let ?K = "(handles s)(x \<mapsto> ?d\<lparr>uh_tbl := Some u\<rparr>, l \<mapsto> hl\<lparr>uh_next := Some x\<rparr>)"
    let ?v = "s\<lparr>handles := ?K\<rparr>"
    have "dseg (prev_in ?K) (next_in ?K) None (as @ [l, x]) None"
      using H(1) x(3) l hl(1) unfolding list_ok_def snoc
      by (intro dseg_snoc [of "prev_in (handles s)" "next_in (handles s)"]) (auto simp: link_defs)
    moreover have "handles_ok ?K u (set (ys @ [x]))"
      using hok hl x(3) l(2) key by (auto simp: handles_ok_def handle_ok_def)
    ultimately have "list_ok ?K u (T\<lparr>ut_tail := Some x\<rparr>) (ys @ [x])" using H(1) x(3) snoc by (auto simp: list_ok_def)
    moreover have "buckets_ok ?K (ut_buckets T) (set ys)"
      using hl(1) x(3) by (intro buckets_ok_cong [OF H(3)]) (auto simp: bucket_index_def link_defs)
    moreover have "ut_frame (set (ys @ [x])) u s ?v" using snoc by (auto simp: ut_frame_def agree_def)
    moreover have "keys_kept (- {x}) s ?v" "map_option uh_key (?K x) = Some (uh_key h)" using hl(1) l(2) by (auto simp: keys_kept_def)
    ultimately have "wp (select_bucket os x (Some y)) Q ?v"
      using finish [of ?v T k] T H y by simp
    moreover have "?K = (handles s)(x \<mapsto> ?d, l \<mapsto> hl\<lparr>uh_next := Some x\<rparr>, x \<mapsto> ?d\<lparr>uh_tbl := Some u\<rparr>)" using l(2) by (auto simp: fun_eq_iff)
    ultimately show ?thesis using z(1) x(1,2) l hl(1) y(1) hy \<open>y \<noteq> x\<close>
      by (auto simp: select_one_def Let_def bnd_assoc wp_bnd [of "hh _"] wp_hh wp_bnd [of "upd_hh _ _"] wp_upd_hh wp_bnd [of "head_tbl _"] wp_head_tbl)
  qed
  then show ?thesis by (simp only: Q_def)
qed


section \<open>The walk over the buckets\<close>

text \<open>The elements of \<open>S\<close> are in table \<open>t\<close>, and each has a second handle, not shared with another.\<close>

definition two_handles :: "nat \<Rightarrow> (elt \<Rightarrow> elt) \<Rightarrow> elt set \<Rightarrow> ('w, 'm) ut_scheme \<Rightarrow> bool" where
  "two_handles t dst_of S s \<longleftrightarrow> handles_ok (handles s) t S \<and> few S \<and> (\<forall>z \<in> S. handles s (dst_of z) \<noteq> None) \<and>
     inj_on dst_of S \<and> dst_of ` S \<inter> S = {} \<and> t < length (tables s)"

text \<open>The state when the elements of \<open>zs\<close> have been looked at.\<close>

definition selected :: "(elt \<Rightarrow> elt) \<Rightarrow> (elt \<Rightarrow> bool) \<Rightarrow> ('w, 'm) ut_scheme \<Rightarrow> elt list \<Rightarrow> ('w, 'm) ut_scheme \<Rightarrow> bool" where
  "selected dst_of cond s0 zs s \<longleftrightarrow> (let ys = map dst_of (filter cond zs); u = length (tables s0) in
     chosen (length ys) (first ys None) u s ys \<and> ut_frame (set ys) u s0 s \<and> (ys = [] \<longrightarrow> s = s0) \<and>
     (\<forall>z \<in> set (filter cond zs). map_option uh_key (handles s (dst_of z)) = map_option uh_key (handles s0 z)))"

lemma selected_start: "selected dst_of cond s [] s"
  by (simp add: selected_def chosen_def)

lemma selected_source:
  assumes "selected dst_of cond s0 zs s" "two_handles t dst_of S s0" "set zs \<subseteq> S" "z \<in> S"
  shows "handles s z = handles s0 z" "table_at (tables s) t = table_at (tables s0) t"
proof -
  have "z \<notin> dst_of ` set (filter cond zs)" using assms(2-4) by (auto simp: two_handles_def)
  then show "handles s z = handles s0 z" "table_at (tables s) t = table_at (tables s0) t"
    using assms(1,2) by (auto simp: selected_def Let_def ut_frame_def agree_def two_handles_def)
qed

lemma select_step:
  fixes s :: "('w, 'm) ut_scheme"
  assumes os: "malloc_succeeds os" and sel: "selected dst_of cond s0 zs s" and two: "two_handles t dst_of S s0"
    and z: "z \<in> S" "z \<notin> set zs" "distinct zs" "set zs \<subseteq> S" "cond z"
  shows "wp (select_one os dst_of z (first (map dst_of (filter cond zs)) None) (final None (map dst_of (filter cond zs))))
    (\<lambda>dst s'. dst = first (map dst_of (filter cond (zs @ [z]))) None \<and> selected dst_of cond s0 (zs @ [z]) s') s"
proof -
  let ?ys = "map dst_of (filter cond zs)" and ?u = "length (tables s0)" and ?x = "dst_of z"
  have S: "handles_ok (handles s0) t S" "few S" "inj_on dst_of S" using two by (simp_all add: two_handles_def)
  have Sel: "chosen (length ?ys) (first ?ys None) ?u s ?ys" "ut_frame (set ?ys) ?u s0 s" "?ys = [] \<Longrightarrow> s = s0"
    "\<forall>w \<in> set (filter cond zs). map_option uh_key (handles s (dst_of w)) = map_option uh_key (handles s0 w)"
    using sel by (simp_all add: selected_def Let_def)
  have "card (insert z (set zs)) \<le> card S" using S(2) z(1,4) by (intro card_mono) (auto simp: few_def)
  then have "Suc (length zs) < 64" using S(2) z(2,3) by (simp add: few_def distinct_card)
  moreover have "length ?ys \<le> length zs" by simp
  ultimately have len: "length ?ys < 63" by linarith
  obtain h where h: "handles s0 z = Some h" "handle_ok t h" using S(1) z(1) by (rule handles_okE)
  have new: "?x \<notin> set ?ys" using S(3) z(1,2,4) by (auto simp: inj_on_def)
  have "handles s0 ?x \<noteq> None" using two z(1) by (simp add: two_handles_def)
  then obtain d where d: "handles s ?x = Some d" using Sel(2) new by (auto simp: ut_frame_def agree_def)
  have "wp (select_one os dst_of z (first ?ys None) (final None ?ys)) (picked (Suc (length ?ys)) ?u (?ys @ [?x]) ?x (uh_key h) s) s"
    using Sel(1,3) len h selected_source(1) [OF sel two z(4,1)] d new
    by (intro select_one_spec [OF os, where t = t and d = d]) auto
  then show ?thesis
  proof (rule wp_mono)
    fix dst s' assume p: "picked (Suc (length ?ys)) ?u (?ys @ [?x]) ?x (uh_key h) s dst s'"
    then have s': "chosen (Suc (length ?ys)) dst ?u s' (?ys @ [?x])" "ut_frame (set (?ys @ [?x])) ?u s s'" "keys_kept (- {?x}) s s'"
      "map_option uh_key (handles s' ?x) = Some (uh_key h)" by (simp_all add: picked_def)
    have ys: "map dst_of (filter cond (zs @ [z])) = ?ys @ [?x]" using z(5) by simp
    have dst: "dst = first (?ys @ [?x]) None" using s'(1) unfolding chosen_def by simp
    have "ut_frame (set (?ys @ [?x])) ?u s0 s" using Sel(2) by (rule ut_frame_mono) auto
    then have "ut_frame (set (?ys @ [?x])) ?u s0 s'" using s'(2) by (rule ut_frame_trans)
    moreover have "map_option uh_key (handles s' (dst_of w)) = map_option uh_key (handles s0 w)" if "w \<in> set (filter cond (zs @ [z]))" for w
    proof (cases "w = z")
      case False
      then have "w \<in> set (filter cond zs)" using that z(5) by auto
      moreover from this have "dst_of w \<noteq> ?x" using S(3) z(1,2,4) by (auto simp: inj_on_def)
      ultimately show ?thesis using s'(3) Sel(4) by (simp add: keys_kept_def)
    qed (use s'(4) h(1) in simp)
    ultimately have "selected dst_of cond s0 (zs @ [z]) s'"
      unfolding selected_def Let_def ys using s'(1) dst by auto
    then show "dst = first (map dst_of (filter cond (zs @ [z]))) None \<and> selected dst_of cond s0 (zs @ [z]) s'" using dst ys by simp
  qed
qed

lemma wp_select_chain:
  "wp (select_chain os dst_of cond p dst l) Q s = (case p of
       None \<Rightarrow> Q (dst, l) s
     | Some y \<Rightarrow> wp (bnd (if cond y then bnd (select_one os dst_of y dst l) (\<lambda>dst. ret (dst, Some (dst_of y))) else ret (dst, l))
         (\<lambda>(dst, l). bnd (hh y) (\<lambda>h. select_chain os dst_of cond (uh_hh_next h) dst l))) Q s)"
  unfolding select_chain_def
  by (subst wp_loop) (simp add: wp_simps split_beta split: option.splits)

lemma select_chain_spec:
  fixes s :: "('w, 'm) ut_scheme"
  assumes os: "malloc_succeeds os" and two: "two_handles t dst_of S s0"
  shows "selected dst_of cond s0 zs s \<Longrightarrow> dseg (hh_prev_in (handles s0)) (hh_next_in (handles s0)) p cs None \<Longrightarrow>
    distinct (zs @ cs) \<Longrightarrow> set (zs @ cs) \<subseteq> S \<Longrightarrow>
    wp (select_chain os dst_of cond (first cs None) (first (map dst_of (filter cond zs)) None) (final None (map dst_of (filter cond zs))))
      (\<lambda>r s'. r = (first (map dst_of (filter cond (zs @ cs))) None, final None (map dst_of (filter cond (zs @ cs)))) \<and>
        selected dst_of cond s0 (zs @ cs) s') s"
proof (induction cs arbitrary: zs s p)
  case Nil
  then show ?case by (subst wp_select_chain) simp
next
  case (Cons z cs)
  let ?d = "\<lambda>zs. first (map dst_of (filter cond zs)) None" and ?l = "\<lambda>zs. final None (map dst_of (filter cond zs))"
  define Q where "Q = (\<lambda>r s'. r = (?d (zs @ z # cs), ?l (zs @ z # cs)) \<and> selected dst_of cond s0 (zs @ z # cs) s')"
  have go: "wp (bnd (hh z) (\<lambda>h. select_chain os dst_of cond (uh_hh_next h) (?d (zs @ [z])) (?l (zs @ [z])))) Q v"
    if v: "selected dst_of cond s0 (zs @ [z]) v" for v
  proof -
    have "handles v z = handles s0 z" using selected_source(1) [OF v two] Cons.prems(4) by auto
    moreover obtain h where "handles s0 z = Some h" using two Cons.prems(4) by (auto simp: two_handles_def handles_ok_def)
    moreover from this have "uh_hh_next h = first cs None" using Cons.prems(2) by (simp add: hh_next_in_def)
    moreover have "wp (select_chain os dst_of cond (first cs None) (?d (zs @ [z])) (?l (zs @ [z]))) Q v"
      using Cons.IH [OF v, of "Some z"] Cons.prems(2-4) unfolding Q_def by simp
    ultimately show ?thesis by (simp add: wp_bnd [of "hh _"] wp_hh)
  qed
  have "wp (select_chain os dst_of cond (Some z) (?d zs) (?l zs)) Q s"
  proof (cases "cond z")
    case True
    have "wp (select_one os dst_of z (?d zs) (?l zs)) (\<lambda>dst s'. dst = ?d (zs @ [z]) \<and> selected dst_of cond s0 (zs @ [z]) s') s"
      using Cons.prems True by (intro select_step [OF os _ two]) auto
    then have "wp (select_one os dst_of z (?d zs) (?l zs))
        (\<lambda>dst. wp (bnd (hh z) (\<lambda>h. select_chain os dst_of cond (uh_hh_next h) dst (?l (zs @ [z])))) Q) s"
      by (rule wp_mono) (use go in auto)
    then show ?thesis using True by (subst wp_select_chain) (simp add: bnd_assoc wp_bnd [of "select_one _ _ _ _ _"])
  next
    case False
    then have "selected dst_of cond s0 (zs @ [z]) s" using Cons.prems(1) by (simp add: selected_def)
    then show ?thesis using False go [of s] by (subst wp_select_chain) simp
  qed
  then show ?case by (simp add: Q_def)
qed


text \<open>The buckets one after the other give every element once.\<close>

lemma chains_ex:
  assumes "buckets_ok H bs S"
  obtains chain where "\<forall>b < length bs. bucket_ok H (bs ! b) (chain b) \<and> set (chain b) = {x \<in> S. bucket_index H (length bs) x = b}"
  using assms unfolding buckets_ok_def by metis

lemma chains_concat:
  assumes "\<forall>b < n. distinct (chain b) \<and> set (chain b) = {x \<in> S. ix x = b}" "i \<le> n"
  shows "distinct (concat (map chain [0..<i])) \<and> set (concat (map chain [0..<i])) = {x \<in> S. ix x < i}"
  using assms(2)
proof (induction i)
  case (Suc i)
  then have "distinct (chain i)" "set (chain i) = {x \<in> S. ix x = i}" using assms(1) by auto
  with Suc show ?case by auto
qed simp

lemma wp_select_buckets:
  "wp (select_buckets os dst_of cond src i dst l) Q s =
     wp (bnd (head_tbl src) (\<lambda>t. bnd (tbl t) (\<lambda>T.
       if i < num_buckets T
       then bnd (bucket t i) (\<lambda>B. bnd (select_chain os dst_of cond (ub_head B) dst l) (\<lambda>(dst, l). select_buckets os dst_of cond src (i + 1) dst l))
       else ret dst))) Q s"
  unfolding select_buckets_def
  by (subst wp_loop) (simp add: wp_simps split_beta split: option.splits)

lemma select_buckets_spec:
  fixes s :: "('w, 'm) ut_scheme"
  assumes os: "malloc_succeeds os" and two: "two_handles t dst_of S s0"
    and T: "table_at (tables s0) t = Some T" "sized k T" "src = Some y" "y \<in> S"
    and chain: "\<forall>b < 2 ^ k. bucket_ok (handles s0) (ut_buckets T ! b) (chain b) \<and> set (chain b) = {x \<in> S. bucket_index (handles s0) (2 ^ k) x = b}"
  defines "zs \<equiv> \<lambda>i. concat (map chain [0..<i])"
  shows "i \<le> 2 ^ k \<Longrightarrow> selected dst_of cond s0 (zs i) s \<Longrightarrow>
    wp (select_buckets os dst_of cond src (of_nat i) (first (map dst_of (filter cond (zs i))) None) (final None (map dst_of (filter cond (zs i)))))
      (\<lambda>dst s'. dst = first (map dst_of (filter cond (zs (2 ^ k)))) None \<and> selected dst_of cond s0 (zs (2 ^ k)) s') s"
proof (induction "2 ^ k - i" arbitrary: i s)
  have zs: "distinct (zs i) \<and> set (zs i) = {x \<in> S. bucket_index (handles s0) (2 ^ k) x < i}" if "i \<le> 2 ^ k" for i
    unfolding zs_def using chain that by (intro chains_concat) (auto simp: bucket_ok_def)
  have k: "k \<le> 31" "num_buckets T = 2 ^ k" "length (ut_buckets T) = 2 ^ k" using T(2) by (simp_all add: sized_def)
  have "(2 :: nat) ^ k \<le> 2 ^ 31" using k(1) by (intro power_increasing) simp_all
  then have num: "unat (of_nat i :: u32) = i" if "i \<le> 2 ^ k" for i using that by (simp add: unat_of_nat take_bit_nat_eq_self)
  have less: "(of_nat i :: u32) < 2 ^ k \<longleftrightarrow> i < 2 ^ k" if "i \<le> 2 ^ k" for i
    using num [OF that] unat_2_power [OF k(1)] by (simp add: word_less_nat_alt)
  have source: "\<exists>h. handles s y = Some h \<and> uh_tbl h = Some t" "table_at (tables s) t = Some T"
    if "selected dst_of cond s0 (zs i) s" "i \<le> 2 ^ k" for i s
    using selected_source [OF that(1) two, of y] zs [OF that(2)] two T(1,4) by (auto simp: two_handles_def handles_ok_def handle_ok_def)
  {
    case 0
    then have "i = 2 ^ k" by simp
    then show ?case using source [OF 0(3,2)] less [of i] k(2) 0 T(3) by (subst wp_select_buckets) (auto simp: wp_simps)
  next
    case (Suc d)
    then have i: "i < 2 ^ k" by simp
    let ?d = "\<lambda>zs. first (map dst_of (filter cond zs)) None" and ?l = "\<lambda>zs. final None (map dst_of (filter cond zs))"
    define Q where "Q = (\<lambda>dst s'. dst = ?d (zs (2 ^ k)) \<and> selected dst_of cond s0 (zs (2 ^ k)) s')"
    have B: "ub_head (ut_buckets T ! i) = first (chain i) None" "dseg (hh_prev_in (handles s0)) (hh_next_in (handles s0)) None (chain i) None"
      using chain i by (simp_all add: bucket_ok_def)
    have next': "zs i @ chain i = zs (Suc i)" by (simp add: zs_def)
    have "wp (select_chain os dst_of cond (first (chain i) None) (?d (zs i)) (?l (zs i)))
        (\<lambda>r s'. r = (?d (zs (Suc i)), ?l (zs (Suc i))) \<and> selected dst_of cond s0 (zs (Suc i)) s') s"
      using select_chain_spec [OF os two Suc.prems(2) B(2)] zs [of "Suc i"] i unfolding next' by auto
    then have "wp (bnd (select_chain os dst_of cond (first (chain i) None) (?d (zs i)) (?l (zs i)))
        (\<lambda>(dst, l). select_buckets os dst_of cond src (of_nat i + 1) dst l)) Q s"
    proof (rule wp_bndI)
      fix r v assume r: "r = (?d (zs (Suc i)), ?l (zs (Suc i))) \<and> selected dst_of cond s0 (zs (Suc i)) v"
      have "wp (select_buckets os dst_of cond src (of_nat (Suc i)) (?d (zs (Suc i))) (?l (zs (Suc i)))) Q v"
        unfolding Q_def by (rule Suc.hyps) (use Suc.hyps(2) i r in auto)
      then show "wp (case r of (dst, l) \<Rightarrow> select_buckets os dst_of cond src (of_nat i + 1) dst l) Q v" using r by (simp add: add.commute)
    qed
    then have "wp (select_buckets os dst_of cond src (of_nat i) (?d (zs i)) (?l (zs i))) Q s"
      using source [OF Suc.prems(2,1)] less [of i] num [of i] k i T(3) B(1)
      by (subst wp_select_buckets)
        (auto simp: wp_bnd [of "head_tbl _"] wp_bnd [of "tbl _"] wp_bnd [of "bucket _ _"] wp_head_tbl wp_tbl wp_bucket)
    then show ?case by (simp only: Q_def)
  }
qed

text \<open>The whole: every element once, in the order of the buckets.\<close>

lemma hash_select_spec:
  fixes s :: "('w, 'm) ut_scheme"
  assumes os: "malloc_succeeds os" and ok: "hash_ok n head t s xs" "xs \<noteq> []" and two: "two_handles t dst_of (set xs) s"
  shows "wp (HASH_SELECT os dst_of None head cond) (\<lambda>dst s'. \<exists>zs. mset zs = mset xs \<and>
    dst = first (map dst_of (filter cond zs)) None \<and> selected dst_of cond s zs s') s"
proof -
  obtain T k where T: "head = first xs None" "table_at (tables s) t = Some T" "table_holds (handles s) t T k xs"
    using ok by (rule hash_okE)
  have H: "sized k T" "buckets_ok (handles s) (ut_buckets T) (set xs)" "length (ut_buckets T) = 2 ^ k" "k \<le> 31" "distinct xs"
    using T(3) by (simp_all add: table_holds_def sized_def list_ok_def)
  obtain y ys where y: "xs = y # ys" using ok(2) by (cases xs) simp_all
  obtain chain where chain: "\<forall>b < 2 ^ k. bucket_ok (handles s) (ut_buckets T ! b) (chain b) \<and> set (chain b) = {x \<in> set xs. bucket_index (handles s) (2 ^ k) x = b}"
    using chains_ex [OF H(2)] unfolding H(3) by blast
  let ?zs = "concat (map chain [0..<2 ^ k])"
  have "distinct ?zs \<and> set ?zs = {x \<in> set xs. bucket_index (handles s) (2 ^ k) x < 2 ^ k}"
    by (rule chains_concat [where n = "2 ^ k"]) (use chain in \<open>auto simp: bucket_ok_def\<close>)
  then have all: "mset ?zs = mset xs" using H(4,5) bucket_index_less by (simp add: set_eq_iff_mset_eq_distinct [symmetric])
  have walk: "wp (select_buckets os dst_of cond head (of_nat 0) None None)
      (\<lambda>dst s'. dst = first (map dst_of (filter cond ?zs)) None \<and> selected dst_of cond s ?zs s') s"
    using select_buckets_spec [OF os two T(2) H(1) _ _ chain, of head y 0 cond s] T(1) selected_start [of dst_of cond s] by (simp add: y)
  have "wp (select_buckets os dst_of cond head (of_nat 0) None None) (\<lambda>dst s'. \<exists>zs. mset zs = mset xs \<and>
    dst = first (map dst_of (filter cond zs)) None \<and> selected dst_of cond s zs s') s"
    by (rule wp_mono [OF walk], rule exI [of _ ?zs]) (simp add: all)
  moreover have "head = Some y" using T(1) y by simp
  ultimately show ?thesis by (simp add: HASH_SELECT_def)
qed


section \<open>The second table\<close>

lemma selected_key:
  assumes "selected dst_of cond s0 zs s" "two_handles t dst_of S s0" "z \<in> set zs" "cond z" "z \<in> S"
  shows "key_in (handles s) (dst_of z) = key_in (handles s0) z"
proof -
  have "handles_ok (handles s0) t S" using assms(2) by (simp add: two_handles_def)
  then obtain h where "handles s0 z = Some h" using assms(5) by (rule handles_okE)
  moreover have "map_option uh_key (handles s (dst_of z)) = map_option uh_key (handles s0 z)"
    using assms(1,3,4) by (simp add: selected_def Let_def)
  ultimately show ?thesis by (auto simp: key_in_def)
qed

text \<open>Searching finds the selected elements, under the keys of the first table.\<close>

lemma selected_find:
  assumes sel: "selected dst_of cond s0 zs s" and two: "two_handles t dst_of S s0" and zs: "set zs \<subseteq> S" and k: "short_key k"
  shows "wp (HASH_FIND_STR (first (map dst_of (filter cond zs)) None) k) (\<lambda>r s'. s' = s \<and>
    (case r of None \<Rightarrow> \<forall>z \<in> set zs. cond z \<longrightarrow> key_in (handles s0) z \<noteq> k
      | Some x \<Rightarrow> \<exists>z \<in> set zs. cond z \<and> x = dst_of z \<and> key_in (handles s0) z = k)) s"
proof (cases "map dst_of (filter cond zs) = []")
  case True
  then show ?thesis by (auto simp: HASH_FIND_STR_def HASH_FIND_def wp_simps filter_empty_conv)
next
  case False
  let ?ys = "map dst_of (filter cond zs)" and ?u = "length (tables s0)"
  have Sel: "chosen (length ?ys) (first ?ys None) ?u s ?ys"
    using sel by (simp_all add: selected_def Let_def)
  obtain T m where T: "table_at (tables s) ?u = Some T" "table_holds (handles s) ?u (T\<lparr>ut_tail := Some (last ?ys)\<rparr>) m ?ys"
    using Sel(1) False by (rule chosenE)
  then have "handles_ok (handles s) ?u (set ?ys)" "sized m T" "buckets_ok (handles s) (ut_buckets T) (set ?ys)"
    by (simp_all add: table_holds_def list_ok_def sized_def)
  then have found: "wp (HASH_FIND_STR (first ?ys None) k) (\<lambda>r s'. s' = s \<and> (case r of None \<Rightarrow> \<forall>x \<in> set ?ys. key_in (handles s) x \<noteq> k
      | Some x \<Rightarrow> x \<in> set ?ys \<and> key_in (handles s) x = k)) s"
    using T(1) False k by (intro find_in_table) auto
  note key = selected_key [OF sel two]
  show ?thesis by (rule wp_mono [OF found]) (use key zs in \<open>auto simp: subset_eq split: option.splits\<close>)
qed

text \<open>Its list is complete, and the first table is as before.\<close>

lemma chosen_list: "chosen n dst u s ys \<Longrightarrow> nseg (next_in (handles s)) ys None \<and> (\<forall>y \<in> set ys. handles s y \<noteq> None)"
proof (cases "ys = []")
  case False
  assume "chosen n dst u s ys"
  then obtain T k where "table_holds (handles s) u (T\<lparr>ut_tail := Some (last ys)\<rparr>) k ys" using False by (rule chosenE)
  then show ?thesis using dseg_nseg handles_ok_defined by (auto simp: table_holds_def list_ok_def)
qed simp

lemma selected_hash_ok:
  assumes "selected dst_of cond s0 zs s" "two_handles t dst_of S s0" "set zs \<subseteq> S" "hash_ok n head t s0 xs" "set xs \<subseteq> S"
  shows "hash_ok n head t s xs"
  using assms(4)
proof (rule hash_ok_cong)
  show "\<forall>x \<in> set xs. handles s x = handles s0 x" using selected_source(1) [OF assms(1-3)] assms(5) by blast
  assume "xs \<noteq> []"
  then obtain x where "x \<in> S" using assms(5) by (cases xs) auto
  then show "table_at (tables s) t = table_at (tables s0) t" by (rule selected_source(2) [OF assms(1-3)])
qed

lemma selected_defined:
  assumes "selected dst_of cond s0 zs s" "\<forall>x. handles s0 x \<noteq> None"
  shows "\<forall>x. handles s x \<noteq> None" "con_out s = con_out s0"
proof -
  let ?ys = "map dst_of (filter cond zs)"
  have frame: "ut_frame (set ?ys) (length (tables s0)) s0 s" and "chosen (length ?ys) (first ?ys None) (length (tables s0)) s ?ys"
    using assms(1) by (simp_all add: selected_def Let_def)
  then have "\<forall>y \<in> set ?ys. handles s y \<noteq> None" using chosen_list by blast
  then show "\<forall>x. handles s x \<noteq> None" using frame assms(2) unfolding ut_frame_def agree_def by (metis ComplI)
  show "con_out s = con_out s0" using frame by (rule ut_frame_out)
qed


section \<open>The tail\<close>

text \<open>
  The tail of the second table stays at its first element. An element that is added there is put
  behind the first one, and the others are no longer in the list.
\<close>

lemma stale_tail:
  fixes s :: "('w, 'm) ut_scheme"
  assumes os: "malloc_succeeds os" and ok: "chosen n (Some y) u s (y # ys)" "n < 200" "length ys < 62"
    and x: "x \<notin> set (y # ys)" "handles s x = Some h" "short_key name"
  shows "wp (HASH_ADD_STR os (Some y) name x) (\<lambda>head s'. head = Some y \<and> nseg (next_in (handles s')) [y, x] None) s"
proof -
  let ?hash = "HASH_JEN name (of_nat (length name))" and ?S = "set (y # ys @ [x])"
  obtain T k where T: "paid n k T" "table_at (tables s) u = Some T" "ut_tail T = first (y # ys) None"
    "table_holds (handles s) u (T\<lparr>ut_tail := Some (last (y # ys))\<rparr>) k (y # ys)"
    using ok(1) by (rule chosenE) simp
  have H: "handles_ok (handles s) u (set (y # ys))" "sized k T" "buckets_ok (handles s) (ut_buckets T) (set (y # ys))"
    "num_items T = of_nat (Suc (length ys))" "distinct (y # ys)"
    using T(4) by (simp_all add: table_holds_def sized_def list_ok_def)
  obtain g where g: "handles s y = Some g" "handle_ok u g" using H(1) by (rule handles_okE [of _ _ _ y]) simp
  have tbl: "uh_tbl g = Some u" using g(2) by (simp add: handle_ok_def)
  have "y \<noteq> x" using x(1) by auto
  let ?h = "h\<lparr>uh_hashv := ?hash, uh_key := name, uh_keylen := of_nat (length name), uh_tbl := Some u, uh_next := None, uh_prev := Some y\<rparr>"
  let ?K = "(handles s)(x \<mapsto> ?h, y \<mapsto> g\<lparr>uh_next := Some x\<rparr>)"
  let ?T = "T\<lparr>ut_tail := Some x, num_items := num_items T + 1\<rparr>"
  let ?v = "s\<lparr>handles := ?K, tables := (tables s)[u := Some ?T]\<rparr>"
  have K: "?K x = Some ?h" "?K y = Some (g\<lparr>uh_next := Some x\<rparr>)" using \<open>y \<noteq> x\<close> by simp_all
  have sized: "sized k ?T" "paid n k ?T" using H(2) paid_cong [OF T(1)] by (simp_all add: sized_def)
  have hok: "handles_ok ?K u ?S"
    using H(1) g x(3) \<open>y \<noteq> x\<close> by (auto simp: handles_ok_def handle_ok_def)
  have bok: "buckets_ok ?K (ut_buckets ?T) (?S - {x})"
  proof -
    have "?S - {x} = set (y # ys)" using x(1) by auto
    moreover have "buckets_ok ?K (ut_buckets ?T) (set (y # ys))"
      using H(3) x(1) g(1) by (rule_tac buckets_ok_cong [of "handles s"]) (auto simp: bucket_index_def link_defs)
    ultimately show ?thesis by simp
  qed
  have "distinct (y # ys @ [x])" using H(5) x(1) by auto
  then have card: "card ?S = Suc (Suc (length ys))" using distinct_card by fastforce
  have "wp (HASH_ADD_TO_BKT os u (HASH_TO_BKT (uh_hashv ?h) (num_buckets ?T)) x) (\<lambda>_. all_bucketed u (Suc n) ?S ?T ?v) ?v"
    by (rule add_to_bkt_spec [OF os, where k = k and m = "Suc (Suc (length ys))"])
      (use T(2) sized ok(2,3) hok bok K card H(4) in \<open>simp_all add: few_def\<close>)
  then have "wp (HASH_ADD_TO_BKT os u (HASH_TO_BKT ?hash (num_buckets T)) x)
      (\<lambda>_ s'. nseg (next_in (handles s')) [y, x] None) ?v"
  proof (simp, elim wp_mono)
    fix s' assume "all_bucketed u (Suc n) (insert y (insert x (set ys))) ?T ?v s'"
    then have "relinked ?K (handles s')" by (simp add: all_bucketed_def)
    then have "next_in (handles s') z = next_in ?K z" if "?K z \<noteq> None" for z using that by (rule relinked_index(3))
    then show "next_in (handles s') y = Some x \<and> next_in (handles s') x = None" using K by (simp add: next_in_def)
  qed
  then show ?thesis
    using x(2) g(1) tbl \<open>y \<noteq> x\<close> T(2,3)
    by (simp add: HASH_ADD_STR_def HASH_ADD_KEYPTR_def HASH_ADD_KEYPTR_BYHASHVALUE_def HASH_APPEND_LIST_def HASH_ADD_TO_TABLE_def wp_simps)
qed

end
