(* ===== verification/Hash_Table_Properties.thy ===== *)
theory Hash_Table_Properties
  imports Hash_Table_Sessions Hash_Table_Selecting
begin

text \<open>
  What holds after any session on a hash table: the answers, the order in which the elements are
  visited, the count, and the integrity check that \<open>HASH_DEBUG\<close> switches on.
\<close>

section \<open>What holds after a session\<close>

lemma empty_rep: "(\<forall>x. handles s x \<noteq> None) \<Longrightarrow> table_rep 0 None s []"
  by (simp add: table_rep_def)

text \<open>The walk of \<open>HASH_ITER\<close>, with a body that prints the keys.\<close>

definition print_key :: "elt \<Rightarrow> ('w, 'm, unit) hprog" where
  "print_key x = bnd (hh x) (\<lambda>h. put Stdout (uh_key h))"

lemma iter_list:
  assumes "nseg (next_in (handles s)) xs None" "\<forall>x \<in> set xs. handles s x \<noteq> None"
  shows "wp (HASH_ITER (first xs None) print_key) (\<lambda>_ s'. con_out s' = con_out s @ map (\<lambda>x. (Stdout, key_in (handles s) x)) xs) s"
proof -
  let ?J = "\<lambda>zs u. \<exists>ys. xs = ys @ zs \<and> handles u = handles s \<and>
    con_out u = con_out s @ map (\<lambda>x. (Stdout, key_in (handles s) x)) ys"
  have "wp (HASH_ITER (first xs None) print_key) (\<lambda>_. ?J []) s"
  proof (rule hash_iter_spec [where J = ?J])
    fix x zs u assume "?J (x # zs) u"
    then obtain ys where J: "xs = ys @ x # zs" "handles u = handles s" "con_out u = con_out s @ map (\<lambda>x. (Stdout, key_in (handles s) x)) ys"
      by blast
    then obtain h where h: "handles s x = Some h" using assms(2) by auto
    have "?J zs (u\<lparr>con_out := con_out u @ [(Stdout, uh_key h)]\<rparr>)"
      using J h by (intro exI [of _ "ys @ [x]"]) (simp add: key_in_def)
    then show "wp (print_key x) (\<lambda>_. ?J zs) u"
      using h J(2) by (simp add: print_key_def wp_simps put_def)
    have "uh_next h = first zs None" using assms(1) h unfolding J(1) by (simp add: nseg_append next_in_def)
    then show "\<exists>h. handles u x = Some h \<and> uh_next h = first zs None" using h J(2) by simp
  qed simp
  then show ?thesis by (rule wp_mono) auto
qed

lemma iter_rep:
  assumes rep: "table_rep n head s es"
  shows "wp (HASH_ITER head print_key) (\<lambda>_ s'. con_out s' = con_out s @ map (\<lambda>e. (Stdout, fst e)) es) s"
proof -
  obtain t where t: "hash_ok n head t s (map snd es)" and H: "\<forall>(k, x) \<in> set es. key_in (handles s) x = k" "\<forall>x. handles s x \<noteq> None"
    using rep by (auto simp: table_rep_def)
  have "nseg (next_in (handles s)) (map snd es) None"
    using t dseg_nseg by (cases "es = []") (auto simp: hash_ok_def table_holds_def list_ok_def)
  moreover have "\<forall>x \<in> set (map snd es). handles s x \<noteq> None" using H(2) by blast
  ultimately have "wp (HASH_ITER (first (map snd es) None) print_key)
      (\<lambda>_ s'. con_out s' = con_out s @ map (\<lambda>x. (Stdout, key_in (handles s) x)) (map snd es)) s"
    by (rule iter_list)
  moreover have "map (\<lambda>x. (Stdout, key_in (handles s) x)) (map snd es) = map (\<lambda>e. (Stdout, fst e)) es" using H(1) by auto
  moreover have "head = first (map snd es) None" using t by (simp add: hash_ok_def)
  ultimately show ?thesis by (simp only:)
qed

lemma session_rep:
  assumes "malloc_succeeds os" "orders_as f C" "\<forall>x. handles s x \<noteq> None" "ops_ok C ops []" "adds ops \<le> 200"
  obtains head s' where "run_table os f ops None s = Ret ((head, snd (run_list C ops [])), s')"
    "table_rep (adds ops) head s' (fst (run_list C ops []))" "con_out s' = con_out s"
proof -
  have "wp (run_table os f ops None) (\<lambda>(head, rs) s'. (case run_list C ops [] of (es, rs') \<Rightarrow>
      table_rep (0 + adds ops) head s' es \<and> rs = rs') \<and> con_out s' = con_out s) s"
    using assms by (intro run_table_rep empty_rep) simp_all
  with that show ?thesis by (cases "run_list C ops []") (auto simp: wp_iff)
qed

text \<open>C21: After a session of additions, at the end or in order, replacements, deletions, searches,
  sortings and clearings, each search has had the answer that the list gives, and \<open>HASH_ITER\<close>
  visits the elements once each, in the order of the list: that of the additions, or that of the
  stable sort. No pointer between tables, buckets and elements dangles and every loop ends. The
  session has at most 200 additions and replacements in all, each to fewer than 63 elements; an
  element that is added is not in the table, and its key is new but in a replacement; keys are
  shorter than \<open>2 ^ 32\<close>; an element that is deleted is in the table (\<open>ops_ok\<close>); the comparison is
  that of a total preorder (\<open>orders_as\<close>); the memory of the elements is valid; and memory
  allocation succeeds.\<close>

theorem table_session:
  fixes s :: "('w, 'm) ut_scheme"
  assumes "malloc_succeeds os" "orders_as f C" "\<forall>x. handles s x \<noteq> None" "ops_ok C ops []" "adds ops \<le> 200"
  shows "wp (run_table os f ops None) (\<lambda>(head, rs) s'. case run_list C ops [] of (es, rs') \<Rightarrow> rs = rs' \<and>
    wp (HASH_ITER head print_key) (\<lambda>_ s''. con_out s'' = con_out s @ map (\<lambda>e. (Stdout, fst e)) es) s') s"
proof -
  obtain head s' where s': "run_table os f ops None s = Ret ((head, snd (run_list C ops [])), s')"
    "table_rep (adds ops) head s' (fst (run_list C ops []))" "con_out s' = con_out s"
    using assms by (rule session_rep)
  then show ?thesis
    using iter_rep [OF s'(2)] by (simp add: wp_iff [of "run_table os f ops None"] split_beta)
qed

text \<open>The table behind a head.\<close>

lemma rep_size:
  assumes "table_rep n head s es" "es \<noteq> []"
  shows "wp (bnd (head_tbl head) tbl) (\<lambda>T _. \<exists>k \<le> 5 + n div 9. num_buckets T = 2 ^ k \<and> length (ut_buckets T) = 2 ^ k) s"
proof -
  obtain t where t: "hash_ok n head t s (map snd es)" using assms(1) by (auto simp: table_rep_def)
  obtain T k where T: "head = first (map snd es) None" "paid n k T" "table_at (tables s) t = Some T"
    "table_holds (handles s) t T k (map snd es)"
    using t assms(2) by (auto elim: hash_okE)
  then obtain x h where "head = Some x" "handles s x = Some h" "uh_tbl h = Some t"
    using assms(2) by (cases es) (auto simp: table_holds_def list_ok_def handles_ok_def handle_ok_def)
  moreover have "k \<le> 5 + n div 9" using T(2) by (auto simp: paid_def)
  ultimately show ?thesis using T(3,4) by (auto simp: wp_simps table_holds_def sized_def)
qed

text \<open>C22: After a session as in C21, with at most 200 additions and fewer than 63 elements at each,
  new keys and elements, and allocations that succeed, the integrity check of \<open>HASH_DEBUG\<close> does
  not fail, \<open>HASH_COUNT\<close> is the number of elements, and the buckets have been doubled at most
  once in nine additions.\<close>

theorem fsck_passes:
  fixes s :: "('w, 'm) ut_scheme"
  assumes "malloc_succeeds os" "orders_as f C" "\<forall>x. handles s x \<noteq> None" "ops_ok C ops []" "adds ops \<le> 200"
  shows "wp (run_table os f ops None) (\<lambda>(head, rs) s'.
    wp (bnd (HASH_FSCK head) (\<lambda>_. HASH_COUNT head)) (\<lambda>c s''. s'' = s' \<and> c = of_nat (length (fst (run_list C ops [])))) s' \<and>
    (if fst (run_list C ops []) = [] then head = None
     else wp (bnd (head_tbl head) tbl) (\<lambda>T _. \<exists>k \<le> 5 + adds ops div 9. num_buckets T = 2 ^ k \<and> length (ut_buckets T) = 2 ^ k) s')) s"
proof -
  let ?es = "fst (run_list C ops [])"
  obtain head s' where s': "run_table os f ops None s = Ret ((head, snd (run_list C ops [])), s')" "table_rep (adds ops) head s' ?es"
    using assms by (rule session_rep)
  obtain t where t: "hash_ok (adds ops) head t s' (map snd ?es)" using s'(2) by (auto simp: table_rep_def)
  have "wp (HASH_FSCK head) (\<lambda>_. wp (HASH_COUNT head) (\<lambda>c s''. s'' = s' \<and> c = of_nat (length ?es))) s'"
    by (rule wp_mono [OF hash_fsck_spec [OF t]]) (use hash_count_spec [OF t] in simp)
  then have fsck: "wp (bnd (HASH_FSCK head) (\<lambda>_. HASH_COUNT head)) (\<lambda>c s''. s'' = s' \<and> c = of_nat (length ?es)) s'"
    by (simp only: wp_bnd)
  have size: "if ?es = [] then head = None
     else wp (bnd (head_tbl head) tbl) (\<lambda>T _. \<exists>k \<le> 5 + adds ops div 9. num_buckets T = 2 ^ k \<and> length (ut_buckets T) = 2 ^ k) s'"
    using t rep_size [OF s'(2)] by (cases "?es = []") (simp_all add: hash_ok_def)
  show ?thesis
    using fsck size by (simp only: wp_iff [of "run_table os f ops None"] s'(1)) simp
qed

text \<open>
  A heap of elements, ordered by their addresses, and a session that adds, deletes, sorts,
  replaces and adds in order.
\<close>

definition sim_hash_table :: "sim ut" where
  "sim_hash_table = \<lparr>infp = InfLive zero_inferior, sylvan_inferior_idx = 1, sylvan_inferior_count = 1,
     sylvan_last_error = no_error, errno = 0, world = sim_world, con_out = [], handles = (\<lambda>x. Some zero_handle), tables = []\<rparr>"

fun elt_number :: "elt \<Rightarrow> nat" where
  "elt_number (Block n) = n"
| "elt_number _ = 0"

definition by_address :: "elt \<Rightarrow> elt \<Rightarrow> int" where
  "by_address x y = int (elt_number x) - int (elt_number y)"

definition address_order :: "elt comparator" where
  "address_order = key elt_number default"

lemma by_address: "orders_as by_address address_order"
  by (simp add: orders_as_def by_address_def address_order_def not_less)

definition sim_hash_ops :: "table_op list" where
  "sim_hash_ops = [Add ''run'' (Block 7), Add ''quit'' (Block 4), Find ''run'', Delete (Block 7), Add ''help'' (Block 2),
     Find ''run'', Sort, Add_inorder ''file'' (Block 3), Replace ''help'' (Block 5), Find ''help'']"

lemma sim_hash_ops_ok: "ops_ok address_order sim_hash_ops []" "adds sim_hash_ops \<le> 200"
  "run_list address_order sim_hash_ops [] = ([(''file'', Block 3), (''quit'', Block 4), (''help'', Block 5)],
     [Some (Block 7), None, Some (Block 2), Some (Block 5)])"
  by (simp_all add: sim_hash_ops_def adds_def short_key_def address_order_def place_def)

theorem table_session_witness:
  "wp (run_table sim_os by_address sim_hash_ops None) (\<lambda>(head, rs) s'. rs = [Some (Block 7), None, Some (Block 2), Some (Block 5)] \<and>
    wp (HASH_ITER head print_key) (\<lambda>_ s''. con_out s'' = [(Stdout, ''file''), (Stdout, ''quit''), (Stdout, ''help'')]) s') sim_hash_table"
  using table_session [OF sim_malloc by_address, of sim_hash_table sim_hash_ops] sim_hash_ops_ok by (simp add: sim_hash_table_def)

theorem fsck_passes_witness:
  "wp (run_table sim_os by_address sim_hash_ops None) (\<lambda>(head, rs) s'.
    wp (bnd (HASH_FSCK head) (\<lambda>_. HASH_COUNT head)) (\<lambda>c s''. s'' = s' \<and> c = 3) s' \<and>
    wp (bnd (head_tbl head) tbl) (\<lambda>T _. \<exists>k \<le> 5 + adds sim_hash_ops div 9. num_buckets T = 2 ^ k \<and> length (ut_buckets T) = 2 ^ k) s') sim_hash_table"
  using fsck_passes [OF sim_malloc by_address, of sim_hash_table sim_hash_ops] sim_hash_ops_ok by (simp add: sim_hash_table_def)


section \<open>Selecting\<close>

text \<open>The second table and the first one after a selection.\<close>

definition selection_ok ::
  "(elt \<Rightarrow> elt) \<Rightarrow> (elt \<Rightarrow> bool) \<Rightarrow> string \<Rightarrow> elt option \<Rightarrow> (string \<times> elt) list \<Rightarrow> (stream \<times> string) list \<Rightarrow> elt option \<Rightarrow> ('w, 'm) ut_scheme \<Rightarrow> bool" where
  "selection_ok dst_of cond k head es out dst s' \<longleftrightarrow>
     wp (HASH_FIND_STR dst k) (\<lambda>r _. r = map_option dst_of (map_of (filter (\<lambda>e. cond (snd e)) es) k)) s' \<and>
     (\<exists>ys. mset ys = mset (filter (\<lambda>e. cond (snd e)) es) \<and>
       wp (HASH_ITER dst print_key) (\<lambda>_ s''. con_out s'' = out @ map (\<lambda>e. (Stdout, fst e)) ys) s') \<and>
     wp (HASH_ITER head print_key) (\<lambda>_ s''. con_out s'' = out @ map (\<lambda>e. (Stdout, fst e)) es) s'"

lemma rep_two_handles:
  assumes "hash_ok n head t s (map snd es)" "es \<noteq> []" "inj_on dst_of (snd ` set es)" "dst_of ` snd ` set es \<inter> snd ` set es = {}"
    "\<forall>x. handles s x \<noteq> None"
  shows "two_handles t dst_of (snd ` set es) s"
proof -
  obtain T k where T: "table_at (tables s) t = Some T" "table_holds (handles s) t T k (map snd es)"
    using assms(1) by (rule hash_okE) (simp add: assms(2))
  have "card (snd ` set es) \<le> length es" by (metis card_length length_map set_map)
  then show ?thesis
    using T assms hash_ok_length [OF assms(1)]
    by (auto simp: two_handles_def table_holds_def list_ok_def few_def table_at_def split: if_splits)
qed

lemma selected_entries:
  fixes kf :: "elt \<Rightarrow> string"
  assumes "mset zs = mset (map snd es)" "\<forall>(k, x) \<in> set es. kf x = k"
  shows "mset (map (\<lambda>z. (kf z, z)) (filter cond zs)) = mset (filter (\<lambda>e. cond (snd e)) es)"
proof -
  have "mset (map (\<lambda>z. (kf z, z)) (filter cond zs)) = image_mset (\<lambda>z. (kf z, z)) (filter_mset cond (image_mset snd (mset es)))"
    using assms(1) by simp
  also have "\<dots> = image_mset (\<lambda>e. (kf (snd e), snd e)) (filter_mset (\<lambda>e. cond (snd e)) (mset es))"
    by (simp add: filter_mset_image_mset image_mset.compositionality o_def)
  also have "\<dots> = image_mset (\<lambda>e. e) (filter_mset (\<lambda>e. cond (snd e)) (mset es))"
    by (rule image_mset_cong) (use assms(2) in auto)
  finally show ?thesis by simp
qed

lemma rep_select:
  assumes os: "malloc_succeeds os" and rep: "table_rep n head s es"
    and dst: "inj_on dst_of (snd ` set es)" "dst_of ` snd ` set es \<inter> snd ` set es = {}" and k: "short_key k"
  shows "wp (HASH_SELECT os dst_of None head cond) (selection_ok dst_of cond k head es (con_out s)) s"
proof (cases "es = []")
  case True
  then have "head = None" using rep by (auto simp: table_rep_def)
  then show ?thesis
    using True iter_rep [OF rep]
    by (simp add: HASH_SELECT_def wp_ret selection_ok_def HASH_FIND_STR_def HASH_FIND_def)
next
  case False
  obtain t where t: "hash_ok n head t s (map snd es)" and H: "\<forall>(k, x) \<in> set es. key_in (handles s) x = k" "distinct (map fst es)" "\<forall>x. handles s x \<noteq> None"
    using rep by (rule table_repE)
  have two: "two_handles t dst_of (snd ` set es) s" using t False dst H(3) by (rule rep_two_handles)
  then have two': "two_handles t dst_of (set (map snd es)) s" by simp
  have ne: "map snd es \<noteq> []" using False by simp
  show ?thesis
  proof (rule wp_mono [OF hash_select_spec [OF os t ne two', where cond = cond]], elim exE conjE)
    fix dst s' zs assume zs: "mset zs = mset (map snd es)" "dst = first (map dst_of (filter cond zs)) None" "selected dst_of cond s zs s'"
    have set: "set zs = snd ` set es" using zs(1) by (metis mset_eq_setD set_map)
    note def = selected_defined [OF zs(3) H(3)]
    let ?ys = "map (\<lambda>z. (key_in (handles s) z, z)) (filter cond zs)"
    have key: "key_in (handles s') (dst_of z) = key_in (handles s) z" if "z \<in> set zs" "cond z" for z
      using selected_key [OF zs(3) two that] that(1) set by simp
    have "chosen (length (filter cond zs)) dst (length (tables s)) s' (map dst_of (filter cond zs))"
      using zs(2,3) by (simp add: selected_def Let_def)
    then have "wp (HASH_ITER dst print_key) (\<lambda>_ s''. con_out s'' = con_out s' @ map (\<lambda>x. (Stdout, key_in (handles s') x)) (map dst_of (filter cond zs))) s'"
      unfolding zs(2) using def(1) by (intro iter_list) (auto dest!: chosen_list)
    moreover have "map (\<lambda>x. (Stdout, key_in (handles s') x)) (map dst_of (filter cond zs)) = map (\<lambda>e. (Stdout, fst e)) ?ys" using key by simp
    ultimately have iter: "wp (HASH_ITER dst print_key) (\<lambda>_ s''. con_out s'' = con_out s @ map (\<lambda>e. (Stdout, fst e)) ?ys) s'"
      by (simp only: def(2))
    have "key_in (handles s') x = j" if "(j, x) \<in> set es" for j x
    proof -
      have "x \<in> snd ` set es" using that by force
      then have "handles s' x = handles s x" using set by (intro selected_source(1) [OF zs(3) two]) simp_all
      then show ?thesis using H(1) that by (auto simp: key_in_def)
    qed
    then have "table_rep n head s' es"
      using selected_hash_ok [OF zs(3) two _ t] set H(2) def(1) by (auto simp: table_rep_def)
    then have source: "wp (HASH_ITER head print_key) (\<lambda>_ s''. con_out s'' = con_out s @ map (\<lambda>e. (Stdout, fst e)) es) s'"
      using iter_rep [of n head s' es] def(2) by simp
    let ?es = "filter (\<lambda>e. cond (snd e)) es"
    have "distinct (map fst ?es)" using H(2) by (simp add: distinct_map_filter)
    then have look: "map_of ?es j = Some z \<longleftrightarrow> (j, z) \<in> set ?es" for j z by simp
    have find: "wp (HASH_FIND_STR dst k) (\<lambda>r _. r = map_option dst_of (map_of ?es k)) s'"
      unfolding zs(2)
    proof (rule wp_mono [OF selected_find [OF zs(3) two _ k]])
      fix r s'' assume r: "s'' = s' \<and> (case r of None \<Rightarrow> \<forall>z \<in> set zs. cond z \<longrightarrow> key_in (handles s) z \<noteq> k
        | Some x \<Rightarrow> \<exists>z \<in> set zs. cond z \<and> x = dst_of z \<and> key_in (handles s) z = k)"
      show "r = map_option dst_of (map_of ?es k)"
      proof (cases r)
        case None
        then have "map_of ?es k = None" using r set H(1) by (fastforce simp: map_of_eq_None_iff)
        with None show ?thesis by simp
      next
        case (Some x)
        then obtain z where z: "z \<in> set zs" "cond z" "x = dst_of z" "key_in (handles s) z = k" using r by auto
        then have "(k, z) \<in> set ?es" using set H(1) by force
        then have "map_of ?es k = Some z" by (simp only: look)
        with Some z(3) show ?thesis by (simp only: option.map)
      qed
    qed (use set in simp)
    show "selection_ok dst_of cond k head es (con_out s) dst s'"
      unfolding selection_ok_def using find source iter selected_entries [OF zs(1) H(1), of cond] by blast
  qed
qed


text \<open>C23: After a session as in C21, with at most 200 additions and fewer than 63 elements at each,
  new keys and elements, and allocations that succeed, \<open>HASH_SELECT\<close> puts the elements that
  satisfy the condition, and no others, into a second table: it finds each under its key and is
  iterated once each, and the first table is as it was. The second handles of the elements are
  distinct from each other and from the first ones.\<close>

theorem selection_copies:
  fixes s :: "('w, 'm) ut_scheme"
  assumes "malloc_succeeds os" "orders_as f C" "\<forall>x. handles s x \<noteq> None" "ops_ok C ops []" "adds ops \<le> 200" "short_key k"
    and "inj_on dst_of (snd ` set (fst (run_list C ops [])))"
    and "dst_of ` snd ` set (fst (run_list C ops [])) \<inter> snd ` set (fst (run_list C ops [])) = {}"
  shows "wp (run_table os f ops None) (\<lambda>(head, rs) s1. wp (HASH_SELECT os dst_of None head cond) (\<lambda>dst s'. 
    let es = fst (run_list C ops []); picks = filter (\<lambda>e. cond (snd e)) es in
     wp (HASH_FIND_STR dst k) (\<lambda>r _. r = map_option dst_of (map_of picks k)) s' \<and>
     (\<exists>ys. mset ys = mset picks \<and>
       wp (HASH_ITER dst print_key) (\<lambda>_ s''. con_out s'' = con_out s @ map (\<lambda>e. (Stdout, fst e)) ys) s') \<and>
     wp (HASH_ITER head print_key) (\<lambda>_ s''. con_out s'' = con_out s @ map (\<lambda>e. (Stdout, fst e)) es) s') s1) s"
proof -
  let ?es = "fst (run_list C ops [])"
  obtain head s' where s': "run_table os f ops None s = Ret ((head, snd (run_list C ops [])), s')" "table_rep (adds ops) head s' ?es" "con_out s' = con_out s"
    using assms(1-5) by (rule session_rep)
  have "wp (HASH_SELECT os dst_of None head cond) (selection_ok dst_of cond k head ?es (con_out s)) s'"
    using rep_select [OF assms(1) s'(2) assms(7,8,6)] s'(3) by simp
  then show ?thesis
    by (simp add: wp_iff [of "run_table os f ops None"] s'(1) selection_ok_def [abs_def] Let_def)
qed

definition second_handle :: "elt \<Rightarrow> elt" where
  "second_handle x = Block (elt_number x + 100)"

definition late_blocks :: "elt \<Rightarrow> bool" where
  "late_blocks x \<longleftrightarrow> elt_number x \<ge> 4"

theorem selection_copies_witness:
  "wp (run_table sim_os by_address sim_hash_ops None) (\<lambda>(head, rs) s1. wp (HASH_SELECT sim_os second_handle None head late_blocks) (\<lambda>dst s'.
     wp (HASH_FIND_STR dst ''quit'') (\<lambda>r _. r = Some (Block 104)) s' \<and>
     (\<exists>ys. mset ys = mset [(''quit'', Block 4), (''help'', Block 5)] \<and>
       wp (HASH_ITER dst print_key) (\<lambda>_ s''. con_out s'' = map (\<lambda>e. (Stdout, fst e)) ys) s') \<and>
     wp (HASH_ITER head print_key) (\<lambda>_ s''. con_out s'' = [(Stdout, ''file''), (Stdout, ''quit''), (Stdout, ''help'')]) s') s1) sim_hash_table"
  using selection_copies [OF sim_malloc by_address, of sim_hash_table sim_hash_ops "''quit''" second_handle late_blocks] sim_hash_ops_ok
  by (simp add: sim_hash_table_def short_key_def second_handle_def late_blocks_def)

text \<open>
  An element that is then added to the second table cuts it: of the selected elements only the
  first is still visited, and the new one, although all of them are counted.
\<close>

lemma selection_then_add:
  fixes s :: "('w, 'm) ut_scheme"
  assumes os: "malloc_succeeds os" and sel: "selected dst_of cond s0 zs s" "map dst_of (filter cond zs) = y # ys" "length ys < 62"
    and x: "x \<notin> set (y # ys)" "handles s x \<noteq> None" "short_key k"
  shows "wp (HASH_ADD_STR os (Some y) k x) (\<lambda>head s'. head = Some y \<and> nseg (next_in (handles s')) [y, x] None) s"
proof -
  obtain h where h: "handles s x = Some h" using x(2) by auto
  have "chosen (length (y # ys)) (first (y # ys) None) (length (tables s0)) s (y # ys)"
    using sel(1) unfolding selected_def sel(2) Let_def by (metis length_map sel(2))
  then have "chosen (Suc (length ys)) (Some y) (length (tables s0)) s (y # ys)" by simp
  then show ?thesis using stale_tail [OF os _ _ sel(3) x(1) h x(3)] sel(3) by simp
qed

end
