(* ===== verification/Hash_Functions.thy ===== *)
theory Hash_Functions
  imports Hash_Table
begin

text \<open>
  The hash functions of \<open>include/uthash.h\<close> that a program may choose instead of \<open>HASH_JEN\<close>, and
  the Bloom filter that it may put before a search. A program that chooses none of them, as this
  one does, gets \<open>HASH_JEN\<close> and no filter.
\<close>

section \<open>The hash functions\<close>

text \<open>A key has at least \<open>keylen\<close> bytes. The loops run over the first \<open>keylen\<close> of them.\<close>

definition HASH_BER :: "string \<Rightarrow> u32 \<Rightarrow> u32" where
  "HASH_BER key keylen = fold (\<lambda>c hashv. push_bit 5 hashv + hashv + of_char c) (take (unat keylen) key) 0"

definition HASH_SAX :: "string \<Rightarrow> u32 \<Rightarrow> u32" where
  "HASH_SAX key keylen = fold (\<lambda>c hashv. hashv XOR (push_bit 5 hashv + drop_bit 2 hashv + of_char c)) (take (unat keylen) key) 0"

definition HASH_FNV :: "string \<Rightarrow> u32 \<Rightarrow> u32" where
  "HASH_FNV key keylen = fold (\<lambda>c hashv. (hashv XOR of_char c) * 16777619) (take (unat keylen) key) 2166136261"

text \<open>The body of the loop, and what is done once behind it.\<close>

definition oat_step :: "char \<Rightarrow> u32 \<Rightarrow> u32" where
  "oat_step c hashv =
     (let hashv = hashv + of_char c;
          hashv = hashv + push_bit 10 hashv
      in hashv XOR drop_bit 6 hashv)"

definition oat_end :: "u32 \<Rightarrow> u32" where
  "oat_end hashv =
     (let hashv = hashv + push_bit 3 hashv;
          hashv = hashv XOR drop_bit 11 hashv
      in hashv + push_bit 15 hashv)"

definition HASH_OAT :: "string \<Rightarrow> u32 \<Rightarrow> u32" where
  "HASH_OAT key keylen = oat_end (fold oat_step (take (unat keylen) key) 0)"

text \<open>On x86-64 the two bytes are read one by one.\<close>

definition get16bits :: "string \<Rightarrow> nat \<Rightarrow> u32" where
  "get16bits key n = key_byte key (n + 1) 8 + key_byte key n 0"

fun sfh_blocks :: "nat \<Rightarrow> string \<Rightarrow> u32 \<Rightarrow> string \<times> u32" where
  "sfh_blocks 0 key hashv = (key, hashv)"
| "sfh_blocks (Suc len) key hashv =
     (let hashv = hashv + get16bits key 0;
          tmp = push_bit 11 (get16bits key 2) XOR hashv;
          hashv = push_bit 16 hashv XOR tmp
      in sfh_blocks len (drop 4 key) (hashv + drop_bit 11 hashv))"

definition sfh_rest :: "nat \<Rightarrow> string \<Rightarrow> u32 \<Rightarrow> u32" where
  "sfh_rest rem key hashv =
     (if rem = 3 then
        let hashv = hashv + get16bits key 0;
            hashv = hashv XOR push_bit 16 hashv;
            hashv = hashv XOR key_byte key 2 18
        in hashv + drop_bit 11 hashv
      else if rem = 2 then
        let hashv = hashv + get16bits key 0;
            hashv = hashv XOR push_bit 11 hashv
        in hashv + drop_bit 17 hashv
      else if rem = 1 then
        let hashv = hashv + key_byte key 0 0;
            hashv = hashv XOR push_bit 10 hashv
        in hashv + drop_bit 1 hashv
      else hashv)"

definition sfh_avalanche :: "u32 \<Rightarrow> u32" where
  "sfh_avalanche hashv =
     (let hashv = hashv XOR push_bit 3 hashv;
          hashv = hashv + drop_bit 5 hashv;
          hashv = hashv XOR push_bit 4 hashv;
          hashv = hashv + drop_bit 17 hashv;
          hashv = hashv XOR push_bit 25 hashv
      in hashv + drop_bit 6 hashv)"

definition HASH_SFH :: "string \<Rightarrow> u32 \<Rightarrow> u32" where
  "HASH_SFH key keylen =
     (case sfh_blocks (unat (drop_bit 2 keylen)) key 0xcafebabe of (key, hashv) \<Rightarrow>
        sfh_avalanche (sfh_rest (unat (keylen AND 3)) key hashv))"


section \<open>The Bloom filter\<close>

text \<open>The filter is an array of bytes; reading or writing behind it is \<open>None\<close>, and so is a
  shift by the width of the word or more.\<close>

definition HASH_BLOOM_BYTELEN :: "nat \<Rightarrow> nat" where
  "HASH_BLOOM_BYTELEN HASH_BLOOM = 2 ^ HASH_BLOOM div 8 + (if 2 ^ HASH_BLOOM mod 8 \<noteq> (0 :: nat) then 1 else 0)"

definition HASH_BLOOM_MAKE :: "nat \<Rightarrow> 8 word list" where
  "HASH_BLOOM_MAKE HASH_BLOOM = replicate (HASH_BLOOM_BYTELEN HASH_BLOOM) 0"

definition HASH_BLOOM_BITSET :: "8 word list \<Rightarrow> u32 \<Rightarrow> 8 word list option" where
  "HASH_BLOOM_BITSET bv idx = (let n = unat (idx div 8) in
     if n < length bv then Some (bv[n := ucast ((ucast (bv ! n) :: u32) OR push_bit (unat (idx mod 8)) 1)]) else None)"

definition HASH_BLOOM_BITTEST :: "8 word list \<Rightarrow> u32 \<Rightarrow> bool option" where
  "HASH_BLOOM_BITTEST bv idx = (let n = unat (idx div 8) in
     if n < length bv then Some ((ucast (bv ! n) :: u32) AND push_bit (unat (idx mod 8)) 1 \<noteq> 0) else None)"

text \<open>\<open>hashv & (uint32_t)((1UL << bloom_nbits) - 1U)\<close>\<close>

definition bloom_index :: "nat \<Rightarrow> u32 \<Rightarrow> u32" where
  "bloom_index nbits hashv = hashv AND ucast (push_bit nbits 1 - 1 :: 64 word)"

definition HASH_BLOOM_ADD :: "nat \<Rightarrow> 8 word list \<Rightarrow> u32 \<Rightarrow> 8 word list option" where
  "HASH_BLOOM_ADD nbits bv hashv = (if nbits < 64 then HASH_BLOOM_BITSET bv (bloom_index nbits hashv) else None)"

definition HASH_BLOOM_TEST :: "nat \<Rightarrow> 8 word list \<Rightarrow> u32 \<Rightarrow> bool option" where
  "HASH_BLOOM_TEST nbits bv hashv = (if nbits < 64 then HASH_BLOOM_BITTEST bv (bloom_index nbits hashv) else None)"

fun bloom_adds :: "nat \<Rightarrow> 8 word list \<Rightarrow> u32 list \<Rightarrow> 8 word list option" where
  "bloom_adds nbits bv [] = Some bv"
| "bloom_adds nbits bv (h # hs) = Option.bind (HASH_BLOOM_ADD nbits bv h) (\<lambda>bv. bloom_adds nbits bv hs)"



section \<open>One byte apart\<close>

text \<open>
  A hash that is computed byte by byte, where each step can be undone, is different for two keys
  that differ in one byte.
\<close>

locale byte_hash =
  fixes step :: "char \<Rightarrow> u32 \<Rightarrow> u32" and finish :: "u32 \<Rightarrow> u32" and start :: u32
  assumes step_state: "step c h = step c h' \<Longrightarrow> h = h'"
    and step_byte: "step c h = step c' h \<Longrightarrow> c = c'"
    and finish_state: "finish h = finish h' \<Longrightarrow> h = h'"
begin

lemma fold_state: "fold step cs h = fold step cs h' \<Longrightarrow> h = h'"
  by (induction cs arbitrary: h h') (auto dest: step_state)

lemma separates:
  assumes "c \<noteq> c'"
  shows "finish (fold step (as @ c # bs) start) \<noteq> finish (fold step (as @ c' # bs) start)"
proof
  assume "finish (fold step (as @ c # bs) start) = finish (fold step (as @ c' # bs) start)"
  then have "fold step bs (step c (fold step as start)) = fold step bs (step c' (fold step as start))"
    by (auto dest: finish_state)
  then have "step c (fold step as start) = step c' (fold step as start)" by (rule fold_state)
  then show False using assms step_byte by blast
qed

end

text \<open>The steps can be undone: odd factors are invertible, and so is the combination with shifted bits.\<close>

lemma odd_factor:
  fixes a b c :: u32
  assumes "a * c = 1" "x * a = y * a"
  shows "x = y"
proof -
  have "x * a * c = y * a * c" using assms(2) by simp
  then show ?thesis using assms(1) by (simp add: mult.assoc)
qed

lemma add_push: "h + push_bit k h = h * (2 ^ k + 1)" "push_bit k h + h = h * (2 ^ k + 1)" for h :: u32
  by (simp_all add: push_bit_eq_mult algebra_simps)

lemma unat_drop: "unat (drop_bit k w) = unat w div 2 ^ k" for w :: u32
proof -
  have "unat (drop_bit k w) = drop_bit k (unat w)"
    using unsigned_less [of w, where 'a = nat] by (simp add: unsigned_drop_bit_eq take_bit_nat_eq_self)
  then show ?thesis by (simp only: drop_bit_eq_div)
qed

lemma xor_drop_cancel:
  fixes x y :: u32
  assumes "0 < k" "x XOR drop_bit k x = y XOR drop_bit k y"
  shows "x = y"
proof -
  let ?d = "x XOR y"
  have "?d = (x XOR drop_bit k x) XOR (drop_bit k x XOR y)" by (simp add: xor.assoc)
  also have "\<dots> = drop_bit k x XOR drop_bit k y" unfolding assms(2) by (simp add: ac_simps)
  finally have "?d = drop_bit k x XOR drop_bit k y" .
  then have "?d = drop_bit k ?d" unfolding drop_bit_xor .
  then have "unat ?d = unat (drop_bit k ?d)" by (rule arg_cong)
  also have "\<dots> = unat ?d div 2 ^ k" by (rule unat_drop)
  finally have d: "unat ?d = unat ?d div 2 ^ k" .
  have "unat ?d = 0"
  proof (rule ccontr)
    assume "unat ?d \<noteq> 0"
    moreover have "1 < (2 :: nat) ^ k" using assms(1) one_less_power [of "2 :: nat" k] by simp
    ultimately have "unat ?d div 2 ^ k < unat ?d" by (intro div_less_dividend) simp_all
    then show False using d by simp
  qed
  then have "?d = 0" by (simp add: unsigned_eq_0_iff)
  then show ?thesis by (metis xor.assoc xor.right_neutral xor_self_eq)
qed

lemma xor_same: "a XOR b = a XOR c \<longleftrightarrow> b = c" "b XOR a = c XOR a \<longleftrightarrow> b = c" for a b c :: u32
  by (metis bit.xor_left_self, metis bit.xor_left_self xor.commute)

lemma of_char_u32: "(of_char c :: u32) = of_char c' \<longleftrightarrow> c = c'"
proof
  have small: "unat (of_nat (of_char c) :: u32) = of_char c" for c :: char
    using less_trans [OF nat_of_char_less_256 [of c], of "2 ^ 32"]
    by (simp add: unat_of_nat take_bit_nat_eq_self del: of_nat_of_char)
  assume "(of_char c :: u32) = of_char c'"
  then have "(of_nat (of_char c) :: u32) = of_nat (of_char c')" by (simp only: of_nat_of_char)
  then have "(of_char c :: nat) = of_char c'" using small by metis
  then show "c = c'" by simp
qed simp

interpretation ber: byte_hash "\<lambda>c hashv. push_bit 5 hashv + hashv + of_char c" "\<lambda>h. h" 0
proof
  show "h = h'" if "push_bit 5 h + h + of_char c = push_bit 5 h' + h' + of_char c" for h h' :: u32 and c
  proof -
    have "h * 33 = h' * 33" using that by (simp add: add_push)
    then show ?thesis by (rule_tac odd_factor [of 33 1041204193]) simp_all
  qed
qed (simp_all add: of_char_u32)

interpretation fnv: byte_hash "\<lambda>c hashv. (hashv XOR of_char c) * 16777619" "\<lambda>h. h" 2166136261
proof
  have cancel: "x = y" if "x * 16777619 = y * 16777619" for x y :: u32
    using that by (rule_tac odd_factor [of _ 899433627]) simp_all
  show "h = h'" if "(h XOR of_char c) * 16777619 = (h' XOR of_char c) * 16777619" for h h' :: u32 and c
    using cancel [OF that] by (simp only: xor_same)
  show "c = c'" if "(h XOR of_char c) * 16777619 = (h XOR of_char c') * 16777619" for h :: u32 and c c'
    using cancel [OF that] by (simp only: xor_same of_char_u32)
qed simp

interpretation oat: byte_hash oat_step oat_end 0
proof
  have step: "h + of_char c = h' + of_char c'" if "oat_step c h = oat_step c' h'" for h h' :: u32 and c c'
  proof -
    have "(h + of_char c) * 1025 = (h' + of_char c') * (1025 :: u32)"
      using that xor_drop_cancel [of 6 "(h + of_char c) * 1025" "(h' + of_char c') * 1025"] by (simp add: oat_step_def Let_def add_push)
    then show ?thesis by (rule_tac odd_factor [of 1025 3222273025]) simp_all
  qed
  show "h = h'" if "oat_step c h = oat_step c h'" for h h' :: u32 and c using step [OF that] by simp
  show "c = c'" if "oat_step c h = oat_step c' h" for h :: u32 and c c' using step [OF that] of_char_u32 by simp
  show "h = h'" if "oat_end h = oat_end h'" for h h'
  proof -
    have "((h * 9) XOR drop_bit 11 (h * 9)) * 32769 = ((h' * 9) XOR drop_bit 11 (h' * 9)) * (32769 :: u32)"
      using that by (simp add: oat_end_def Let_def add_push)
    then have "(h * 9) XOR drop_bit 11 (h * 9) = (h' * 9) XOR drop_bit 11 (h' * 9)"
      by (rule_tac odd_factor [of 32769 1073709057]) simp_all
    then have "h * 9 = h' * 9" by (rule_tac xor_drop_cancel [of 11]) simp_all
    then show ?thesis by (rule_tac odd_factor [of 9 954437177]) simp_all
  qed
qed



section \<open>The mixing of three words\<close>

text \<open>Each line of \<open>HASH_JEN_MIX\<close> changes one word by the other two.\<close>

lemma mix_line: "(a - b - c) XOR d = (a' - b - c) XOR d \<longleftrightarrow> a = a'" for a a' b c d :: u32
  by (simp add: xor_same)

lemma mix_inj: "HASH_JEN_MIX (a, b, c) = HASH_JEN_MIX (a', b', c') \<Longrightarrow> a = a' \<and> b = b' \<and> c = c'"
  unfolding HASH_JEN_MIX_def Let_def split prod.inject
  by (elim conjE) (hypsubst | simp only: mix_line)+


section \<open>The reach of the reads\<close>

lemma key_byte_append: "n < length key \<Longrightarrow> key_byte (key @ behind) n k = key_byte key n k"
  by (simp add: key_byte_def nth_append)

lemma get16bits_append: "n + 1 < length key \<Longrightarrow> get16bits (key @ behind) n = get16bits key n"
  by (simp add: get16bits_def key_byte_append)

lemma jen_blocks_reach:
  "k \<le> length key \<Longrightarrow> jen_blocks (key @ behind) k m =
     (case jen_blocks key k m of (key', k', m') \<Rightarrow> (key' @ behind, k', m')) \<and> fst (snd (jen_blocks key k m)) \<le> length (fst (jen_blocks key k m))"
proof (induction key k m rule: jen_blocks.induct)
  case (1 key k i j h)
  show ?case
  proof (cases "12 \<le> k")
    case True
    then have "key_word (key @ behind) n = key_word key n" if "n \<le> 8" for n
      using 1(2) that by (simp add: key_word_def key_byte_append)
    with 1 True show ?thesis by (simp add: split_beta)
  qed (use 1 in simp)
qed

lemma left_byte_reach: "k \<le> length key \<Longrightarrow> 0 < n \<Longrightarrow> left_byte (key @ behind) k n j = left_byte key k n j"
  by (simp add: left_byte_def key_byte_append)

lemma jen_reach: "unat keylen \<le> length key \<Longrightarrow> HASH_JEN (key @ behind) keylen = HASH_JEN key keylen"
proof -
  assume "unat keylen \<le> length key"
  note b = jen_blocks_reach [OF this, of behind "(0x9e3779b9, 0x9e3779b9, 0xfeedbeef)"]
  obtain key' k i j h where e: "jen_blocks key (unat keylen) (0x9e3779b9, 0x9e3779b9, 0xfeedbeef) = (key', k, i, j, h)"
    by (metis prod_cases5)
  with b have "jen_blocks (key @ behind) (unat keylen) (0x9e3779b9, 0x9e3779b9, 0xfeedbeef) = (key' @ behind, k, i, j, h)" "k \<le> length key'"
    by simp_all
  then show ?thesis by (simp add: HASH_JEN_def e left_byte_reach del: jen_blocks.simps)
qed

lemma sfh_blocks_reach:
  "4 * n \<le> length key \<Longrightarrow> sfh_blocks n (key @ behind) h = (drop (4 * n) key @ behind, snd (sfh_blocks n key h)) \<and>
     fst (sfh_blocks n key h) = drop (4 * n) key"
  by (induction n arbitrary: key h) (simp_all add: get16bits_append Let_def add.commute)

lemma sfh_reach: "unat keylen \<le> length key \<Longrightarrow> HASH_SFH (key @ behind) keylen = HASH_SFH key keylen"
proof -
  assume len: "unat keylen \<le> length key"
  let ?n = "unat (drop_bit 2 keylen)" and ?r = "unat (keylen AND 3)"
  have "keylen AND 3 = take_bit 2 keylen" by (simp add: take_bit_eq_mask mask_numeral)
  then have n: "?n = unat keylen div 4" "?r = unat keylen mod 4"
    by (simp_all add: drop_bit_eq_div take_bit_eq_mod unat_div unat_mod)
  then have "4 * ?n + ?r = unat keylen" by simp
  then have "4 * ?n \<le> length key" "?r \<le> length (drop (4 * ?n) key)" using len by simp_all
  moreover have "sfh_rest r (k @ behind) h = sfh_rest r k h" if "r \<le> length k" for r k h
    using that key_byte_append [of 0 k behind] get16bits_append [of 0 k behind] key_byte_append [of 2 k behind]
    unfolding sfh_rest_def by (cases "k = []") auto
  moreover have "sfh_blocks ?n key h = (drop (4 * ?n) key, snd (sfh_blocks ?n key h))" if "4 * ?n \<le> length key" for h
    using sfh_blocks_reach [OF that, of behind h] by (metis prod.collapse)
  ultimately show ?thesis
    using sfh_blocks_reach [of ?n key behind] unfolding HASH_SFH_def by (simp add: split_beta)
qed


section \<open>What the filter knows\<close>

definition filter_knows :: "nat \<Rightarrow> 8 word list \<Rightarrow> u32 set \<Rightarrow> bool" where
  "filter_knows n bv G \<longleftrightarrow> length bv = HASH_BLOOM_BYTELEN n \<and>
     (\<forall>i < 2 ^ n. bit (bv ! (i div 8)) (i mod 8) \<longleftrightarrow> (\<exists>g \<in> G. unat (take_bit n g) = i))"

lemma byte_in_filter: "i < 2 ^ n \<Longrightarrow> i div 8 < HASH_BLOOM_BYTELEN n"
proof -
  assume i: "i < 2 ^ n"
  have "(2 :: nat) ^ n = 2 ^ n div 8 * 8 + 2 ^ n mod 8" by simp
  then show ?thesis using i by (auto simp: HASH_BLOOM_BYTELEN_def div_less_iff_less_mult intro: le_less_trans [OF div_le_mono [of i "2 ^ n" 8]])
qed

lemma bloom_index: "bloom_index n h = take_bit n h"
proof -
  have "(ucast (mask n :: 64 word) :: u32) = mask n" by (rule bit_word_eqI) (simp add: bit_unsigned_iff bit_mask_iff)
  then show ?thesis by (simp add: bloom_index_def take_bit_eq_mask mask_eq_exp_minus_1)
qed

lemma filter_empty: "filter_knows n (HASH_BLOOM_MAKE n) {}"
  using byte_in_filter by (simp add: filter_knows_def HASH_BLOOM_MAKE_def)

lemma unat_take: "unat (take_bit n h) < 2 ^ n" for h :: u32
  by (simp add: unsigned_take_bit_eq)

lemma idx_parts: "unat (idx div 8) = unat idx div 8" "unat (idx mod 8) = unat idx mod 8" for idx :: u32
  by (simp_all add: unat_div unat_mod)

lemma filter_test:
  assumes "filter_knows n bv G" "n < 64"
  shows "HASH_BLOOM_TEST n bv h = Some (\<exists>g \<in> G. take_bit n g = take_bit n h)"
proof -
  let ?i = "unat (take_bit n h)"
  have "?i div 8 < length bv" using assms(1) byte_in_filter [OF unat_take] by (simp add: filter_knows_def)
  moreover have "bit (bv ! (?i div 8)) (?i mod 8) \<longleftrightarrow> (\<exists>g \<in> G. take_bit n g = take_bit n h)"
    using assms(1) unat_take [of n h] by (simp add: filter_knows_def word_eq_iff_unsigned [where 'a = nat])
  moreover have "(ucast b :: u32) AND push_bit k 1 \<noteq> 0 \<longleftrightarrow> bit b k" if "k < 8" for b :: "8 word" and k
    using that bit_iff_and_push_bit_not_eq_0 [of "ucast b :: u32" k] by (simp add: bit_unsigned_iff)
  ultimately show ?thesis using assms(2) by (simp add: HASH_BLOOM_TEST_def HASH_BLOOM_BITTEST_def Let_def bloom_index idx_parts)
qed

lemma filter_add:
  assumes "filter_knows n bv G" "n < 64"
  obtains bv' where "HASH_BLOOM_ADD n bv h = Some bv'" "filter_knows n bv' (insert h G)"
proof -
  let ?i = "unat (take_bit n h)"
  let ?bv = "bv[?i div 8 := ucast ((ucast (bv ! (?i div 8)) :: u32) OR push_bit (?i mod 8) 1)]"
  have len: "length bv = HASH_BLOOM_BYTELEN n" using assms(1) by (simp add: filter_knows_def)
  have i: "?i div 8 < length bv" unfolding len by (rule byte_in_filter [OF unat_take])
  have set: "bit (ucast ((ucast b :: u32) OR push_bit k 1) :: 8 word) j \<longleftrightarrow> bit b j \<or> j = k" if "k < 8" "j < 8" for b :: "8 word" and k j
    using that by (auto simp: bit_simps)
  have "bit (?bv ! (j div 8)) (j mod 8) \<longleftrightarrow> bit (bv ! (j div 8)) (j mod 8) \<or> j = ?i" for j
  proof (cases "j div 8 = ?i div 8")
    case True
    then have "j mod 8 = ?i mod 8 \<longleftrightarrow> j = ?i" by (metis div_mult_mod_eq)
    with True i set show ?thesis by simp
  next
    case False
    then show ?thesis by auto
  qed
  then have "filter_knows n ?bv (insert h G)" using assms(1) by (auto simp: filter_knows_def)
  moreover have "HASH_BLOOM_ADD n bv h = Some ?bv"
    using i assms(2) by (simp add: HASH_BLOOM_ADD_def HASH_BLOOM_BITSET_def Let_def bloom_index idx_parts)
  ultimately show ?thesis by (rule that [rotated])
qed

lemma bloom_adds_know:
  assumes "filter_knows n bv G" "n < 64"
  shows "\<exists>bv'. bloom_adds n bv hs = Some bv' \<and> filter_knows n bv' (G \<union> set hs)"
  using assms(1)
proof (induction hs arbitrary: bv G)
  case (Cons h hs)
  obtain bv' where "HASH_BLOOM_ADD n bv h = Some bv'" "filter_knows n bv' (insert h G)"
    using Cons.prems assms(2) by (rule filter_add)
  with Cons.IH [of bv' "insert h G"] show ?case by simp
qed simp



section \<open>Properties\<close>

lemma whole_key: "length key < 2 ^ 32 \<Longrightarrow> take (unat (of_nat (length key) :: u32)) key = key"
  by (simp add: unat_of_nat take_bit_nat_eq_self)

text \<open>C25: Two keys of the same length that differ in one byte get different hashes from \<open>HASH_BER\<close>,
  \<open>HASH_FNV\<close> and \<open>HASH_OAT\<close>, wherever the byte is.\<close>

theorem one_byte_apart:
  assumes "length (as @ c # bs) < 2 ^ 32" "c \<noteq> c'"
  shows "let n = of_nat (length (as @ c # bs)); key = as @ c # bs; key' = as @ c' # bs in
    HASH_BER key n \<noteq> HASH_BER key' n \<and> HASH_FNV key n \<noteq> HASH_FNV key' n \<and> HASH_OAT key n \<noteq> HASH_OAT key' n"
proof -
  let ?n = "of_nat (length (as @ c # bs)) :: u32"
  have "take (unat ?n) (as @ c # bs) = as @ c # bs" "take (unat ?n) (as @ c' # bs) = as @ c' # bs"
    using whole_key [OF assms(1)] whole_key [of "as @ c' # bs"] assms(1) by simp_all
  then show ?thesis
    unfolding Let_def HASH_BER_def HASH_FNV_def HASH_OAT_def
    using ber.separates [OF assms(2)] fnv.separates [OF assms(2)] oat.separates [OF assms(2)] by (simp only:) blast
qed

theorem one_byte_apart_witness:
  "HASH_BER ''quit'' 4 \<noteq> HASH_BER ''quid'' 4 \<and> HASH_FNV ''quit'' 4 \<noteq> HASH_FNV ''quid'' 4 \<and> HASH_OAT ''quit'' 4 \<noteq> HASH_OAT ''quid'' 4"
  using one_byte_apart [of "''qui''" "CHR ''t''" "[]" "CHR ''d''"] by (simp add: Let_def)

text \<open>No hash function reads a byte behind the key.\<close>

lemma hash_reads_key_only:
  assumes "unat keylen \<le> length key"
  shows "HASH_JEN (key @ behind) keylen = HASH_JEN key keylen" "HASH_SFH (key @ behind) keylen = HASH_SFH key keylen"
    "HASH_BER (key @ behind) keylen = HASH_BER key keylen" "HASH_SAX (key @ behind) keylen = HASH_SAX key keylen"
    "HASH_FNV (key @ behind) keylen = HASH_FNV key keylen" "HASH_OAT (key @ behind) keylen = HASH_OAT key keylen"
  using jen_reach [OF assms] sfh_reach [OF assms] assms
  by (simp_all add: HASH_BER_def HASH_SAX_def HASH_FNV_def HASH_OAT_def)

text \<open>C24: A Bloom filter never reads or writes behind its array, and its
  test is true for exactly the hashes that agree with an added one on these bits: it never hides
  an element that is in the table.\<close>

theorem bloom_filter_exact:
  assumes "nbits < 64"
  shows "\<exists>bv. bloom_adds nbits (HASH_BLOOM_MAKE nbits) hs = Some bv \<and>
    (\<forall>h. HASH_BLOOM_TEST nbits bv h = Some (\<exists>g \<in> set hs. take_bit nbits g = take_bit nbits h))"
proof -
  obtain bv where "bloom_adds nbits (HASH_BLOOM_MAKE nbits) hs = Some bv" "filter_knows nbits bv ({} \<union> set hs)"
    using bloom_adds_know [OF filter_empty assms] by blast
  then show ?thesis using filter_test assms by fastforce
qed

theorem bloom_filter_exact_witness:
  "\<exists>bv. bloom_adds 4 (HASH_BLOOM_MAKE 4) [5, 38] = Some bv \<and> HASH_BLOOM_TEST 4 bv 21 = Some True \<and> HASH_BLOOM_TEST 4 bv 7 = Some False"
  using bloom_filter_exact [of 4 "[5, 38]"] by (auto simp: take_bit_eq_mod)

end
