(* ===== verification/Registry_Tables.thy ===== *)
theory Registry_Tables
  imports Hash_Table_Service
begin

text \<open>
  \<open>src/command_registry.c\<close> again, on the hash tables of \<open>uthash.h\<close>: the two heads, the
  elements of the static arrays, and the aliases on the heap. \<open>Registry\<close> has the same
  functions on lists; here they are shown to give the same answers and the same output.
\<close>

section \<open>The state\<close>

text \<open>
  The fields of a block other than its handle are in \<open>blocks\<close>, from when they have been set
  until the block is freed. The fields of the static elements never change.
\<close>

record 'w reg = "'w ut" +
  command_head :: "elt option"
  alias_head :: "elt option"
  blocks :: "nat \<Rightarrow> sylvan_alias option"
  next_block :: nat

type_synonym ('w, 'm, 'a) rprog = "(('w, 'm) reg_scheme, 'a) prog"

definition static_at :: "'a list \<Rightarrow> nat \<Rightarrow> 'a option" where
  "static_at xs i = (if i < length xs then Some (xs ! i) else None)"

definition command_of :: "elt \<Rightarrow> sylvan_command option" where
  "command_of x = (case x of Static_command i \<Rightarrow> static_at static_commands i | _ \<Rightarrow> None)"

definition alias_of :: "('w, 'm) reg_scheme \<Rightarrow> elt \<Rightarrow> sylvan_alias option" where
  "alias_of s x = (case x of Static_alias i \<Rightarrow> static_at static_aliases i | Block b \<Rightarrow> blocks s b | Static_command _ \<Rightarrow> None)"

definition read_command :: "elt option \<Rightarrow> ('w, 'm, sylvan_command option) rprog" where
  "read_command p = (case p of None \<Rightarrow> ret None | Some x \<Rightarrow> not_null (command_of x) (\<lambda>c. ret (Some c)))"

definition read_alias :: "elt \<Rightarrow> ('w, 'm, sylvan_alias) rprog" where
  "read_alias x = bnd (gets (\<lambda>s. alias_of s x)) (\<lambda>a. not_null a ret)"


section \<open>The functions\<close>

definition static_entries :: "('a \<Rightarrow> string) \<Rightarrow> (nat \<Rightarrow> elt) \<Rightarrow> 'a list \<Rightarrow> (string \<times> elt) list" where
  "static_entries name place xs = map (\<lambda>i. (name (xs ! i), place i)) [0..<length xs]"

definition ut_init_commands :: "'w os \<Rightarrow> ('w, 'm, int) rprog" where
  "ut_init_commands os =
     bnd (modify (\<lambda>s. s\<lparr>command_head := None, alias_head := None\<rparr>)) (\<lambda>_.
     bnd (add_entries (HASH_ADD_STR os) (static_entries cmd_name Static_command static_commands) None) (\<lambda>head.
     bnd (modify (\<lambda>s. s\<lparr>command_head := head\<rparr>)) (\<lambda>_.
     bnd (add_entries (HASH_ADD_STR os) (static_entries al_name Static_alias static_aliases) None) (\<lambda>head.
     bnd (modify (\<lambda>s. s\<lparr>alias_head := head\<rparr>)) (\<lambda>_. ret 0)))))"

definition ut_lookup_command :: "string option \<Rightarrow> ('w, 'm, elt option) rprog" where
  "ut_lookup_command command_name =
     (case command_name of
        None \<Rightarrow> ret None
      | Some name \<Rightarrow>
          bnd (gets alias_head) (\<lambda>head. bnd (HASH_FIND_STR head name) (\<lambda>alias.
          bnd (case alias of None \<Rightarrow> ret name | Some x \<Rightarrow> bnd (read_alias x) (\<lambda>a. ret (al_org_cmd a))) (\<lambda>name.
          bnd (gets command_head) (\<lambda>head. HASH_FIND_STR head name)))))"

text \<open>A new block; \<open>junk\<close> is what its handle holds.\<close>

definition new_block :: "ut_handle \<Rightarrow> ('w, 'm, nat) rprog" where
  "new_block junk = (\<lambda>s. Ret (next_block s, s\<lparr>handles := (handles s)(Block (next_block s) \<mapsto> junk), next_block := next_block s + 1\<rparr>))"

definition ut_insert_alias ::
  "'w os \<Rightarrow> ut_handle \<Rightarrow> string option \<Rightarrow> string option \<Rightarrow> int \<Rightarrow> char \<Rightarrow> ('w, 'm, int) rprog" where
  "ut_insert_alias os junk name org_cmd i ty =
     (case (name, org_cmd) of
        (Some name, Some org) \<Rightarrow>
          bnd (gets alias_head) (\<lambda>head. bnd (HASH_FIND_STR head name) (\<lambda>existing.
            if existing \<noteq> None
            then bnd (fprintf Stderr (''Error: Alias '' @ [CHR 0x27] @ ''%s'' @ [CHR 0x27] @ '' already exists'' @ newline) [FStr name])
              (\<lambda>_. ret 1)
            else bnd (ut_lookup_command (Some org)) (\<lambda>orig_cmd.
              if orig_cmd = None
              then bnd (fprintf Stderr (''Invalid command: %s not found'' @ newline) [FStr org]) (\<lambda>_. ret 1)
              else bnd (sys (os_malloc os ALIAS_SIZE)) (\<lambda>r.
                case r of
                  Inl _ \<Rightarrow> bnd (put Stderr (''Error: Failed to allocate memory for alias'' @ newline)) (\<lambda>_. ret 1)
                | Inr _ \<Rightarrow> bnd (new_block junk) (\<lambda>b.
                    bnd (sys (os_malloc os (length name + 1))) (\<lambda>r1.
                    bnd (sys (os_malloc os (length org + 1))) (\<lambda>r2.
                      case (r1, r2) of
                        (Inr _, Inr _) \<Rightarrow>
                          bnd (modify (\<lambda>s. s\<lparr>blocks := (blocks s)(b \<mapsto>
                            \<lparr>al_name = name, al_org_cmd = org, al_id = i, al_type = ty\<rparr>)\<rparr>)) (\<lambda>_.
                          bnd (gets alias_head) (\<lambda>head.
                          bnd (HASH_ADD_STR os head name (Block b)) (\<lambda>head.
                          bnd (modify (\<lambda>s. s\<lparr>alias_head := head\<rparr>)) (\<lambda>_.
                          bnd (printf (''Added alias: %s -> %s (type: %c, id: %d)'' @ newline)
                            [FStr name, FStr org, FChar ty, FInt i]) (\<lambda>_. ret 0)))))
                      | _ \<Rightarrow> bnd (put Stderr (''Error: Failed to allocate memory for alias strings'' @ newline))
                          (\<lambda>_. ret 1))))))))
      | _ \<Rightarrow> ret 1)"

text \<open>Only a block of the heap can be freed, and only once.\<close>

definition free_block :: "elt \<Rightarrow> ('w, 'm, unit) rprog" where
  "free_block x = (case x of
       Block b \<Rightarrow> bnd (gets (\<lambda>s. blocks s b)) (\<lambda>a. not_null a (\<lambda>_.
         modify (\<lambda>s. s\<lparr>handles := (handles s)(Block b := None), blocks := (blocks s)(b := None)\<rparr>)))
     | _ \<Rightarrow> undefined_behaviour)"

definition free_user_alias :: "elt \<Rightarrow> ('w, 'm, unit) rprog" where
  "free_user_alias current = bnd (read_alias current) (\<lambda>a.
     if al_type a = CHR ''u''
     then bnd (gets alias_head) (\<lambda>head. bnd (HASH_DELETE head current) (\<lambda>head.
       bnd (modify (\<lambda>s. s\<lparr>alias_head := head\<rparr>)) (\<lambda>_. free_block current)))
     else ret ())"

definition ut_free_alias_table :: "('w, 'm, unit) rprog" where
  "ut_free_alias_table = bnd (gets alias_head) (\<lambda>head. bnd (HASH_ITER head free_user_alias) (\<lambda>_.
     modify (\<lambda>s. s\<lparr>alias_head := None\<rparr>)))"


section \<open>What the tables stand for\<close>

abbreviation commands :: "elt set" where "commands \<equiv> range Static_command"
abbreviation aliases :: "elt set" where "aliases \<equiv> - range Static_command"

definition command_entries_ok :: "(string \<times> elt) list \<Rightarrow> bool" where
  "command_entries_ok cs \<longleftrightarrow> distinct (map fst cs) \<and> (\<forall>(k, x) \<in> set cs. \<exists>c. command_of x = Some c \<and> cmd_name c = k)"

definition alias_entries_ok :: "('w, 'm) reg_scheme \<Rightarrow> (string \<times> elt) list \<Rightarrow> bool" where
  "alias_entries_ok s as \<longleftrightarrow> distinct (map fst as) \<and>
     (\<forall>(k, x) \<in> set as. \<exists>a. alias_of s x = Some a \<and> al_name a = k \<and> short_key (al_org_cmd a) \<and> (\<forall>b. x = Block b \<longrightarrow> b < next_block s))"

definition reg_holds ::
  "'w os \<Rightarrow> nat \<Rightarrow> nat \<Rightarrow> (string \<times> elt) list \<Rightarrow> (string \<times> elt) list \<Rightarrow> ('w, 'm) reg_scheme \<Rightarrow> bool" where
  "reg_holds os tc ta cs as s \<longleftrightarrow> cs \<noteq> [] \<and> tc \<noteq> ta \<and>
     entries_held os tc commands (command_head s) s cs \<and> entries_held os ta aliases (alias_head s) s as \<and>
     command_entries_ok cs \<and> alias_entries_ok s as"

definition command_list :: "(string \<times> elt) list \<Rightarrow> sylvan_command list" where
  "command_list cs = map (the \<circ> command_of \<circ> snd) cs"

definition alias_list :: "('w, 'm) reg_scheme \<Rightarrow> (string \<times> elt) list \<Rightarrow> sylvan_alias list" where
  "alias_list s as = map (the \<circ> alias_of s \<circ> snd) as"

definition reg_rep :: "'w os \<Rightarrow> ('w, 'm) reg_scheme \<Rightarrow> ('w, 'n) ui_scheme \<Rightarrow> bool" where
  "reg_rep os s u \<longleftrightarrow> con_out s = con_out u \<and>
     (\<exists>tc ta cs as. reg_holds os tc ta cs as s \<and> command_hash u = command_list cs \<and> alias_table u = alias_list s as)"

lemma find_entries:
  assumes "\<forall>(k, x) \<in> set es. key (f x) = k"
  shows "hash_find key (map (f \<circ> snd) es) k = map_option f (map_of es k)"
  using assms by (induction es) (auto simp: hash_find_def)

lemma find_command: "command_entries_ok cs \<Longrightarrow> hash_find cmd_name (command_list cs) k = map_option (the \<circ> command_of) (map_of cs k)"
  unfolding command_list_def by (rule find_entries) (auto simp: command_entries_ok_def)

lemma find_alias: "alias_entries_ok s as \<Longrightarrow> hash_find al_name (alias_list s as) k = map_option (the \<circ> alias_of s) (map_of as k)"
  unfolding alias_list_def by (rule find_entries) (auto simp: alias_entries_ok_def)

lemma entries_held_cong:
  assumes "entries_held os t S head s es" "\<forall>x \<in> snd ` set es. handles s' x = handles s x"
    and "es \<noteq> [] \<Longrightarrow> table_at (tables s') t = table_at (tables s) t" "length (tables s') = length (tables s)"
  shows "entries_held os t S head s' es"
proof -
  have "hash_ok (length es) head t s' (map snd es)"
    by (rule hash_ok_cong [of _ _ _ s]) (use assms in \<open>auto simp: entries_held_def\<close>)
  then show ?thesis using assms by (fastforce simp: entries_held_def key_in_def)
qed

lemma entries_held_frame:
  assumes "entries_held os t S head s es" "ut_frame S' t' s s'" "S \<inter> S' = {}" "es \<noteq> []" "t \<noteq> t'"
  shows "entries_held os t S head s' es"
proof -
  have same: "handles s' x = handles s x" if "x \<in> snd ` set es" for x
  proof -
    have "x \<in> S" using assms(1) that by (auto simp: entries_held_def)
    then show ?thesis using assms(2,3) by (auto simp: ut_frame_def agree_def)
  qed
  have "hash_ok (length es) head t s' (map snd es)"
    by (rule hash_ok_cong [of _ _ _ s]) (use assms same in \<open>auto simp: entries_held_def ut_frame_def\<close>)
  then show ?thesis using assms same by (fastforce simp: entries_held_def key_in_def)
qed

lemma reg_frame:
  fixes s s' :: "('w, 'm) reg_scheme"
  assumes "ut_frame S t s s'"
  shows "con_out s' = con_out s" "command_head s' = command_head s" "alias_head s' = alias_head s"
    "blocks s' = blocks s" "next_block s' = next_block s"
proof -
  have s: "s'\<lparr>world := world s, handles := handles s, tables := tables s\<rparr> = s" using assms by (simp add: ut_frame_def)
  show "con_out s' = con_out s" "command_head s' = command_head s" "alias_head s' = alias_head s"
    "blocks s' = blocks s" "next_block s' = next_block s"
    using arg_cong [OF s, of con_out] arg_cong [OF s, of command_head] arg_cong [OF s, of alias_head]
      arg_cong [OF s, of blocks] arg_cong [OF s, of next_block] by simp_all
qed


section \<open>Lookups\<close>

lemma reg_holdsD:
  assumes "reg_holds os tc ta cs as s"
  shows "entries_held os tc commands (command_head s) s cs" "entries_held os ta aliases (alias_head s) s as"
    "command_entries_ok cs" "alias_entries_ok s as" "distinct (map fst cs)" "distinct (map fst as)" "cs \<noteq> []" "tc \<noteq> ta"
  using assms by (simp_all add: reg_holds_def command_entries_ok_def alias_entries_ok_def)

lemma alias_entry:
  assumes "alias_entries_ok s as" "map_of as k = Some x"
  obtains a where "alias_of s x = Some a" "al_name a = k" "short_key (al_org_cmd a)"
proof -
  have "case (k, x) of (k, x) \<Rightarrow> \<exists>a. alias_of s x = Some a \<and> al_name a = k \<and> short_key (al_org_cmd a) \<and> (\<forall>b. x = Block b \<longrightarrow> b < next_block s)"
    using assms(1) map_of_SomeD [OF assms(2)] unfolding alias_entries_ok_def by (elim conjE bspec)
  with that show ?thesis by blast
qed

definition entry_of :: "('w, 'm) reg_scheme \<Rightarrow> (string \<times> elt) list \<Rightarrow> (string \<times> elt) list \<Rightarrow> string \<Rightarrow> elt option" where
  "entry_of s cs as k = map_of cs (case map_of as k of Some x \<Rightarrow> al_org_cmd (the (alias_of s x)) | None \<Rightarrow> k)"

lemma ut_lookup_spec:
  assumes "reg_holds os tc ta cs as s" "short_key k"
  shows "wp (ut_lookup_command (Some k)) (\<lambda>r s'. s' = s \<and> r = entry_of s cs as k) s"
proof -
  note H = reg_holdsD [OF assms(1)]
  have cmd: "wp (HASH_FIND_STR (command_head s) j) (\<lambda>r s'. s' = s \<and> r = map_of cs j) s" if "short_key j" for j
    using H(1) that H(5) by (rule ht.find_map_of)
  have "wp (HASH_FIND_STR (alias_head s) k) (\<lambda>r s'. s' = s \<and> r = map_of as k) s"
    using H(2) assms(2) H(6) by (rule ht.find_map_of)
  then have "wp (HASH_FIND_STR (alias_head s) k) (\<lambda>alias s'. wp (case alias of None \<Rightarrow> ret k | Some x \<Rightarrow> bnd (read_alias x) (\<lambda>a. ret (al_org_cmd a)))
      (\<lambda>j s''. wp (HASH_FIND_STR (command_head s'') j) (\<lambda>r s'. s' = s \<and> r = entry_of s cs as k) s'') s') s"
  proof (rule wp_mono, elim conjE)
    fix al s' assume s': "s' = s" "al = map_of as k"
    show "wp (case al of None \<Rightarrow> ret k | Some x \<Rightarrow> bnd (read_alias x) (\<lambda>a. ret (al_org_cmd a)))
      (\<lambda>j s''. wp (HASH_FIND_STR (command_head s'') j) (\<lambda>r s'. s' = s \<and> r = entry_of s cs as k) s'') s'"
    proof (cases al)
      case None
      then show ?thesis using cmd [OF assms(2)] s' by (simp add: wp_ret entry_of_def)
    next
      case (Some x)
      then have m: "map_of as k = Some x" using s'(2) by simp
      with H(4) obtain a where "alias_of s x = Some a" "short_key (al_org_cmd a)" by (rule alias_entry)
      then show ?thesis using cmd [of "al_org_cmd a"] unfolding s'(1) Some by (simp add: wp_simps read_alias_def not_null_def entry_of_def m)
    qed
  qed
  then show ?thesis by (simp add: ut_lookup_command_def wp_bnd wp_gets)
qed

text \<open>The element found is the command that the lists give.\<close>

lemma entry_resolves:
  assumes "reg_holds os tc ta cs as s"
  shows "map_option (the \<circ> command_of) (entry_of s cs as k) = resolve_name (command_list cs) (alias_list s as) k"
  using reg_holdsD(3,4) [OF assms] by (auto simp: resolve_name_def entry_of_def find_command find_alias split: option.splits)

lemma entry_read:
  assumes "reg_holds os tc ta cs as s"
  shows "wp (read_command (entry_of s cs as k)) Q s = Q (resolve_name (command_list cs) (alias_list s as) k) s"
proof (cases "entry_of s cs as k")
  case None
  then show ?thesis using entry_resolves [OF assms, of k] by (simp add: read_command_def wp_simps)
next
  case (Some x)
  then have "\<exists>j. (j, x) \<in> set cs" by (auto simp: entry_of_def dest: map_of_SomeD)
  then obtain c where "command_of x = Some c" using reg_holdsD(3) [OF assms] by (auto simp: command_entries_ok_def)
  then show ?thesis using entry_resolves [OF assms, of k] Some by (simp add: read_command_def wp_simps not_null_def flip: entry_resolves [OF assms])
qed


section \<open>A new alias\<close>

text \<open>The answer, the line that is printed, and the aliases afterwards.\<close>

definition insert_result ::
  "sylvan_command list \<Rightarrow> sylvan_alias list \<Rightarrow> string \<Rightarrow> string \<Rightarrow> int \<Rightarrow> char \<Rightarrow> int \<times> (stream \<times> string) \<times> sylvan_alias list" where
  "insert_result cmds als n org i ty =
     (if hash_find al_name als n \<noteq> None
      then (1, (Stderr, the (cformat (''Error: Alias '' @ [CHR 0x27] @ ''%s'' @ [CHR 0x27] @ '' already exists'' @ newline) [FStr n])), als)
      else if resolve_name cmds als org = None
      then (1, (Stderr, the (cformat (''Invalid command: %s not found'' @ newline) [FStr org])), als)
      else (0, (Stdout, the (cformat (''Added alias: %s -> %s (type: %c, id: %d)'' @ newline) [FStr n, FStr org, FChar ty, FInt i])),
        als @ [\<lparr>al_name = n, al_org_cmd = org, al_id = i, al_type = ty\<rparr>]))"

lemma malloc_not_failed: "malloc_succeeds os \<Longrightarrow> os_malloc os k w \<noteq> (Inl e, w')"
  by (metis malloc_succeedsE old.sum.distinct(1) prod.inject sum.distinct(1))

lemma insert_alias_result:
  assumes "malloc_succeeds os"
  shows "wp (insert_alias os (Some n) (Some org) i ty) (\<lambda>r u'. command_hash u' = command_hash u \<and>
    (case insert_result (command_hash u) (alias_table u) n org i ty of (r', m, als) \<Rightarrow>
       r = r' \<and> con_out u' = con_out u @ [m] \<and> alias_table u' = als)) u"
proof -
  note texts = alias_texts(1) [of n] alias_texts(2) [of org] alias_texts(3) [of n org ty i]
  show ?thesis
    using assms texts
    by (auto simp: insert_alias_def wp_simps insert_result_def hash_add_def dest: malloc_not_failed
        split: prod.splits sum.splits option.splits)
qed

lemma alias_of_blocks: "blocks s' = blocks s \<Longrightarrow> alias_of s' x = alias_of s x"
  by (simp add: alias_of_def split: elt.split)

lemma alias_list_blocks: "blocks s' = blocks s \<Longrightarrow> alias_list s' as = alias_list s as"
  using alias_of_blocks [of s' s] by (simp add: alias_list_def)

text \<open>The new block is added to the table.\<close>

lemma add_block:
  fixes s :: "('w, 'm) reg_scheme"
  assumes H: "reg_holds os tc ta cs as s" and n: "map_of as n = None" "short_key n" "short_key (al_org_cmd a)" "al_name a = n" "length as < 63"
    and u: "u = s\<lparr>world := w, handles := (handles s)(Block (next_block s) \<mapsto> junk), next_block := next_block s + 1,
      blocks := (blocks s)(next_block s \<mapsto> a)\<rparr>"
  shows "wp (HASH_ADD_STR os (alias_head u) n (Block (next_block s))) (\<lambda>head s'.
    reg_holds os tc ta cs (as @ [(n, Block (next_block s))]) (s'\<lparr>alias_head := head\<rparr>) \<and> con_out s' = con_out s \<and>
    alias_list (s'\<lparr>alias_head := head\<rparr>) (as @ [(n, Block (next_block s))]) = alias_list s as @ [a]) u"
proof -
  let ?b = "next_block s" and ?as = "as @ [(n, Block (next_block s))]"
  note D = reg_holdsD [OF H]
  have old: "x \<noteq> Block ?b \<and> alias_of u x = alias_of s x" if "(k, x) \<in> set as" for k x
  proof -
    have "case (k, x) of (k, x) \<Rightarrow> \<exists>a. alias_of s x = Some a \<and> al_name a = k \<and> short_key (al_org_cmd a) \<and> (\<forall>b. x = Block b \<longrightarrow> b < next_block s)"
      using D(4) that unfolding alias_entries_ok_def by (elim conjE bspec)
    then show ?thesis by (auto simp: u alias_of_def split: elt.split)
  qed
  have as: "entries_held os ta aliases (alias_head u) u as"
    using D(2) old by (rule_tac entries_held_cong [of _ _ _ _ s]) (auto simp: u)
  have cs: "entries_held os tc commands (command_head u) u cs"
    using D(1) by (rule_tac entries_held_cong [of _ _ _ _ s]) (auto simp: u entries_held_def)
  have "wp (HASH_ADD_STR os (alias_head u) n (Block ?b)) (\<lambda>head s'. entries_held os ta aliases head s' ?as \<and> rest_kept ta aliases u s') u"
  proof (rule ht.add_law [OF as n(5,2)])
    show "Block ?b \<notin> snd ` set as" using old [of _ "Block ?b"] by auto
  qed (auto simp: u element_live_def)
  then show ?thesis
  proof (rule wp_mono, elim conjE)
    fix head and s' :: "('w, 'm) reg_scheme" assume s': "entries_held os ta aliases head s' ?as" "rest_kept ta aliases u s'"
    have frame: "ut_frame aliases ta u s'" using s'(2) by (simp add: rest_kept_def)
    note F = reg_frame [OF frame]
    have blocks: "alias_of (s'\<lparr>alias_head := head\<rparr>) x = alias_of u x" for x using F(4) by (intro alias_of_blocks) simp
    have "entries_held os tc commands (command_head s') s' cs"
      unfolding F(2) by (rule entries_held_frame [OF cs frame _ D(7,8)]) blast
    then have "entries_held os tc commands (command_head s') (s'\<lparr>alias_head := head\<rparr>) cs"
      by (rule entries_held_cong) simp_all
    moreover have "entries_held os ta aliases head (s'\<lparr>alias_head := head\<rparr>) ?as"
      using s'(1) by (rule entries_held_cong) simp_all
    moreover have new: "alias_of u (Block ?b) = Some a" by (simp add: alias_of_def u)
    have "alias_entries_ok (s'\<lparr>alias_head := head\<rparr>) ?as"
      unfolding alias_entries_ok_def blocks
    proof (intro conjI ballI)
      show "distinct (map fst ?as)" using D(6) n(1) by (simp add: map_of_eq_None_iff)
      fix e assume e: "e \<in> set ?as"
      show "case e of (k, x) \<Rightarrow> \<exists>a. alias_of u x = Some a \<and> al_name a = k \<and> short_key (al_org_cmd a) \<and>
          (\<forall>b. x = Block b \<longrightarrow> b < next_block (s'\<lparr>alias_head := head\<rparr>))"
      proof (cases "e \<in> set as")
        case True
        then show ?thesis using D(4) old F(5) by (fastforce simp: alias_entries_ok_def u)
      next
        case False
        then show ?thesis using e new n(3,4) F(5) by (auto simp: u)
      qed
    qed
    ultimately have "reg_holds os tc ta cs ?as (s'\<lparr>alias_head := head\<rparr>)"
      using D(3,7,8) by (simp add: reg_holds_def)
    moreover have "alias_list (s'\<lparr>alias_head := head\<rparr>) ?as = alias_list s as @ [a]"
      using new old by (auto simp: alias_list_def blocks)
    ultimately show "reg_holds os tc ta cs ?as (s'\<lparr>alias_head := head\<rparr>) \<and> con_out s' = con_out s \<and>
        alias_list (s'\<lparr>alias_head := head\<rparr>) ?as = alias_list s as @ [a]"
      using F(1) by (simp add: u)
  qed
qed

lemma alias_entries_cong:
  "alias_entries_ok s as \<Longrightarrow> blocks s' = blocks s \<Longrightarrow> next_block s' = next_block s \<Longrightarrow> alias_entries_ok s' as"
  using alias_of_blocks [of s' s] by (simp add: alias_entries_ok_def)

lemma reg_holds_cong:
  assumes "reg_holds os tc ta cs as s" "handles s' = handles s" "tables s' = tables s" "command_head s' = command_head s"
    "alias_head s' = alias_head s" "blocks s' = blocks s" "next_block s' = next_block s"
  shows "reg_holds os tc ta cs as s'"
proof -
  have "entries_held os tc commands (command_head s') s' cs"
    unfolding assms(4) by (rule entries_held_cong [OF reg_holdsD(1) [OF assms(1)]]) (simp_all add: assms(2,3))
  moreover have "entries_held os ta aliases (alias_head s') s' as"
    unfolding assms(5) by (rule entries_held_cong [OF reg_holdsD(2) [OF assms(1)]]) (simp_all add: assms(2,3))
  ultimately show ?thesis using assms(1) alias_entries_cong [of s as s'] assms(6,7) by (simp add: reg_holds_def)
qed

text \<open>The same result as on lists.\<close>

lemma wp_deterministic: "wp m (\<lambda>r s'. s' = s \<and> r = x) s \<Longrightarrow> wp m Q s = Q x s"
  by (auto simp: wp_iff)

lemma wp_new_block: "wp (new_block junk) Q s =
    Q (next_block s) (s\<lparr>handles := (handles s)(Block (next_block s) \<mapsto> junk), next_block := next_block s + 1\<rparr>)"
  by (simp add: new_block_def wp_iff)

lemma ut_insert_result:
  fixes s :: "('w, 'm) reg_scheme"
  assumes os: "malloc_succeeds os" and H: "reg_holds os tc ta cs as s" and n: "short_key n" "short_key org" "length as < 63"
  shows "wp (ut_insert_alias os junk (Some n) (Some org) i ty) (\<lambda>r s'. \<exists>as'. reg_holds os tc ta cs as' s' \<and>
    (case insert_result (command_list cs) (alias_list s as) n org i ty of (r', m, als) \<Rightarrow>
       r = r' \<and> con_out s' = con_out s @ [m] \<and> alias_list s' as' = als)) s"
proof -
  note D = reg_holdsD [OF H] and texts = alias_texts(1) [of n] alias_texts(2) [of org] alias_texts(3) [of n org ty i]
  let ?found = "hash_find al_name (alias_list s as) n" and ?cmd = "resolve_name (command_list cs) (alias_list s as) org"
  have found: "?found = None \<longleftrightarrow> map_of as n = None" using find_alias [OF D(4)] by simp
  have cmd: "?cmd = None \<longleftrightarrow> entry_of s cs as org = None" unfolding entry_resolves [OF H, symmetric] by simp
  define Q where "Q = (\<lambda>r (s' :: ('w, 'm) reg_scheme). \<exists>as'. reg_holds os tc ta cs as' s' \<and>
    (case insert_result (command_list cs) (alias_list s as) n org i ty of (r', m, als) \<Rightarrow>
       r = r' \<and> con_out s' = con_out s @ [m] \<and> alias_list s' as' = als))"
  have said: "Q r (s\<lparr>con_out := con_out s @ [m]\<rparr>)"
    if "insert_result (command_list cs) (alias_list s as) n org i ty = (r, m, alias_list s as)" for r m
  proof -
    have "reg_holds os tc ta cs as (s\<lparr>con_out := con_out s @ [m]\<rparr>)" using H by (rule reg_holds_cong) simp_all
    moreover have "alias_list (s\<lparr>con_out := con_out s @ [m]\<rparr>) as = alias_list s as" by (rule alias_list_blocks) simp
    ultimately show ?thesis using that by (auto simp: Q_def)
  qed
  let ?a = "\<lparr>al_name = n, al_org_cmd = org, al_id = i, al_type = ty\<rparr>" and ?b = "next_block s"
  let ?x = "the (cformat (''Added alias: %s -> %s (type: %c, id: %d)'' @ newline) [FStr n, FStr org, FChar ty, FInt i])"
  have added: "wp (HASH_ADD_STR os (alias_head u) n (Block ?b)) (\<lambda>head s'. Q 0 (s'\<lparr>alias_head := head, con_out := con_out s' @ [(Stdout, ?x)]\<rparr>)) u"
    if u: "u = s\<lparr>world := w, handles := (handles s)(Block ?b \<mapsto> junk), next_block := ?b + 1, blocks := (blocks s)(?b \<mapsto> ?a)\<rparr>"
      and new: "?found = None" "?cmd \<noteq> None" for u w
  proof -
    have m: "map_of as n = None" "short_key (al_org_cmd ?a)" "al_name ?a = n" using new(1) found n(2) by simp_all
    show ?thesis
    proof (rule wp_mono [OF add_block [OF H m(1) n(1) m(2,3) n(3) u]], elim conjE)
    fix head and s' :: "('w, 'm) reg_scheme"
    let ?as = "as @ [(n, Block ?b)]" and ?t = "s'\<lparr>alias_head := head, con_out := con_out s' @ [(Stdout, ?x)]\<rparr>"
    assume s': "reg_holds os tc ta cs ?as (s'\<lparr>alias_head := head\<rparr>)" "con_out s' = con_out s"
      "alias_list (s'\<lparr>alias_head := head\<rparr>) ?as = alias_list s as @ [?a]"
    have "reg_holds os tc ta cs ?as ?t" using s'(1) by (rule reg_holds_cong) simp_all
    moreover have "alias_list ?t ?as = alias_list (s'\<lparr>alias_head := head\<rparr>) ?as" by (rule alias_list_blocks) simp
    ultimately show "Q 0 ?t"
      using s'(2,3) new by (auto simp: Q_def insert_result_def intro!: exI [of _ ?as])
    qed
  qed
  have find: "wp (HASH_FIND_STR (alias_head s) n) P s = P (map_of as n) s" for P
    using D(2) n(1) D(6) by (intro wp_deterministic ht.find_map_of)
  have look: "wp (ut_lookup_command (Some org)) P s = P (entry_of s cs as org) s" for P
    using H n(2) by (intro wp_deterministic ut_lookup_spec)
  obtain w1 where w1: "os_malloc os ALIAS_SIZE (world s) = (Inr (), w1)" using os by (rule malloc_succeedsE)
  obtain w2 where w2: "os_malloc os (length n + 1) w1 = (Inr (), w2)" using os by (rule malloc_succeedsE)
  obtain w3 where w3: "os_malloc os (length org + 1) w2 = (Inr (), w3)" using os by (rule malloc_succeedsE)
  have "wp (ut_insert_alias os junk (Some n) (Some org) i ty) Q s"
  proof (cases "?found = None \<and> ?cmd \<noteq> None")
    case True
    let ?u = "s\<lparr>world := w3, handles := (handles s)(Block ?b \<mapsto> junk), next_block := ?b + 1, blocks := (blocks s)(?b \<mapsto> ?a)\<rparr>"
    let ?v = "s\<lparr>handles := (handles s)(Block ?b \<mapsto> junk), next_block := ?b + 1, world := w3, blocks := (blocks s)(?b \<mapsto> ?a)\<rparr>"
    have v: "?v = ?u" by (cases s) simp
    have "wp (HASH_ADD_STR os (alias_head s) n (Block ?b)) (\<lambda>head s'. Q 0 (s'\<lparr>alias_head := head, con_out := con_out s' @ [(Stdout, ?x)]\<rparr>)) ?v"
      unfolding v using added [OF refl, of w3] True by simp
    then show ?thesis
      using True found cmd texts w1 w2 w3
      by (auto simp: ut_insert_alias_def wp_simps find look wp_new_block)
  next
    case False
    then show ?thesis
      using found cmd texts said
      by (auto simp: ut_insert_alias_def wp_simps find look insert_result_def)
  qed
  then show ?thesis by (simp only: Q_def)
qed

end
