(* ===== verification/Registry_Refinement.thy ===== *)
theory Registry_Refinement
  imports Registry_Tables Registry_Properties
begin

text \<open>
  The registry on the hash tables of \<open>uthash.h\<close> refines the registry on lists: a whole
  session of \<open>init_commands\<close>, look-ups, new aliases and \<open>free_alias_table\<close> gives the same
  answers and prints the same.
\<close>

section \<open>Freeing the aliases\<close>

text \<open>Only aliases of the user are freed, and they are blocks.\<close>

lemma user_alias_block: "alias_of s x = Some a \<Longrightarrow> al_type a = CHR ''u'' \<Longrightarrow> \<exists>b. x = Block b \<and> blocks s b = Some a"
proof -
  have "\<forall>a \<in> set static_aliases. al_type a \<noteq> CHR ''u''" by (simp add: static_aliases_def)
  then have "al_type (static_aliases ! i) \<noteq> CHR ''u''" if "i < length static_aliases" for i
    using that nth_mem by blast
  then show "alias_of s x = Some a \<Longrightarrow> al_type a = CHR ''u'' \<Longrightarrow> \<exists>b. x = Block b \<and> blocks s b = Some a"
    by (auto simp: alias_of_def static_at_def split: elt.splits if_splits)
qed

text \<open>While the aliases of \<open>ys\<close> are still to be visited.\<close>

definition freeing ::
  "'w os \<Rightarrow> nat \<Rightarrow> nat \<Rightarrow> (string \<times> elt) list \<Rightarrow> (stream \<times> string) list \<Rightarrow> elt list \<Rightarrow> ('w, 'm) reg_scheme \<Rightarrow> bool" where
  "freeing os tc ta cs out ys s \<longleftrightarrow> cs \<noteq> [] \<and> tc \<noteq> ta \<and> entries_held os tc commands (command_head s) s cs \<and> con_out s = out \<and>
     (\<exists>ks n. hash_ok n (alias_head s) ta s (ks @ ys) \<and> set (ks @ ys) \<subseteq> aliases) \<and> (\<forall>x \<in> set ys. alias_of s x \<noteq> None)"

lemma hash_ok_distinct: "hash_ok n head t s xs \<Longrightarrow> distinct xs"
  by (cases "xs = []") (auto simp: hash_ok_def table_holds_def list_ok_def)

lemma free_user_alias_spec:
  assumes J: "freeing os tc ta cs out (x # ys) s"
  shows "wp (free_user_alias x) (\<lambda>_. freeing os tc ta cs out ys) s"
proof -
  obtain ks n where ks: "hash_ok n (alias_head s) ta s (ks @ x # ys)" "set (ks @ x # ys) \<subseteq> aliases"
    using J by (auto simp: freeing_def)
  obtain a where a: "alias_of s x = Some a" using J by (auto simp: freeing_def)
  have H: "cs \<noteq> []" "tc \<noteq> ta" "entries_held os tc commands (command_head s) s cs" "con_out s = out" "\<forall>y \<in> set ys. alias_of s y \<noteq> None"
    using J by (simp_all add: freeing_def)
  show ?thesis
  proof (cases "al_type a = CHR ''u''")
    case False
    have "freeing os tc ta cs out ys s"
      unfolding freeing_def using H ks by (intro conjI exI [of _ "ks @ [x]"] exI [of _ n]) simp_all
    then show ?thesis using a False by (simp add: free_user_alias_def read_alias_def wp_simps not_null_def)
  next
    case True
    then obtain b where b: "x = Block b" "blocks s b = Some a" using a user_alias_block by blast
    have dist: "distinct (ks @ x # ys)" by (rule hash_ok_distinct [OF ks(1)])
    have del: "wp (HASH_DELETE (alias_head s) x) (\<lambda>head' s'. hash_ok n head' ta s' (ks @ ys) \<and> ut_frame (set (ks @ x # ys)) ta s s') s"
    proof (rule wp_mono [OF hash_delete_spec [OF ks(1)]])
      show "x \<in> set (ks @ x # ys)" by simp
      fix head' s' assume "hash_ok n head' ta s' (remove1 x (ks @ x # ys)) \<and> ut_frame (set (ks @ x # ys)) ta s s' \<and> keys_kept UNIV s s'"
      moreover have "remove1 x (ks @ x # ys) = ks @ ys" using dist by (simp add: remove1_append)
      ultimately show "hash_ok n head' ta s' (ks @ ys) \<and> ut_frame (set (ks @ x # ys)) ta s s'" by simp
    qed
    have freed: "freeing os tc ta cs out ys (s'\<lparr>alias_head := head', handles := (handles s')(x := None), blocks := (blocks s)(b := None)\<rparr>)"
      (is "freeing _ _ _ _ _ _ ?t")
      if s': "hash_ok n head' ta s' (ks @ ys)" "ut_frame (set (ks @ x # ys)) ta s s'" for head' s'
    proof -
      note F = reg_frame [OF s'(2)]
      have "commands \<inter> set (ks @ x # ys) = {}" using ks(2) by blast
      then have "entries_held os tc commands (command_head s) s' cs"
        by (rule entries_held_frame [OF H(3) s'(2) _ H(1,2)])
      moreover have "x \<notin> snd ` set cs" using H(3) b(1) by (auto simp: entries_held_def)
      then have "\<forall>z \<in> snd ` set cs. handles ?t z = handles s' z" by simp blast
      ultimately have "entries_held os tc commands (command_head s) ?t cs"
        by (rule entries_held_cong) simp_all
      moreover have "hash_ok n head' ta ?t (ks @ ys)"
        by (rule hash_ok_cong [OF s'(1)]) (use dist in auto)
      moreover have "alias_of ?t y = alias_of s y" if "y \<in> set ys" for y
        using that dist by (auto simp: alias_of_def b(1) split: elt.split)
      ultimately show ?thesis using H ks(2) F(1,2) by (auto simp: freeing_def)
    qed
    have "wp (HASH_DELETE (alias_head s) x) (\<lambda>head s'. wp (free_block x) (\<lambda>_. freeing os tc ta cs out ys) (s'\<lparr>alias_head := head\<rparr>)) s"
    proof (rule wp_mono [OF del], elim conjE)
      fix head' s' assume s': "hash_ok n head' ta s' (ks @ ys)" "ut_frame (set (ks @ x # ys)) ta s s'"
      have "blocks s' b = Some a" "blocks s' = blocks s" using reg_frame(4) [OF s'(2)] b(2) by simp_all
      then show "wp (free_block x) (\<lambda>_. freeing os tc ta cs out ys) (s'\<lparr>alias_head := head'\<rparr>)"
        using freed [OF s'] by (simp add: free_block_def b(1) wp_simps not_null_def)
    qed
    then show ?thesis using a True by (simp add: free_user_alias_def read_alias_def wp_simps not_null_def)
  qed
qed

lemma table_index_less: "hash_ok n head t s xs \<Longrightarrow> xs \<noteq> [] \<Longrightarrow> t < length (tables s)"
  by (auto simp: hash_ok_def table_at_def split: if_splits)

lemma ut_free_spec:
  assumes H: "reg_holds os tc ta cs as s"
  shows "wp ut_free_alias_table (\<lambda>_ s'. (\<exists>ta'. reg_holds os tc ta' cs [] s') \<and> con_out s' = con_out s) s"
proof -
  note D = reg_holdsD [OF H]
  have "\<forall>x \<in> snd ` set as. alias_of s x \<noteq> None" using D(4) by (fastforce simp: alias_entries_ok_def)
  then have J: "freeing os tc ta cs (con_out s) (map snd as) s"
    using D by (auto simp: freeing_def entries_held_def intro!: exI [of _ "[]"])
  have head: "alias_head s = first (map snd as) None" using D(2) by (simp add: entries_held_def hash_ok_def)
  have "wp (HASH_ITER (alias_head s) free_user_alias) (\<lambda>_. freeing os tc ta cs (con_out s) []) s"
    unfolding head
  proof (rule hash_iter_spec [where J = "freeing os tc ta cs (con_out s)", OF free_user_alias_spec _ J])
    show "\<exists>h. handles u y = Some h \<and> uh_next h = first ys None" if "freeing os tc ta cs (con_out s) (y # ys) u" for y ys u
      using that hash_ok_next unfolding freeing_def by blast
  qed
  then have "wp (HASH_ITER (alias_head s) free_user_alias)
      (\<lambda>_ s'. (\<exists>ta'. reg_holds os tc ta' cs [] (s'\<lparr>alias_head := None\<rparr>)) \<and> con_out s' = con_out s) s"
  proof (rule wp_mono)
    fix a s' assume s': "freeing os tc ta cs (con_out s) [] s'"
    have "entries_held os tc commands (command_head s') (s'\<lparr>alias_head := None\<rparr>) cs"
      using s' by (rule_tac entries_held_cong [of _ _ _ _ s']) (auto simp: freeing_def)
    moreover have "entries_held os (length (tables s')) aliases None (s'\<lparr>alias_head := None\<rparr>) []"
      using s' by (simp add: entries_held_def freeing_def)
    moreover have "tc \<noteq> length (tables s')"
      using s' table_index_less [of _ "command_head s'" tc s' "map snd cs"] by (auto simp: freeing_def entries_held_def)
    ultimately have "reg_holds os tc (length (tables s')) cs [] (s'\<lparr>alias_head := None\<rparr>)"
      using D(3,7) by (simp add: reg_holds_def alias_entries_ok_def)
    then show "(\<exists>ta'. reg_holds os tc ta' cs [] (s'\<lparr>alias_head := None\<rparr>)) \<and> con_out s' = con_out s"
      using s' by (auto simp: freeing_def)
  qed
  then show ?thesis by (simp add: ut_free_alias_table_def wp_simps)
qed


section \<open>Initialising the tables\<close>

text \<open>The handles of the static elements exist as long as the program runs.\<close>

definition statics_live :: "('w, 'm) ut_scheme \<Rightarrow> bool" where
  "statics_live s \<longleftrightarrow> (\<forall>i. handles s (Static_command i) \<noteq> None \<and> handles s (Static_alias i) \<noteq> None)"

lemma static_entries_simps:
  "map snd (static_entries name place xs) = map place [0..<length xs]"
  "map fst (static_entries name place xs) = map name xs"
  "map (f \<circ> snd) (static_entries name place xs) = map (\<lambda>i. f (place i)) [0..<length xs]"
  "length (static_entries name place xs) = length xs"
  by (simp_all add: static_entries_def map_equality_iff)

lemma static_entriesE:
  assumes "(k, x) \<in> set (static_entries name place xs)"
  obtains i where "i < length xs" "x = place i" "k = name (xs ! i)"
  using assms by (auto simp: static_entries_def)

lemma static_keys_short:
  "\<forall>c \<in> set static_commands. short_key (cmd_name c)"
  "\<forall>a \<in> set static_aliases. short_key (al_name a) \<and> short_key (al_org_cmd a)"
  by (simp_all add: static_commands_def standard_commands_def sub_commands_def define_command_def static_aliases_def short_key_def)

lemma static_sizes: "length static_commands = 26" "length static_aliases = 24"
  by (simp_all add: static_commands_def standard_commands_def sub_commands_def static_aliases_def)

lemma static_command_entries:
  fixes cs defines "cs \<equiv> static_entries cmd_name Static_command static_commands"
  shows "command_entries_ok cs" "command_list cs = static_commands" "cs \<noteq> []" "length cs = 26" "distinct (map snd cs)"
    "\<forall>(k, x) \<in> set cs. short_key k \<and> x \<in> commands"
proof -
  show "command_entries_ok cs"
    using static_names(1) by (auto simp: command_entries_ok_def cs_def static_entries_simps keys_distinct_def command_of_def static_at_def elim!: static_entriesE)
  have "map (\<lambda>i. the (command_of (Static_command i))) [0..<length static_commands] = map ((!) static_commands) [0..<length static_commands]"
    by (simp add: command_of_def static_at_def)
  then show "command_list cs = static_commands"
    unfolding command_list_def cs_def static_entries_simps(3) by (simp add: map_nth)
  show "length cs = 26" by (simp add: cs_def static_entries_simps static_sizes)
  then show "cs \<noteq> []" by auto
  show "distinct (map snd cs)" by (simp add: cs_def static_entries_simps distinct_map inj_on_def)
  show "\<forall>(k, x) \<in> set cs. short_key k \<and> x \<in> commands"
    using static_keys_short(1) by (auto simp: cs_def elim!: static_entriesE)
qed

lemma static_alias_entries:
  fixes as defines "as \<equiv> static_entries al_name Static_alias static_aliases"
  shows "alias_entries_ok s as" "alias_list s as = static_aliases" "length as = 24" "distinct (map snd as)"
    "\<forall>(k, x) \<in> set as. short_key k \<and> x \<in> aliases \<and> (\<exists>i. x = Static_alias i)"
proof -
  show "alias_entries_ok s as"
    using static_names(2) static_keys_short(2)
    by (auto simp: alias_entries_ok_def as_def static_entries_simps keys_distinct_def alias_of_def static_at_def elim!: static_entriesE)
  have "map (\<lambda>i. the (alias_of s (Static_alias i))) [0..<length static_aliases] = map ((!) static_aliases) [0..<length static_aliases]"
    by (simp add: alias_of_def static_at_def)
  then show "alias_list s as = static_aliases"
    unfolding alias_list_def as_def static_entries_simps(3) by (simp add: map_nth)
  show "length as = 24" by (simp add: as_def static_entries_simps static_sizes)
  show "distinct (map snd as)" by (simp add: as_def static_entries_simps distinct_map inj_on_def)
  show "\<forall>(k, x) \<in> set as. short_key k \<and> x \<in> aliases \<and> (\<exists>i. x = Static_alias i)"
    using static_keys_short(2) by (auto simp: as_def elim!: static_entriesE)
qed

lemma ut_init_spec:
  fixes s :: "('w, 'm) reg_scheme"
  assumes os: "malloc_succeeds os" and live: "statics_live s"
  shows "wp (ut_init_commands os) (\<lambda>r s'. r = 0 \<and> con_out s' = con_out s \<and>
    (\<exists>tc ta cs as. reg_holds os tc ta cs as s' \<and> command_list cs = static_commands \<and> alias_list s' as = static_aliases)) s"
proof -
  let ?cs = "static_entries cmd_name Static_command static_commands" and ?as = "static_entries al_name Static_alias static_aliases"
  define tc where "tc = length (tables s)"
  let ?s = "s\<lparr>command_head := None, alias_head := None\<rparr>"
  note C = static_command_entries and A = static_alias_entries
  define Q where "Q = (\<lambda>(r :: int) (s' :: ('w, 'm) reg_scheme). r = 0 \<and> con_out s' = con_out s \<and>
    (\<exists>tc ta cs as. reg_holds os tc ta cs as s' \<and> command_list cs = static_commands \<and> alias_list s' as = static_aliases))"
  have cmds: "wp (add_entries (HASH_ADD_STR os) ?cs None) (\<lambda>head u. entries_held os tc commands head u ([] @ ?cs) \<and> rest_kept tc commands ?s u) ?s"
  proof (rule ht.add_entries_law)
    show "entries_held os tc commands None ?s []" using os by (simp add: entries_held_def tc_def)
    show "\<forall>(k, x) \<in> set ?cs. short_key k \<and> element_live commands ?s x"
      using C(6) live by (fastforce simp: element_live_def statics_live_def)
  qed (use C in simp_all)
  have rest: "wp (add_entries (HASH_ADD_STR os) ?as None) (\<lambda>head v. Q 0 (v\<lparr>alias_head := head\<rparr>)) (u\<lparr>command_head := h\<rparr>)"
    if u: "entries_held os tc commands h u ?cs" "rest_kept tc commands ?s u" for h u
  proof -
    let ?u = "u\<lparr>command_head := h\<rparr>"
    define ta where "ta = length (tables ?u)"
    have "tc \<noteq> ta"
      using u(1) C(3) table_index_less [of _ h tc u "map snd ?cs"] by (auto simp: ta_def entries_held_def)
    have "entries_held os ta aliases None ?u []" using os by (simp add: entries_held_def ta_def)
    moreover have "\<forall>(k, x) \<in> set ?as. short_key k \<and> element_live aliases ?u x"
      using A(5) live u(2) by (fastforce simp: element_live_def statics_live_def rest_kept_def)
    ultimately have "wp (add_entries (HASH_ADD_STR os) ?as None) (\<lambda>head v. entries_held os ta aliases head v ([] @ ?as) \<and> rest_kept ta aliases ?u v) ?u"
      using A(3,4) by (intro ht.add_entries_law) simp_all
    then show ?thesis
    proof (rule wp_mono, elim conjE)
      fix head and v :: "('w, 'm) reg_scheme"
      assume v: "entries_held os ta aliases head v ([] @ ?as)" "rest_kept ta aliases ?u v"
      let ?v = "v\<lparr>alias_head := head\<rparr>"
      have frame: "ut_frame commands tc ?s u" "ut_frame aliases ta ?u v" using u(2) v(2) by (simp_all add: rest_kept_def)
      note F = reg_frame [OF frame(1)] reg_frame [OF frame(2)]
      have "entries_held os tc commands h ?u ?cs" using u(1) by (rule entries_held_cong) simp_all
      then have "entries_held os tc commands h v ?cs"
        by (rule entries_held_frame [OF _ frame(2) _ C(3) \<open>tc \<noteq> ta\<close>]) blast
      then have "entries_held os tc commands (command_head ?v) ?v ?cs"
        using F(7) by (rule_tac entries_held_cong [of _ _ _ _ v]) simp_all
      moreover have "entries_held os ta aliases (alias_head ?v) ?v ?as"
        using v(1) by (rule_tac entries_held_cong [of _ _ _ _ v]) simp_all
      ultimately have "reg_holds os tc ta ?cs ?as ?v"
        using C(1,3) A(1) \<open>tc \<noteq> ta\<close> by (simp add: reg_holds_def)
      then show "Q 0 ?v"
        using C(2) A(2) [of ?v] F(1,6) unfolding Q_def by (intro conjI exI [of _ tc] exI [of _ ta] exI [of _ ?cs] exI [of _ ?as]) simp_all
    qed
  qed
  have "wp (add_entries (HASH_ADD_STR os) ?cs None) (\<lambda>h u. wp (add_entries (HASH_ADD_STR os) ?as None)
      (\<lambda>head v. Q 0 (v\<lparr>alias_head := head\<rparr>)) (u\<lparr>command_head := h\<rparr>)) ?s"
    by (rule wp_mono [OF cmds]) (use rest in simp)
  then have "wp (ut_init_commands os) Q s" by (simp add: ut_init_commands_def wp_simps)
  then show ?thesis by (simp only: Q_def)
qed


section \<open>Sessions\<close>

datatype reg_op = Lookup "string option" | Insert "string option" "string option" int char | Free_aliases

fun run_ops :: "('o \<Rightarrow> ('s, 'a) prog) \<Rightarrow> 'o list \<Rightarrow> ('s, 'a list) prog" where
  "run_ops f [] = ret []"
| "run_ops f (op # ops) = bnd (f op) (\<lambda>a. bnd (run_ops f ops) (\<lambda>as. ret (a # as)))"

text \<open>The answer to a look-up is the command that is found, not where it is.\<close>

fun list_op :: "'w os \<Rightarrow> reg_op \<Rightarrow> ('w, 'm, sylvan_command option + int) uprog" where
  "list_op os (Lookup name) = bnd (lookup_command name) (\<lambda>c. ret (Inl c))"
| "list_op os (Insert name org i ty) = bnd (insert_alias os name org i ty) (\<lambda>r. ret (Inr r))"
| "list_op os Free_aliases = bnd free_alias_table (\<lambda>_. ret (Inr 0))"

fun ut_op :: "'w os \<Rightarrow> ut_handle \<Rightarrow> reg_op \<Rightarrow> ('w, 'm, sylvan_command option + int) rprog" where
  "ut_op os junk (Lookup name) = bnd (ut_lookup_command name) (\<lambda>p. bnd (read_command p) (\<lambda>c. ret (Inl c)))"
| "ut_op os junk (Insert name org i ty) = bnd (ut_insert_alias os junk name org i ty) (\<lambda>r. ret (Inr r))"
| "ut_op os junk Free_aliases = bnd ut_free_alias_table (\<lambda>_. ret (Inr 0))"

text \<open>Words are shorter than \<open>2 ^ 32\<close>; the tables have at most 63 entries.\<close>

fun op_short :: "reg_op \<Rightarrow> bool" where
  "op_short (Lookup name) \<longleftrightarrow> (\<forall>k \<in> set_option name. short_key k)"
| "op_short (Insert name org i ty) \<longleftrightarrow> (\<forall>k \<in> set_option name \<union> set_option org. short_key k)"
| "op_short Free_aliases \<longleftrightarrow> True"

fun is_insert :: "reg_op \<Rightarrow> bool" where
  "is_insert (Insert name org i ty) = True"
| "is_insert _ = False"

definition inserts :: "reg_op list \<Rightarrow> nat" where
  "inserts ops = length (filter is_insert ops)"

lemma reg_repE:
  assumes "reg_rep os s u"
  obtains tc ta cs as where "reg_holds os tc ta cs as s" "command_hash u = command_list cs" "alias_table u = alias_list s as"
    "con_out s = con_out u" "length (alias_table u) = length as"
  using assms by (auto simp: reg_rep_def alias_list_def)

lemma reg_repI:
  "reg_holds os tc ta cs as s \<Longrightarrow> command_hash u = command_list cs \<Longrightarrow> alias_table u = alias_list s as \<Longrightarrow>
     con_out s = con_out u \<Longrightarrow> reg_rep os s u"
  unfolding reg_rep_def by blast

lemma step_refined:
  assumes os: "malloc_succeeds os" and rep: "reg_rep os s u" and op: "op_short op" "length (alias_table u) + inserts [op] \<le> 63"
  shows "wp (list_op os op) (\<lambda>r u'. length (alias_table u') \<le> length (alias_table u) + inserts [op] \<and>
    wp (ut_op os junk op) (\<lambda>r' s'. r' = r \<and> reg_rep os s' u') s) u"
proof -
  obtain tc ta cs as where H: "reg_holds os tc ta cs as s" and L: "command_hash u = command_list cs" "alias_table u = alias_list s as"
    "con_out s = con_out u" "length (alias_table u) = length as"
    using rep by (rule reg_repE)
  show ?thesis
  proof (cases op)
    case (Lookup name)
    show ?thesis
    proof (cases name)
      case None
      then show ?thesis using Lookup rep by (simp add: wp_simps ut_lookup_command_def read_command_def)
    next
      case (Some k)
      have "short_key k" using op(1) Lookup Some by simp
      then have "wp (ut_lookup_command (Some k)) P s = P (entry_of s cs as k) s" for P
        using H by (intro wp_deterministic ut_lookup_spec)
      then show ?thesis
        using Lookup Some rep entry_read [OF H] L(1,2) by (simp add: wp_simps)
    qed
  next
    case (Insert name org i ty)
    show ?thesis
    proof (cases "name = None \<or> org = None")
      case True
      then show ?thesis using Insert rep by (cases name) (auto simp: wp_simps ut_insert_alias_def insert_alias_def)
    next
      case False
      then obtain n p where n: "name = Some n" "org = Some p" by auto
      then have short: "short_key n" "short_key p" "length as < 63" using op Insert L(4) by (simp_all add: inserts_def)
      obtain r m als where res: "insert_result (command_list cs) (alias_list s as) n p i ty = (r, m, als)" by (cases "insert_result (command_list cs) (alias_list s as) n p i ty")
      then have len: "length als \<le> Suc (length (alias_table u))"
        using L(2) by (auto simp: insert_result_def split: if_splits)
      have "wp (ut_insert_alias os junk (Some n) (Some p) i ty) (\<lambda>r' s'. r' = r \<and> reg_rep os s' u') s"
        if "command_hash u' = command_hash u" "con_out u' = con_out u @ [m]" "alias_table u' = als" for u'
        by (rule wp_mono [OF ut_insert_result [OF os H short]]) (use that L res in \<open>auto intro: reg_repI\<close>)
      then show ?thesis
        unfolding Insert n list_op.simps ut_op.simps wp_bnd wp_ret
        by (intro wp_mono [OF insert_alias_result [OF os]]) (use res L len in \<open>auto simp: inserts_def elim!: wp_mono\<close>)
    qed
  next
    case Free_aliases
    have "wp ut_free_alias_table (\<lambda>_ s'. reg_rep os s' (u\<lparr>alias_table := []\<rparr>)) s"
    proof (rule wp_mono [OF ut_free_spec [OF H]], elim conjE exE)
      fix a s' ta' assume s': "reg_holds os tc ta' cs [] s'" "con_out s' = con_out s"
      show "reg_rep os s' (u\<lparr>alias_table := []\<rparr>)"
        unfolding reg_rep_def using s' L by (intro conjI exI [of _ tc] exI [of _ ta'] exI [of _ cs] exI [of _ "[]"]) (simp_all add: alias_list_def)
    qed
    then show ?thesis using Free_aliases by (simp add: wp_simps free_alias_table_def)
  qed
qed

lemma run_refined:
  fixes s :: "('w, 'm) reg_scheme" and u :: "('w, 'n) ui_scheme"
  assumes os: "malloc_succeeds os"
  shows "reg_rep os s u \<Longrightarrow> \<forall>op \<in> set ops. op_short op \<Longrightarrow> length (alias_table u) + inserts ops \<le> 63 \<Longrightarrow>
    wp (run_ops (list_op os) ops) (\<lambda>r u'. wp (run_ops (ut_op os junk) ops) (\<lambda>r' s'. r' = r \<and> reg_rep os s' u') s) u"
proof (induction ops arbitrary: s u)
  case Nil
  then show ?case by (simp add: wp_ret)
next
  case (Cons op ops)
  have ins: "inserts (op # ops) = inserts [op] + inserts ops" by (simp add: inserts_def)
  have "wp (list_op os op) (\<lambda>r u'. length (alias_table u') \<le> length (alias_table u) + inserts [op] \<and>
    wp (ut_op os junk op) (\<lambda>r' s'. r' = r \<and> reg_rep os s' u') s) u"
    using Cons.prems ins by (intro step_refined [OF os]) auto
  then show ?case
    unfolding run_ops.simps wp_bnd wp_ret
  proof (rule wp_mono, elim conjE)
    fix r and u' :: "('w, 'n) ui_scheme" assume u': "length (alias_table u') \<le> length (alias_table u) + inserts [op]"
      and step: "wp (ut_op os junk op) (\<lambda>r' s'. r' = r \<and> reg_rep os s' u') s"
    obtain s' where s': "ut_op os junk op s = Ret (r, s')" "reg_rep os s' u'" using step by (auto simp: wp_iff)
    then have "wp (run_ops (list_op os) ops) (\<lambda>rs u''. wp (run_ops (ut_op os junk) ops) (\<lambda>rs' s''. rs' = rs \<and> reg_rep os s'' u'') s') u'"
      using Cons.prems u' ins by (intro Cons.IH) auto
    then show "wp (run_ops (list_op os) ops) (\<lambda>rs u''. wp (ut_op os junk op) (\<lambda>r' s'.
        wp (run_ops (ut_op os junk) ops) (\<lambda>rs' s''. r' # rs' = r # rs \<and> reg_rep os s'' u'') s') s) u'"
      by (rule wp_mono) (simp add: wp_iff [of "ut_op os junk op"] s'(1))
  qed
qed

text \<open>C20: A session of look-ups, new aliases and freeing them, after initialising the registry, on
  the hash tables of \<open>uthash.h\<close>, with the pointers between tables, buckets and entries explicit,
  gives the answers and the output that the lists give. It never reads a null or freed table,
  bucket array or entry, and ends. At most 39 aliases are added, the names are shorter than
  \<open>2 ^ 32\<close> and memory allocation succeeds. The strings of an entry (its key, its name, the name
  of its command) are values here: that they are copied by \<open>strdup\<close> and freed is not shown.\<close>

theorem registry_refinement:
  assumes "malloc_succeeds os" "statics_live s" "con_out s = con_out u"
    and "\<forall>op \<in> set ops. op_short op" "inserts ops \<le> 39"
  shows "wp (bnd init_commands (\<lambda>_. run_ops (list_op os) ops)) (\<lambda>r u'.
    wp (bnd (ut_init_commands os) (\<lambda>_. run_ops (ut_op os junk) ops)) (\<lambda>r' s'. r' = r \<and> con_out s' = con_out u') s) u"
proof -
  let ?u = "u\<lparr>command_hash := static_commands, alias_table := static_aliases\<rparr>"
  have "wp (ut_init_commands os) (\<lambda>r s'. r = 0 \<and> reg_rep os s' ?u) s"
    by (rule wp_mono [OF ut_init_spec [OF assms(1,2)]]) (use assms(3) in \<open>auto intro: reg_repI\<close>)
  then obtain s1 where s1: "ut_init_commands os s = Ret (0, s1)" "reg_rep os s1 ?u" by (auto simp: wp_iff)
  have "wp (run_ops (list_op os) ops) (\<lambda>r u'. wp (run_ops (ut_op os junk) ops) (\<lambda>r' s'. r' = r \<and> reg_rep os s' u') s1) ?u"
    using assms(1,4,5) s1(2) by (intro run_refined) (simp_all add: static_sizes)
  then have "wp (run_ops (list_op os) ops) (\<lambda>r u'. wp (run_ops (ut_op os junk) ops) (\<lambda>r' s'. r' = r \<and> con_out s' = con_out u') s1) ?u"
    by (rule wp_mono) (auto simp: reg_rep_def elim!: wp_mono)
  then show ?thesis
    by (simp add: wp_bnd wp_init_commands) (simp add: wp_iff [of "ut_init_commands os"] s1(1))
qed

text \<open>A registry before \<open>init_commands\<close>, and a session in it.\<close>

definition sim_reg :: "sim reg" where
  "sim_reg = \<lparr>infp = InfLive zero_inferior, sylvan_inferior_idx = 1, sylvan_inferior_count = 1,
     sylvan_last_error = no_error, errno = 0, world = sim_world, con_out = [],
     handles = (\<lambda>x. case x of Block _ \<Rightarrow> None | _ \<Rightarrow> Some zero_handle), tables = [],
     command_head = None, alias_head = None, blocks = Map.empty, next_block = 0\<rparr>"

definition sim_ops :: "reg_op list" where
  "sim_ops = [Insert (Some ''go'') (Some ''run'') 25 (CHR ''u''), Lookup (Some ''go''), Free_aliases, Lookup (Some ''go'')]"

theorem registry_refinement_witness:
  "wp (bnd (ut_init_commands sim_os) (\<lambda>_. run_ops (ut_op sim_os zero_handle) sim_ops))
    (\<lambda>r s'. \<exists>cmd. cmd_handler cmd = Handle_run \<and> r = [Inr 0, Inl (Some cmd), Inr 0, Inl None]) sim_reg"
proof -
  obtain cmd where cmd: "hash_find cmd_name static_commands ''run'' = Some cmd" "cmd_handler cmd = Handle_run"
    using run_known by blast
  let ?u = "sim_shell zero_inferior" and ?as = "[Inr 0, Inl (Some cmd), Inr 0, Inl None]"
  have unknown: "hash_find cmd_name static_commands ''go'' = None"
    by (simp add: hash_find_def static_commands_def standard_commands_def sub_commands_def define_command_def)
  let ?a = "\<lparr>al_name = ''go'', al_org_cmd = ''run'', al_id = 25, al_type = CHR ''u''\<rparr>"
  have go: "resolve_name static_commands (static_aliases @ [?a]) ''go'' = Some cmd"
    using resolve_new_alias [OF static_names(2), of ?a] go_unknown cmd(1) by (simp add: hash_add_def)
  have run: "resolve_name static_commands static_aliases ''run'' = Some cmd" using go_unknown cmd(1) by (simp add: resolve_not_alias)
  have free: "resolve_name static_commands [] ''go'' = None" using unknown by (simp add: resolve_name_def hash_find_def)
  have ins: "insert_result static_commands static_aliases ''go'' ''run'' 25 (CHR ''u'') =
      (0, (Stdout, the (cformat (''Added alias: %s -> %s (type: %c, id: %d)'' @ newline) [FStr ''go'', FStr ''run'', FChar (CHR ''u''), FInt 25])),
       static_aliases @ [?a])"
    using go_unknown run by (simp add: insert_result_def)
  have "wp (bnd init_commands (\<lambda>_. run_ops (list_op sim_os) sim_ops)) (\<lambda>r u'. r = ?as) ?u"
    unfolding sim_ops_def run_ops.simps list_op.simps wp_bnd wp_ret wp_init_commands
    by (rule wp_mono [OF insert_alias_result [OF sim_malloc]])
      (auto simp: ins go free wp_lookup_command free_alias_table_def wp_modify)
  moreover have "wp (bnd init_commands (\<lambda>_. run_ops (list_op sim_os) sim_ops)) (\<lambda>r u'.
    wp (bnd (ut_init_commands sim_os) (\<lambda>_. run_ops (ut_op sim_os zero_handle) sim_ops)) (\<lambda>r' s'. r' = r \<and> con_out s' = con_out u') sim_reg) ?u"
  proof (rule registry_refinement [OF sim_malloc])
    show "statics_live sim_reg" "con_out sim_reg = con_out ?u" by (simp_all add: statics_live_def sim_reg_def)
    show "\<forall>op \<in> set sim_ops. op_short op" "inserts sim_ops \<le> 39" by (simp_all add: sim_ops_def inserts_def short_key_def)
  qed
  ultimately show ?thesis using cmd(2) by (auto simp: wp_iff)
qed

end
