(* ===== verification/Spec2Isabelle.thy ===== *)
theory Spec2Isabelle
  imports Library_Properties Disassembly_Properties Shell_Properties Console_Properties Breakpoint_Sessions Startup_Properties Line_Properties
    Hash_Table_Properties Hash_Functions Registry_Refinement
begin

text \<open>
  A verification of Sylvan, a debugger for Linux on x86-64.

  \<^bold>\<open>The program.\<close> The directory \<open>lib/sylvan\<close> is a library: it holds one inferior (the
  process that is debugged, or the file that will be run), its breakpoints and its symbols,
  and drives the process with \<open>ptrace\<close>. The directory \<open>src\<close> is the user interface: it reads
  lines, looks their first word up in a registry of commands and aliases, and runs a handler,
  which calls the library and prints. The interface reaches the library through its result
  codes, the message of the last error, and the fields of the inferior.

  \<^bold>\<open>How it is modelled.\<close> A C function is a state transformer with an outcome: it returns a
  value and a new state, fails an assertion (\<open>Abort\<close>), does something that C leaves undefined
  (\<open>UB\<close>), or does not return (\<open>Diverge\<close>). The library runs on the record \<open>dbg\<close> (the inferior
  pointer, the counters, the last error, \<open>errno\<close>, and the world of the operating system);
  the interface extends it by its output (\<open>console\<close>), the two tables (\<open>ui\<close>) and the history
  (\<open>shell\<close>). Integers keep their width. What is not part of the repository is a parameter:
  the record \<open>os\<close> for the system calls, \<open>malloc\<close>, libelf and libdwarf, \<open>tty\<close> for the
  terminal, \<open>dislib\<close> for Zydis and the files it reads, \<open>lines\<close> and \<open>keyboard\<close> for readline. Every call of
  them may answer anything, errors included, and changes the world in any way, save where a
  theorem names what it relies on: \<open>malloc_succeeds\<close>, \<open>tracee_memory\<close>,
  \<open>memory_accessible\<close>, \<open>system_ok\<close>, \<open>debug_info\<close>, \<open>register_access\<close>, \<open>decodes_prefix\<close>,
  \<open>stepping\<close>, \<open>separate_heap\<close>, \<open>typing_kept\<close>, \<open>signal_kept\<close>, \<open>tty_ends_lines\<close>,
  \<open>plain_system\<close>, \<open>usable_tty\<close>. The theories \<open>Simulation\<close> and
  \<open>Console_Simulation\<close> hold a small machine that has all of these, and the witnesses run on it.

  \<^bold>\<open>Shared.\<close> \<open>Prelude\<close>: outcomes, the rules of \<open>wp\<close> and its collections \<open>wp_simps\<close> and
  \<open>wp_specs\<close>, words as bytes of memory. \<open>Clib\<close>: \<open>strtol\<close>, \<open>strtoul\<close>, \<open>strtok\<close>, \<open>sscanf\<close> and
  the formats of \<open>printf\<close>.

  \<^bold>\<open>The library.\<close>
  \<^item> \<open>Errors\<close> (\<open>error.c\<close>): codes, their texts, the three setters and their buffer.
  \<^item> \<open>Machine\<close> (the headers under \<open>include/sylvan\<close>): the data, and the record of the system.
  \<^item> \<open>Breakpoints\<close> (\<open>breakpoint.c\<close>): the table and the trap bytes in the memory of the process.
    \<open>Breakpoint_Lemmas\<close>, \<open>Breakpoint_Specs\<close> and \<open>Breakpoint_Bulk\<close> give the invariant of the
    table and what every operation does to the map it stands for; \<open>Breakpoint_Service\<close> states
    the abstract commands on a finite map (locales \<open>breakpoint_service\<close> and \<open>text_service\<close>)
    and shows that the code refines them; \<open>Breakpoint_Properties\<close> draws the consequences for
    sequences of commands.
  \<^item> \<open>Symbols\<close> (\<open>symbol.c\<close>): the growing tables, their loading, \<open>qsort\<close> and \<open>bsearch\<close>.
    \<open>Symbol_Lemmas\<close>: the search is right on a sorted table (locale \<open>symbol_index\<close>), loading
    collects what the libraries deliver.
  \<^item> \<open>Paths\<close> (\<open>utils.c\<close>): canonical paths.
  \<^item> \<open>Inferior\<close> (\<open>inferior.c\<close>): the status updates, attaching, detaching, killing, running
    (the child of the fork is a function of its own, and its message passes through a pipe),
    continuing, stepping. \<open>Inferior_Lemmas\<close> and \<open>Inferior_Properties\<close>: the invariant \<open>inf_ok\<close>,
    that every call keeps it and nothing undefined happens (locale \<open>safe_service\<close>).
    \<open>Process_Properties\<close>: running, continuing from a breakpoint, creation and destruction.
  \<^item> \<open>Memory\<close> (\<open>sylvan_get_memory\<close> and \<open>sylvan_set_memory\<close>): words, and the last partial word.
    \<open>Library_Properties\<close>: symbols, paths and memory.

  \<^bold>\<open>The interface.\<close>
  \<^item> \<open>Terminal\<close> and \<open>Tables\<close> (\<open>ui_utils.c\<close>): coloured messages, the size of the terminal, tables
    with their widths scaled in single precision and their pages.
  \<^item> \<open>Registers\<close> (\<open>register.c\<close>, \<open>defs/register_info.h\<close>): the table of registers, as cells of
    the register structure (locale \<open>register_bank\<close>).
  \<^item> \<open>Auxv\<close> (\<open>auxiliary_vectors.c\<close>): the buffer is the whole block of the heap.
  \<^item> \<open>Registry\<close> (\<open>command_registry.c\<close> and the lists under \<open>src/defs\<close>): commands and aliases,
    as lists in the order of insertion (locale \<open>keyed_table\<close>).
  \<^item> \<open>Commands\<close>, \<open>Breakpoint_Commands\<close>, \<open>Memory_Commands\<close>, and the end of \<open>Disassembly\<close>
    (\<open>command_handler.c\<close>): one definition per handler. A command is its words, the size of the
    array behind them and what the unused part of it holds, so that a handler that reads behind
    the null pointer is modelled as it is.
  \<^item> \<open>Disassembly\<close> (\<open>disassemble.c\<close>): the program headers, the bounds of a function, decoding.
  \<^item> \<open>Shell\<close> (\<open>user_interface.c\<close>, \<open>debugger_startup.c\<close>, \<open>sylvan.c\<close>): a line and its words, the
    loop, the options and the main function.
  \<^item> \<open>Line_Memory\<close> (\<open>user_interface.c\<close> again): reading a line with the blocks of the heap that it
    goes through (record \<open>line_mem\<close>), \<open>strtok\<close> and what it keeps, the handler of the signal and
    the hook that \<open>readline\<close> calls; what happens while a line is edited is a parameter.
    \<open>Line_Memory_Lemmas\<close>: blocks and words. \<open>Line_Refinement\<close>: it reads what \<open>Shell\<close> reads on
    lists. \<open>Line_Blocks\<close>: a turn of the loop gives back every block, by \<open>Handler_Frames\<close>, which
    shows that no handler touches them. \<open>Line_Properties\<close>: the loop as a whole.
  \<^item> \<open>Console_Properties\<close>, \<open>Registry_Properties\<close>, \<open>Command_Properties\<close>,
    \<open>Disassembly_Properties\<close> and \<open>Shell_Properties\<close> hold what they do.

  \<^bold>\<open>The hash tables.\<close>
  \<^item> \<open>Hash_Table\<close> (\<open>include/uthash.h\<close>): the macros that the registry expands, on a store of hash
    handles and tables with every pointer explicit: a null or freed object that is dereferenced
    is \<open>UB\<close>. A handle is named by the element that holds it.
  \<^item> \<open>Hash_Table_Lemmas\<close>: doubly linked lists, and the chains of the buckets.
    \<open>Hash_Table_Specs\<close>: the invariant \<open>hash_ok\<close>, by which a head stands for the list of its
    elements; searching. \<open>Hash_Table_Growth\<close>: adding and doubling. \<open>Hash_Table_Deletion\<close>:
    deleting, counting, checking.
  \<^item> \<open>Hash_Table_Service\<close>: what the registry relies on (locale \<open>string_table\<close>), interpreted by the
    hash tables; the rule of \<open>HASH_ITER\<close>.
  \<^item> \<open>Hash_Table_Macros\<close>: the macros that the program does not expand: replacing, adding in order,
    sorting, selecting, clearing. \<open>Bottom_Up_Sort\<close>: a merge sort on lists by growing runs is the
    stable sort of the library. \<open>Hash_Table_Sorting\<close>: \<open>HASH_SRT\<close> is that sort on the links.
    \<open>Hash_Table_Order\<close>: adding in order, replacing, clearing, the size. \<open>Hash_Table_Selecting\<close>: the
    second table of \<open>HASH_SELECT\<close>, and its tail, which is not moved.
  \<^item> \<open>Hash_Table_Sessions\<close>: any sequence of these operations, against a list of keys and elements.
    \<open>Hash_Table_Properties\<close>: what holds after a session.
  \<^item> \<open>Hash_Functions\<close>: the other hash functions (locale \<open>byte_hash\<close> for those that go byte by byte
    in steps that can be undone) and the Bloom filter.
  \<^item> \<open>Registry_Tables\<close> (\<open>command_registry.c\<close> again): its functions on two hash tables, with the
    static elements and the blocks of the heap. \<open>Registry_Refinement\<close>: they give the answers and
    the output of \<open>Registry\<close>, so that what is shown of the lists holds of the tables.

  \<^bold>\<open>The whole.\<close>
  \<^item> \<open>Frames\<close>: a library call leaves the part of the state that only the interface uses as it
    was, and the messages of the library have no percent sign, which matters because the
    interface uses them as formats (collection \<open>framing\<close>; locales \<open>stable\<close> and \<open>frame\<close>).
  \<^item> \<open>Sessions\<close>: any sequence of permitted commands is safe, by the same locale
    \<open>safe_service\<close> as the calls of the library, now on \<open>handle_command\<close>. \<open>permitted\<close> leaves out
    the words that the code does not check (a number equal to the size of the array, a word too
    short for its prefix to be skipped, a pid that is no process), and the commands whose
    handlers need more than the invariant (\<open>run\<close>, \<open>disassemble\<close>, \<open>memory_write\<close>, \<open>set_alias\<close>,
    and three of the \<open>info\<close> commands, which print a null pointer or parse what the system
    delivers).
  \<^item> \<open>Breakpoint_Sessions\<close>: what the user types to set, delete, enable and disable breakpoints at
    addresses refines the map of \<open>Breakpoint_Service\<close>, and the line that is printed tells the result.
  \<^item> \<open>Startup_Properties\<close>: a run of the program from its start to its end.

  \<^bold>\<open>Bounds.\<close> Loops of the code are structural recursions, or functions with a measure. The
  loops of \<open>uthash.h\<close> follow pointers and those of \<open>Line_Memory\<close> follow a string or an array; they
  are written with \<open>loop\<close>, which diverges where they do not end. That they end is part of what is
  shown, save for the loop over the lines, which goes on as long as the user does. The tables hold at most 63 elements, and
  at most 200 are added to a table, so that its size stays below \<open>2 ^ 28\<close>: a table that is doubled
  without end would wrap around. Keys are shorter than \<open>2 ^ 32\<close>. Four loops
  have fuel or may diverge: a \<open>waitpid\<close> that is interrupted for ever (\<open>retry_eintr\<close>, a partial
  function; \<open>system_ok\<close> says that it is not), \<open>skip_line\<close> on a line that has no end, \<open>decode_loop\<close> (one more than the length of the
  buffer, which is enough where the decoder takes a byte at least), and \<open>shell_loop\<close> (one turn per
  line; more fuel does not change an outcome).

  \<^bold>\<open>Not modelled.\<close> Of \<open>uthash.h\<close> the configurations \<open>HASH_NONFATAL_OOM\<close>, in which a failed
  allocation is rolled back, and \<open>HASH_EMIT_KEYS\<close>, which writes keys to a file; the Bloom filter is
  modelled on its own, not inside a table. The handlers work on the lists of \<open>Registry\<close>. The calls that set up
  readline and restore the terminal act only inside readline. A signal that arrives outside of
  \<open>readline\<close> is taken as the first of the next line. Releasing memory has an effect for the
  blocks of a line, the blocks of an alias, the hash tables and the inferior; the other blocks are
  values of the model.
\<close>

end
